(* ===== verification/Prelude.thy ===== *)
theory Prelude
  imports Main "HOL-Library.Word" "HOL-Library.Monad_Syntax"
begin

unbundle bit_operations_syntax

text \<open>
  Shared vocabulary of the GooseOS development: the machine integer types of the
  Rust sources, the panic monad, bounds-checked array access, Rust's
  \<open>trailing_zeros\<close>, \<open>leading_zeros\<close> and \<open>count_ones\<close>, and the generic lemmas on words,
  lists and cyclic scans that the component theories use.

  \<^item> A Rust \<open>panic!\<close>, a failed \<open>assert!\<close>, an \<open>expect\<close> on \<open>Err\<close> and an out-of-range
    index all end in the kernel's panic handler, which halts the machine. They are
    the value \<open>None\<close> of the option monad; \<open>do\<close> blocks thread it.
  \<^item> A Rust \<open>Result<T, E>\<close> is the sum \<open>E + T\<close>.
  \<^item> The Makefile builds every image with \<open>--release\<close>, so \<open>+\<close>, \<open>-\<close> and \<open>*\<close> on machine
    integers wrap: they are the operations of type \<open>word\<close>.
\<close>

text \<open>Alignment stays in the source's form \<open>a % n == 0\<close>.\<close>

declare mod_0_imp_dvd [rule del]

section \<open>Types\<close>

type_synonym u8 = "8 word"
type_synonym u16 = "16 word"
type_synonym u32 = "32 word"
type_synonym u64 = "64 word"
type_synonym usize = "64 word"

named_theorems arr_simps \<open>bounds-checked array access\<close>
named_theorems kernel_defs \<open>definitions unfolded by the handler proofs\<close>

section \<open>Bounds-checked arrays\<close>

definition idx :: "'a list \<Rightarrow> nat \<Rightarrow> 'a option" where
  "idx xs i = (if i < length xs then Some (xs ! i) else None)"

definition upd :: "'a list \<Rightarrow> nat \<Rightarrow> 'a \<Rightarrow> 'a list option" where
  "upd xs i v = (if i < length xs then Some (xs[i := v]) else None)"

definition assert_that :: "bool \<Rightarrow> unit option" where
  "assert_that b = (if b then Some () else None)"

lemma idx_in [arr_simps, simp]: "i < length xs \<Longrightarrow> idx xs i = Some (xs ! i)"
  by (simp add: idx_def)

lemma upd_in [arr_simps, simp]: "i < length xs \<Longrightarrow> upd xs i v = Some (xs[i := v])"
  by (simp add: upd_def)

lemma idx_eq_Some [arr_simps]: "idx xs i = Some v \<longleftrightarrow> i < length xs \<and> v = xs ! i"
  by (auto simp: idx_def)

lemma upd_eq_Some [arr_simps]: "upd xs i v = Some ys \<longleftrightarrow> i < length xs \<and> ys = xs[i := v]"
  by (auto simp: upd_def)

lemma assert_that_Some [arr_simps, simp]: "assert_that b = Some u \<longleftrightarrow> b"
  by (simp add: assert_that_def)

lemma assert_that_True [simp]: "assert_that True = Some ()"
  by (simp add: assert_that_def)

section \<open>Bit counting\<close>

definition trailing_zeros :: "'a::len word \<Rightarrow> nat" where
  "trailing_zeros w = length (takeWhile (\<lambda>i. \<not> bit w i) [0..<LENGTH('a)])"

definition leading_zeros :: "'a::len word \<Rightarrow> nat" where
  "leading_zeros w = length (takeWhile (\<lambda>i. \<not> bit w i) (rev [0..<LENGTH('a)]))"

definition count_ones :: "'a::len word \<Rightarrow> nat" where
  "count_ones w = length (filter (bit w) [0..<LENGTH('a)])"

lemma takeWhile_upt_length:
  assumes "m \<le> n" "\<And>i. i < m \<Longrightarrow> P i" "m < n \<Longrightarrow> \<not> P m"
  shows "length (takeWhile P [0..<n]) = m"
proof -
  have "[0..<n] = [0..<m] @ [m..<n]"
    using upt_add_eq_append [of 0 m "n - m"] assms(1) by simp
  moreover have "takeWhile P [m..<n] = []"
    using assms(1,3) by (cases "m < n") (auto simp: upt_conv_Cons)
  moreover have "takeWhile P ([0..<m] @ [m..<n]) = [0..<m] @ takeWhile P [m..<n]"
    by (rule takeWhile_append2) (simp add: assms(2))
  ultimately show ?thesis by simp
qed

lemma trailing_zeros_first:
  fixes w :: "'a::len word"
  assumes "w \<noteq> 0"
  shows "trailing_zeros w < LENGTH('a)"
    and "bit w (trailing_zeros w)"
    and "\<And>i. i < trailing_zeros w \<Longrightarrow> \<not> bit w i"
proof -
  let ?P = "\<lambda>i. \<not> bit w i"
  have ex: "\<exists>i < LENGTH('a). bit w i"
    using assms by (metis bit_word_eqI bit_0_eq bot_apply bot_bool_def)
  define m where "m = (LEAST i. bit w i)"
  have m1: "bit w m" using ex unfolding m_def by (metis LeastI)
  have m2: "i < m \<Longrightarrow> \<not> bit w i" for i unfolding m_def by (rule not_less_Least)
  have m3: "m < LENGTH('a)" using m1 by (simp add: bit_imp_le_length)
  have "trailing_zeros w = m"
    unfolding trailing_zeros_def
    by (rule takeWhile_upt_length) (use m1 m2 m3 in auto)
  then show "trailing_zeros w < LENGTH('a)" "bit w (trailing_zeros w)"
    "\<And>i. i < trailing_zeros w \<Longrightarrow> \<not> bit w i"
    using m1 m2 m3 by auto
qed

lemma count_ones_card: "count_ones (w :: 'a::len word) = card {i. i < LENGTH('a) \<and> bit w i}"
proof -
  have "{i. i < LENGTH('a) \<and> bit w i} = set (filter (bit w) [0..<LENGTH('a)])" by auto
  then show ?thesis
    unfolding count_ones_def by (metis distinct_card distinct_filter distinct_upt)
qed

lemma upt_split: "k < n \<Longrightarrow> [0..<n] = [0..<k] @ k # [Suc k..<n]"
  by (metis append_Cons append_Nil le_add_diff_inverse less_imp_le_nat upt_add_eq_append upt_conv_Cons zero_le)

lemma card_diff_insert: "finite A \<Longrightarrow> x \<in> A \<Longrightarrow> x \<notin> B \<Longrightarrow> card (A - B) = Suc (card (A - insert x B))"
  by (metis DiffI Diff_insert card_Suc_Diff1 finite_Diff)

section \<open>Words\<close>

lemma unat_of_nat_small: "n < 2 ^ LENGTH('a) \<Longrightarrow> unat (of_nat n :: 'a::len word) = n"
  by (simp add: unat_of_nat take_bit_nat_eq_self)

lemma unat_add_small:
  "unat a + unat b < 2 ^ LENGTH('a) \<Longrightarrow> unat (a + b :: 'a::len word) = unat a + unat b"
  by (simp add: unat_word_ariths)

lemma unat_mult_small:
  "unat a * unat b < 2 ^ LENGTH('a) \<Longrightarrow> unat (a * b :: 'a::len word) = unat a * unat b"
  by (simp add: unat_word_ariths)

lemma word_mod_eq_0_iff: "(w mod v = (0 :: 'a::len word)) \<longleftrightarrow> unat w mod unat v = 0"
  by (simp add: word_unat_eq_iff unat_mod)

lemma of_nat_unat_eq: "of_nat (unat w) = (w :: 'a::len word)"
  by simp

lemma of_nat_eq_unat_iff:
  "n < 2 ^ LENGTH('a) \<Longrightarrow> (of_nat n = (w :: 'a::len word)) \<longleftrightarrow> unat w = n"
  by (metis unat_of_nat_small word_nat_cases word_unat_eq_iff)

end
