(* ===== verification/Wasm.thy ===== *)
theory Wasm
  imports Prelude
begin

unbundle bit_operations_syntax

text \<open>
  \<open>wasm.rs\<close>: the WebAssembly module parser.  A Rust \<open>Result\<close> that can also panic is an option of a
  sum: \<open>None\<close> is the panic (an out-of-range index), \<open>Some (Inl e)\<close> the returned error, \<open>Some (Inr x)\<close>
  the result.  \<open>bind_res\<close> is the \<open>?\<close> operator and \<open>for_res\<close> the counted \<open>for\<close> loop with \<open>?\<close> in its body.

  A byte slice has at most \<open>2 ^ 63 - 1\<close> elements, and a section or body length is a \<open>u32\<close>, so cursor
  positions never reach \<open>2 ^ 64\<close>: they are natural numbers.  The one subtraction that can wrap,
  \<open>remaining\<close>, is written with its wrap-around.
\<close>

section \<open>Results that can also panic\<close>

type_synonym ('e, 'a) res = "('e + 'a) option"

abbreviation ok_res :: "'a \<Rightarrow> ('e, 'a) res" where "ok_res x \<equiv> Some (Inr x)"
abbreviation err_res :: "'e \<Rightarrow> ('e, 'a) res" where "err_res e \<equiv> Some (Inl e)"

fun bind_res :: "('e, 'a) res \<Rightarrow> ('a \<Rightarrow> ('e, 'b) res) \<Rightarrow> ('e, 'b) res" where
  "bind_res None f = None"
| "bind_res (Some (Inl e)) f = Some (Inl e)"
| "bind_res (Some (Inr x)) f = f x"

definition or_panic :: "'a option \<Rightarrow> ('e, 'a) res" where
  "or_panic = map_option Inr"

primrec for_res :: "('i \<Rightarrow> 's \<Rightarrow> ('e, 's) res) \<Rightarrow> 'i list \<Rightarrow> 's \<Rightarrow> ('e, 's) res" where
  "for_res f [] s = ok_res s"
| "for_res f (i # is) s = bind_res (f i s) (for_res f is)"

lemma bind_res_cong [fundef_cong]:
  "m = m' \<Longrightarrow> (\<And>x. m' = ok_res x \<Longrightarrow> f x = g x) \<Longrightarrow> bind_res m f = bind_res m' g"
  by (cases "(m', f)" rule: bind_res.cases) auto

lemma or_panic_simps [simp]: "or_panic (Some x) = ok_res x" "or_panic None = None"
  by (simp_all add: or_panic_def)

text \<open>
  \<open>holds P r\<close>: the computation does not panic, and \<open>P\<close> holds of what it returns when it succeeds.
  The rules follow the shape of the code.
\<close>

fun holds :: "('a \<Rightarrow> bool) \<Rightarrow> ('e, 'a) res \<Rightarrow> bool" where
  "holds P None \<longleftrightarrow> False"
| "holds P (Some (Inl e)) \<longleftrightarrow> True"
| "holds P (Some (Inr x)) \<longleftrightarrow> P x"

lemma holds_bind: "holds P m \<Longrightarrow> (\<And>x. P x \<Longrightarrow> holds Q (f x)) \<Longrightarrow> holds Q (bind_res m f)"
  by (cases "(m, f)" rule: bind_res.cases) auto

lemma holds_mono: "holds P m \<Longrightarrow> (\<And>x. P x \<Longrightarrow> Q x) \<Longrightarrow> holds Q m"
  by (cases "(P, m)" rule: holds.cases) auto

lemma holds_for:
  "P [] s \<Longrightarrow> (\<And>done i s. P done s \<Longrightarrow> i \<in> set is \<Longrightarrow> holds (P (done @ [i])) (f i s)) \<Longrightarrow>
   holds (P is) (for_res f is s)"
proof (induction "is" arbitrary: s P)
  case (Cons i "is")
  show ?case
    unfolding for_res.simps
  proof (rule holds_bind)
    show "holds (P [i]) (f i s)" using Cons.prems(2) [of "[]" s i] Cons.prems(1) by simp
    show "holds (P (i # is)) (for_res f is s')" if "P [i] s'" for s'
      using Cons.IH [of "\<lambda>done. P (i # done)" s'] Cons.prems(2) that by fastforce
  qed
qed simp

lemma holds_for_inv:
  "P s \<Longrightarrow> (\<And>i s. P s \<Longrightarrow> i \<in> set is \<Longrightarrow> holds P (f i s)) \<Longrightarrow> holds P (for_res f is s)"
  by (rule holds_for [of "\<lambda>_. P"])

lemma bind_res_assoc: "bind_res (bind_res m f) g = bind_res m (\<lambda>x. bind_res (f x) g)"
  by (cases "(m, f)" rule: bind_res.cases) auto

lemma for_res_append:
  "for_res f (xs @ ys) s = bind_res (for_res f xs s) (for_res f ys)"
proof (induction xs arbitrary: s)
  case (Cons x xs)
  then show ?case by (cases "(f x s, for_res f xs)" rule: bind_res.cases) auto
qed simp

lemma for_res_cong:
  "(\<And>i s. i \<in> set is \<Longrightarrow> f i s = g i s) \<Longrightarrow> for_res f is s = for_res g is s"
  by (induction "is" arbitrary: s) (auto intro!: bind_res_cong)

section \<open>Constants\<close>

definition WASM_MAGIC :: "u8 list" where "WASM_MAGIC = [0x00, 0x61, 0x73, 0x6D]"
definition WASM_VERSION :: "u8 list" where "WASM_VERSION = [0x01, 0x00, 0x00, 0x00]"

definition SEC_TYPE :: u8 where "SEC_TYPE = 1"
definition SEC_IMPORT :: u8 where "SEC_IMPORT = 2"
definition SEC_FUNCTION :: u8 where "SEC_FUNCTION = 3"
definition SEC_MEMORY :: u8 where "SEC_MEMORY = 5"
definition SEC_EXPORT :: u8 where "SEC_EXPORT = 7"
definition SEC_CODE :: u8 where "SEC_CODE = 10"
definition SEC_DATA :: u8 where "SEC_DATA = 11"

definition IMPORT_FUNC :: u8 where "IMPORT_FUNC = 0x00"
definition IMPORT_TABLE :: u8 where "IMPORT_TABLE = 0x01"
definition IMPORT_MEMORY :: u8 where "IMPORT_MEMORY = 0x02"
definition IMPORT_GLOBAL :: u8 where "IMPORT_GLOBAL = 0x03"

definition VAL_I32 :: u8 where "VAL_I32 = 0x7F"
definition VAL_I64 :: u8 where "VAL_I64 = 0x7E"
definition VAL_F32 :: u8 where "VAL_F32 = 0x7D"
definition VAL_F64 :: u8 where "VAL_F64 = 0x7C"

definition EXPORT_FUNC :: u8 where "EXPORT_FUNC = 0x00"
definition EXPORT_GLOBAL :: u8 where "EXPORT_GLOBAL = 0x03"

definition MAX_TYPES :: nat where "MAX_TYPES = 32"
definition MAX_FUNCS :: nat where "MAX_FUNCS = 64"
definition MAX_IMPORTS :: nat where "MAX_IMPORTS = 16"
definition MAX_EXPORTS :: nat where "MAX_EXPORTS = 16"
definition MAX_PARAMS :: nat where "MAX_PARAMS = 8"
definition MAX_RESULTS :: nat where "MAX_RESULTS = 4"
definition MAX_EXPORT_NAME :: nat where "MAX_EXPORT_NAME = 32"
definition MAX_IMPORT_NAME :: nat where "MAX_IMPORT_NAME = 32"
definition MAX_DATA_SEGS :: nat where "MAX_DATA_SEGS = 8"

lemmas wasm_consts = WASM_MAGIC_def WASM_VERSION_def SEC_TYPE_def SEC_IMPORT_def SEC_FUNCTION_def
  SEC_MEMORY_def SEC_EXPORT_def SEC_CODE_def SEC_DATA_def IMPORT_FUNC_def IMPORT_TABLE_def
  IMPORT_MEMORY_def IMPORT_GLOBAL_def VAL_I32_def VAL_I64_def VAL_F32_def VAL_F64_def
  EXPORT_FUNC_def EXPORT_GLOBAL_def

lemmas wasm_limits = MAX_TYPES_def MAX_FUNCS_def MAX_IMPORTS_def MAX_EXPORTS_def MAX_PARAMS_def
  MAX_RESULTS_def MAX_EXPORT_NAME_def MAX_IMPORT_NAME_def MAX_DATA_SEGS_def

datatype WasmError =
  TooSmall | BadMagic | BadVersion | UnexpectedEof | InvalidLeb128 | InvalidSection | InvalidValType
| InvalidFuncType | InvalidExportKind | TooManyTypes | TooManyFunctions | TooManyExports
| TooManyParams | TooManyResults | ExportNameTooLong | TypeIndexOutOfBounds | MissingCodeSection
| TooManyImports | TooManyDataSegments | InvalidDataSegment | ImportNameTooLong

section \<open>Parsed structures\<close>

record FuncType =
  params :: "u8 list"
  param_count :: nat
  results :: "u8 list"
  result_count :: nat

definition empty_func_type :: FuncType where
  "empty_func_type = \<lparr>params = replicate MAX_PARAMS 0, param_count = 0,
     results = replicate MAX_RESULTS 0, result_count = 0\<rparr>"

record MemoryLimits =
  min_pages :: u32
  max_pages :: u32
  has_max :: bool

record Export =
  export_name :: "u8 list"
  name_len :: nat
  export_kind :: u8
  export_index :: u32

definition empty_export :: Export where
  "empty_export = \<lparr>export_name = replicate MAX_EXPORT_NAME 0, name_len = 0, export_kind = 0,
     export_index = 0\<rparr>"

record DataSegment =
  seg_offset :: u32
  data_offset :: nat
  data_len :: nat

definition empty_data_segment :: DataSegment where
  "empty_data_segment = \<lparr>seg_offset = 0, data_offset = 0, data_len = 0\<rparr>"

record FuncBody =
  body_offset :: nat
  body_length :: nat

record WasmModule =
  types :: "FuncType list"
  type_count :: nat
  import_count :: nat
  import_types :: "u32 list"
  import_names :: "u8 list list"
  import_name_lens :: "nat list"
  func_types :: "u32 list"
  func_count :: nat
  memory :: MemoryLimits
  has_memory :: bool
  exports :: "Export list"
  export_count :: nat
  bodies :: "FuncBody list"
  body_count :: nat
  data_segments :: "DataSegment list"
  data_segment_count :: nat

definition new_module :: WasmModule where
  "new_module = \<lparr>types = replicate MAX_TYPES empty_func_type, type_count = 0, import_count = 0,
     import_types = replicate MAX_IMPORTS 0,
     import_names = replicate MAX_IMPORTS (replicate MAX_IMPORT_NAME 0),
     import_name_lens = replicate MAX_IMPORTS 0,
     func_types = replicate MAX_FUNCS 0, func_count = 0,
     memory = \<lparr>min_pages = 0, max_pages = 0, has_max = False\<rparr>, has_memory = False,
     exports = replicate MAX_EXPORTS empty_export, export_count = 0,
     bodies = replicate MAX_FUNCS \<lparr>body_offset = 0, body_length = 0\<rparr>, body_count = 0,
     data_segments = replicate MAX_DATA_SEGS empty_data_segment, data_segment_count = 0\<rparr>"

text \<open>
  The byte comparison loop shared by \<open>name_eq\<close> and \<open>import_name_eq\<close>: it indexes both arrays and
  panics outside them.
\<close>

fun bytes_eq :: "u8 list \<Rightarrow> u8 list \<Rightarrow> nat list \<Rightarrow> bool option" where
  "bytes_eq a s [] = Some True"
| "bytes_eq a s (i # is) =
     do { x \<leftarrow> idx a i; y \<leftarrow> idx s i; if x \<noteq> y then Some False else bytes_eq a s is }"

definition name_eq :: "Export \<Rightarrow> u8 list \<Rightarrow> bool option" where
  "name_eq e s =
     (if name_len e \<noteq> length s then Some False else bytes_eq (export_name e) s [0..<name_len e])"

fun find_export_from :: "WasmModule \<Rightarrow> u8 list \<Rightarrow> u8 \<Rightarrow> nat list \<Rightarrow> u32 option option" where
  "find_export_from m name kind [] = Some None"
| "find_export_from m name kind (i # is) =
     do { e \<leftarrow> idx (exports m) i;
          hit \<leftarrow> (if export_kind e = kind then name_eq e name else Some False);
          if hit then Some (Some (export_index e)) else find_export_from m name kind is }"

definition find_export :: "WasmModule \<Rightarrow> u8 list \<Rightarrow> u8 \<Rightarrow> u32 option option" where
  "find_export m name kind = find_export_from m name kind [0..<export_count m]"

definition import_name_eq :: "WasmModule \<Rightarrow> nat \<Rightarrow> u8 list \<Rightarrow> bool option" where
  "import_name_eq m i s =
     (if import_count m \<le> i then Some False
      else do { l \<leftarrow> idx (import_name_lens m) i;
                if l \<noteq> length s then Some False
                else do { name \<leftarrow> idx (import_names m) i; bytes_eq name s [0..<length s] } })"

definition func_type :: "WasmModule \<Rightarrow> u32 \<Rightarrow> FuncType option option" where
  "func_type m func_idx =
     (let i = unat func_idx
      in if func_count m \<le> i then Some None
         else do { ti \<leftarrow> idx (func_types m) i;
                   if type_count m \<le> unat ti then Some None
                   else do { ft \<leftarrow> idx (types m) (unat ti); Some (Some ft) } })"

section \<open>Cursor\<close>

record cursor =
  data :: "u8 list"
  pos :: nat

definition remaining :: "cursor \<Rightarrow> nat" where
  "remaining c = (if pos c \<le> length (data c) then length (data c) - pos c
                  else 2 ^ 64 - (pos c - length (data c)))"

definition read_byte :: "cursor \<Rightarrow> (WasmError, u8 \<times> cursor) res" where
  "read_byte c =
     (if length (data c) \<le> pos c then err_res UnexpectedEof
      else bind_res (or_panic (idx (data c) (pos c))) (\<lambda>b. ok_res (b, c\<lparr>pos := pos c + 1\<rparr>)))"

definition slice :: "'a list \<Rightarrow> nat \<Rightarrow> nat \<Rightarrow> 'a list option" where
  "slice xs i j = (if i \<le> j \<and> j \<le> length xs then Some (take (j - i) (drop i xs)) else None)"

definition read_bytes :: "cursor \<Rightarrow> nat \<Rightarrow> (WasmError, u8 list \<times> cursor) res" where
  "read_bytes c n =
     (if length (data c) < pos c + n then err_res UnexpectedEof
      else bind_res (or_panic (slice (data c) (pos c) (pos c + n)))
             (\<lambda>s. ok_res (s, c\<lparr>pos := pos c + n\<rparr>)))"

definition skip :: "cursor \<Rightarrow> nat \<Rightarrow> (WasmError, cursor) res" where
  "skip c n =
     (if length (data c) < pos c + n then err_res UnexpectedEof else ok_res (c\<lparr>pos := pos c + n\<rparr>))"

function leb128_loop :: "cursor \<Rightarrow> u32 \<Rightarrow> nat \<Rightarrow> (WasmError, u32 \<times> cursor) res" where
  "leb128_loop c result shift =
     bind_res (read_byte c) (\<lambda>(byte, c).
       let result = result OR push_bit shift (ucast (byte AND 0x7F))
       in if byte AND 0x80 = 0 then ok_res (result, c)
          else if 35 \<le> shift + 7 then err_res InvalidLeb128
          else leb128_loop c result (shift + 7))"
  by pat_completeness auto
termination by (relation "measure (\<lambda>(c, r, shift). 35 - shift)") auto

declare leb128_loop.simps [simp del]

definition read_u32_leb128 :: "cursor \<Rightarrow> (WasmError, u32 \<times> cursor) res" where
  "read_u32_leb128 c = leb128_loop c 0 0"

section \<open>Section parsers\<close>

definition is_valid_valtype :: "u8 \<Rightarrow> bool" where
  "is_valid_valtype vt \<longleftrightarrow> vt = VAL_I32 \<or> vt = VAL_I64 \<or> vt = VAL_F32 \<or> vt = VAL_F64"

text \<open>The loops of \<open>parse_type_section\<close> that fill \<open>params\<close> and \<open>results\<close>.\<close>

definition read_valtype :: "nat \<Rightarrow> cursor \<times> u8 list \<Rightarrow> (WasmError, cursor \<times> u8 list) res" where
  "read_valtype j = (\<lambda>(c, vts).
     bind_res (read_byte c) (\<lambda>(vt, c).
       if \<not> is_valid_valtype vt then err_res InvalidValType
       else bind_res (or_panic (upd vts j vt)) (\<lambda>vts. ok_res (c, vts))))"

type_synonym parser = "cursor \<times> WasmModule \<Rightarrow> (WasmError, cursor \<times> WasmModule) res"

definition parse_type :: parser where
  "parse_type = (\<lambda>(c, m).
     if MAX_TYPES \<le> type_count m then err_res TooManyTypes
     else bind_res (read_byte c) (\<lambda>(form, c).
       if form \<noteq> 0x60 then err_res InvalidFuncType
       else bind_res (read_u32_leb128 c) (\<lambda>(pc, c).
         if MAX_PARAMS < unat pc then err_res TooManyParams
         else bind_res (for_res read_valtype [0..<unat pc] (c, params empty_func_type)) (\<lambda>(c, ps).
           bind_res (read_u32_leb128 c) (\<lambda>(rc, c).
             if MAX_RESULTS < unat rc then err_res TooManyResults
             else bind_res (for_res read_valtype [0..<unat rc] (c, results empty_func_type)) (\<lambda>(c, rs).
               bind_res (or_panic (upd (types m) (type_count m)
                 \<lparr>params = ps, param_count = unat pc, results = rs, result_count = unat rc\<rparr>))
               (\<lambda>ts. ok_res (c, m\<lparr>types := ts, type_count := type_count m + 1\<rparr>))))))))"

definition parse_type_section :: parser where
  "parse_type_section = (\<lambda>(c, m).
     bind_res (read_u32_leb128 c) (\<lambda>(count, c). for_res (\<lambda>_. parse_type) [0..<unat count] (c, m)))"

definition parse_function :: parser where
  "parse_function = (\<lambda>(c, m).
     if MAX_FUNCS \<le> func_count m then err_res TooManyFunctions
     else bind_res (read_u32_leb128 c) (\<lambda>(type_idx, c).
       if type_count m \<le> unat type_idx then err_res TypeIndexOutOfBounds
       else bind_res (or_panic (upd (func_types m) (func_count m) type_idx)) (\<lambda>fts.
         ok_res (c, m\<lparr>func_types := fts, func_count := func_count m + 1\<rparr>))))"

definition parse_function_section :: parser where
  "parse_function_section = (\<lambda>(c, m).
     bind_res (read_u32_leb128 c) (\<lambda>(count, c). for_res (\<lambda>_. parse_function) [0..<unat count] (c, m)))"

text \<open>The body of the loop over additional memories.\<close>

definition skip_memory :: "cursor \<Rightarrow> (WasmError, cursor) res" where
  "skip_memory c =
     bind_res (read_byte c) (\<lambda>(f, c).
       bind_res (read_u32_leb128 c) (\<lambda>(_, c).
         if f AND 0x01 \<noteq> 0 then bind_res (read_u32_leb128 c) (\<lambda>(_, c). ok_res c) else ok_res c))"

definition parse_memory_section :: parser where
  "parse_memory_section = (\<lambda>(c, m).
     bind_res (read_u32_leb128 c) (\<lambda>(count, c).
       if 1 \<le> count then
         bind_res (read_byte c) (\<lambda>(flags, c).
           bind_res (read_u32_leb128 c) (\<lambda>(mn, c).
             bind_res (if flags AND 0x01 \<noteq> 0
                       then bind_res (read_u32_leb128 c) (\<lambda>(mx, c). ok_res (mx, True, c))
                       else ok_res (0, False, c)) (\<lambda>(mx, hm, c).
               bind_res (for_res (\<lambda>_. skip_memory) [1..<unat count] c) (\<lambda>c.
                 ok_res (c, m\<lparr>memory := \<lparr>min_pages = mn, max_pages = mx, has_max = hm\<rparr>,
                              has_memory := True\<rparr>)))))
       else ok_res (c, m)))"

text \<open>The byte loop \<open>dst[i] = src[i]\<close> of the name copies.\<close>

definition copy_byte :: "u8 list \<Rightarrow> nat \<Rightarrow> u8 list \<Rightarrow> (WasmError, u8 list) res" where
  "copy_byte src i dst =
     bind_res (or_panic (idx src i)) (\<lambda>b. or_panic (upd dst i b))"

definition parse_export :: parser where
  "parse_export = (\<lambda>(c, m).
     if MAX_EXPORTS \<le> export_count m then err_res TooManyExports
     else bind_res (read_u32_leb128 c) (\<lambda>(len, c).
       if MAX_EXPORT_NAME < unat len then err_res ExportNameTooLong
       else bind_res (read_bytes c (unat len)) (\<lambda>(name_bytes, c).
         bind_res (read_byte c) (\<lambda>(kind, c).
           if EXPORT_GLOBAL < kind then err_res InvalidExportKind
           else bind_res (read_u32_leb128 c) (\<lambda>(index, c).
             bind_res (for_res (copy_byte name_bytes) [0..<unat len] (export_name empty_export)) (\<lambda>name.
               bind_res (or_panic (upd (exports m) (export_count m)
                 \<lparr>export_name = name, name_len = unat len, export_kind = kind, export_index = index\<rparr>))
               (\<lambda>es. ok_res (c, m\<lparr>exports := es, export_count := export_count m + 1\<rparr>))))))))"

definition parse_export_section :: parser where
  "parse_export_section = (\<lambda>(c, m).
     bind_res (read_u32_leb128 c) (\<lambda>(count, c). for_res (\<lambda>_. parse_export) [0..<unat count] (c, m)))"

definition parse_body :: parser where
  "parse_body = (\<lambda>(c, m).
     if MAX_FUNCS \<le> body_count m then err_res TooManyFunctions
     else bind_res (read_u32_leb128 c) (\<lambda>(body_size, c).
       bind_res (or_panic (upd (bodies m) (body_count m)
         \<lparr>body_offset = pos c, body_length = unat body_size\<rparr>)) (\<lambda>bs.
         bind_res (skip c (unat body_size)) (\<lambda>c.
           ok_res (c, m\<lparr>bodies := bs, body_count := body_count m + 1\<rparr>)))))"

definition parse_code_section :: parser where
  "parse_code_section = (\<lambda>(c, m).
     bind_res (read_u32_leb128 c) (\<lambda>(count, c). for_res (\<lambda>_. parse_body) [0..<unat count] (c, m)))"

text \<open>The \<open>IMPORT_FUNC\<close> arm: store the type index and the (truncated) field name.\<close>

definition parse_import_func :: "u8 list \<Rightarrow> parser" where
  "parse_import_func field_name_bytes = (\<lambda>(c, m).
     if MAX_IMPORTS \<le> import_count m then err_res TooManyImports
     else bind_res (read_u32_leb128 c) (\<lambda>(type_idx, c).
       if type_count m \<le> unat type_idx then err_res TypeIndexOutOfBounds
       else bind_res (or_panic (upd (import_types m) (import_count m) type_idx)) (\<lambda>its.
         let copy_len = (if length field_name_bytes \<le> MAX_IMPORT_NAME then length field_name_bytes
                         else MAX_IMPORT_NAME)
         in bind_res (or_panic (idx (import_names m) (import_count m))) (\<lambda>name.
           bind_res (for_res (copy_byte field_name_bytes) [0..<copy_len] name) (\<lambda>name.
             bind_res (or_panic (upd (import_names m) (import_count m) name)) (\<lambda>names.
               bind_res (or_panic (upd (import_name_lens m) (import_count m) copy_len)) (\<lambda>lens.
                 ok_res (c, m\<lparr>import_types := its, import_names := names, import_name_lens := lens,
                              import_count := import_count m + 1\<rparr>))))))))"

definition parse_import :: parser where
  "parse_import = (\<lambda>(c, m).
     bind_res (read_u32_leb128 c) (\<lambda>(mod_name_len, c).
       bind_res (skip c (unat mod_name_len)) (\<lambda>c.
         bind_res (read_u32_leb128 c) (\<lambda>(field_name_len, c).
           bind_res (read_bytes c (unat field_name_len)) (\<lambda>(field_name_bytes, c).
             bind_res (read_byte c) (\<lambda>(kind, c).
               if kind = IMPORT_FUNC then parse_import_func field_name_bytes (c, m)
               else if kind = IMPORT_TABLE then
                 bind_res (read_byte c) (\<lambda>(_, c). bind_res (skip_memory c) (\<lambda>c. ok_res (c, m)))
               else if kind = IMPORT_MEMORY then bind_res (skip_memory c) (\<lambda>c. ok_res (c, m))
               else if kind = IMPORT_GLOBAL then
                 bind_res (read_byte c) (\<lambda>(_, c). bind_res (read_byte c) (\<lambda>(_, c). ok_res (c, m)))
               else err_res InvalidSection))))))"

definition parse_import_section :: parser where
  "parse_import_section = (\<lambda>(c, m).
     bind_res (read_u32_leb128 c) (\<lambda>(count, c). for_res (\<lambda>_. parse_import) [0..<unat count] (c, m)))"

definition parse_data_segment :: parser where
  "parse_data_segment = (\<lambda>(c, m).
     if MAX_DATA_SEGS \<le> data_segment_count m then err_res TooManyDataSegments
     else bind_res (read_u32_leb128 c) (\<lambda>(kind, c).
       if kind \<noteq> 0 then err_res InvalidDataSegment
       else bind_res (read_byte c) (\<lambda>(opcode, c).
         if opcode \<noteq> 0x41 then err_res InvalidDataSegment
         else bind_res (read_u32_leb128 c) (\<lambda>(offset, c).
           bind_res (read_byte c) (\<lambda>(end, c).
             if end \<noteq> 0x0B then err_res InvalidDataSegment
             else bind_res (read_u32_leb128 c) (\<lambda>(len, c).
               let at = pos c
               in bind_res (skip c (unat len)) (\<lambda>c.
                 bind_res (or_panic (upd (data_segments m) (data_segment_count m)
                   \<lparr>seg_offset = offset, data_offset = at, data_len = unat len\<rparr>)) (\<lambda>ds.
                   ok_res (c, m\<lparr>data_segments := ds,
                                data_segment_count := data_segment_count m + 1\<rparr>)))))))))"

definition parse_data_section :: parser where
  "parse_data_section = (\<lambda>(c, m).
     bind_res (read_u32_leb128 c) (\<lambda>(count, c). for_res (\<lambda>_. parse_data_segment) [0..<unat count] (c, m)))"

section \<open>The parser\<close>

text \<open>One round of the section loop.\<close>

definition parse_contents :: "u8 \<Rightarrow> nat \<Rightarrow> parser" where
  "parse_contents section_id section_len = (\<lambda>(c, m).
     if section_id = SEC_TYPE then parse_type_section (c, m)
     else if section_id = SEC_IMPORT then parse_import_section (c, m)
     else if section_id = SEC_FUNCTION then parse_function_section (c, m)
     else if section_id = SEC_MEMORY then parse_memory_section (c, m)
     else if section_id = SEC_EXPORT then parse_export_section (c, m)
     else if section_id = SEC_CODE then parse_code_section (c, m)
     else if section_id = SEC_DATA then parse_data_section (c, m)
     else bind_res (skip c section_len) (\<lambda>c. ok_res (c, m)))"

definition parse_section :: parser where
  "parse_section = (\<lambda>(c, m).
     bind_res (read_byte c) (\<lambda>(section_id, c).
       bind_res (read_u32_leb128 c) (\<lambda>(section_len, c).
         let section_start = pos c
         in bind_res (parse_contents section_id (unat section_len) (c, m)) (\<lambda>(c, m).
           let expected_end = section_start + unat section_len
           in ok_res (if pos c \<noteq> expected_end then (c\<lparr>pos := expected_end\<rparr>, m) else (c, m))))))"

text \<open>What the reads return.\<close>

lemma read_byte_holds:
  "holds (\<lambda>(b, c'). c' = c\<lparr>pos := pos c + 1\<rparr> \<and> pos c < length (data c) \<and> b = data c ! pos c)
     (read_byte c)"
  by (simp add: read_byte_def)

lemma leb128_loop_holds:
  "holds (\<lambda>(v, c'). data c' = data c \<and> pos c < pos c' \<and> pos c' \<le> length (data c))
     (leb128_loop c result shift)"
proof (induction c result shift rule: leb128_loop.induct)
  case (1 c result shift)
  show ?case
    unfolding leb128_loop.simps [of c]
    by (rule holds_bind [OF read_byte_holds])
      (auto simp: Let_def read_byte_def intro!: holds_mono [OF 1])
qed

lemmas read_u32_leb128_holds = leb128_loop_holds [of _ 0 0, folded read_u32_leb128_def]

lemma skip_holds:
  "holds (\<lambda>c'. data c' = data c \<and> pos c' = pos c + n \<and> pos c + n \<le> length (data c)) (skip c n)"
  by (simp add: skip_def)

lemma read_bytes_holds:
  "holds (\<lambda>(s, c'). data c' = data c \<and> length s = n) (read_bytes c n)"
  by (simp add: read_bytes_def slice_def)

lemmas read_holds = read_byte_holds read_u32_leb128_holds skip_holds read_bytes_holds

text \<open>
  The cursor keeps its slice: needed for the termination of the section loop, where the position
  grows and the slice stays.
\<close>

lemma bind_ok: "bind_res m f = ok_res y \<longleftrightarrow> (\<exists>x. m = ok_res x \<and> f x = ok_res y)"
  by (cases "(m, f)" rule: bind_res.cases) auto

lemma or_panic_ok [simp]: "or_panic r = ok_res x \<longleftrightarrow> r = Some x" "or_panic r \<noteq> err_res e"
  by (cases r; simp)+

lemma holds_ok: "holds P m \<Longrightarrow> m = ok_res x \<Longrightarrow> P x"
  by simp

lemma for_res_keeps:
  "for_res f is s = ok_res s' \<Longrightarrow> (\<And>i s s'. f i s = ok_res s' \<Longrightarrow> g s' = g s) \<Longrightarrow> g s' = g s"
proof (induction "is" arbitrary: s)
  case (Cons i "is")
  obtain s1 where "f i s = ok_res s1" "for_res f is s1 = ok_res s'"
    using Cons.prems(1) by (auto simp: bind_ok)
  then show ?case using Cons.IH [of s1] Cons.prems(2) by simp
qed simp

lemma read_keeps:
  "read_byte c = ok_res (b, c') \<Longrightarrow> data c' = data c"
  "read_u32_leb128 c = ok_res (v, c') \<Longrightarrow> data c' = data c"
  "skip c n = ok_res c' \<Longrightarrow> data c' = data c"
  "read_bytes c n = ok_res (s, c') \<Longrightarrow> data c' = data c"
  by (drule holds_ok [OF read_byte_holds] holds_ok [OF read_u32_leb128_holds]
      holds_ok [OF skip_holds] holds_ok [OF read_bytes_holds], simp)+

abbreviation keeps_data :: "parser \<Rightarrow> bool" where
  "keeps_data f \<equiv> \<forall>s s'. f s = ok_res s' \<longrightarrow> data (fst s') = data (fst s)"

lemma section_keeps:
  assumes "keeps_data f"
  shows "keeps_data (\<lambda>(c, m). bind_res (read_u32_leb128 c) (\<lambda>(count, c). for_res (\<lambda>_. f) [0..<unat count] (c, m)))"
proof -
  have "data (fst s') = data (fst s)" if "for_res (\<lambda>_. f) is s = ok_res s'" for "is" s s'
    using for_res_keeps [OF that, of "\<lambda>s. data (fst s)"] assms by blast
  then show ?thesis by (fastforce simp: bind_ok dest: read_keeps(2))
qed

lemma read_valtype_keeps:
  "for_res read_valtype is (c, vs) = ok_res (c', vs') \<Longrightarrow> data c' = data c"
  by (drule for_res_keeps [where g = "\<lambda>s. data (fst s)"])
    (auto simp: read_valtype_def bind_ok split: if_splits dest!: read_keeps)

lemma skip_memory_keeps:
  "skip_memory c = ok_res c' \<Longrightarrow> data c' = data c"
  "for_res (\<lambda>_. skip_memory) is c = ok_res c' \<Longrightarrow> data c' = data c"
proof -
  show *: "data c' = data c" if "skip_memory c = ok_res c'" for c c'
    using that by (auto simp: skip_memory_def bind_ok split: if_splits dest!: read_keeps)
  show "data c' = data c" if "for_res (\<lambda>_. skip_memory) is c = ok_res c'"
    using for_res_keeps [OF that, of data] * by blast
qed

lemma entry_keeps:
  "keeps_data parse_type" "keeps_data parse_function" "keeps_data parse_export"
  "keeps_data parse_body" "keeps_data (parse_import_func field)" "keeps_data parse_data_segment"
  by (auto simp: parse_type_def parse_function_def parse_export_def parse_body_def
      parse_import_func_def parse_data_segment_def bind_ok Let_def split: if_splits
      dest!: read_keeps read_valtype_keeps)

lemma import_keeps: "keeps_data parse_import"
  using entry_keeps(5)
  by (fastforce simp: parse_import_def bind_ok split: if_splits dest!: read_keeps skip_memory_keeps)

lemma memory_keeps: "keeps_data parse_memory_section"
  by (auto simp: parse_memory_section_def bind_ok split: if_splits dest!: read_keeps skip_memory_keeps)

lemma parse_contents_keeps: "keeps_data (parse_contents sid len)"
  using section_keeps [OF entry_keeps(1)] section_keeps [OF entry_keeps(2)]
    section_keeps [OF entry_keeps(3)] section_keeps [OF entry_keeps(4)]
    section_keeps [OF import_keeps] section_keeps [OF entry_keeps(6)] memory_keeps
  unfolding parse_contents_def parse_type_section_def [symmetric]
    parse_function_section_def [symmetric] parse_export_section_def [symmetric]
    parse_code_section_def [symmetric] parse_import_section_def [symmetric]
    parse_data_section_def [symmetric]
  by (auto simp: bind_ok split: if_splits dest!: read_keeps(3))

lemma parse_section_progress:
  assumes "parse_section (c, m) = ok_res (c', m')"
  shows "data c' = data c" "pos c < length (data c)" "pos c < pos c'"
proof -
  obtain b c1 len c2 c3 where
    r: "read_byte c = ok_res (b, c1)" "read_u32_leb128 c1 = ok_res (len, c2)"
    and p: "parse_contents b (unat len) (c2, m) = ok_res (c3, m')"
    and c': "c' = c3\<lparr>pos := pos c2 + unat len\<rparr>"
    using assms by (fastforce simp: parse_section_def bind_ok Let_def split: if_splits)
  have 1: "data c1 = data c \<and> pos c1 = pos c + 1 \<and> pos c < length (data c)"
    using holds_ok [OF read_byte_holds r(1)] by simp
  have 2: "data c2 = data c1 \<and> pos c1 < pos c2"
    using holds_ok [OF read_u32_leb128_holds r(2)] by simp
  show "data c' = data c" using parse_contents_keeps p 1 2 c' by fastforce
  show "pos c < length (data c)" "pos c < pos c'" using 1 2 c' by simp_all
qed

function parse_sections :: "cursor \<times> WasmModule \<Rightarrow> (WasmError, WasmModule) res" where
  "parse_sections (c, m) =
     (if remaining c > 0 then bind_res (parse_section (c, m)) parse_sections else ok_res m)"
  by pat_completeness auto
termination
proof (relation "measure (\<lambda>(c, m). length (data c) - pos c)")
  fix c m s assume "parse_section (c, m) = ok_res s"
  then show "(s, c, m) \<in> measure (\<lambda>(c, m). length (data c) - pos c)"
    using parse_section_progress by (cases s) fastforce
qed simp

declare parse_sections.simps [simp del]

definition wasm_parse :: "u8 list \<Rightarrow> (WasmError, WasmModule) res" where
  "wasm_parse d =
     (if length d < 8 then err_res TooSmall
      else bind_res (or_panic (slice d 0 4)) (\<lambda>magic.
        if magic \<noteq> WASM_MAGIC then err_res BadMagic
        else bind_res (or_panic (slice d 4 8)) (\<lambda>version.
          if version \<noteq> WASM_VERSION then err_res BadVersion
          else bind_res (parse_sections (\<lparr>data = d, pos = 8\<rparr>, new_module)) (\<lambda>m.
            if 0 < func_count m \<and> 0 < body_count m \<and> func_count m \<noteq> body_count m
            then err_res MissingCodeSection
            else ok_res m))))"

section \<open>Well-formed modules\<close>

text \<open>
  What the interpreter may rely on: arrays of their declared sizes, counts within them, value types
  of the specification, type indices that name a parsed type, names within their buffers, and
  function bodies and data segments inside the binary.
\<close>

definition func_type_ok :: "FuncType \<Rightarrow> bool" where
  "func_type_ok ft \<longleftrightarrow> length (params ft) = MAX_PARAMS \<and> param_count ft \<le> MAX_PARAMS \<and>
     length (results ft) = MAX_RESULTS \<and> result_count ft \<le> MAX_RESULTS \<and>
     (\<forall>j<param_count ft. is_valid_valtype (params ft ! j)) \<and>
     (\<forall>j<result_count ft. is_valid_valtype (results ft ! j))"

definition export_ok :: "Export \<Rightarrow> bool" where
  "export_ok e \<longleftrightarrow> length (export_name e) = MAX_EXPORT_NAME \<and> name_len e \<le> MAX_EXPORT_NAME \<and>
     export_kind e \<le> EXPORT_GLOBAL"

definition wasm_wf :: "u8 list \<Rightarrow> WasmModule \<Rightarrow> bool" where
  "wasm_wf d m \<longleftrightarrow>
     length (types m) = MAX_TYPES \<and> type_count m \<le> MAX_TYPES \<and>
     (\<forall>i<type_count m. func_type_ok (types m ! i)) \<and>
     length (import_types m) = MAX_IMPORTS \<and> length (import_names m) = MAX_IMPORTS \<and>
     length (import_name_lens m) = MAX_IMPORTS \<and> import_count m \<le> MAX_IMPORTS \<and>
     (\<forall>i<MAX_IMPORTS. length (import_names m ! i) = MAX_IMPORT_NAME) \<and>
     (\<forall>i<import_count m. unat (import_types m ! i) < type_count m \<and>
        import_name_lens m ! i \<le> MAX_IMPORT_NAME) \<and>
     length (func_types m) = MAX_FUNCS \<and> func_count m \<le> MAX_FUNCS \<and>
     (\<forall>i<func_count m. unat (func_types m ! i) < type_count m) \<and>
     length (exports m) = MAX_EXPORTS \<and> export_count m \<le> MAX_EXPORTS \<and>
     (\<forall>i<export_count m. export_ok (exports m ! i)) \<and>
     length (bodies m) = MAX_FUNCS \<and> body_count m \<le> MAX_FUNCS \<and>
     (\<forall>i<body_count m. body_offset (bodies m ! i) + body_length (bodies m ! i) \<le> length d) \<and>
     length (data_segments m) = MAX_DATA_SEGS \<and> data_segment_count m \<le> MAX_DATA_SEGS \<and>
     (\<forall>i<data_segment_count m.
        data_offset (data_segments m ! i) + data_len (data_segments m ! i) \<le> length d)"

lemma wasm_wf_new: "wasm_wf d new_module"
  by (simp add: wasm_wf_def new_module_def wasm_limits)

lemma all_less_Suc: "(\<forall>i < Suc n. P i) \<longleftrightarrow> (\<forall>i<n. P i) \<and> P n"
  using less_Suc_eq by auto

named_theorems wasm_wf_upd \<open>updates that keep a module well-formed\<close>

lemma wasm_wf_type [wasm_wf_upd]:
  "wasm_wf d m \<Longrightarrow> type_count m < MAX_TYPES \<Longrightarrow> func_type_ok ft \<Longrightarrow>
   wasm_wf d (m\<lparr>types := (types m)[type_count m := ft], type_count := Suc (type_count m)\<rparr>)"
  by (auto simp: wasm_wf_def all_less_Suc nth_list_update less_SucI)

lemma wasm_wf_func [wasm_wf_upd]:
  "wasm_wf d m \<Longrightarrow> func_count m < MAX_FUNCS \<Longrightarrow> unat ti < type_count m \<Longrightarrow>
   wasm_wf d (m\<lparr>func_types := (func_types m)[func_count m := ti], func_count := Suc (func_count m)\<rparr>)"
  by (auto simp: wasm_wf_def all_less_Suc nth_list_update)

lemma wasm_wf_memory [wasm_wf_upd]: "wasm_wf d m \<Longrightarrow> wasm_wf d (m\<lparr>memory := l, has_memory := b\<rparr>)"
  by (simp add: wasm_wf_def)

lemma wasm_wf_export [wasm_wf_upd]:
  "wasm_wf d m \<Longrightarrow> export_count m < MAX_EXPORTS \<Longrightarrow> export_ok e \<Longrightarrow>
   wasm_wf d (m\<lparr>exports := (exports m)[export_count m := e], export_count := Suc (export_count m)\<rparr>)"
  by (auto simp: wasm_wf_def all_less_Suc nth_list_update)

lemma wasm_wf_body [wasm_wf_upd]:
  "wasm_wf d m \<Longrightarrow> body_count m < MAX_FUNCS \<Longrightarrow> off + len \<le> length d \<Longrightarrow>
   wasm_wf d (m\<lparr>bodies := (bodies m)[body_count m := \<lparr>body_offset = off, body_length = len\<rparr>],
     body_count := Suc (body_count m)\<rparr>)"
  by (auto simp: wasm_wf_def all_less_Suc nth_list_update)

lemma wasm_wf_import [wasm_wf_upd]:
  "wasm_wf d m \<Longrightarrow> import_count m < MAX_IMPORTS \<Longrightarrow> unat ti < type_count m \<Longrightarrow>
   length name = MAX_IMPORT_NAME \<Longrightarrow> n \<le> MAX_IMPORT_NAME \<Longrightarrow>
   wasm_wf d (m\<lparr>import_types := (import_types m)[import_count m := ti],
     import_names := (import_names m)[import_count m := name],
     import_name_lens := (import_name_lens m)[import_count m := n], import_count := Suc (import_count m)\<rparr>)"
  by (auto simp: wasm_wf_def all_less_Suc nth_list_update)

lemma wasm_wf_data [wasm_wf_upd]:
  "wasm_wf d m \<Longrightarrow> data_segment_count m < MAX_DATA_SEGS \<Longrightarrow> at + len \<le> length d \<Longrightarrow>
   wasm_wf d (m\<lparr>data_segments := (data_segments m)[data_segment_count m :=
       \<lparr>seg_offset = off, data_offset = at, data_len = len\<rparr>],
     data_segment_count := Suc (data_segment_count m)\<rparr>)"
  by (auto simp: wasm_wf_def all_less_Suc nth_list_update)

lemma wasm_wfD:
  assumes "wasm_wf d m"
  shows "length (types m) = MAX_TYPES" "length (import_types m) = MAX_IMPORTS"
    "length (import_names m) = MAX_IMPORTS" "length (import_name_lens m) = MAX_IMPORTS"
    "length (func_types m) = MAX_FUNCS" "length (exports m) = MAX_EXPORTS"
    "length (bodies m) = MAX_FUNCS" "length (data_segments m) = MAX_DATA_SEGS"
    "i < MAX_IMPORTS \<Longrightarrow> length (import_names m ! i) = MAX_IMPORT_NAME"
  using assms by (simp_all add: wasm_wf_def)

abbreviation state_wf :: "u8 list \<Rightarrow> cursor \<times> WasmModule \<Rightarrow> bool" where
  "state_wf d s \<equiv> data (fst s) = d \<and> wasm_wf d (snd s)"

lemma read_valtypes_holds:
  assumes "n \<le> length vts"
  shows "holds (\<lambda>(c', vts'). data c' = data c \<and> length vts' = length vts \<and>
    (\<forall>j<n. is_valid_valtype (vts' ! j))) (for_res read_valtype [0..<n] (c, vts))"
proof -
  let ?P = "\<lambda>done (c', vts'). data c' = data c \<and> length vts' = length vts \<and>
    (\<forall>j\<in>set done. is_valid_valtype (vts' ! j))"
  have "holds (?P [0..<n]) (for_res read_valtype [0..<n] (c, vts))"
  proof (rule holds_for)
    fix "done" j and s :: "cursor \<times> u8 list"
    assume "?P done s" "j \<in> set [0..<n]"
    then show "holds (?P (done @ [j])) (read_valtype j s)"
      using assms unfolding read_valtype_def
      by (auto intro!: holds_bind [OF read_byte_holds] simp: nth_list_update split: prod.split)
  qed simp
  then show ?thesis by (rule holds_mono) auto
qed

lemma copy_bytes_holds:
  assumes "n \<le> length src" "n \<le> length dst"
  shows "holds (\<lambda>dst'. length dst' = length dst) (for_res (copy_byte src) [0..<n] dst)"
  by (rule holds_for_inv) (use assms in \<open>auto simp: copy_byte_def\<close>)

lemma skip_memory_holds: "data c = d \<Longrightarrow> holds (\<lambda>c'. data c' = d) (skip_memory c)"
  unfolding skip_memory_def
  by (auto intro!: holds_bind [OF read_byte_holds] holds_bind [OF read_u32_leb128_holds])

abbreviation keeps_wf :: "parser \<Rightarrow> bool" where
  "keeps_wf f \<equiv> \<forall>d s. state_wf d s \<longrightarrow> holds (state_wf d) (f s)"

lemmas read_intros = holds_bind [OF read_byte_holds] holds_bind [OF read_u32_leb128_holds]
  holds_bind [OF skip_holds] holds_bind [OF read_bytes_holds]

lemma parse_type_wf: "keeps_wf parse_type"
  unfolding parse_type_def
  by (auto intro!: read_intros holds_bind [OF read_valtypes_holds] wasm_wf_type
      simp: wasm_wfD(1) not_le not_less empty_func_type_def func_type_ok_def)

lemma parse_function_wf: "keeps_wf parse_function"
  unfolding parse_function_def
  by (auto intro!: read_intros wasm_wf_func simp: wasm_wfD(5) not_le)

lemma parse_memory_section_wf: "keeps_wf parse_memory_section"
proof -
  have "holds (\<lambda>c'. data c' = data c) (for_res (\<lambda>_. skip_memory) is c)" for c "is"
    by (rule holds_for_inv) (auto intro: skip_memory_holds)
  note this [THEN holds_bind, intro!]
  show ?thesis
    unfolding parse_memory_section_def
    by (auto intro!: read_intros wasm_wf_memory simp: bind_res_assoc)
qed

lemma parse_export_wf: "keeps_wf parse_export"
  unfolding parse_export_def
  by (auto intro!: read_intros holds_bind [OF copy_bytes_holds] wasm_wf_export
      simp: wasm_wfD(6) not_le not_less empty_export_def export_ok_def)

lemma parse_body_wf: "keeps_wf parse_body"
  unfolding parse_body_def
  by (auto intro!: read_intros wasm_wf_body simp: wasm_wfD(7) not_le)

lemma parse_import_func_wf: "keeps_wf (parse_import_func field)"
  unfolding parse_import_func_def
  by (auto intro!: read_intros holds_bind [OF copy_bytes_holds] wasm_wf_import
      simp: wasm_wfD not_le Let_def)

lemma parse_import_wf: "keeps_wf parse_import"
  unfolding parse_import_def
  by (auto intro!: read_intros holds_bind [OF skip_memory_holds]
      simp: parse_import_func_wf [rule_format])

lemma parse_data_segment_wf: "keeps_wf parse_data_segment"
  unfolding parse_data_segment_def
  by (auto intro!: read_intros wasm_wf_data simp: wasm_wfD(8) not_le Let_def)

lemma section_wf:
  assumes "keeps_wf f"
  shows "keeps_wf (\<lambda>(c, m). bind_res (read_u32_leb128 c) (\<lambda>(count, c). for_res (\<lambda>_. f) [0..<unat count] (c, m)))"
  by (auto intro!: read_intros holds_for_inv simp: assms [rule_format])

lemma parse_contents_wf: "keeps_wf (parse_contents sid len)"
  using section_wf [OF parse_type_wf] section_wf [OF parse_function_wf] section_wf [OF parse_export_wf]
    section_wf [OF parse_body_wf] section_wf [OF parse_import_wf] section_wf [OF parse_data_segment_wf]
    parse_memory_section_wf
  unfolding parse_contents_def parse_type_section_def [symmetric]
    parse_function_section_def [symmetric] parse_export_section_def [symmetric]
    parse_code_section_def [symmetric] parse_import_section_def [symmetric]
    parse_data_section_def [symmetric]
  by (auto intro!: read_intros)

lemma parse_section_wf: "keeps_wf parse_section"
  unfolding parse_section_def
  by (auto intro!: read_intros holds_bind [OF parse_contents_wf [rule_format]] simp: Let_def)

lemma parse_sections_wf: "data c = d \<Longrightarrow> wasm_wf d m \<Longrightarrow> holds (wasm_wf d) (parse_sections (c, m))"
proof (induction "(c, m)" arbitrary: c m rule: parse_sections.induct)
  case (1 c m)
  show ?case
  proof (cases "parse_section (c, m)")
    case None
    then show ?thesis using parse_section_wf 1(2,3) by fastforce
  next
    case (Some r)
    then show ?thesis
      using 1 parse_section_wf [rule_format, of "(c, m)" d]
      by (cases r) (auto simp: parse_sections.simps [of c m])
  qed
qed


section \<open>Lookups\<close>

lemma bytes_eq_all:
  "set is \<subseteq> {..<min (length a) (length s)} \<Longrightarrow> bytes_eq a s is = Some (\<forall>i\<in>set is. a ! i = s ! i)"
  by (induction "is") auto

lemma bytes_eq_prefix:
  assumes "length s \<le> length a"
  shows "bytes_eq a s [0..<length s] = Some (take (length s) a = s)"
proof -
  have "(take (length s) a = s) = (\<forall>i<length s. a ! i = s ! i)"
    using assms by (simp add: list_eq_iff_nth_eq min_absorb2)
  moreover have "bytes_eq a s [0..<length s] = Some (\<forall>i\<in>set [0..<length s]. a ! i = s ! i)"
    by (rule bytes_eq_all) (use assms in auto)
  ultimately show ?thesis by (simp add: Ball_def)
qed

lemma name_eq_exact:
  "export_ok e \<Longrightarrow> name_eq e s = Some (take (name_len e) (export_name e) = s)"
  using bytes_eq_prefix [of s "export_name e"] by (auto simp: name_eq_def export_ok_def)

lemma find_export_from_find:
  assumes "wasm_wf d m" "set is \<subseteq> {..<export_count m}"
  shows "find_export_from m name kind is = Some (map_option export_index
    (find (\<lambda>e. export_kind e = kind \<and> take (name_len e) (export_name e) = name)
       (map ((!) (exports m)) is)))"
  using assms(2)
proof (induction "is")
  case (Cons i "is")
  then have "i < length (exports m)" "export_ok (exports m ! i)"
    using assms(1) by (auto simp: wasm_wf_def)
  then show ?case using Cons by (auto simp: name_eq_exact)
qed simp

text \<open>
  \<open>find_export\<close> is total on parsed modules and returns the index of the first export of the
  wanted kind whose name, up to its recorded length, is exactly the given one.
\<close>
theorem find_export_exact:
  assumes "wasm_wf d m"
  shows "find_export m name kind = Some (map_option export_index
    (find (\<lambda>e. export_kind e = kind \<and> take (name_len e) (export_name e) = name)
       (take (export_count m) (exports m))))"
proof -
  have "map ((!) (exports m)) [0..<export_count m] = take (export_count m) (exports m)"
    using assms by (intro nth_equalityI) (auto simp: wasm_wf_def)
  then show ?thesis
    using find_export_from_find [OF assms, of "[0..<export_count m]" name kind]
    by (simp add: find_export_def atLeast0LessThan)
qed

definition demo_export :: Export where
  "demo_export = \<lparr>export_name = [0x61, 0x64, 0x64] @ replicate 29 0, name_len = 3,
     export_kind = EXPORT_FUNC, export_index = 7\<rparr>"

theorem find_export_exact_witness:
  "find_export (new_module\<lparr>exports := (exports new_module)[0 := demo_export], export_count := 1\<rparr>)
     [0x61, 0x64, 0x64] EXPORT_FUNC = Some (Some 7)"
proof -
  let ?m = "new_module\<lparr>exports := (exports new_module)[0 := demo_export], export_count := 1\<rparr>"
  have "wasm_wf [] ?m"
    using wasm_wf_export [OF wasm_wf_new, of demo_export]
    by (simp add: new_module_def demo_export_def export_ok_def wasm_limits wasm_consts)
  moreover have "take (export_count ?m) (exports ?m) = [demo_export]"
    by (simp add: new_module_def wasm_limits eval_nat_numeral)
  ultimately show ?thesis
    using find_export_exact [of "[]" ?m "[0x61, 0x64, 0x64]" EXPORT_FUNC] by (simp add: demo_export_def)
qed

lemma wasm_parse_holds:
  "holds (\<lambda>m. wasm_wf d m \<and> (0 < func_count m \<and> 0 < body_count m \<longrightarrow> func_count m = body_count m))
     (wasm_parse d)"
  unfolding wasm_parse_def
  by (auto simp: slice_def intro!: holds_bind [OF parse_sections_wf] wasm_wf_new)

lemma parse_wf_of: "wasm_parse d = ok_res m \<Longrightarrow> wasm_wf d m"
  using wasm_parse_holds [of d] by simp

text \<open>
  C18. The parser is total on every byte string: it neither panics nor loops, and a module it returns
  satisfies every bound the interpreter indexes by - array sizes, type indices, value types, names,
  function bodies and data segments inside the binary.
\<close>
theorem wasm_parse_wf:
  "\<exists>r. wasm_parse d = Some r \<and>
     (\<forall>m. r = Inr m \<longrightarrow> wasm_wf d m \<and>
        (0 < func_count m \<and> 0 < body_count m \<longrightarrow> func_count m = body_count m))"
  using wasm_parse_holds [of d] by (cases "wasm_parse d") (auto split: sum.splits)

theorem wasm_parse_wf_witness:
  "\<exists>m. wasm_parse [0, 0x61, 0x73, 0x6D, 1, 0, 0, 0] = ok_res m \<and>
     wasm_wf [0, 0x61, 0x73, 0x6D, 1, 0, 0, 0] m"
proof -
  have "wasm_parse [0, 0x61, 0x73, 0x6D, 1, 0, 0, 0] = ok_res new_module"
    by (simp add: wasm_parse_def slice_def wasm_consts parse_sections.simps remaining_def new_module_def)
  then show ?thesis using wasm_parse_wf [of "[0, 0x61, 0x73, 0x6D, 1, 0, 0, 0]"] by auto
qed

end
