(* ===== verification/Interp.thy ===== *)
theory Interp
  imports Wasm "HOL-Library.Signed_Division"
begin

unbundle bit_operations_syntax

text \<open>
  \<open>interp.rs\<close>: the WebAssembly interpreter.  Its state is the record \<open>interp\<close>; linear memory and the
  host functions' own state are threaded beside it.  As in \<open>Wasm\<close>, \<open>None\<close> is a panic and \<open>Inl\<close> a trap;
  \<open>i32\<close> and \<open>i64\<close> values are words read with \<open>sint\<close> where the source compares or divides them signed.
  Program counters and array indices are natural numbers: they stay below the length of the binary.

  The straight-line numeric opcodes are tables from the opcode to its operation, one table per group of
  match arms of \<open>run\<close>; every other opcode has a definition of its own.
\<close>

section \<open>Constants\<close>

definition MAX_STACK :: nat where "MAX_STACK = 256"
definition MAX_CALL_DEPTH :: nat where "MAX_CALL_DEPTH = 32"
definition MAX_LOCALS :: nat where "MAX_LOCALS = 32"
definition MAX_LABELS :: nat where "MAX_LABELS = 32"

definition UNREACHABLE :: u8 where "UNREACHABLE = 0x00"
definition NOP :: u8 where "NOP = 0x01"
definition BLOCK :: u8 where "BLOCK = 0x02"
definition LOOP :: u8 where "LOOP = 0x03"
definition IF :: u8 where "IF = 0x04"
definition ELSE :: u8 where "ELSE = 0x05"
definition END :: u8 where "END = 0x0B"
definition BR :: u8 where "BR = 0x0C"
definition BR_IF :: u8 where "BR_IF = 0x0D"
definition RETURN :: u8 where "RETURN = 0x0F"
definition CALL :: u8 where "CALL = 0x10"
definition DROP :: u8 where "DROP = 0x1A"
definition SELECT :: u8 where "SELECT = 0x1B"
definition LOCAL_GET :: u8 where "LOCAL_GET = 0x20"
definition LOCAL_SET :: u8 where "LOCAL_SET = 0x21"
definition LOCAL_TEE :: u8 where "LOCAL_TEE = 0x22"
definition I32_LOAD :: u8 where "I32_LOAD = 0x28"
definition I64_LOAD :: u8 where "I64_LOAD = 0x29"
definition I32_LOAD8_S :: u8 where "I32_LOAD8_S = 0x2C"
definition I32_LOAD8_U :: u8 where "I32_LOAD8_U = 0x2D"
definition I32_LOAD16_S :: u8 where "I32_LOAD16_S = 0x2E"
definition I32_LOAD16_U :: u8 where "I32_LOAD16_U = 0x2F"
definition I32_STORE :: u8 where "I32_STORE = 0x36"
definition I64_STORE :: u8 where "I64_STORE = 0x37"
definition I32_STORE8 :: u8 where "I32_STORE8 = 0x38"
definition I32_STORE16 :: u8 where "I32_STORE16 = 0x39"
definition MEMORY_SIZE :: u8 where "MEMORY_SIZE = 0x3F"
definition MEMORY_GROW :: u8 where "MEMORY_GROW = 0x40"
definition I32_CONST :: u8 where "I32_CONST = 0x41"
definition I64_CONST :: u8 where "I64_CONST = 0x42"

lemmas control_ops = UNREACHABLE_def NOP_def BLOCK_def LOOP_def IF_def ELSE_def END_def BR_def
  BR_IF_def RETURN_def CALL_def DROP_def SELECT_def LOCAL_GET_def LOCAL_SET_def LOCAL_TEE_def
lemmas memory_ops = I32_LOAD_def I64_LOAD_def I32_LOAD8_S_def I32_LOAD8_U_def I32_LOAD16_S_def
  I32_LOAD16_U_def I32_STORE_def I64_STORE_def I32_STORE8_def I32_STORE16_def MEMORY_SIZE_def
  MEMORY_GROW_def I32_CONST_def I64_CONST_def

lemmas interp_limits = MAX_STACK_def MAX_CALL_DEPTH_def MAX_LOCALS_def MAX_LABELS_def

datatype TrapKind =
  Unreachable | StackOverflow | StackUnderflow | CallStackOverflow | OutOfBounds | DivisionByZero
| IntegerOverflow | UnknownOpcode u8 | InvalidLocal | InvalidFunction | TypeMismatch
| LabelStackOverflow | InvalidBranch | UnexpectedEnd | HostCallError u32

section \<open>State\<close>

record label =
  target_pc :: nat
  l_stack_depth :: nat
  l_result_count :: nat
  is_loop :: bool

record call_frame =
  return_pc :: nat
  fr_func_idx :: u32
  locals_base :: nat
  local_count :: nat
  f_stack_depth :: nat
  f_result_count :: nat
  label_base :: nat

record interp =
  wmod :: WasmModule
  code :: "u8 list"
  pc :: nat
  stack :: "u64 list"
  sp :: nat
  frames :: "call_frame list"
  frame_depth :: nat
  locals :: "u64 list"
  labels :: "label list"
  label_depth :: nat
  num_imports :: u32

definition new_interp :: "WasmModule \<Rightarrow> u8 list \<Rightarrow> u32 \<Rightarrow> interp" where
  "new_interp m c n = \<lparr>wmod = m, code = c, pc = 0, stack = replicate MAX_STACK 0, sp = 0,
     frames = replicate MAX_CALL_DEPTH \<lparr>return_pc = 0, fr_func_idx = 0, locals_base = 0, local_count = 0,
       f_stack_depth = 0, f_result_count = 0, label_base = 0\<rparr>,
     frame_depth = 0, locals = replicate (MAX_LOCALS * MAX_CALL_DEPTH) 0,
     labels = replicate MAX_LABELS \<lparr>target_pc = 0, l_stack_depth = 0, l_result_count = 0, is_loop = False\<rparr>,
     label_depth = 0, num_imports = n\<rparr>"

text \<open>
  The host interface: import index, arguments and memory to an error code or a result, with the
  host's new state and the new memory in both cases.
\<close>

type_synonym 'h host = "'h \<Rightarrow> u32 \<Rightarrow> u64 list \<Rightarrow> u8 list \<Rightarrow> ((u32 + u64 option) \<times> 'h \<times> u8 list) option"

definition NoHost_call :: "unit host" where
  "NoHost_call h func_idx args mem = Some (Inl func_idx, h, mem)"

type_synonym 'a istep = "interp \<Rightarrow> (TrapKind, 'a \<times> interp) res"

section \<open>Stack and byte access\<close>

definition push :: "u64 \<Rightarrow> interp \<Rightarrow> (TrapKind, interp) res" where
  "push val s =
     (if MAX_STACK \<le> sp s then err_res StackOverflow
      else bind_res (or_panic (upd (stack s) (sp s) val)) (\<lambda>st. ok_res (s\<lparr>stack := st, sp := sp s + 1\<rparr>)))"

definition pop :: "u64 istep" where
  "pop s =
     (if sp s = 0 then err_res StackUnderflow
      else let s = s\<lparr>sp := sp s - 1\<rparr>
           in bind_res (or_panic (idx (stack s) (sp s))) (\<lambda>v. ok_res (v, s)))"

text \<open>\<open>pop_u32\<close> and \<open>pop_i32\<close> truncate to the same 32 bits.\<close>

definition pop_u32 :: "u32 istep" where
  "pop_u32 s = bind_res (pop s) (\<lambda>(v, s). ok_res (ucast v, s))"

definition interp_read_byte :: "u8 istep" where
  "interp_read_byte s =
     (if length (code s) \<le> pc s then err_res UnexpectedEnd
      else bind_res (or_panic (idx (code s) (pc s))) (\<lambda>b. ok_res (b, s\<lparr>pc := pc s + 1\<rparr>)))"

function u32_loop :: "interp \<Rightarrow> u32 \<Rightarrow> nat \<Rightarrow> (TrapKind, u32 \<times> interp) res" where
  "u32_loop s result shift =
     bind_res (interp_read_byte s) (\<lambda>(byte, s).
       let result = result OR push_bit shift (ucast (byte AND 0x7F))
       in if byte AND 0x80 = 0 then ok_res (result, s)
          else if 35 \<le> shift + 7 then err_res UnexpectedEnd
          else u32_loop s result (shift + 7))"
  by pat_completeness auto
termination by (relation "measure (\<lambda>(s, r, shift). 35 - shift)") auto

definition interp_read_u32_leb128 :: "u32 istep" where
  "interp_read_u32_leb128 s = u32_loop s 0 0"

text \<open>The signed readers; \<open>NOT 0\<close> shifted left is the sign extension \<open>!0 << shift\<close>.\<close>

function i32_loop :: "interp \<Rightarrow> u32 \<Rightarrow> nat \<Rightarrow> (TrapKind, u32 \<times> interp) res" where
  "i32_loop s result shift =
     bind_res (interp_read_byte s) (\<lambda>(byte, s).
       let result = result OR push_bit shift (ucast (byte AND 0x7F))
       in if byte AND 0x80 = 0
          then ok_res (if shift + 7 < 32 \<and> byte AND 0x40 \<noteq> 0 then result OR push_bit (shift + 7) (NOT 0)
                       else result, s)
          else if 35 \<le> shift + 7 then err_res UnexpectedEnd
          else i32_loop s result (shift + 7))"
  by pat_completeness auto
termination by (relation "measure (\<lambda>(s, r, shift). 35 - shift)") auto

definition interp_read_i32_leb128 :: "u32 istep" where
  "interp_read_i32_leb128 s = i32_loop s 0 0"

function i64_loop :: "interp \<Rightarrow> u64 \<Rightarrow> nat \<Rightarrow> (TrapKind, u64 \<times> interp) res" where
  "i64_loop s result shift =
     bind_res (interp_read_byte s) (\<lambda>(byte, s).
       let result = result OR push_bit shift (ucast (byte AND 0x7F))
       in if byte AND 0x80 = 0
          then ok_res (if shift + 7 < 64 \<and> byte AND 0x40 \<noteq> 0 then result OR push_bit (shift + 7) (NOT 0)
                       else result, s)
          else if 70 \<le> shift + 7 then err_res UnexpectedEnd
          else i64_loop s result (shift + 7))"
  by pat_completeness auto
termination by (relation "measure (\<lambda>(s, r, shift). 70 - shift)") auto

definition interp_read_i64_leb128 :: "u64 istep" where
  "interp_read_i64_leb128 s = i64_loop s 0 0"

declare u32_loop.simps [simp del] i32_loop.simps [simp del] i64_loop.simps [simp del]

section \<open>Locals and labels\<close>

definition local_get :: "u32 \<Rightarrow> interp \<Rightarrow> (TrapKind, u64) res" where
  "local_get i s =
     (if frame_depth s = 0 then err_res InvalidLocal
      else bind_res (or_panic (idx (frames s) (frame_depth s - 1))) (\<lambda>frame.
        let abs = locals_base frame + unat i
        in if local_count frame \<le> unat i \<or> length (locals s) \<le> abs then err_res InvalidLocal
           else or_panic (idx (locals s) abs)))"

definition local_set :: "u32 \<Rightarrow> u64 \<Rightarrow> interp \<Rightarrow> (TrapKind, interp) res" where
  "local_set i val s =
     (if frame_depth s = 0 then err_res InvalidLocal
      else bind_res (or_panic (idx (frames s) (frame_depth s - 1))) (\<lambda>frame.
        let abs = locals_base frame + unat i
        in if local_count frame \<le> unat i \<or> length (locals s) \<le> abs then err_res InvalidLocal
           else bind_res (or_panic (upd (locals s) abs val)) (\<lambda>ls. ok_res (s\<lparr>locals := ls\<rparr>))))"

definition push_label :: "label \<Rightarrow> interp \<Rightarrow> (TrapKind, interp) res" where
  "push_label l s =
     (if MAX_LABELS \<le> label_depth s then err_res LabelStackOverflow
      else bind_res (or_panic (upd (labels s) (label_depth s) l)) (\<lambda>ls.
        ok_res (s\<lparr>labels := ls, label_depth := label_depth s + 1\<rparr>)))"

definition frame_label_base :: "interp \<Rightarrow> (TrapKind, nat) res" where
  "frame_label_base s =
     (if 0 < frame_depth s
      then bind_res (or_panic (idx (frames s) (frame_depth s - 1))) (\<lambda>f. ok_res (label_base f))
      else ok_res 0)"

definition get_label :: "u32 \<Rightarrow> interp \<Rightarrow> (TrapKind, label) res" where
  "get_label depth s =
     (if label_depth s \<le> unat depth then err_res InvalidBranch
      else bind_res (frame_label_base s) (\<lambda>base.
        let i = label_depth s - 1 - unat depth
        in if i < base then err_res InvalidBranch else or_panic (idx (labels s) i)))"

section \<open>Branches\<close>

text \<open>The arms of \<open>skip_to_end\<close> and \<open>skip_to_else_or_end\<close> that skip immediates.\<close>

definition skip_imm :: "u8 \<Rightarrow> interp \<Rightarrow> (TrapKind, interp) res" where
  "skip_imm byte s =
     (if byte \<in> {BR, BR_IF, CALL, LOCAL_GET, LOCAL_SET, LOCAL_TEE}
      then bind_res (interp_read_u32_leb128 s) (\<lambda>(_, s). ok_res s)
      else if byte = I32_CONST then bind_res (interp_read_i32_leb128 s) (\<lambda>(_, s). ok_res s)
      else if byte = I64_CONST then bind_res (interp_read_i64_leb128 s) (\<lambda>(_, s). ok_res s)
      else if byte \<in> {I32_LOAD, I64_LOAD, I32_LOAD8_S, I32_LOAD8_U, I32_LOAD16_S, I32_LOAD16_U,
                      I32_STORE, I64_STORE, I32_STORE8, I32_STORE16}
      then bind_res (interp_read_u32_leb128 s) (\<lambda>(_, s).
             bind_res (interp_read_u32_leb128 s) (\<lambda>(_, s). ok_res s))
      else if byte \<in> {MEMORY_SIZE, MEMORY_GROW} then bind_res (interp_read_byte s) (\<lambda>(_, s). ok_res s)
      else ok_res s)"

text \<open>Reading only moves the program counter, and forward.\<close>

abbreviation moved :: "interp \<Rightarrow> interp \<Rightarrow> bool" where
  "moved s s' \<equiv> \<exists>p. s' = s\<lparr>pc := p\<rparr> \<and> pc s < p \<and> p \<le> length (code s)"

lemma interp_read_byte_holds: "holds (\<lambda>(b, s'). moved s s') (interp_read_byte s)"
  by (auto simp: interp_read_byte_def)

lemma leb_loops_hold:
  "holds (\<lambda>(v, s'). moved s s') (u32_loop s r shift)"
  "holds (\<lambda>(v, s'). moved s s') (i32_loop s r shift)"
  "holds (\<lambda>(v, s'). moved s s') (i64_loop s r64 shift)"
proof -
  have step: "holds (\<lambda>(v, s'). moved s s') (bind_res (interp_read_byte s) f)"
    if "\<And>b s1. interp_read_byte s = ok_res (b, s1) \<Longrightarrow> moved s s1 \<Longrightarrow> holds (\<lambda>(v, s'). moved s1 s' \<or> s' = s1) (f (b, s1))"
    for s and f :: "u8 \<times> interp \<Rightarrow> (TrapKind, 'b \<times> interp) res"
  proof (cases "interp_read_byte s")
    case (Some x)
    show ?thesis
    proof (cases x)
      case (Inr y)
      obtain b s1 where y: "y = (b, s1)" by (cases y)
      have r: "interp_read_byte s = ok_res (b, s1)" using Some Inr y by simp
      have m: "moved s s1" using interp_read_byte_holds [of s] r by simp
      show ?thesis unfolding r bind_res.simps
        by (rule holds_mono [OF that [OF r m]]) (use m in auto)
    qed (simp add: Some)
  qed (use interp_read_byte_holds [of s] in simp)
  show "holds (\<lambda>(v, s'). moved s s') (u32_loop s r shift)"
  proof (induction s r shift rule: u32_loop.induct)
    case (1 s r shift)
    show ?case unfolding u32_loop.simps [of s]
      by (rule step) (auto simp: Let_def intro!: holds_mono [OF 1])
  qed
  show "holds (\<lambda>(v, s'). moved s s') (i32_loop s r shift)"
  proof (induction s r shift rule: i32_loop.induct)
    case (1 s r shift)
    show ?case unfolding i32_loop.simps [of s]
      by (rule step) (auto simp: Let_def intro!: holds_mono [OF 1])
  qed
  show "holds (\<lambda>(v, s'). moved s s') (i64_loop s r64 shift)"
  proof (induction s r64 shift rule: i64_loop.induct)
    case (1 s r shift)
    show ?case unfolding i64_loop.simps [of s]
      by (rule step) (auto simp: Let_def intro!: holds_mono [OF 1])
  qed
qed

lemmas leb_hold = leb_loops_hold(1) [of _ 0 0, folded interp_read_u32_leb128_def]
  leb_loops_hold(2) [of _ 0 0, folded interp_read_i32_leb128_def]
  leb_loops_hold(3) [of _ 0 0, folded interp_read_i64_leb128_def]

lemmas fetch_intros = holds_bind [OF interp_read_byte_holds] holds_bind [OF leb_hold(1)]
  holds_bind [OF leb_hold(2)] holds_bind [OF leb_hold(3)]

lemma holds_if: "(b \<Longrightarrow> holds P x) \<Longrightarrow> (\<not> b \<Longrightarrow> holds P y) \<Longrightarrow> holds P (if b then x else y)"
  by simp

definition fwd :: "interp \<Rightarrow> interp \<Rightarrow> bool" where
  "fwd s s' \<longleftrightarrow> (\<exists>p. s' = s\<lparr>pc := p\<rparr> \<and> pc s \<le> p \<and> (pc s \<le> length (code s) \<longrightarrow> p \<le> length (code s)))"

lemma fwd_refl [simp]: "fwd s s"
  by (auto simp: fwd_def intro!: exI [of _ "pc s"])

lemma fwd_pc: "pc s \<le> p \<Longrightarrow> p \<le> length (code s) \<Longrightarrow> fwd s (s\<lparr>pc := p\<rparr>)"
  by (auto simp: fwd_def)

lemma skip_imm_holds: "holds (fwd s) (skip_imm b s)"
  unfolding skip_imm_def
  by (intro holds_if) (auto intro!: fetch_intros fwd_pc simp del: insert_iff)

lemma read_skip_progress:
  assumes "interp_read_byte s = ok_res (b, s1)" "holds (fwd s1) m" "m = ok_res s2"
  shows "length (code s2) - pc s2 < length (code s) - pc s"
proof -
  have "moved s s1" using interp_read_byte_holds [of s] assms(1) by simp
  then show ?thesis using assms(2,3) by (auto simp: fwd_def)
qed

function skip_to_end_loop :: "interp \<Rightarrow> u32 \<Rightarrow> (TrapKind, interp) res" where
  "skip_to_end_loop s depth =
     (if depth > 0 then
        bind_res (interp_read_byte s) (\<lambda>(byte, s).
          if byte \<in> {BLOCK, LOOP, IF} then
            bind_res (interp_read_byte s) (\<lambda>(_, s). skip_to_end_loop s (depth + 1))
          else if byte = END then skip_to_end_loop s (depth - 1)
          else bind_res (skip_imm byte s) (\<lambda>s. skip_to_end_loop s depth))
      else ok_res s)"
  by pat_completeness auto
termination
proof (relation "measure (\<lambda>(s, depth). length (code s) - pc s)", goal_cases)
  case (2 s depth x b s1 x2 b2 s2)
  then show ?case
    using read_skip_progress [of s b s1 "ok_res s2" s2] interp_read_byte_holds [of s1] by (force simp: fwd_def)
next
  case (3 s depth x b s1)
  then show ?case using read_skip_progress [of s b s1 "ok_res s1" s1] by simp
next
  case (4 s depth x b s1 s2)
  then show ?case using read_skip_progress [of s b s1 "skip_imm b s1" s2] skip_imm_holds [of s1 b] by simp
qed simp

definition skip_to_end :: "interp \<Rightarrow> (TrapKind, interp) res" where
  "skip_to_end s = skip_to_end_loop s 1"

function skip_to_else_loop :: "interp \<Rightarrow> u32 \<Rightarrow> (TrapKind, bool \<times> interp) res" where
  "skip_to_else_loop s depth =
     (if depth > 0 then
        bind_res (interp_read_byte s) (\<lambda>(byte, s).
          if byte \<in> {BLOCK, LOOP, IF} then
            bind_res (interp_read_byte s) (\<lambda>(_, s). skip_to_else_loop s (depth + 1))
          else if byte = END then
            (if depth - 1 = 0 then ok_res (False, s) else skip_to_else_loop s (depth - 1))
          else if byte = ELSE then
            (if depth = 1 then ok_res (True, s) else skip_to_else_loop s depth)
          else bind_res (skip_imm byte s) (\<lambda>s. skip_to_else_loop s depth))
      else ok_res (False, s))"
  by pat_completeness auto
termination
proof (relation "measure (\<lambda>(s, depth). length (code s) - pc s)", goal_cases)
  case (2 s depth x b s1 x2 b2 s2)
  then show ?case
    using read_skip_progress [of s b s1 "ok_res s2" s2] interp_read_byte_holds [of s1] by (force simp: fwd_def)
next
  case (3 s depth x b s1)
  then show ?case using read_skip_progress [of s b s1 "ok_res s1" s1] by simp
next
  case (4 s depth x b s1)
  then show ?case using read_skip_progress [of s b s1 "ok_res s1" s1] by simp
next
  case (5 s depth x b s1 s2)
  then show ?case using read_skip_progress [of s b s1 "skip_imm b s1" s2] skip_imm_holds [of s1 b] by simp
qed simp

definition skip_to_else_or_end :: "bool istep" where
  "skip_to_else_or_end s = skip_to_else_loop s 1"

declare skip_to_end_loop.simps [simp del] skip_to_else_loop.simps [simp del]

text \<open>The value on top of the stack, when a block or function with results leaves one.\<close>

definition top_value :: "bool \<Rightarrow> interp \<Rightarrow> (TrapKind, u64 option) res" where
  "top_value b s =
     (if b then bind_res (or_panic (idx (stack s) (sp s - 1))) (\<lambda>v. ok_res (Some v)) else ok_res None)"

definition push_opt :: "u64 option \<Rightarrow> interp \<Rightarrow> (TrapKind, interp) res" where
  "push_opt r s = (case r of None \<Rightarrow> ok_res s | Some v \<Rightarrow> push v s)"

definition do_branch :: "u32 \<Rightarrow> interp \<Rightarrow> (TrapKind, interp) res" where
  "do_branch depth s =
     bind_res (get_label depth s) (\<lambda>label.
       if is_loop label then ok_res (s\<lparr>sp := l_stack_depth label, pc := target_pc label\<rparr>)
       else bind_res (top_value (0 < l_result_count label \<and> 0 < sp s) s) (\<lambda>results.
         let s = s\<lparr>sp := l_stack_depth label\<rparr>;
             pop_count = unat depth + 1;
             s = (if pop_count \<le> label_depth s then s\<lparr>label_depth := label_depth s - pop_count\<rparr> else s)
         in bind_res (push_opt results s) (\<lambda>s. ok_res (s\<lparr>pc := target_pc label\<rparr>))))"

section \<open>Linear memory\<close>

definition from_le :: "u8 list \<Rightarrow> 'a::len word" where
  "from_le bs = foldr (\<lambda>b acc. ucast b OR push_bit 8 acc) bs 0"

definition to_le :: "nat \<Rightarrow> 'a::len word \<Rightarrow> u8 list" where
  "to_le n w = map (\<lambda>i. ucast (drop_bit (8 * i) w)) [0..<n]"

definition mem_load_u8 :: "u8 list \<Rightarrow> u32 \<Rightarrow> u32 \<Rightarrow> (TrapKind, u8) res" where
  "mem_load_u8 mem addr offset =
     (let ea = unat addr + unat offset
      in if length mem \<le> ea then err_res OutOfBounds else or_panic (idx mem ea))"

definition mem_load_u16 :: "u8 list \<Rightarrow> u32 \<Rightarrow> u32 \<Rightarrow> (TrapKind, u16) res" where
  "mem_load_u16 mem addr offset =
     (let ea = unat addr + unat offset
      in if length mem < ea + 2 then err_res OutOfBounds
         else bind_res (or_panic (slice mem ea (ea + 2))) (\<lambda>bs. ok_res (from_le bs)))"

definition mem_load_u32 :: "u8 list \<Rightarrow> u32 \<Rightarrow> u32 \<Rightarrow> (TrapKind, u32) res" where
  "mem_load_u32 mem addr offset =
     (let ea = unat addr + unat offset
      in if length mem < ea + 4 then err_res OutOfBounds
         else bind_res (or_panic (slice mem ea (ea + 4))) (\<lambda>bs. ok_res (from_le bs)))"

definition mem_load_u64 :: "u8 list \<Rightarrow> u32 \<Rightarrow> u32 \<Rightarrow> (TrapKind, u64) res" where
  "mem_load_u64 mem addr offset =
     (let ea = unat addr + unat offset
      in if length mem < ea + 8 then err_res OutOfBounds
         else bind_res (or_panic (slice mem ea (ea + 8))) (\<lambda>bs. ok_res (from_le bs)))"

definition put_bytes :: "nat \<Rightarrow> u8 list \<Rightarrow> u8 list \<Rightarrow> ('e, u8 list) res" where
  "put_bytes ea bs = for_res (\<lambda>i mem. or_panic (upd mem (ea + i) (bs ! i))) [0..<length bs]"

definition mem_store_u8 :: "u8 list \<Rightarrow> u32 \<Rightarrow> u32 \<Rightarrow> u8 \<Rightarrow> (TrapKind, u8 list) res" where
  "mem_store_u8 mem addr offset val =
     (let ea = unat addr + unat offset
      in if length mem \<le> ea then err_res OutOfBounds else or_panic (upd mem ea val))"

definition mem_store_u16 :: "u8 list \<Rightarrow> u32 \<Rightarrow> u32 \<Rightarrow> u16 \<Rightarrow> (TrapKind, u8 list) res" where
  "mem_store_u16 mem addr offset val =
     (let ea = unat addr + unat offset
      in if length mem < ea + 2 then err_res OutOfBounds else put_bytes ea (to_le 2 val) mem)"

definition mem_store_u32 :: "u8 list \<Rightarrow> u32 \<Rightarrow> u32 \<Rightarrow> u32 \<Rightarrow> (TrapKind, u8 list) res" where
  "mem_store_u32 mem addr offset val =
     (let ea = unat addr + unat offset
      in if length mem < ea + 4 then err_res OutOfBounds else put_bytes ea (to_le 4 val) mem)"

definition mem_store_u64 :: "u8 list \<Rightarrow> u32 \<Rightarrow> u32 \<Rightarrow> u64 \<Rightarrow> (TrapKind, u8 list) res" where
  "mem_store_u64 mem addr offset val =
     (let ea = unat addr + unat offset
      in if length mem < ea + 8 then err_res OutOfBounds else put_bytes ea (to_le 8 val) mem)"

section \<open>Function entry\<close>

text \<open>
  The loop over the local groups; the array \<open>local_types\<close> that the source fills beside it is never read.
\<close>

definition local_group :: "nat \<times> interp \<Rightarrow> (TrapKind, nat \<times> interp) res" where
  "local_group = (\<lambda>(declared, s).
     bind_res (interp_read_u32_leb128 s) (\<lambda>(count, s).
       bind_res (interp_read_byte s) (\<lambda>(_, s). ok_res (declared + unat count, s))))"

text \<open>The second half of \<open>enter_function\<close>, once the local declarations are read.\<close>

definition push_frame :: "FuncType \<Rightarrow> FuncBody \<Rightarrow> u32 \<Rightarrow> nat \<Rightarrow> nat \<Rightarrow> interp \<Rightarrow> (TrapKind, interp) res" where
  "push_frame ft body func_idx ret declared s =
     (let n = param_count ft; total_locals = n + declared in
      if MAX_LOCALS < total_locals then err_res InvalidLocal
      else bind_res (if 0 < frame_depth s
                     then bind_res (or_panic (idx (frames s) (frame_depth s - 1)))
                            (\<lambda>prev. ok_res (locals_base prev + local_count prev))
                     else ok_res 0) (\<lambda>base.
      if length (locals s) < base + total_locals then err_res InvalidLocal
      else if sp s < n then err_res StackUnderflow
      else let args_at = sp s - n in
      bind_res (for_res (\<lambda>i ls. bind_res (or_panic (idx (stack s) (args_at + i)))
                                  (\<lambda>v. or_panic (upd ls (base + i) v))) [0..<n] (locals s)) (\<lambda>ls.
      bind_res (for_res (\<lambda>i ls. or_panic (upd ls (base + i) 0)) [n..<total_locals] ls) (\<lambda>ls.
      bind_res (or_panic (upd (frames s) (frame_depth s)
        \<lparr>return_pc = ret, fr_func_idx = func_idx, locals_base = base, local_count = total_locals,
         f_stack_depth = args_at, f_result_count = result_count ft, label_base = label_depth s\<rparr>)) (\<lambda>fs.
      push_label \<lparr>target_pc = body_offset body + body_length body, l_stack_depth = args_at,
                  l_result_count = result_count ft, is_loop = False\<rparr>
        (s\<lparr>sp := args_at, locals := ls, frames := fs, frame_depth := frame_depth s + 1\<rparr>))))))"

definition enter_function :: "u32 \<Rightarrow> nat \<Rightarrow> interp \<Rightarrow> (TrapKind, interp) res" where
  "enter_function func_idx ret s =
     (if MAX_CALL_DEPTH \<le> frame_depth s then err_res CallStackOverflow
      else if func_idx < num_imports s then err_res InvalidFunction
      else let local_func_idx = unat (func_idx - num_imports s) in
      if func_count (wmod s) \<le> local_func_idx then err_res InvalidFunction
      else bind_res (or_panic (idx (func_types (wmod s)) local_func_idx)) (\<lambda>type_idx.
      if type_count (wmod s) \<le> unat type_idx then err_res TypeMismatch
      else bind_res (or_panic (idx (types (wmod s)) (unat type_idx))) (\<lambda>ft.
      bind_res (or_panic (idx (bodies (wmod s)) local_func_idx)) (\<lambda>body.
      bind_res (interp_read_u32_leb128 (s\<lparr>pc := body_offset body\<rparr>)) (\<lambda>(groups, s).
      bind_res (for_res (\<lambda>_. local_group) [0..<unat groups] (0, s)) (\<lambda>(declared, s).
        push_frame ft body func_idx ret declared s))))))"

section \<open>Numeric opcodes\<close>

definition I32_EQZ :: u8 where "I32_EQZ = 0x45"
definition I32_EQ :: u8 where "I32_EQ = 0x46"
definition I32_NE :: u8 where "I32_NE = 0x47"
definition I32_LT_S :: u8 where "I32_LT_S = 0x48"
definition I32_LT_U :: u8 where "I32_LT_U = 0x49"
definition I32_GT_S :: u8 where "I32_GT_S = 0x4A"
definition I32_GT_U :: u8 where "I32_GT_U = 0x4B"
definition I32_LE_S :: u8 where "I32_LE_S = 0x4C"
definition I32_LE_U :: u8 where "I32_LE_U = 0x4D"
definition I32_GE_S :: u8 where "I32_GE_S = 0x4E"
definition I32_GE_U :: u8 where "I32_GE_U = 0x4F"
definition I64_EQZ :: u8 where "I64_EQZ = 0x50"
definition I64_EQ :: u8 where "I64_EQ = 0x51"
definition I64_NE :: u8 where "I64_NE = 0x52"
definition I64_LT_S :: u8 where "I64_LT_S = 0x53"
definition I64_LT_U :: u8 where "I64_LT_U = 0x54"
definition I64_GT_S :: u8 where "I64_GT_S = 0x55"
definition I64_GT_U :: u8 where "I64_GT_U = 0x56"
definition I64_LE_S :: u8 where "I64_LE_S = 0x57"
definition I64_LE_U :: u8 where "I64_LE_U = 0x58"
definition I64_GE_S :: u8 where "I64_GE_S = 0x59"
definition I64_GE_U :: u8 where "I64_GE_U = 0x5A"
definition I32_CLZ :: u8 where "I32_CLZ = 0x67"
definition I32_CTZ :: u8 where "I32_CTZ = 0x68"
definition I32_ADD :: u8 where "I32_ADD = 0x6A"
definition I32_SUB :: u8 where "I32_SUB = 0x6B"
definition I32_MUL :: u8 where "I32_MUL = 0x6C"
definition I32_DIV_S :: u8 where "I32_DIV_S = 0x6D"
definition I32_DIV_U :: u8 where "I32_DIV_U = 0x6E"
definition I32_REM_S :: u8 where "I32_REM_S = 0x6F"
definition I32_REM_U :: u8 where "I32_REM_U = 0x70"
definition I32_AND :: u8 where "I32_AND = 0x71"
definition I32_OR :: u8 where "I32_OR = 0x72"
definition I32_XOR :: u8 where "I32_XOR = 0x73"
definition I32_SHL :: u8 where "I32_SHL = 0x74"
definition I32_SHR_S :: u8 where "I32_SHR_S = 0x75"
definition I32_SHR_U :: u8 where "I32_SHR_U = 0x76"
definition I32_ROTL :: u8 where "I32_ROTL = 0x77"
definition I32_ROTR :: u8 where "I32_ROTR = 0x78"
definition I64_CLZ :: u8 where "I64_CLZ = 0x79"
definition I64_CTZ :: u8 where "I64_CTZ = 0x7A"
definition I64_ADD :: u8 where "I64_ADD = 0x7C"
definition I64_SUB :: u8 where "I64_SUB = 0x7D"
definition I64_MUL :: u8 where "I64_MUL = 0x7E"
definition I64_DIV_S :: u8 where "I64_DIV_S = 0x7F"
definition I64_DIV_U :: u8 where "I64_DIV_U = 0x80"
definition I64_REM_S :: u8 where "I64_REM_S = 0x81"
definition I64_REM_U :: u8 where "I64_REM_U = 0x82"
definition I64_AND :: u8 where "I64_AND = 0x83"
definition I64_OR :: u8 where "I64_OR = 0x84"
definition I64_XOR :: u8 where "I64_XOR = 0x85"
definition I64_SHL :: u8 where "I64_SHL = 0x86"
definition I64_SHR_S :: u8 where "I64_SHR_S = 0x87"
definition I64_SHR_U :: u8 where "I64_SHR_U = 0x88"
definition I64_ROTL :: u8 where "I64_ROTL = 0x89"
definition I64_ROTR :: u8 where "I64_ROTR = 0x8A"
definition I32_WRAP_I64 :: u8 where "I32_WRAP_I64 = 0xA7"
definition I64_EXTEND_I32_S :: u8 where "I64_EXTEND_I32_S = 0xAC"
definition I64_EXTEND_I32_U :: u8 where "I64_EXTEND_I32_U = 0xAD"

lemmas numeric_ops = I32_EQZ_def I32_EQ_def I32_NE_def I32_LT_S_def I32_LT_U_def I32_GT_S_def
  I32_GT_U_def I32_LE_S_def I32_LE_U_def I32_GE_S_def I32_GE_U_def I64_EQZ_def I64_EQ_def I64_NE_def
  I64_LT_S_def I64_LT_U_def I64_GT_S_def I64_GT_U_def I64_LE_S_def I64_LE_U_def I64_GE_S_def
  I64_GE_U_def I32_CLZ_def I32_CTZ_def I32_ADD_def I32_SUB_def I32_MUL_def I32_DIV_S_def
  I32_DIV_U_def I32_REM_S_def I32_REM_U_def I32_AND_def I32_OR_def I32_XOR_def I32_SHL_def
  I32_SHR_S_def I32_SHR_U_def I32_ROTL_def I32_ROTR_def I64_CLZ_def I64_CTZ_def I64_ADD_def
  I64_SUB_def I64_MUL_def I64_DIV_S_def I64_DIV_U_def I64_REM_S_def I64_REM_U_def I64_AND_def
  I64_OR_def I64_XOR_def I64_SHL_def I64_SHR_S_def I64_SHR_U_def I64_ROTL_def I64_ROTR_def
  I32_WRAP_I64_def I64_EXTEND_I32_S_def I64_EXTEND_I32_U_def

text \<open>Comparisons: the result is 1 or 0.\<close>

definition i32_compare :: "(u8 \<times> (u32 \<Rightarrow> u32 \<Rightarrow> bool)) list" where
  "i32_compare =
     [(I32_EQ, \<lambda>a b. a = b), (I32_NE, \<lambda>a b. a \<noteq> b),
      (I32_LT_S, \<lambda>a b. sint a < sint b), (I32_LT_U, \<lambda>a b. a < b),
      (I32_GT_S, \<lambda>a b. sint a > sint b), (I32_GT_U, \<lambda>a b. a > b),
      (I32_LE_S, \<lambda>a b. sint a \<le> sint b), (I32_LE_U, \<lambda>a b. a \<le> b),
      (I32_GE_S, \<lambda>a b. sint a \<ge> sint b), (I32_GE_U, \<lambda>a b. a \<ge> b)]"

definition i64_compare :: "(u8 \<times> (u64 \<Rightarrow> u64 \<Rightarrow> bool)) list" where
  "i64_compare =
     [(I64_EQ, \<lambda>a b. a = b), (I64_NE, \<lambda>a b. a \<noteq> b),
      (I64_LT_S, \<lambda>a b. sint a < sint b), (I64_LT_U, \<lambda>a b. a < b),
      (I64_GT_S, \<lambda>a b. sint a > sint b), (I64_GT_U, \<lambda>a b. a > b),
      (I64_LE_S, \<lambda>a b. sint a \<le> sint b), (I64_LE_U, \<lambda>a b. a \<le> b),
      (I64_GE_S, \<lambda>a b. sint a \<ge> sint b), (I64_GE_U, \<lambda>a b. a \<ge> b)]"

text \<open>Signed division truncates towards zero; its overflow traps, that of the remainder is 0.\<close>

definition div_s :: "'a::len word \<Rightarrow> 'a word \<Rightarrow> TrapKind + 'a word" where
  "div_s a b =
     (if b = 0 then Inl DivisionByZero
      else if sint a = - (2 ^ (LENGTH('a) - 1)) \<and> sint b = -1 then Inl IntegerOverflow
      else Inr (word_of_int (sint a sdiv sint b)))"

definition rem_s :: "'a::len word \<Rightarrow> 'a word \<Rightarrow> TrapKind + 'a word" where
  "rem_s a b =
     (if b = 0 then Inl DivisionByZero
      else if sint a = - (2 ^ (LENGTH('a) - 1)) \<and> sint b = -1 then Inr 0
      else Inr (word_of_int (sint a smod sint b)))"

definition div_u :: "'a::len word \<Rightarrow> 'a word \<Rightarrow> TrapKind + 'a word" where
  "div_u a b = (if b = 0 then Inl DivisionByZero else Inr (a div b))"

definition rem_u :: "'a::len word \<Rightarrow> 'a word \<Rightarrow> TrapKind + 'a word" where
  "rem_u a b = (if b = 0 then Inl DivisionByZero else Inr (a mod b))"

definition i32_arith :: "(u8 \<times> (u32 \<Rightarrow> u32 \<Rightarrow> TrapKind + u32)) list" where
  "i32_arith =
     [(I32_ADD, \<lambda>a b. Inr (a + b)), (I32_SUB, \<lambda>a b. Inr (a - b)), (I32_MUL, \<lambda>a b. Inr (a * b)),
      (I32_DIV_S, div_s), (I32_DIV_U, div_u), (I32_REM_S, rem_s), (I32_REM_U, rem_u),
      (I32_AND, \<lambda>a b. Inr (a AND b)), (I32_OR, \<lambda>a b. Inr (a OR b)), (I32_XOR, \<lambda>a b. Inr (a XOR b)),
      (I32_SHL, \<lambda>a b. Inr (push_bit (unat (b AND 31)) a)),
      (I32_SHR_S, \<lambda>a b. Inr (signed_drop_bit (unat (b AND 31)) a)),
      (I32_SHR_U, \<lambda>a b. Inr (drop_bit (unat (b AND 31)) a)),
      (I32_ROTL, \<lambda>a b. Inr (word_rotl (unat (b AND 31)) a)),
      (I32_ROTR, \<lambda>a b. Inr (word_rotr (unat (b AND 31)) a))]"

definition i64_arith :: "(u8 \<times> (u64 \<Rightarrow> u64 \<Rightarrow> TrapKind + u64)) list" where
  "i64_arith =
     [(I64_ADD, \<lambda>a b. Inr (a + b)), (I64_SUB, \<lambda>a b. Inr (a - b)), (I64_MUL, \<lambda>a b. Inr (a * b)),
      (I64_DIV_S, div_s), (I64_DIV_U, div_u), (I64_REM_S, rem_s), (I64_REM_U, rem_u),
      (I64_AND, \<lambda>a b. Inr (a AND b)), (I64_OR, \<lambda>a b. Inr (a OR b)), (I64_XOR, \<lambda>a b. Inr (a XOR b)),
      (I64_SHL, \<lambda>a b. Inr (push_bit (unat (b AND 63)) a)),
      (I64_SHR_S, \<lambda>a b. Inr (signed_drop_bit (unat (b AND 63)) a)),
      (I64_SHR_U, \<lambda>a b. Inr (drop_bit (unat (b AND 63)) a)),
      (I64_ROTL, \<lambda>a b. Inr (word_rotl (unat (b AND 63)) a)),
      (I64_ROTR, \<lambda>a b. Inr (word_rotr (unat (b AND 63)) a))]"

text \<open>Unary operations and conversions, on the 64-bit stack slot.\<close>

definition unary :: "(u8 \<times> (u64 \<Rightarrow> u64)) list" where
  "unary =
     [(I32_EQZ, \<lambda>v. of_bool ((ucast v :: u32) = 0)), (I64_EQZ, \<lambda>v. of_bool (v = 0)),
      (I32_CLZ, \<lambda>v. of_nat (leading_zeros (ucast v :: u32))),
      (I32_CTZ, \<lambda>v. of_nat (trailing_zeros (ucast v :: u32))),
      (I64_CLZ, \<lambda>v. of_nat (leading_zeros v)), (I64_CTZ, \<lambda>v. of_nat (trailing_zeros v)),
      (I32_WRAP_I64, \<lambda>v. ucast (ucast v :: u32)), (I64_EXTEND_I32_S, \<lambda>v. scast (ucast v :: u32)),
      (I64_EXTEND_I32_U, \<lambda>v. ucast (ucast v :: u32))]"

text \<open>The operands are popped right to left before anything is tested.\<close>

definition binop32 :: "(u32 \<Rightarrow> u32 \<Rightarrow> TrapKind + u32) \<Rightarrow> interp \<Rightarrow> (TrapKind, interp) res" where
  "binop32 f s = bind_res (pop_u32 s) (\<lambda>(b, s). bind_res (pop_u32 s) (\<lambda>(a, s).
     bind_res (Some (f a b)) (\<lambda>v. push (ucast v) s)))"

definition binop64 :: "(u64 \<Rightarrow> u64 \<Rightarrow> TrapKind + u64) \<Rightarrow> interp \<Rightarrow> (TrapKind, interp) res" where
  "binop64 f s = bind_res (pop s) (\<lambda>(b, s). bind_res (pop s) (\<lambda>(a, s).
     bind_res (Some (f a b)) (\<lambda>v. push v s)))"

definition exec_numeric :: "u8 \<Rightarrow> interp \<Rightarrow> (TrapKind, interp) res" where
  "exec_numeric opcode s =
     (case map_of i32_compare opcode of Some f \<Rightarrow> binop32 (\<lambda>a b. Inr (of_bool (f a b))) s
      | None \<Rightarrow> (case map_of i64_compare opcode of Some f \<Rightarrow> binop64 (\<lambda>a b. Inr (of_bool (f a b))) s
      | None \<Rightarrow> (case map_of i32_arith opcode of Some f \<Rightarrow> binop32 f s
      | None \<Rightarrow> (case map_of i64_arith opcode of Some f \<Rightarrow> binop64 f s
      | None \<Rightarrow> (case map_of unary opcode of
          Some f \<Rightarrow> bind_res (pop s) (\<lambda>(v, s). push (f v) s)
      | None \<Rightarrow> err_res (UnknownOpcode opcode))))))"

section \<open>Constants, parameters, variables and memory\<close>

definition exec_basic :: "u8 \<Rightarrow> u8 list \<Rightarrow> interp \<Rightarrow> (TrapKind, interp) res" where
  "exec_basic opcode mem s =
     (if opcode = DROP then bind_res (pop s) (\<lambda>(_, s). ok_res s)
      else if opcode = SELECT then
        bind_res (pop_u32 s) (\<lambda>(cond, s). bind_res (pop s) (\<lambda>(val2, s). bind_res (pop s) (\<lambda>(val1, s).
          push (if cond \<noteq> 0 then val1 else val2) s)))
      else if opcode = LOCAL_GET then
        bind_res (interp_read_u32_leb128 s) (\<lambda>(i, s). bind_res (local_get i s) (\<lambda>val. push val s))
      else if opcode = LOCAL_SET then
        bind_res (interp_read_u32_leb128 s) (\<lambda>(i, s). bind_res (pop s) (\<lambda>(val, s). local_set i val s))
      else if opcode = LOCAL_TEE then
        bind_res (interp_read_u32_leb128 s) (\<lambda>(i, s).
          if sp s = 0 then err_res StackUnderflow
          else bind_res (or_panic (idx (stack s) (sp s - 1))) (\<lambda>val. local_set i val s))
      else if opcode = MEMORY_SIZE then
        bind_res (interp_read_byte s) (\<lambda>(_, s). push (ucast (of_nat (length mem div 65536) :: u32)) s)
      else if opcode = MEMORY_GROW then
        bind_res (interp_read_byte s) (\<lambda>(_, s). bind_res (pop_u32 s) (\<lambda>(_, s). push 0xFFFFFFFF s))
      else if opcode = I32_CONST then
        bind_res (interp_read_i32_leb128 s) (\<lambda>(val, s). push (ucast val) s)
      else if opcode = I64_CONST then
        bind_res (interp_read_i64_leb128 s) (\<lambda>(val, s). push val s)
      else exec_numeric opcode s)"

text \<open>
  The loads, from memory, address and offset; \<open>load8_s\<close> and \<open>load16_s\<close> sign-extend to the whole slot.
\<close>

definition loads :: "(u8 \<times> (u8 list \<Rightarrow> u32 \<Rightarrow> u32 \<Rightarrow> (TrapKind, u64) res)) list" where
  "loads =
     [(I32_LOAD, \<lambda>m a off. bind_res (mem_load_u32 m a off) (\<lambda>v. ok_res (ucast v))),
      (I64_LOAD, mem_load_u64),
      (I32_LOAD8_S, \<lambda>m a off. bind_res (mem_load_u8 m a off) (\<lambda>v. ok_res (scast (scast v :: u32)))),
      (I32_LOAD8_U, \<lambda>m a off. bind_res (mem_load_u8 m a off) (\<lambda>v. ok_res (ucast v))),
      (I32_LOAD16_S, \<lambda>m a off. bind_res (mem_load_u16 m a off) (\<lambda>v. ok_res (scast (scast v :: u32)))),
      (I32_LOAD16_U, \<lambda>m a off. bind_res (mem_load_u16 m a off) (\<lambda>v. ok_res (ucast v)))]"

definition stores :: "(u8 \<times> (u8 list \<Rightarrow> u32 \<Rightarrow> u32 \<Rightarrow> u64 \<Rightarrow> (TrapKind, u8 list) res)) list" where
  "stores =
     [(I32_STORE, \<lambda>m a off v. mem_store_u32 m a off (ucast v)),
      (I64_STORE, mem_store_u64),
      (I32_STORE8, \<lambda>m a off v. mem_store_u8 m a off (ucast (ucast v :: u32))),
      (I32_STORE16, \<lambda>m a off v. mem_store_u16 m a off (ucast (ucast v :: u32)))]"

definition exec_load :: "(u8 list \<Rightarrow> u32 \<Rightarrow> u32 \<Rightarrow> (TrapKind, u64) res) \<Rightarrow> u8 list \<Rightarrow> interp \<Rightarrow>
    (TrapKind, interp) res" where
  "exec_load f mem s =
     bind_res (interp_read_u32_leb128 s) (\<lambda>(_, s). bind_res (interp_read_u32_leb128 s) (\<lambda>(offset, s).
       bind_res (pop_u32 s) (\<lambda>(addr, s). bind_res (f mem addr offset) (\<lambda>v. push v s))))"

definition exec_store :: "(u8 list \<Rightarrow> u32 \<Rightarrow> u32 \<Rightarrow> u64 \<Rightarrow> (TrapKind, u8 list) res) \<Rightarrow> u8 list \<Rightarrow> interp \<Rightarrow>
    (TrapKind, u8 list \<times> interp) res" where
  "exec_store f mem s =
     bind_res (interp_read_u32_leb128 s) (\<lambda>(_, s). bind_res (interp_read_u32_leb128 s) (\<lambda>(offset, s).
       bind_res (pop s) (\<lambda>(val, s). bind_res (pop_u32 s) (\<lambda>(addr, s).
         bind_res (f mem addr offset val) (\<lambda>mem. ok_res (mem, s))))))"

section \<open>Control\<close>

definition block_results :: "u8 \<Rightarrow> nat" where
  "block_results block_type = (if block_type = 0x40 then 0 else 1)"

text \<open>The position after the matching end; the program counter is restored.\<close>

definition find_end :: "interp \<Rightarrow> (TrapKind, nat) res" where
  "find_end s = bind_res (skip_to_end s) (\<lambda>s'. ok_res (pc s'))"

definition exec_block :: "interp \<Rightarrow> (TrapKind, interp) res" where
  "exec_block s =
     bind_res (interp_read_byte s) (\<lambda>(block_type, s).
       bind_res (find_end s) (\<lambda>end_pc.
         push_label \<lparr>target_pc = end_pc, l_stack_depth = sp s,
                     l_result_count = block_results block_type, is_loop = False\<rparr> s))"

definition exec_loop :: "interp \<Rightarrow> (TrapKind, interp) res" where
  "exec_loop s =
     bind_res (interp_read_byte s) (\<lambda>(_, s).
       push_label \<lparr>target_pc = pc s, l_stack_depth = sp s, l_result_count = 0, is_loop = True\<rparr> s)"

definition exec_if :: "interp \<Rightarrow> (TrapKind, interp) res" where
  "exec_if s =
     bind_res (interp_read_byte s) (\<lambda>(block_type, s).
       bind_res (pop_u32 s) (\<lambda>(cond, s).
         bind_res (find_end s) (\<lambda>end_pc.
           let label = \<lparr>target_pc = end_pc, l_stack_depth = sp s,
                        l_result_count = block_results block_type, is_loop = False\<rparr>
           in if cond \<noteq> 0 then push_label label s
              else bind_res (skip_to_else_or_end s) (\<lambda>(has_else, s).
                if has_else then push_label label s else ok_res s))))"

definition exec_else :: "interp \<Rightarrow> (TrapKind, interp) res" where
  "exec_else s =
     (if 0 < label_depth s then
        bind_res (or_panic (idx (labels s) (label_depth s - 1))) (\<lambda>label.
          bind_res (top_value (0 < l_result_count label \<and> l_stack_depth label < sp s) s) (\<lambda>result.
            let s = s\<lparr>sp := l_stack_depth label\<rparr>
            in bind_res (case push_opt result s of Some (Inl _) \<Rightarrow> ok_res s | r \<Rightarrow> r) (\<lambda>s.
              ok_res (s\<lparr>label_depth := label_depth s - 1, pc := target_pc label\<rparr>))))
      else ok_res s)"

text \<open>
  A step either continues or ends \<open>run\<close> with a result; memory and host state go on in both cases.
\<close>

datatype 'h outcome = Continue interp "u8 list" 'h | Return "u64 option" interp "u8 list" 'h

text \<open>The return sequence shared by the function's end and \<open>return\<close>.\<close>

definition do_return :: "interp \<Rightarrow> u8 list \<Rightarrow> 'h \<Rightarrow> (TrapKind, 'h outcome) res" where
  "do_return s mem h =
     bind_res (or_panic (idx (frames s) (frame_depth s - 1))) (\<lambda>frame.
       bind_res (top_value (0 < f_result_count frame \<and> 0 < sp s) s) (\<lambda>result.
         bind_res (push_opt result (s\<lparr>sp := f_stack_depth frame\<rparr>)) (\<lambda>s.
           let s = s\<lparr>label_depth := label_base frame, frame_depth := frame_depth s - 1\<rparr>
           in if frame_depth s = 0 then ok_res (Return result s mem h)
              else ok_res (Continue (s\<lparr>pc := return_pc frame\<rparr>) mem h))))"

definition top_or_none :: "interp \<Rightarrow> u8 list \<Rightarrow> 'h \<Rightarrow> (TrapKind, 'h outcome) res" where
  "top_or_none s mem h = bind_res (top_value (0 < sp s) s) (\<lambda>r. ok_res (Return r s mem h))"

definition end_block :: "label \<Rightarrow> interp \<Rightarrow> (TrapKind, interp) res" where
  "end_block label s =
     bind_res (if \<not> is_loop label \<and> 0 < l_result_count label \<and> l_stack_depth label < sp s
               then bind_res (or_panic (idx (stack s) (sp s - 1)))
                      (\<lambda>result. push result (s\<lparr>sp := l_stack_depth label\<rparr>))
               else if l_stack_depth label + l_result_count label < sp s
               then ok_res (s\<lparr>sp := l_stack_depth label\<rparr>)
               else ok_res s) (\<lambda>s.
       ok_res (s\<lparr>label_depth := label_depth s - 1\<rparr>))"

definition exec_end :: "interp \<Rightarrow> u8 list \<Rightarrow> 'h \<Rightarrow> (TrapKind, 'h outcome) res" where
  "exec_end s mem h =
     (if 0 < label_depth s then
        bind_res (frame_label_base s) (\<lambda>base.
          if label_depth s - 1 = base then
            (if frame_depth s = 0 then None else do_return s mem h)
          else
            bind_res (or_panic (idx (labels s) (label_depth s - 1))) (\<lambda>label.
              bind_res (end_block label s) (\<lambda>s. ok_res (Continue s mem h))))
      else top_or_none s mem h)"

definition exec_return :: "interp \<Rightarrow> u8 list \<Rightarrow> 'h \<Rightarrow> (TrapKind, 'h outcome) res" where
  "exec_return s mem h = (if frame_depth s = 0 then top_or_none s mem h else do_return s mem h)"

text \<open>The arguments of a host call, popped last to first into \<open>args\<close>.\<close>

definition pop_arg :: "nat \<Rightarrow> nat \<Rightarrow> u64 list \<times> interp \<Rightarrow> (TrapKind, u64 list \<times> interp) res" where
  "pop_arg n i = (\<lambda>(args, s).
     bind_res (pop s) (\<lambda>(v, s). bind_res (or_panic (upd args (n - 1 - i) v)) (\<lambda>args. ok_res (args, s))))"

definition host_args :: "u32 \<Rightarrow> u64 list istep" where
  "host_args target s =
     bind_res (or_panic (idx (import_types (wmod s)) (unat target))) (\<lambda>type_idx.
       bind_res (or_panic (idx (types (wmod s)) (unat type_idx))) (\<lambda>ft.
         let n = param_count ft
         in if sp s < n then err_res StackUnderflow
            else bind_res (for_res (pop_arg n) [0..<n] (replicate 8 0, s)) (\<lambda>(args, s).
              bind_res (or_panic (slice args 0 n)) (\<lambda>args. ok_res (args, s)))))"

text \<open>
  What \<open>run\<close> leaves behind when it traps: memory and host state are the caller's and survive.
\<close>

type_synonym 'h trap = "TrapKind \<times> u8 list \<times> 'h"

definition traps :: "u8 list \<Rightarrow> 'h \<Rightarrow> (TrapKind, 'a) res \<Rightarrow> ('h trap, 'a) res" where
  "traps mem h = map_option (map_sum (\<lambda>t. (t, mem, h)) id)"

lemma traps_simps [simp]:
  "traps mem h None = None" "traps mem h (err_res t) = err_res (t, mem, h)" "traps mem h (ok_res x) = ok_res x"
  by (simp_all add: traps_def)

definition exec_call :: "'h host \<Rightarrow> interp \<Rightarrow> u8 list \<Rightarrow> 'h \<Rightarrow> ('h trap, 'h outcome) res" where
  "exec_call host s mem h =
     bind_res (traps mem h (interp_read_u32_leb128 s)) (\<lambda>(target, s).
       if target < num_imports s then
         bind_res (traps mem h (host_args target s)) (\<lambda>(args, s).
           case host h target args mem of
             None \<Rightarrow> None
           | Some (Inl e, h, mem) \<Rightarrow> err_res (HostCallError e, mem, h)
           | Some (Inr result, h, mem) \<Rightarrow>
               bind_res (traps mem h (push_opt result s)) (\<lambda>s. ok_res (Continue s mem h)))
       else bind_res (traps mem h (enter_function target (pc s) s)) (\<lambda>s. ok_res (Continue s mem h)))"

section \<open>The interpreter loop\<close>

definition exec :: "'h host \<Rightarrow> u8 \<Rightarrow> interp \<Rightarrow> u8 list \<Rightarrow> 'h \<Rightarrow> ('h trap, 'h outcome) res" where
  "exec host opcode s mem h =
     (let cont = (\<lambda>r. bind_res (traps mem h r) (\<lambda>s. ok_res (Continue s mem h)))
      in if opcode = UNREACHABLE then err_res (Unreachable, mem, h)
         else if opcode = NOP then ok_res (Continue s mem h)
         else if opcode = BLOCK then cont (exec_block s)
         else if opcode = LOOP then cont (exec_loop s)
         else if opcode = IF then cont (exec_if s)
         else if opcode = ELSE then cont (exec_else s)
         else if opcode = END then traps mem h (exec_end s mem h)
         else if opcode = BR then
           cont (bind_res (interp_read_u32_leb128 s) (\<lambda>(depth, s). do_branch depth s))
         else if opcode = BR_IF then
           cont (bind_res (interp_read_u32_leb128 s) (\<lambda>(depth, s). bind_res (pop_u32 s) (\<lambda>(cond, s).
             if cond \<noteq> 0 then do_branch depth s else ok_res s)))
         else if opcode = RETURN then traps mem h (exec_return s mem h)
         else if opcode = CALL then exec_call host s mem h
         else (case map_of loads opcode of Some f \<Rightarrow> cont (exec_load f mem s)
               | None \<Rightarrow> (case map_of stores opcode of
                   Some f \<Rightarrow> bind_res (traps mem h (exec_store f mem s)) (\<lambda>(mem, s). ok_res (Continue s mem h))
                 | None \<Rightarrow> cont (exec_basic opcode mem s))))"

definition step :: "'h host \<Rightarrow> interp \<times> u8 list \<times> 'h \<Rightarrow> ('h trap, 'h outcome) res" where
  "step host = (\<lambda>(s, mem, h).
     bind_res (traps mem h (interp_read_byte s)) (\<lambda>(opcode, s). exec host opcode s mem h))"

text \<open>
  \<open>run\<close> may not end: not returning is \<open>None\<close>, and what it returns is the result, trap or panic of its
  last step.
\<close>

partial_function (option) run :: "'h host \<Rightarrow> interp \<times> u8 list \<times> 'h \<Rightarrow>
    ('h trap, u64 option \<times> u8 list \<times> 'h) res option" where
  "run host m =
     (case step host m of
        None \<Rightarrow> Some None
      | Some (Inl t) \<Rightarrow> Some (err_res t)
      | Some (Inr (Return r s mem h)) \<Rightarrow> Some (ok_res (r, mem, h))
      | Some (Inr (Continue s mem h)) \<Rightarrow> run host (s, mem, h))"

declare run.simps [code]

definition call_function :: "'h host \<Rightarrow> u32 \<Rightarrow> u64 list \<Rightarrow> interp \<times> u8 list \<times> 'h \<Rightarrow>
    ('h trap, u64 option \<times> u8 list \<times> 'h) res option" where
  "call_function host func_idx args = (\<lambda>(s, mem, h).
     case traps mem h (bind_res (for_res push args s) (enter_function func_idx 0)) of
       None \<Rightarrow> Some None
     | Some (Inl t) \<Rightarrow> Some (err_res t)
     | Some (Inr s) \<Rightarrow> run host (s, mem, h))"

end
