(* ===== verification/Interp_Safe.thy ===== *)
theory Interp_Safe
  imports Interp
begin

unbundle bit_operations_syntax

text \<open>
  Safety of the interpreter: on a module the parser accepted, no bytecode, argument or host result can
  make it index outside its arrays.  \<open>interp_wf\<close> is the invariant; \<open>wf_at n\<close> adds the number of frames.
\<close>

definition interp_wf :: "interp \<Rightarrow> bool" where
  "interp_wf s \<longleftrightarrow>
     wasm_wf (code s) (wmod s) \<and> unat (num_imports s) \<le> import_count (wmod s) \<and>
     length (stack s) = MAX_STACK \<and> sp s \<le> MAX_STACK \<and>
     length (frames s) = MAX_CALL_DEPTH \<and> frame_depth s \<le> MAX_CALL_DEPTH \<and>
     (\<forall>f\<in>set (frames s). f_stack_depth f \<le> MAX_STACK \<and> label_base f \<le> MAX_LABELS) \<and>
     length (labels s) = MAX_LABELS \<and> label_depth s \<le> MAX_LABELS \<and>
     (\<forall>l\<in>set (labels s). l_stack_depth l \<le> MAX_STACK)"

definition wf_at :: "nat \<Rightarrow> interp \<Rightarrow> bool" where
  "wf_at n s \<longleftrightarrow> interp_wf s \<and> frame_depth s = n"

lemma wf_at_new:
  "wasm_wf c m \<Longrightarrow> unat n \<le> import_count m \<Longrightarrow> wf_at 0 (new_interp m c n)"
  by (simp add: wf_at_def interp_wf_def new_interp_def)

lemma wf_at_sel:
  assumes "wf_at n s"
  shows "wasm_wf (code s) (wmod s)" "unat (num_imports s) \<le> import_count (wmod s)"
    "length (stack s) = MAX_STACK" "sp s \<le> MAX_STACK" "length (frames s) = MAX_CALL_DEPTH"
    "frame_depth s = n" "n \<le> MAX_CALL_DEPTH" "length (labels s) = MAX_LABELS" "label_depth s \<le> MAX_LABELS"
    "f \<in> set (frames s) \<Longrightarrow> f_stack_depth f \<le> MAX_STACK \<and> label_base f \<le> MAX_LABELS"
    "l \<in> set (labels s) \<Longrightarrow> l_stack_depth l \<le> MAX_STACK"
  using assms by (simp_all add: wf_at_def interp_wf_def)

lemma wf_at_simps [simp]:
  "wf_at n (s\<lparr>pc := p\<rparr>) = wf_at n s" "wf_at n (s\<lparr>locals := ls\<rparr>) = wf_at n s"
  by (simp_all add: wf_at_def interp_wf_def)

lemma wf_at_sp [simp]: "wf_at n s \<Longrightarrow> k \<le> MAX_STACK \<Longrightarrow> wf_at n (s\<lparr>sp := k\<rparr>)"
  by (simp add: wf_at_def interp_wf_def)

lemma wf_at_labels [simp]: "wf_at n s \<Longrightarrow> k \<le> MAX_LABELS \<Longrightarrow> wf_at n (s\<lparr>label_depth := k\<rparr>)"
  by (simp add: wf_at_def interp_wf_def)

lemma wf_at_unlabel: "wf_at n s \<Longrightarrow> wf_at n (s\<lparr>label_depth := label_depth s - k\<rparr>)"
  by (auto simp: wf_at_def interp_wf_def)

section \<open>The primitive operations\<close>

lemma push_wf: "wf_at n s \<Longrightarrow> holds (wf_at n) (push v s)"
  by (auto simp: push_def wf_at_def interp_wf_def)

lemma pop_wf: "wf_at n s \<Longrightarrow> holds (\<lambda>(v, s'). wf_at n s' \<and> sp s = Suc (sp s')) (pop s)"
  by (auto simp: pop_def wf_at_def interp_wf_def Let_def)

lemma pop_u32_wf: "wf_at n s \<Longrightarrow> holds (\<lambda>(v, s'). wf_at n s') (pop_u32 s)"
  unfolding pop_u32_def by (rule holds_bind [OF pop_wf]) auto

lemma fetch_wf:
  "wf_at n s \<Longrightarrow> holds (\<lambda>(b, s'). wf_at n s') (interp_read_byte s)"
  "wf_at n s \<Longrightarrow> holds (\<lambda>(v, s'). wf_at n s') (interp_read_u32_leb128 s)"
  "wf_at n s \<Longrightarrow> holds (\<lambda>(v, s'). wf_at n s') (interp_read_i32_leb128 s)"
  "wf_at n s \<Longrightarrow> holds (\<lambda>(w, s'). wf_at n s') (interp_read_i64_leb128 s)"
  by (rule holds_mono [OF interp_read_byte_holds] holds_mono [OF leb_hold(1)]
      holds_mono [OF leb_hold(2)] holds_mono [OF leb_hold(3)], force)+

lemmas wf_intros = holds_bind [OF fetch_wf(1)] holds_bind [OF fetch_wf(2)] holds_bind [OF fetch_wf(3)]
  holds_bind [OF fetch_wf(4)] holds_bind [OF pop_wf] holds_bind [OF pop_u32_wf]

lemma idx_holds: "i < length xs \<Longrightarrow> holds (\<lambda>v. v \<in> set xs) (or_panic (idx xs i))"
  by simp

lemma frame_wf:
  "wf_at n s \<Longrightarrow> 0 < n \<Longrightarrow>
   holds (\<lambda>f. f_stack_depth f \<le> MAX_STACK \<and> label_base f \<le> MAX_LABELS) (or_panic (idx (frames s) (n - Suc 0)))"
  by (rule holds_mono [OF idx_holds]) (use wf_at_sel [of n s] in auto)

lemma local_wf:
  "wf_at n s \<Longrightarrow> holds (\<lambda>_. True) (local_get i s)" "wf_at n s \<Longrightarrow> holds (wf_at n) (local_set i v s)"
  by (auto simp: local_get_def local_set_def Let_def wf_at_sel(6) intro!: holds_bind [OF frame_wf])

lemma push_label_wf: "wf_at n s \<Longrightarrow> l_stack_depth l \<le> MAX_STACK \<Longrightarrow> holds (wf_at n) (push_label l s)"
  by (auto simp: push_label_def wf_at_def interp_wf_def dest!: subsetD [OF set_update_subset_insert])

lemma frame_label_base_wf: "wf_at n s \<Longrightarrow> holds (\<lambda>b. b \<le> MAX_LABELS) (frame_label_base s)"
  by (auto simp: frame_label_base_def wf_at_sel(6) intro!: holds_bind [OF frame_wf])

lemma label_wf:
  "wf_at n s \<Longrightarrow> i < label_depth s \<Longrightarrow> holds (\<lambda>l. l_stack_depth l \<le> MAX_STACK) (or_panic (idx (labels s) i))"
  by (rule holds_mono [OF idx_holds]) (use wf_at_sel [of n s] in auto)

lemma get_label_wf: "wf_at n s \<Longrightarrow> holds (\<lambda>l. l_stack_depth l \<le> MAX_STACK) (get_label depth s)"
  unfolding get_label_def
  by (auto simp: Let_def intro!: holds_bind [OF frame_label_base_wf] label_wf)

lemma top_value_wf: "wf_at n s \<Longrightarrow> (b \<Longrightarrow> 0 < sp s) \<Longrightarrow> holds (\<lambda>_. True) (top_value b s)"
  by (auto simp: top_value_def wf_at_def interp_wf_def)

lemma push_opt_wf: "wf_at n s \<Longrightarrow> holds (wf_at n) (push_opt r s)"
  by (simp add: push_opt_def push_wf split: option.split)

lemma do_branch_wf: "wf_at n s \<Longrightarrow> holds (wf_at n) (do_branch d s)"
  unfolding do_branch_def
  by (auto simp: Let_def wf_at_sel(9) intro!: holds_bind [OF get_label_wf] holds_bind [OF top_value_wf]
      holds_bind [OF push_opt_wf] wf_at_labels wf_at_sp order.trans [OF diff_le_self])

section \<open>Opcodes\<close>

lemma binop_wf:
  "wf_at n s \<Longrightarrow> holds (wf_at n) (binop32 f32 s)" "wf_at n s \<Longrightarrow> holds (wf_at n) (binop64 f64 s)"
proof -
  have sum: "holds (wf_at n) (bind_res (Some r) (\<lambda>v. push (g v) s'))" if "wf_at n s'" for r g s'
    by (cases r) (simp_all add: push_wf that)
  show "wf_at n s \<Longrightarrow> holds (wf_at n) (binop32 f32 s)" "wf_at n s \<Longrightarrow> holds (wf_at n) (binop64 f64 s)"
    unfolding binop32_def binop64_def by (auto intro!: wf_intros sum)
qed

lemma exec_numeric_wf: "wf_at n s \<Longrightarrow> holds (wf_at n) (exec_numeric opcode s)"
  unfolding exec_numeric_def
  by (auto split: option.split intro!: binop_wf wf_intros push_wf)

lemma stack_top_wf: "wf_at n s \<Longrightarrow> 0 < sp s \<Longrightarrow> holds (\<lambda>_. True) (or_panic (idx (stack s) (sp s - Suc 0)))"
  by (auto simp: wf_at_def interp_wf_def)

lemma exec_basic_wf: "wf_at n s \<Longrightarrow> holds (wf_at n) (exec_basic opcode mem s)"
  unfolding exec_basic_def
  by (intro holds_if)
    (auto intro!: wf_intros push_wf exec_numeric_wf holds_bind [OF local_wf(1)] local_wf(2)
      holds_bind [OF stack_top_wf])

lemma mem_load_holds:
  "holds (\<lambda>_. True) (mem_load_u8 m a off)" "holds (\<lambda>_. True) (mem_load_u16 m a off)"
  "holds (\<lambda>_. True) (mem_load_u32 m a off)" "holds (\<lambda>_. True) (mem_load_u64 m a off)"
  by (auto simp: mem_load_u8_def mem_load_u16_def mem_load_u32_def mem_load_u64_def Let_def slice_def)

lemma loads_hold: "map_of loads opcode = Some f \<Longrightarrow> holds (\<lambda>_. True) (f m a off)"
  by (drule map_of_SomeD)
    (auto simp: loads_def intro!: holds_bind [OF mem_load_holds(1)] holds_bind [OF mem_load_holds(2)]
      holds_bind [OF mem_load_holds(3)] mem_load_holds(4))

lemma put_bytes_holds:
  "ea + length bs \<le> length m \<Longrightarrow> holds (\<lambda>m'. length m' = length m) (put_bytes ea bs m)"
  unfolding put_bytes_def by (rule holds_for_inv) auto

lemma stores_hold: "map_of stores opcode = Some f \<Longrightarrow> holds (\<lambda>m'. length m' = length m) (f m a off v)"
  by (drule map_of_SomeD)
    (auto simp: stores_def mem_store_u8_def mem_store_u16_def mem_store_u32_def mem_store_u64_def
      Let_def to_le_def intro!: put_bytes_holds)

lemma exec_load_wf:
  "map_of loads opcode = Some f \<Longrightarrow> wf_at n s \<Longrightarrow> holds (wf_at n) (exec_load f mem s)"
  unfolding exec_load_def by (auto intro!: wf_intros holds_bind [OF loads_hold] push_wf)

lemma exec_store_wf:
  "map_of stores opcode = Some f \<Longrightarrow> wf_at n s \<Longrightarrow>
   holds (\<lambda>(mem', s'). length mem' = length mem \<and> wf_at n s') (exec_store f mem s)"
  unfolding exec_store_def by (auto intro!: wf_intros holds_bind [OF stores_hold])

lemma fwdE:
  assumes "fwd s s'" "pc s \<le> length (code s)"
  obtains q where "s' = s\<lparr>pc := q\<rparr>" "pc s \<le> q" "q \<le> length (code s)"
  using assms by (auto simp: fwd_def)

lemma fwd_step: "pc s < p \<Longrightarrow> p \<le> length (code s) \<Longrightarrow> fwd (s\<lparr>pc := p\<rparr>) s' \<Longrightarrow> fwd s s'"
proof -
  assume p: "pc s < p" "p \<le> length (code s)" and "fwd (s\<lparr>pc := p\<rparr>) s'"
  then obtain q where "s' = s\<lparr>pc := q\<rparr>" "p \<le> q" "q \<le> length (code s)" by (auto simp: fwd_def)
  then show "fwd s s'" using p fwd_pc [of s q] by simp
qed

lemma skip_to_end_loop_fwd: "holds (fwd s) (skip_to_end_loop s depth)"
proof (induction "length (code s) - pc s" arbitrary: s depth rule: less_induct)
  case less
  have ih: "holds (fwd s) (skip_to_end_loop (s\<lparr>pc := p\<rparr>) d)" if "pc s < p" "p \<le> length (code s)" for p d
    by (rule holds_mono [OF less]) (use that in \<open>auto intro: fwd_step\<close>)
  have imm: "holds (fwd s) (bind_res (skip_imm b (s\<lparr>pc := p\<rparr>)) (\<lambda>s. skip_to_end_loop s d))"
    if "pc s < p" "p \<le> length (code s)" for b p d
    by (rule holds_bind [OF skip_imm_holds]) (use that in \<open>auto elim!: fwdE intro!: ih\<close>)
  show ?case
    unfolding skip_to_end_loop.simps [of s]
    by (intro holds_if fwd_refl) (auto intro!: fetch_intros ih imm simp del: insert_iff)
qed

lemma skip_to_else_loop_fwd: "holds (\<lambda>(b, s'). fwd s s') (skip_to_else_loop s depth)"
proof (induction "length (code s) - pc s" arbitrary: s depth rule: less_induct)
  case less
  have ih: "holds (\<lambda>(b, s'). fwd s s') (skip_to_else_loop (s\<lparr>pc := p\<rparr>) d)"
    if "pc s < p" "p \<le> length (code s)" for p d
    by (rule holds_mono [OF less]) (use that in \<open>auto intro: fwd_step\<close>)
  have imm: "holds (\<lambda>(b, s'). fwd s s') (bind_res (skip_imm b (s\<lparr>pc := p\<rparr>)) (\<lambda>s. skip_to_else_loop s d))"
    if "pc s < p" "p \<le> length (code s)" for b p d
    by (rule holds_bind [OF skip_imm_holds]) (use that in \<open>auto elim!: fwdE intro!: ih\<close>)
  show ?case
    unfolding skip_to_else_loop.simps [of s]
    by (intro holds_if) (auto intro!: fetch_intros ih imm fwd_pc simp del: insert_iff)
qed

lemma fwd_wf: "fwd s s' \<Longrightarrow> wf_at n s \<Longrightarrow> wf_at n s'"
  by (auto simp: fwd_def)

lemma find_end_wf: "holds (\<lambda>_. True) (find_end s)"
  unfolding find_end_def skip_to_end_def by (rule holds_bind [OF skip_to_end_loop_fwd]) simp

lemma control_wf:
  assumes "wf_at n s"
  shows "holds (wf_at n) (exec_block s)" "holds (wf_at n) (exec_loop s)" "holds (wf_at n) (exec_if s)"
    "holds (wf_at n) (exec_else s)"
proof -
  have skip: "holds (\<lambda>(b, s'). wf_at n s') (skip_to_else_or_end s')" if "wf_at n s'" for s'
    unfolding skip_to_else_or_end_def
    by (rule holds_mono [OF skip_to_else_loop_fwd]) (use that fwd_wf in auto)
  show "holds (wf_at n) (exec_block s)" "holds (wf_at n) (exec_loop s)" "holds (wf_at n) (exec_if s)"
    unfolding exec_block_def exec_loop_def exec_if_def using assms
    by (auto intro!: wf_intros holds_bind [OF find_end_wf] push_label_wf holds_bind [OF skip]
        simp: Let_def wf_at_sel(4))
  have ign: "holds (wf_at n) (case push_opt r s' of Some (Inl _) \<Rightarrow> ok_res s' | x \<Rightarrow> x)"
    if "wf_at n s'" for r s'
    using push_opt_wf [OF that, of r] that
    by (cases "push_opt r s'") (auto split: sum.split)
  show "holds (wf_at n) (exec_else s)"
    unfolding exec_else_def using assms
    by (auto intro!: holds_bind [OF label_wf] holds_bind [OF top_value_wf] holds_bind [OF ign]
        wf_at_unlabel wf_at_sp simp: Let_def)
qed

section \<open>Calls and returns\<close>

text \<open>After a step: still running inside some function with memory of the same size, or returned.\<close>

definition out_wf :: "('h \<Rightarrow> bool) \<Rightarrow> nat \<Rightarrow> 'h outcome \<Rightarrow> bool" where
  "out_wf H k out \<longleftrightarrow>
     (case out of Continue s mem h \<Rightarrow> interp_wf s \<and> 0 < frame_depth s \<and> length mem = k \<and> H h
      | Return r s mem h \<Rightarrow> interp_wf s \<and> length mem = k \<and> H h)"

lemma out_wf_continue: "wf_at n s \<Longrightarrow> 0 < n \<Longrightarrow> length mem = k \<Longrightarrow> H h \<Longrightarrow> out_wf H k (Continue s mem h)"
  by (simp add: out_wf_def wf_at_def)

lemma wf_at_leave:
  "wf_at n s \<Longrightarrow> k \<le> MAX_LABELS \<Longrightarrow> wf_at (n - Suc 0) (s\<lparr>label_depth := k, frame_depth := n - Suc 0\<rparr>)"
  by (auto simp: wf_at_def interp_wf_def)

lemma do_return_wf:
  assumes "wf_at n s" "0 < n" "H h"
  shows "holds (out_wf H (length mem)) (do_return s mem h)"
proof -
  have "out_wf H (length mem) (Return r (s'\<lparr>label_depth := k, frame_depth := n - Suc 0\<rparr>) mem h)"
    "n - Suc 0 \<noteq> 0 \<Longrightarrow>
     out_wf H (length mem) (Continue (s'\<lparr>label_depth := k, frame_depth := n - Suc 0, pc := p\<rparr>) mem h)"
    if "wf_at n s'" "k \<le> MAX_LABELS" for s' k r p
    using wf_at_leave [OF that] assms(3) by (auto simp: out_wf_def wf_at_def interp_wf_def)
  then show ?thesis
    using assms unfolding do_return_def
    by (auto intro!: holds_bind [OF frame_wf] holds_bind [OF top_value_wf] holds_bind [OF push_opt_wf]
        wf_at_sp simp: Let_def wf_at_sel(6))
qed

lemma top_or_none_wf: "wf_at n s \<Longrightarrow> H h \<Longrightarrow> holds (out_wf H (length mem)) (top_or_none s mem h)"
  unfolding top_or_none_def
  by (auto intro!: holds_bind [OF top_value_wf] simp: out_wf_def wf_at_def)

lemma end_block_wf:
  "wf_at n s \<Longrightarrow> l_stack_depth l \<le> MAX_STACK \<Longrightarrow> holds (wf_at n) (end_block l s)"
  unfolding end_block_def
  by (rule holds_bind [where P = "wf_at n"])
    (auto intro!: holds_bind [OF stack_top_wf] push_wf wf_at_sp wf_at_unlabel)

lemma exec_end_wf:
  assumes "wf_at n s" "0 < n" "H h"
  shows "holds (out_wf H (length mem)) (exec_end s mem h)"
  using assms unfolding exec_end_def
  by (auto intro!: holds_bind [OF frame_label_base_wf] do_return_wf top_or_none_wf holds_bind [OF label_wf]
      holds_bind [OF end_block_wf] out_wf_continue simp: wf_at_sel(6))

lemma local_group_holds:
  "holds (\<lambda>(d, s'). wf_at n s') (for_res (\<lambda>_. local_group) is (d0, s))" if "wf_at n s"
proof -
  have "holds (\<lambda>p. wf_at n (snd p)) (for_res (\<lambda>_. local_group) is (d0, s))"
    by (rule holds_for_inv) (use that in \<open>auto simp: local_group_def intro!: wf_intros\<close>)
  then show ?thesis by (rule holds_mono) auto
qed

lemma wf_at_enter:
  assumes "wf_at n s" "n < MAX_CALL_DEPTH" "k \<le> MAX_STACK" "f_stack_depth f \<le> MAX_STACK" "label_base f \<le> MAX_LABELS"
  shows "wf_at (Suc n) (s\<lparr>sp := k, frames := (frames s)[n := f], frame_depth := Suc n, locals := ls\<rparr>)"
  using assms by (auto simp: wf_at_def interp_wf_def dest!: subsetD [OF set_update_subset_insert])

lemma fill_locals_hold:
  assumes "base + tot \<le> length ls"
  shows "(\<And>i. i < n \<Longrightarrow> at + i < length st) \<Longrightarrow> n \<le> tot \<Longrightarrow>
      holds (\<lambda>ls'. length ls' = length ls)
        (for_res (\<lambda>i ls. bind_res (or_panic (idx st (at + i))) (\<lambda>v. or_panic (upd ls (base + i) v))) [0..<n] ls)"
    "holds (\<lambda>ls'. length ls' = length ls) (for_res (\<lambda>i ls. or_panic (upd ls (base + i) 0)) [n..<tot] ls)"
  using assms by (auto intro!: holds_for_inv)

lemma prev_locals_holds:
  "wf_at n s \<Longrightarrow> holds (\<lambda>_. True) (if 0 < n
     then bind_res (or_panic (idx (frames s) (n - Suc 0))) (\<lambda>prev. ok_res (locals_base prev + local_count prev))
     else ok_res 0)"
  by (auto intro!: holds_bind [OF frame_wf])

lemma push_frame_wf:
  assumes wf: "wf_at n s" "n < MAX_CALL_DEPTH"
  shows "holds (wf_at (Suc n)) (push_frame ft body i ret declared s)"
proof -
  note w = wf_at_sel [OF wf(1)]
  have lab: "holds (wf_at (Suc n)) (push_label l
      (s\<lparr>sp := at, locals := ls, frames := (frames s)[n := f], frame_depth := Suc n\<rparr>))"
    if "at \<le> MAX_STACK" "f_stack_depth f = at" "label_base f = label_depth s" "l_stack_depth l = at" for at ls f l
    by (rule push_label_wf) (use wf_at_enter [OF wf, of at f ls] that w(9) in \<open>simp_all add: wf_at_def interp_wf_def\<close>)
  show ?thesis
    unfolding push_frame_def Let_def w(6) One_nat_def
  proof (intro holds_if holds_bind [OF prev_locals_holds [OF wf(1)]]; (simp only: holds.simps)?)
    fix base :: nat
    assume a: "\<not> length (locals s) < base + (param_count ft + declared)" "\<not> sp s < param_count ft"
    show "holds (wf_at (Suc n)) (bind_res (for_res (\<lambda>i ls. bind_res (or_panic (idx (stack s) (sp s - param_count ft + i)))
        (\<lambda>v. or_panic (upd ls (base + i) v))) [0..<param_count ft] (locals s)) (\<lambda>ls.
      bind_res (for_res (\<lambda>i ls. or_panic (upd ls (base + i) 0)) [param_count ft..<param_count ft + declared] ls) (\<lambda>ls.
      bind_res (or_panic (upd (frames s) n
        \<lparr>return_pc = ret, fr_func_idx = i, locals_base = base, local_count = param_count ft + declared,
         f_stack_depth = sp s - param_count ft, f_result_count = result_count ft, label_base = label_depth s\<rparr>)) (\<lambda>fs.
      push_label \<lparr>target_pc = body_offset body + body_length body, l_stack_depth = sp s - param_count ft,
                  l_result_count = result_count ft, is_loop = False\<rparr>
        (s\<lparr>sp := sp s - param_count ft, locals := ls, frames := fs, frame_depth := n + Suc 0\<rparr>)))))"
    proof (rule holds_bind [OF fill_locals_hold(1) [of base "param_count ft + declared"]])
      show "sp s - param_count ft + j < length (stack s)" if "j < param_count ft" for j
        using that a(2) w(3,4) by linarith
    next
      fix ls :: "u64 list" assume l: "length ls = length (locals s)"
      show "holds (wf_at (Suc n)) (bind_res (for_res (\<lambda>i ls. or_panic (upd ls (base + i) 0))
          [param_count ft..<param_count ft + declared] ls) (\<lambda>ls.
        bind_res (or_panic (upd (frames s) n
          \<lparr>return_pc = ret, fr_func_idx = i, locals_base = base, local_count = param_count ft + declared,
           f_stack_depth = sp s - param_count ft, f_result_count = result_count ft, label_base = label_depth s\<rparr>)) (\<lambda>fs.
        push_label \<lparr>target_pc = body_offset body + body_length body, l_stack_depth = sp s - param_count ft,
                    l_result_count = result_count ft, is_loop = False\<rparr>
          (s\<lparr>sp := sp s - param_count ft, locals := ls, frames := fs, frame_depth := n + Suc 0\<rparr>))))"
        by (rule holds_bind [OF fill_locals_hold(2)]) (use a l w(3-5) wf(2) in \<open>auto intro!: lab\<close>)
    qed (use a in simp_all)
  qed
qed

lemma enter_function_wf:
  assumes wf: "wf_at n s"
  shows "holds (wf_at (Suc n)) (enter_function i ret s)"
proof -
  note w = wf_at_sel [OF wf]
  have k: "j < length (func_types (wmod s))" "j < length (bodies (wmod s))" if "j < func_count (wmod s)" for j
    using that w(1) by (auto simp: wasm_wf_def)
  have t: "j < length (types (wmod s))" if "j < type_count (wmod s)" for j
    using that w(1) by (auto simp: wasm_wf_def)
  show ?thesis
    unfolding enter_function_def Let_def
    using wf k t w(6)
    by (auto intro!: wf_intros holds_bind [OF local_group_holds] push_frame_wf simp: not_le)
qed

lemma pop_args_hold:
  assumes "wf_at n s" "k \<le> 8" "k \<le> sp s"
  shows "holds (\<lambda>(args, s'). length args = 8 \<and> wf_at n s') (for_res (pop_arg k) [0..<k] (replicate 8 0, s))"
proof -
  have "holds (\<lambda>p. length (fst p) = 8 \<and> wf_at n (snd p)) (for_res (pop_arg k) [0..<k] (replicate 8 0, s))"
    by (rule holds_for_inv) (use assms in \<open>auto simp: pop_arg_def intro!: wf_intros\<close>)
  then show ?thesis by (rule holds_mono) auto
qed

lemma host_args_wf:
  assumes "wf_at n s" "t < num_imports s"
  shows "holds (\<lambda>(args, s'). wf_at n s') (host_args t s)"
proof -
  have "unat t < import_count (wmod s)"
    using assms wf_at_sel(2) [OF assms(1)] by (simp add: word_less_nat_alt)
  then have "unat t < length (import_types (wmod s))"
    "unat (import_types (wmod s) ! unat t) < length (types (wmod s))"
    "param_count (types (wmod s) ! unat (import_types (wmod s) ! unat t)) \<le> 8"
    using wf_at_sel(1) [OF assms(1)] by (auto simp: wasm_wf_def func_type_ok_def MAX_PARAMS_def)
  then show ?thesis
    unfolding host_args_def Let_def using assms(1)
    by (auto intro!: holds_bind [OF pop_args_hold] simp: slice_def)
qed

lemma traps_holds [simp]: "holds P (traps mem h m) = holds P m"
  by (cases "(P, m)" rule: holds.cases) simp_all

lemma traps_bind: "holds P m \<Longrightarrow> (\<And>x. P x \<Longrightarrow> holds Q (f x)) \<Longrightarrow> holds Q (bind_res (traps mem h m) f)"
  by (rule holds_bind [of P]) simp_all

section \<open>The host interface\<close>

text \<open>
  What the interpreter relies on: a host call keeps the host's own invariant and the size of the
  memory slice, and does not panic.
\<close>

locale host_functions =
  fixes call :: "'h host" and H :: "'h \<Rightarrow> bool"
  assumes call_ok: "H h \<Longrightarrow> \<exists>r h' mem'. call h i args mem = Some (r, h', mem') \<and> H h' \<and> length mem' = length mem"
begin

lemma exec_call_wf:
  assumes wf: "wf_at n s" and n: "0 < n" and h: "H h"
  shows "holds (out_wf H (length mem)) (exec_call call s mem h)"
proof -
  have cont: "holds (out_wf H (length mem)) (bind_res (traps mem' h' (push_opt r s')) (\<lambda>s. ok_res (Continue s mem' h')))"
    if "wf_at n s'" "H h'" "length mem' = length mem" for s' r mem' h'
    by (rule traps_bind [OF push_opt_wf [OF that(1)]]) (use n that in \<open>auto intro: out_wf_continue\<close>)
  have host: "holds (out_wf H (length mem)) (case call h t args mem of None \<Rightarrow> None
      | Some (Inl e, h, mem) \<Rightarrow> err_res (HostCallError e, mem, h)
      | Some (Inr result, h, mem) \<Rightarrow> bind_res (traps mem h (push_opt result s')) (\<lambda>s. ok_res (Continue s mem h)))"
    if "wf_at n s'" for t args s'
    using call_ok [OF h, of t args mem] cont [OF that] by (auto split: sum.split)
  have enter: "holds (out_wf H (length mem)) (bind_res (traps mem h (enter_function t p s')) (\<lambda>s. ok_res (Continue s mem h)))"
    if "wf_at n s'" for t p s'
    by (rule traps_bind [OF enter_function_wf [OF that]]) (use h in \<open>auto intro: out_wf_continue\<close>)
  show ?thesis
    unfolding exec_call_def
    by (rule traps_bind [OF fetch_wf(2) [OF wf]])
      (auto intro!: traps_bind [OF host_args_wf] host enter)
qed

lemma exec_wf:
  assumes wf: "wf_at n s" and n: "0 < n" and h: "H h"
  shows "holds (out_wf H (length mem)) (exec call opc s mem h)"
proof -
  have cont: "holds (out_wf H (length mem)) (bind_res (traps mem h r) (\<lambda>s. ok_res (Continue s mem h)))"
    if "holds (wf_at n) r" for r
    by (rule traps_bind [OF that]) (use n h in \<open>auto intro: out_wf_continue\<close>)
  have store: "holds (out_wf H (length mem)) (bind_res (traps mem h (exec_store f mem s)) (\<lambda>(mem, s). ok_res (Continue s mem h)))"
    if "map_of stores opc = Some f" for f
    by (rule traps_bind [OF exec_store_wf [OF that wf]]) (use n h in \<open>auto intro: out_wf_continue\<close>)
  have branch: "holds (wf_at n) (bind_res (interp_read_u32_leb128 s) (\<lambda>(depth, s). do_branch depth s))"
    "holds (wf_at n) (bind_res (interp_read_u32_leb128 s) (\<lambda>(depth, s). bind_res (pop_u32 s) (\<lambda>(cond, s).
       if cond \<noteq> 0 then do_branch depth s else ok_res s)))"
    using wf by (auto intro!: wf_intros do_branch_wf)
  have ret: "holds (out_wf H (length mem)) (exec_return s mem h)"
    unfolding exec_return_def using wf n h by (auto intro: do_return_wf top_or_none_wf)
  have "out_wf H (length mem) (Continue s mem h)" using wf n h by (auto intro: out_wf_continue)
  then show ?thesis
    unfolding exec_def Let_def
    by (intro holds_if)
      (simp_all add: cont control_wf [OF wf] exec_end_wf [of n, OF wf n, where H = H, OF h]
        exec_call_wf [OF wf n h] branch store ret exec_load_wf [OF _ wf] exec_basic_wf [OF wf]
        split: option.split)
qed

lemma step_wf:
  "interp_wf s \<Longrightarrow> 0 < frame_depth s \<Longrightarrow> H h \<Longrightarrow> holds (out_wf H (length mem)) (step call (s, mem, h))"
  unfolding step_def prod.case
  by (rule traps_bind [OF fetch_wf(1) [of "frame_depth s"]]) (auto simp: wf_at_def intro!: exec_wf)

lemma run_safe:
  "run call (s, mem, h) = Some r \<Longrightarrow> interp_wf s \<Longrightarrow> 0 < frame_depth s \<Longrightarrow> H h \<Longrightarrow>
   holds (\<lambda>(v, mem', h'). length mem' = length mem \<and> H h') r"
proof -
  let ?Q = "\<lambda>mem r. holds (\<lambda>(v, mem', h'). length mem' = length (mem :: u8 list) \<and> H h') r"
  let ?P = "\<lambda>host m r. host = call \<longrightarrow>
    (case m of (s, mem, h) \<Rightarrow> interp_wf s \<longrightarrow> 0 < frame_depth s \<longrightarrow> H h \<longrightarrow> ?Q mem r)"
  have "?P host m r" if "run host m = Some r" for host m r
  proof (rule run.raw_induct [of ?P, OF _ that])
    fix run' :: "'h host \<Rightarrow> interp \<times> u8 list \<times> 'h \<Rightarrow> ('h trap, u64 option \<times> u8 list \<times> 'h) res option"
    fix host m r
    assume ih: "\<And>host m r. run' host m = Some r \<Longrightarrow> ?P host m r"
      and r: "(case step host m of None \<Rightarrow> Some None | Some (Inl t) \<Rightarrow> Some (err_res t)
        | Some (Inr (Continue s mem h)) \<Rightarrow> run' host (s, mem, h)
        | Some (Inr (Return r s mem h)) \<Rightarrow> Some (ok_res (r, mem, h))) = Some r"
    obtain s mem h where m: "m = (s, mem, h)" by (cases m)
    have "?Q mem r" if "host = call" "interp_wf s" "0 < frame_depth s" "H h"
      using step_wf [OF that(2,3,4), of mem] r m that(1) ih [of call]
      by (fastforce simp: out_wf_def split: option.splits sum.splits outcome.splits)
    then show "?P host m r" using m by simp
  qed
  then show "run call (s, mem, h) = Some r \<Longrightarrow> interp_wf s \<Longrightarrow> 0 < frame_depth s \<Longrightarrow> H h \<Longrightarrow> ?Q mem r" by blast
qed

lemma entry_wf:
  assumes "wasm_wf c m" "unat n \<le> import_count m"
  shows "holds (wf_at 1) (bind_res (for_res push args (new_interp m c n)) (enter_function i 0))"
proof -
  have "holds (wf_at 0) (for_res push args (new_interp m c n))"
    by (rule holds_for_inv) (auto intro: wf_at_new assms push_wf)
  then show ?thesis by (rule holds_bind) (use enter_function_wf [of 0] in simp)
qed

lemma call_function_safe:
  assumes m: "wasm_wf c m" "unat n \<le> import_count m" and h: "H h"
    and r: "call_function call i args (new_interp m c n, mem, h) = Some r"
  shows "holds (\<lambda>(v, mem', h'). length mem' = length mem \<and> H h') r"
proof (cases "bind_res (for_res push args (new_interp m c n)) (enter_function i 0)")
  case (Some x)
  show ?thesis
  proof (cases x)
    case (Inr s)
    then have "wf_at 1 s" "run call (s, mem, h) = Some r"
      using entry_wf [OF m, of args i] r Some by (simp_all add: call_function_def)
    then show ?thesis
      using run_safe [of s mem h r] h by (auto simp: wf_at_def)
  qed (use r Some in \<open>auto simp: call_function_def\<close>)
qed (use entry_wf [OF m, of args i] in simp)

end

interpretation no_host: host_functions NoHost_call "\<lambda>_. True"
  by unfold_locales (simp add: NoHost_call_def)

text \<open>The machine states an execution passes through, whether or not it ends.\<close>

inductive reaches :: "'h host \<Rightarrow> interp \<times> u8 list \<times> 'h \<Rightarrow> interp \<times> u8 list \<times> 'h \<Rightarrow> bool"
  for host :: "'h host" and m0 :: "interp \<times> u8 list \<times> 'h" where
  start: "reaches host m0 m0"
| continue: "reaches host m0 m \<Longrightarrow> step host m = ok_res (Continue s' mem' h') \<Longrightarrow> reaches host m0 (s', mem', h')"

context host_functions
begin

lemma reaches_wf:
  assumes "reaches call m0 m" "interp_wf (fst m0)" "0 < frame_depth (fst m0)" "H (snd (snd m0))"
  shows "interp_wf (fst m) \<and> 0 < frame_depth (fst m) \<and> length (fst (snd m)) = length (fst (snd m0)) \<and>
    H (snd (snd m))"
  using assms(1)
proof induction
  case (continue m s' mem' h')
  obtain s mem h where m: "m = (s, mem, h)" by (cases m)
  have "holds (out_wf H (length mem)) (step call (s, mem, h))" by (rule step_wf) (use continue.IH m in simp_all)
  then show ?case using continue m by (simp add: out_wf_def)
qed (use assms(2-4) in simp)

lemma reaches_no_panic:
  assumes "reaches call m0 m" "interp_wf (fst m0)" "0 < frame_depth (fst m0)" "H (snd (snd m0))"
  shows "length (fst (snd m)) = length (fst (snd m0)) \<and> step call m \<noteq> None"
proof -
  obtain s mem h where m: "m = (s, mem, h)" by (cases m)
  show ?thesis using reaches_wf [OF assms] step_wf [of s h mem] m by (cases "step call m") auto
qed

end

text \<open>
  C20. Sandbox: whatever binary the parser accepts, whichever function is called with whatever
  arguments, the interpreter never indexes outside its stack, frames, labels, locals or the linear
  memory: neither the entry nor any step of the execution panics, in executions that end and in those
  that do not, and the linear memory keeps its size.  The host functions are only required not to
  panic and to keep the size of the memory.
\<close>
theorem interp_no_panic:
  assumes host: "\<forall>h i args mem. \<exists>r h' mem'. host h i args mem = Some (r, h', mem') \<and> length mem' = length mem"
    and parsed: "wasm_parse d = ok_res m" and n: "unat n \<le> import_count m"
  shows "bind_res (for_res push args (new_interp m d n)) (enter_function i 0) \<noteq> None \<and>
    (\<forall>s0 s' mem' h'. bind_res (for_res push args (new_interp m d n)) (enter_function i 0) = ok_res s0 \<longrightarrow>
       reaches host (s0, mem, h) (s', mem', h') \<longrightarrow>
       length mem' = length mem \<and> step host (s', mem', h') \<noteq> None) \<and>
    call_function host i args (new_interp m d n, mem, h) \<noteq> Some None"
proof -
  let ?e = "bind_res (for_res push args (new_interp m d n)) (enter_function i 0)"
  have hf: "host_functions host (\<lambda>_. True)" using host by (simp add: host_functions_def)
  have wf: "wasm_wf d m" using parse_wf_of [OF parsed] .
  have e: "holds (wf_at 1) ?e" by (rule host_functions.entry_wf [OF hf wf n])
  have "length mem' = length mem \<and> step host (s', mem', h') \<noteq> None"
    if "?e = ok_res s0" "reaches host (s0, mem, h) (s', mem', h')" for s0 s' mem' h'
    using host_functions.reaches_no_panic [OF hf that(2)] e that(1) by (simp add: wf_at_def)
  moreover have "call_function host i args (new_interp m d n, mem, h) \<noteq> Some None"
    using host_functions.call_function_safe [OF hf wf n TrueI, of i args mem h None] by auto
  moreover have "?e \<noteq> None" using e by (cases ?e) simp_all
  ultimately show ?thesis by blast
qed

theorem interp_no_panic_witness:
  "\<exists>m. wasm_parse [0, 0x61, 0x73, 0x6D, 1, 0, 0, 0] = ok_res m \<and>
     call_function NoHost_call 0 [7] (new_interp m [0, 0x61, 0x73, 0x6D, 1, 0, 0, 0] 0, [1, 2], ()) \<noteq> Some None"
proof -
  have p: "wasm_parse [0, 0x61, 0x73, 0x6D, 1, 0, 0, 0] = ok_res new_module"
    by (simp add: wasm_parse_def slice_def wasm_consts parse_sections.simps remaining_def new_module_def)
  have h: "\<forall>h i args mem. \<exists>r h' mem'. NoHost_call h i args mem = Some (r, h', mem') \<and> length mem' = length mem"
    by (simp add: NoHost_call_def)
  have "unat (0 :: u32) \<le> import_count new_module" by simp
  from interp_no_panic [OF h p this, where args = "[7]" and i = 0 and mem = "[1, 2]" and h = "()"]
  show ?thesis using p by blast
qed

end
