(* ===== verification/Wasm_Enc.thy ===== *)
theory Wasm_Enc
  imports Wasm
begin

unbundle bit_operations_syntax

text \<open>
  A reference encoder for the modules that \<open>wasm.rs\<close> reads, written from the WebAssembly binary
  format, and the proof that the parser inverts it: what \<open>wasm_parse\<close> extracts from an encoded module
  is that module.  \<open>module_of\<close> reads the parsed arrays back as lists.
\<close>

section \<open>Modules as lists, and their encoding\<close>

record wmodule =
  w_types :: "(u8 list \<times> u8 list) list"
  w_imports :: "(u8 list \<times> u32) list"
  w_funcs :: "u32 list"
  w_memory :: "(u32 \<times> u32 option) option"
  w_exports :: "(u8 list \<times> u8 \<times> u32) list"
  w_codes :: "u8 list list"
  w_datas :: "(u32 \<times> u8 list) list"

fun leb :: "nat \<Rightarrow> u8 list" where
  "leb n = (if n < 128 then [of_nat n] else of_nat (128 + n mod 128) # leb (n div 128))"

declare leb.simps [simp del]

text \<open>
  Signed integers are written in signed LEB128: the last group's bit 6 is the sign, so that the
  immediate 100 of an \<open>i32.const\<close> takes the two bytes \<open>0xE4 0x00\<close>.
\<close>

fun sleb :: "int \<Rightarrow> u8 list" where
  "sleb n =
     (if - 64 \<le> n \<and> n < 64 then [of_int (n mod 128)]
      else of_int (128 + n mod 128) # sleb (n div 128))"

declare sleb.simps [simp del]

abbreviation leb_u32 :: "u32 \<Rightarrow> u8 list" where "leb_u32 w \<equiv> leb (unat w)"

definition vec :: "('a \<Rightarrow> u8 list) \<Rightarrow> 'a list \<Rightarrow> u8 list" where
  "vec f xs = leb (length xs) @ concat (map f xs)"

abbreviation bytes :: "u8 list \<Rightarrow> u8 list" where "bytes s \<equiv> leb (length s) @ s"

fun enc_type :: "u8 list \<times> u8 list \<Rightarrow> u8 list" where
  "enc_type (ps, rs) = 0x60 # bytes ps @ bytes rs"

fun enc_import :: "u8 list \<Rightarrow> u8 list \<times> u32 \<Rightarrow> u8 list" where
  "enc_import modname (field, ti) = bytes modname @ bytes field @ IMPORT_FUNC # leb_u32 ti"

fun enc_limits :: "u32 \<times> u32 option \<Rightarrow> u8 list" where
  "enc_limits (mn, None) = 0 # leb_u32 mn"
| "enc_limits (mn, Some mx) = 1 # leb_u32 mn @ leb_u32 mx"

fun enc_export :: "u8 list \<times> u8 \<times> u32 \<Rightarrow> u8 list" where
  "enc_export (name, kind, index) = bytes name @ kind # leb_u32 index"

fun enc_data :: "u32 \<times> u8 list \<Rightarrow> u8 list" where
  "enc_data (off, bs) = leb 0 @ 0x41 # sleb (sint off) @ 0x0B # bytes bs"

definition sec :: "u8 \<Rightarrow> u8 list \<Rightarrow> u8 list" where
  "sec sid body = sid # bytes body"

definition encode :: "u8 list \<Rightarrow> wmodule \<Rightarrow> u8 list" where
  "encode modname w = WASM_MAGIC @ WASM_VERSION @
     sec SEC_TYPE (vec enc_type (w_types w)) @
     sec SEC_IMPORT (vec (enc_import modname) (w_imports w)) @
     sec SEC_FUNCTION (vec leb_u32 (w_funcs w)) @
     (case w_memory w of None \<Rightarrow> [] | Some l \<Rightarrow> sec SEC_MEMORY (leb 1 @ enc_limits l)) @
     sec SEC_EXPORT (vec enc_export (w_exports w)) @
     sec SEC_CODE (vec bytes (w_codes w)) @
     sec SEC_DATA (vec enc_data (w_datas w))"

text \<open>
  The modules within the parser's limits, with data segments at non-negative \<open>i32\<close> offsets: the
  parser reads the offset with the unsigned reader, which decodes a negative immediate wrongly.
\<close>

definition encodable :: "u8 list \<Rightarrow> wmodule \<Rightarrow> bool" where
  "encodable modname w \<longleftrightarrow> length (encode modname w) < 2 ^ 32 \<and>
     length (w_types w) \<le> MAX_TYPES \<and>
     (\<forall>(ps, rs)\<in>set (w_types w). length ps \<le> MAX_PARAMS \<and> length rs \<le> MAX_RESULTS \<and>
        (\<forall>t\<in>set ps \<union> set rs. is_valid_valtype t)) \<and>
     length (w_imports w) \<le> MAX_IMPORTS \<and>
     (\<forall>(field, ti)\<in>set (w_imports w). length field \<le> MAX_IMPORT_NAME \<and> unat ti < length (w_types w)) \<and>
     length (w_funcs w) \<le> MAX_FUNCS \<and> (\<forall>ti\<in>set (w_funcs w). unat ti < length (w_types w)) \<and>
     length (w_exports w) \<le> MAX_EXPORTS \<and>
     (\<forall>(name, kind, index)\<in>set (w_exports w). length name \<le> MAX_EXPORT_NAME \<and> kind \<le> EXPORT_GLOBAL) \<and>
     length (w_codes w) = length (w_funcs w) \<and> length (w_datas w) \<le> MAX_DATA_SEGS \<and>
     (\<forall>(off, bs)\<in>set (w_datas w). 0 \<le> sint off)"

section \<open>The parsed arrays as lists\<close>

definition sub :: "'a list \<Rightarrow> nat \<Rightarrow> nat \<Rightarrow> 'a list" where
  "sub d off len = take len (drop off d)"

definition module_of :: "u8 list \<Rightarrow> WasmModule \<Rightarrow> wmodule" where
  "module_of d m =
     \<lparr>w_types = map (\<lambda>ft. (take (param_count ft) (params ft), take (result_count ft) (results ft)))
                  (take (type_count m) (types m)),
      w_imports = map (\<lambda>(name, len, ti). (take len name, ti))
                  (take (import_count m) (zip (import_names m) (zip (import_name_lens m) (import_types m)))),
      w_funcs = take (func_count m) (func_types m),
      w_memory = (if has_memory m
                  then Some (min_pages (memory m), if has_max (memory m) then Some (max_pages (memory m)) else None)
                  else None),
      w_exports = map (\<lambda>e. (take (name_len e) (export_name e), export_kind e, export_index e))
                  (take (export_count m) (exports m)),
      w_codes = map (\<lambda>b. sub d (body_offset b) (body_length b)) (take (body_count m) (bodies m)),
      w_datas = map (\<lambda>s. (seg_offset s, sub d (data_offset s) (data_len s)))
                  (take (data_segment_count m) (data_segments m))\<rparr>"

section \<open>Reading what was written\<close>

text \<open>The bytes ahead of the cursor, and the cursor after some of them.\<close>

definition ahead :: "cursor \<Rightarrow> u8 list" where "ahead c = drop (pos c) (data c)"
definition adv :: "cursor \<Rightarrow> nat \<Rightarrow> cursor" where "adv c n = c\<lparr>pos := pos c + n\<rparr>"

lemma adv_sel [simp]: "data (adv c n) = data c" "pos (adv c n) = pos c + n"
  "adv (adv c n) k = adv c (n + k)" "adv c 0 = c" "ahead (adv c n) = drop n (ahead c)"
  by (simp_all add: adv_def ahead_def ac_simps)

lemma ahead_Cons: "ahead c = b # rest \<Longrightarrow> pos c < length (data c) \<and> data c ! pos c = b"
  by (metis ahead_def drop_all hd_drop_conv_nth leI list.sel(1) list.simps(3))

lemma ahead_length: "ahead c = xs @ rest \<Longrightarrow> pos c \<le> length (data c) \<Longrightarrow>
   pos c + length xs \<le> length (data c) \<and> sub (data c) (pos c) (length xs) = xs"
  by (auto simp: ahead_def sub_def dest: arg_cong [of _ _ length])

lemma read_byte_ahead [simp]: "ahead c = b # rest \<Longrightarrow> read_byte c = ok_res (b, adv c 1)"
  by (drule ahead_Cons) (simp add: read_byte_def adv_def)

lemma skip_ahead:
  "ahead c = xs @ rest \<Longrightarrow> pos c \<le> length (data c) \<Longrightarrow> n = length xs \<Longrightarrow> skip c n = ok_res (adv c n)"
  by (drule ahead_length) (auto simp: skip_def adv_def)

lemma read_bytes_ahead:
  "ahead c = xs @ rest \<Longrightarrow> pos c \<le> length (data c) \<Longrightarrow> n = length xs \<Longrightarrow>
   read_bytes c n = ok_res (xs, adv c n)"
  by (frule ahead_length) (auto simp: read_bytes_def adv_def slice_def ahead_def)

lemma low7: "(w :: u8) AND 0x7F = take_bit 7 w"
  by (simp add: take_bit_eq_mask mask_eq_exp_minus_1)

lemma high_bit: "(w :: u8) AND 0x80 = 0 \<longleftrightarrow> \<not> bit w 7"
proof -
  have "(w AND 0x80) = (if bit w 7 then 0x80 else 0)"
  proof (rule bit_word_eqI)
    fix i
    have "bit (0x80 :: u8) i \<longleftrightarrow> i = 7"
      using bit_push_bit_iff [of 7 "1 :: u8" i] by (auto simp: bit_1_iff)
    then show "bit (w AND 0x80) i = bit (if bit w 7 then 0x80 else 0 :: u8) i"
      by (auto simp: bit_and_iff)
  qed
  then show ?thesis by auto
qed

lemma low7_nat: "ucast ((of_nat k :: u8) AND 0x7F) = (of_nat (k mod 128) :: u32)"
proof (rule bit_word_eqI)
  fix i
  have "k mod 128 = take_bit 7 k" by (simp add: take_bit_eq_mod)
  then show "bit (ucast ((of_nat k :: u8) AND 0x7F) :: u32) i = bit (of_nat (k mod 128) :: u32) i"
    by (auto simp: low7 bit_unsigned_iff bit_take_bit_iff bit_of_nat_iff)
qed

lemma last_byte:
  assumes "n < 128"
  shows "(of_nat n :: u8) AND 0x80 = 0" "ucast ((of_nat n :: u8) AND 0x7F) = (of_nat n :: u32)"
proof -
  have "\<not> bit n 7" using assms by (simp add: bit_iff_odd)
  then show "(of_nat n :: u8) AND 0x80 = 0" unfolding high_bit bit_of_nat_iff by simp
  show "ucast ((of_nat n :: u8) AND 0x7F) = (of_nat n :: u32)"
    using assms unfolding low7_nat by simp
qed

lemma more_byte:
  "(of_nat (128 + n mod 128) :: u8) AND 0x80 \<noteq> 0"
  "ucast ((of_nat (128 + n mod 128) :: u8) AND 0x7F) = (of_nat (n mod 128) :: u32)"
proof -
  have "(128 + n mod 128) div 128 = 1" by simp
  then have "bit (128 + n mod 128) 7" by (simp add: bit_iff_odd del: div_add_self1 div_add1_eq)
  then show "(of_nat (128 + n mod 128) :: u8) AND 0x80 \<noteq> 0"
    unfolding high_bit bit_of_nat_iff by simp
  show "ucast ((of_nat (128 + n mod 128) :: u8) AND 0x7F) = (of_nat (n mod 128) :: u32)"
    unfolding low7_nat by simp
qed

lemma split7: "(of_nat (n mod 128) :: u32) OR push_bit 7 (of_nat (n div 128)) = of_nat n"
proof (rule bit_word_eqI)
  fix i
  have "n mod 128 = take_bit 7 n" "n div 128 = drop_bit 7 n"
    by (simp_all add: take_bit_eq_mod drop_bit_eq_div)
  then show "bit ((of_nat (n mod 128) :: u32) OR push_bit 7 (of_nat (n div 128))) i = bit (of_nat n :: u32) i"
    by (auto simp: bit_or_iff bit_push_bit_iff bit_of_nat_iff bit_take_bit_iff bit_drop_bit_eq)
qed

lemma leb128_loop_ahead:
  "ahead c = leb n @ rest \<Longrightarrow> n * 2 ^ shift < 2 ^ 32 \<Longrightarrow>
   leb128_loop c r shift = ok_res (r OR push_bit shift (of_nat n), adv c (length (leb n)))"
proof (induction n arbitrary: c r shift rule: leb.induct)
  case (1 n)
  show ?case
  proof (cases "n < 128")
    case True
    then show ?thesis using 1(2) by (simp add: leb.simps [of n] leb128_loop.simps last_byte)
  next
    case False
    let ?b = "of_nat (128 + n mod 128) :: u8"
    have leb: "leb n = ?b # leb (n div 128)" using False by (simp add: leb.simps [of n])
    have "n div 128 * 2 ^ (shift + 7) \<le> n * 2 ^ shift"
      using mult_le_mono1 [of "n div 128 * 128" n "2 ^ shift"] by (simp add: power_add mult.assoc mult.commute)
    then have "n div 128 * 2 ^ (shift + 7) < 2 ^ 32" using 1(3) by linarith
    moreover have "(2::nat) ^ (7 + shift) \<le> n * 2 ^ shift"
      using mult_le_mono1 [of "2 ^ 7" n "2 ^ shift"] False by (simp add: power_add)
    then have "(2::nat) ^ (7 + shift) < 2 ^ 32" using 1(3) by linarith
    then have "7 + shift < 32" using power_strict_increasing_iff [of "2 :: nat" "7 + shift" 32] by simp
    then have "shift + 7 < 35" by simp
    ultimately have "leb128_loop (adv c 1) (r OR push_bit shift (of_nat (n mod 128))) (shift + 7) =
      ok_res (r OR push_bit shift (of_nat (n mod 128)) OR push_bit (shift + 7) (of_nat (n div 128)),
        adv (adv c 1) (length (leb (n div 128))))"
      using 1 False by (simp add: leb or.assoc)
    moreover have "r OR push_bit shift (of_nat (n mod 128)) OR push_bit (shift + 7) (of_nat (n div 128)) =
      r OR push_bit shift (of_nat n)"
      by (simp flip: split7 [of n] push_bit_push_bit add: or.assoc push_bit_or)
    ultimately show ?thesis
      using 1(2) more_byte [of n] \<open>shift + 7 < 35\<close> by (simp add: leb leb128_loop.simps [of c] Let_def)
  qed
qed

lemma read_leb:
  "ahead c = leb n @ rest \<Longrightarrow> n < 2 ^ 32 \<Longrightarrow>
   read_u32_leb128 c = ok_res (of_nat n, adv c (length (leb n)))"
  using leb128_loop_ahead [of c n rest 0 0] by (simp add: read_u32_leb128_def)

lemma unat_lt2p_32: "unat (w :: u32) < 2 ^ 32"
  using unsigned_less [of w] by simp

lemma read_leb_u32:
  "ahead c = leb_u32 w @ rest \<Longrightarrow> read_u32_leb128 c = ok_res (w, adv c (length (leb_u32 w)))"
  using read_leb [of c "unat w" rest] unat_lt2p_32 [of w] by simp

lemma sleb_nat:
  "sleb (int n) = (if n < 64 then [of_nat n] else of_nat (128 + n mod 128) # sleb (int (n div 128)))"
proof -
  have "int n mod 128 = int (n mod 128)" "int n div 128 = int (n div 128)"
    by (simp_all add: zmod_int zdiv_int)
  then show ?thesis by (simp add: sleb.simps [of "int n"])
qed

text \<open>The unsigned reader inverts the signed encoding of a value that is not negative.\<close>

lemma leb128_loop_sleb:
  "ahead c = sleb (int n) @ rest \<Longrightarrow> n * 2 ^ shift < 2 ^ 31 \<Longrightarrow>
   leb128_loop c r shift = ok_res (r OR push_bit shift (of_nat n), adv c (length (sleb (int n))))"
proof (induction n arbitrary: c r shift rule: less_induct)
  case (less n)
  show ?case
  proof (cases "n < 64")
    case True
    then show ?thesis using less(2) by (simp add: sleb_nat [of n] leb128_loop.simps last_byte)
  next
    case False
    let ?b = "of_nat (128 + n mod 128) :: u8"
    have sl: "sleb (int n) = ?b # sleb (int (n div 128))" using False by (simp add: sleb_nat [of n])
    have "n div 128 * 2 ^ (shift + 7) \<le> n * 2 ^ shift"
      using mult_le_mono1 [of "n div 128 * 128" n "2 ^ shift"] by (simp add: power_add mult.assoc mult.commute)
    then have "n div 128 * 2 ^ (shift + 7) < 2 ^ 31" using less(3) by linarith
    moreover have "(2::nat) ^ (6 + shift) \<le> n * 2 ^ shift"
      using mult_le_mono1 [of "2 ^ 6" n "2 ^ shift"] False by (simp add: power_add)
    then have "(2::nat) ^ (6 + shift) < 2 ^ 31" using less(3) by linarith
    then have "6 + shift < 31" using power_strict_increasing_iff [of "2 :: nat" "6 + shift" 31] by simp
    then have sh: "shift + 7 < 35" by simp
    moreover have "n div 128 < n" using False by simp
    ultimately have "leb128_loop (adv c 1) (r OR push_bit shift (of_nat (n mod 128))) (shift + 7) =
      ok_res (r OR push_bit shift (of_nat (n mod 128)) OR push_bit (shift + 7) (of_nat (n div 128)),
        adv (adv c 1) (length (sleb (int (n div 128)))))"
      using less(1) [of "n div 128" "adv c 1" "shift + 7" "r OR push_bit shift (of_nat (n mod 128))"] less(2)
      by (simp add: sl or.assoc)
    moreover have "r OR push_bit shift (of_nat (n mod 128)) OR push_bit (shift + 7) (of_nat (n div 128)) =
      r OR push_bit shift (of_nat n)"
      by (simp flip: split7 [of n] push_bit_push_bit add: or.assoc push_bit_or)
    ultimately show ?thesis
      using less(2) more_byte [of n] sh by (simp add: sl leb128_loop.simps [of c] Let_def)
  qed
qed

lemma read_sleb:
  assumes "ahead c = sleb (sint off) @ rest" "0 \<le> sint (off :: u32)"
  shows "read_u32_leb128 c = ok_res (off, adv c (length (sleb (sint off))))"
proof -
  have n: "sint off = int (nat (sint off))" using assms(2) by simp
  have "sint off < 2 ^ 31" using sint_lt [of off] by simp
  then have "nat (sint off) < 2 ^ 31" by (simp add: nat_less_iff assms(2))
  moreover have "of_nat (nat (sint off)) = off" using n by (metis of_int_of_nat_eq of_int_sint scast_id)
  ultimately show ?thesis
    using leb128_loop_sleb [of c "nat (sint off)" rest 0 0] assms n by (simp add: read_u32_leb128_def)
qed

text \<open>The loops that fill a fixed array from the input.\<close>

lemma upd_fill:
  assumes "k < length src" "k < length dst"
  shows "upd (take k src @ drop k dst) k (src ! k) = Some (take (Suc k) src @ drop (Suc k) dst)"
  using assms Cons_nth_drop_Suc [OF assms(2)]
  by (simp add: upd_def list_update_append take_Suc_conv_app_nth flip: Cons_nth_drop_Suc)

lemma read_valtypes_ahead:
  assumes "ahead c = ps @ rest" "length ps \<le> length vts" "\<forall>t\<in>set ps. is_valid_valtype t" "k \<le> length ps"
  shows "for_res read_valtype [0..<k] (c, vts) = ok_res (adv c k, take k ps @ drop k vts)"
  using assms(4)
proof (induction k)
  case (Suc k)
  then have "ahead (adv c k) = ps ! k # drop (Suc k) ps @ rest"
    using assms(1) by (simp add: Cons_nth_drop_Suc)
  then show ?case
    using Suc assms(2,3) upd_fill [of k ps vts] by (simp add: for_res_append read_valtype_def)
qed simp

lemma copy_bytes_eq:
  "k \<le> length src \<Longrightarrow> k \<le> length dst \<Longrightarrow>
   for_res (copy_byte src) [0..<k] dst = ok_res (take k src @ drop k dst)"
proof (induction k)
  case (Suc k)
  then show ?case using upd_fill [of k src dst] by (simp add: for_res_append copy_byte_def)
qed simp

section \<open>Vectors of entries\<close>

lemma parse_section_ahead:
  assumes "ahead c = sec sid body @ rest" "length body < 2 ^ 32"
    "parse_contents sid (length body) (adv c (1 + length (leb (length body))), m) =
      ok_res (adv c (length (sec sid body)), m')"
  shows "parse_section (c, m) = ok_res (adv c (length (sec sid body)), m')"
proof -
  have "read_u32_leb128 (adv c 1) = ok_res (of_nat (length body), adv (adv c 1) (length (leb (length body))))"
    by (rule read_leb [where rest = "body @ rest"]) (use assms(1,2) in \<open>simp_all add: sec_def\<close>)
  then show ?thesis
    using assms by (simp add: parse_section_def sec_def unat_of_nat_small)
qed

text \<open>The state of the section loop: the bytes still to read and the module read so far.\<close>

definition loop_at :: "u8 list \<Rightarrow> u8 list \<Rightarrow> wmodule \<Rightarrow> cursor \<times> WasmModule \<Rightarrow> bool" where
  "loop_at d rest w s \<longleftrightarrow> length d < 2 ^ 32 \<and> data (fst s) = d \<and> ahead (fst s) = rest \<and>
     length d = pos (fst s) + length rest \<and> wasm_wf d (snd s) \<and> module_of d (snd s) = w"

lemma loop_at_step:
  assumes "loop_at d (xs @ rest) w (c, m)" "parse_section (c, m) = ok_res (adv c (length xs), m')"
    "wasm_wf d m'" "module_of d m' = w'"
  shows "\<exists>s. parse_sections (c, m) = parse_sections s \<and> loop_at d rest w' s"
proof (intro exI conjI)
  show "parse_sections (c, m) = parse_sections (adv c (length xs), m')"
    using assms(2) parse_section_progress(2) [OF assms(2)] by (simp add: parse_sections.simps [of c m] remaining_def)
  show "loop_at d rest w' (adv c (length xs), m')"
    using assms by (simp add: loop_at_def)
qed

text \<open>
  The contract that the six section parsers with a count share.  \<open>lst\<close> and \<open>put\<close> read and replace the
  entries in the module seen as lists, \<open>ok\<close> says which entries are within the limits; a parser of one
  entry appends it.  A section of such entries then appends them all.
\<close>

locale entry_parser =
  fixes sid :: u8 and f :: parser and enc :: "'a \<Rightarrow> u8 list"
    and lst :: "wmodule \<Rightarrow> 'a list" and put :: "'a list \<Rightarrow> wmodule \<Rightarrow> wmodule"
    and ok :: "wmodule \<Rightarrow> 'a \<Rightarrow> bool" and limit :: nat
  assumes limit: "limit < 2 ^ 32" and lst_put: "lst (put xs w) = xs" and put_put: "put xs (put ys w) = put xs w"
    and put_lst: "put (lst w) w = w" and ok_put: "ok (put xs w) e = ok w e"
    and contents: "parse_contents sid len (c, m) =
      bind_res (read_u32_leb128 c) (\<lambda>(count, c). for_res (\<lambda>_. f) [0..<unat count] (c, m))"
    and entry: "ahead c = enc e @ rest \<Longrightarrow> length (data c) = pos c + length (enc e @ rest) \<Longrightarrow>
      length (data c) < 2 ^ 32 \<Longrightarrow> wasm_wf (data c) m \<Longrightarrow>
      length (lst (module_of (data c) m)) < limit \<Longrightarrow> ok (module_of (data c) m) e \<Longrightarrow>
      \<exists>m'. f (c, m) = ok_res (adv c (length (enc e)), m') \<and> wasm_wf (data c) m' \<and>
        module_of (data c) m' = put (lst (module_of (data c) m) @ [e]) (module_of (data c) m)"
begin

lemma entries:
  assumes "ahead c = concat (map enc xs) @ rest" "length (data c) = pos c + length (concat (map enc xs) @ rest)"
    "length (data c) < 2 ^ 32" "wasm_wf (data c) m" "w = module_of (data c) m"
    "length (lst w) + length xs \<le> limit" "\<forall>e\<in>set xs. ok w e" "length is = length xs"
  shows "\<exists>m'. for_res (\<lambda>_. f) is (c, m) = ok_res (adv c (length (concat (map enc xs))), m') \<and>
    wasm_wf (data c) m' \<and> module_of (data c) m' = put (lst w @ xs) w"
  using assms
proof (induction xs arbitrary: c m w "is")
  case Nil
  then show ?case by (simp add: put_lst)
next
  case (Cons e xs)
  obtain i is' where i: "is = i # is'" using Cons.prems(8) by (cases "is") auto
  obtain m1 where m1: "f (c, m) = ok_res (adv c (length (enc e)), m1)" "wasm_wf (data c) m1"
    "module_of (data c) m1 = put (lst w @ [e]) w"
    using entry [of c e "concat (map enc xs) @ rest" m] Cons.prems by auto
  have "\<exists>m'. for_res (\<lambda>_. f) is' (adv c (length (enc e)), m1) =
      ok_res (adv (adv c (length (enc e))) (length (concat (map enc xs))), m') \<and>
    wasm_wf (data (adv c (length (enc e)))) m' \<and>
    module_of (data (adv c (length (enc e)))) m' = put (lst (put (lst w @ [e]) w) @ xs) (put (lst w @ [e]) w)"
    by (rule Cons.IH) (use Cons.prems m1 i in \<open>simp_all add: lst_put ok_put\<close>)
  then show ?case using m1(1) i by (auto simp: lst_put put_put)
qed

lemma entry_section:
  assumes "ahead c = sec sid (vec enc xs) @ rest" "length (data c) = pos c + length (sec sid (vec enc xs) @ rest)"
    "length (data c) < 2 ^ 32" "wasm_wf (data c) m" "w = module_of (data c) m"
    "length (lst w) + length xs \<le> limit" "\<forall>e\<in>set xs. ok w e"
  shows "\<exists>m'. parse_section (c, m) = ok_res (adv c (length (sec sid (vec enc xs))), m') \<and>
    wasm_wf (data c) m' \<and> module_of (data c) m' = put (lst w @ xs) w"
proof -
  let ?b = "vec enc xs" and ?h = "\<lambda>c. adv c (length (leb (length xs)))"
  let ?c = "adv c (1 + length (leb (length ?b)))"
  have n: "length xs < 2 ^ 32" using assms(6) limit by linarith
  have a: "ahead ?c = ?b @ rest" using assms(1) by (simp add: sec_def)
  then have r: "read_u32_leb128 ?c = ok_res (of_nat (length xs), ?h ?c)"
    by (intro read_leb [where rest = "concat (map enc xs) @ rest"]) (use n in \<open>simp_all add: vec_def\<close>)
  have "\<exists>m'. for_res (\<lambda>_. f) [0..<length xs] (?h ?c, m) = ok_res (adv (?h ?c) (length (concat (map enc xs))), m') \<and>
    wasm_wf (data (?h ?c)) m' \<and> module_of (data (?h ?c)) m' = put (lst w @ xs) w"
    by (rule entries [where rest = rest]) (use assms a in \<open>simp_all add: vec_def sec_def\<close>)
  then obtain m' where m': "for_res (\<lambda>_. f) [0..<length xs] (?h ?c, m) = ok_res (adv c (length (sec sid ?b)), m')"
    "wasm_wf (data c) m'" "module_of (data c) m' = put (lst w @ xs) w"
    by (auto simp: vec_def sec_def ac_simps)
  have "parse_contents sid (length ?b) (?c, m) = ok_res (adv c (length (sec sid ?b)), m')"
    using m'(1) r n by (simp add: contents unat_of_nat_small)
  moreover have "length ?b < 2 ^ 32" using assms(2,3) by (simp add: sec_def)
  ultimately show ?thesis using parse_section_ahead [OF assms(1)] m'(2,3) by auto
qed

lemma entry_loop:
  assumes "loop_at d (sec sid (vec enc xs) @ rest) w s" "length (lst w) + length xs \<le> limit"
    "\<forall>e\<in>set xs. ok w e"
  shows "\<exists>s'. parse_sections s = parse_sections s' \<and> loop_at d rest (put (lst w @ xs) w) s'"
proof -
  obtain c m where s: "s = (c, m)" by (cases s)
  obtain m' where "parse_section (c, m) = ok_res (adv c (length (sec sid (vec enc xs))), m')"
    "wasm_wf d m'" "module_of d m' = put (lst w @ xs) w"
    using entry_section [of c xs rest m w] assms s by (auto simp: loop_at_def)
  then show ?thesis using loop_at_step assms(1) s by blast
qed

end

section \<open>The six kinds of entries\<close>

lemma take_Suc_update: "n < length xs \<Longrightarrow> take (Suc n) (xs[n := x]) = take n xs @ [x]"
  by (simp add: take_Suc_conv_app_nth)

lemma zip_update3:
  "zip (as[i := a]) (zip (bs[i := b]) (cs[i := c])) = (zip as (zip bs cs))[i := (a, b, c)]"
  by (simp add: update_zip)

interpretation type_entries: entry_parser SEC_TYPE parse_type enc_type w_types
  "\<lambda>xs w. w\<lparr>w_types := xs\<rparr>"
  "\<lambda>w (ps, rs). length ps \<le> MAX_PARAMS \<and> length rs \<le> MAX_RESULTS \<and> (\<forall>t\<in>set ps \<union> set rs. is_valid_valtype t)"
  MAX_TYPES
proof
  fix c :: cursor and e :: "u8 list \<times> u8 list" and rest :: "u8 list" and m
  assume a: "ahead c = enc_type e @ rest" and d: "length (data c) = pos c + length (enc_type e @ rest)"
    "length (data c) < 2 ^ 32" and wf: "wasm_wf (data c) m"
    and lim: "length (w_types (module_of (data c) m)) < MAX_TYPES"
    and ok: "case e of (ps, rs) \<Rightarrow> length ps \<le> MAX_PARAMS \<and> length rs \<le> MAX_RESULTS \<and>
      (\<forall>t\<in>set ps \<union> set rs. is_valid_valtype t)"
  obtain ps rs where e: "e = (ps, rs)" by (cases e)
  have s: "length ps < 2 ^ 32" "length rs < 2 ^ 32" using ok e by (simp_all add: wasm_limits)
  have n: "type_count m < MAX_TYPES" "type_count m < length (types m)"
    using lim wf by (simp_all add: module_of_def wasm_wf_def)
  have z: "length (params empty_func_type) = MAX_PARAMS" "length (results empty_func_type) = MAX_RESULTS"
    by (simp_all add: empty_func_type_def)
  let ?ft = "\<lparr>params = ps @ drop (length ps) (params empty_func_type), param_count = length ps,
    results = rs @ drop (length rs) (results empty_func_type), result_count = length rs\<rparr>"
  let ?m = "m\<lparr>types := (types m)[type_count m := ?ft], type_count := Suc (type_count m)\<rparr>"
  define c1 where "c1 = adv c 1"
  define c2 where "c2 = adv c1 (length (leb (length ps)))"
  define c3 where "c3 = adv c2 (length ps)"
  define c4 where "c4 = adv c3 (length (leb (length rs)))"
  note cs = c1_def c2_def c3_def c4_def
  have ah: "ahead c1 = leb (length ps) @ ps @ leb (length rs) @ rs @ rest"
    "ahead c2 = ps @ leb (length rs) @ rs @ rest" "ahead c3 = leb (length rs) @ rs @ rest"
    "ahead c4 = rs @ rest"
    using a e by (simp_all add: cs)
  have "read_byte c = ok_res (0x60, c1)" using a e by (simp add: cs)
  moreover note read_leb [OF ah(1) s(1), folded c2_def] read_leb [OF ah(3) s(2), folded c4_def]
  moreover have "for_res read_valtype [0..<length ps] (c2, params empty_func_type) =
      ok_res (c3, ps @ drop (length ps) (params empty_func_type))"
    "for_res read_valtype [0..<length rs] (c4, results empty_func_type) =
      ok_res (adv c4 (length rs), rs @ drop (length rs) (results empty_func_type))"
    using read_valtypes_ahead [OF ah(2), of "params empty_func_type" "length ps"]
      read_valtypes_ahead [OF ah(4), of "results empty_func_type" "length rs"] e ok z
    by (simp_all add: c3_def)
  moreover have "unat (of_nat (length ps) :: u32) = length ps" "unat (of_nat (length rs) :: u32) = length rs"
    using s by (simp_all add: unat_of_nat_small)
  ultimately have "parse_type (c, m) = ok_res (adv c4 (length rs), ?m)"
    unfolding parse_type_def using n ok e by simp
  then have "parse_type (c, m) = ok_res (adv c (length (enc_type e)), ?m)" using e by (simp add: cs ac_simps)
  moreover have "wasm_wf (data c) ?m"
    by (rule wasm_wf_type) (use wf n ok e z in \<open>auto simp: func_type_ok_def nth_append\<close>)
  ultimately show "\<exists>m'. parse_type (c, m) = ok_res (adv c (length (enc_type e)), m') \<and> wasm_wf (data c) m' \<and>
    module_of (data c) m' = (module_of (data c) m)\<lparr>w_types := w_types (module_of (data c) m) @ [e]\<rparr>"
    using e n by (auto simp: module_of_def take_Suc_update)
qed (auto simp: parse_contents_def parse_type_section_def wasm_consts wasm_limits)

interpretation func_entries: entry_parser SEC_FUNCTION parse_function leb_u32 w_funcs
  "\<lambda>xs w. w\<lparr>w_funcs := xs\<rparr>" "\<lambda>w ti. unat ti < length (w_types w)" MAX_FUNCS
proof
  fix c :: cursor and ti :: u32 and rest :: "u8 list" and m
  assume a: "ahead c = leb_u32 ti @ rest" and wf: "wasm_wf (data c) m"
    and lim: "length (w_funcs (module_of (data c) m)) < MAX_FUNCS"
    and ok: "unat ti < length (w_types (module_of (data c) m))"
  have n: "func_count m < MAX_FUNCS" "func_count m < length (func_types m)" "unat ti < type_count m"
    using lim ok wf by (simp_all add: module_of_def wasm_wf_def)
  let ?m = "m\<lparr>func_types := (func_types m)[func_count m := ti], func_count := Suc (func_count m)\<rparr>"
  have "parse_function (c, m) = ok_res (adv c (length (leb_u32 ti)), ?m)"
    unfolding parse_function_def using n by (simp add: read_leb_u32 [OF a])
  moreover have "wasm_wf (data c) ?m" by (rule wasm_wf_func) (use wf n in simp_all)
  ultimately show "\<exists>m'. parse_function (c, m) = ok_res (adv c (length (leb_u32 ti)), m') \<and> wasm_wf (data c) m' \<and>
    module_of (data c) m' = (module_of (data c) m)\<lparr>w_funcs := w_funcs (module_of (data c) m) @ [ti]\<rparr>"
    using n by (auto simp: module_of_def take_Suc_update)
qed (auto simp: parse_contents_def parse_function_section_def wasm_consts wasm_limits)

interpretation code_entries: entry_parser SEC_CODE parse_body bytes w_codes
  "\<lambda>xs w. w\<lparr>w_codes := xs\<rparr>" "\<lambda>w e. True" MAX_FUNCS
proof
  fix c :: cursor and e rest :: "u8 list" and m
  assume a: "ahead c = bytes e @ rest" and d: "length (data c) = pos c + length (bytes e @ rest)"
    "length (data c) < 2 ^ 32" and wf: "wasm_wf (data c) m"
    and lim: "length (w_codes (module_of (data c) m)) < MAX_FUNCS"
  have n: "body_count m < MAX_FUNCS" "body_count m < length (bodies m)"
    using lim wf by (simp_all add: module_of_def wasm_wf_def)
  define c1 where "c1 = adv c (length (leb (length e)))"
  have ah: "ahead c1 = e @ rest" and p: "pos c1 \<le> length (data c1)" and s: "length e < 2 ^ 32"
    using a d by (simp_all add: c1_def)
  let ?m = "m\<lparr>bodies := (bodies m)[body_count m := \<lparr>body_offset = pos c1, body_length = length e\<rparr>],
    body_count := Suc (body_count m)\<rparr>"
  have u: "unat (of_nat (length e) :: u32) = length e" using s by (simp add: unat_of_nat_small)
  have "read_u32_leb128 c = ok_res (of_nat (length e), c1)"
    unfolding c1_def by (rule read_leb [where rest = "e @ rest"]) (use a s in simp_all)
  moreover note skip_ahead [OF ah p refl]
  ultimately have "parse_body (c, m) = ok_res (adv c1 (length e), ?m)"
    unfolding parse_body_def using n u by simp
  moreover have "wasm_wf (data c) ?m"
    by (rule wasm_wf_body) (use wf n ahead_length [OF ah p] in \<open>auto simp: c1_def\<close>)
  moreover have "sub (data c) (pos c1) (length e) = e" using ahead_length [OF ah p] by (simp add: c1_def)
  ultimately show "\<exists>m'. parse_body (c, m) = ok_res (adv c (length (bytes e)), m') \<and> wasm_wf (data c) m' \<and>
    module_of (data c) m' = (module_of (data c) m)\<lparr>w_codes := w_codes (module_of (data c) m) @ [e]\<rparr>"
    using n by (auto simp: module_of_def take_Suc_update c1_def)
qed (auto simp: parse_contents_def parse_code_section_def wasm_consts wasm_limits)

interpretation export_entries: entry_parser SEC_EXPORT parse_export enc_export w_exports
  "\<lambda>xs w. w\<lparr>w_exports := xs\<rparr>"
  "\<lambda>w (name, kind, index). length name \<le> MAX_EXPORT_NAME \<and> kind \<le> EXPORT_GLOBAL" MAX_EXPORTS
proof
  fix c :: cursor and e :: "u8 list \<times> u8 \<times> u32" and rest :: "u8 list" and m
  assume a: "ahead c = enc_export e @ rest" and d: "length (data c) = pos c + length (enc_export e @ rest)"
    and wf: "wasm_wf (data c) m" and lim: "length (w_exports (module_of (data c) m)) < MAX_EXPORTS"
    and ok: "case e of (name, kind, index) \<Rightarrow> length name \<le> MAX_EXPORT_NAME \<and> kind \<le> EXPORT_GLOBAL"
  obtain name kind index where e: "e = (name, kind, index)" by (cases e)
  have n: "export_count m < MAX_EXPORTS" "export_count m < length (exports m)"
    using lim wf by (simp_all add: module_of_def wasm_wf_def)
  have s: "length name < 2 ^ 32" using ok e by (simp add: wasm_limits)
  have z: "length (export_name empty_export) = MAX_EXPORT_NAME" by (simp add: empty_export_def)
  let ?e = "\<lparr>export_name = name @ drop (length name) (export_name empty_export), name_len = length name,
    export_kind = kind, export_index = index\<rparr>"
  let ?m = "m\<lparr>exports := (exports m)[export_count m := ?e], export_count := Suc (export_count m)\<rparr>"
  define c1 where "c1 = adv c (length (leb (length name)))"
  define c2 where "c2 = adv c1 (length name)"
  define c3 where "c3 = adv c2 1"
  note cs = c1_def c2_def c3_def
  have ah: "ahead c = leb (length name) @ name @ kind # leb_u32 index @ rest"
    "ahead c1 = name @ kind # leb_u32 index @ rest" "ahead c2 = kind # leb_u32 index @ rest"
    "ahead c3 = leb_u32 index @ rest" and p: "pos c1 \<le> length (data c1)"
    using a d e by (simp_all add: cs)
  have u: "unat (of_nat (length name) :: u32) = length name" using s by (simp add: unat_of_nat_small)
  note read_leb [OF ah(1) s, folded c1_def] read_bytes_ahead [OF ah(2) p refl, folded c2_def]
    read_byte_ahead [OF ah(3), folded c3_def] read_leb_u32 [OF ah(4)]
    copy_bytes_eq [of "length name" name "export_name empty_export"]
  then have "parse_export (c, m) = ok_res (adv c3 (length (leb_u32 index)), ?m)"
    unfolding parse_export_def using n ok e u z by (simp add: not_less)
  then have "parse_export (c, m) = ok_res (adv c (length (enc_export e)), ?m)"
    using e by (simp add: cs ac_simps)
  moreover have "wasm_wf (data c) ?m"
    by (rule wasm_wf_export) (use wf n ok e z in \<open>auto simp: export_ok_def\<close>)
  ultimately show "\<exists>m'. parse_export (c, m) = ok_res (adv c (length (enc_export e)), m') \<and> wasm_wf (data c) m' \<and>
    module_of (data c) m' = (module_of (data c) m)\<lparr>w_exports := w_exports (module_of (data c) m) @ [e]\<rparr>"
    using e n by (auto simp: module_of_def take_Suc_update)
qed (auto simp: parse_contents_def parse_export_section_def wasm_consts wasm_limits)

interpretation data_entries: entry_parser SEC_DATA parse_data_segment enc_data w_datas
  "\<lambda>xs w. w\<lparr>w_datas := xs\<rparr>" "\<lambda>w e. 0 \<le> sint (fst e)" MAX_DATA_SEGS
proof
  fix c :: cursor and e :: "u32 \<times> u8 list" and rest :: "u8 list" and m
  assume a: "ahead c = enc_data e @ rest" and d: "length (data c) = pos c + length (enc_data e @ rest)"
    "length (data c) < 2 ^ 32" and wf: "wasm_wf (data c) m"
    and lim: "length (w_datas (module_of (data c) m)) < MAX_DATA_SEGS"
    and ok: "0 \<le> sint (fst e)"
  obtain off bs where e: "e = (off, bs)" by (cases e)
  have nn: "0 \<le> sint off" using ok e by simp
  have n: "data_segment_count m < MAX_DATA_SEGS" "data_segment_count m < length (data_segments m)"
    using lim wf by (simp_all add: module_of_def wasm_wf_def)
  have s: "length bs < 2 ^ 32" using d e by simp
  define c1 where "c1 = adv c (length (leb 0))"
  define c2 where "c2 = adv c1 1"
  define c3 where "c3 = adv c2 (length (sleb (sint off)))"
  define c4 where "c4 = adv c3 1"
  define c5 where "c5 = adv c4 (length (leb (length bs)))"
  note cs = c1_def c2_def c3_def c4_def c5_def
  have ah: "ahead c = leb 0 @ 0x41 # sleb (sint off) @ 0x0B # leb (length bs) @ bs @ rest"
    "ahead c1 = 0x41 # sleb (sint off) @ 0x0B # leb (length bs) @ bs @ rest"
    "ahead c2 = sleb (sint off) @ 0x0B # leb (length bs) @ bs @ rest"
    "ahead c3 = 0x0B # leb (length bs) @ bs @ rest" "ahead c4 = leb (length bs) @ bs @ rest"
    "ahead c5 = bs @ rest" and p: "pos c5 \<le> length (data c5)"
    using a d e by (simp_all add: cs)
  let ?m = "m\<lparr>data_segments := (data_segments m)[data_segment_count m :=
      \<lparr>seg_offset = off, data_offset = pos c5, data_len = length bs\<rparr>],
    data_segment_count := Suc (data_segment_count m)\<rparr>"
  have u: "unat (of_nat (length bs) :: u32) = length bs" using s by (simp add: unat_of_nat_small)
  have "read_u32_leb128 c = ok_res (0, c1)" using read_leb [OF ah(1)] by (simp add: c1_def)
  moreover note read_byte_ahead [OF ah(2), folded c2_def] read_sleb [OF ah(3) nn, folded c3_def]
    read_byte_ahead [OF ah(4), folded c4_def] read_leb [OF ah(5) s, folded c5_def]
    skip_ahead [OF ah(6) p refl]
  ultimately have "parse_data_segment (c, m) = ok_res (adv c5 (length bs), ?m)"
    unfolding parse_data_segment_def using n u by (simp add: Let_def)
  then have "parse_data_segment (c, m) = ok_res (adv c (length (enc_data e)), ?m)"
    using e by (simp add: cs ac_simps)
  moreover have "wasm_wf (data c) ?m"
    by (rule wasm_wf_data) (use wf n ahead_length [OF ah(6) p] in \<open>auto simp: cs\<close>)
  moreover have "sub (data c) (pos c5) (length bs) = bs" using ahead_length [OF ah(6) p] by (simp add: cs)
  ultimately show "\<exists>m'. parse_data_segment (c, m) = ok_res (adv c (length (enc_data e)), m') \<and>
    wasm_wf (data c) m' \<and>
    module_of (data c) m' = (module_of (data c) m)\<lparr>w_datas := w_datas (module_of (data c) m) @ [e]\<rparr>"
    using e n by (auto simp: module_of_def take_Suc_update)
qed (auto simp: parse_contents_def parse_data_section_def wasm_consts wasm_limits)

lemma import_func_ahead:
  assumes ah: "ahead c = leb_u32 ti @ rest" and wf: "wasm_wf (data c) m"
    and n: "import_count m < MAX_IMPORTS" "unat ti < type_count m" "length field \<le> MAX_IMPORT_NAME"
  shows "\<exists>m'. parse_import_func field (c, m) = ok_res (adv c (length (leb_u32 ti)), m') \<and>
    wasm_wf (data c) m' \<and>
    module_of (data c) m' = (module_of (data c) m)\<lparr>w_imports := w_imports (module_of (data c) m) @ [(field, ti)]\<rparr>"
proof -
  let ?i = "import_count m"
  let ?name = "field @ drop (length field) (import_names m ! ?i)"
  let ?m = "m\<lparr>import_types := (import_types m)[?i := ti], import_names := (import_names m)[?i := ?name],
    import_name_lens := (import_name_lens m)[?i := length field], import_count := Suc ?i\<rparr>"
  note len = wasm_wfD [OF wf]
  have "parse_import_func field (c, m) = ok_res (adv c (length (leb_u32 ti)), ?m)"
    unfolding parse_import_func_def
    using n len by (simp add: read_leb_u32 [OF ah] copy_bytes_eq Let_def)
  moreover have "wasm_wf (data c) ?m"
    by (rule wasm_wf_import) (use wf n len in auto)
  ultimately show ?thesis
    using n len by (auto simp: module_of_def zip_update3 take_Suc_update)
qed

interpretation import_entries: entry_parser SEC_IMPORT parse_import "enc_import modname" w_imports
  "\<lambda>xs w. w\<lparr>w_imports := xs\<rparr>"
  "\<lambda>w (field, ti). length field \<le> MAX_IMPORT_NAME \<and> unat ti < length (w_types w)" MAX_IMPORTS
  for modname
proof
  fix c :: cursor and e :: "u8 list \<times> u32" and rest :: "u8 list" and m
  assume a: "ahead c = enc_import modname e @ rest"
    and d: "length (data c) = pos c + length (enc_import modname e @ rest)"
    "length (data c) < 2 ^ 32" and wf: "wasm_wf (data c) m"
    and lim: "length (w_imports (module_of (data c) m)) < MAX_IMPORTS"
    and ok: "case e of (field, ti) \<Rightarrow> length field \<le> MAX_IMPORT_NAME \<and>
      unat ti < length (w_types (module_of (data c) m))"
  obtain field ti where e: "e = (field, ti)" by (cases e)
  have n: "import_count m < MAX_IMPORTS" "unat ti < type_count m" "length field \<le> MAX_IMPORT_NAME"
    using lim wf ok e by (simp_all add: module_of_def wasm_wf_def)
  have s: "length modname < 2 ^ 32" "length field < 2 ^ 32" using d e by simp_all
  define c1 where "c1 = adv c (length (leb (length modname)))"
  define c2 where "c2 = adv c1 (length modname)"
  define c3 where "c3 = adv c2 (length (leb (length field)))"
  define c4 where "c4 = adv c3 (length field)"
  define c5 where "c5 = adv c4 1"
  note cs = c1_def c2_def c3_def c4_def c5_def
  have ah: "ahead c = leb (length modname) @ modname @ leb (length field) @ field @ IMPORT_FUNC # leb_u32 ti @ rest"
    "ahead c1 = modname @ leb (length field) @ field @ IMPORT_FUNC # leb_u32 ti @ rest"
    "ahead c2 = leb (length field) @ field @ IMPORT_FUNC # leb_u32 ti @ rest"
    "ahead c3 = field @ IMPORT_FUNC # leb_u32 ti @ rest" "ahead c4 = IMPORT_FUNC # leb_u32 ti @ rest"
    "ahead c5 = leb_u32 ti @ rest" and p: "pos c1 \<le> length (data c1)" "pos c3 \<le> length (data c3)"
    and dc: "data c5 = data c"
    using a d e by (simp_all add: cs)
  have u: "unat (of_nat (length modname) :: u32) = length modname"
    "unat (of_nat (length field) :: u32) = length field"
    using s by (simp_all add: unat_of_nat_small)
  note read_leb [OF ah(1) s(1), folded c1_def] skip_ahead [OF ah(2) p(1) refl, folded c2_def]
    read_leb [OF ah(3) s(2), folded c3_def] read_bytes_ahead [OF ah(4) p(2) refl, folded c4_def]
    read_byte_ahead [OF ah(5), folded c5_def]
  then have "parse_import (c, m) = parse_import_func field (c5, m)"
    unfolding parse_import_def using u by simp
  moreover have "adv c5 (length (leb_u32 ti)) = adv c (length (enc_import modname e))"
    using e by (simp add: cs ac_simps)
  ultimately show "\<exists>m'. parse_import (c, m) = ok_res (adv c (length (enc_import modname e)), m') \<and>
    wasm_wf (data c) m' \<and>
    module_of (data c) m' = (module_of (data c) m)\<lparr>w_imports := w_imports (module_of (data c) m) @ [e]\<rparr>"
    using import_func_ahead [OF ah(6), of m field] wf n dc e by simp
qed (auto simp: parse_contents_def parse_import_section_def wasm_consts wasm_limits)

section \<open>The memory section\<close>

lemma memory_section_ahead:
  assumes a: "ahead c = sec SEC_MEMORY (leb 1 @ enc_limits (mn, mx)) @ rest"
    and d: "length (data c) = pos c + length (sec SEC_MEMORY (leb 1 @ enc_limits (mn, mx)) @ rest)"
    "length (data c) < 2 ^ 32" and wf: "wasm_wf (data c) m"
  shows "\<exists>m'. parse_section (c, m) = ok_res (adv c (length (sec SEC_MEMORY (leb 1 @ enc_limits (mn, mx)))), m') \<and>
    wasm_wf (data c) m' \<and> module_of (data c) m' = (module_of (data c) m)\<lparr>w_memory := Some (mn, mx)\<rparr>"
proof -
  let ?body = "leb 1 @ enc_limits (mn, mx)"
  let ?l = "\<lparr>min_pages = mn, max_pages = (case mx of None \<Rightarrow> 0 | Some x \<Rightarrow> x), has_max = (mx \<noteq> None)\<rparr>"
  let ?m = "m\<lparr>memory := ?l, has_memory := True\<rparr>"
  define c0 where "c0 = adv c (1 + length (leb (length ?body)))"
  define c1 where "c1 = adv c0 (length (leb 1))"
  define c2 where "c2 = adv c1 1"
  define c3 where "c3 = adv c2 (length (leb_u32 mn))"
  note cs = c0_def c1_def c2_def c3_def
  let ?more = "case mx of None \<Rightarrow> [] | Some x \<Rightarrow> leb_u32 x"
  have lim: "enc_limits (mn, mx) = (if mx = None then 0 else 1) # leb_u32 mn @ ?more"
    by (cases mx) simp_all
  have ah: "ahead c0 = leb 1 @ enc_limits (mn, mx) @ rest" "ahead c1 = (if mx = None then 0 else 1) # leb_u32 mn @ ?more @ rest"
    "ahead c2 = leb_u32 mn @ ?more @ rest" "ahead c3 = ?more @ rest"
    using a by (simp_all add: cs sec_def lim)
  have "read_u32_leb128 c0 = ok_res (1, c1)" using read_leb [OF ah(1)] by (simp add: c1_def)
  moreover note read_byte_ahead [OF ah(2), folded c2_def] read_leb_u32 [OF ah(3), folded c3_def]
  moreover have "read_u32_leb128 c3 = ok_res (x, adv c3 (length (leb_u32 x)))" if "mx = Some x" for x
    using read_leb_u32 [of c3 x rest] ah(4) that by simp
  ultimately have "parse_contents SEC_MEMORY (length ?body) (c0, m) = ok_res (adv c3 (length ?more), ?m)"
    by (cases mx) (simp_all add: parse_contents_def parse_memory_section_def wasm_consts bind_res_assoc)
  then have "parse_section (c, m) = ok_res (adv c (length (sec SEC_MEMORY ?body)), ?m)"
    by (intro parse_section_ahead [OF a]) (use d in \<open>auto simp: cs sec_def lim ac_simps\<close>)
  then show ?thesis
    using wasm_wf_memory [OF wf] by (auto simp: module_of_def split: option.splits)
qed

lemma memory_loop:
  assumes "loop_at d ((case l of None \<Rightarrow> [] | Some l \<Rightarrow> sec SEC_MEMORY (leb 1 @ enc_limits l)) @ rest) w s"
    "w_memory w = None"
  shows "\<exists>s'. parse_sections s = parse_sections s' \<and> loop_at d rest (w\<lparr>w_memory := l\<rparr>) s'"
proof (cases l)
  case None
  then have "w\<lparr>w_memory := l\<rparr> = w" using assms(2) by (cases w) simp
  then show ?thesis using assms(1) None by (intro exI [of _ s]) simp
next
  case (Some p)
  obtain mn mx where p: "p = (mn, mx)" by (cases p)
  obtain c m where s: "s = (c, m)" by (cases s)
  obtain m' where "parse_section (c, m) = ok_res (adv c (length (sec SEC_MEMORY (leb 1 @ enc_limits p))), m')"
    "wasm_wf d m'" "module_of d m' = w\<lparr>w_memory := l\<rparr>"
    using memory_section_ahead [of c mn mx rest m] assms(1) Some s p by (auto simp: loop_at_def)
  then show ?thesis using loop_at_step [of d "sec SEC_MEMORY (leb 1 @ enc_limits p)"] assms(1) s Some by simp
qed

section \<open>The round trip\<close>

definition empty_wmodule :: wmodule where
  "empty_wmodule = \<lparr>w_types = [], w_imports = [], w_funcs = [], w_memory = None, w_exports = [],
     w_codes = [], w_datas = []\<rparr>"

lemma parse_sections_encoded:
  assumes enc: "encodable modname w"
  defines "d \<equiv> encode modname w"
  shows "\<exists>m. parse_sections (\<lparr>data = d, pos = 8\<rparr>, new_module) = ok_res m \<and> wasm_wf d m \<and> module_of d m = w"
proof -
  let ?w1 = "empty_wmodule\<lparr>w_types := w_types w\<rparr>"
  let ?w2 = "?w1\<lparr>w_imports := w_imports w\<rparr>"
  let ?w3 = "?w2\<lparr>w_funcs := w_funcs w\<rparr>"
  let ?w4 = "?w3\<lparr>w_memory := w_memory w\<rparr>"
  let ?w5 = "?w4\<lparr>w_exports := w_exports w\<rparr>"
  let ?w6 = "?w5\<lparr>w_codes := w_codes w\<rparr>"
  let ?s = "(\<lparr>data = d, pos = 8\<rparr>, new_module)"
  let ?r6 = "sec SEC_DATA (vec enc_data (w_datas w))"
  let ?r5 = "sec SEC_CODE (vec bytes (w_codes w)) @ ?r6"
  let ?r4 = "sec SEC_EXPORT (vec enc_export (w_exports w)) @ ?r5"
  let ?r3 = "(case w_memory w of None \<Rightarrow> [] | Some l \<Rightarrow> sec SEC_MEMORY (leb 1 @ enc_limits l)) @ ?r4"
  let ?r2 = "sec SEC_FUNCTION (vec leb_u32 (w_funcs w)) @ ?r3"
  let ?r1 = "sec SEC_IMPORT (vec (enc_import modname) (w_imports w)) @ ?r2"
  let ?r0 = "sec SEC_TYPE (vec enc_type (w_types w)) @ ?r1"
  note e = enc [unfolded encodable_def, folded d_def] and ew = empty_wmodule_def
  have "module_of d new_module = empty_wmodule"
    by (simp add: module_of_def new_module_def ew)
  moreover have d: "d = WASM_MAGIC @ WASM_VERSION @ ?r0"
    by (simp add: d_def encode_def)
  have "length d = 8 + length ?r0" "drop 8 d = ?r0"
    unfolding d by (simp_all add: WASM_MAGIC_def WASM_VERSION_def)
  ultimately have "loop_at d ?r0 empty_wmodule ?s"
    using e by (simp add: loop_at_def ahead_def wasm_wf_new)
  then obtain s1 where s1: "parse_sections ?s = parse_sections s1" "loop_at d ?r1 ?w1 s1"
    using type_entries.entry_loop [of d "w_types w" ?r1 empty_wmodule ?s] e by (auto simp: ew)
  then obtain s2 where s2: "parse_sections s1 = parse_sections s2" "loop_at d ?r2 ?w2 s2"
    using import_entries.entry_loop [of d modname "w_imports w" ?r2 ?w1 s1] e by (auto simp: ew)
  then obtain s3 where s3: "parse_sections s2 = parse_sections s3" "loop_at d ?r3 ?w3 s3"
    using func_entries.entry_loop [of d "w_funcs w" ?r3 ?w2 s2] e by (auto simp: ew)
  then obtain s4 where s4: "parse_sections s3 = parse_sections s4" "loop_at d ?r4 ?w4 s4"
    using memory_loop [of d "w_memory w" ?r4 ?w3 s3] by (auto simp: ew)
  then obtain s5 where s5: "parse_sections s4 = parse_sections s5" "loop_at d ?r5 ?w5 s5"
    using export_entries.entry_loop [of d "w_exports w" ?r5 ?w4 s4] e by (auto simp: ew)
  then obtain s6 where s6: "parse_sections s5 = parse_sections s6" "loop_at d ?r6 ?w6 s6"
    using code_entries.entry_loop [of d "w_codes w" ?r6 ?w5 s5] e by (auto simp: ew)
  have "\<forall>e\<in>set (w_datas w). 0 \<le> sint (fst e)" using e by auto
  then obtain c m where s7: "parse_sections s6 = parse_sections (c, m)" "loop_at d [] (?w6\<lparr>w_datas := w_datas w\<rparr>) (c, m)"
    using data_entries.entry_loop [of d "w_datas w" "[]" ?w6 s6] e s6(2) by (auto simp: ew)
  moreover have "parse_sections (c, m) = ok_res m"
    using s7(2) by (simp add: loop_at_def parse_sections.simps [of c m] remaining_def)
  moreover have "?w6\<lparr>w_datas := w_datas w\<rparr> = w" by (simp add: ew)
  ultimately show ?thesis using s1(1) s2(1) s3(1) s4(1) s5(1) s6(1) by (simp add: loop_at_def)
qed

text \<open>
  C19. Round trip: for every module within the parser's limits, parsing its binary encoding succeeds
  and the parsed arrays are that module - signatures, imports with their field names, local
  functions, memory limits, exports, and the bytes of each function body and data segment.
\<close>
theorem wasm_roundtrip:
  assumes "encodable modname w"
  shows "\<exists>m. wasm_parse (encode modname w) = ok_res m \<and> module_of (encode modname w) m = w"
proof -
  let ?d = "encode modname w"
  obtain m where m: "parse_sections (\<lparr>data = ?d, pos = 8\<rparr>, new_module) = ok_res m" "wasm_wf ?d m"
    "module_of ?d m = w"
    using parse_sections_encoded [OF assms] by blast
  have "func_count m = length (w_funcs (module_of ?d m))" "body_count m = length (w_codes (module_of ?d m))"
    using m(2) by (simp_all add: module_of_def wasm_wf_def)
  then have "func_count m = body_count m" using assms m(3) by (simp add: encodable_def)
  moreover have "\<not> length ?d < 8" "slice ?d 0 4 = Some WASM_MAGIC" "slice ?d 4 8 = Some WASM_VERSION"
    by (simp_all add: encode_def slice_def WASM_MAGIC_def WASM_VERSION_def)
  ultimately show ?thesis using m by (simp add: wasm_parse_def)
qed

definition demo_wmodule :: wmodule where
  "demo_wmodule = \<lparr>w_types = [([VAL_I32, VAL_I32], [VAL_I32]), ([], [])],
     w_imports = [([0x61, 0x62], 1)], w_funcs = [0], w_memory = Some (1, Some 300),
     w_exports = [([0x61, 0x64, 0x64], EXPORT_FUNC, 0)],
     w_codes = [[0, 0x20, 0, 0x20, 1, 0x6A, 0x0B]], w_datas = [(100, [1, 2, 3])]\<rparr>"

theorem wasm_roundtrip_witness:
  "\<exists>m. wasm_parse (encode [0x65] demo_wmodule) = ok_res m \<and>
     module_of (encode [0x65] demo_wmodule) m = demo_wmodule"
proof (rule wasm_roundtrip)
  show "encodable [0x65] demo_wmodule"
    by (simp add: encodable_def demo_wmodule_def wasm_limits wasm_consts is_valid_valtype_def encode_def
        sec_def vec_def leb.simps sleb.simps)
qed


text \<open>A type section and a function section with one function, and no code section.\<close>

definition no_code :: "u8 list" where
  "no_code = WASM_MAGIC @ WASM_VERSION @ sec SEC_TYPE (vec enc_type [([], [])]) @
     sec SEC_FUNCTION (vec leb_u32 [0])"

text \<open>
  The final validation does not see a missing code section: a binary that declares a function and
  has no code section at all is accepted, with one function and no body, although the comment requires
  \<open>func_count\<close> to match \<open>body_count\<close> and there is an error \<open>MissingCodeSection\<close> for it.
\<close>
theorem missing_code_accepted:
  "\<exists>m. wasm_parse no_code = ok_res m \<and> func_count m = 1 \<and> body_count m = 0"
proof -
  have *: "map_option (map_sum id (\<lambda>m. (func_count m, body_count m))) (wasm_parse no_code) = ok_res (1, 0)"
    by code_simp
  show ?thesis
  proof (cases "wasm_parse no_code")
    case (Some r)
    then show ?thesis using * by (cases r) simp_all
  qed (use * in simp)
qed

end
