(* ===== verification/Interp_Run.thy ===== *)
theory Interp_Run
  imports Interp_Safe Wasm_Enc
begin

unbundle bit_operations_syntax

text \<open>
  The interpreter on whole binaries: \<open>single n b\<close> is a module with one function of \<open>n\<close> \<open>i32\<close>
  parameters and one \<open>i32\<close> result whose body is \<open>b\<close>, and \<open>call_single\<close> parses it and calls the function
  with no host functions and no memory.
\<close>

definition single :: "nat \<Rightarrow> u8 list \<Rightarrow> u8 list" where
  "single n b = WASM_MAGIC @ WASM_VERSION @
     sec SEC_TYPE (vec enc_type [(replicate n VAL_I32, [VAL_I32])]) @
     sec SEC_FUNCTION (vec leb_u32 [0]) @ sec SEC_CODE (vec bytes [b])"

definition call_single :: "nat \<Rightarrow> u8 list \<Rightarrow> u64 list \<Rightarrow> (TrapKind, u64 option) res option" where
  "call_single n b args =
     (case wasm_parse (single n b) of
        Some (Inr m) \<Rightarrow>
          map_option (map_option (map_sum fst fst))
            (call_function NoHost_call 0 args (new_interp m (single n b) 0, [], ()))
      | _ \<Rightarrow> None)"

text \<open>
  A loop that counts its argument down to zero and continues from inside a block:
  \<open>loop block local.get 0; i32.const 1; i32.sub; local.tee 0; br_if 1 end end local.get 0\<close>.
\<close>

definition countdown :: "u8 list" where
  "countdown = [0, LOOP, 0x40, BLOCK, 0x40, LOCAL_GET, 0, I32_CONST, 1, I32_SUB, LOCAL_TEE, 0, BR_IF, 1,
     END, END, LOCAL_GET, 0, END]"

text \<open>
  A branch to an enclosing loop from inside a block does not pop the block's label, so the same
  branch in the next iteration resolves to the stale block and leaves the loop: the countdown from 5
  ends with 3 instead of 0.
\<close>
theorem loop_branch_stale_label: "call_single 1 countdown [5] = Some (ok_res (Some 3))"
  by code_simp

text \<open>
  A branch to the function's own label, which WebAssembly defines as a return, continues after the
  function body instead: \<open>i32.const 42; br 0\<close> in the last function of a binary traps at its end.
\<close>
theorem function_label_falls_through:
  "call_single 0 [0, I32_CONST, 42, BR, 0, END] [] = Some (err_res UnexpectedEnd)"
  by code_simp

lemma return_42: "call_single 0 [0, I32_CONST, 42, RETURN, END] [] = Some (ok_res (Some 42))"
  by code_simp

end
