(* ===== verification/Interp_Num.thy ===== *)
theory Interp_Num
  imports Interp
begin

unbundle bit_operations_syntax

text \<open>
  The numeric instructions of the interpreter against the WebAssembly definition.  \<open>wasm_eval\<close> is a
  reference on integers, written from the standard: the operands are read modulo \<open>2 ^ N\<close>, signed
  readings are explicit, and the instruction traps where the standard leaves it undefined.
  \<open>num_instrs\<close> is the standard's opcode assignment.
\<close>

datatype ibinop = IAdd | ISub | IMul | IDivS | IDivU | IRemS | IRemU | IAnd | IOr | IXor | IShl | IShrS
  | IShrU | IRotl | IRotr

definition ibinops :: "ibinop list" where
  "ibinops = [IAdd, ISub, IMul, IDivS, IDivU, IRemS, IRemU, IAnd, IOr, IXor, IShl, IShrS, IShrU, IRotl, IRotr]"

definition wasm_signed :: "nat \<Rightarrow> int \<Rightarrow> int" where
  "wasm_signed N i = (if i < 2 ^ (N - 1) then i else i - 2 ^ N)"

text \<open>The quotient truncated towards zero.\<close>

definition trunc_div :: "int \<Rightarrow> int \<Rightarrow> int" where
  "trunc_div i j = sgn i * sgn j * (\<bar>i\<bar> div \<bar>j\<bar>)"

definition rot_bits :: "nat \<Rightarrow> nat \<Rightarrow> int \<Rightarrow> int" where
  "rot_bits N k i = horner_sum of_bool 2 (map (\<lambda>p. bit i ((p + k) mod N)) [0..<N])"

fun wasm_binop :: "nat \<Rightarrow> ibinop \<Rightarrow> int \<Rightarrow> int \<Rightarrow> int option" where
  "wasm_binop N IAdd i j = Some ((i + j) mod 2 ^ N)"
| "wasm_binop N ISub i j = Some ((i - j) mod 2 ^ N)"
| "wasm_binop N IMul i j = Some (i * j mod 2 ^ N)"
| "wasm_binop N IDivU i j = (if j = 0 then None else Some (i div j))"
| "wasm_binop N IDivS i j =
     (let q = trunc_div (wasm_signed N i) (wasm_signed N j)
      in if j = 0 \<or> q = 2 ^ (N - 1) then None else Some (q mod 2 ^ N))"
| "wasm_binop N IRemU i j = (if j = 0 then None else Some (i - j * (i div j)))"
| "wasm_binop N IRemS i j =
     (let a = wasm_signed N i; b = wasm_signed N j
      in if j = 0 then None else Some ((a - b * trunc_div a b) mod 2 ^ N))"
| "wasm_binop N IAnd i j = Some (i AND j)"
| "wasm_binop N IOr i j = Some (i OR j)"
| "wasm_binop N IXor i j = Some (i XOR j)"
| "wasm_binop N IShl i j = Some (i * 2 ^ nat (j mod int N) mod 2 ^ N)"
| "wasm_binop N IShrS i j = Some (wasm_signed N i div 2 ^ nat (j mod int N) mod 2 ^ N)"
| "wasm_binop N IShrU i j = Some (i div 2 ^ nat (j mod int N))"
| "wasm_binop N IRotl i j = Some (rot_bits N (N - nat (j mod int N)) i)"
| "wasm_binop N IRotr i j = Some (rot_bits N (nat (j mod int N)) i)"

datatype irelop = IEq | INe | ILtS | ILtU | IGtS | IGtU | ILeS | ILeU | IGeS | IGeU

definition irelops :: "irelop list" where
  "irelops = [IEq, INe, ILtS, ILtU, IGtS, IGtU, ILeS, ILeU, IGeS, IGeU]"

fun wasm_relop :: "nat \<Rightarrow> irelop \<Rightarrow> int \<Rightarrow> int \<Rightarrow> bool" where
  "wasm_relop N IEq i j = (i = j)"
| "wasm_relop N INe i j = (i \<noteq> j)"
| "wasm_relop N ILtS i j = (wasm_signed N i < wasm_signed N j)"
| "wasm_relop N ILtU i j = (i < j)"
| "wasm_relop N IGtS i j = (wasm_signed N j < wasm_signed N i)"
| "wasm_relop N IGtU i j = (j < i)"
| "wasm_relop N ILeS i j = (wasm_signed N i \<le> wasm_signed N j)"
| "wasm_relop N ILeU i j = (i \<le> j)"
| "wasm_relop N IGeS i j = (wasm_signed N j \<le> wasm_signed N i)"
| "wasm_relop N IGeU i j = (j \<le> i)"

text \<open>
  The counts of leading and trailing zeros by arithmetic: how many powers of two below the width are
  above the value, and how many powers of two divide it.
\<close>

definition wasm_clz :: "nat \<Rightarrow> int \<Rightarrow> nat" where
  "wasm_clz N i = length (filter (\<lambda>k. i < 2 ^ k) [0..<N])"

definition wasm_ctz :: "nat \<Rightarrow> int \<Rightarrow> nat" where
  "wasm_ctz N i = length (filter (\<lambda>k. 2 ^ k dvd i) [1..<Suc N])"

text \<open>The instructions with their width, and the opcodes the standard gives them.\<close>

datatype num_instr = Bin nat ibinop | Rel nat irelop | Eqz nat | Clz nat | Ctz nat | Wrap | Extend_S | Extend_U

definition num_instrs :: "(nat \<times> num_instr) list" where
  "num_instrs =
     [(0x45, Eqz 32)] @ enumerate 0x46 (map (Rel 32) irelops) @
     [(0x50, Eqz 64)] @ enumerate 0x51 (map (Rel 64) irelops) @
     [(0x67, Clz 32), (0x68, Ctz 32)] @ enumerate 0x6A (map (Bin 32) ibinops) @
     [(0x79, Clz 64), (0x7A, Ctz 64)] @ enumerate 0x7C (map (Bin 64) ibinops) @
     [(0xA7, Wrap), (0xAC, Extend_S), (0xAD, Extend_U)]"

fun num_args :: "num_instr \<Rightarrow> nat" where
  "num_args (Bin N op) = 2"
| "num_args (Rel N op) = 2"
| "num_args _ = 1"

text \<open>
  The result of an instruction on its first and last operand (the same one for a unary instruction),
  as an unsigned number, or the trap.
\<close>

fun wasm_eval :: "num_instr \<Rightarrow> int \<Rightarrow> int \<Rightarrow> TrapKind + int" where
  "wasm_eval (Bin N op) i j =
     (case wasm_binop N op (i mod 2 ^ N) (j mod 2 ^ N) of
        Some r \<Rightarrow> Inr r
      | None \<Rightarrow> Inl (if j mod 2 ^ N = 0 then DivisionByZero else IntegerOverflow))"
| "wasm_eval (Rel N op) i j = Inr (of_bool (wasm_relop N op (i mod 2 ^ N) (j mod 2 ^ N)))"
| "wasm_eval (Eqz N) i j = Inr (of_bool (i mod 2 ^ N = 0))"
| "wasm_eval (Clz N) i j = Inr (int (wasm_clz N (i mod 2 ^ N)))"
| "wasm_eval (Ctz N) i j = Inr (int (wasm_ctz N (i mod 2 ^ N)))"
| "wasm_eval Wrap i j = Inr (i mod 2 ^ 32)"
| "wasm_eval Extend_S i j = Inr (wasm_signed 32 (i mod 2 ^ 32) mod 2 ^ 64)"
| "wasm_eval Extend_U i j = Inr (i mod 2 ^ 32)"

section \<open>The binary tables\<close>

text \<open>A table entry agrees with an instruction: same result, or both trap.\<close>

definition agrees :: "('a::len word \<Rightarrow> 'a word \<Rightarrow> TrapKind + 'a word) \<Rightarrow> ibinop \<Rightarrow> bool" where
  "agrees f op \<longleftrightarrow> (\<forall>a b. wasm_binop LENGTH('a) op (uint a) (uint b) =
     (case f a b of Inl t \<Rightarrow> None | Inr c \<Rightarrow> Some (uint c)))"

lemma sint_signed: "sint (w :: 'a::len word) = wasm_signed LENGTH('a) (uint w)"
proof -
  let ?n = "LENGTH('a) - 1"
  have N: "LENGTH('a) = Suc ?n" by simp
  have r: "0 \<le> uint w" "uint w < 2 * 2 ^ ?n"
    using uint_bounded [of w] N by (simp_all add: power_Suc [symmetric] del: power_Suc)
  have "bit (uint w) ?n \<longleftrightarrow> \<not> uint w < 2 ^ ?n"
  proof (cases "uint w < 2 ^ ?n")
    case False
    then have "uint w div 2 ^ ?n = 1"
      using r int_div_pos_eq [of "uint w" "2 ^ ?n" 1 "uint w - 2 ^ ?n"] by simp
    then show ?thesis using False by (simp add: bit_iff_odd)
  qed (use r in \<open>simp add: bit_iff_odd\<close>)
  moreover have "sint w = uint w - 2 ^ LENGTH('a) * of_bool (bit (uint w) ?n)"
    using N by (simp add: sint_uint signed_take_bit_eq_take_bit_minus take_bit_eq_mod del: power_Suc)
  ultimately show ?thesis by (simp add: wasm_signed_def)
qed

lemma sdiv_trunc: "i sdiv j = trunc_div i j" for i j :: int
  by (simp add: signed_divide_int_def trunc_div_def)

lemma smod_trunc: "i smod j = i - j * trunc_div i j" for i j :: int
proof -
  have "j * trunc_div i j = sgn i * ((j * sgn j) * (\<bar>i\<bar> div \<bar>j\<bar>))"
    unfolding trunc_div_def by (simp only: ac_simps)
  also have "\<dots> = sgn i * (\<bar>j\<bar> * (\<bar>i\<bar> div \<bar>j\<bar>))" by (simp only: abs_sgn)
  finally have "i - j * trunc_div i j = sgn i * \<bar>i\<bar> - sgn i * (\<bar>j\<bar> * (\<bar>i\<bar> div \<bar>j\<bar>))"
    by (simp only: sgn_mult_abs)
  also have "\<dots> = sgn i * (\<bar>i\<bar> mod \<bar>j\<bar>)"
    by (simp only: right_diff_distrib [symmetric] minus_mult_div_eq_mod)
  finally show ?thesis by (simp add: signed_modulo_int_def)
qed

lemma sint_bounds: "- (2 ^ (LENGTH('a) - 1)) \<le> sint (w :: 'a::len word)" "sint w < 2 ^ (LENGTH('a) - 1)"
  using sint_greater_eq [of w] sint_less [of w] by simp_all

text \<open>The quotient overflows exactly for the least value divided by \<open>-1\<close>.\<close>

lemma trunc_div_overflow:
  assumes "- m \<le> i" "i < m" "j \<noteq> 0" "0 < m"
  shows "trunc_div i j = m \<longleftrightarrow> i = - m \<and> j = -1"
proof
  assume q: "trunc_div i j = m"
  have "\<bar>trunc_div i j\<bar> = \<bar>i\<bar> div \<bar>j\<bar>"
    using assms(3) by (cases "i = 0") (simp_all add: trunc_div_def abs_mult abs_sgn_eq pos_imp_zdiv_nonneg_iff)
  then have a: "\<bar>i\<bar> div \<bar>j\<bar> = m" using q assms(4) by simp
  have "\<bar>i\<bar> = \<bar>j\<bar> * (\<bar>i\<bar> div \<bar>j\<bar>) + \<bar>i\<bar> mod \<bar>j\<bar>" by simp
  moreover have "0 \<le> \<bar>i\<bar> mod \<bar>j\<bar>" using assms(3) by simp
  ultimately have "\<bar>j\<bar> * m \<le> \<bar>i\<bar>" unfolding a by linarith
  moreover have "\<bar>i\<bar> \<le> m" using assms by simp
  ultimately have "\<bar>j\<bar> * m \<le> 1 * m" by simp
  then have "\<bar>j\<bar> \<le> 1" using assms(4) mult_le_cancel_right [of "\<bar>j\<bar>" m 1] by simp
  then have j: "\<bar>j\<bar> = 1" using assms(3) by simp
  then have "\<bar>i\<bar> = m" using a by simp
  then have "i = - m" using assms by simp
  then show "i = - m \<and> j = -1" using q j assms(4) by (auto simp: trunc_div_def abs_if split: if_splits)
qed (use assms in \<open>simp add: trunc_div_def\<close>)

lemma uint_push_bit: "uint (push_bit n w :: 'a::len word) = uint w * 2 ^ n mod 2 ^ LENGTH('a)"
proof -
  have "uint (push_bit n w) = take_bit LENGTH('a) (push_bit n (uint w))"
    by (rule bit_eqI) (auto simp: bit_uint_iff bit_take_bit_iff bit_push_bit_iff)
  then show ?thesis by (simp add: push_bit_eq_mult take_bit_eq_mod)
qed

lemma uint_drop_bit: "uint (drop_bit n w :: 'a::len word) = uint w div 2 ^ n"
proof -
  have "uint (drop_bit n w) = drop_bit n (uint w)"
    by (rule bit_eqI) (auto simp: bit_uint_iff bit_drop_bit_eq dest: bit_imp_le_length)
  then show ?thesis by (simp add: drop_bit_eq_div)
qed

lemma uint_signed_drop_bit:
  "uint (signed_drop_bit n w :: 'a::len word) = wasm_signed LENGTH('a) (uint w) div 2 ^ n mod 2 ^ LENGTH('a)"
proof -
  have "uint (signed_drop_bit n w) = sint (signed_drop_bit n w) mod 2 ^ LENGTH('a)"
    using uint_word_of_int [where ?'a = 'a, of "sint (signed_drop_bit n w)"] by simp
  then show ?thesis by (simp only: sint_signed_drop_bit_eq drop_bit_eq_div sint_signed [of w])
qed

lemma uint_bits: "uint (w :: 'a::len word) = horner_sum of_bool 2 (map (bit w) [0..<LENGTH('a)])"
proof -
  have "map (bit w) [0..<LENGTH('a)] = map (bit (uint w)) [0..<LENGTH('a)]"
    by (simp add: bit_uint_iff)
  then show ?thesis
    by (metis horner_sum_bit_eq_take_bit uint_word_of_int_eq word_of_int_uint)
qed

lemma uint_rot:
  fixes w :: "'a::len word"
  assumes "k < LENGTH('a)"
  shows "uint (word_rotl k w) = rot_bits LENGTH('a) (LENGTH('a) - k) (uint w)"
    "uint (word_rotr k w) = rot_bits LENGTH('a) k (uint w)"
  using assms
  by (auto simp: rot_bits_def uint_bits [of "word_rotl k w"] uint_bits [of "word_rotr k w"]
      bit_word_rotl_iff bit_word_rotr_iff bit_uint_iff intro!: arg_cong [of _ _ "horner_sum of_bool 2"])

text \<open>The shift count: \<open>b & 31\<close> or \<open>b & 63\<close> is the count modulo the width.\<close>

lemma shift_count:
  "unat (b32 AND 31 :: u32) = nat (uint b32 mod 32)" "unat (b64 AND 63 :: u64) = nat (uint b64 mod 64)"
proof -
  have "b32 AND 31 = take_bit 5 b32" "b64 AND 63 = take_bit 6 b64"
    by (simp_all add: take_bit_eq_mask mask_eq_exp_minus_1)
  moreover have "uint (take_bit 5 b32) = uint b32 mod 32" "uint (take_bit 6 b64) = uint b64 mod 64"
    unfolding unsigned_take_bit_eq by (simp_all add: take_bit_eq_mod)
  ultimately show "unat (b32 AND 31) = nat (uint b32 mod 32)" "unat (b64 AND 63) = nat (uint b64 mod 64)"
    unfolding unat_eq_nat_uint by simp_all
qed

lemma agrees_simple:
  "agrees (\<lambda>a b :: 'a::len word. Inr (a + b)) IAdd" "agrees (\<lambda>a b :: 'a word. Inr (a - b)) ISub"
  "agrees (\<lambda>a b :: 'a word. Inr (a * b)) IMul" "agrees (\<lambda>a b :: 'a word. Inr (a AND b)) IAnd"
  "agrees (\<lambda>a b :: 'a word. Inr (a OR b)) IOr" "agrees (\<lambda>a b :: 'a word. Inr (a XOR b)) IXor"
  by (simp_all only: agrees_def wasm_binop.simps sum.case uint_word_ariths(1,2,3) unsigned_and_eq
      unsigned_or_eq unsigned_xor_eq HOL.simp_thms)

lemma agrees_div_u: "agrees (div_u :: 'a::len word \<Rightarrow> _) IDivU" "agrees (rem_u :: 'a::len word \<Rightarrow> _) IRemU"
  by (auto simp: agrees_def div_u_def rem_u_def uint_div uint_mod word_uint_eq_iff minus_mult_div_eq_mod)

lemma trunc_div_neg: "0 < m \<Longrightarrow> trunc_div (- m) (-1) = m"
  by (simp add: trunc_div_def)

lemma agrees_div_s: "agrees (div_s :: 'a::len word \<Rightarrow> _) IDivS"
proof -
  have "trunc_div (sint a) (sint b) = 2 ^ (LENGTH('a) - 1) \<longleftrightarrow> sint a = - (2 ^ (LENGTH('a) - 1)) \<and> sint b = -1"
    if "b \<noteq> 0" for a b :: "'a word"
  proof (rule trunc_div_overflow)
    show "sint b \<noteq> 0" using that by (simp add: signed_eq_0_iff)
  qed (use sint_bounds [of a] in simp_all)
  then show ?thesis
    by (simp add: agrees_def div_s_def Let_def sdiv_trunc trunc_div_neg uint_word_of_int word_uint_eq_iff
        flip: sint_signed)
qed

lemma smod_1: "i smod 1 = (0 :: int)"
  by (simp add: signed_modulo_int_def)

lemma agrees_rem_s: "agrees (rem_s :: 'a::len word \<Rightarrow> _) IRemS"
  by (auto simp: agrees_def rem_s_def Let_def uint_word_of_int word_uint_eq_iff smod_1
      simp flip: sint_signed smod_trunc)

lemma agrees_shift32:
  "agrees (\<lambda>a b :: u32. Inr (push_bit (unat (b AND 31)) a)) IShl"
  "agrees (\<lambda>a b :: u32. Inr (signed_drop_bit (unat (b AND 31)) a)) IShrS"
  "agrees (\<lambda>a b :: u32. Inr (drop_bit (unat (b AND 31)) a)) IShrU"
  "agrees (\<lambda>a b :: u32. Inr (word_rotl (unat (b AND 31)) a)) IRotl"
  "agrees (\<lambda>a b :: u32. Inr (word_rotr (unat (b AND 31)) a)) IRotr"
proof -
  have "nat (uint b mod 32) < LENGTH(32)" for b :: u32 by (simp add: nat_less_iff)
  then show "agrees (\<lambda>a b :: u32. Inr (word_rotl (unat (b AND 31)) a)) IRotl"
    "agrees (\<lambda>a b :: u32. Inr (word_rotr (unat (b AND 31)) a)) IRotr"
    by (simp_all add: agrees_def shift_count uint_rot)
qed (simp_all add: agrees_def shift_count uint_push_bit uint_drop_bit uint_signed_drop_bit)

lemma agrees_shift64:
  "agrees (\<lambda>a b :: u64. Inr (push_bit (unat (b AND 63)) a)) IShl"
  "agrees (\<lambda>a b :: u64. Inr (signed_drop_bit (unat (b AND 63)) a)) IShrS"
  "agrees (\<lambda>a b :: u64. Inr (drop_bit (unat (b AND 63)) a)) IShrU"
  "agrees (\<lambda>a b :: u64. Inr (word_rotl (unat (b AND 63)) a)) IRotl"
  "agrees (\<lambda>a b :: u64. Inr (word_rotr (unat (b AND 63)) a)) IRotr"
proof -
  have "nat (uint b mod 64) < LENGTH(64)" for b :: u64 by (simp add: nat_less_iff)
  then show "agrees (\<lambda>a b :: u64. Inr (word_rotl (unat (b AND 63)) a)) IRotl"
    "agrees (\<lambda>a b :: u64. Inr (word_rotr (unat (b AND 63)) a)) IRotr"
    by (simp_all add: agrees_def shift_count uint_rot)
qed (simp_all add: agrees_def shift_count uint_push_bit uint_drop_bit uint_signed_drop_bit)

text \<open>The entries of the four binary tables, in the standard's order.\<close>

definition trap_kind :: "('a::len word \<Rightarrow> 'a word \<Rightarrow> TrapKind + 'a word) \<Rightarrow> bool" where
  "trap_kind f \<longleftrightarrow> (\<forall>a b t. f a b = Inl t \<longrightarrow> t = (if b = 0 then DivisionByZero else IntegerOverflow))"

lemma trap_kinds:
  "trap_kind div_s" "trap_kind rem_s" "trap_kind div_u" "trap_kind rem_u" "trap_kind (\<lambda>a b. Inr (g a b))"
  by (auto simp: trap_kind_def div_s_def rem_s_def div_u_def rem_u_def split: if_splits)

lemma arith_tables:
  "list_all2 (\<lambda>(opc, f) (k, op). opc = of_nat k \<and> agrees f op \<and> trap_kind f) i32_arith (enumerate 0x6A ibinops)"
  "list_all2 (\<lambda>(opc, f) (k, op). opc = of_nat k \<and> agrees f op \<and> trap_kind f) i64_arith (enumerate 0x7C ibinops)"
  by (simp_all add: i32_arith_def i64_arith_def ibinops_def numeric_ops agrees_simple agrees_div_u
      agrees_div_s agrees_rem_s agrees_shift32 agrees_shift64 trap_kinds)

definition rel_agrees :: "('a::len word \<Rightarrow> 'a word \<Rightarrow> bool) \<Rightarrow> irelop \<Rightarrow> bool" where
  "rel_agrees f op \<longleftrightarrow> (\<forall>a b. f a b = wasm_relop LENGTH('a) op (uint a) (uint b))"

lemma compare_tables:
  "list_all2 (\<lambda>(opc, f) (k, op). opc = of_nat k \<and> rel_agrees f op) i32_compare (enumerate 0x46 irelops)"
  "list_all2 (\<lambda>(opc, f) (k, op). opc = of_nat k \<and> rel_agrees f op) i64_compare (enumerate 0x51 irelops)"
  by (simp_all add: i32_compare_def i64_compare_def irelops_def numeric_ops rel_agrees_def word_uint_eq_iff
      word_less_def word_le_def sint_signed)

section \<open>Counting zeros\<close>

lemma takeWhile_rev_count:
  "length (takeWhile P (rev [0..<n])) = length (filter (\<lambda>k. \<forall>i. k \<le> i \<and> i < n \<longrightarrow> P i) [0..<n])"
proof (induction n)
  case (Suc n)
  have "(\<forall>i. k \<le> i \<and> i < Suc n \<longrightarrow> P i) \<longleftrightarrow> P n \<and> (\<forall>i. k \<le> i \<and> i < n \<longrightarrow> P i)" if "k \<le> n" for k
    using that by (auto simp: less_Suc_eq)
  then have "filter (\<lambda>k. \<forall>i. k \<le> i \<and> i < Suc n \<longrightarrow> P i) [0..<Suc n] =
      (if P n then filter (\<lambda>k. \<forall>i. k \<le> i \<and> i < n \<longrightarrow> P i) [0..<n] @ [n] else [])"
    by (auto simp: filter_empty_conv less_Suc_eq intro!: filter_cong)
  then show ?case using Suc by simp
qed simp

lemma takeWhile_count:
  "length (takeWhile P [0..<n]) = length (filter (\<lambda>k. \<forall>i<k. P i) [1..<Suc n])"
proof (induction n)
  case (Suc n)
  show ?case
  proof (cases "\<forall>i<n. P i")
    case True
    then have "takeWhile P [0..<n] = [0..<n]" by (simp add: takeWhile_eq_all_conv)
    moreover have "filter (\<lambda>k. \<forall>i<k. P i) [1..<Suc n] = [1..<Suc n]" using True by (auto simp: filter_id_conv)
    ultimately show ?thesis
      using True by (auto simp: takeWhile_append less_Suc_eq)
  next
    case False
    then show ?thesis using Suc by (auto simp: takeWhile_append less_Suc_eq)
  qed
qed simp

lemma zeros_counts:
  fixes w :: "'a::len word"
  shows "leading_zeros w = wasm_clz LENGTH('a) (uint w)" "trailing_zeros w = wasm_ctz LENGTH('a) (uint w)"
proof -
  have "(\<forall>i. k \<le> i \<and> i < LENGTH('a) \<longrightarrow> \<not> bit w i) \<longleftrightarrow> uint w < 2 ^ k" if "k < LENGTH('a)" for k
  proof -
    have "(\<forall>i. k \<le> i \<and> i < LENGTH('a) \<longrightarrow> \<not> bit w i) \<longleftrightarrow> take_bit k (uint w) = uint w"
      by (auto simp: bit_eq_iff [of "take_bit k (uint w)"] bit_take_bit_iff bit_uint_iff not_less [symmetric])
    then show ?thesis by (simp add: take_bit_int_eq_self_iff)
  qed
  then show "leading_zeros w = wasm_clz LENGTH('a) (uint w)"
    unfolding leading_zeros_def wasm_clz_def takeWhile_rev_count
    by (intro arg_cong [of _ _ length] filter_cong) simp_all
  have dv: "(\<forall>i<k. \<not> bit w i) \<longleftrightarrow> 2 ^ k dvd uint w" if "k \<le> LENGTH('a)" for k
  proof -
    have "(\<forall>i<k. \<not> bit w i) \<longleftrightarrow> take_bit k (uint w) = 0"
      using that by (auto simp: bit_eq_iff [of "take_bit k (uint w)"] bit_take_bit_iff bit_uint_iff)
    then show ?thesis by (simp add: take_bit_eq_0_iff)
  qed
  show "trailing_zeros w = wasm_ctz LENGTH('a) (uint w)"
    unfolding trailing_zeros_def wasm_ctz_def takeWhile_count
    by (intro arg_cong [of _ _ length] filter_cong refl dv) auto
qed

section \<open>Operands and results on the stack\<close>

lemma pop_eq:
  "pop s = (if sp s = 0 then err_res StackUnderflow else ok_res (stack s ! (sp s - 1), s\<lparr>sp := sp s - 1\<rparr>))"
  if "length (stack s) = MAX_STACK" "sp s \<le> MAX_STACK"
  using that by (auto simp: pop_def idx_def Let_def)

lemma push_eq: "push v s = ok_res (s\<lparr>stack := (stack s)[sp s := v], sp := sp s + 1\<rparr>)"
  if "length (stack s) = MAX_STACK" "sp s < MAX_STACK"
  using that by (simp add: push_def upd_def)

definition put_result :: "nat \<Rightarrow> u64 \<Rightarrow> interp \<Rightarrow> interp" where
  "put_result n v s = s\<lparr>stack := (stack s)[sp s - n := v], sp := sp s - n + 1\<rparr>"

lemma binop32_eq:
  assumes "length (stack s) = MAX_STACK" "sp s \<le> MAX_STACK"
  shows "binop32 f s =
    (if sp s < 2 then err_res StackUnderflow
     else case f (ucast (stack s ! (sp s - 2))) (ucast (stack s ! (sp s - 1))) of
       Inl t \<Rightarrow> err_res t | Inr v \<Rightarrow> ok_res (put_result 2 (ucast v) s))"
  using assms
  by (cases "sp s = 0"; cases "sp s = 1")
    (auto simp: binop32_def pop_u32_def pop_eq push_eq put_result_def numeral_2_eq_2 split: sum.split)

lemma binop64_eq:
  assumes "length (stack s) = MAX_STACK" "sp s \<le> MAX_STACK"
  shows "binop64 f s =
    (if sp s < 2 then err_res StackUnderflow
     else case f (stack s ! (sp s - 2)) (stack s ! (sp s - 1)) of
       Inl t \<Rightarrow> err_res t | Inr v \<Rightarrow> ok_res (put_result 2 v s))"
  using assms
  by (cases "sp s = 0"; cases "sp s = 1")
    (auto simp: binop64_def pop_eq push_eq put_result_def numeral_2_eq_2 split: sum.split)

lemma unary_eq:
  assumes "length (stack s) = MAX_STACK" "sp s \<le> MAX_STACK"
  shows "bind_res (pop s) (\<lambda>(v, s). push (f v) s) =
    (if sp s < 1 then err_res StackUnderflow else ok_res (put_result 1 (f (stack s ! (sp s - 1))) s))"
  using assms by (auto simp: pop_eq push_eq put_result_def)

text \<open>What an instruction does to the machine: its operands, its result in place of them, its trap.\<close>

definition num_step :: "num_instr \<Rightarrow> interp \<Rightarrow> (TrapKind, interp) res" where
  "num_step ins s =
     (if sp s < num_args ins then err_res StackUnderflow
      else case wasm_eval ins (uint (stack s ! (sp s - num_args ins))) (uint (stack s ! (sp s - 1))) of
        Inl t \<Rightarrow> err_res t | Inr v \<Rightarrow> ok_res (put_result (num_args ins) (word_of_int v) s))"

lemma uint_low: "uint (ucast v :: u32) = uint v mod 2 ^ 32" "uint v mod 2 ^ 64 = uint v" for v :: u64
proof -
  show "uint (ucast v :: u32) = uint v mod 2 ^ 32"
    by (simp add: unsigned_ucast_eq take_bit_eq_mod)
  show "uint v mod 2 ^ 64 = uint v" using uint_bounded [of v] by simp
qed

lemma bin_eval:
  fixes a b :: "'a::len word"
  assumes "agrees f op" "trap_kind f" "i mod 2 ^ LENGTH('a) = uint a" "j mod 2 ^ LENGTH('a) = uint b"
  shows "wasm_eval (Bin LENGTH('a) op) i j = map_sum id uint (f a b)"
proof (cases "f a b")
  case (Inl t)
  then have "t = (if b = 0 then DivisionByZero else IntegerOverflow)" using assms(2) by (simp add: trap_kind_def)
  then show ?thesis using assms(1,3,4) Inl by (simp add: agrees_def word_uint_eq_iff)
qed (use assms(1,3,4) in \<open>simp add: agrees_def\<close>)

lemma num_step_bin:
  assumes "length (stack s) = MAX_STACK" "sp s \<le> MAX_STACK"
  shows "agrees f op \<Longrightarrow> trap_kind f \<Longrightarrow> binop32 f s = num_step (Bin 32 op) s"
    and "agrees g op \<Longrightarrow> trap_kind g \<Longrightarrow> binop64 g s = num_step (Bin 64 op) s"
proof -
  let ?v = "stack s ! (sp s - 2)" and ?w = "stack s ! (sp s - 1)"
  assume f: "agrees f op" "trap_kind f"
  have "wasm_eval (Bin LENGTH(32) op) (uint ?v) (uint ?w) = map_sum id uint (f (ucast ?v) (ucast ?w))"
    by (rule bin_eval [OF f]) (simp_all add: uint_low(1))
  then have ev: "wasm_eval (Bin 32 op) (uint ?v) (uint ?w) = map_sum id uint (f (ucast ?v) (ucast ?w))"
    by (simp del: wasm_eval.simps)
  show "binop32 f s = num_step (Bin 32 op) s"
    unfolding binop32_eq [OF assms] num_step_def num_args.simps ev
    by (cases "f (ucast ?v) (ucast ?w)") simp_all
next
  let ?v = "stack s ! (sp s - 2)" and ?w = "stack s ! (sp s - 1)"
  assume g: "agrees g op" "trap_kind g"
  have "wasm_eval (Bin LENGTH(64) op) (uint ?v) (uint ?w) = map_sum id uint (g ?v ?w)"
    by (rule bin_eval [OF g]) (use uint_low(2) in simp_all)
  then have ev: "wasm_eval (Bin 64 op) (uint ?v) (uint ?w) = map_sum id uint (g ?v ?w)"
    by (simp del: wasm_eval.simps)
  show "binop64 g s = num_step (Bin 64 op) s"
    unfolding binop64_eq [OF assms] num_step_def num_args.simps ev
    by (cases "g ?v ?w") simp_all
qed

lemma num_step_rel:
  assumes "length (stack s) = MAX_STACK" "sp s \<le> MAX_STACK"
  shows "rel_agrees f op \<Longrightarrow> binop32 (\<lambda>a b. Inr (of_bool (f a b))) s = num_step (Rel 32 op) s"
    and "rel_agrees g op \<Longrightarrow> binop64 (\<lambda>a b. Inr (of_bool (g a b))) s = num_step (Rel 64 op) s"
  by (auto simp: binop32_eq [OF assms] binop64_eq [OF assms] num_step_def rel_agrees_def uint_low [simplified])

text \<open>
  A numeric opcode falls through to \<open>exec_numeric\<close>, and the five tables there have pairwise different
  opcodes.
\<close>

lemma exec_numeric_op:
  assumes "0x45 \<le> opc"
  shows "exec host opc s mem h = bind_res (traps mem h (exec_numeric opc s)) (\<lambda>s. ok_res (Continue s mem h))"
proof -
  have c: "opc \<noteq> c" if "c < 0x45" for c using that assms by auto
  have l: "map_of loads opc = None" "map_of stores opc = None"
    by (auto simp: loads_def stores_def memory_ops c)
  have b: "exec_basic opc mem s = exec_numeric opc s"
    unfolding exec_basic_def by (simp add: control_ops memory_ops c)
  show ?thesis unfolding exec_def by (simp add: control_ops c l b)
qed

lemma numeric_lookup:
  "(opc, f) \<in> set i32_compare \<Longrightarrow> exec_numeric opc s = binop32 (\<lambda>a b. Inr (of_bool (f a b))) s"
  "(opc, g) \<in> set i64_compare \<Longrightarrow> exec_numeric opc s = binop64 (\<lambda>a b. Inr (of_bool (g a b))) s"
  "(opc, f') \<in> set i32_arith \<Longrightarrow> exec_numeric opc s = binop32 f' s"
  "(opc, g') \<in> set i64_arith \<Longrightarrow> exec_numeric opc s = binop64 g' s"
  "(opc, u) \<in> set unary \<Longrightarrow> exec_numeric opc s = bind_res (pop s) (\<lambda>(v, s). push (u v) s)"
proof -
  let ?c = "map fst i32_compare" and ?d = "map fst i64_compare" and ?a = "map fst i32_arith"
    and ?b = "map fst i64_arith" and ?u = "map fst unary"
  have "distinct (?c @ ?d @ ?a @ ?b @ ?u)"
    by (simp add: i32_compare_def i64_compare_def i32_arith_def i64_arith_def unary_def numeric_ops)
  then have dist: "distinct ?c" "distinct ?d" "distinct ?a" "distinct ?b" "distinct ?u"
    and disj: "set ?c \<inter> set ?d = {}" "set ?c \<inter> set ?a = {}" "set ?c \<inter> set ?b = {}" "set ?c \<inter> set ?u = {}"
      "set ?d \<inter> set ?a = {}" "set ?d \<inter> set ?b = {}" "set ?d \<inter> set ?u = {}"
      "set ?a \<inter> set ?b = {}" "set ?a \<inter> set ?u = {}" "set ?b \<inter> set ?u = {}"
    by (simp_all only: distinct_append set_append Int_Un_distrib Un_empty simp_thms)
  have none: "map_of xs opc = None" if "set (map fst xs) \<inter> set (map fst ys) = {}" "(opc, y) \<in> set ys"
    for xs :: "(u8 \<times> 'x) list" and ys :: "(u8 \<times> 'y) list" and y
    using that by (force simp: map_of_eq_None_iff)
  note some = map_of_is_SomeI
  show "exec_numeric opc s = binop32 (\<lambda>a b. Inr (of_bool (f a b))) s" if "(opc, f) \<in> set i32_compare"
    by (simp add: exec_numeric_def some [OF dist(1) that])
  show "exec_numeric opc s = binop64 (\<lambda>a b. Inr (of_bool (g a b))) s" if "(opc, g) \<in> set i64_compare"
    by (simp add: exec_numeric_def some [OF dist(2) that] none [OF disj(1) that])
  show "exec_numeric opc s = binop32 f' s" if "(opc, f') \<in> set i32_arith"
    by (simp add: exec_numeric_def some [OF dist(3) that] none [OF disj(2) that] none [OF disj(5) that])
  show "exec_numeric opc s = binop64 g' s" if "(opc, g') \<in> set i64_arith"
    by (simp add: exec_numeric_def some [OF dist(4) that] none [OF disj(3) that] none [OF disj(6) that]
        none [OF disj(8) that])
  show "exec_numeric opc s = bind_res (pop s) (\<lambda>(v, s). push (u v) s)" if "(opc, u) \<in> set unary"
    by (simp add: exec_numeric_def some [OF dist(5) that] none [OF disj(4) that] none [OF disj(7) that]
        none [OF disj(9) that] none [OF disj(10) that])
qed

lemma list_all2_member: "list_all2 P xs ys \<Longrightarrow> y \<in> set ys \<Longrightarrow> \<exists>x\<in>set xs. P x y"
  by (induction rule: list_all2_induct) auto

lemma num_step_unary:
  assumes "length (stack s) = MAX_STACK" "sp s \<le> MAX_STACK" "num_args ins = 1"
    and "\<And>v. \<exists>i. wasm_eval ins (uint v) (uint v) = Inr i \<and> word_of_int i = u v"
  shows "bind_res (pop s) (\<lambda>(v, s). push (u v) s) = num_step ins s"
  using assms(4) [of "stack s ! (sp s - 1)"] unfolding unary_eq [OF assms(1,2)] num_step_def assms(3) by auto

lemma unary_tables:
  assumes "length (stack s) = MAX_STACK" "sp s \<le> MAX_STACK"
    and "(k, ins) \<in> set [(0x45, Eqz 32), (0x50, Eqz 64), (0x67, Clz 32), (0x68, Ctz 32), (0x79, Clz 64),
      (0x7A, Ctz 64), (0xA7, Wrap), (0xAC, Extend_S), (0xAD, Extend_U)]"
  shows "exec_numeric (of_nat k) s = num_step ins s"
proof -
  note U = num_step_unary [OF assms(1,2)] and L = numeric_lookup(5)
  have z: "uint (ucast v :: u32) = uint v mod 4294967296" "uint v mod 18446744073709551616 = uint v" for v :: u64
    using uint_low [of v] by simp_all
  have e32: "(ucast v :: u32) = 0 \<longleftrightarrow> uint v mod 4294967296 = 0" for v :: u64
    using z(1) [of v] by (simp add: word_uint_eq_iff)
  have e64: "uint v mod 18446744073709551616 = 0 \<longleftrightarrow> v = 0" for v :: u64
    using z(2) [of v] by (simp add: word_uint_eq_iff)
  have m64: "(word_of_int (x mod 18446744073709551616) :: u64) = word_of_int x" for x
    by (simp add: word_of_int_eq_iff take_bit_eq_mod)
  have lz: "leading_zeros (ucast v :: u32) = wasm_clz 32 (uint v mod 4294967296)"
    "trailing_zeros (ucast v :: u32) = wasm_ctz 32 (uint v mod 4294967296)"
    "leading_zeros v = wasm_clz 64 (uint v)" "trailing_zeros v = wasm_ctz 64 (uint v)" for v :: u64
    using zeros_counts [of "ucast v :: u32"] zeros_counts [of v] by (simp_all add: z(1))
  have "exec_numeric 0x45 s = num_step (Eqz 32) s"
    by (subst L [of _ "\<lambda>v. of_bool ((ucast v :: u32) = 0)"], simp add: unary_def numeric_ops)
      (rule U, auto simp: e32)
  moreover have "exec_numeric 0x50 s = num_step (Eqz 64) s"
    by (subst L [of _ "\<lambda>v. of_bool (v = 0)"], simp add: unary_def numeric_ops)
      (rule U, auto simp: e64)
  moreover have "exec_numeric 0x67 s = num_step (Clz 32) s"
    by (subst L [of _ "\<lambda>v. of_nat (leading_zeros (ucast v :: u32))"], simp add: unary_def numeric_ops)
      (rule U, simp_all add: lz)
  moreover have "exec_numeric 0x68 s = num_step (Ctz 32) s"
    by (subst L [of _ "\<lambda>v. of_nat (trailing_zeros (ucast v :: u32))"], simp add: unary_def numeric_ops)
      (rule U, simp_all add: lz)
  moreover have "exec_numeric 0x79 s = num_step (Clz 64) s"
    by (subst L [of _ "\<lambda>v. of_nat (leading_zeros v)"], simp add: unary_def numeric_ops)
      (rule U, simp_all add: lz z)
  moreover have "exec_numeric 0x7A s = num_step (Ctz 64) s"
    by (subst L [of _ "\<lambda>v. of_nat (trailing_zeros v)"], simp add: unary_def numeric_ops)
      (rule U, simp_all add: lz z)
  moreover have "exec_numeric 0xA7 s = num_step Wrap s"
    by (subst L [of _ "\<lambda>v. ucast (ucast v :: u32)"], simp add: unary_def numeric_ops)
      (rule U, simp_all flip: z(1))
  moreover have "exec_numeric 0xAC s = num_step Extend_S s"
    by (subst L [of _ "\<lambda>v. scast (ucast v :: u32)"], simp add: unary_def numeric_ops)
      (rule U, simp_all add: scast_eq sint_signed m64 z)
  moreover have "exec_numeric 0xAD s = num_step Extend_U s"
    by (subst L [of _ "\<lambda>v. ucast (ucast v :: u32)"], simp add: unary_def numeric_ops)
      (rule U, simp_all flip: z(1))
  ultimately show ?thesis using assms(3) by auto
qed

lemma enumerate_map:
  assumes "(k, x) \<in> set (enumerate n (map f ys))"
  obtains y where "x = f y" "(k, y) \<in> set (enumerate n ys)"
  using assms by (auto simp: in_set_enumerate_eq)

lemma exec_numeric_step:
  assumes "(k, ins) \<in> set num_instrs" and st: "length (stack s) = MAX_STACK" "sp s \<le> MAX_STACK"
  shows "exec_numeric (of_nat k) s = num_step ins s"
proof -
  consider "(k, ins) \<in> set (enumerate 0x46 (map (Rel 32) irelops))"
    | "(k, ins) \<in> set (enumerate 0x51 (map (Rel 64) irelops))"
    | "(k, ins) \<in> set (enumerate 0x6A (map (Bin 32) ibinops))"
    | "(k, ins) \<in> set (enumerate 0x7C (map (Bin 64) ibinops))"
    | "(k, ins) \<in> set [(0x45, Eqz 32), (0x50, Eqz 64), (0x67, Clz 32), (0x68, Ctz 32), (0x79, Clz 64),
        (0x7A, Ctz 64), (0xA7, Wrap), (0xAC, Extend_S), (0xAD, Extend_U)]"
    using assms(1) unfolding num_instrs_def set_append Un_iff by fastforce
  then show ?thesis
  proof cases
    case 1
    then obtain op where op: "ins = Rel 32 op" "(k, op) \<in> set (enumerate 0x46 irelops)" by (rule enumerate_map)
    with list_all2_member [OF compare_tables(1)] obtain f where
      "(of_nat k, f) \<in> set i32_compare" "rel_agrees f op" by fastforce
    then show ?thesis using numeric_lookup(1) num_step_rel(1) [OF st] op(1) by simp
  next
    case 2
    then obtain op where op: "ins = Rel 64 op" "(k, op) \<in> set (enumerate 0x51 irelops)" by (rule enumerate_map)
    with list_all2_member [OF compare_tables(2)] obtain f where
      "(of_nat k, f) \<in> set i64_compare" "rel_agrees f op" by fastforce
    then show ?thesis using numeric_lookup(2) num_step_rel(2) [OF st] op(1) by simp
  next
    case 3
    then obtain op where op: "ins = Bin 32 op" "(k, op) \<in> set (enumerate 0x6A ibinops)" by (rule enumerate_map)
    with list_all2_member [OF arith_tables(1)] obtain f where
      "(of_nat k, f) \<in> set i32_arith" "agrees f op" "trap_kind f" by fastforce
    then show ?thesis using numeric_lookup(3) num_step_bin(1) [OF st] op(1) by simp
  next
    case 4
    then obtain op where op: "ins = Bin 64 op" "(k, op) \<in> set (enumerate 0x7C ibinops)" by (rule enumerate_map)
    with list_all2_member [OF arith_tables(2)] obtain f where
      "(of_nat k, f) \<in> set i64_arith" "agrees f op" "trap_kind f" by fastforce
    then show ?thesis using numeric_lookup(4) num_step_bin(2) [OF st] op(1) by simp
  next
    case 5
    then show ?thesis by (rule unary_tables [OF st])
  qed
qed

text \<open>
  C21. Every numeric instruction of the interpreter - the arithmetic, bit and comparison operations,
  zero test, zero counts and conversions, on \<open>i32\<close> and on \<open>i64\<close> - does what WebAssembly prescribes.
  For each instruction at its standard opcode, in any state with a full-size operand stack, executing
  the opcode replaces the operands on top of the stack by the reference's result on them, the deeper
  operand being the first, and changes nothing else; it traps with an underflow exactly when operands
  are missing, and with \<open>DivisionByZero\<close> or \<open>IntegerOverflow\<close> exactly where the reference does.
\<close>

theorem numeric_spec:
  assumes "(k, ins) \<in> set num_instrs" "length (stack s) = MAX_STACK" "sp s \<le> MAX_STACK"
  shows "exec host (of_nat k) s mem h =
    (if sp s < num_args ins then err_res (StackUnderflow, mem, h)
     else case wasm_eval ins (uint (stack s ! (sp s - num_args ins))) (uint (stack s ! (sp s - 1))) of
       Inl t \<Rightarrow> err_res (t, mem, h)
     | Inr v \<Rightarrow> ok_res (Continue
         (s\<lparr>stack := (stack s)[sp s - num_args ins := word_of_int v], sp := sp s - num_args ins + 1\<rparr>) mem h))"
proof -
  have lo: "0x45 \<le> (of_nat k :: u8)"
    using assms(1) by (auto simp: num_instrs_def irelops_def ibinops_def)
  show ?thesis
    unfolding exec_numeric_op [OF lo] exec_numeric_step [OF assms] num_step_def put_result_def
    by (auto simp: traps_def split: sum.split)
qed

theorem numeric_spec_witness:
  "exec NoHost_call 0x6D ((new_interp new_module [] 0)\<lparr>stack := [0xFFFFFFF9, 2] @ replicate 254 0, sp := 2\<rparr>) [] () =
   ok_res (Continue ((new_interp new_module [] 0)\<lparr>stack := [0xFFFFFFFD, 2] @ replicate 254 0, sp := 1\<rparr>) [] ())"
proof -
  let ?s = "(new_interp new_module [] 0)\<lparr>stack := [0xFFFFFFF9, 2] @ replicate 254 0, sp := 2\<rparr>"
  have "(0x6D, Bin 32 IDivS) \<in> set num_instrs" by (simp add: num_instrs_def ibinops_def irelops_def)
  from numeric_spec [OF this, of ?s NoHost_call "[]" "()"] show ?thesis
    by (simp add: MAX_STACK_def Let_def wasm_signed_def trunc_div_def)
qed

end
