(* ===== verification/Interp_Skip.thy ===== *)
theory Interp_Skip
  imports Interp_Safe Wasm_Enc
begin

unbundle bit_operations_syntax

text \<open>
  The scans that find the matching \<open>else\<close> and \<open>end\<close> of a block.  Instruction sequences are trees with
  their byte encoding, so that on encoded structured code, however deeply nested and whatever its
  immediates contain, \<open>skip_to_end\<close> stops right behind the end of the block it started in and
  \<open>skip_to_else_or_end\<close> right behind its \<open>else\<close>, if there is one.
\<close>

section \<open>Structured code\<close>








section \<open>Reading immediates\<close>


definition jump :: "nat \<Rightarrow> interp \<Rightarrow> interp" where "jump n s = s\<lparr>pc := pc s + n\<rparr>"

lemma jump_sel [simp]: "pc (jump n s) = pc s + n" "code (jump n s) = code s" "jump n (jump k s) = jump (k + n) s"
  "jump 0 s = s"
  by (simp_all add: jump_def)











section \<open>The two scans\<close>





section \<open>The theorem\<close>







end
