(* ===== verification/Page_Alloc.thy ===== *)
theory Page_Alloc
  imports Prelude
begin

unbundle bit_operations_syntax

text \<open>
  The bitmap page allocator of \<open>kernel/src/page_alloc.rs\<close>: the struct, every method of
  \<open>BitmapAllocator\<close>, the boot-time \<open>init\<close>, the boot self-test, the well-formedness invariant
  and the refinement to an abstract set of live pages.  The contract other components rely
  on is the locale \<open>page_pool\<close>, interpreted at the end on the bitmap operations.
\<close>

section \<open>Model\<close>

definition PAGE_SIZE :: usize where
  "PAGE_SIZE = 4096"

definition MAX_PAGES :: nat where
  "MAX_PAGES = 32768"

definition BITMAP_WORDS :: nat where
  "BITMAP_WORDS = MAX_PAGES div 64"

datatype alloc_error = OutOfMemory | DoubleFree | InvalidAddress | NotAligned

record bitmap_allocator =
  bitmap :: "u64 list"
  base_addr :: usize
  total_pages :: usize

definition new_allocator :: "usize \<Rightarrow> usize \<Rightarrow> bitmap_allocator" where
  "new_allocator base num_pages =
     \<lparr>bitmap = replicate BITMAP_WORDS 0, base_addr = base, total_pages = num_pages\<rparr>"

text \<open>The three \<open>assert!\<close>s of \<open>BitmapAllocator::init\<close>.\<close>

definition init_checks :: "bitmap_allocator \<Rightarrow> unit option" where
  "init_checks a = do {
     assert_that (base_addr a mod PAGE_SIZE = 0);
     assert_that (0 < total_pages a);
     assert_that (unat (total_pages a) \<le> MAX_PAGES)
   }"

definition words_used :: "bitmap_allocator \<Rightarrow> nat" where
  "words_used a = unat ((total_pages a + 63) div 64)"

text \<open>The loop of \<open>alloc\<close>; its list argument holds the word indices still to be visited.\<close>

fun alloc_scan ::
  "bitmap_allocator \<Rightarrow> nat list \<Rightarrow> ((alloc_error + usize) \<times> bitmap_allocator) option" where
  "alloc_scan a [] = Some (Inl OutOfMemory, a)"
| "alloc_scan a (word_idx # rest) = do {
     word \<leftarrow> idx (bitmap a) word_idx;
     if word = - 1 then alloc_scan a rest
     else
       let bit_idx = trailing_zeros (NOT word);
           page_idx = word_idx * 64 + bit_idx
       in if unat (total_pages a) \<le> page_idx then Some (Inl OutOfMemory, a)
          else Some (Inr (base_addr a + of_nat page_idx * PAGE_SIZE),
                     a\<lparr>bitmap := (bitmap a)[word_idx := word OR push_bit bit_idx 1]\<rparr>)
   }"

definition alloc :: "bitmap_allocator \<Rightarrow> ((alloc_error + usize) \<times> bitmap_allocator) option" where
  "alloc a = alloc_scan a [0..<words_used a]"

definition free :: "bitmap_allocator \<Rightarrow> usize \<Rightarrow> ((alloc_error + unit) \<times> bitmap_allocator) option" where
  "free a addr =
     (if addr mod PAGE_SIZE \<noteq> 0 then Some (Inl NotAligned, a)
      else if addr < base_addr a then Some (Inl InvalidAddress, a)
      else
        let page_idx = (addr - base_addr a) div PAGE_SIZE
        in if total_pages a \<le> page_idx then Some (Inl InvalidAddress, a)
           else
             let word_idx = unat (page_idx div 64);
                 mask = push_bit (unat (page_idx mod 64)) 1
             in do {
               w \<leftarrow> idx (bitmap a) word_idx;
               if w AND mask = 0 then Some (Inl DoubleFree, a)
               else Some (Inr (), a\<lparr>bitmap := (bitmap a)[word_idx := w AND NOT mask]\<rparr>)
             })"

definition is_allocated :: "bitmap_allocator \<Rightarrow> usize \<Rightarrow> bool option" where
  "is_allocated a addr =
     (if addr mod PAGE_SIZE \<noteq> 0 \<or> addr < base_addr a then Some False
      else
        let page_idx = (addr - base_addr a) div PAGE_SIZE
        in if total_pages a \<le> page_idx then Some False
           else do {
             w \<leftarrow> idx (bitmap a) (unat (page_idx div 64));
             Some (w AND push_bit (unat (page_idx mod 64)) 1 \<noteq> 0)
           })"

definition mark_allocated ::
  "bitmap_allocator \<Rightarrow> usize \<Rightarrow> ((alloc_error + unit) \<times> bitmap_allocator) option" where
  "mark_allocated a addr =
     (if addr mod PAGE_SIZE \<noteq> 0 then Some (Inl NotAligned, a)
      else if addr < base_addr a then Some (Inl InvalidAddress, a)
      else
        let page_idx = (addr - base_addr a) div PAGE_SIZE
        in if total_pages a \<le> page_idx then Some (Inl InvalidAddress, a)
           else
             let word_idx = unat (page_idx div 64);
                 mask = push_bit (unat (page_idx mod 64)) 1
             in do {
               w \<leftarrow> idx (bitmap a) word_idx;
               if w AND mask \<noteq> 0 then Some (Inl DoubleFree, a)
               else Some (Inr (), a\<lparr>bitmap := (bitmap a)[word_idx := w OR mask]\<rparr>)
             })"

fun count_scan :: "bitmap_allocator \<Rightarrow> nat list \<Rightarrow> usize \<Rightarrow> usize option" where
  "count_scan a [] count = Some count"
| "count_scan a (i # rest) count = do {
     w \<leftarrow> idx (bitmap a) i;
     count_scan a rest (count + of_nat (count_ones w))
   }"

definition allocated_count :: "bitmap_allocator \<Rightarrow> usize option" where
  "allocated_count a = count_scan a [0..<words_used a] 0"

definition free_count :: "bitmap_allocator \<Rightarrow> usize option" where
  "free_count a = do {
     allocated \<leftarrow> allocated_count a;
     Some (total_pages a - allocated)
   }"

text \<open>
  \<open>page_alloc::init\<close>: the region is \<open>[_end, _heap_end)\<close>, two linker symbols, passed in.
\<close>

definition init_allocator :: "usize \<Rightarrow> usize \<Rightarrow> bitmap_allocator option" where
  "init_allocator free_start free_end =
     (let base = (free_start + PAGE_SIZE - 1) AND NOT (PAGE_SIZE - 1);
          num_pages = (free_end - base) div PAGE_SIZE;
          a = new_allocator base num_pages
      in do { init_checks a; Some a })"

text \<open>
  \<open>self_test\<close> on the global allocator: the state after the test, \<open>None\<close> if an assertion fails.
\<close>

definition expect_page ::
  "((alloc_error + usize) \<times> bitmap_allocator) option \<Rightarrow> (usize \<times> bitmap_allocator) option" where
  "expect_page r = do {
     x \<leftarrow> r;
     (case x of (Inr p, a) \<Rightarrow> Some (p, a) | (Inl _, _) \<Rightarrow> None)
   }"

definition expect_done ::
  "((alloc_error + unit) \<times> bitmap_allocator) option \<Rightarrow> bitmap_allocator option" where
  "expect_done r = do {
     x \<leftarrow> r;
     (case x of (Inr _, a) \<Rightarrow> Some a | (Inl _, _) \<Rightarrow> None)
   }"

definition self_test :: "bitmap_allocator \<Rightarrow> bitmap_allocator option" where
  "self_test a0 = do {
     n \<leftarrow> allocated_count a0;
     assert_that (n = 0);
     f \<leftarrow> free_count a0;
     assert_that (f = total_pages a0);
     (p1, a1) \<leftarrow> expect_page (alloc a0);
     assert_that (p1 mod PAGE_SIZE = 0);
     assert_that (base_addr a1 \<le> p1);
     b1 \<leftarrow> is_allocated a1 p1;
     assert_that b1;
     n1 \<leftarrow> allocated_count a1;
     f1 \<leftarrow> free_count a1;
     assert_that (n1 + f1 = total_pages a1);
     a2 \<leftarrow> expect_done (free a1 p1);
     b2 \<leftarrow> is_allocated a2 p1;
     assert_that (\<not> b2);
     (r2, a2') \<leftarrow> free a2 p1;
     assert_that (r2 = Inl DoubleFree);
     (p2, a3) \<leftarrow> expect_page (alloc a2');
     assert_that (p1 = p2);
     a4 \<leftarrow> expect_done (free a3 p2);
     (pa, a5) \<leftarrow> expect_page (alloc a4);
     (pb, a6) \<leftarrow> expect_page (alloc a5);
     assert_that (pa \<noteq> pb);
     assert_that (pb = pa + PAGE_SIZE);
     a7 \<leftarrow> expect_done (free a6 pa);
     a8 \<leftarrow> expect_done (free a7 pb);
     (r3, a9) \<leftarrow> free a8 0xDEAD;
     assert_that (r3 = Inl NotAligned);
     (r4, a10) \<leftarrow> free a9 0;
     assert_that (r4 = Inl InvalidAddress);
     n2 \<leftarrow> allocated_count a10;
     assert_that (n2 = 0);
     Some a10
   }"

section \<open>Invariant and abstraction\<close>

definition page_bit :: "bitmap_allocator \<Rightarrow> nat \<Rightarrow> bool" where
  "page_bit a i = bit (bitmap a ! (i div 64)) (i mod 64)"

definition page_addr :: "bitmap_allocator \<Rightarrow> nat \<Rightarrow> usize" where
  "page_addr a i = base_addr a + of_nat i * PAGE_SIZE"

definition wf_alloc :: "bitmap_allocator \<Rightarrow> bool" where
  "wf_alloc a \<longleftrightarrow>
     length (bitmap a) = BITMAP_WORDS \<and>
     base_addr a mod PAGE_SIZE = 0 \<and>
     0 < unat (total_pages a) \<and>
     unat (total_pages a) \<le> MAX_PAGES \<and>
     unat (base_addr a) + unat (total_pages a) * 4096 < 2 ^ 64 \<and>
     (\<forall>i < MAX_PAGES. unat (total_pages a) \<le> i \<longrightarrow> \<not> page_bit a i)"

definition live_idx :: "bitmap_allocator \<Rightarrow> nat set" where
  "live_idx a = {i. i < unat (total_pages a) \<and> page_bit a i}"

definition live_pages :: "bitmap_allocator \<Rightarrow> usize set" where
  "live_pages a = page_addr a ` live_idx a"

definition pool :: "bitmap_allocator \<Rightarrow> usize set" where
  "pool a = page_addr a ` {i. i < unat (total_pages a)}"

definition set_page :: "bitmap_allocator \<Rightarrow> nat \<Rightarrow> bitmap_allocator" where
  "set_page a i = a\<lparr>bitmap := (bitmap a)[i div 64 := bitmap a ! (i div 64) OR push_bit (i mod 64) 1]\<rparr>"

definition clear_page :: "bitmap_allocator \<Rightarrow> nat \<Rightarrow> bitmap_allocator" where
  "clear_page a i =
     a\<lparr>bitmap := (bitmap a)[i div 64 := bitmap a ! (i div 64) AND NOT (push_bit (i mod 64) 1)]\<rparr>"

lemmas size_defs = PAGE_SIZE_def MAX_PAGES_def BITMAP_WORDS_def

lemma wf_allocD:
  assumes "wf_alloc a"
  shows "length (bitmap a) = 512" "base_addr a mod 4096 = 0"
    "0 < unat (total_pages a)" "unat (total_pages a) \<le> 32768"
    "unat (base_addr a) + unat (total_pages a) * 4096 < 2 ^ 64"
    "\<And>i. i < 32768 \<Longrightarrow> unat (total_pages a) \<le> i \<Longrightarrow> \<not> page_bit a i"
  using assms by (auto simp: wf_alloc_def size_defs)

lemma div_mod_64_inj: "(i div 64 = j div 64 \<and> i mod 64 = j mod 64) \<longleftrightarrow> i = (j::nat)"
  by (metis div_mult_mod_eq)

lemma set_page_sel [simp]:
  "base_addr (set_page a i) = base_addr a" "total_pages (set_page a i) = total_pages a"
  "length (bitmap (set_page a i)) = length (bitmap a)"
  by (simp_all add: set_page_def)

lemma clear_page_sel [simp]:
  "base_addr (clear_page a i) = base_addr a" "total_pages (clear_page a i) = total_pages a"
  "length (bitmap (clear_page a i)) = length (bitmap a)"
  by (simp_all add: clear_page_def)

lemma page_bit_set_page:
  assumes "i div 64 < length (bitmap a)"
  shows "page_bit (set_page a i) j \<longleftrightarrow> j = i \<or> page_bit a j"
proof (cases "j div 64 = i div 64")
  case True
  then have "(i mod 64 = j mod 64) = (j = i)" using div_mod_64_inj [of i j] by metis
  then show ?thesis
    using True assms
    by (auto simp: page_bit_def set_page_def bit_simps)
next
  case False
  then show ?thesis using assms by (auto simp: page_bit_def set_page_def)
qed

lemma page_bit_clear_page:
  assumes "i div 64 < length (bitmap a)"
  shows "page_bit (clear_page a i) j \<longleftrightarrow> j \<noteq> i \<and> page_bit a j"
proof (cases "j div 64 = i div 64")
  case True
  then have "(i mod 64 = j mod 64) = (j = i)" using div_mod_64_inj [of i j] by metis
  then show ?thesis
    using True assms
    by (auto simp: page_bit_def clear_page_def bit_simps)
next
  case False
  then show ?thesis using assms by (auto simp: page_bit_def clear_page_def)
qed

lemma wf_allocI:
  assumes "wf_alloc a" "base_addr b = base_addr a" "total_pages b = total_pages a"
    "length (bitmap b) = length (bitmap a)"
    "\<And>i. page_bit b i \<Longrightarrow> page_bit a i \<or> i < unat (total_pages a)"
  shows "wf_alloc b"
proof -
  have "\<forall>i < MAX_PAGES. unat (total_pages b) \<le> i \<longrightarrow> \<not> page_bit b i"
    using assms(1,5) unfolding wf_alloc_def assms(3) by (meson leD)
  then show ?thesis
    using assms(1) unfolding wf_alloc_def assms(2-4) by blast
qed

lemma wf_idx_bound: "wf_alloc a \<Longrightarrow> i < unat (total_pages a) \<Longrightarrow> i div 64 < length (bitmap a)"
  using wf_allocD(1,4) [of a] by simp

lemma wf_set_page: "wf_alloc a \<Longrightarrow> i < unat (total_pages a) \<Longrightarrow> wf_alloc (set_page a i)"
  by (rule wf_allocI [of a]) (auto simp: page_bit_set_page wf_idx_bound)

lemma wf_clear_page: "wf_alloc a \<Longrightarrow> i < unat (total_pages a) \<Longrightarrow> wf_alloc (clear_page a i)"
  by (rule wf_allocI [of a]) (auto simp: page_bit_clear_page wf_idx_bound)

lemma set_clear_page:
  "i div 64 < length (bitmap a) \<Longrightarrow> \<not> page_bit a i \<Longrightarrow> clear_page (set_page a i) i = a"
proof -
  assume i: "i div 64 < length (bitmap a)" and nb: "\<not> page_bit a i"
  let ?w = "bitmap a ! (i div 64)"
  have "(?w OR push_bit (i mod 64) 1) AND NOT (push_bit (i mod 64) 1) = ?w"
    using nb by (intro bit_word_eqI) (auto simp: bit_simps page_bit_def)
  then show ?thesis
    using i by (simp add: set_page_def clear_page_def)
qed

section \<open>Addresses\<close>

lemma unat_page_addr:
  assumes "wf_alloc a" "i < unat (total_pages a)"
  shows "unat (page_addr a i) = unat (base_addr a) + i * 4096"
proof -
  have b: "unat (base_addr a) + i * 4096 < 2 ^ 64"
    using wf_allocD [OF assms(1)] assms(2) by (smt (verit) add_less_cancel_left less_trans mult_less_mono1 zero_less_numeral)
  have s: "i < 2 ^ 64" using wf_allocD(4) [OF assms(1)] assms(2) by simp
  have m: "unat (of_nat i * PAGE_SIZE :: usize) = i * 4096"
    using b s by (subst unat_mult_small) (simp_all add: PAGE_SIZE_def unat_of_nat_small)
  show ?thesis
    unfolding page_addr_def using b m by (subst unat_add_small) simp_all
qed

lemma page_addr_inj:
  assumes "wf_alloc a" "i < unat (total_pages a)" "j < unat (total_pages a)"
  shows "page_addr a i = page_addr a j \<longleftrightarrow> i = j"
  using unat_page_addr [OF assms(1,2)] unat_page_addr [OF assms(1,3)] by (metis add_left_cancel mult_right_cancel zero_neq_numeral)

lemma page_addr_aligned:
  assumes "wf_alloc a" "i < unat (total_pages a)"
  shows "page_addr a i mod PAGE_SIZE = 0"
  using wf_allocD(2) [OF assms(1)] unat_page_addr [OF assms]
  by (simp add: word_mod_eq_0_iff PAGE_SIZE_def mod_add_eq [symmetric])

text \<open>The index computed by \<open>free\<close>, \<open>is_allocated\<close> and \<open>mark_allocated\<close> from an address.\<close>

lemma page_index:
  assumes "wf_alloc a" "addr mod PAGE_SIZE = 0" "\<not> addr < base_addr a"
    "\<not> total_pages a \<le> (addr - base_addr a) div PAGE_SIZE"
  defines "i \<equiv> (unat addr - unat (base_addr a)) div 4096"
  shows "i < unat (total_pages a)" "addr = page_addr a i"
    "unat ((addr - base_addr a) div PAGE_SIZE div 64) = i div 64"
    "unat ((addr - base_addr a) div PAGE_SIZE mod 64) = i mod 64"
proof -
  have le: "unat (base_addr a) \<le> unat addr"
    using assms(3) by (simp add: word_le_nat_alt word_less_nat_alt not_less)
  have d: "unat (addr - base_addr a) = unat addr - unat (base_addr a)"
    using le by (simp add: unat_sub word_le_nat_alt)
  have q: "unat ((addr - base_addr a) div PAGE_SIZE) = i"
    by (simp add: unat_div d i_def PAGE_SIZE_def)
  show i: "i < unat (total_pages a)"
    using assms(4) q by (simp add: word_le_nat_alt not_le)
  have "unat addr mod 4096 = 0" "unat (base_addr a) mod 4096 = 0"
    using assms(2) wf_allocD(2) [OF assms(1)] by (simp_all add: word_mod_eq_0_iff PAGE_SIZE_def)
  then have "(unat addr - unat (base_addr a)) mod 4096 = 0"
    using le by (metis dvd_diff_nat mod_0_imp_dvd dvd_imp_mod_0)
  then have "i * 4096 = unat addr - unat (base_addr a)"
    unfolding i_def by (metis add.right_neutral div_mult_mod_eq)
  then have "unat addr = unat (base_addr a) + i * 4096"
    using le by simp
  then show "addr = page_addr a i"
    using unat_page_addr [OF assms(1) i] by (simp add: word_unat_eq_iff)
  show "unat ((addr - base_addr a) div PAGE_SIZE div 64) = i div 64"
    "unat ((addr - base_addr a) div PAGE_SIZE mod 64) = i mod 64"
    using q by (simp_all add: unat_div unat_mod)
qed

lemma page_addr_in_range:
  assumes "wf_alloc a" "i < unat (total_pages a)"
  shows "\<not> page_addr a i < base_addr a"
    "(page_addr a i - base_addr a) div PAGE_SIZE = of_nat i"
    "\<not> total_pages a \<le> (page_addr a i - base_addr a) div PAGE_SIZE"
proof -
  note u = unat_page_addr [OF assms]
  have s: "i < 2 ^ 64" using wf_allocD(4) [OF assms(1)] assms(2) by simp
  show n: "\<not> page_addr a i < base_addr a" by (simp add: word_less_nat_alt u)
  have "unat (page_addr a i - base_addr a) = i * 4096"
    using n by (simp add: unat_sub word_le_nat_alt not_less u)
  then have q: "unat ((page_addr a i - base_addr a) div PAGE_SIZE) = i"
    by (simp add: unat_div PAGE_SIZE_def)
  then show "(page_addr a i - base_addr a) div PAGE_SIZE = of_nat i"
    by (metis of_nat_unat_eq)
  show "\<not> total_pages a \<le> (page_addr a i - base_addr a) div PAGE_SIZE"
    using q assms(2) by (simp add: word_le_nat_alt)
qed

lemma not_in_pool:
  assumes "wf_alloc a" "addr mod PAGE_SIZE = 0" "addr \<notin> pool a" "\<not> addr < base_addr a"
  shows "total_pages a \<le> (addr - base_addr a) div PAGE_SIZE"
proof (rule ccontr)
  assume "\<not> ?thesis"
  from page_index(1,2) [OF assms(1,2,4) this] assms(3) show False
    by (auto simp: pool_def)
qed

lemma live_pages_iff:
  assumes "wf_alloc a" "i < unat (total_pages a)"
  shows "page_addr a i \<in> live_pages a \<longleftrightarrow> page_bit a i"
  using assms page_addr_inj [OF assms(1)] by (auto simp: live_pages_def live_idx_def)

lemma live_subset_pool: "live_pages a \<subseteq> pool a"
  by (auto simp: live_pages_def live_idx_def pool_def)

lemma live_set_page:
  assumes "wf_alloc a" "i < unat (total_pages a)"
  shows "live_pages (set_page a i) = insert (page_addr a i) (live_pages a)"
proof -
  have "live_idx (set_page a i) = insert i (live_idx a)"
    using assms by (auto simp: live_idx_def page_bit_set_page wf_idx_bound)
  then show ?thesis by (simp add: live_pages_def page_addr_def [abs_def])
qed

lemma live_clear_page:
  assumes "wf_alloc a" "i < unat (total_pages a)"
  shows "live_pages (clear_page a i) = live_pages a - {page_addr a i}"
proof -
  have "live_idx (clear_page a i) = live_idx a - {i}"
    using assms by (auto simp: live_idx_def page_bit_clear_page wf_idx_bound)
  moreover have "page_addr (clear_page a i) = page_addr a"
    by (simp add: page_addr_def [abs_def])
  moreover have "page_addr a ` (live_idx a - {i}) = page_addr a ` live_idx a - {page_addr a i}"
    using page_addr_inj [OF assms(1) _ assms(2)] by (auto simp: live_idx_def)
  ultimately show ?thesis by (simp add: live_pages_def)
qed

lemma pool_set_page [simp]: "pool (set_page a i) = pool a"
  and pool_clear_page [simp]: "pool (clear_page a i) = pool a"
  by (simp_all add: pool_def page_addr_def [abs_def])

section \<open>The operations on a well-formed allocator\<close>

lemma idx_page:
  assumes "wf_alloc a" "i < unat (total_pages a)"
  shows "unat ((of_nat i :: usize) div 64) = i div 64" "unat ((of_nat i :: usize) mod 64) = i mod 64"
proof -
  have "unat (of_nat i :: usize) = i"
    using wf_allocD(4) [OF assms(1)] assms(2) by (intro unat_of_nat_small) simp
  then show "unat ((of_nat i :: usize) div 64) = i div 64" "unat ((of_nat i :: usize) mod 64) = i mod 64"
    by (simp_all add: unat_div unat_mod)
qed

lemmas page_op_simps =
  page_addr_aligned page_addr_in_range idx_page wf_idx_bound

lemma free_page:
  assumes "wf_alloc a" "i < unat (total_pages a)"
  shows "free a (page_addr a i) =
    Some (if page_bit a i then (Inr (), clear_page a i) else (Inl DoubleFree, a))"
  using page_op_simps [OF assms]
  by (simp add: Let_def free_def page_bit_def clear_page_def bit_iff_and_push_bit_not_eq_0)

lemma is_allocated_page:
  assumes "wf_alloc a" "i < unat (total_pages a)"
  shows "is_allocated a (page_addr a i) = Some (page_bit a i)"
  using page_op_simps [OF assms]
  by (simp add: Let_def is_allocated_def page_bit_def bit_iff_and_push_bit_not_eq_0)

lemma mark_allocated_page:
  assumes "wf_alloc a" "i < unat (total_pages a)"
  shows "mark_allocated a (page_addr a i) =
    Some (if page_bit a i then (Inl DoubleFree, a) else (Inr (), set_page a i))"
  using page_op_simps [OF assms]
  by (simp add: Let_def mark_allocated_def page_bit_def set_page_def bit_iff_and_push_bit_not_eq_0)

lemma free_unaligned: "addr mod PAGE_SIZE \<noteq> 0 \<Longrightarrow> free a addr = Some (Inl NotAligned, a)"
  by (simp add: free_def)

lemma free_outside:
  "wf_alloc a \<Longrightarrow> addr mod PAGE_SIZE = 0 \<Longrightarrow> addr \<notin> pool a \<Longrightarrow> free a addr = Some (Inl InvalidAddress, a)"
  using not_in_pool [of a addr] by (auto simp: free_def)

lemma mark_allocated_unaligned:
  "addr mod PAGE_SIZE \<noteq> 0 \<Longrightarrow> mark_allocated a addr = Some (Inl NotAligned, a)"
  by (simp add: mark_allocated_def)

lemma mark_allocated_outside:
  "wf_alloc a \<Longrightarrow> addr mod PAGE_SIZE = 0 \<Longrightarrow> addr \<notin> pool a \<Longrightarrow>
     mark_allocated a addr = Some (Inl InvalidAddress, a)"
  using not_in_pool [of a addr] by (auto simp: mark_allocated_def)

lemma pool_aligned: "wf_alloc a \<Longrightarrow> p \<in> pool a \<Longrightarrow> p mod PAGE_SIZE = 0"
  by (auto simp: pool_def page_addr_aligned)

lemma is_allocated_outside:
  "wf_alloc a \<Longrightarrow> addr \<notin> pool a \<Longrightarrow> is_allocated a addr = Some False"
  using not_in_pool [of a addr] by (auto simp: is_allocated_def)

lemma is_allocated_live: "wf_alloc a \<Longrightarrow> is_allocated a addr = Some (addr \<in> live_pages a)"
proof (cases "addr \<in> pool a")
  case True
  moreover assume "wf_alloc a"
  ultimately show ?thesis
    by (auto simp: pool_def is_allocated_page live_pages_iff)
next
  case False
  moreover assume "wf_alloc a"
  ultimately show ?thesis
    using live_subset_pool [of a] by (auto simp: is_allocated_outside)
qed

lemma words_used_eq:
  assumes "wf_alloc a"
  shows "words_used a = (unat (total_pages a) + 63) div 64"
proof -
  have "unat (total_pages a + 63) = unat (total_pages a) + 63"
    using wf_allocD(4) [OF assms] by (subst unat_add_small) simp_all
  then show ?thesis by (simp add: words_used_def unat_div)
qed

lemma words_used_le: "wf_alloc a \<Longrightarrow> words_used a \<le> length (bitmap a)"
  using wf_allocD(1,4) [of a] by (simp add: words_used_eq)

lemma alloc_scan_full:
  "(\<And>w. w \<in> set ws \<Longrightarrow> w < length (bitmap a) \<and> bitmap a ! w = - 1) \<Longrightarrow>
     alloc_scan a (ws @ vs) = alloc_scan a vs"
  by (induction ws) auto

text \<open>A full word has no free page; the first free page lies in the first word that is not full.\<close>

lemma alloc_least:
  assumes wf: "wf_alloc a" and i: "i < unat (total_pages a)" "\<not> page_bit a i"
    and least: "\<And>j. j < i \<Longrightarrow> page_bit a j"
  shows "alloc a = Some (Inr (page_addr a i), set_page a i)"
proof -
  let ?k = "i div 64" and ?b = "i mod 64" and ?n = "words_used a"
  have k: "?k < ?n" using i(1) by (simp add: words_used_eq [OF wf])
  then have kb: "?k < length (bitmap a)" using words_used_le [OF wf] by simp
  let ?w = "bitmap a ! ?k"
  have full: "bitmap a ! w = - 1" if "w < ?k" for w
  proof (rule bit_word_eqI)
    fix n assume "n < LENGTH(64)"
    then have "page_bit a (w * 64 + n)" using least [of "w * 64 + n"] that by simp
    with \<open>n < LENGTH(64)\<close> show "bit (bitmap a ! w) n = bit (- 1 :: u64) n"
      by (simp add: page_bit_def)
  qed
  have nf: "bit (NOT ?w) ?b" using i(2) by (simp add: page_bit_def bit_simps)
  have lower: "\<not> bit (NOT ?w) n" if "n < ?b" for n
  proof -
    have "?k * 64 + n < i" using that by (metis add_less_cancel_left div_mult_mod_eq)
    then have "page_bit a (?k * 64 + n)" by (rule least)
    moreover have "n < 64" using that by (rule less_trans) simp
    ultimately show ?thesis by (simp add: page_bit_def bit_simps)
  qed
  have tz: "trailing_zeros (NOT ?w) = ?b"
    unfolding trailing_zeros_def by (rule takeWhile_upt_length) (use nf lower in auto)
  have w: "?w \<noteq> - 1" using nf by auto
  have "alloc a = alloc_scan a ([0..<?k] @ ?k # [Suc ?k..<?n])"
    unfolding alloc_def upt_split [OF k] ..
  also have "\<dots> = alloc_scan a (?k # [Suc ?k..<?n])"
    by (rule alloc_scan_full) (use full kb in auto)
  also have "\<dots> = Some (Inr (page_addr a i), set_page a i)"
    using kb w i(1) by (simp add: tz page_addr_def set_page_def)
  finally show ?thesis .
qed

lemma alloc_full:
  assumes wf: "wf_alloc a" and all: "\<And>i. i < unat (total_pages a) \<Longrightarrow> page_bit a i"
  shows "alloc a = Some (Inl OutOfMemory, a)"
proof -
  have scan: "alloc_scan a ws = Some (Inl OutOfMemory, a)"
    if "\<And>w. w \<in> set ws \<Longrightarrow> w < length (bitmap a)" for ws
    using that
  proof (induction ws)
    case (Cons w ws)
    let ?w = "bitmap a ! w" and ?b = "trailing_zeros (NOT (bitmap a ! w))"
    show ?case
    proof (cases "?w = - 1")
      case False
      then have "NOT ?w \<noteq> 0" by (metis bit.double_compl bit.compl_zero)
      from trailing_zeros_first(1,2) [OF this]
      have "?b < 64" "\<not> bit ?w ?b" by (simp_all add: bit_simps)
      then have "\<not> page_bit a (w * 64 + ?b)" by (simp add: page_bit_def)
      then have "unat (total_pages a) \<le> w * 64 + ?b" using all not_less by blast
      then show ?thesis using Cons.prems False by (simp add: Let_def)
    qed (use Cons in simp)
  qed simp
  show ?thesis
    unfolding alloc_def by (rule scan) (use words_used_le [OF wf] in simp)
qed

lemma alloc_cases:
  assumes "wf_alloc a"
  obtains (full) "alloc a = Some (Inl OutOfMemory, a)" "live_pages a = pool a"
  | (page) i where "i < unat (total_pages a)" "\<not> page_bit a i" "\<And>j. j < i \<Longrightarrow> page_bit a j"
      "alloc a = Some (Inr (page_addr a i), set_page a i)"
proof (cases "\<forall>i < unat (total_pages a). page_bit a i")
  case True
  have "live_pages a = pool a" using True by (auto simp: live_pages_def live_idx_def pool_def)
  with True alloc_full [OF assms] show ?thesis using full by blast
next
  case False
  define i where "i = (LEAST i. \<not> page_bit a i)"
  from False obtain k where k: "k < unat (total_pages a)" "\<not> page_bit a k" by blast
  have ni: "\<not> page_bit a i" unfolding i_def using k(2) by (rule LeastI)
  have "i \<le> k" unfolding i_def using k(2) by (rule Least_le)
  then have i: "i < unat (total_pages a)" using k(1) by simp
  have l: "page_bit a j" if "j < i" for j using that not_less_Least [of j] by (auto simp: i_def)
  show ?thesis using page [OF i ni l] alloc_least [OF assms i ni l] by blast
qed

section \<open>Counting\<close>

lemma card_bits_below:
  "card {i. i < 64 * Suc n \<and> page_bit a i} =
     card {i. i < 64 * n \<and> page_bit a i} + card {b. b < 64 \<and> bit (bitmap a ! n) b}"
proof -
  let ?L = "{i. i < 64 * n \<and> page_bit a i}"
    and ?B = "{b. b < 64 \<and> bit (bitmap a ! n) b}"
  have "{i. i < 64 * Suc n \<and> page_bit a i} = ?L \<union> (\<lambda>b. 64 * n + b) ` ?B"
  proof (rule set_eqI, rule iffI)
    fix i assume "i \<in> {i. i < 64 * Suc n \<and> page_bit a i}"
    then have i: "i < 64 * Suc n" "page_bit a i" by auto
    show "i \<in> ?L \<union> (\<lambda>b. 64 * n + b) ` ?B"
    proof (cases "i < 64 * n")
      case False
      then have d1: "i div 64 = n" using i(1) by auto
      then have d: "i div 64 = n" "i mod 64 = i - 64 * n" by (auto simp: minus_mult_div_eq_mod)
      then have "i - 64 * n \<in> ?B" using i by (simp add: page_bit_def)
      then show ?thesis using False by (intro UnI2 image_eqI [of _ _ "i - 64 * n"]) simp_all
    qed (use i in simp)
  qed (auto simp: page_bit_def)
  moreover have "?L \<inter> (\<lambda>b. 64 * n + b) ` ?B = {}" by auto
  ultimately show ?thesis
    by (simp add: card_Un_disjoint card_image inj_on_def)
qed

lemma count_scan_append:
  "count_scan a (xs @ ys) c = do { d \<leftarrow> count_scan a xs c; count_scan a ys d }"
  by (induction xs arbitrary: c) (auto split: bind_splits)

lemma count_scan_card:
  "n \<le> length (bitmap a) \<Longrightarrow>
     count_scan a [0..<n] 0 = Some (of_nat (card {i. i < 64 * n \<and> page_bit a i}))"
proof (induction n)
  case (Suc n)
  then have "count_scan a [0..<n] 0 = Some (of_nat (card {i. i < 64 * n \<and> page_bit a i}))" by simp
  then show ?case
    unfolding card_bits_below using Suc.prems
    by (simp add: count_scan_append count_ones_card)
qed simp

lemma allocated_count_card:
  assumes "wf_alloc a"
  shows "allocated_count a = Some (of_nat (card (live_idx a)))"
proof -
  have "64 * words_used a \<le> 32768" and "unat (total_pages a) \<le> 64 * words_used a"
    using wf_allocD(4) [OF assms] by (auto simp: words_used_eq [OF assms])
  then have "{i. i < 64 * words_used a \<and> page_bit a i} = live_idx a"
    using wf_allocD(6) [OF assms] unfolding live_idx_def
    by (metis (mono_tags, lifting) less_le_trans not_less)
  then show ?thesis
    by (simp add: allocated_count_def count_scan_card words_used_le [OF assms])
qed

lemma card_live_idx_le: "card (live_idx a) \<le> unat (total_pages a)"
proof -
  have "live_idx a \<subseteq> {..<unat (total_pages a)}" by (auto simp: live_idx_def)
  from card_mono [OF _ this] show ?thesis by simp
qed

lemma unat_allocated_count:
  assumes "wf_alloc a"
  shows "unat (of_nat (card (live_idx a)) :: usize) = card (live_idx a)"
  using wf_allocD(4) [OF assms] card_live_idx_le [of a] by (intro unat_of_nat_small) simp

lemma card_live_pages: "wf_alloc a \<Longrightarrow> card (live_pages a) = card (live_idx a)"
  unfolding live_pages_def
  by (rule card_image) (auto simp: inj_on_def live_idx_def page_addr_inj)

section \<open>The contract of a page pool\<close>

text \<open>
  What the virtual memory code and the memory system calls rely on: an allocation returns a
  page of the pool that was not live and makes it live, a release is accepted exactly for a
  live page, and an error leaves the pool as it was.
\<close>

locale page_pool =
  fixes inv :: "'s \<Rightarrow> bool"
    and pages :: "'s \<Rightarrow> usize set"
    and live :: "'s \<Rightarrow> usize set"
    and get :: "'s \<Rightarrow> ((alloc_error + usize) \<times> 's) option"
    and put :: "'s \<Rightarrow> usize \<Rightarrow> ((alloc_error + unit) \<times> 's) option"
  assumes get_total: "inv s \<Longrightarrow> get s \<noteq> None"
    and get_page: "inv s \<Longrightarrow> get s = Some (Inr p, s') \<Longrightarrow>
      inv s' \<and> p \<in> pages s - live s \<and> live s' = insert p (live s) \<and> pages s' = pages s"
    and get_full: "inv s \<Longrightarrow> get s = Some (Inl e, s') \<Longrightarrow> e = OutOfMemory \<and> s' = s \<and> live s = pages s"
    and put_total: "inv s \<Longrightarrow> put s p \<noteq> None"
    and put_page: "inv s \<Longrightarrow> put s p = Some (Inr u, s') \<Longrightarrow>
      inv s' \<and> p \<in> live s \<and> live s' = live s - {p} \<and> pages s' = pages s"
    and put_error: "inv s \<Longrightarrow> put s p = Some (Inl e, s') \<Longrightarrow> s' = s \<and> p \<notin> live s"
    and live_pages: "inv s \<Longrightarrow> live s \<subseteq> pages s"
    and finite_pages: "inv s \<Longrightarrow> finite (pages s)"

text \<open>\<open>n\<close> allocations in a row; \<open>None\<close> if one of them fails.\<close>

fun alloc_many ::
  "('s \<Rightarrow> ((alloc_error + usize) \<times> 's) option) \<Rightarrow> nat \<Rightarrow> 's \<Rightarrow> (usize list \<times> 's) option" where
  "alloc_many get 0 s = Some ([], s)"
| "alloc_many get (Suc n) s =
     (case get s of
        Some (Inr p, s') \<Rightarrow> (case alloc_many get n s' of Some (ps, t) \<Rightarrow> Some (p # ps, t) | None \<Rightarrow> None)
      | _ \<Rightarrow> None)"

context page_pool
begin

lemma get_put_live:
  assumes "inv s" "get s = Some (Inr p, s')" "put s' p = Some (r, t)"
  shows "r = Inr () \<and> live t = live s"
  using get_page [OF assms(1,2)] put_error [of s' p _ t] put_page [of s' p _ t] assms(3)
  by (cases r) auto

lemma alloc_many_distinct:
  "inv s \<Longrightarrow> alloc_many get n s = Some (ps, t) \<Longrightarrow>
     inv t \<and> length ps = n \<and> distinct ps \<and> set ps \<subseteq> pages s - live s \<and>
     live t = live s \<union> set ps \<and> pages t = pages s"
proof (induction n arbitrary: s ps)
  case (Suc n)
  from Suc.prems(2) obtain p s' qs where p: "get s = Some (Inr p, s')"
    and qs: "alloc_many get n s' = Some (qs, t)" "ps = p # qs"
    by (auto split: option.splits sum.splits)
  have step: "inv s' \<and> p \<in> pages s - live s \<and> live s' = insert p (live s) \<and> pages s' = pages s"
    using get_page [OF Suc.prems(1) p] .
  with Suc.IH [of s' qs] qs show ?case by auto
qed simp

lemma alloc_many_succeeds:
  "inv s \<Longrightarrow> n \<le> card (pages s - live s) \<Longrightarrow> \<exists>ps t. alloc_many get n s = Some (ps, t)"
proof (induction n arbitrary: s)
  case (Suc n)
  have "pages s - live s \<noteq> {}" using Suc.prems(2) by (metis card.empty not_less_eq_eq zero_le)
  then obtain p s' where p: "get s = Some (Inr p, s')"
    using get_total [OF Suc.prems(1)] get_full [OF Suc.prems(1)]
    by (metis Diff_cancel not_Some_eq old.sum.exhaust surj_pair)
  note g = get_page [OF Suc.prems(1) p]
  have "pages s' - live s' = (pages s - live s) - {p}" using g by auto
  then have "n \<le> card (pages s' - live s')"
    using g Suc.prems(2) finite_pages [OF Suc.prems(1)] by (simp add: card_Diff_singleton)
  with Suc.IH g obtain ps t where "alloc_many get n s' = Some (ps, t)" by blast
  with p show ?case by simp
qed simp

end

lemma live_pages_finite: "finite (pool a)"
  by (simp add: pool_def)

lemma pool_index: "p \<in> pool a \<Longrightarrow> \<exists>i < unat (total_pages a). p = page_addr a i"
  by (auto simp: pool_def)

lemma free_spec:
  assumes wf: "wf_alloc a"
  shows "free a p = Some
      (if p \<in> live_pages a
       then (Inr (), clear_page a ((unat p - unat (base_addr a)) div 4096))
       else (Inl (if p mod PAGE_SIZE \<noteq> 0 then NotAligned
                  else if p \<in> pool a then DoubleFree else InvalidAddress), a))"
proof (cases "p \<in> pool a")
  case True
  then obtain i where "i < unat (total_pages a)" "p = page_addr a i" using pool_index by blast
  then show ?thesis
    using wf page_addr_aligned [OF wf] True
    by (auto simp: free_page live_pages_iff unat_page_addr)
next
  case False
  then have "p \<notin> live_pages a" using live_subset_pool by blast
  then show ?thesis using False wf by (simp add: free_unaligned free_outside)
qed

lemma free_live:
  assumes wf: "wf_alloc a" and l: "p \<in> live_pages a" and "free a p = Some (r, a')"
  shows "wf_alloc a' \<and> live_pages a' = live_pages a - {p} \<and> pool a' = pool a"
proof -
  obtain i where "i < unat (total_pages a)" "p = page_addr a i"
    using l pool_index live_subset_pool by blast
  then show ?thesis
    using assms by (auto simp: free_page live_pages_iff wf_clear_page live_clear_page)
qed

lemma alloc_page:
  assumes wf: "wf_alloc a" and "alloc a = Some (Inr p, a')"
  shows "wf_alloc a'" "p \<in> pool a" "p \<notin> live_pages a" "live_pages a' = insert p (live_pages a)"
    "pool a' = pool a" "\<And>q. q \<in> pool a - live_pages a \<Longrightarrow> p \<le> q"
proof -
  from wf obtain i where i: "i < unat (total_pages a)" "\<not> page_bit a i" "\<And>j. j < i \<Longrightarrow> page_bit a j"
    and pa: "p = page_addr a i" "a' = set_page a i"
    by (cases rule: alloc_cases) (use assms(2) in auto)
  show "wf_alloc a'" "p \<in> pool a" "p \<notin> live_pages a" "live_pages a' = insert p (live_pages a)"
    "pool a' = pool a"
    using i(1,2) wf by (simp_all add: pa live_pages_iff wf_set_page live_set_page) (simp add: pool_def)
  show "p \<le> q" if "q \<in> pool a - live_pages a" for q
  proof -
    from that obtain j where j: "j < unat (total_pages a)" "q = page_addr a j" "\<not> page_bit a j"
      using wf by (auto simp: pool_def live_pages_iff)
    then have "i \<le> j" using i(3) not_less by blast
    then show ?thesis
      using unat_page_addr [OF wf i(1)] unat_page_addr [OF wf j(1)]
      by (simp add: pa j(2) word_le_nat_alt)
  qed
qed

interpretation bitmap_pool: page_pool wf_alloc pool live_pages alloc free
proof
  fix a :: bitmap_allocator and p e u a'
  assume wf: "wf_alloc a"
  show "alloc a \<noteq> None" using wf by (cases rule: alloc_cases) auto
  show "wf_alloc a' \<and> p \<in> pool a - live_pages a \<and> live_pages a' = insert p (live_pages a) \<and> pool a' = pool a"
    if "alloc a = Some (Inr p, a')"
    using alloc_page [OF wf that] by blast
  show "e = OutOfMemory \<and> a' = a \<and> live_pages a = pool a" if "alloc a = Some (Inl e, a')"
    using wf by (cases rule: alloc_cases) (use that in auto)
  show "free a p \<noteq> None" by (simp add: free_spec [OF wf])
  show "wf_alloc a' \<and> p \<in> live_pages a \<and> live_pages a' = live_pages a - {p} \<and> pool a' = pool a"
    if "free a p = Some (Inr u, a')"
    using that free_live [OF wf _ that] by (auto simp: free_spec [OF wf] split: if_splits)
  show "a' = a \<and> p \<notin> live_pages a" if "free a p = Some (Inl e, a')"
    using that by (auto simp: free_spec [OF wf] split: if_splits)
  show "live_pages a \<subseteq> pool a" by (rule live_subset_pool)
  show "finite (pool a)" by (rule live_pages_finite)
qed

lemma wf_new_allocator:
  assumes "base mod PAGE_SIZE = 0" "0 < unat n" "unat n \<le> MAX_PAGES" "unat base + unat n * 4096 < 2 ^ 64"
  shows "wf_alloc (new_allocator base n)" "live_pages (new_allocator base n) = {}"
    "\<And>i. i < MAX_PAGES \<Longrightarrow> \<not> page_bit (new_allocator base n) i"
proof -
  have z: "\<not> page_bit (new_allocator base n) i" if "i < MAX_PAGES" for i
    using that by (simp add: page_bit_def new_allocator_def size_defs)
  then show "\<And>i. i < MAX_PAGES \<Longrightarrow> \<not> page_bit (new_allocator base n) i" .
  show "wf_alloc (new_allocator base n)"
    using assms z by (simp add: wf_alloc_def) (simp add: new_allocator_def)
  show "live_pages (new_allocator base n) = {}"
    using z assms(3) by (auto simp: live_pages_def live_idx_def) (simp add: new_allocator_def)
qed

section \<open>The boot self-test\<close>

text \<open>The states the self-test goes through on an empty allocator with at least two pages.\<close>

lemma two_page_run:
  assumes wf: "wf_alloc a" and nb: "\<And>i. i < MAX_PAGES \<Longrightarrow> \<not> page_bit a i"
    and two: "2 \<le> unat (total_pages a)"
  defines "a1 \<equiv> set_page a 0" and "a6 \<equiv> set_page (set_page a 0) 1"
    and "a7 \<equiv> clear_page (set_page (set_page a 0) 1) 0"
    and "a8 \<equiv> clear_page (clear_page (set_page (set_page a 0) 1) 0) 1"
  shows "wf_alloc a1" "wf_alloc a8" "live_idx a8 = {}" "live_idx a = {}"
    "alloc a = Some (Inr (page_addr a 0), a1)" "alloc a1 = Some (Inr (page_addr a 1), a6)"
    "free a1 (page_addr a 0) = Some (Inr (), a)" "free a (page_addr a 0) = Some (Inl DoubleFree, a)"
    "free a6 (page_addr a 0) = Some (Inr (), a7)" "free a7 (page_addr a 1) = Some (Inr (), a8)"
    "is_allocated a1 (page_addr a 0) = Some True" "is_allocated a (page_addr a 0) = Some False"
proof -
  have t: "0 < unat (total_pages a)" "1 < unat (total_pages a)" using two by simp_all
  have pb: "\<not> page_bit a 0" "\<not> page_bit a 1" using nb by (simp_all add: MAX_PAGES_def)
  have wf6: "wf_alloc a6" and wf7: "wf_alloc a7"
    using wf t by (simp_all add: a6_def a7_def wf_set_page wf_clear_page)
  show wf1: "wf_alloc a1" and "wf_alloc a8"
    using wf t by (simp_all add: a1_def a8_def wf_set_page wf_clear_page)
  have pbs: "page_bit a1 j = (j = 0 \<or> page_bit a j)" "page_bit a6 j = (j = 1 \<or> j = 0 \<or> page_bit a j)"
    "page_bit a7 j = (j \<noteq> 0 \<and> (j = 1 \<or> page_bit a j))"
    "page_bit a8 j = (j \<noteq> 1 \<and> j \<noteq> 0 \<and> page_bit a j)" for j
    using wf_allocD(1) [OF wf]
    by (auto simp: a1_def a6_def a7_def a8_def page_bit_set_page page_bit_clear_page)
  have tot: "total_pages a1 = total_pages a" "total_pages a6 = total_pages a"
    "total_pages a7 = total_pages a" "total_pages a8 = total_pages a"
    by (simp_all add: a1_def a6_def a7_def a8_def)
  have addr: "page_addr a1 = page_addr a" "page_addr a6 = page_addr a" "page_addr a7 = page_addr a"
    by (simp_all add: a1_def a6_def a7_def page_addr_def [abs_def])
  show "live_idx a8 = {}" "live_idx a = {}"
    using nb wf_allocD(4) [OF wf] by (auto simp: live_idx_def pbs tot MAX_PAGES_def)
  show "alloc a = Some (Inr (page_addr a 0), a1)"
    unfolding a1_def by (rule alloc_least [OF wf t(1) pb(1)]) simp
  show "alloc a1 = Some (Inr (page_addr a 1), a6)"
    using alloc_least [OF wf1, of 1] t pb by (simp add: pbs addr tot) (simp add: a1_def a6_def)
  show "free a1 (page_addr a 0) = Some (Inr (), a)" "free a (page_addr a 0) = Some (Inl DoubleFree, a)"
    using free_page [OF wf1, of 0] free_page [OF wf t(1)] t pb wf_idx_bound [OF wf t(1)]
    by (simp_all add: pbs addr tot) (simp add: a1_def set_clear_page)
  show "free a6 (page_addr a 0) = Some (Inr (), a7)" "free a7 (page_addr a 1) = Some (Inr (), a8)"
    using free_page [OF wf6, of 0] free_page [OF wf7, of 1] t
    by (simp_all add: pbs addr tot) (simp_all add: a6_def a7_def a8_def)
  show "is_allocated a1 (page_addr a 0) = Some True" "is_allocated a (page_addr a 0) = Some False"
    using is_allocated_page [OF wf1, of 0] is_allocated_page [OF wf t(1)] t pb
    by (simp_all add: pbs addr tot)
qed

lemma init_allocator_new:
  assumes "init_allocator free_start free_end = Some a"
  shows "a = new_allocator (base_addr a) (total_pages a)" "base_addr a mod PAGE_SIZE = 0"
    "unat (total_pages a) \<le> MAX_PAGES"
  using assms
  by (auto simp: word_mod_eq_0_iff init_allocator_def init_checks_def new_allocator_def Let_def
      split: bind_splits)

section \<open>Properties\<close>

text \<open>
  C9. \<open>alloc\<close> on a well-formed bitmap never panics.  It either reports \<open>OutOfMemory\<close>, exactly
  when every page is live, and changes nothing; or it returns the lowest free page of the
  pool, page aligned, and afterwards the live pages are the old ones and that page.
\<close>

theorem alloc_refines:
  assumes "wf_alloc a"
  shows "(live_pages a = pool a \<and> alloc a = Some (Inl OutOfMemory, a)) \<or>
    (\<exists>p a'. alloc a = Some (Inr p, a') \<and> p \<in> pool a - live_pages a \<and> p mod PAGE_SIZE = 0 \<and>
       (\<forall>q. q \<in> pool a - live_pages a \<longrightarrow> p \<le> q) \<and>
       wf_alloc a' \<and> live_pages a' = insert p (live_pages a) \<and> pool a' = pool a)"
  using assms
proof (cases rule: alloc_cases)
  case (page i)
  then show ?thesis
    using alloc_page [OF assms page(4)] pool_aligned [OF assms] by blast
qed blast

theorem alloc_refines_witness:
  "wf_alloc (new_allocator 0x80300000 256) \<and>
   (\<exists>p a'. alloc (new_allocator 0x80300000 256) = Some (Inr p, a') \<and> wf_alloc a' \<and> live_pages a' = {p})"
proof -
  let ?a = "new_allocator 0x80300000 256"
  have wf: "wf_alloc ?a" and l: "live_pages ?a = {}"
    by (rule wf_new_allocator; simp add: size_defs)+
  have "page_addr ?a 0 \<in> pool ?a" unfolding pool_def by (rule imageI) (simp add: new_allocator_def)
  then have "pool ?a \<noteq> {}" by blast
  with alloc_refines [OF wf] wf l show ?thesis by auto
qed

text \<open>
  C10. \<open>free\<close> never panics and reports every misuse: an unaligned address, an address outside
  the pool and a page that is not live are three different errors and change nothing; a live
  page is released and stops being live.
\<close>

theorem free_refines:
  assumes "wf_alloc a"
  shows "\<exists>r a'. free a p = Some (r, a') \<and> wf_alloc a' \<and> pool a' = pool a \<and>
    (r = Inr () \<longleftrightarrow> p \<in> live_pages a) \<and>
    (r = Inl NotAligned \<longleftrightarrow> p mod PAGE_SIZE \<noteq> 0) \<and>
    (r = Inl InvalidAddress \<longleftrightarrow> p mod PAGE_SIZE = 0 \<and> p \<notin> pool a) \<and>
    (r = Inl DoubleFree \<longleftrightarrow> p \<in> pool a \<and> p \<notin> live_pages a) \<and>
    live_pages a' = live_pages a - {p} \<and> (r \<noteq> Inr () \<longrightarrow> a' = a)"
proof (cases "p \<in> live_pages a")
  case True
  then have "p \<in> pool a" using live_subset_pool by blast
  moreover from this have "p mod PAGE_SIZE = 0" by (rule pool_aligned [OF assms])
  moreover obtain a' where f: "free a p = Some (Inr (), a')"
    using True by (simp add: free_spec [OF assms])
  ultimately show ?thesis
    using True free_live [OF assms True f] by (intro exI [of _ "Inr ()"] exI [of _ a']) simp
next
  case False
  then show ?thesis
    using assms pool_aligned [OF assms] by (auto simp: free_spec [OF assms])
qed

theorem free_refines_witness:
  "free (new_allocator 0x80300000 256) 0x80301000 = Some (Inl DoubleFree, new_allocator 0x80300000 256)"
proof -
  let ?a = "new_allocator 0x80300000 256"
  have wf: "wf_alloc ?a" and l: "live_pages ?a = {}"
    by (rule wf_new_allocator; simp add: size_defs)+
  have "0x80301000 = page_addr ?a 1" by (simp add: page_addr_def new_allocator_def PAGE_SIZE_def)
  then have "0x80301000 \<in> pool ?a" unfolding pool_def by (auto simp: new_allocator_def)
  with free_refines [OF wf, where p = "0x80301000"] l show ?thesis by auto
qed

lemma counts_card:
  assumes "wf_alloc a"
  shows "allocated_count a = Some (of_nat (card (live_pages a)))"
    "free_count a = Some (total_pages a - of_nat (card (live_pages a)))"
    "unat (of_nat (card (live_pages a)) :: usize) = card (live_pages a)"
    "card (live_pages a) \<le> unat (total_pages a)"
  using allocated_count_card [OF assms] unat_allocated_count [OF assms] card_live_idx_le [of a]
  by (simp_all add: free_count_def card_live_pages [OF assms])

lemma card_pool: "wf_alloc a \<Longrightarrow> card (pool a) = unat (total_pages a)"
  unfolding pool_def using card_image [of "page_addr a" "{i. i < unat (total_pages a)}"]
  by (simp add: inj_on_def page_addr_inj lessThan_def)

lemma live_finite: "finite (live_pages a)"
  using live_subset_pool live_pages_finite by (rule finite_subset)

lemma alloc_counts:
  assumes "wf_alloc a"
  defines "n \<equiv> of_nat (card (live_pages a)) :: usize"
  shows "case alloc a of
     Some (Inr p, a') \<Rightarrow> allocated_count a' = Some (n + 1) \<and>
       free_count a' = Some (total_pages a - n - 1) \<and> total_pages a - n \<noteq> 0
   | Some (Inl e, a') \<Rightarrow> total_pages a - n = 0 \<and> a' = a
   | None \<Rightarrow> False"
  using assms(1)
proof (cases rule: alloc_cases)
  case full
  then show ?thesis using card_pool [OF assms(1)] by (simp add: n_def)
next
  case (page i)
  note pg = alloc_page [OF assms(1) page(4)]
  have "card (live_pages (set_page a i)) = Suc (card (live_pages a))"
    using pg(3,4) live_finite by simp
  moreover from this have "card (live_pages a) < unat (total_pages a)"
    using counts_card(4) [OF pg(1)] by simp
  then have "n \<noteq> total_pages a" using counts_card(3) [OF assms(1)] by (auto simp: n_def)
  ultimately show ?thesis
    using counts_card(1,2) [OF pg(1)] by (simp add: page(4) n_def algebra_simps)
qed

lemma free_counts:
  assumes "wf_alloc a"
  defines "n \<equiv> of_nat (card (live_pages a)) :: usize"
  shows "case free a p of
     Some (Inr u, a') \<Rightarrow> allocated_count a' = Some (n - 1) \<and>
       free_count a' = Some (total_pages a - n + 1) \<and> n \<noteq> 0 \<and> p \<in> live_pages a
   | Some (Inl e, a') \<Rightarrow> p \<notin> live_pages a \<and> a' = a
   | None \<Rightarrow> False"
proof (cases "p \<in> live_pages a")
  case True
  then obtain a' where f: "free a p = Some (Inr (), a')" and t: "total_pages a' = total_pages a"
    by (simp add: free_spec [OF assms(1)])
  note fl = free_live [OF assms(1) True f]
  have pos: "0 < card (live_pages a)" using True live_finite card_gt_0_iff by blast
  then have "of_nat (card (live_pages a')) = n - 1"
    using fl True live_finite by (simp add: n_def of_nat_diff Suc_leI)
  moreover have "n \<noteq> 0" using pos counts_card(3) [OF assms(1)] unfolding n_def by (metis unat_0 less_numeral_extra(3))
  ultimately show ?thesis
    using counts_card(1,2) [of a'] fl f t True by (simp add: n_def)
qed (simp add: free_spec [OF assms(1)])

text \<open>
  C11. Conservation: the two counters never panic, count the live pages and the others, and
  always add up to the number of pages.  A successful allocation moves exactly one page from
  free to allocated and a failed one finds the free counter at zero; a release succeeds exactly
  for a live page and moves exactly one page back, and a refused release leaves the allocator
  as it was.  Neither operation panics.
\<close>

theorem page_conservation:
  assumes "wf_alloc a"
  shows "\<exists>n f. allocated_count a = Some n \<and> free_count a = Some f \<and>
    unat n + unat f = unat (total_pages a) \<and> unat n = card (live_pages a) \<and>
    (case alloc a of
       Some (Inr p, a') \<Rightarrow> allocated_count a' = Some (n + 1) \<and> free_count a' = Some (f - 1) \<and> f \<noteq> 0
     | Some (Inl e, a') \<Rightarrow> f = 0 \<and> a' = a
     | None \<Rightarrow> False) \<and>
    (\<forall>p. case free a p of
       Some (Inr u, a') \<Rightarrow> allocated_count a' = Some (n - 1) \<and> free_count a' = Some (f + 1) \<and>
         n \<noteq> 0 \<and> p \<in> live_pages a
     | Some (Inl e, a') \<Rightarrow> p \<notin> live_pages a \<and> a' = a
     | None \<Rightarrow> False)"
proof -
  let ?n = "of_nat (card (live_pages a)) :: usize"
  note c = counts_card [OF assms]
  have le: "?n \<le> total_pages a" using c(3,4) by (simp add: word_le_nat_alt)
  then have s: "unat ?n + unat (total_pages a - ?n) = unat (total_pages a)"
    by (simp add: unat_sub word_le_nat_alt)
  show ?thesis
    using c(1-3) s alloc_counts [OF assms] free_counts [OF assms] by (intro exI [of _ ?n] exI [of _ "total_pages a - ?n"]) simp
qed

theorem page_conservation_witness:
  "\<exists>n f. allocated_count (new_allocator 0x80300000 256) = Some n \<and>
     free_count (new_allocator 0x80300000 256) = Some f \<and> unat n + unat f = 256 \<and>
     (\<exists>p a'. alloc (new_allocator 0x80300000 256) = Some (Inr p, a') \<and>
        allocated_count a' = Some (n + 1) \<and> free_count a' = Some (f - 1))"
proof -
  let ?a = "new_allocator 0x80300000 256"
  have wf: "wf_alloc ?a" and nb: "\<not> page_bit ?a 0"
    by (rule wf_new_allocator; simp add: size_defs)+
  have "alloc ?a = Some (Inr (page_addr ?a 0), set_page ?a 0)"
    using alloc_least [OF wf _ nb] by (simp add: new_allocator_def)
  with page_conservation [OF wf] show ?thesis by (auto simp: new_allocator_def)
qed

text \<open>
  Allocating a page and freeing it gives back the very same allocator state, and the next
  free of that page is rejected as a double free.
\<close>

theorem alloc_free_roundtrip:
  assumes "wf_alloc a" "alloc a = Some (Inr p, a')"
  shows "free a' p = Some (Inr (), a) \<and> free a p = Some (Inl DoubleFree, a)"
proof -
  from assms(1) obtain i where i: "i < unat (total_pages a)" "\<not> page_bit a i"
    and pa: "p = page_addr a i" "a' = set_page a i"
    by (cases rule: alloc_cases) (use assms(2) in auto)
  have "page_addr a i = page_addr a' i" by (simp add: pa(2) page_addr_def)
  then show ?thesis
    using i assms(1) free_page [of a' i] free_page [of a i]
    by (simp add: pa wf_set_page page_bit_set_page wf_idx_bound set_clear_page)
qed

theorem alloc_free_roundtrip_witness:
  "free (set_page (new_allocator 0x80300000 256) 0) 0x80300000 = Some (Inr (), new_allocator 0x80300000 256)"
proof -
  let ?a = "new_allocator 0x80300000 256"
  have wf: "wf_alloc ?a" by (rule wf_new_allocator) (simp_all add: size_defs)
  have nb: "\<not> page_bit ?a 0" by (rule wf_new_allocator) (simp_all add: size_defs)
  have "alloc ?a = Some (Inr 0x80300000, set_page ?a 0)"
    using alloc_least [OF wf _ nb] by (simp add: new_allocator_def page_addr_def)
  from alloc_free_roundtrip [OF wf this] show ?thesis by blast
qed

text \<open>
  Liveness of the pool: from any state, as many allocations succeed as there are free
  pages, they return pairwise different pages that were free, and after all of them the
  allocator reports \<open>OutOfMemory\<close>.
\<close>

theorem alloc_exhausts_pool:
  assumes "wf_alloc a"
  shows "\<exists>ps a'. alloc_many alloc (card (pool a - live_pages a)) a = Some (ps, a') \<and>
    distinct ps \<and> set ps = pool a - live_pages a \<and> alloc a' = Some (Inl OutOfMemory, a')"
proof -
  let ?n = "card (pool a - live_pages a)"
  obtain ps a' where m: "alloc_many alloc ?n a = Some (ps, a')"
    using bitmap_pool.alloc_many_succeeds [OF assms order_refl] by blast
  note d = bitmap_pool.alloc_many_distinct [OF assms m]
  have s: "set ps = pool a - live_pages a"
    using d by (intro card_subset_eq) (auto simp: distinct_card live_pages_finite)
  have "live_pages a' = pool a'" using d s live_subset_pool [of a] by auto
  moreover have "wf_alloc a'" using d by blast
  ultimately have "alloc a' = Some (Inl OutOfMemory, a')"
    by (metis Diff_cancel alloc_cases bitmap_pool.get_page empty_iff)
  then show ?thesis using m d s by blast
qed

theorem alloc_exhausts_pool_witness:
  "\<exists>ps a'. alloc_many alloc 4 (new_allocator 0x80300000 4) = Some (ps, a') \<and> distinct ps \<and>
     alloc a' = Some (Inl OutOfMemory, a')"
proof -
  let ?a = "new_allocator 0x80300000 4"
  have wf: "wf_alloc ?a" and l: "live_pages ?a = {}"
    by (rule wf_new_allocator; simp add: size_defs)+
  have "card (pool ?a) = card {i. i < unat (total_pages ?a)}"
    unfolding pool_def by (rule card_image) (simp add: inj_on_def page_addr_inj wf)
  moreover have "unat (total_pages ?a) = 4" by (simp add: new_allocator_def)
  ultimately have "card (pool ?a - live_pages ?a) = 4" by (simp add: l)
  with alloc_exhausts_pool [OF wf] show ?thesis by auto
qed

text \<open>
  The boot self-test: on every freshly initialised allocator with at least two pages and a
  region that does not start at address 0, none of its assertions fails and it leaves every
  page free again.
\<close>

theorem self_test_passes:
  assumes ini: "init_allocator free_start free_end = Some a"
    and two: "2 \<le> unat (total_pages a)" and base: "0 < base_addr a"
    and top: "unat (base_addr a) + unat (total_pages a) * 4096 < 2 ^ 64"
  shows "\<exists>a'. self_test a = Some a' \<and> wf_alloc a' \<and> live_pages a' = {} \<and> pool a' = pool a"
proof -
  note new = init_allocator_new [OF ini]
  have wf: "wf_alloc a" and nb: "\<And>i. i < MAX_PAGES \<Longrightarrow> \<not> page_bit a i"
    using wf_new_allocator(1,3) [OF new(2) _ new(3) top] two new(1) by simp_all
  have t: "0 < unat (total_pages a)" "1 < unat (total_pages a)" using two by simp_all
  let ?a1 = "set_page a 0" and ?a8 = "clear_page (clear_page (set_page (set_page a 0) 1) 0) 1"
  note run = two_page_run [OF wf nb two]
  have cnt: "allocated_count a = Some 0" "allocated_count ?a8 = Some 0"
    using allocated_count_card [OF wf] allocated_count_card [OF run(2)] run(3,4) by simp_all
  obtain n1 where n1: "allocated_count ?a1 = Some n1" using allocated_count_card [OF run(1)] by simp
  have bad: "free ?a8 0xDEAD = Some (Inl NotAligned, ?a8)" "free ?a8 0 = Some (Inl InvalidAddress, ?a8)"
    using base by (simp_all add: free_def PAGE_SIZE_def)
  have ord: "base_addr a \<le> page_addr a 0" "page_addr a 0 \<noteq> page_addr a 1"
    "page_addr a 1 = page_addr a 0 + PAGE_SIZE" "page_addr a 0 mod PAGE_SIZE = 0"
    using page_addr_in_range(1) [OF wf t(1)] page_addr_inj [OF wf t] page_addr_aligned [OF wf t(1)]
    by (auto simp: not_less) (simp add: page_addr_def)
  have "self_test a = Some ?a8"
    unfolding self_test_def expect_page_def expect_done_def
    using ord(1,2,4) by (simp add: ord(3) [symmetric] run cnt n1 bad free_count_def del: One_nat_def)
  moreover have "pool ?a8 = pool a" by (simp add: pool_def page_addr_def set_page_def clear_page_def)
  ultimately show ?thesis using run(2,3) by (simp add: live_pages_def)
qed

theorem self_test_passes_witness:
  "\<exists>a'. self_test (new_allocator 0x80300000 16) = Some a' \<and> wf_alloc a' \<and> live_pages a' = {}"
proof -
  have "init_allocator 0x80300000 0x80310000 = Some (new_allocator 0x80300000 16)"
    by (simp add: init_allocator_def init_checks_def new_allocator_def size_defs)
  from self_test_passes [OF this] show ?thesis by (auto simp: new_allocator_def)
qed

end
