(* ===== verification/Page_Table.thy ===== *)
theory Page_Table
  imports Prelude Page_Alloc
begin

unbundle bit_operations_syntax

text \<open>
  The Sv39 page-table data of \<open>page_table.rs\<close>: flag sets, page-table entries, virtual
  address decomposition, the \<open>satp\<close> value and the pure page walk.  \<open>PteFlags\<close> and \<open>Pte\<close> are
  transparent newtypes over \<open>u64\<close> in the source and 64-bit words here.

  The lemmas are the round trips of the encodings, the permission sets' W\<open>^\<close>X discipline and
  a characterisation of the walk as three table look-ups, which the memory theory builds on.  The
  last section compares the walk with the translation algorithm of the architecture, written
  independently on natural numbers.
\<close>

section \<open>Flags\<close>

type_synonym pte_flags = u64
type_synonym pte = u64

definition PT_ENTRIES :: usize where
  "PT_ENTRIES = 512"

definition PTE_NONE :: pte_flags where "PTE_NONE = 0"
definition PTE_VALID :: pte_flags where "PTE_VALID = push_bit 0 1"
definition PTE_READ :: pte_flags where "PTE_READ = push_bit 1 1"
definition PTE_WRITE :: pte_flags where "PTE_WRITE = push_bit 2 1"
definition PTE_EXECUTE :: pte_flags where "PTE_EXECUTE = push_bit 3 1"
definition PTE_USER :: pte_flags where "PTE_USER = push_bit 4 1"
definition PTE_GLOBAL :: pte_flags where "PTE_GLOBAL = push_bit 5 1"
definition PTE_ACCESS :: pte_flags where "PTE_ACCESS = push_bit 6 1"
definition PTE_DIRTY :: pte_flags where "PTE_DIRTY = push_bit 7 1"

definition flags_union :: "pte_flags \<Rightarrow> pte_flags \<Rightarrow> pte_flags" where
  "flags_union f g = f OR g"

definition flags_contains :: "pte_flags \<Rightarrow> pte_flags \<Rightarrow> bool" where
  "flags_contains f other \<longleftrightarrow> f AND other = other"

definition flags_from_bits :: "u64 \<Rightarrow> pte_flags" where
  "flags_from_bits bits = bits AND 0x3FF"

definition flags_is_leaf :: "pte_flags \<Rightarrow> bool" where
  "flags_is_leaf f \<longleftrightarrow> f AND (PTE_READ OR PTE_WRITE OR PTE_EXECUTE) \<noteq> 0"

definition KERNEL_RX :: pte_flags where
  "KERNEL_RX = PTE_VALID OR PTE_READ OR PTE_EXECUTE OR PTE_ACCESS OR PTE_GLOBAL"

definition KERNEL_RO :: pte_flags where
  "KERNEL_RO = PTE_VALID OR PTE_READ OR PTE_ACCESS OR PTE_GLOBAL"

definition KERNEL_RW :: pte_flags where
  "KERNEL_RW = PTE_VALID OR PTE_READ OR PTE_WRITE OR PTE_ACCESS OR PTE_DIRTY OR PTE_GLOBAL"

definition KERNEL_MMIO :: pte_flags where
  "KERNEL_MMIO = PTE_VALID OR PTE_READ OR PTE_WRITE OR PTE_ACCESS OR PTE_DIRTY OR PTE_GLOBAL"

definition USER_RX :: pte_flags where
  "USER_RX = PTE_VALID OR PTE_READ OR PTE_EXECUTE OR PTE_USER OR PTE_ACCESS"

definition USER_RW :: pte_flags where
  "USER_RW = PTE_VALID OR PTE_READ OR PTE_WRITE OR PTE_USER OR PTE_ACCESS OR PTE_DIRTY"

definition USER_MMIO :: pte_flags where
  "USER_MMIO = PTE_VALID OR PTE_READ OR PTE_WRITE OR PTE_USER OR PTE_ACCESS OR PTE_DIRTY"

section \<open>Entries\<close>

definition Pte_INVALID :: pte where
  "Pte_INVALID = 0"

definition Pte_new :: "usize \<Rightarrow> pte_flags \<Rightarrow> pte" where
  "Pte_new phys_addr flags =
     (let ppn = drop_bit 12 phys_addr AND 0x00FFFFFFFFFFFFFF
      in push_bit 10 ppn OR flags)"

definition Pte_branch :: "usize \<Rightarrow> pte" where
  "Pte_branch table_phys_addr =
     (let ppn = drop_bit 12 table_phys_addr AND 0x00FFFFFFFFFFFFFF
      in push_bit 10 ppn OR PTE_VALID)"

definition Pte_is_valid :: "pte \<Rightarrow> bool" where
  "Pte_is_valid p \<longleftrightarrow> p AND PTE_VALID \<noteq> 0"

definition Pte_flags :: "pte \<Rightarrow> pte_flags" where
  "Pte_flags p = flags_from_bits p"

definition Pte_is_leaf :: "pte \<Rightarrow> bool" where
  "Pte_is_leaf p \<longleftrightarrow> Pte_is_valid p \<and> flags_is_leaf (Pte_flags p)"

definition Pte_is_branch :: "pte \<Rightarrow> bool" where
  "Pte_is_branch p \<longleftrightarrow> Pte_is_valid p \<and> \<not> flags_is_leaf (Pte_flags p)"

definition Pte_ppn :: "pte \<Rightarrow> u64" where
  "Pte_ppn p = drop_bit 10 p AND 0x00FFFFFFFFFFFFFF"

definition Pte_phys_addr :: "pte \<Rightarrow> usize" where
  "Pte_phys_addr p = push_bit 12 (Pte_ppn p)"

section \<open>Virtual addresses and satp\<close>

definition va_parts :: "usize \<Rightarrow> usize \<times> usize \<times> usize \<times> usize" where
  "va_parts va =
     (drop_bit 30 va AND 0x1FF, drop_bit 21 va AND 0x1FF, drop_bit 12 va AND 0x1FF, va AND 0xFFF)"

definition va_from_parts :: "usize \<Rightarrow> usize \<Rightarrow> usize \<Rightarrow> usize \<Rightarrow> usize" where
  "va_from_parts vpn2 vpn1 vpn0 off =
     push_bit 30 vpn2 OR push_bit 21 vpn1 OR push_bit 12 vpn0 OR off"

definition SATP_SV39 :: u64 where
  "SATP_SV39 = 8"

definition make_satp :: "usize \<Rightarrow> u16 \<Rightarrow> u64" where
  "make_satp root_table_phys asid =
     (let ppn = drop_bit 12 root_table_phys AND 0x00FFFFFFFFFFFFFF
      in push_bit 60 SATP_SV39 OR push_bit 44 (ucast asid) OR ppn)"

section \<open>The page walk\<close>

record walk_result =
  wr_phys :: usize
  wr_flags :: pte_flags

text \<open>
  The loop over \<open>indices.iter().enumerate()\<close>; \<open>read\<close> is the closure that fetches an entry.
\<close>

fun walk_loop :: "(usize \<Rightarrow> u64) \<Rightarrow> usize \<Rightarrow> usize \<Rightarrow> (nat \<times> usize) list \<Rightarrow> walk_result option" where
  "walk_loop read table off [] = None"
| "walk_loop read table off ((level_from_top, ix) # rest) =
     (let pte = read (table + ix * 8)
      in if \<not> Pte_is_valid pte then None
         else if Pte_is_leaf pte then
           (if level_from_top \<noteq> 2 then None
            else Some \<lparr>wr_phys = Pte_phys_addr pte + off, wr_flags = Pte_flags pte\<rparr>)
         else walk_loop read (Pte_phys_addr pte) off rest)"

definition walk :: "usize \<Rightarrow> usize \<Rightarrow> (usize \<Rightarrow> u64) \<Rightarrow> walk_result option" where
  "walk root va read =
     (case va_parts va of (vpn2, vpn1, vpn0, off) \<Rightarrow>
        walk_loop read root off (enumerate 0 [vpn2, vpn1, vpn0]))"

section \<open>Bit-level lemmas\<close>

lemma mask_numerals:
  "(0x3FF :: u64) = mask 10" "(0xFFF :: u64) = mask 12" "(0x1FF :: u64) = mask 9"
  "(0x00FFFFFFFFFFFFFF :: u64) = mask 56" "(0x00000FFFFFFFFFFF :: u64) = mask 44"
  by (simp_all add: mask_eq_exp_minus_1)

lemma PTE_VALID_1: "PTE_VALID = 1"
  by (simp add: PTE_VALID_def)

lemmas flag_bit_defs =
  PTE_NONE_def PTE_VALID_def PTE_READ_def PTE_WRITE_def PTE_EXECUTE_def PTE_USER_def
  PTE_GLOBAL_def PTE_ACCESS_def PTE_DIRTY_def

lemmas perm_defs =
  KERNEL_RX_def KERNEL_RO_def KERNEL_RW_def KERNEL_MMIO_def USER_RX_def USER_RW_def USER_MMIO_def

lemma and_push_bit_1: "(w AND push_bit n 1 = (0 :: u64)) \<longleftrightarrow> \<not> bit w n" if "n < 64"
proof -
  have "bit (w AND push_bit n 1) i \<longleftrightarrow> i = n \<and> bit w n" for i
    using that by (auto simp: bit_simps)
  then show ?thesis by (metis bit_eq_iff bit_0_eq bot_apply bot_bool_def)
qed

lemma contains_push_bit: "flags_contains w (push_bit n 1) \<longleftrightarrow> bit w n" if "n < 64"
proof -
  have "w AND push_bit n 1 = (if bit w n then push_bit n 1 else 0)"
    by (rule bit_word_eqI) (use that in \<open>auto simp: bit_simps\<close>)
  moreover have "push_bit n (1 :: u64) \<noteq> 0" using that by simp
  ultimately show ?thesis by (simp add: flags_contains_def)
qed

lemma Pte_is_valid_bit: "Pte_is_valid p \<longleftrightarrow> bit p 0"
  unfolding Pte_is_valid_def PTE_VALID_def using and_push_bit_1 [of 0 p] by simp

lemma or3_bits: "(w AND (push_bit 1 1 OR push_bit 2 1 OR push_bit 3 1) = (0 :: u64)) \<longleftrightarrow>
  \<not> bit w 1 \<and> \<not> bit w 2 \<and> \<not> bit w 3"
  by (simp only: bit.conj_disj_distrib or_eq_0_iff and_push_bit_1)

lemma flags_is_leaf_bits: "flags_is_leaf f \<longleftrightarrow> bit f 1 \<or> bit f 2 \<or> bit f 3"
  unfolding flags_is_leaf_def flag_bit_defs by (simp only: or3_bits) blast

lemma bit_Pte_flags: "bit (Pte_flags p) n \<longleftrightarrow> n < 10 \<and> bit p n"
  by (auto simp: Pte_flags_def flags_from_bits_def mask_numerals bit_simps)

lemma Pte_flags_eq: "Pte_flags p = take_bit 10 p"
  by (simp add: Pte_flags_def flags_from_bits_def mask_numerals take_bit_eq_mask)

lemma Pte_is_leaf_bits: "Pte_is_leaf p \<longleftrightarrow> bit p 0 \<and> (bit p 1 \<or> bit p 2 \<or> bit p 3)"
  by (auto simp: Pte_is_leaf_def Pte_is_valid_bit flags_is_leaf_bits bit_Pte_flags)

lemma Pte_is_branch_bits: "Pte_is_branch p \<longleftrightarrow> bit p 0 \<and> \<not> (bit p 1 \<or> bit p 2 \<or> bit p 3)"
  by (auto simp: Pte_is_branch_def Pte_is_valid_bit flags_is_leaf_bits bit_Pte_flags)

lemma Pte_invalid_kinds [simp]: "\<not> Pte_is_valid 0" "\<not> Pte_is_branch 0" "\<not> Pte_is_leaf 0"
  by (simp_all add: Pte_is_valid_bit Pte_is_branch_bits Pte_is_leaf_bits)

lemma PAGE_SIZE_exp: "PAGE_SIZE = 2 ^ 12"
  by (simp add: PAGE_SIZE_def)

lemma page_aligned_iff: "pa mod PAGE_SIZE = 0 \<longleftrightarrow> take_bit 12 pa = 0"
  by (simp add: PAGE_SIZE_exp take_bit_eq_mod)

lemma aligned_bits: "pa mod PAGE_SIZE = 0 \<Longrightarrow> n < 12 \<Longrightarrow> \<not> bit pa n"
  unfolding page_aligned_iff by (metis bit_take_bit_iff bit_0_eq bot_apply bot_bool_def)

lemma small_bits: "take_bit k f = f \<Longrightarrow> bit f n \<Longrightarrow> n < k" for f :: u64
  by (metis bit_take_bit_iff)

lemma bit_Pte_new:
  "bit (Pte_new pa f) n \<longleftrightarrow> n < 64 \<and> (10 \<le> n \<and> bit pa (n + 2) \<or> bit f n)"
proof -
  have "n + 2 = 12 + (n - 10)" if "10 \<le> n" using that by simp
  then show ?thesis
    by (auto simp: Pte_new_def Let_def mask_numerals bit_simps dest: bit_imp_le_length)
qed

lemma Pte_branch_new: "Pte_branch pa = Pte_new pa PTE_VALID"
  by (simp add: Pte_branch_def Pte_new_def)

lemma bit_Pte_phys_addr:
  "bit (Pte_phys_addr p) n \<longleftrightarrow> n < 64 \<and> 12 \<le> n \<and> bit p (n - 2)"
proof -
  have "n - 2 = 10 + (n - 12)" if "12 \<le> n" using that by simp
  then show ?thesis
    by (auto simp: Pte_phys_addr_def Pte_ppn_def mask_numerals bit_simps)
qed

lemma Pte_phys_aligned: "Pte_phys_addr p mod PAGE_SIZE = 0"
  unfolding page_aligned_iff by (rule bit_word_eqI) (simp add: bit_simps bit_Pte_phys_addr)

lemma Pte_new_phys:
  assumes "pa mod PAGE_SIZE = 0" "take_bit 10 f = f"
  shows "Pte_phys_addr (Pte_new pa f) = pa"
proof (rule bit_word_eqI)
  fix n assume "n < LENGTH(64)"
  then show "bit (Pte_phys_addr (Pte_new pa f)) n = bit pa n"
    using aligned_bits [OF assms(1), of n] small_bits [OF assms(2), of "n - 2"]
    by (cases "12 \<le> n") (auto simp: bit_Pte_phys_addr bit_Pte_new Suc_diff_le [symmetric] numeral_2_eq_2)
qed

lemma Pte_new_flags:
  assumes "take_bit 10 f = f"
  shows "Pte_flags (Pte_new pa f) = f"
proof (rule bit_word_eqI)
  fix n assume "n < LENGTH(64)"
  then show "bit (Pte_flags (Pte_new pa f)) n = bit f n"
    using small_bits [OF assms, of n] by (auto simp: bit_Pte_flags bit_Pte_new)
qed

lemma Pte_new_valid: "Pte_is_valid (Pte_new pa f) \<longleftrightarrow> bit f 0"
  by (simp add: Pte_is_valid_bit bit_Pte_new)

lemma Pte_new_leaf: "Pte_is_leaf (Pte_new pa f) \<longleftrightarrow> bit f 0 \<and> flags_is_leaf f"
  by (auto simp: Pte_is_leaf_bits bit_Pte_new flags_is_leaf_bits)

lemma VALID_small: "take_bit 10 PTE_VALID = PTE_VALID" "bit PTE_VALID 0" "\<not> flags_is_leaf PTE_VALID"
  by (simp_all add: PTE_VALID_def flags_is_leaf_bits bit_simps)

lemma Pte_branch_kind: "Pte_is_branch (Pte_branch pa)"
  using Pte_new_leaf [of pa PTE_VALID] Pte_new_valid [of pa PTE_VALID] VALID_small
  by (simp add: Pte_branch_new Pte_is_branch_def Pte_is_leaf_def)

lemma Pte_branch_phys: "pa mod PAGE_SIZE = 0 \<Longrightarrow> Pte_phys_addr (Pte_branch pa) = pa"
  by (simp add: Pte_branch_new Pte_new_phys VALID_small)

lemma branch_not_leaf: "Pte_is_branch p \<Longrightarrow> \<not> Pte_is_leaf p" "Pte_is_branch p \<Longrightarrow> Pte_is_valid p"
  "Pte_is_leaf p \<Longrightarrow> Pte_is_valid p" "Pte_is_valid p \<Longrightarrow> \<not> Pte_is_leaf p \<Longrightarrow> Pte_is_branch p"
  by (auto simp: Pte_is_branch_def Pte_is_leaf_def)

section \<open>Virtual addresses\<close>

lemma va_parts_take:
  "va_parts va = (take_bit 9 (drop_bit 30 va), take_bit 9 (drop_bit 21 va),
     take_bit 9 (drop_bit 12 va), take_bit 12 va)"
  by (simp add: va_parts_def mask_numerals take_bit_eq_mask)

lemma take9_small: "unat (take_bit 9 (w :: u64)) < 512" "take_bit 9 (w :: u64) < PT_ENTRIES"
  using take_bit_nat_less_exp [of 9 "unat w"]
  by (simp_all add: unsigned_take_bit_eq PT_ENTRIES_def word_less_nat_alt)

lemma va_parts_bounds:
  assumes "va_parts va = (i, j, k, off)"
  shows "i < PT_ENTRIES" "j < PT_ENTRIES" "k < PT_ENTRIES" "off < PAGE_SIZE"
proof -
  have "unat (take_bit 12 va) < 2 ^ 12"
    using take_bit_nat_less_exp [of 12 "unat va"] by (simp add: unsigned_take_bit_eq)
  then show "i < PT_ENTRIES" "j < PT_ENTRIES" "k < PT_ENTRIES" "off < PAGE_SIZE"
    using assms take9_small(2) by (auto simp: va_parts_take PAGE_SIZE_def word_less_nat_alt)
qed

lemma va_recompose:
  assumes "take_bit 39 va = va" "va_parts va = (i, j, k, off)"
  shows "va_from_parts i j k off = va"
proof (rule bit_word_eqI)
  fix n assume "n < LENGTH(64)"
  then show "bit (va_from_parts i j k off) n = bit va n"
    using assms(2) small_bits [OF assms(1), of n]
    by (cases "n < 12"; cases "n < 21"; cases "n < 30") (auto simp: va_parts_take va_from_parts_def bit_simps)
qed

lemma va_decompose:
  assumes "take_bit 9 i = i" "take_bit 9 j = j" "take_bit 9 k = k" "take_bit 12 off = off"
  shows "va_parts (va_from_parts i j k off) = (i, j, k, off)"
proof -
  note sm = small_bits [OF assms(1)] small_bits [OF assms(2)] small_bits [OF assms(3)]
    small_bits [OF assms(4)]
  have "take_bit 9 (drop_bit 30 (va_from_parts i j k off)) = i"
    by (rule bit_word_eqI) (auto simp: va_from_parts_def bit_simps dest: sm)
  moreover have "take_bit 9 (drop_bit 21 (va_from_parts i j k off)) = j"
    by (rule bit_word_eqI) (auto simp: va_from_parts_def bit_simps dest: sm)
  moreover have "take_bit 9 (drop_bit 12 (va_from_parts i j k off)) = k"
    by (rule bit_word_eqI) (auto simp: va_from_parts_def bit_simps dest: sm)
  moreover have "take_bit 12 (va_from_parts i j k off) = off"
    by (rule bit_word_eqI) (auto simp: va_from_parts_def bit_simps dest: sm)
  ultimately show ?thesis by (simp add: va_parts_take)
qed

section \<open>The walk as three look-ups\<close>

text \<open>The entry a walk reads at index \<open>ix\<close> of the table at \<open>t\<close>.\<close>

abbreviation entry :: "(usize \<Rightarrow> u64) \<Rightarrow> usize \<Rightarrow> usize \<Rightarrow> pte" where
  "entry rd t ix \<equiv> rd (t + ix * 8)"

lemma walk_loop_step:
  "walk_loop rd t off ((lvl, ix) # rest) =
     (if Pte_is_branch (entry rd t ix) then walk_loop rd (Pte_phys_addr (entry rd t ix)) off rest
      else if Pte_is_leaf (entry rd t ix) \<and> lvl = 2
      then Some \<lparr>wr_phys = Pte_phys_addr (entry rd t ix) + off, wr_flags = Pte_flags (entry rd t ix)\<rparr>
      else None)"
  by (simp add: Let_def Pte_is_branch_def Pte_is_leaf_def)

lemma walk_lookups:
  assumes "va_parts va = (i, j, k, off)"
    and "e2 = entry rd root i" "e1 = entry rd (Pte_phys_addr e2) j" "e0 = entry rd (Pte_phys_addr e1) k"
  shows "walk root va rd =
    (if Pte_is_branch e2 \<and> Pte_is_branch e1 \<and> Pte_is_leaf e0
     then Some \<lparr>wr_phys = Pte_phys_addr e0 + off, wr_flags = Pte_flags e0\<rparr> else None)"
proof -
  have "walk root va rd = walk_loop rd root off [(0, i), (1, j), (2, k)]"
    using assms(1) by (simp add: walk_def numeral_2_eq_2 del: walk_loop.simps)
  then show ?thesis
    using assms(2-4) branch_not_leaf(1) [of e0]
    by (simp only: walk_loop_step walk_loop.simps(1)) simp
qed

lemma walk_same_entries:
  assumes "va_parts va = (i, j, k, off)"
    and "entry rd' root i = entry rd root i"
    and "entry rd' (Pte_phys_addr (entry rd root i)) j = entry rd (Pte_phys_addr (entry rd root i)) j"
    and "entry rd' (Pte_phys_addr (entry rd (Pte_phys_addr (entry rd root i)) j)) k =
         entry rd (Pte_phys_addr (entry rd (Pte_phys_addr (entry rd root i)) j)) k"
  shows "walk root va rd' = walk root va rd"
  unfolding walk_lookups [OF assms(1) refl refl refl] by (simp only: assms(2-4))

section \<open>satp\<close>

text \<open>\<open>satp_to_root\<close> of \<open>kvm.rs\<close>.\<close>

definition satp_to_root :: "u64 \<Rightarrow> usize" where
  "satp_to_root satp = push_bit 12 (satp AND 0x00000FFFFFFFFFFF)"

lemma bit_make_satp:
  "bit (make_satp root asid) n \<longleftrightarrow>
     n < 64 \<and> (n = 63 \<or> 44 \<le> n \<and> bit asid (n - 44) \<or> bit root (n + 12))"
proof -
  have "bit (push_bit 60 SATP_SV39) n \<longleftrightarrow> n = 63"
    by (auto simp: SATP_SV39_def bit_simps bit_numeral_rec split: nat.splits)
  then show ?thesis
    by (auto simp: make_satp_def Let_def mask_numerals bit_simps add.commute dest: bit_imp_le_length)
qed

section \<open>Properties\<close>

text \<open>
  A leaf entry encodes its page and its permissions without loss: for every page-aligned
  physical address and every flag set within the ten flag bits, the entry gives both back, it
  is valid exactly when \<open>V\<close> is set and a leaf exactly when one of \<open>R\<close>, \<open>W\<close>, \<open>X\<close> is set as well.
\<close>

theorem pte_roundtrip:
  assumes "pa mod PAGE_SIZE = 0" "flags_from_bits f = f"
  shows "Pte_phys_addr (Pte_new pa f) = pa \<and> Pte_flags (Pte_new pa f) = f \<and>
    (Pte_is_valid (Pte_new pa f) \<longleftrightarrow> flags_contains f PTE_VALID) \<and>
    (Pte_is_leaf (Pte_new pa f) \<longleftrightarrow> flags_contains f PTE_VALID \<and> flags_is_leaf f) \<and>
    Pte_phys_addr (Pte_branch pa) = pa \<and> Pte_is_branch (Pte_branch pa)"
proof -
  have f: "take_bit 10 f = f"
    using assms(2) by (simp add: flags_from_bits_def mask_numerals take_bit_eq_mask)
  have v: "flags_contains f PTE_VALID \<longleftrightarrow> bit f 0"
    unfolding PTE_VALID_def using contains_push_bit [of 0 f] by simp
  show ?thesis
    using Pte_new_phys [OF assms(1) f] Pte_new_flags [OF f] Pte_new_valid [of pa f]
      Pte_new_leaf [of pa f] v Pte_branch_phys [OF assms(1)] Pte_branch_kind by simp
qed

theorem pte_roundtrip_witness:
  "(0x80201000 :: usize) mod PAGE_SIZE = 0 \<and> flags_from_bits USER_RW = USER_RW \<and>
   Pte_phys_addr (Pte_new 0x80201000 USER_RW) = 0x80201000 \<and> Pte_is_leaf (Pte_new 0x80201000 USER_RW)"
proof -
  have 1: "(0x80201000 :: usize) mod PAGE_SIZE = 0" by (simp add: PAGE_SIZE_def)
  have 2: "flags_from_bits USER_RW = USER_RW"
    by (simp add: flags_from_bits_def USER_RW_def flag_bit_defs)
  have 3: "flags_contains USER_RW PTE_VALID" "flags_is_leaf USER_RW"
    by (simp_all add: flags_contains_def flags_is_leaf_def USER_RW_def flag_bit_defs)
  show ?thesis using pte_roundtrip [OF 1 2] 1 2 3 by simp
qed

text \<open>
  Splitting a virtual address and putting it together again are inverse: every 39-bit
  address is the composition of its three 9-bit indices and its 12-bit offset, and every such
  tuple is recovered from the address it composes.
\<close>

theorem va_parts_roundtrip:
  "(take_bit 39 va = va \<longrightarrow> (case va_parts va of (i, j, k, off) \<Rightarrow> va_from_parts i j k off = va)) \<and>
   (i < PT_ENTRIES \<longrightarrow> j < PT_ENTRIES \<longrightarrow> k < PT_ENTRIES \<longrightarrow> off < PAGE_SIZE \<longrightarrow>
      va_parts (va_from_parts i j k off) = (i, j, k, off))"
proof -
  have small: "take_bit 9 w = w" if "w < PT_ENTRIES" for w :: u64
    using that by (simp add: PT_ENTRIES_def take_bit_eq_mod mod_word_less)
  have small': "take_bit 12 w = w" if "w < PAGE_SIZE" for w :: u64
    using that by (simp add: PAGE_SIZE_def take_bit_eq_mod mod_word_less)
  show ?thesis
    using va_recompose [of va] va_decompose [of i j k off] small [of i] small [of j] small [of k]
      small' [of off] by (auto split: prod.split)
qed

theorem va_parts_roundtrip_witness:
  "va_parts 0x5FFFF123 = (1, 0xFF, 0x1FF, 0x123) \<and> va_from_parts 1 0xFF 0x1FF 0x123 = 0x5FFFF123 \<and>
   va_parts (va_from_parts 1 0xFF 0x1FF 0x123) = (1, 0xFF, 0x1FF, 0x123)"
proof -
  have "take_bit 39 (0x5FFFF123 :: usize) = 0x5FFFF123"
    by (simp add: take_bit_eq_mod)
  moreover have "va_parts 0x5FFFF123 = (1, 0xFF, 0x1FF, 0x123)"
    by (simp add: va_parts_def drop_bit_eq_div)
  moreover have "(1::usize) < PT_ENTRIES" "(0xFF::usize) < PT_ENTRIES" "(0x1FF::usize) < PT_ENTRIES"
    "(0x123::usize) < PAGE_SIZE" by (simp_all add: PT_ENTRIES_def PAGE_SIZE_def)
  ultimately show ?thesis
    using va_parts_roundtrip [of "0x5FFFF123" "1" "0xFF" "0x1FF" "0x123"] by simp
qed

lemma root_bits: "root < 2 ^ 56 \<Longrightarrow> bit (root :: usize) n \<Longrightarrow> n < 56"
  by (rule small_bits [of 56 root]) (simp_all add: take_bit_eq_mod mod_word_less)

lemma satp_root:
  assumes "root mod PAGE_SIZE = 0" "root < 2 ^ 56"
  shows "satp_to_root (make_satp root asid) = root"
proof (rule bit_word_eqI)
  fix n assume "n < LENGTH(64)"
  then show "bit (satp_to_root (make_satp root asid)) n = bit root n"
    using aligned_bits [OF assms(1), of n] root_bits [OF assms(2), of n]
    by (cases "12 \<le> n") (auto simp: satp_to_root_def mask_numerals bit_simps bit_make_satp)
qed

text \<open>
  The \<open>satp\<close> value of a root table: for every page-aligned root below the 56-bit physical
  address space and every ASID, the mode field is Sv39, the ASID is in its field, and
  \<open>satp_to_root\<close> gives the root back, so switching tables loses nothing.
\<close>

theorem satp_roundtrip:
  assumes "root mod PAGE_SIZE = 0" "root < 2 ^ 56"
  shows "satp_to_root (make_satp root asid) = root \<and>
    drop_bit 60 (make_satp root asid) = SATP_SV39 \<and>
    take_bit 16 (drop_bit 44 (make_satp root asid)) = ucast asid"
proof -
  note hi = root_bits [OF assms(2)] and 1 = satp_root [OF assms, of asid]
  have 2: "take_bit 16 (drop_bit 44 (make_satp root asid)) = ucast asid"
  proof (rule bit_word_eqI)
    fix n assume "n < LENGTH(64)"
    then show "bit (take_bit 16 (drop_bit 44 (make_satp root asid))) n = bit (ucast asid :: u64) n"
      using hi [of "44 + n + 12"] bit_imp_le_length [of asid n] by (auto simp: bit_simps bit_make_satp)
  qed
  have 3: "drop_bit 60 (make_satp root asid) = SATP_SV39"
  proof (rule bit_word_eqI)
    fix n assume "n < LENGTH(64)"
    then show "bit (drop_bit 60 (make_satp root asid)) n = bit SATP_SV39 n"
      using hi [of "60 + n + 12"] bit_imp_le_length [of asid "60 + n - 44"]
      by (auto simp: bit_simps bit_make_satp SATP_SV39_def bit_numeral_rec split: nat.splits)
  qed
  show ?thesis using 1 2 3 by simp
qed

theorem satp_roundtrip_witness:
  "satp_to_root (make_satp 0x80800000 0) = 0x80800000 \<and> drop_bit 60 (make_satp 0x80800000 0) = SATP_SV39"
proof -
  have "(0x80800000 :: usize) mod PAGE_SIZE = 0" "(0x80800000 :: usize) < 2 ^ 56"
    by (simp_all add: PAGE_SIZE_def)
  from satp_roundtrip [OF this, of 0] show ?thesis by simp
qed

section \<open>The walk against the Sv39 translation algorithm\<close>

text \<open>
  The address translation of the privileged architecture (Sv39, three levels of 512 entries of
  eight bytes), written on natural numbers without any of the source's helpers: \<open>mem\<close> reads an
  entry, \<open>a\<close> is the table of level \<open>i\<close>.  An entry is invalid when it is even; bit 1, 2 and 3 are
  \<open>R\<close>, \<open>W\<close> and \<open>X\<close>; bits 54 and above, \<open>W\<close> without \<open>R\<close>, and \<open>U\<close>, \<open>A\<close> or \<open>D\<close> in an entry that points
  to a table are reserved; a leaf above level 0 is a superpage, which must be aligned.  A leaf
  gives the physical address, the ten flag bits and its level.
\<close>

datatype xlate = Page_Fault | Reserved | Leaf nat nat nat

fun sv39 :: "(nat \<Rightarrow> nat) \<Rightarrow> nat \<Rightarrow> nat \<Rightarrow> nat \<Rightarrow> xlate" where
  "sv39 mem a va i =
     (let pte = mem (a + 8 * (va div 2 ^ (12 + 9 * i) mod 512));
          bitset = (\<lambda>n. odd (pte div 2 ^ n));
          ppn = pte div 2 ^ 10
      in if even pte then Page_Fault
         else if 2 ^ 54 \<le> pte \<or> bitset 2 \<and> \<not> bitset 1 then Reserved
         else if bitset 1 \<or> bitset 3 then
           (if ppn mod 2 ^ (9 * i) \<noteq> 0 then Page_Fault
            else Leaf (ppn * 2 ^ 12 + va mod 2 ^ (12 + 9 * i)) (pte mod 2 ^ 10) i)
         else if bitset 4 \<or> bitset 6 \<or> bitset 7 then Reserved
         else if i = 0 then Page_Fault
         else sv39 mem (ppn * 2 ^ 12) va (i - 1))"

declare sv39.simps [simp del]

definition leaf_4k :: "xlate \<Rightarrow> walk_result option" where
  "leaf_4k t = (case t of Leaf pa fl 0 \<Rightarrow> Some \<lparr>wr_phys = of_nat pa, wr_flags = of_nat fl\<rparr> | _ \<Rightarrow> None)"

lemma leaf_4k_simps [simp]:
  "leaf_4k Page_Fault = None" "leaf_4k (Leaf pa fl (Suc i)) = None"
  "leaf_4k (Leaf pa fl 0) = Some \<lparr>wr_phys = of_nat pa, wr_flags = of_nat fl\<rparr>"
  by (simp_all add: leaf_4k_def)

lemma bit_odd_unat: "bit p n \<longleftrightarrow> odd (unat p div 2 ^ n)" for p :: u64
proof -
  have "bit (unat p) n = bit p n" by (simp add: bit_unsigned_iff)
  then show ?thesis by (simp add: bit_iff_odd)
qed

lemma index_of_nat: "take_bit 9 (drop_bit n va) = of_nat (unat va div 2 ^ n mod 512)" for va :: u64
proof -
  have "unat (take_bit 9 (drop_bit n va)) = unat va div 2 ^ n mod 512"
    by (simp only: unsigned_take_bit_eq unat_drop_bit_eq) (simp add: take_bit_eq_mod drop_bit_eq_div)
  then show ?thesis by (metis of_nat_unat ucast_id)
qed

lemma offset_of_nat: "take_bit 12 va = of_nat (unat va mod 2 ^ 12)" for va :: u64
proof -
  have "unat (take_bit 12 va) = unat va mod 2 ^ 12"
    by (simp only: unsigned_take_bit_eq) (simp add: take_bit_eq_mod)
  then show ?thesis by (metis of_nat_unat ucast_id)
qed

lemma Pte_phys_of_nat: "Pte_phys_addr p = of_nat (unat p div 2 ^ 10 * 2 ^ 12)"
proof -
  have "Pte_phys_addr p = push_bit 12 (drop_bit 10 p)"
    by (rule bit_word_eqI) (auto simp: bit_Pte_phys_addr bit_simps)
  also have "\<dots> = of_nat (unat p div 2 ^ 10) * 2 ^ 12"
    by (metis drop_bit_eq_div of_nat_unat push_bit_eq_mult ucast_id unat_drop_bit_eq)
  finally show ?thesis by simp
qed

lemma Pte_flags_of_nat: "Pte_flags p = of_nat (unat p mod 2 ^ 10)"
proof -
  have "unat (Pte_flags p) = unat p mod 2 ^ 10"
    by (simp only: Pte_flags_eq unsigned_take_bit_eq) (simp add: take_bit_eq_mod)
  then show ?thesis by (metis of_nat_unat ucast_id)
qed

text \<open>One turn of the loop is one level of the algorithm.\<close>

lemma walk_loop_sv39:
  assumes "sv39 (\<lambda>a. unat (rd (of_nat a))) a (unat va) i \<noteq> Reserved"
    and "\<And>t. i \<noteq> 0 \<Longrightarrow> sv39 (\<lambda>a. unat (rd (of_nat a))) t (unat va) (i - 1) \<noteq> Reserved \<Longrightarrow>
      walk_loop rd (of_nat t) (take_bit 12 va) ixs =
        leaf_4k (sv39 (\<lambda>a. unat (rd (of_nat a))) t (unat va) (i - 1))"
    and "i = 0 \<Longrightarrow> ixs = []" "i \<le> 2"
  shows "walk_loop rd (of_nat a) (take_bit 12 va)
      ((2 - i, take_bit 9 (drop_bit (12 + 9 * i) va)) # ixs) =
    leaf_4k (sv39 (\<lambda>a. unat (rd (of_nat a))) a (unat va) i)"
proof -
  define pte where "pte = rd (of_nat (a + 8 * (unat va div 2 ^ (12 + 9 * i) mod 512)))"
  define ix where "ix = take_bit 9 (drop_bit (12 + 9 * i) va)"
  have "entry rd (of_nat a) ix = pte"
    by (simp only: ix_def pte_def index_of_nat of_nat_add of_nat_mult of_nat_numeral mult.commute)
  then have w: "walk_loop rd (of_nat a) (take_bit 12 va) ((2 - i, ix) # ixs) =
      (if Pte_is_branch pte then walk_loop rd (Pte_phys_addr pte) (take_bit 12 va) ixs
       else if Pte_is_leaf pte \<and> 2 - i = 2
       then Some \<lparr>wr_phys = Pte_phys_addr pte + take_bit 12 va, wr_flags = Pte_flags pte\<rparr> else None)"
    by (simp only: walk_loop_step)
  have v: "even (unat pte) \<longleftrightarrow> \<not> bit pte 0" using bit_odd_unat [of pte 0] by simp
  note step = sv39.simps [of "\<lambda>a. unat (rd (of_nat a))" a "unat va" i, unfolded Let_def,
      folded pte_def, folded bit_odd_unat, unfolded v]
  have lvl: "2 - i = 2 \<longleftrightarrow> i = 0" using assms(4) by arith
  show ?thesis
  proof (cases "bit pte 0 \<and> \<not> (bit pte 1 \<or> bit pte 2 \<or> bit pte 3)")
    case True
    then have S: "sv39 (\<lambda>a. unat (rd (of_nat a))) a (unat va) i =
        (if i = 0 then Page_Fault
         else sv39 (\<lambda>a. unat (rd (of_nat a))) (unat pte div 2 ^ 10 * 2 ^ 12) (unat va) (i - 1))"
      using assms(1) unfolding step by (simp split: if_splits)
    have "walk_loop rd (Pte_phys_addr pte) (take_bit 12 va) ixs =
        leaf_4k (sv39 (\<lambda>a. unat (rd (of_nat a))) a (unat va) i)"
    proof (cases "i = 0")
      case False
      then show ?thesis
        using assms(1) assms(2) [OF False] unfolding Pte_phys_of_nat S by (simp only: if_False)
    qed (use S assms(3) in \<open>simp add: leaf_4k_def\<close>)
    then show ?thesis
      unfolding ix_def [symmetric] w Pte_is_branch_bits using True by (simp only: if_True simp_thms)
  next
    case False
    have "leaf_4k (sv39 (\<lambda>a. unat (rd (of_nat a))) a (unat va) i) =
      (if bit pte 0 \<and> (bit pte 1 \<or> bit pte 2 \<or> bit pte 3) \<and> i = 0
       then Some \<lparr>wr_phys = of_nat (unat pte div 2 ^ 10 * 2 ^ 12 + unat va mod 2 ^ 12),
                  wr_flags = of_nat (unat pte mod 2 ^ 10)\<rparr> else None)"
      using False assms(1) unfolding step by (cases i) (auto split: if_splits)
    then show ?thesis
      unfolding ix_def [symmetric] w lvl Pte_is_branch_bits Pte_is_leaf_bits using False
      by (simp only: if_False Pte_phys_of_nat Pte_flags_of_nat offset_of_nat of_nat_add conj_assoc)
  qed
qed

text \<open>
  C12. The page walk computes the Sv39 translation of the architecture restricted to 4\,KiB
  pages.  On every memory, root and virtual address for which the translation algorithm meets
  no reserved entry encoding, \<open>walk\<close> returns the algorithm's physical address and flag bits when
  it ends in a level-0 leaf, and nothing when it faults or ends in a superpage (which the code
  rejects defensively).  The algorithm is the independent one above, on natural numbers.
\<close>

theorem walk_sv39:
  assumes "sv39 (\<lambda>a. unat (rd (of_nat a))) (unat root) (unat va) 2 \<noteq> Reserved"
  shows "walk root va rd = leaf_4k (sv39 (\<lambda>a. unat (rd (of_nat a))) (unat root) (unat va) 2)"
proof -
  let ?S = "sv39 (\<lambda>a. unat (rd (of_nat a)))"
  let ?ix = "\<lambda>i. take_bit 9 (drop_bit (12 + 9 * i) va)"
  have l0: "walk_loop rd (of_nat t) (take_bit 12 va) [(2, ?ix 0)] = leaf_4k (?S t (unat va) 0)"
    if "?S t (unat va) 0 \<noteq> Reserved" for t
    using walk_loop_sv39 [OF that, of "[]"] by simp
  have l1: "walk_loop rd (of_nat t) (take_bit 12 va) [(1, ?ix 1), (2, ?ix 0)] = leaf_4k (?S t (unat va) 1)"
    if "?S t (unat va) 1 \<noteq> Reserved" for t
    using walk_loop_sv39 [OF that, of "[(2, ?ix 0)]"] l0 by simp
  have l2: "walk_loop rd (of_nat (unat root)) (take_bit 12 va) [(0, ?ix 2), (1, ?ix 1), (2, ?ix 0)] =
      leaf_4k (?S (unat root) (unat va) 2)"
    using walk_loop_sv39 [OF assms, of "[(1, ?ix 1), (2, ?ix 0)]"] l1 by simp
  show ?thesis
    unfolding l2 [symmetric] by (simp add: walk_def va_parts_take numeral_2_eq_2 del: walk_loop.simps)
qed

definition three_level :: "usize \<Rightarrow> u64" where
  "three_level a =
     (if a = 0x80400008 then Pte_branch 0x80401000
      else if a = 0x80401FF8 then Pte_branch 0x80402000
      else if a = 0x80402918 then Pte_new 0x80500000 USER_RW else 0)"

theorem walk_sv39_witness:
  "sv39 (\<lambda>a. unat (three_level (of_nat a))) (unat (0x80400000 :: usize)) (unat (0x7FF23ABC :: usize)) 2 \<noteq> Reserved \<and>
   walk 0x80400000 0x7FF23ABC three_level = Some \<lparr>wr_phys = 0x80500ABC, wr_flags = USER_RW\<rparr>"
proof -
  have e: "Pte_branch 0x80401000 = 0x20100401" "Pte_branch 0x80402000 = 0x20100801"
    "Pte_new 0x80500000 USER_RW = 0x201400D7"
    by (simp_all add: Pte_branch_def Pte_new_def USER_RW_def flag_bit_defs push_bit_eq_mult drop_bit_eq_div)
  have f: "USER_RW = 0xD7" by (simp add: USER_RW_def flag_bit_defs)
  have s: "sv39 (\<lambda>a. unat (three_level (of_nat a))) 0x80400000 0x7FF23ABC 2 =
      Leaf 0x80500ABC 0xD7 0"
    by (simp add: sv39.simps [of _ _ _ 2] sv39.simps [of _ _ _ "Suc 0"] sv39.simps [of _ _ _ 0]
        three_level_def e Let_def)
  show ?thesis using walk_sv39 [of three_level "0x80400000" "0x7FF23ABC"] by (simp add: s f)
qed

end
