(* ===== verification/Mem.thy ===== *)
theory Mem
  imports Page_Table
begin

unbundle bit_operations_syntax

text \<open>
  Physical memory: a byte for every 64-bit address.  The kernel touches it through volatile
  64-bit loads and stores (\<open>read_pte\<close>, \<open>write_pte\<close>), through the byte loop of
  \<open>BitmapAllocator::zero_page\<close> and through byte copies.  Multi-byte accesses are little endian,
  as on RISC-V.

  The locale \<open>word_store\<close> is the interface the page-table code relies on: what a load returns
  after a store and after a page was zeroed.  It is interpreted on the byte memory.
\<close>

type_synonym mem = "usize \<Rightarrow> u8"

section \<open>Loads and stores\<close>

primrec load_le :: "nat \<Rightarrow> mem \<Rightarrow> usize \<Rightarrow> 'a::len word" where
  "load_le 0 m a = 0"
| "load_le (Suc n) m a = ucast (m a) OR push_bit 8 (load_le n m (a + 1))"

definition load16 :: "mem \<Rightarrow> usize \<Rightarrow> u16" where
  "load16 m a = load_le 2 m a"

definition load32 :: "mem \<Rightarrow> usize \<Rightarrow> u32" where
  "load32 m a = load_le 4 m a"

definition load64 :: "mem \<Rightarrow> usize \<Rightarrow> u64" where
  "load64 m a = load_le 8 m a"

definition store64 :: "mem \<Rightarrow> usize \<Rightarrow> u64 \<Rightarrow> mem" where
  "store64 m a v =
     (\<lambda>b. if unat (b - a) < 8 then ucast (drop_bit (8 * unat (b - a)) v) else m b)"

text \<open>\<open>zero_page\<close> writes one zero byte per iteration.\<close>

definition zero_page :: "mem \<Rightarrow> usize \<Rightarrow> mem" where
  "zero_page m addr = fold (\<lambda>i m. m(addr + of_nat i := 0)) [0..<unat PAGE_SIZE] m"

text \<open>\<open>copy_nonoverlapping\<close> of a list of bytes to address \<open>dst\<close>.\<close>

definition store_bytes :: "mem \<Rightarrow> usize \<Rightarrow> u8 list \<Rightarrow> mem" where
  "store_bytes m dst bs = (\<lambda>b. if unat (b - dst) < length bs then bs ! unat (b - dst) else m b)"

definition load_bytes :: "mem \<Rightarrow> usize \<Rightarrow> nat \<Rightarrow> u8 list" where
  "load_bytes m src n = map (\<lambda>i. m (src + of_nat i)) [0..<n]"

definition page_of :: "usize \<Rightarrow> usize" where
  "page_of a = a AND NOT 0xFFF"

section \<open>Byte-level lemmas\<close>

lemma bit_load_le:
  "bit (load_le n m a :: 'a::len word) k \<longleftrightarrow>
     k < LENGTH('a) \<and> k < 8 * n \<and> bit (m (a + of_nat (k div 8))) (k mod 8)"
proof (induction n arbitrary: a k)
  case (Suc n)
  show ?case
  proof (cases "k < 8")
    case True
    then show ?thesis by (auto simp: bit_simps)
  next
    case False
    then obtain l where "k = 8 + l" using le_Suc_ex by (metis not_less)
    moreover have "(8 + l) div 8 = Suc (l div 8)" by simp
    ultimately show ?thesis
      using bit_imp_le_length [of "m a" "8 + l"] by (auto simp: bit_simps Suc add.assoc simp del: div_add_self1)
  qed
qed simp

lemma bit_load64: "bit (load64 m a) k \<longleftrightarrow> k < 64 \<and> bit (m (a + of_nat (k div 8))) (k mod 8)"
  by (auto simp: load64_def bit_load_le)

lemma of_nat_lt8: "k < 64 \<Longrightarrow> unat (of_nat (k div 8) :: u64) = k div 8"
  by (rule unat_of_nat_small) simp

lemma load64_cong: "(\<And>i. i < 8 \<Longrightarrow> m' (a + of_nat i) = m (a + of_nat i)) \<Longrightarrow> load64 m' a = load64 m a"
  by (rule bit_word_eqI) (auto simp: bit_load64)

lemma load64_store64_same: "load64 (store64 m a v) a = v"
proof (rule bit_word_eqI)
  fix k assume k: "k < LENGTH(64)"
  then have "k div 8 < 8" by simp
  with k show "bit (load64 (store64 m a v) a) k = bit v k"
    by (simp add: bit_load64 store64_def of_nat_lt8 bit_simps)
qed

lemma aligned8_unat:
  fixes a :: usize
  assumes "a mod 8 = 0" "i < 8"
  shows "unat (a + of_nat i) = unat a + i" "unat a mod 8 = 0"
proof -
  show m: "unat a mod 8 = 0" using assms(1) by (simp add: word_mod_eq_0_iff)
  have u: "unat (of_nat i :: usize) = i" using assms(2) by (intro unat_of_nat_small) simp
  obtain q where q: "unat a = 8 * q" using m by (auto dest: mod_0_imp_dvd)
  have "unat a < 2 ^ 64" using unsigned_less [of a] by simp
  then have "unat a + i < 2 ^ 64" using q assms(2) by simp
  then show "unat (a + of_nat i) = unat a + i" by (simp add: unat_add_small u)
qed

lemma aligned8_overlap:
  fixes a b :: usize
  assumes "a mod 8 = 0" "b mod 8 = 0" "i < 8" "unat (b + of_nat i - a) < 8"
  shows "a = b"
proof -
  define s where "s = unat (b + of_nat i - a)"
  have "a + of_nat s = b + of_nat i" by (simp add: s_def)
  then have "unat a + s = unat b + i"
    using aligned8_unat(1) [OF assms(1), of s] aligned8_unat(1) [OF assms(2,3)] assms(4)
    by (simp add: s_def)
  then have "unat a = unat b"
    using aligned8_unat(2) [OF assms(1), of 0] aligned8_unat(2) [OF assms(2), of 0] assms(3,4)
    unfolding s_def [symmetric] by presburger
  then show ?thesis by (simp add: word_unat_eq_iff)
qed

lemma load64_store64_other:
  assumes "a mod 8 = 0" "b mod 8 = 0" "a \<noteq> b"
  shows "load64 (store64 m a v) b = load64 m b"
proof (rule load64_cong)
  fix i :: nat assume "i < 8"
  then show "store64 m a v (b + of_nat i) = m (b + of_nat i)"
    unfolding store64_def using aligned8_overlap [OF assms(1,2)] assms(3) by (simp only: if_False) metis
qed

section \<open>Pages\<close>

lemma bit_page_of: "bit (page_of a) n \<longleftrightarrow> 12 \<le> n \<and> bit a n"
  by (auto simp: page_of_def mask_numerals bit_simps dest: bit_imp_le_length)

lemma page_of_aligned: "page_of a mod PAGE_SIZE = 0"
  unfolding page_aligned_iff by (rule bit_word_eqI) (simp add: bit_simps bit_page_of)

lemma page_of_self: "a mod PAGE_SIZE = 0 \<Longrightarrow> page_of a = a"
  by (rule bit_word_eqI) (metis bit_page_of aligned_bits not_less)

text \<open>Adding an in-page offset to a page address is a bitwise or.\<close>

lemma page_add_or:
  assumes "t mod PAGE_SIZE = 0" "take_bit 12 off = off"
  shows "t + off = t OR off"
proof (rule disjunctive_add_eq_or)
  show "t AND off = 0"
    by (rule bit_word_eqI) (use aligned_bits [OF assms(1)] small_bits [OF assms(2)] in \<open>auto simp: bit_simps\<close>)
qed

lemma page_of_add:
  assumes "t mod PAGE_SIZE = 0" "take_bit 12 off = off"
  shows "page_of (t + off) = t"
  unfolding page_add_or [OF assms]
  by (rule bit_word_eqI)
    (auto simp: bit_simps bit_page_of not_less [symmetric]
      dest: aligned_bits [OF assms(1)] small_bits [OF assms(2)])

lemma page_split: "page_of a + take_bit 12 a = a"
proof -
  have "page_of a + take_bit 12 a = page_of a OR take_bit 12 a"
    by (rule page_add_or) (simp_all add: page_of_aligned)
  also have "\<dots> = a" by (rule bit_word_eqI) (auto simp: bit_simps bit_page_of)
  finally show ?thesis .
qed

lemma take12_small: "w < 4096 \<Longrightarrow> take_bit 12 (w :: usize) = w"
  by (simp add: take_bit_eq_mod mod_word_less)

lemma unat_take12: "unat (take_bit 12 (w :: usize)) < 4096"
  using take_bit_nat_less_exp [of 12 "unat w"] by (simp add: unsigned_take_bit_eq)

lemma in_page_iff:
  assumes "p mod PAGE_SIZE = 0"
  shows "unat (b - p) < 4096 \<longleftrightarrow> page_of b = p"
proof
  assume "unat (b - p) < 4096"
  then have "take_bit 12 (b - p) = b - p" by (intro take12_small) (simp add: word_less_nat_alt)
  from page_of_add [OF assms this] show "page_of b = p" by simp
next
  assume "page_of b = p"
  with page_split [of b] have "b - p = take_bit 12 b" by (metis add_diff_cancel_left')
  then show "unat (b - p) < 4096" by (simp add: unat_take12)
qed

lemma zero_upto:
  "fold (\<lambda>i m. m(addr + of_nat i := 0)) [0..<n] m b =
     (if \<exists>i < n. b = addr + of_nat i then 0 else m b)"
  for m :: mem
  by (induction n) (auto simp: less_Suc_eq)

lemma zero_page_eq:
  assumes "p mod PAGE_SIZE = 0"
  shows "zero_page m p b = (if page_of b = p then 0 else m b)"
proof -
  have "(\<exists>i < 4096. b = p + of_nat i) \<longleftrightarrow> unat (b - p) < 4096"
  proof
    assume "\<exists>i < 4096. b = p + of_nat i"
    then obtain i where "i < 4096" "b - p = of_nat i" by auto
    then show "unat (b - p) < 4096" by (simp add: unat_of_nat_small)
  next
    assume "unat (b - p) < 4096"
    moreover have "b = p + of_nat (unat (b - p))" by simp
    ultimately show "\<exists>i < 4096. b = p + of_nat i" by blast
  qed
  then show ?thesis
    using in_page_iff [OF assms] by (simp add: zero_page_def zero_upto PAGE_SIZE_def)
qed

lemma unat_lt2p: "unat (v :: usize) < 2 ^ 64"
  by (rule order_less_le_trans [OF unsigned_less]) simp

lemma unat_page_of: "unat (page_of v) = unat v div 4096 * 4096"
proof -
  have "page_of v = drop_bit 12 v * 4096"
  proof -
    have "page_of v = push_bit 12 (drop_bit 12 v)"
      by (rule bit_word_eqI) (auto simp: bit_page_of bit_simps)
    then show ?thesis by (simp add: push_bit_eq_mult)
  qed
  moreover have "unat (drop_bit 12 v) = unat v div 4096"
    by (simp only: unat_drop_bit_eq) (simp add: drop_bit_eq_div)
  moreover have "unat v div 4096 * 4096 < 2 ^ 64"
    using unat_lt2p [of v] div_times_less_eq_dividend [of "unat v" 4096] by simp
  ultimately show ?thesis by (simp add: unat_mult_small)
qed

lemma aligned_unat: "a mod PAGE_SIZE = 0 \<longleftrightarrow> unat a mod 4096 = 0"
  by (simp add: word_mod_eq_0_iff PAGE_SIZE_def)

lemma page_of_between:
  assumes "a mod PAGE_SIZE = 0"
  shows "page_of v = a \<longleftrightarrow> unat a \<le> unat v \<and> unat v < unat a + 4096"
proof -
  have "unat a mod 4096 = 0" using assms by (simp only: aligned_unat)
  then obtain q where q: "unat a = 4096 * q" by (auto dest: mod_0_imp_dvd)
  have "page_of v = a \<longleftrightarrow> unat v div 4096 = q"
    unfolding word_unat_eq_iff unat_page_of q by auto
  also have "\<dots> \<longleftrightarrow> 4096 * q \<le> unat v \<and> unat v < 4096 * q + 4096" by auto
  finally show ?thesis by (simp add: q)
qed

lemma next_page:
  assumes "a mod PAGE_SIZE = 0" "e mod PAGE_SIZE = 0" "a < e"
  shows "unat (a + PAGE_SIZE) = unat a + 4096" "(a + PAGE_SIZE) mod PAGE_SIZE = 0" "a + PAGE_SIZE \<le> e"
proof -
  obtain p q where p: "unat a = 4096 * p" and q: "unat e = 4096 * q"
    using assms(1,2) unfolding aligned_unat by (meson dvdE mod_0_imp_dvd)
  have "p < q" using assms(3) p q by (simp add: word_less_nat_alt)
  moreover have "4096 * q < 2 ^ 64" using unat_lt2p [of e] q by simp
  ultimately have le: "4096 * p + 4096 \<le> 4096 * q" and lt: "4096 * p + 4096 < 2 ^ 64" by simp_all
  show u: "unat (a + PAGE_SIZE) = unat a + 4096"
    using lt p by (subst unat_add_small) (simp_all add: PAGE_SIZE_def)
  show "(a + PAGE_SIZE) mod PAGE_SIZE = 0" unfolding aligned_unat u p by simp
  show "a + PAGE_SIZE \<le> e" unfolding word_le_nat_alt u using le p q by simp
qed

text \<open>An aligned 64-bit word lies within one page.\<close>

lemma word_in_page:
  assumes "b mod 8 = 0" "i < 8"
  shows "page_of (b + of_nat i) = page_of b"
proof -
  define w where "w = (of_nat i :: usize)"
  have "w < 8" using assms(2) by (simp add: w_def word_less_nat_alt unat_of_nat_small)
  then have w: "take_bit 3 w = w" by (simp add: take_bit_eq_mod mod_word_less)
  have "take_bit 3 b = 0" using assms(1) by (simp add: take_bit_eq_mod)
  then have b: "\<not> bit b n" if "n < 3" for n
    using that by (metis bit_take_bit_iff bit_0_eq bot_apply bot_bool_def)
  have "b + w = b OR w"
    by (rule disjunctive_add_eq_or, rule bit_word_eqI) (use b small_bits [OF w] in \<open>auto simp: bit_simps\<close>)
  moreover have "page_of (b OR w) = page_of b"
    by (rule bit_word_eqI) (auto simp: bit_page_of bit_simps dest: small_bits [OF w])
  ultimately show ?thesis by (simp add: w_def)
qed

lemma load64_zero_page_in:
  assumes "p mod PAGE_SIZE = 0" "b mod 8 = 0" "page_of b = p"
  shows "load64 (zero_page m p) b = 0"
proof (rule bit_word_eqI)
  fix n assume "n < LENGTH(64)"
  then show "bit (load64 (zero_page m p) b) n = bit (0 :: u64) n"
    using word_in_page [OF assms(2), of "n div 8"] assms by (simp add: bit_load64 zero_page_eq)
qed

lemma load64_zero_page_other:
  "p mod PAGE_SIZE = 0 \<Longrightarrow> b mod 8 = 0 \<Longrightarrow> page_of b \<noteq> p \<Longrightarrow> load64 (zero_page m p) b = load64 m b"
  by (rule load64_cong) (simp add: zero_page_eq word_in_page)

section \<open>Table entries\<close>

lemma index_bits:
  fixes i :: usize
  assumes "i < PT_ENTRIES"
  shows "take_bit 12 (i * 8) = i * 8" "drop_bit 3 (i * 8) = i" "(i * 8) mod 8 = 0"
proof -
  have u: "unat (i * 8) = unat i * 8"
    using assms by (subst unat_mult_small) (simp_all add: PT_ENTRIES_def word_less_nat_alt)
  have "i * 8 < 4096" using assms u by (simp add: PT_ENTRIES_def word_less_nat_alt)
  then show "take_bit 12 (i * 8) = i * 8" by (rule take12_small)
  show "drop_bit 3 (i * 8) = i"
    by (simp only: word_unat_eq_iff unat_drop_bit_eq u) (simp add: drop_bit_eq_div)
  show "(i * 8) mod 8 = 0" by (simp add: word_mod_eq_0_iff u)
qed

lemma entry_addr:
  assumes "t mod PAGE_SIZE = 0" "i < PT_ENTRIES"
  shows "(t + i * 8) mod 8 = 0" "page_of (t + i * 8) = t"
proof -
  have "unat t mod 4096 = 0" using assms(1) by (simp add: word_mod_eq_0_iff PAGE_SIZE_def)
  then obtain q where "unat t = 4096 * q" by (auto dest: mod_0_imp_dvd)
  then have "unat t mod 8 = 0" by simp
  then have "take_bit 3 t = 0" by (simp add: take_bit_eq_mod word_mod_eq_0_iff)
  moreover have "take_bit 3 (i * 8) = 0" using index_bits(3) [OF assms(2)] by (simp add: take_bit_eq_mod)
  ultimately have "take_bit 3 (t + i * 8) = 0"
    by (simp only: page_add_or [OF assms(1) index_bits(1) [OF assms(2)]] take_bit_or) simp
  then show "(t + i * 8) mod 8 = 0" by (simp add: take_bit_eq_mod)
  show "page_of (t + i * 8) = t"
    using page_of_add [OF assms(1) index_bits(1) [OF assms(2)]] .
qed

lemma entry_addr_inj:
  assumes "t mod PAGE_SIZE = 0" "i < PT_ENTRIES" "t' mod PAGE_SIZE = 0" "i' < PT_ENTRIES"
  shows "t + i * 8 = t' + i' * 8 \<longleftrightarrow> t = t' \<and> i = i'"
proof
  assume eq: "t + i * 8 = t' + i' * 8"
  then have "t = t'" by (metis entry_addr(2) assms)
  with eq have "i * 8 = i' * 8" by (simp only: add_left_cancel)
  then have "i = i'" by (metis index_bits(2) assms(2,4))
  with \<open>t = t'\<close> show "t = t' \<and> i = i'" by simp
qed simp

section \<open>The interface of the page-table code\<close>

locale word_store =
  fixes rd :: "'m \<Rightarrow> usize \<Rightarrow> u64"
    and wr :: "'m \<Rightarrow> usize \<Rightarrow> u64 \<Rightarrow> 'm"
    and wipe :: "'m \<Rightarrow> usize \<Rightarrow> 'm"
  assumes rd_wr_same: "rd (wr m a v) a = v"
    and rd_wr_other: "a mod 8 = 0 \<Longrightarrow> b mod 8 = 0 \<Longrightarrow> a \<noteq> b \<Longrightarrow> rd (wr m a v) b = rd m b"
    and rd_wipe_in: "p mod PAGE_SIZE = 0 \<Longrightarrow> b mod 8 = 0 \<Longrightarrow> page_of b = p \<Longrightarrow> rd (wipe m p) b = 0"
    and rd_wipe_other:
      "p mod PAGE_SIZE = 0 \<Longrightarrow> b mod 8 = 0 \<Longrightarrow> page_of b \<noteq> p \<Longrightarrow> rd (wipe m p) b = rd m b"
begin

text \<open>Writing one entry of a table changes that entry and no other entry of any table.\<close>

lemma entry_write:
  assumes "t mod PAGE_SIZE = 0" "i < PT_ENTRIES" "t' mod PAGE_SIZE = 0" "i' < PT_ENTRIES"
  shows "rd (wr m (t + i * 8) v) (t' + i' * 8) =
    (if t' = t \<and> i' = i then v else rd m (t' + i' * 8))"
proof (cases "t' = t \<and> i' = i")
  case True
  then show ?thesis by (simp add: rd_wr_same)
next
  case False
  then have "t + i * 8 \<noteq> t' + i' * 8" using entry_addr_inj [OF assms] by auto
  with False show ?thesis
    using rd_wr_other [OF entry_addr(1) [OF assms(1,2)] entry_addr(1) [OF assms(3,4)]] by auto
qed

text \<open>Zeroing a page makes it an empty table and leaves every other table alone.\<close>

lemma entry_wipe:
  assumes "p mod PAGE_SIZE = 0" "t mod PAGE_SIZE = 0" "i < PT_ENTRIES"
  shows "rd (wipe m p) (t + i * 8) = (if t = p then 0 else rd m (t + i * 8))"
  using entry_addr [OF assms(2,3)] rd_wipe_in [OF assms(1), of "t + i * 8" m]
    rd_wipe_other [OF assms(1), of "t + i * 8" m] by presburger

text \<open>A new table is linked by wiping its page and writing one branch entry elsewhere.\<close>

lemma entry_link:
  assumes "p mod PAGE_SIZE = 0" "t mod PAGE_SIZE = 0" "i < PT_ENTRIES"
    "t' mod PAGE_SIZE = 0" "i' < PT_ENTRIES" "t \<noteq> p"
  shows "rd (wr (wipe m p) (t + i * 8) v) (t' + i' * 8) =
    (if t' = t \<and> i' = i then v else if t' = p then 0 else rd m (t' + i' * 8))"
  using assms by (simp add: entry_write entry_wipe)

end

interpretation phys: word_store load64 store64 zero_page
proof
  show "load64 (store64 m a v) a = v" for m a v
    by (rule load64_store64_same)
  show "load64 (store64 m a v) b = load64 m b" if "a mod 8 = 0" "b mod 8 = 0" "a \<noteq> b" for m a b v
    using that by (rule load64_store64_other)
  show "load64 (zero_page m p) b = 0" if "p mod PAGE_SIZE = 0" "b mod 8 = 0" "page_of b = p" for m p b
    using that by (rule load64_zero_page_in)
  show "load64 (zero_page m p) b = load64 m b"
    if "p mod PAGE_SIZE = 0" "b mod 8 = 0" "page_of b \<noteq> p" for m p b
    using that by (rule load64_zero_page_other)
qed

end
