(* ===== verification/Pt_Tree.thy ===== *)
theory Pt_Tree
  imports Mem
begin

text \<open>
  The shape of Sv39 tables in memory.  A set of root tables is well formed when the tables
  below them form disjoint trees of depth three on live, page-aligned pages: no page is used
  as a table twice, whatever the path or the address space, the two upper levels hold only
  branches and the lowest level only leaves.

  The two lemmas \<open>tree_link\<close> and \<open>tree_leaf\<close> say what the two ways of writing an entry do:
  linking a fresh zeroed table and setting or clearing a leaf.  Everything the kernel does to
  page tables is a sequence of these.
\<close>

section \<open>Trees of tables\<close>

fun table_at :: "(usize \<Rightarrow> u64) \<Rightarrow> usize \<Rightarrow> usize list \<Rightarrow> usize option" where
  "table_at rd t [] = Some t"
| "table_at rd t (i # p) =
     (if i < PT_ENTRIES \<and> Pte_is_branch (entry rd t i)
      then table_at rd (Pte_phys_addr (entry rd t i)) p else None)"

definition tables :: "(usize \<Rightarrow> u64) \<Rightarrow> usize set \<Rightarrow> usize set" where
  "tables rd R = {t. \<exists>r \<in> R. \<exists>p. length p \<le> 2 \<and> table_at rd r p = Some t}"

definition pt_wf :: "(usize \<Rightarrow> u64) \<Rightarrow> usize set \<Rightarrow> usize set \<Rightarrow> bool" where
  "pt_wf rd R L \<longleftrightarrow>
     (\<forall>t \<in> tables rd R. t \<in> L \<and> t mod PAGE_SIZE = 0) \<and>
     (\<forall>r \<in> R. \<forall>r' \<in> R. \<forall>p p' t. length p \<le> 2 \<longrightarrow> length p' \<le> 2 \<longrightarrow>
        table_at rd r p = Some t \<longrightarrow> table_at rd r' p' = Some t \<longrightarrow> r = r' \<and> p = p') \<and>
     (\<forall>r \<in> R. \<forall>p t i. table_at rd r p = Some t \<longrightarrow> i < PT_ENTRIES \<longrightarrow> Pte_is_valid (entry rd t i) \<longrightarrow>
        (length p < 2 \<longrightarrow> Pte_is_branch (entry rd t i)) \<and> (length p = 2 \<longrightarrow> Pte_is_leaf (entry rd t i)))"

lemma tablesI: "r \<in> R \<Longrightarrow> length p \<le> 2 \<Longrightarrow> table_at rd r p = Some t \<Longrightarrow> t \<in> tables rd R"
  by (auto simp: tables_def)

lemma tables_mono_roots: "R \<subseteq> R' \<Longrightarrow> tables rd R \<subseteq> tables rd R'"
  by (auto simp: tables_def)

lemma pt_wf_tables: "pt_wf rd R L \<Longrightarrow> t \<in> tables rd R \<Longrightarrow> t \<in> L \<and> t mod PAGE_SIZE = 0"
  by (simp only: pt_wf_def)

lemma pt_wf_inj:
  "pt_wf rd R L \<Longrightarrow> r \<in> R \<Longrightarrow> r' \<in> R \<Longrightarrow> length p \<le> 2 \<Longrightarrow> length p' \<le> 2 \<Longrightarrow>
   table_at rd r p = Some t \<Longrightarrow> table_at rd r' p' = Some t \<Longrightarrow> r = r' \<and> p = p'"
  unfolding pt_wf_def by (elim conjE) metis

lemma pt_wf_kinds:
  "pt_wf rd R L \<Longrightarrow> r \<in> R \<Longrightarrow> table_at rd r p = Some t \<Longrightarrow> i < PT_ENTRIES \<Longrightarrow> Pte_is_valid (entry rd t i) \<Longrightarrow>
   (length p < 2 \<longrightarrow> Pte_is_branch (entry rd t i)) \<and> (length p = 2 \<longrightarrow> Pte_is_leaf (entry rd t i))"
  unfolding pt_wf_def by (elim conjE) metis

lemma pt_wfI:
  assumes "\<And>t. t \<in> tables rd R \<Longrightarrow> t \<in> L \<and> t mod PAGE_SIZE = 0"
    and "\<And>r r' p p' t. r \<in> R \<Longrightarrow> r' \<in> R \<Longrightarrow> length p \<le> 2 \<Longrightarrow> length p' \<le> 2 \<Longrightarrow>
      table_at rd r p = Some t \<Longrightarrow> table_at rd r' p' = Some t \<Longrightarrow> r = r' \<and> p = p'"
    and "\<And>r p t i. r \<in> R \<Longrightarrow> table_at rd r p = Some t \<Longrightarrow> i < PT_ENTRIES \<Longrightarrow> Pte_is_valid (entry rd t i) \<Longrightarrow>
      (length p < 2 \<longrightarrow> Pte_is_branch (entry rd t i)) \<and> (length p = 2 \<longrightarrow> Pte_is_leaf (entry rd t i))"
  shows "pt_wf rd R L"
  unfolding pt_wf_def
proof (intro conjI)
  show "\<forall>t \<in> tables rd R. t \<in> L \<and> t mod PAGE_SIZE = 0" by (intro ballI assms(1))
qed (use assms(2,3) in \<open>metis+\<close>)

lemma pt_wfD:
  assumes "pt_wf rd R L" "r \<in> R" "table_at rd r p = Some t" "length p \<le> 2"
  shows "t \<in> L" "t mod PAGE_SIZE = 0"
  using pt_wf_tables [OF assms(1) tablesI [OF assms(2,4,3)]] by (rule conjunct1, rule conjunct2)

lemma pt_wf_mono:
  assumes "pt_wf rd R L" "L \<subseteq> L'"
  shows "pt_wf rd R L'"
proof (rule pt_wfI)
  show "t \<in> L' \<and> t mod PAGE_SIZE = 0" if "t \<in> tables rd R" for t
    using pt_wf_tables [OF assms(1) that] assms(2) by blast
qed (rule pt_wf_inj [OF assms(1)] pt_wf_kinds [OF assms(1)]; assumption)+

lemma pt_wf_roots:
  assumes "pt_wf rd R L" "R' \<subseteq> R"
  shows "pt_wf rd R' L"
proof (rule pt_wfI)
  show "t \<in> L \<and> t mod PAGE_SIZE = 0" if "t \<in> tables rd R'" for t
    using pt_wf_tables [OF assms(1)] tables_mono_roots [OF assms(2)] that by blast
qed (rule pt_wf_inj [OF assms(1)] pt_wf_kinds [OF assms(1)]; (assumption | erule subsetD [OF assms(2)]))+

lemma table_at_snoc:
  "table_at rd r (p @ [i]) =
     (case table_at rd r p of None \<Rightarrow> None
      | Some t \<Rightarrow> if i < PT_ENTRIES \<and> Pte_is_branch (entry rd t i)
                then Some (Pte_phys_addr (entry rd t i)) else None)"
  by (induction p arbitrary: r) auto

lemma walk_table_at:
  assumes "va_parts va = (i, j, k, off)"
  shows "walk r va rd =
    (case table_at rd r [i, j] of None \<Rightarrow> None
     | Some t \<Rightarrow> let e = entry rd t k in
         if Pte_is_leaf e then Some \<lparr>wr_phys = Pte_phys_addr e + off, wr_flags = Pte_flags e\<rparr> else None)"
  using va_parts_bounds(1,2) [OF assms] unfolding walk_lookups [OF assms refl refl refl]
  by (simp add: Let_def)

section \<open>Linking a fresh table\<close>

text \<open>
  \<open>links\<close>: the tables as seen through \<open>rd'\<close> are those of \<open>rd\<close>, but page \<open>f\<close> is an empty table and
  entry \<open>i\<close> of table \<open>t\<close> branches to it.  \<open>sets_entry\<close>: entry \<open>k\<close> of \<open>t\<close> now holds \<open>e\<close>.
\<close>

definition links :: "(usize \<Rightarrow> u64) \<Rightarrow> (usize \<Rightarrow> u64) \<Rightarrow> usize \<Rightarrow> usize \<Rightarrow> usize \<Rightarrow> bool" where
  "links rd rd' t i f \<longleftrightarrow>
     (\<forall>t' i'. t' mod PAGE_SIZE = 0 \<longrightarrow> i' < PT_ENTRIES \<longrightarrow>
        entry rd' t' i' = (if t' = t \<and> i' = i then Pte_branch f else if t' = f then 0 else entry rd t' i'))"

definition sets_entry :: "(usize \<Rightarrow> u64) \<Rightarrow> (usize \<Rightarrow> u64) \<Rightarrow> usize \<Rightarrow> usize \<Rightarrow> pte \<Rightarrow> bool" where
  "sets_entry rd rd' t k e \<longleftrightarrow>
     (\<forall>t' k'. t' mod PAGE_SIZE = 0 \<longrightarrow> k' < PT_ENTRIES \<longrightarrow>
        entry rd' t' k' = (if t' = t \<and> k' = k then e else entry rd t' k'))"

definition adds_root :: "(usize \<Rightarrow> u64) \<Rightarrow> (usize \<Rightarrow> u64) \<Rightarrow> usize \<Rightarrow> bool" where
  "adds_root rd rd' f \<longleftrightarrow>
     (\<forall>t' i'. t' mod PAGE_SIZE = 0 \<longrightarrow> i' < PT_ENTRIES \<longrightarrow>
        entry rd' t' i' = (if t' = f then 0 else entry rd t' i'))"

lemma links_fresh: "links rd rd' t i f \<Longrightarrow> f \<noteq> t \<Longrightarrow> f mod PAGE_SIZE = 0 \<Longrightarrow> j < PT_ENTRIES \<Longrightarrow> entry rd' f j = 0"
  by (simp only: links_def if_True if_False simp_thms)

lemma links_new: "links rd rd' t i f \<Longrightarrow> t mod PAGE_SIZE = 0 \<Longrightarrow> i < PT_ENTRIES \<Longrightarrow> entry rd' t i = Pte_branch f"
  by (simp only: links_def if_True if_False simp_thms)

lemma links_same:
  "links rd rd' t i f \<Longrightarrow> u mod PAGE_SIZE = 0 \<Longrightarrow> j < PT_ENTRIES \<Longrightarrow> u \<noteq> f \<Longrightarrow> \<not> (u = t \<and> j = i) \<Longrightarrow>
   entry rd' u j = entry rd u j"
  by (simp only: links_def if_True if_False simp_thms)

text \<open>Linking: every path keeps its table, and the linked path leads to the new one.\<close>

lemma tree_link_paths:
  assumes wf: "pt_wf rd R L"
    and r: "r \<in> R" and p: "length p < 2" and t: "table_at rd r p = Some t"
    and i: "i < PT_ENTRIES" and inv: "\<not> Pte_is_valid (entry rd t i)"
    and f: "f \<notin> L" "f mod PAGE_SIZE = 0"
    and rd': "links rd rd' t i f"
    and q: "r' \<in> R" "length q \<le> 2"
  shows "table_at rd' r' q = (if r' = r \<and> q = p @ [i] then Some f else table_at rd r' q)"
  using q(2)
proof (induction q rule: rev_induct)
  case Nil
  then show ?case by simp
next
  case (snoc j q)
  have len: "length q < 2" using snoc.prems by simp
  have IH: "table_at rd' r' q = (if r' = r \<and> q = p @ [i] then Some f else table_at rd r' q)"
    using snoc by simp
  have nb: "\<not> Pte_is_branch (entry rd t i)" using inv by (simp add: Pte_is_branch_def)
  show ?case
  proof (cases "r' = r \<and> q = p @ [i]")
    case True
    have "table_at rd r (p @ [i]) = None" using t nb by (simp add: table_at_snoc)
    moreover have "j < PT_ENTRIES \<Longrightarrow> entry rd' f j = 0"
      using links_fresh [OF rd' _ f(2)] pt_wfD(1) [OF wf r t] p f(1) by auto
    ultimately show ?thesis using True IH table_at_snoc [of _ r "p @ [i]" j] by auto
  next
    case False
    then have same: "table_at rd' r' q = table_at rd r' q" using IH by auto
    show ?thesis
    proof (cases "table_at rd r' q")
      case None
      then have "\<not> (r' = r \<and> q = p)" using t by auto
      then show ?thesis using None same by (auto simp: table_at_snoc)
    next
      case (Some u)
      have u: "u \<in> L" "u mod PAGE_SIZE = 0" using pt_wfD [OF wf q(1) Some] len by auto
      have eq: "u = t \<longleftrightarrow> r' = r \<and> q = p"
        using pt_wf_inj [OF wf q(1) r _ _ Some, of p] t len p Some by auto
      have e: "j < PT_ENTRIES \<Longrightarrow>
          entry rd' u j = (if u = t \<and> j = i then Pte_branch f else entry rd u j)"
        using links_new [OF rd'] links_same [OF rd' u(2)] u f by auto
      show ?thesis
        using same Some e eq i nb f(2)
        by (auto simp: table_at_snoc Pte_branch_kind Pte_branch_phys)
    qed
  qed
qed

lemma tree_link_tables:
  assumes "pt_wf rd R L" "r \<in> R" "length p < 2" "table_at rd r p = Some t"
    "i < PT_ENTRIES" "\<not> Pte_is_valid (entry rd t i)" "f \<notin> L" "f mod PAGE_SIZE = 0" "links rd rd' t i f"
  shows "tables rd' R = insert f (tables rd R)"
proof -
  note paths = tree_link_paths [OF assms]
  have none: "table_at rd r (p @ [i]) = None"
    using assms(4,6) by (simp add: table_at_snoc Pte_is_branch_def)
  have "f \<in> tables rd' R"
    using paths [of r "p @ [i]"] assms(2,3) by (intro tablesI [of r _ "p @ [i]"]) auto
  moreover have "u \<in> tables rd' R" if "u \<in> tables rd R" for u
    using that none paths assms(2) unfolding tables_def by (smt (verit) mem_Collect_eq option.distinct(1))
  moreover have "u = f \<or> u \<in> tables rd R" if "u \<in> tables rd' R" for u
    using that paths unfolding tables_def by (smt (verit) mem_Collect_eq option.inject)
  ultimately show ?thesis by blast
qed

lemma tree_link:
  assumes "pt_wf rd R L" "r \<in> R" "length p < 2" "table_at rd r p = Some t"
    "i < PT_ENTRIES" "\<not> Pte_is_valid (entry rd t i)" "f \<notin> L" "f mod PAGE_SIZE = 0" "links rd rd' t i f"
  shows "pt_wf rd' R (insert f L)"
proof (rule pt_wfI)
  note paths = tree_link_paths [OF assms]
  note wf = assms(1)
  have t: "t \<in> L" "t mod PAGE_SIZE = 0" using pt_wfD [OF wf assms(2,4)] assms(3) by auto
  {
    fix u assume "u \<in> tables rd' R"
    then show "u \<in> insert f L \<and> u mod PAGE_SIZE = 0"
      using pt_wf_tables [OF wf] assms(8) tree_link_tables [OF assms] by auto
  next
    fix r1 r2 q1 q2 u
    assume a: "r1 \<in> R" "r2 \<in> R" "length q1 \<le> 2" "length q2 \<le> 2"
      "table_at rd' r1 q1 = Some u" "table_at rd' r2 q2 = Some u"
    have "u \<noteq> f" if "table_at rd r' q' = Some u" "r' \<in> R" "length q' \<le> 2" for r' q'
      using pt_wfD(1) [OF wf that(2,1,3)] assms(7) by auto
    then show "r1 = r2 \<and> q1 = q2"
      using a paths [OF a(1,3)] paths [OF a(2,4)] pt_wf_inj [OF wf a(1,2,3,4)]
      by (auto split: if_splits)
  next
    fix r1 q u j
    assume a: "r1 \<in> R" "table_at rd' r1 q = Some u" "j < PT_ENTRIES" "Pte_is_valid (entry rd' u j)"
    have "(u = t \<and> j = i \<and> length q < 2) \<or> (table_at rd r1 q = Some u \<and> entry rd' u j = entry rd u j)"
      if len: "length q \<le> 2"
    proof (cases "r1 = r \<and> q = p @ [i]")
      case True
      then have "u = f" using paths [OF a(1) len] a(2) by simp
      then have "entry rd' u j = 0" using links_fresh [OF assms(9) _ assms(8) a(3)] t assms(7) by auto
      then show ?thesis using a(4) by simp
    next
      case False
      then have u: "table_at rd r1 q = Some u" using paths [OF a(1) len] a(2) by auto
      have "u \<in> L" "u mod PAGE_SIZE = 0" using pt_wfD [OF wf a(1) u len] .
      then have "u = t \<and> j = i \<or> entry rd' u j = entry rd u j"
        using links_same [OF assms(9) _ a(3)] assms(7) by auto
      moreover have "u = t \<Longrightarrow> length q < 2"
        using pt_wf_inj [OF wf a(1) assms(2) len _ u, of p] assms(3,4) by auto
      ultimately show ?thesis using u by auto
    qed
    moreover have "Pte_is_branch (entry rd' t i)"
      using links_new [OF assms(9) t(2) assms(5)] Pte_branch_kind by simp
    ultimately show "(length q < 2 \<longrightarrow> Pte_is_branch (entry rd' u j)) \<and> (length q = 2 \<longrightarrow> Pte_is_leaf (entry rd' u j))"
      using pt_wf_kinds [OF wf a(1) _ a(3)] a(4) by (metis less_imp_le less_irrefl order_refl)
  }
qed

lemma tree_link_walk:
  assumes "pt_wf rd R L" "r \<in> R" "length p < 2" "table_at rd r p = Some t"
    "i < PT_ENTRIES" "\<not> Pte_is_valid (entry rd t i)" "f \<notin> L" "f mod PAGE_SIZE = 0" "links rd rd' t i f"
    and r': "r' \<in> R"
  shows "walk r' va rd' = walk r' va rd"
proof -
  obtain x y z off where va: "va_parts va = (x, y, z, off)" by (metis prod_cases4)
  have path: "table_at rd' r' [x, y] = (if r' = r \<and> [x, y] = p @ [i] then Some f else table_at rd r' [x, y])"
    by (rule tree_link_paths [OF assms(1-9) r']) simp
  have z: "z < PT_ENTRIES" using va_parts_bounds [OF va] by simp
  have none: "table_at rd r (p @ [i]) = None"
    using assms(4,6) by (simp add: table_at_snoc Pte_is_branch_def)
  show ?thesis
  proof (cases "r' = r \<and> [x, y] = p @ [i]")
    case True
    have "entry rd' f z = 0"
      using links_fresh [OF assms(9) _ assms(8) z] pt_wfD(1) [OF assms(1,2,4)] assms(3,7) by auto
    then show ?thesis
      unfolding walk_table_at [OF va] path using True none by (auto simp del: table_at.simps)
  next
    case False
    then have same: "table_at rd' r' [x, y] = table_at rd r' [x, y]" using path by (auto simp del: table_at.simps)
    have "entry rd' u z = entry rd u z" if u: "table_at rd r' [x, y] = Some u" for u
    proof -
      have "u \<noteq> t" using pt_wf_inj [OF assms(1) r' assms(2) _ _ u, of p] assms(3,4) by auto
      moreover have "u \<noteq> f" "u mod PAGE_SIZE = 0" using pt_wfD [OF assms(1) r' u] assms(7) by auto
      ultimately show ?thesis using links_same [OF assms(9) _ z] by auto
    qed
    then show ?thesis
      unfolding walk_table_at [OF va] same by (simp split: option.split del: table_at.simps)
  qed
qed

section \<open>Setting a leaf\<close>

lemma sets_entry_at: "sets_entry rd rd' t k e \<Longrightarrow> t mod PAGE_SIZE = 0 \<Longrightarrow> k < PT_ENTRIES \<Longrightarrow> entry rd' t k = e"
  by (simp only: sets_entry_def if_True simp_thms)

lemma sets_entry_same:
  "sets_entry rd rd' t k e \<Longrightarrow> u mod PAGE_SIZE = 0 \<Longrightarrow> j < PT_ENTRIES \<Longrightarrow> \<not> (u = t \<and> j = k) \<Longrightarrow>
   entry rd' u j = entry rd u j"
  by (simp only: sets_entry_def if_False simp_thms)

lemma tree_leaf_paths:
  assumes wf: "pt_wf rd R L" and r: "r \<in> R" and p: "length p = 2" and t: "table_at rd r p = Some t"
    and e: "sets_entry rd rd' t k e"
    and q: "r' \<in> R" "length q \<le> 2"
  shows "table_at rd' r' q = table_at rd r' q"
  using q(2)
proof (induction q rule: rev_induct)
  case (snoc j q)
  have len: "length q < 2" using snoc.prems by simp
  have "entry rd' u j = entry rd u j" if "table_at rd r' q = Some u" "j < PT_ENTRIES" for u
  proof -
    have "u \<noteq> t" using pt_wf_inj [OF wf q(1) r _ _ that(1), of p] len p t by auto
    then show ?thesis
      using sets_entry_same [OF e] pt_wfD(2) [OF wf q(1) that(1)] len that(2) by auto
  qed
  then show ?case using snoc by (auto simp: table_at_snoc split: option.split)
qed simp

lemma tree_leaf_tables:
  assumes "pt_wf rd R L" "r \<in> R" "length p = 2" "table_at rd r p = Some t" "sets_entry rd rd' t k e"
  shows "tables rd' R = tables rd R"
  unfolding tables_def using tree_leaf_paths [OF assms]
  by (intro Collect_cong bex_cong refl ex_cong1 conj_cong) auto

lemma tree_leaf:
  assumes "pt_wf rd R L" "r \<in> R" "length p = 2" "table_at rd r p = Some t" "sets_entry rd rd' t k e"
    and "Pte_is_valid e \<longrightarrow> Pte_is_leaf e" and "k < PT_ENTRIES"
  shows "pt_wf rd' R L"
proof (rule pt_wfI)
  note wf = assms(1)
  note paths = tree_leaf_paths [OF assms(1-5)]
  show "u \<in> L \<and> u mod PAGE_SIZE = 0" if "u \<in> tables rd' R" for u
    using pt_wf_tables [OF wf] that unfolding tree_leaf_tables [OF assms(1-5)] .
  show "r1 = r2 \<and> q1 = q2"
    if "r1 \<in> R" "r2 \<in> R" "length q1 \<le> 2" "length q2 \<le> 2" "table_at rd' r1 q1 = Some u" "table_at rd' r2 q2 = Some u"
    for r1 r2 q1 q2 u
    using pt_wf_inj [OF wf that(1-4)] that(5,6) paths [OF that(1,3)] paths [OF that(2,4)] by simp
  fix r1 q u j
  assume a: "r1 \<in> R" "table_at rd' r1 q = Some u" "j < PT_ENTRIES" "Pte_is_valid (entry rd' u j)"
  show "(length q < 2 \<longrightarrow> Pte_is_branch (entry rd' u j)) \<and> (length q = 2 \<longrightarrow> Pte_is_leaf (entry rd' u j))"
  proof (cases "length q \<le> 2")
    case True
    then have u: "table_at rd r1 q = Some u" using paths [OF a(1)] a(2) by simp
    have al: "u mod PAGE_SIZE = 0" by (rule pt_wfD(2) [OF wf a(1) u True])
    show ?thesis
    proof (cases "u = t \<and> j = k")
      case True
      then have "length q = 2"
        using pt_wf_inj [OF wf a(1) assms(2) \<open>length q \<le> 2\<close> _ u, of p] assms(3,4) by auto
      then show ?thesis using True sets_entry_at [OF assms(5) _ assms(7)] al a(4) assms(6) by auto
    next
      case False
      then show ?thesis
        using sets_entry_same [OF assms(5) al a(3) False] pt_wf_kinds [OF wf a(1) u a(3)] a(4) by simp
    qed
  qed simp
qed

lemma tree_leaf_walk:
  assumes "pt_wf rd R L" "r \<in> R" "table_at rd r [i, j] = Some t" "sets_entry rd rd' t k e"
    and "k < PT_ENTRIES" and r': "r' \<in> R" and va: "va_parts va = (x, y, z, off)"
  shows "walk r' va rd' =
    (if r' = r \<and> x = i \<and> y = j \<and> z = k
     then (if Pte_is_leaf e then Some \<lparr>wr_phys = Pte_phys_addr e + off, wr_flags = Pte_flags e\<rparr> else None)
     else walk r' va rd)"
proof -
  have same: "table_at rd' r' [x, y] = table_at rd r' [x, y]"
    by (rule tree_leaf_paths [OF assms(1,2) _ assms(3,4) r']) simp_all
  have z: "z < PT_ENTRIES" using va_parts_bounds [OF va] by simp
  have t: "t mod PAGE_SIZE = 0" using pt_wfD(2) [OF assms(1-3)] by simp
  show ?thesis
  proof (cases "r' = r \<and> x = i \<and> y = j \<and> z = k")
    case True
    then show ?thesis
      unfolding walk_table_at [OF va] same using assms(3) sets_entry_at [OF assms(4) t assms(5)]
      by (simp add: Let_def del: table_at.simps)
  next
    case False
    have "entry rd' u z = entry rd u z" if u: "table_at rd r' [x, y] = Some u" for u
    proof (rule sets_entry_same [OF assms(4) _ z])
      show "u mod PAGE_SIZE = 0" using pt_wfD(2) [OF assms(1) r' u] by simp
      show "\<not> (u = t \<and> z = k)"
        using pt_wf_inj [OF assms(1) r' assms(2) _ _ u, of "[i, j]"] assms(3) False by auto
    qed
    then have "walk r' va rd' = walk r' va rd"
      unfolding walk_table_at [OF va] same by (simp split: option.split del: table_at.simps)
    then show ?thesis by (simp only: if_not_P [OF False])
  qed
qed

section \<open>A new root\<close>

lemma adds_root_same:
  "adds_root rd rd' f \<Longrightarrow> u mod PAGE_SIZE = 0 \<Longrightarrow> j < PT_ENTRIES \<Longrightarrow> u \<noteq> f \<Longrightarrow> entry rd' u j = entry rd u j"
  by (simp only: adds_root_def if_False simp_thms)

lemma adds_root_empty:
  "adds_root rd rd' f \<Longrightarrow> f mod PAGE_SIZE = 0 \<Longrightarrow> j < PT_ENTRIES \<Longrightarrow> entry rd' f j = 0"
  by (simp only: adds_root_def if_True simp_thms)

lemma tree_root_paths:
  assumes wf: "pt_wf rd R L" and f: "f \<notin> L" and a: "adds_root rd rd' f" and q: "r \<in> R" "length q \<le> 2"
  shows "table_at rd' r q = table_at rd r q"
  using q(2)
proof (induction q rule: rev_induct)
  case (snoc j q)
  have "entry rd' u j = entry rd u j" if "table_at rd r q = Some u" "j < PT_ENTRIES" for u
    using adds_root_same [OF a _ that(2), of u] pt_wfD [OF wf q(1) that(1)] snoc.prems f by auto
  then show ?case using snoc by (auto simp: table_at_snoc split: option.split)
qed simp

lemma tree_root_fresh:
  assumes "f mod PAGE_SIZE = 0" "adds_root rd rd' f"
  shows "table_at rd' f q = (if q = [] then Some f else None)"
  using adds_root_empty [OF assms(2,1)] by (cases q) auto

lemma tree_root_walk:
  assumes "pt_wf rd R L" "f \<notin> L" "f mod PAGE_SIZE = 0" "adds_root rd rd' f"
  shows "walk f va rd' = None" and "r \<in> R \<Longrightarrow> walk r va rd' = walk r va rd"
proof -
  obtain x y z off where va: "va_parts va = (x, y, z, off)" by (metis prod_cases4)
  have z: "z < PT_ENTRIES" using va_parts_bounds [OF va] by simp
  show "walk f va rd' = None"
    unfolding walk_table_at [OF va] tree_root_fresh [OF assms(3,4)] by simp
  assume r: "r \<in> R"
  have same: "table_at rd' r [x, y] = table_at rd r [x, y]"
    by (rule tree_root_paths [OF assms(1,2,4) r]) simp
  have "entry rd' u z = entry rd u z" if u: "table_at rd r [x, y] = Some u" for u
    using adds_root_same [OF assms(4) _ z, of u] pt_wfD [OF assms(1) r u] assms(2) by auto
  then show "walk r va rd' = walk r va rd"
    unfolding walk_table_at [OF va] same by (simp split: option.split del: table_at.simps)
qed

lemma tree_root:
  assumes "pt_wf rd R L" "f \<notin> L" "f mod PAGE_SIZE = 0" "adds_root rd rd' f"
  shows "pt_wf rd' (insert f R) (insert f L)" and "tables rd' (insert f R) = insert f (tables rd R)"
proof -
  note wf = assms(1)
  note paths = tree_root_paths [OF assms(1,2,4)]
  note fresh = tree_root_fresh [OF assms(3,4)]
  have nf: "u \<noteq> f" if "r \<in> R" "table_at rd r q = Some u" "length q \<le> 2" for r q u
    using pt_wfD(1) [OF wf that] assms(2) by auto
  have fR: "f \<notin> R" using nf [of f "[]"] by auto
  show tabs: "tables rd' (insert f R) = insert f (tables rd R)"
    unfolding tables_def using paths by (auto simp: fresh split: if_splits; blast)
  show "pt_wf rd' (insert f R) (insert f L)"
  proof (rule pt_wfI)
    show "u \<in> insert f L \<and> u mod PAGE_SIZE = 0" if "u \<in> tables rd' (insert f R)" for u
      using that pt_wf_tables [OF wf] assms(3) unfolding tabs by auto
    show "r1 = r2 \<and> q1 = q2"
      if "r1 \<in> insert f R" "r2 \<in> insert f R" "length q1 \<le> 2" "length q2 \<le> 2"
        "table_at rd' r1 q1 = Some u" "table_at rd' r2 q2 = Some u" for r1 r2 q1 q2 u
      using that paths nf pt_wf_inj [OF wf, of r1 r2 q1 q2 u]
      by (auto simp: fresh split: if_splits; blast)
    fix r1 q u j
    assume a: "r1 \<in> insert f R" "table_at rd' r1 q = Some u" "j < PT_ENTRIES" "Pte_is_valid (entry rd' u j)"
    show "(length q < 2 \<longrightarrow> Pte_is_branch (entry rd' u j)) \<and> (length q = 2 \<longrightarrow> Pte_is_leaf (entry rd' u j))"
    proof (cases "r1 = f")
      case True
      then show ?thesis using a adds_root_empty [OF assms(4,3) a(3)] by (auto simp: fresh split: if_splits)
    next
      case False
      then have r1: "r1 \<in> R" using a by simp
      show ?thesis
      proof (cases "length q \<le> 2")
        case True
        then have u: "table_at rd r1 q = Some u" using paths [OF r1] a(2) by simp
        have "entry rd' u j = entry rd u j"
          using adds_root_same [OF assms(4) _ a(3)] pt_wfD [OF wf r1 u True] assms(2) by auto
        then show ?thesis using pt_wf_kinds [OF wf r1 u a(3)] a(4) by simp
      qed simp
    qed
  qed
qed

section \<open>Frame\<close>

text \<open>Whatever leaves the table pages alone leaves the address spaces alone.\<close>

lemma tree_frame_paths:
  assumes "\<forall>t i. t \<in> tables rd R \<longrightarrow> i < PT_ENTRIES \<longrightarrow> entry rd' t i = entry rd t i"
    and "r \<in> R" "length q \<le> 2"
  shows "table_at rd' r q = table_at rd r q"
  using assms(3)
proof (induction q rule: rev_induct)
  case (snoc j q)
  have "entry rd' u j = entry rd u j" if "table_at rd r q = Some u" "j < PT_ENTRIES" for u
    using assms(1) tablesI [OF assms(2) _ that(1)] that(2) snoc.prems by simp
  then show ?case using snoc by (auto simp: table_at_snoc split: option.split)
qed simp

lemma tree_frame:
  assumes "\<forall>t i. t \<in> tables rd R \<longrightarrow> i < PT_ENTRIES \<longrightarrow> entry rd' t i = entry rd t i"
  shows "tables rd' R = tables rd R"
    and "r \<in> R \<Longrightarrow> walk r va rd' = walk r va rd"
    and "pt_wf rd R L \<Longrightarrow> pt_wf rd' R L"
proof -
  note paths = tree_frame_paths [OF assms]
  show tabs: "tables rd' R = tables rd R"
    unfolding tables_def using paths by (intro Collect_cong bex_cong refl ex_cong1 conj_cong) auto
  show "walk r va rd' = walk r va rd" if r: "r \<in> R"
  proof -
    obtain x y z off where va: "va_parts va = (x, y, z, off)" by (metis prod_cases4)
    have z: "z < PT_ENTRIES" using va_parts_bounds [OF va] by simp
    have same: "table_at rd' r [x, y] = table_at rd r [x, y]" by (rule paths [OF r]) simp
    have "entry rd' u z = entry rd u z" if "table_at rd r [x, y] = Some u" for u
      using assms tablesI [OF r _ that] z by simp
    then show ?thesis
      unfolding walk_table_at [OF va] same by (simp split: option.split del: table_at.simps)
  qed
  assume wf: "pt_wf rd R L"
  show "pt_wf rd' R L"
  proof (rule pt_wfI)
    show "t \<in> L \<and> t mod PAGE_SIZE = 0" if "t \<in> tables rd' R" for t
      using pt_wf_tables [OF wf] that unfolding tabs .
    show "r = r' \<and> p = p'"
      if "r \<in> R" "r' \<in> R" "length p \<le> 2" "length p' \<le> 2" "table_at rd' r p = Some t" "table_at rd' r' p' = Some t"
      for r r' p p' t
      using pt_wf_inj [OF wf that(1-4)] that(5,6) paths [OF that(1,3)] paths [OF that(2,4)] by simp
    fix r p t i
    assume a: "r \<in> R" "table_at rd' r p = Some t" "i < PT_ENTRIES" "Pte_is_valid (entry rd' t i)"
    show "(length p < 2 \<longrightarrow> Pte_is_branch (entry rd' t i)) \<and> (length p = 2 \<longrightarrow> Pte_is_leaf (entry rd' t i))"
    proof (cases "length p \<le> 2")
      case True
      then have t: "table_at rd r p = Some t" using paths [OF a(1) True] a(2) by simp
      then show ?thesis
        using assms tablesI [OF a(1) True t] a(3) pt_wf_kinds [OF wf a(1) t a(3)] a(4) by simp
    qed simp
  qed
qed

end
