(* ===== verification/Kvm.thy ===== *)
theory Kvm
  imports Pt_Tree
begin

unbundle bit_operations_syntax

text \<open>
  \<open>kvm.rs\<close>: building and changing Sv39 tables in physical memory, and the kernel's access to
  user buffers.  The record \<open>vm\<close> holds what the module owns or changes: memory, the global page
  allocator, the stored \<open>KERNEL_SATP\<close> and the \<open>satp\<close> register.  The kernel state of the later
  theories extends this record, so the operations are stated for any extension.  The linker
  symbols are a parameter, the record \<open>layout\<close>.
\<close>

section \<open>State and parameters\<close>

record layout =
  text_start :: usize
  text_end :: usize
  rodata_start :: usize
  rodata_end :: usize
  data_start :: usize
  data_end :: usize
  bss_start :: usize
  bss_end :: usize
  heap_start :: usize
  heap_end :: usize
  stack_top :: usize

record vm =
  ram :: mem
  page_bitmap :: bitmap_allocator
  kernel_satp :: u64
  satp :: u64

text \<open>Platform constants of the default (QEMU) build.\<close>

definition UART_BASE :: usize where "UART_BASE = 0x10000000"
definition PLIC_BASE :: usize where "PLIC_BASE = 0x0C000000"
definition PLIC_MAP_SIZE :: usize where "PLIC_MAP_SIZE = 4 * 1024 * 1024"
definition VIRTIO_MMIO_BASE :: usize where "VIRTIO_MMIO_BASE = 0x10001000"
definition VIRTIO_MMIO_STRIDE :: usize where "VIRTIO_MMIO_STRIDE = 0x1000"
definition VIRTIO_MMIO_SLOTS :: usize where "VIRTIO_MMIO_SLOTS = 8"

section \<open>Table operations\<close>

definition read_pte :: "'z vm_scheme \<Rightarrow> usize \<Rightarrow> usize \<Rightarrow> pte option" where
  "read_pte s table_phys index = do {
     assert_that (index < PT_ENTRIES);
     Some (load64 (ram s) (table_phys + index * 8))
   }"

definition write_pte :: "'z vm_scheme \<Rightarrow> usize \<Rightarrow> usize \<Rightarrow> pte \<Rightarrow> 'z vm_scheme option" where
  "write_pte s table_phys index pte = do {
     assert_that (index < PT_ENTRIES);
     Some (s\<lparr>ram := store64 (ram s) (table_phys + index * 8) pte\<rparr>)
   }"

definition alloc_zeroed_page :: "'z vm_scheme \<Rightarrow> (usize \<times> 'z vm_scheme) option" where
  "alloc_zeroed_page s = do {
     (page, a) \<leftarrow> expect_page (alloc (page_bitmap s));
     Some (page, s\<lparr>ram := zero_page (ram s) page, page_bitmap := a\<rparr>)
   }"

definition walk_or_create :: "'z vm_scheme \<Rightarrow> usize \<Rightarrow> usize \<Rightarrow> (usize \<times> 'z vm_scheme) option" where
  "walk_or_create s table_phys index = do {
     existing \<leftarrow> read_pte s table_phys index;
     if Pte_is_valid existing then do {
       assert_that (Pte_is_branch existing);
       Some (Pte_phys_addr existing, s)
     } else do {
       (new_table, s1) \<leftarrow> alloc_zeroed_page s;
       s2 \<leftarrow> write_pte s1 table_phys index (Pte_branch new_table);
       Some (new_table, s2)
     }
   }"

definition map_page :: "'z vm_scheme \<Rightarrow> usize \<Rightarrow> usize \<Rightarrow> usize \<Rightarrow> pte_flags \<Rightarrow> 'z vm_scheme option" where
  "map_page s root_phys va pa flags =
     (case va_parts va of (vpn2, vpn1, vpn0, _) \<Rightarrow> do {
        (level1_phys, s1) \<leftarrow> walk_or_create s root_phys vpn2;
        (level0_phys, s2) \<leftarrow> walk_or_create s1 level1_phys vpn1;
        write_pte s2 level0_phys vpn0 (Pte_new pa flags)
      })"

definition map_user_page :: "'z vm_scheme \<Rightarrow> usize \<Rightarrow> usize \<Rightarrow> usize \<Rightarrow> pte_flags \<Rightarrow> 'z vm_scheme option" where
  "map_user_page s root_phys va pa flags = map_page s root_phys va pa flags"

text \<open>
  The \<open>while addr < end_aligned\<close> loop of \<open>map_range\<close>.  Its value is \<open>None\<close> on a panic and also if
  the loop never ended; that it ends is proved below.
\<close>

partial_function (option) map_range_loop ::
  "usize \<Rightarrow> usize \<Rightarrow> pte_flags \<Rightarrow> usize \<Rightarrow> 'z vm_scheme \<Rightarrow> 'z vm_scheme option" where
  "map_range_loop root_phys end_aligned flags addr s =
     (if addr < end_aligned then do {
        s1 \<leftarrow> map_page s root_phys addr addr flags;
        map_range_loop root_phys end_aligned flags (addr + PAGE_SIZE) s1
      } else Some s)"

definition map_range :: "'z vm_scheme \<Rightarrow> usize \<Rightarrow> usize \<Rightarrow> usize \<Rightarrow> pte_flags \<Rightarrow> 'z vm_scheme option" where
  "map_range s root_phys start end flags =
     (let start_aligned = start AND NOT (PAGE_SIZE - 1);
          end_aligned = (end + PAGE_SIZE - 1) AND NOT (PAGE_SIZE - 1)
      in map_range_loop root_phys end_aligned flags start_aligned s)"

definition linker_range :: "usize \<Rightarrow> usize \<Rightarrow> (usize \<times> usize) option" where
  "linker_range s e = do { assert_that (s \<le> e); Some (s, e) }"

definition map_kernel_regions :: "layout \<Rightarrow> 'z vm_scheme \<Rightarrow> usize \<Rightarrow> 'z vm_scheme option" where
  "map_kernel_regions L s root_phys = do {
     (ts, te) \<leftarrow> linker_range (text_start L) (text_end L);
     (rs, re) \<leftarrow> linker_range (rodata_start L) (rodata_end L);
     (ds, de) \<leftarrow> linker_range (data_start L) (data_end L);
     (bs, be) \<leftarrow> linker_range (bss_start L) (bss_end L);
     s \<leftarrow> map_range s root_phys ts te KERNEL_RX;
     s \<leftarrow> map_range s root_phys rs re KERNEL_RO;
     s \<leftarrow> map_range s root_phys ds de KERNEL_RW;
     s \<leftarrow> map_range s root_phys bs be KERNEL_RW;
     s \<leftarrow> map_range s root_phys (heap_start L) (stack_top L) KERNEL_RW;
     s \<leftarrow> map_range s root_phys UART_BASE (UART_BASE + PAGE_SIZE) KERNEL_MMIO;
     s \<leftarrow> map_range s root_phys PLIC_BASE (PLIC_BASE + PLIC_MAP_SIZE) KERNEL_MMIO;
     map_range s root_phys VIRTIO_MMIO_BASE
       (VIRTIO_MMIO_BASE + VIRTIO_MMIO_SLOTS * VIRTIO_MMIO_STRIDE) KERNEL_MMIO
   }"

text \<open>\<open>kvm::init\<close> reads the same symbols, allocates the root and maps the same ranges.\<close>

definition kvm_init :: "layout \<Rightarrow> 'z vm_scheme \<Rightarrow> (usize \<times> 'z vm_scheme) option" where
  "kvm_init L s = do {
     (ts, te) \<leftarrow> linker_range (text_start L) (text_end L);
     (rs, re) \<leftarrow> linker_range (rodata_start L) (rodata_end L);
     (ds, de) \<leftarrow> linker_range (data_start L) (data_end L);
     (bs, be) \<leftarrow> linker_range (bss_start L) (bss_end L);
     (root_phys, s) \<leftarrow> alloc_zeroed_page s;
     s \<leftarrow> map_range s root_phys ts te KERNEL_RX;
     s \<leftarrow> map_range s root_phys rs re KERNEL_RO;
     s \<leftarrow> map_range s root_phys ds de KERNEL_RW;
     s \<leftarrow> map_range s root_phys bs be KERNEL_RW;
     s \<leftarrow> map_range s root_phys (heap_start L) (stack_top L) KERNEL_RW;
     s \<leftarrow> map_range s root_phys UART_BASE (UART_BASE + PAGE_SIZE) KERNEL_MMIO;
     s \<leftarrow> map_range s root_phys PLIC_BASE (PLIC_BASE + PLIC_MAP_SIZE) KERNEL_MMIO;
     s \<leftarrow> map_range s root_phys VIRTIO_MMIO_BASE
       (VIRTIO_MMIO_BASE + VIRTIO_MMIO_SLOTS * VIRTIO_MMIO_STRIDE) KERNEL_MMIO;
     Some (root_phys, s)
   }"

definition enable_mmu :: "'z vm_scheme \<Rightarrow> usize \<Rightarrow> 'z vm_scheme" where
  "enable_mmu s root_phys =
     (let satp_val = make_satp root_phys 0
      in s\<lparr>kernel_satp := satp_val, satp := satp_val\<rparr>)"

definition unmap_page :: "'z vm_scheme \<Rightarrow> usize \<Rightarrow> usize \<Rightarrow> (bool \<times> 'z vm_scheme) option" where
  "unmap_page s root_phys va =
     (case va_parts va of (vpn2, vpn1, vpn0, _) \<Rightarrow> do {
        l2_pte \<leftarrow> read_pte s root_phys vpn2;
        if \<not> Pte_is_valid l2_pte \<or> \<not> Pte_is_branch l2_pte then Some (False, s)
        else do {
          l1_pte \<leftarrow> read_pte s (Pte_phys_addr l2_pte) vpn1;
          if \<not> Pte_is_valid l1_pte \<or> \<not> Pte_is_branch l1_pte then Some (False, s)
          else do {
            l0_pte \<leftarrow> read_pte s (Pte_phys_addr l1_pte) vpn0;
            if \<not> Pte_is_valid l0_pte \<or> \<not> Pte_is_leaf l0_pte then Some (False, s)
            else do {
              s' \<leftarrow> write_pte s (Pte_phys_addr l1_pte) vpn0 Pte_INVALID;
              Some (True, s')
            }
          }
        }
      })"

section \<open>User buffers\<close>

definition USER_VA_MAX :: usize where
  "USER_VA_MAX = 0x80000000"

definition is_user_heap_pa :: "layout \<Rightarrow> usize \<Rightarrow> bool" where
  "is_user_heap_pa L pa \<longleftrightarrow> heap_start L \<le> pa \<and> pa < heap_end L"

definition translate_user :: "layout \<Rightarrow> mem \<Rightarrow> u64 \<Rightarrow> usize \<Rightarrow> usize option" where
  "translate_user L m stp va =
     (if USER_VA_MAX \<le> va then None
      else
        let root = satp_to_root stp
        in do {
          result \<leftarrow> walk root va (load64 m);
          if \<not> flags_contains (wr_flags result) PTE_USER then None
          else
            let page_pa = wr_phys result AND NOT 0xFFF
            in if \<not> is_user_heap_pa L page_pa then None
               else Some (wr_phys result)
        })"

definition bytes_to_page_end :: "usize \<Rightarrow> usize" where
  "bytes_to_page_end start = 4096 - (start AND 0xFFF)"

record chunk =
  c_pa :: usize
  c_len :: usize

definition MAX_COPY_CHUNKS :: nat where
  "MAX_COPY_CHUNKS = 32"

text \<open>
  The loop of \<open>walk_user_range\<close>; the first argument counts the slots of \<open>chunks\<close> still unused, so
  \<open>0\<close> is \<open>n == MAX_COPY_CHUNKS\<close>.  The value lists the chunks written from here on.
\<close>

fun walk_chunks ::
  "nat \<Rightarrow> layout \<Rightarrow> mem \<Rightarrow> usize \<Rightarrow> usize \<Rightarrow> usize \<Rightarrow> bool \<Rightarrow> usize \<Rightarrow> (unit + chunk list)" where
  "walk_chunks 0 L m root user_va tot need_write n_done =
     (if n_done < tot then Inl () else Inr [])"
| "walk_chunks (Suc slots) L m root user_va tot need_write n_done =
     (if n_done < tot then
        let va = user_va + n_done
        in if USER_VA_MAX \<le> va then Inl ()
           else
             let chunk_len = min (bytes_to_page_end va) (tot - n_done)
             in (case walk root va (load64 m) of
                   None \<Rightarrow> Inl ()
                 | Some result \<Rightarrow>
                     if \<not> flags_contains (wr_flags result) PTE_USER then Inl ()
                     else if need_write \<and> \<not> flags_contains (wr_flags result) PTE_WRITE then Inl ()
                     else if \<not> is_user_heap_pa L (wr_phys result AND NOT 0xFFF) then Inl ()
                     else (case walk_chunks slots L m root user_va tot need_write (n_done + chunk_len) of
                             Inl e \<Rightarrow> Inl e
                           | Inr cs \<Rightarrow> Inr (\<lparr>c_pa = wr_phys result, c_len = chunk_len\<rparr> # cs)))
      else Inr [])"

definition walk_user_range ::
  "layout \<Rightarrow> mem \<Rightarrow> u64 \<Rightarrow> usize \<Rightarrow> usize \<Rightarrow> bool \<Rightarrow> (unit + chunk list)" where
  "walk_user_range L m stp user_va tot need_write =
     walk_chunks MAX_COPY_CHUNKS L m (satp_to_root stp) user_va tot need_write 0"

text \<open>
  \<open>copy_from_user\<close> returns the bytes the kernel slice holds afterwards; \<open>len\<close> is \<open>dst.len()\<close>.
\<close>

definition copy_from_user :: "layout \<Rightarrow> mem \<Rightarrow> u64 \<Rightarrow> usize \<Rightarrow> usize \<Rightarrow> (unit + u8 list)" where
  "copy_from_user L m stp user_va len =
     (if len = 0 then Inr []
      else case walk_user_range L m stp user_va len False of
        Inl e \<Rightarrow> Inl e
      | Inr chunks \<Rightarrow> Inr (concat (map (\<lambda>c. load_bytes m (c_pa c) (unat (c_len c))) chunks)))"

fun copy_chunks_out :: "mem \<Rightarrow> chunk list \<Rightarrow> u8 list \<Rightarrow> mem" where
  "copy_chunks_out m [] src = m"
| "copy_chunks_out m (c # cs) src =
     copy_chunks_out (store_bytes m (c_pa c) (take (unat (c_len c)) src)) cs (drop (unat (c_len c)) src)"

definition copy_to_user :: "layout \<Rightarrow> mem \<Rightarrow> u64 \<Rightarrow> usize \<Rightarrow> u8 list \<Rightarrow> (unit + mem)" where
  "copy_to_user L m stp user_va src =
     (let tot = of_nat (length src)
      in if tot = 0 then Inr m
         else case walk_user_range L m stp user_va tot True of
           Inl e \<Rightarrow> Inl e
         | Inr chunks \<Rightarrow> Inr (copy_chunks_out m chunks src))"

section \<open>Invariant\<close>

abbreviation tree :: "'z vm_scheme \<Rightarrow> usize \<Rightarrow> u64" where
  "tree s \<equiv> load64 (ram s)"

abbreviation live :: "'z vm_scheme \<Rightarrow> usize set" where
  "live s \<equiv> live_pages (page_bitmap s)"

definition vm_wf :: "'z vm_scheme \<Rightarrow> usize set \<Rightarrow> bool" where
  "vm_wf s R \<longleftrightarrow> wf_alloc (page_bitmap s) \<and> pt_wf (tree s) R (live s)"

definition free_pages :: "'z vm_scheme \<Rightarrow> nat" where
  "free_pages s = card (pool (page_bitmap s) - live s)"

text \<open>
  \<open>vm_grows R s s'\<close>: going from \<open>s\<close> to \<open>s'\<close> only the tables of the roots \<open>R\<close> were written, new tables
  were taken from the free pages, no page was given back, and nothing else changed.
\<close>

definition vm_grows :: "usize set \<Rightarrow> 'z vm_scheme \<Rightarrow> 'z vm_scheme \<Rightarrow> bool" where
  "vm_grows R s s' \<longleftrightarrow>
     vm_wf s' R \<and> pool (page_bitmap s') = pool (page_bitmap s) \<and>
     live s' = live s \<union> tables (tree s') R \<and>
     tables (tree s) R \<subseteq> tables (tree s') R \<and>
     (\<forall>t \<in> tables (tree s') R - tables (tree s) R. t \<notin> live s) \<and>
     (\<forall>b. page_of b \<notin> tables (tree s') R \<longrightarrow> ram s' b = ram s b) \<and>
     (\<exists>m a. s' = s\<lparr>ram := m, page_bitmap := a\<rparr>)"

lemma tables_live: "vm_wf s R \<Longrightarrow> tables (tree s) R \<subseteq> live s"
  using pt_wf_tables unfolding vm_wf_def by blast

lemma vm_grows_refl: "vm_wf s R \<Longrightarrow> vm_grows R s s"
  using tables_live [of s R] by (auto simp: vm_grows_def intro!: exI [of _ "ram s"] exI [of _ "page_bitmap s"])

lemma vm_growsD:
  assumes "vm_grows R s s'"
  shows "vm_wf s' R" "pool (page_bitmap s') = pool (page_bitmap s)"
    "live s' = live s \<union> tables (tree s') R" "tables (tree s) R \<subseteq> tables (tree s') R"
    "\<And>t. t \<in> tables (tree s') R \<Longrightarrow> t \<notin> tables (tree s) R \<Longrightarrow> t \<notin> live s"
    "\<And>b. page_of b \<notin> tables (tree s') R \<Longrightarrow> ram s' b = ram s b"
    "\<exists>m a. s' = s\<lparr>ram := m, page_bitmap := a\<rparr>"
  using assms by (simp_all only: vm_grows_def Diff_iff Ball_def simp_thms)

lemma vm_grows_trans:
  assumes a: "vm_grows R s s'" and b: "vm_grows R s' s''"
  shows "vm_grows R s s''"
proof -
  obtain m1 a1 m2 a2 where "s' = s\<lparr>ram := m1, page_bitmap := a1\<rparr>" "s'' = s'\<lparr>ram := m2, page_bitmap := a2\<rparr>"
    using vm_growsD(7) [OF a] vm_growsD(7) [OF b] by (elim exE)
  then have "s'' = s\<lparr>ram := m2, page_bitmap := a2\<rparr>" by simp
  then have "\<exists>m a. s'' = s\<lparr>ram := m, page_bitmap := a\<rparr>" by (intro exI)
  moreover have "live s'' = live s \<union> tables (tree s'') R"
    using vm_growsD(3) [OF a] vm_growsD(3,4) [OF b] by blast
  moreover have "\<forall>t \<in> tables (tree s'') R - tables (tree s) R. t \<notin> live s"
    using vm_growsD(3,5) [OF a] vm_growsD(5) [OF b] by blast
  moreover have "\<forall>b. page_of b \<notin> tables (tree s'') R \<longrightarrow> ram s'' b = ram s b"
    using vm_growsD(6) [OF a] vm_growsD(4,6) [OF b] by (metis subsetD)
  moreover have "tables (tree s) R \<subseteq> tables (tree s'') R"
    using vm_growsD(4) [OF a] vm_growsD(4) [OF b] by blast
  moreover have "vm_wf s'' R" "pool (page_bitmap s'') = pool (page_bitmap s)"
    using vm_growsD(2) [OF a] vm_growsD(1,2) [OF b] by simp_all
  ultimately show ?thesis unfolding vm_grows_def by (intro conjI)
qed

section \<open>Table operations\<close>

lemma alloc_zeroed_page_cases:
  assumes "wf_alloc (page_bitmap s)"
  obtains (full) "alloc_zeroed_page s = None" "live s = pool (page_bitmap s)"
  | (page) f a' where "alloc_zeroed_page s = Some (f, s\<lparr>ram := zero_page (ram s) f, page_bitmap := a'\<rparr>)"
      "f \<in> pool (page_bitmap s)" "f \<notin> live s" "f mod PAGE_SIZE = 0"
      "wf_alloc a'" "live_pages a' = insert f (live s)" "pool a' = pool (page_bitmap s)"
  using assms
proof (cases rule: alloc_cases)
  case full: full
  then show ?thesis by (intro that(1)) (auto simp: alloc_zeroed_page_def expect_page_def)
next
  case (page i)
  show ?thesis
    using alloc_page [OF assms page(4)] pool_aligned [OF assms] page(4)
    by (intro that(2) [of "page_addr (page_bitmap s) i" "set_page (page_bitmap s) i"])
      (simp_all add: alloc_zeroed_page_def expect_page_def)
qed

lemma links_store:
  assumes "f mod PAGE_SIZE = 0" "t mod PAGE_SIZE = 0" "i < PT_ENTRIES" "t \<noteq> f"
  shows "links (load64 m) (load64 (store64 (zero_page m f) (t + i * 8) (Pte_branch f))) t i f"
  unfolding links_def by (intro allI impI) (rule phys.entry_link [OF assms(1-3) _ _ assms(4)])

lemma store64_frame:
  assumes "t mod PAGE_SIZE = 0" "i < PT_ENTRIES" "page_of b \<noteq> t"
  shows "store64 m (t + i * 8) v b = m b"
proof -
  have "\<not> unat (b - (t + i * 8)) < 8"
  proof
    assume a: "unat (b - (t + i * 8)) < 8"
    have "page_of (t + i * 8 + of_nat (unat (b - (t + i * 8)))) = t"
      using word_in_page [OF entry_addr(1) [OF assms(1,2)] a] entry_addr(2) [OF assms(1,2)] by simp
    then show False using assms(3) by simp
  qed
  then show ?thesis by (simp add: store64_def)
qed

lemma walk_or_create_cases:
  assumes wf: "vm_wf s R" and r: "r \<in> R" and p: "length p < 2" and t: "table_at (tree s) r p = Some t"
    and i: "i < PT_ENTRIES"
  obtains (full) "walk_or_create s t i = None" "free_pages s = 0" "table_at (tree s) r (p @ [i]) = None"
  | (step) u s' where "walk_or_create s t i = Some (u, s')" "vm_grows R s s'"
      "\<And>r' q. r' \<in> R \<Longrightarrow> length q \<le> 2 \<Longrightarrow>
        table_at (tree s') r' q = (if r' = r \<and> q = p @ [i] then Some u else table_at (tree s) r' q)"
      "\<And>r' va. r' \<in> R \<Longrightarrow> walk r' va (tree s') = walk r' va (tree s)"
      "free_pages s = free_pages s' + of_bool (table_at (tree s) r (p @ [i]) = None)"
proof (cases "Pte_is_valid (entry (tree s) t i)")
  case True
  have "Pte_is_branch (entry (tree s) t i)"
    using pt_wf_kinds [OF _ r t i True] wf p unfolding vm_wf_def by blast
  then show ?thesis
    using True i t vm_grows_refl [OF wf]
    by (intro step [of "Pte_phys_addr (entry (tree s) t i)" s])
      (simp_all add: walk_or_create_def read_pte_def table_at_snoc)
next
  case inv: False
  have none: "table_at (tree s) r (p @ [i]) = None" using t inv by (simp add: table_at_snoc Pte_is_branch_def)
  have pw: "pt_wf (tree s) R (live s)" and wa: "wf_alloc (page_bitmap s)" using wf by (simp_all add: vm_wf_def)
  have tL: "t \<in> live s" "t mod PAGE_SIZE = 0" using pt_wfD [OF pw r t] p by auto
  from wa show ?thesis
  proof (cases rule: alloc_zeroed_page_cases)
    case full: full
    then show ?thesis
      using inv i none by (intro that(1)) (simp_all add: walk_or_create_def read_pte_def free_pages_def)
  next
    case (page f a')
    define s' where "s' = s\<lparr>ram := store64 (zero_page (ram s) f) (t + i * 8) (Pte_branch f), page_bitmap := a'\<rparr>"
    have ne: "t \<noteq> f" using page tL by auto
    have lk: "links (tree s) (tree s') t i f"
      unfolding s'_def using links_store [OF page(4) tL(2) i ne] by simp
    note L = pw r p t i inv page(3,4) lk
    have tabs: "tables (tree s') R = insert f (tables (tree s) R)" by (rule tree_link_tables [OF L])
    have pw': "pt_wf (tree s') R (insert f (live s))" by (rule tree_link [OF L])
    have t_in: "t \<in> tables (tree s) R" using tablesI [OF r _ t] p by simp
    have fr: "ram s' b = ram s b" if "page_of b \<notin> tables (tree s') R" for b
    proof -
      have "page_of b \<noteq> t" "page_of b \<noteq> f" using that t_in tabs by auto
      then show ?thesis using store64_frame [OF tL(2) i, of b] by (simp add: s'_def zero_page_eq page)
    qed
    have grows: "vm_grows R s s'"
      unfolding vm_grows_def
    proof (intro conjI)
      show "vm_wf s' R" using pw' page unfolding vm_wf_def s'_def by simp
      show "live s' = live s \<union> tables (tree s') R"
        using tables_live [OF wf] tabs page by (auto simp: s'_def)
      show "\<exists>m a. s' = s\<lparr>ram := m, page_bitmap := a\<rparr>" unfolding s'_def by blast
      show "\<forall>b. page_of b \<notin> tables (tree s') R \<longrightarrow> ram s' b = ram s b" using fr by blast
    qed (use page tabs in \<open>auto simp: s'_def\<close>)
    have "free_pages s = Suc (free_pages s')"
      using card_diff_insert [OF live_pages_finite page(2,3)] page(6,7)
      by (simp add: free_pages_def s'_def)
    moreover have "walk_or_create s t i = Some (f, s')"
      using inv i page by (simp add: walk_or_create_def read_pte_def write_pte_def s'_def)
    ultimately show ?thesis
      using grows tree_link_walk [OF L] tree_link_paths [OF L] none by (intro step [of f s']) simp_all
  qed
qed

definition same_vpn :: "usize \<Rightarrow> usize \<Rightarrow> bool" where
  "same_vpn va va' \<longleftrightarrow> take_bit 27 (drop_bit 12 va) = take_bit 27 (drop_bit 12 va')"

lemma same_vpn_parts:
  assumes "va_parts va = (i, j, k, off)" "va_parts va' = (x, y, z, off')"
  shows "same_vpn va va' \<longleftrightarrow> x = i \<and> y = j \<and> z = k"
proof -
  have bits: "bit (take_bit 27 (drop_bit 12 w)) n \<longleftrightarrow>
      (if n < 9 then bit (take_bit 9 (drop_bit 12 w)) n
       else if n < 18 then bit (take_bit 9 (drop_bit 21 w)) (n - 9)
       else n < 27 \<and> bit (take_bit 9 (drop_bit 30 w)) (n - 18))" for w :: usize and n
    by (auto simp: bit_simps)
  have "x = i" "y = j" "z = k" if "same_vpn va va'"
  proof -
    have eq: "bit (take_bit 27 (drop_bit 12 va)) n = bit (take_bit 27 (drop_bit 12 va')) n" for n
      using that by (simp add: same_vpn_def)
    have "take_bit 9 (drop_bit 12 va) = take_bit 9 (drop_bit 12 va')"
    proof (rule bit_word_eqI)
      fix n show "bit (take_bit 9 (drop_bit 12 va)) n = bit (take_bit 9 (drop_bit 12 va')) n"
        using eq [of n] by (auto simp: bit_simps)
    qed
    moreover have "take_bit 9 (drop_bit 21 va) = take_bit 9 (drop_bit 21 va')"
    proof (rule bit_word_eqI)
      fix n show "bit (take_bit 9 (drop_bit 21 va)) n = bit (take_bit 9 (drop_bit 21 va')) n"
        using eq [of "n + 9"] by (auto simp: bit_simps ac_simps)
    qed
    moreover have "take_bit 9 (drop_bit 30 va) = take_bit 9 (drop_bit 30 va')"
    proof (rule bit_word_eqI)
      fix n show "bit (take_bit 9 (drop_bit 30 va)) n = bit (take_bit 9 (drop_bit 30 va')) n"
        using eq [of "n + 18"] by (auto simp: bit_simps ac_simps)
    qed
    ultimately show "x = i" "y = j" "z = k" using assms by (simp_all add: va_parts_take)
  qed
  moreover have "same_vpn va va'" if "x = i \<and> y = j \<and> z = k"
  proof -
    have "take_bit 9 (drop_bit 12 va) = take_bit 9 (drop_bit 12 va')"
      "take_bit 9 (drop_bit 21 va) = take_bit 9 (drop_bit 21 va')"
      "take_bit 9 (drop_bit 30 va) = take_bit 9 (drop_bit 30 va')"
      using that assms by (simp_all add: va_parts_take)
    then show ?thesis unfolding same_vpn_def by (intro bit_word_eqI) (simp only: bits)
  qed
  ultimately show ?thesis by blast
qed

lemma same_vpn_page:
  assumes "va < 2 ^ 39" "va' < 2 ^ 39"
  shows "same_vpn va va' \<longleftrightarrow> page_of va = page_of va'"
proof -
  have sm: "take_bit 27 (drop_bit 12 w) = drop_bit 12 w" if "w < 2 ^ 39" for w :: usize
  proof (rule bit_word_eqI)
    have w: "take_bit 39 w = w" using that by (simp add: take_bit_eq_mod mod_word_less)
    fix n show "bit (take_bit 27 (drop_bit 12 w)) n = bit (drop_bit 12 w) n"
      using small_bits [OF w, of "12 + n"] by (auto simp: bit_simps)
  qed
  have "drop_bit 12 va = drop_bit 12 va' \<longleftrightarrow> page_of va = page_of va'"
  proof
    assume "drop_bit 12 va = drop_bit 12 va'"
    then have "bit va (12 + n) = bit va' (12 + n)" for n by (metis bit_drop_bit_eq comp_apply)
    then show "page_of va = page_of va'"
      by (intro bit_word_eqI) (metis bit_page_of le_Suc_ex)
  next
    assume "page_of va = page_of va'"
    then show "drop_bit 12 va = drop_bit 12 va'"
      by (intro bit_word_eqI) (metis bit_page_of bit_drop_bit_eq comp_apply le_add1)
  qed
  then show ?thesis by (simp only: same_vpn_def sm [OF assms(1)] sm [OF assms(2)])
qed

definition leaf_flags :: "pte_flags \<Rightarrow> bool" where
  "leaf_flags f \<longleftrightarrow> flags_from_bits f = f \<and> flags_contains f PTE_VALID \<and> flags_is_leaf f"

lemma leaf_flagsD:
  assumes "leaf_flags f"
  shows "take_bit 10 f = f" "bit f 0" "flags_is_leaf f"
  using assms contains_push_bit [of 0 f]
  by (auto simp: leaf_flags_def flags_from_bits_def mask_numerals take_bit_eq_mask PTE_VALID_def)

lemma perms_leaf:
  "leaf_flags KERNEL_RX" "leaf_flags KERNEL_RO" "leaf_flags KERNEL_RW" "leaf_flags KERNEL_MMIO"
  "leaf_flags USER_RX" "leaf_flags USER_RW" "leaf_flags USER_MMIO"
  by (simp_all add: leaf_flags_def flags_from_bits_def flags_contains_def flags_is_leaf_def perm_defs flag_bit_defs)

lemma sets_entry_store:
  assumes "t mod PAGE_SIZE = 0" "k < PT_ENTRIES"
  shows "sets_entry (load64 m) (load64 (store64 m (t + k * 8) e)) t k e"
  unfolding sets_entry_def by (intro allI impI) (rule phys.entry_write [OF assms])

text \<open>Writing a leaf or an invalid entry into a lowest-level table.\<close>

lemma write_leaf:
  assumes wf: "vm_wf s R" and r: "r \<in> R" and t: "table_at (tree s) r [i, j] = Some t" and k: "k < PT_ENTRIES"
    and e: "Pte_is_valid e \<longrightarrow> Pte_is_leaf e"
    and s': "write_pte s t k e = Some s'"
  shows "vm_grows R s s'" "free_pages s' = free_pages s"
    "\<And>r' va x y z off. r' \<in> R \<Longrightarrow> va_parts va = (x, y, z, off) \<Longrightarrow> walk r' va (tree s') =
      (if r' = r \<and> x = i \<and> y = j \<and> z = k
       then (if Pte_is_leaf e then Some \<lparr>wr_phys = Pte_phys_addr e + off, wr_flags = Pte_flags e\<rparr> else None)
       else walk r' va (tree s))"
    "\<And>r' q. r' \<in> R \<Longrightarrow> length q \<le> 2 \<Longrightarrow> table_at (tree s') r' q = table_at (tree s) r' q"
proof -
  have pw: "pt_wf (tree s) R (live s)" and wa: "wf_alloc (page_bitmap s)" using wf by (simp_all add: vm_wf_def)
  have al: "t mod PAGE_SIZE = 0" using pt_wfD(2) [OF pw r t] by simp
  have s'_def: "s' = s\<lparr>ram := store64 (ram s) (t + k * 8) e\<rparr>" using s' k by (simp add: write_pte_def)
  have se: "sets_entry (tree s) (tree s') t k e"
    using sets_entry_store [OF al k] by (simp add: s'_def)
  have len: "length [i, j] = 2" by simp
  have tabs: "tables (tree s') R = tables (tree s) R"
    by (rule tree_leaf_tables [OF pw r len t se])
  have "t \<in> tables (tree s) R" using tablesI [OF r _ t] by simp
  then have fr: "ram s' b = ram s b" if "page_of b \<notin> tables (tree s') R" for b
    using that store64_frame [OF al k, of b] tabs by (cases "page_of b = t") (simp_all add: s'_def)
  show "vm_grows R s s'"
    unfolding vm_grows_def
  proof (intro conjI)
    show "vm_wf s' R"
      using tree_leaf [OF pw r len t se e k] wa by (simp add: vm_wf_def s'_def)
    show "live s' = live s \<union> tables (tree s') R" using tables_live [OF wf] tabs by (auto simp: s'_def)
    show "\<exists>m a. s' = s\<lparr>ram := m, page_bitmap := a\<rparr>"
      by (intro exI [of _ "ram s'"] exI [of _ "page_bitmap s"]) (simp add: s'_def)
    show "\<forall>b. page_of b \<notin> tables (tree s') R \<longrightarrow> ram s' b = ram s b" using fr by blast
  qed (use tabs in \<open>auto simp: s'_def\<close>)
  show "free_pages s' = free_pages s" by (simp add: s'_def free_pages_def)
  show "\<And>r' va x y z off. r' \<in> R \<Longrightarrow> va_parts va = (x, y, z, off) \<Longrightarrow> walk r' va (tree s') =
      (if r' = r \<and> x = i \<and> y = j \<and> z = k
       then (if Pte_is_leaf e then Some \<lparr>wr_phys = Pte_phys_addr e + off, wr_flags = Pte_flags e\<rparr> else None)
       else walk r' va (tree s))"
    by (rule tree_leaf_walk [OF pw r t se k])
  show "\<And>r' q. r' \<in> R \<Longrightarrow> length q \<le> 2 \<Longrightarrow> table_at (tree s') r' q = table_at (tree s) r' q"
    by (rule tree_leaf_paths [OF pw r len t se])
qed

text \<open>
  The table paths a set of addresses needs, and how many of them an address space still misses:
  the exact number of pages that mapping the addresses takes from the allocator.
\<close>

definition table_paths :: "usize set \<Rightarrow> usize list set" where
  "table_paths V = {q. \<exists>va \<in> V. \<exists>i j k off. va_parts va = (i, j, k, off) \<and> (q = [i] \<or> q = [i, j])}"

definition missing :: "'z vm_scheme \<Rightarrow> usize \<Rightarrow> usize set \<Rightarrow> nat" where
  "missing s r V = card {q \<in> table_paths V. table_at (tree s) r q = None}"

lemma table_paths_len: "q \<in> table_paths V \<Longrightarrow> length q \<le> 2"
  by (auto simp: table_paths_def)

lemma finite_table_paths: "finite (table_paths V)"
proof -
  have "finite {q :: usize list. set q \<subseteq> UNIV \<and> length q \<le> 2}"
    by (rule finite_lists_length_le) simp
  moreover have "table_paths V \<subseteq> {q. set q \<subseteq> UNIV \<and> length q \<le> 2}"
    using table_paths_len by auto
  ultimately show ?thesis by (rule rev_finite_subset)
qed

lemma missing_mono: "V \<subseteq> W \<Longrightarrow> missing s r V \<le> missing s r W"
  unfolding missing_def using finite_table_paths [of W]
  by (intro card_mono) (simp, auto simp: table_paths_def simp del: table_at.simps, blast+)

lemma missing_le: "missing s r V \<le> card (table_paths V)"
  unfolding missing_def by (rule card_mono) (use finite_table_paths in auto)

lemma missing_one: "missing s r {va} \<le> 2"
proof -
  obtain i j k off where "va_parts va = (i, j, k, off)" by (metis prod_cases4)
  then have "table_paths {va} = {[i], [i, j]}" by (auto simp: table_paths_def)
  then show ?thesis using missing_le [of s r "{va}"] by (simp add: card_insert_if)
qed

lemma missing_same:
  assumes "\<And>q. length q \<le> 2 \<Longrightarrow> table_at (tree s') r q = table_at (tree s) r q"
  shows "missing s' r V = missing s r V"
  unfolding missing_def using assms
  by (intro arg_cong [where f = card] Collect_cong) (auto dest: table_paths_len)

lemma missing_step:
  assumes "\<And>q. length q \<le> 2 \<Longrightarrow> table_at (tree s') r q = (if q = q0 then Some u else table_at (tree s) r q)"
    and "q0 \<in> table_paths V"
  shows "missing s r V = missing s' r V + of_bool (table_at (tree s) r q0 = None)"
proof -
  note len = table_paths_len [of _ V]
  let ?M = "{q \<in> table_paths V. table_at (tree s) r q = None}"
  have eq: "{q \<in> table_paths V. table_at (tree s') r q = None} = ?M - {q0}"
    using assms(1) len by (auto split: if_splits)
  show ?thesis
  proof (cases "table_at (tree s) r q0 = None")
    case True
    then have "card ?M = Suc (card (?M - {q0}))"
      using assms(2) finite_table_paths by (intro card.remove) auto
    then show ?thesis using True by (simp add: missing_def eq)
  next
    case False
    then have "?M - {q0} = ?M" by auto
    then show ?thesis using False by (simp add: missing_def eq)
  qed
qed

lemma map_page_cases:
  assumes wf: "vm_wf s R" and r: "r \<in> R" and f: "leaf_flags f" and pa: "pa mod PAGE_SIZE = 0"
  obtains (oom) "map_page s r va pa f = None" "free_pages s < missing s r {va}"
  | (ok) s' where "map_page s r va pa f = Some s'" "vm_grows R s s'"
      "\<And>V. va \<in> V \<Longrightarrow> free_pages s + missing s' r V = free_pages s' + missing s r V"
      "\<And>r' va'. r' \<in> R \<Longrightarrow> walk r' va' (tree s') =
        (if r' = r \<and> same_vpn va va'
         then Some \<lparr>wr_phys = pa + take_bit 12 va', wr_flags = f\<rparr> else walk r' va' (tree s))"
proof -
  obtain i j k off where va: "va_parts va = (i, j, k, off)" by (metis prod_cases4)
  note b = va_parts_bounds [OF va]
  note F = leaf_flagsD [OF f]
  have tp: "[i] \<in> table_paths V" "[i, j] \<in> table_paths V" if "va \<in> V" for V
    using that va unfolding table_paths_def by force+
  have t0: "length ([] :: usize list) < 2" "table_at (tree s) r [] = Some r" by simp_all
  from wf r t0 b(1) show ?thesis
  proof (cases rule: walk_or_create_cases)
    case full: full
    have "missing s r {va} \<noteq> 0"
      using full(3) tp [of "{va}"] finite_table_paths by (auto simp: missing_def)
    then show ?thesis using full(1,2) by (intro oom) (simp_all add: map_page_def va)
  next
    case (step l1 s1)
    note s1 = step
    have p1: "length q \<le> 2 \<Longrightarrow> table_at (tree s1) r q = (if q = [i] then Some l1 else table_at (tree s) r q)" for q
      using s1(3) [OF r] by simp
    have m1: "missing s r V = missing s1 r V + of_bool (table_at (tree s) r [i] = None)" if "va \<in> V" for V
      by (rule missing_step [OF p1 tp(1) [OF that]])
    have wf1: "vm_wf s1 R" by (rule vm_growsD(1) [OF s1(2)])
    have t1: "length [i] < 2" "table_at (tree s1) r [i] = Some l1" using s1(3) [OF r, of "[i]"] by simp_all
    from wf1 r t1 b(2) show ?thesis
    proof (cases rule: walk_or_create_cases)
      case full: full
      have "missing s1 r {va} \<noteq> 0"
        using full(3) tp [of "{va}"] finite_table_paths by (auto simp: missing_def)
      then show ?thesis
        using s1(1,5) full m1 [of "{va}"] by (intro oom) (simp_all add: map_page_def va)
    next
      case (step l0 s2)
      note s2 = step
      have p2: "length q \<le> 2 \<Longrightarrow> table_at (tree s2) r q = (if q = [i, j] then Some l0 else table_at (tree s1) r q)" for q
        using s2(3) [OF r] by simp
      have m2: "missing s1 r V = missing s2 r V + of_bool (table_at (tree s1) r [i, j] = None)" if "va \<in> V" for V
        by (rule missing_step [OF p2 tp(2) [OF that]])
      have wf2: "vm_wf s2 R" by (rule vm_growsD(1) [OF s2(2)])
      have t2: "table_at (tree s2) r [i, j] = Some l0" using s2(3) [OF r, of "[i, j]"] by simp
      define s3 where "s3 = s2\<lparr>ram := store64 (ram s2) (l0 + k * 8) (Pte_new pa f)\<rparr>"
      have w: "write_pte s2 l0 k (Pte_new pa f) = Some s3" using b by (simp add: write_pte_def s3_def)
      have lf: "Pte_is_valid (Pte_new pa f) \<longrightarrow> Pte_is_leaf (Pte_new pa f)"
        using F by (simp add: Pte_new_leaf)
      note W = write_leaf [OF wf2 r t2 b(3) lf w]
      show ?thesis
      proof (rule ok)
        show "map_page s r va pa f = Some s3" using s1(1) s2(1) w by (simp add: map_page_def va)
        show "vm_grows R s s3" using vm_grows_trans [OF s1(2) vm_grows_trans [OF s2(2) W(1)]] .
        show "free_pages s + missing s3 r V = free_pages s3 + missing s r V" if "va \<in> V" for V
          using m1 [OF that] m2 [OF that] s1(5) s2(5) W(2) missing_same [OF W(4) [OF r]] by simp
        show "walk r' va' (tree s3) =
            (if r' = r \<and> same_vpn va va'
             then Some \<lparr>wr_phys = pa + take_bit 12 va', wr_flags = f\<rparr> else walk r' va' (tree s))"
          if "r' \<in> R" for r' va'
        proof -
          obtain x y z off' where va': "va_parts va' = (x, y, z, off')" by (metis prod_cases4)
          then have "off' = take_bit 12 va'" by (simp add: va_parts_take)
          then show ?thesis
            using W(3) [OF that va'] s1(4) [OF that] s2(4) [OF that] F pa same_vpn_parts [OF va va']
            by (simp add: Pte_new_leaf Pte_new_phys Pte_new_flags)
        qed
      qed
    qed
  qed
qed

section \<open>Unmapping\<close>

lemma walk_same_vpn:
  assumes "same_vpn va va'" "walk r va rd = None"
  shows "walk r va' rd = None"
proof -
  obtain i j k off x y z off' where va: "va_parts va = (i, j, k, off)" "va_parts va' = (x, y, z, off')"
    by (metis prod_cases4)
  then have "x = i \<and> y = j \<and> z = k" using same_vpn_parts [OF va] assms(1) by simp
  then show ?thesis
    using assms(2) unfolding walk_lookups [OF va(1) refl refl refl] walk_lookups [OF va(2) refl refl refl]
    by (simp split: if_splits)
qed

lemma unmap_page_spec:
  assumes wf: "vm_wf s R" and r: "r \<in> R"
  obtains s' where "unmap_page s r va = Some (walk r va (tree s) \<noteq> None, s')" "vm_grows R s s'"
    "free_pages s' = free_pages s" "walk r va (tree s) = None \<Longrightarrow> s' = s"
    "\<And>r' va'. r' \<in> R \<Longrightarrow> walk r' va' (tree s') =
      (if r' = r \<and> same_vpn va va' then None else walk r' va' (tree s))"
proof -
  obtain i j k off where va: "va_parts va = (i, j, k, off)" by (metis prod_cases4)
  note b = va_parts_bounds [OF va]
  define e2 where "e2 = entry (tree s) r i"
  define e1 where "e1 = entry (tree s) (Pte_phys_addr e2) j"
  define e0 where "e0 = entry (tree s) (Pte_phys_addr e1) k"
  have w: "walk r va (tree s) =
    (if Pte_is_branch e2 \<and> Pte_is_branch e1 \<and> Pte_is_leaf e0
     then Some \<lparr>wr_phys = Pte_phys_addr e0 + off, wr_flags = Pte_flags e0\<rparr> else None)"
    by (rule walk_lookups [OF va e2_def e1_def e0_def])
  have u: "unmap_page s r va =
    (if Pte_is_branch e2 \<and> Pte_is_branch e1 \<and> Pte_is_leaf e0
     then map_option (Pair True) (write_pte s (Pte_phys_addr e1) k Pte_INVALID) else Some (False, s))"
  proof -
    have "read_pte s r i = Some e2" "read_pte s (Pte_phys_addr e2) j = Some e1"
      "read_pte s (Pte_phys_addr e1) k = Some e0"
      using b by (simp_all add: read_pte_def e2_def e1_def e0_def)
    then show ?thesis
      using branch_not_leaf(2) [of e2] branch_not_leaf(2) [of e1] branch_not_leaf(3) [of e0]
      by (cases "write_pte s (Pte_phys_addr e1) k Pte_INVALID") (simp_all add: unmap_page_def va)
  qed
  show ?thesis
  proof (cases "Pte_is_branch e2 \<and> Pte_is_branch e1 \<and> Pte_is_leaf e0")
    case True
    obtain s' where w': "write_pte s (Pte_phys_addr e1) k Pte_INVALID = Some s'"
      using b by (simp add: write_pte_def)
    have t: "table_at (tree s) r [i, j] = Some (Pte_phys_addr e1)"
      using True b by (simp add: e2_def e1_def)
    note W = write_leaf [OF wf r t b(3) _ w', simplified Pte_INVALID_def, simplified]
    show ?thesis
    proof (rule that [of s'])
      show "unmap_page s r va = Some (walk r va (tree s) \<noteq> None, s')" using u w w' True by simp
      show "walk r' va' (tree s') = (if r' = r \<and> same_vpn va va' then None else walk r' va' (tree s))"
        if "r' \<in> R" for r' va'
      proof -
        obtain x y z off' where va': "va_parts va' = (x, y, z, off')" by (metis prod_cases4)
        show ?thesis using W(3) [OF that va'] same_vpn_parts [OF va va'] by auto
      qed
    qed (use W w True in auto)
  next
    case False
    then have none: "walk r va (tree s) = None" using w by simp
    show ?thesis
    proof (rule that [of s])
      show "unmap_page s r va = Some (walk r va (tree s) \<noteq> None, s)" using u w False by auto
      show "walk r' va' (tree s) = (if r' = r \<and> same_vpn va va' then None else walk r' va' (tree s))" for r' va'
        using walk_same_vpn [OF _ none] by auto
    qed (use vm_grows_refl [OF wf] in auto)
  qed
qed

section \<open>Ranges\<close>

text \<open>The loop ends, and maps each page of the range to itself.\<close>

lemma map_range_loop_spec:
  assumes "vm_wf s R" "r \<in> R" "leaf_flags f" "a mod PAGE_SIZE = 0" "e mod PAGE_SIZE = 0" "e \<le> 2 ^ 39"
    and "\<And>v. a \<le> v \<Longrightarrow> v < e \<Longrightarrow> v \<in> V" "missing s r V \<le> free_pages s"
  shows "\<exists>s'. map_range_loop r e f a s = Some s' \<and> vm_grows R s s' \<and>
    free_pages s + missing s' r V = free_pages s' + missing s r V \<and>
    (\<forall>r' va. r' \<in> R \<longrightarrow> va < 2 ^ 39 \<longrightarrow> walk r' va (tree s') =
      (if r' = r \<and> a \<le> va \<and> va < e then Some \<lparr>wr_phys = va, wr_flags = f\<rparr> else walk r' va (tree s)))"
  using assms
proof (induction "unat e - unat a" arbitrary: a s rule: less_induct)
  case less
  show ?case
  proof (cases "a < e")
    case False
    then show ?thesis
      using vm_grows_refl [OF less.prems(1)]
      by (subst map_range_loop.simps) (auto intro: order_le_less_trans)
  next
    case True
    note N = next_page [OF less.prems(4,5) True]
    have aV: "a \<in> V" using less.prems(7) True by simp
    have a39: "a < 2 ^ 39" using True less.prems(6) by (rule order_less_le_trans)
    from less.prems(1-3,4) obtain s1 where s1: "map_page s r a a f = Some s1" "vm_grows R s s1"
      "\<And>V. a \<in> V \<Longrightarrow> free_pages s + missing s1 r V = free_pages s1 + missing s r V"
      "\<And>r' va'. r' \<in> R \<Longrightarrow> walk r' va' (tree s1) =
        (if r' = r \<and> same_vpn a va'
         then Some \<lparr>wr_phys = a + take_bit 12 va', wr_flags = f\<rparr> else walk r' va' (tree s))"
    proof (cases rule: map_page_cases [where va = a])
      case oom
      then show ?thesis using missing_mono [of "{a}" V s r] aV less.prems(8) by simp
    next
      case (ok s')
      then show ?thesis by (rule that)
    qed
    have m1: "free_pages s + missing s1 r V = free_pages s1 + missing s r V" using s1(3) [OF aV] .
    have "\<exists>s'. map_range_loop r e f (a + PAGE_SIZE) s1 = Some s' \<and> vm_grows R s1 s' \<and>
      free_pages s1 + missing s' r V = free_pages s' + missing s1 r V \<and>
      (\<forall>r' va. r' \<in> R \<longrightarrow> va < 2 ^ 39 \<longrightarrow> walk r' va (tree s') =
        (if r' = r \<and> a + PAGE_SIZE \<le> va \<and> va < e then Some \<lparr>wr_phys = va, wr_flags = f\<rparr> else walk r' va (tree s1)))"
    proof (rule less.hyps)
      show "unat e - unat (a + PAGE_SIZE) < unat e - unat a"
        using N(1) True by (simp add: word_less_nat_alt)
      show "v \<in> V" if "a + PAGE_SIZE \<le> v" "v < e" for v
        using that N(1) less.prems(7) by (simp add: word_le_nat_alt)
      show "missing s1 r V \<le> free_pages s1" using m1 less.prems(8) by simp
    qed (use less.prems N vm_growsD(1) [OF s1(2)] in auto)
    then obtain s' where s': "map_range_loop r e f (a + PAGE_SIZE) s1 = Some s'" "vm_grows R s1 s'"
      "free_pages s1 + missing s' r V = free_pages s' + missing s1 r V"
      "\<And>r' va. r' \<in> R \<Longrightarrow> va < 2 ^ 39 \<Longrightarrow> walk r' va (tree s') =
        (if r' = r \<and> a + PAGE_SIZE \<le> va \<and> va < e then Some \<lparr>wr_phys = va, wr_flags = f\<rparr> else walk r' va (tree s1))"
      by blast
    have "walk r' va (tree s') =
        (if r' = r \<and> a \<le> va \<and> va < e then Some \<lparr>wr_phys = va, wr_flags = f\<rparr> else walk r' va (tree s))"
      if "r' \<in> R" "va < 2 ^ 39" for r' va
    proof -
      have v: "same_vpn a va \<longleftrightarrow> unat a \<le> unat va \<and> unat va < unat a + 4096"
        unfolding same_vpn_page [OF a39 that(2)] page_of_self [OF less.prems(4)]
        using page_of_between [OF less.prems(4), of va] by auto
      have "page_of va = a \<Longrightarrow> a + take_bit 12 va = va" using page_split [of va] by simp
      then have id: "same_vpn a va \<Longrightarrow> a + take_bit 12 va = va"
        using v page_of_between [OF less.prems(4), of va] by simp
      have "unat va < unat a + 4096 \<Longrightarrow> va < e"
        using N(1,3) by (simp add: word_le_nat_alt word_less_nat_alt)
      then show ?thesis
        using s'(4) [OF that] s1(4) [OF that(1), of va] id
        by (auto simp: v word_le_nat_alt N(1))
    qed
    moreover have "map_range_loop r e f a s = Some s'"
      using True s1(1) s'(1) by (subst map_range_loop.simps) simp
    moreover have "vm_grows R s s'" using vm_grows_trans [OF s1(2) s'(2)] .
    ultimately show ?thesis using m1 s'(3) by auto
  qed
qed

definition page_up :: "usize \<Rightarrow> usize" where
  "page_up e = page_of (e + 4095)"

lemma page_up_bound: "e \<le> 2 ^ 39 \<Longrightarrow> page_up e \<le> 2 ^ 39"
proof -
  assume "e \<le> 2 ^ 39"
  then have e: "unat e \<le> 549755813888" by (simp add: word_le_nat_alt)
  then have "unat (e + 4095) = unat e + 4095" by (subst unat_add_small) simp_all
  then have "unat (page_up e) \<le> 549755813888" using e by (simp add: page_up_def unat_page_of)
  then show ?thesis by (simp add: word_le_nat_alt)
qed

definition in_range :: "usize \<Rightarrow> usize \<Rightarrow> usize \<Rightarrow> bool" where
  "in_range a e va \<longleftrightarrow> page_of a \<le> va \<and> va < page_up e"

lemma map_range_spec:
  assumes "vm_wf s R" "r \<in> R" "leaf_flags f" "e \<le> 2 ^ 39"
    and "\<And>v. in_range a e v \<Longrightarrow> v \<in> V" "missing s r V \<le> free_pages s"
  obtains s' where "map_range s r a e f = Some s'" "vm_grows R s s'"
    "free_pages s + missing s' r V = free_pages s' + missing s r V"
    "\<And>r' va. r' \<in> R \<Longrightarrow> va < 2 ^ 39 \<Longrightarrow> walk r' va (tree s') =
      (if r' = r \<and> in_range a e va then Some \<lparr>wr_phys = va, wr_flags = f\<rparr> else walk r' va (tree s))"
proof -
  have eq: "map_range s r a e f = map_range_loop r (page_up e) f (page_of a) s"
    by (simp add: map_range_def Let_def page_up_def page_of_def PAGE_SIZE_def add.commute)
  have "\<exists>s'. map_range_loop r (page_up e) f (page_of a) s = Some s' \<and> vm_grows R s s' \<and>
    free_pages s + missing s' r V = free_pages s' + missing s r V \<and>
    (\<forall>r' va. r' \<in> R \<longrightarrow> va < 2 ^ 39 \<longrightarrow> walk r' va (tree s') =
      (if r' = r \<and> page_of a \<le> va \<and> va < page_up e
       then Some \<lparr>wr_phys = va, wr_flags = f\<rparr> else walk r' va (tree s)))"
    by (rule map_range_loop_spec [OF assms(1-3) page_of_aligned _ page_up_bound [OF assms(4)] _ assms(6)])
      (use assms(5) in \<open>simp_all add: page_up_def page_of_aligned in_range_def\<close>)
  then show ?thesis using that unfolding eq in_range_def by blast
qed

text \<open>The kernel map as a list of ranges: later ranges win where two overlap.\<close>

type_synonym region = "usize \<times> usize \<times> pte_flags"

definition kernel_regions :: "layout \<Rightarrow> region list" where
  "kernel_regions L =
     [(text_start L, text_end L, KERNEL_RX), (rodata_start L, rodata_end L, KERNEL_RO),
      (data_start L, data_end L, KERNEL_RW), (bss_start L, bss_end L, KERNEL_RW),
      (heap_start L, stack_top L, KERNEL_RW),
      (UART_BASE, UART_BASE + PAGE_SIZE, KERNEL_MMIO),
      (PLIC_BASE, PLIC_BASE + PLIC_MAP_SIZE, KERNEL_MMIO),
      (VIRTIO_MMIO_BASE, VIRTIO_MMIO_BASE + VIRTIO_MMIO_SLOTS * VIRTIO_MMIO_STRIDE, KERNEL_MMIO)]"

fun map_regions :: "'z vm_scheme \<Rightarrow> usize \<Rightarrow> region list \<Rightarrow> 'z vm_scheme option" where
  "map_regions s r [] = Some s"
| "map_regions s r ((a, e, f) # rs) = do { s' \<leftarrow> map_range s r a e f; map_regions s' r rs }"

fun region_of :: "region list \<Rightarrow> usize \<Rightarrow> pte_flags option" where
  "region_of [] va = None"
| "region_of ((a, e, f) # rs) va =
     (case region_of rs va of Some g \<Rightarrow> Some g | None \<Rightarrow> if in_range a e va then Some f else None)"

definition layout_ok :: "layout \<Rightarrow> bool" where
  "layout_ok L \<longleftrightarrow> text_start L \<le> text_end L \<and> rodata_start L \<le> rodata_end L \<and>
     data_start L \<le> data_end L \<and> bss_start L \<le> bss_end L \<and>
     (\<forall>(a, e, f) \<in> set (kernel_regions L). e \<le> 2 ^ 39)"

lemma map_kernel_regions_eq:
  "layout_ok L \<Longrightarrow> map_kernel_regions L s r = map_regions s r (kernel_regions L)"
  by (simp add: layout_ok_def map_kernel_regions_def linker_range_def kernel_regions_def)

lemma kvm_init_eq:
  "layout_ok L \<Longrightarrow> kvm_init L s = do {
     (r, s1) \<leftarrow> alloc_zeroed_page s;
     s2 \<leftarrow> map_regions s1 r (kernel_regions L);
     Some (r, s2) }"
  by (simp add: layout_ok_def kvm_init_def linker_range_def kernel_regions_def)

definition region_set :: "region list \<Rightarrow> usize set" where
  "region_set rs = {v. \<exists>(a, e, f) \<in> set rs. in_range a e v}"

lemma map_regions_spec:
  assumes "vm_wf s R" "r \<in> R" "\<forall>(a, e, f) \<in> set rs. leaf_flags f \<and> e \<le> 2 ^ 39"
    and "region_set rs \<subseteq> V" "missing s r V \<le> free_pages s"
  shows "\<exists>s'. map_regions s r rs = Some s' \<and> vm_grows R s s' \<and>
    free_pages s + missing s' r V = free_pages s' + missing s r V \<and>
    (\<forall>r' va. r' \<in> R \<longrightarrow> va < 2 ^ 39 \<longrightarrow> walk r' va (tree s') =
      (case (if r' = r then region_of rs va else None) of
         Some f \<Rightarrow> Some \<lparr>wr_phys = va, wr_flags = f\<rparr> | None \<Rightarrow> walk r' va (tree s)))"
  using assms
proof (induction rs arbitrary: s)
  case Nil
  then show ?case using vm_grows_refl by simp
next
  case (Cons x rs)
  obtain a e f where x: "x = (a, e, f)" by (cases x)
  have sub: "in_range a e v \<Longrightarrow> v \<in> V" "region_set rs \<subseteq> V" for v
    using Cons.prems(4) unfolding region_set_def x by auto
  from Cons.prems(3) have fe: "leaf_flags f" "e \<le> 2 ^ 39" by (simp_all add: x)
  obtain s1 where s1: "map_range s r a e f = Some s1" "vm_grows R s s1"
    "free_pages s + missing s1 r V = free_pages s1 + missing s r V"
    "\<And>r' va. r' \<in> R \<Longrightarrow> va < 2 ^ 39 \<Longrightarrow> walk r' va (tree s1) =
      (if r' = r \<and> in_range a e va then Some \<lparr>wr_phys = va, wr_flags = f\<rparr> else walk r' va (tree s))"
    by (rule map_range_spec [OF Cons.prems(1,2) fe sub(1) Cons.prems(5)]) (assumption, rule that)
  have "missing s1 r V \<le> free_pages s1" using s1(3) Cons.prems(5) by simp
  moreover have "\<forall>(a, e, f) \<in> set rs. leaf_flags f \<and> e \<le> 2 ^ 39" using Cons.prems(3) by simp
  ultimately obtain s' where s': "map_regions s1 r rs = Some s'" "vm_grows R s1 s'"
    "free_pages s1 + missing s' r V = free_pages s' + missing s1 r V"
    "\<And>r' va. r' \<in> R \<Longrightarrow> va < 2 ^ 39 \<Longrightarrow> walk r' va (tree s') =
      (case (if r' = r then region_of rs va else None) of
         Some f \<Rightarrow> Some \<lparr>wr_phys = va, wr_flags = f\<rparr> | None \<Rightarrow> walk r' va (tree s1))"
    using Cons.IH [OF vm_growsD(1) [OF s1(2)] Cons.prems(2) _ sub(2)] by blast
  have "free_pages s + missing s' r V = free_pages s' + missing s r V" using s1(3) s'(3) by linarith
  then show ?case
    using s1(1) s'(1,4) s1(4) vm_grows_trans [OF s1(2) s'(2)]
    by (intro exI [of _ s']) (auto simp: x split: option.split)
qed

lemma kernel_regions_flags:
  "(a, e, f) \<in> set (kernel_regions L) \<Longrightarrow>
   leaf_flags f \<and> \<not> flags_contains f PTE_USER \<and> \<not> (flags_contains f PTE_WRITE \<and> flags_contains f PTE_EXECUTE)"
  using perms_leaf unfolding kernel_regions_def
  by (auto simp: flags_contains_def perm_defs flag_bit_defs)

lemma region_of_flags: "region_of rs va = Some f \<Longrightarrow> \<exists>a e. (a, e, f) \<in> set rs \<and> in_range a e va"
  by (induction rs va rule: region_of.induct) (auto split: option.splits if_splits)

lemma region_of_covered: "(a, e, f) \<in> set rs \<Longrightarrow> in_range a e va \<Longrightarrow> region_of rs va \<noteq> None"
  by (induction rs va rule: region_of.induct) (auto split: option.splits if_splits)

section \<open>Fresh address spaces\<close>

lemma fresh_root_cases:
  assumes wf: "vm_wf s R"
  obtains (full) "alloc_zeroed_page s = None" "free_pages s = 0"
  | (root) r s' where "alloc_zeroed_page s = Some (r, s')" "vm_wf s' (insert r R)" "r \<notin> R"
      "live s' = insert r (live s)" "Suc (free_pages s') = free_pages s"
      "\<And>va. walk r va (tree s') = None"
      "\<And>r' va. r' \<in> R \<Longrightarrow> walk r' va (tree s') = walk r' va (tree s)"
      "\<And>b. page_of b \<in> live s \<Longrightarrow> ram s' b = ram s b"
      "\<exists>m a. s' = s\<lparr>ram := m, page_bitmap := a\<rparr>" "r \<notin> live s" "r \<in> pool (page_bitmap s)"
      "pool (page_bitmap s') = pool (page_bitmap s)"
      "tables (tree s') (insert r R) = insert r (tables (tree s) R)"
proof -
  have wa: "wf_alloc (page_bitmap s)" and pw: "pt_wf (tree s) R (live s)" using wf by (simp_all add: vm_wf_def)
  from wa show ?thesis
  proof (cases rule: alloc_zeroed_page_cases)
    case full: full
    then show ?thesis by (intro that(1)) (simp_all add: free_pages_def)
  next
    case (page f a')
    define s' where "s' = s\<lparr>ram := zero_page (ram s) f, page_bitmap := a'\<rparr>"
    have ar: "adds_root (tree s) (tree s') f"
      unfolding adds_root_def s'_def using phys.entry_wipe [OF page(4)] by simp
    note T = tree_root [OF pw page(3,4) ar] and W = tree_root_walk [OF pw page(3,4) ar]
    show ?thesis
    proof (rule root [of f s'])
      show "alloc_zeroed_page s = Some (f, s')" using page(1) by (simp add: s'_def)
      show "vm_wf s' (insert f R)" using T(1) page by (simp add: vm_wf_def s'_def)
      show "f \<notin> R" using pt_wfD(1) [OF pw, of f "[]"] page(3) by auto
      show "Suc (free_pages s') = free_pages s"
        using card_diff_insert [OF live_pages_finite page(2,3)] page(6,7) by (simp add: free_pages_def s'_def)
      show "ram s' b = ram s b" if "page_of b \<in> live s" for b
        using that page(3) by (auto simp: s'_def zero_page_eq [OF page(4)])
      show "\<exists>m a. s' = s\<lparr>ram := m, page_bitmap := a\<rparr>" unfolding s'_def by blast
      show "tables (tree s') (insert f R) = insert f (tables (tree s) R)" by (rule T(2))
    qed (use page W in \<open>auto simp: s'_def\<close>)
  qed
qed

text \<open>A bound on the tables an address range needs: all addresses below \<open>n\<close> GiB.\<close>

lemma table_paths_card:
  assumes "\<And>va. va \<in> V \<Longrightarrow> unat va < n * 2 ^ 30"
  shows "card (table_paths V) \<le> n * 513"
proof -
  let ?A = "(\<lambda>i. [of_nat i :: usize]) ` {..<n}"
  let ?B = "(\<lambda>(i, j). [of_nat i :: usize, of_nat j]) ` ({..<n} \<times> {..<512})"
  have "table_paths V \<subseteq> ?A \<union> ?B"
  proof
    fix q assume "q \<in> table_paths V"
    then obtain va i j k off where va: "va \<in> V" "va_parts va = (i, j, k, off)" "q = [i] \<or> q = [i, j]"
      by (auto simp: table_paths_def)
    have "unat (drop_bit 30 va) < n"
      using assms [OF va(1)]
      by (simp only: unat_drop_bit_eq) (simp add: drop_bit_eq_div div_less_iff_less_mult)
    moreover have "unat i \<le> unat (drop_bit 30 va)"
      using va(2) unsigned_take_bit_eq [of 9 "drop_bit 30 va", where ?'a = nat]
      by (auto simp: va_parts_take)
    ultimately have "unat i < n" by simp
    moreover have "unat j < 512" using va_parts_bounds(2) [OF va(2)] by (simp add: PT_ENTRIES_def word_less_nat_alt)
    ultimately show "q \<in> ?A \<union> ?B"
      using va(3) by (auto intro!: image_eqI [of _ _ "unat i"] image_eqI [of _ _ "(unat i, unat j)"])
  qed
  then have "card (table_paths V) \<le> card (?A \<union> ?B)" by (intro card_mono) auto
  also have "\<dots> \<le> card ?A + card ?B" by (rule card_Un_le)
  also have "\<dots> \<le> n + n * 512"
    using card_image_le [of "{..<n}" "\<lambda>i. [of_nat i :: usize]"]
      card_image_le [of "{..<n} \<times> {..<(512 :: nat)}" "\<lambda>(i, j). [of_nat i :: usize, of_nat j]"] by simp
  finally show ?thesis by simp
qed

text \<open>
  Concrete machines for the witnesses: memory zeroed and \<open>n\<close> free pages, and the same with the
  first of 256 pages taken as an empty root table.
\<close>

definition boot_vm :: "usize \<Rightarrow> vm" where
  "boot_vm n = \<lparr>ram = (\<lambda>_. 0), page_bitmap = new_allocator 0x80300000 n, kernel_satp = 0, satp = 0\<rparr>"

definition small_vm :: vm where
  "small_vm = (boot_vm 256)\<lparr>page_bitmap := set_page (page_bitmap (boot_vm 256)) 0\<rparr>"

lemma load64_zero [simp]: "load64 (\<lambda>_. 0) a = 0"
  by (rule bit_word_eqI) (simp add: bit_load64)

lemma boot_vm_facts:
  assumes "0 < unat n" "unat n \<le> MAX_PAGES"
  shows "vm_wf (boot_vm n) {}" "free_pages (boot_vm n) = unat n"
    "wf_alloc (page_bitmap (boot_vm n))" "live (boot_vm n) = {}"
proof -
  let ?a = "new_allocator 0x80300000 n"
  have wf: "wf_alloc ?a" and l: "live_pages ?a = {}"
    using assms by (intro wf_new_allocator; simp add: size_defs)+
  have t: "total_pages ?a = n" by (simp add: new_allocator_def)
  have "card (pool ?a) = unat n"
    unfolding pool_def t by (subst card_image) (use page_addr_inj [OF wf] t in \<open>auto intro: inj_onI\<close>)
  then show "free_pages (boot_vm n) = unat n" using l by (simp add: free_pages_def boot_vm_def)
  show "vm_wf (boot_vm n) {}" using wf l by (simp add: vm_wf_def boot_vm_def pt_wf_def tables_def)
  show "wf_alloc (page_bitmap (boot_vm n))" "live (boot_vm n) = {}" using wf l by (simp_all add: boot_vm_def)
qed

lemma small_vm_facts:
  "vm_wf small_vm {0x80300000}" "free_pages small_vm = 255" "walk 0x80300000 va (tree small_vm) = None"
proof -
  have n: "0 < unat (256 :: usize)" "unat (256 :: usize) \<le> MAX_PAGES" by (simp_all add: MAX_PAGES_def)
  note B = boot_vm_facts [OF n]
  let ?a = "page_bitmap (boot_vm 256)"
  have tot: "total_pages ?a = 256" "base_addr ?a = 0x80300000" by (simp_all add: boot_vm_def new_allocator_def)
  have p0: "page_addr ?a 0 = 0x80300000" by (simp add: page_addr_def tot)
  have i0: "0 < unat (total_pages ?a)" by (simp add: tot)
  have wf: "wf_alloc (set_page ?a 0)" by (rule wf_set_page [OF B(3) i0])
  have live: "live_pages (set_page ?a 0) = {0x80300000}"
    using live_set_page [OF B(3) i0] B(4) p0 by simp
  have rd: "tree small_vm = (\<lambda>_. 0)" by (rule ext) (simp add: small_vm_def boot_vm_def)
  have ta: "table_at (\<lambda>_. 0) r p = (if p = [] then Some r else None)" for r p by (cases p) simp_all
  have "pt_wf (\<lambda>_. 0) {0x80300000} {0x80300000}"
    by (rule pt_wfI) (auto simp: tables_def ta PAGE_SIZE_def split: if_splits)
  then show "vm_wf small_vm {0x80300000}" using wf live by (simp add: vm_wf_def rd) (simp add: small_vm_def)
  have "0x80300000 \<in> pool ?a" unfolding pool_def using i0 p0 by (intro image_eqI [of _ _ 0]) simp_all
  from card_diff_insert [OF live_pages_finite this, of "{}"] B(2,4)
  show "free_pages small_vm = 255" by (simp add: free_pages_def small_vm_def live)
  show "walk 0x80300000 va (tree small_vm) = None"
  proof -
    obtain i j k off where va: "va_parts va = (i, j, k, off)" by (metis prod_cases4)
    show ?thesis unfolding walk_table_at [OF va] rd ta by simp
  qed
qed

lemma alloc_zeroed_page_outside:
  "alloc_zeroed_page s = Some (p, s') \<Longrightarrow> p mod PAGE_SIZE = 0 \<Longrightarrow> page_of b \<noteq> p \<Longrightarrow> ram s' b = ram s b"
  by (auto simp: alloc_zeroed_page_def zero_page_eq split: bind_splits)

lemma kvm_init_exact:
  assumes "vm_wf s R" "layout_ok L" "card (table_paths (region_set (kernel_regions L))) < free_pages s"
  shows "\<exists>root s'. kvm_init L s = Some (root, s') \<and> vm_wf s' (insert root R) \<and>
    (\<forall>va. va < 2 ^ 39 \<longrightarrow> walk root va (tree s') =
       map_option (\<lambda>f. \<lparr>wr_phys = va, wr_flags = f\<rparr>) (region_of (kernel_regions L) va)) \<and>
    (\<forall>va w. va < 2 ^ 39 \<longrightarrow> walk root va (tree s') = Some w \<longrightarrow>
       \<not> flags_contains (wr_flags w) PTE_USER \<and>
       \<not> (flags_contains (wr_flags w) PTE_WRITE \<and> flags_contains (wr_flags w) PTE_EXECUTE)) \<and>
    (\<forall>r va. r \<in> R \<longrightarrow> va < 2 ^ 39 \<longrightarrow> walk r va (tree s') = walk r va (tree s)) \<and>
    pool (page_bitmap s') = pool (page_bitmap s) \<and> (\<exists>m a. s' = s\<lparr>ram := m, page_bitmap := a\<rparr>) \<and>
    (\<forall>b. page_of b \<notin> pool (page_bitmap s) \<longrightarrow> ram s' b = ram s b) \<and>
    free_pages s \<le> free_pages s' + card (table_paths (region_set (kernel_regions L))) + 1"
  using assms(1)
proof (cases rule: fresh_root_cases)
  case full
  then show ?thesis using assms(3) by simp
next
  case (root r s1)
  have fl: "\<forall>(a, e, f) \<in> set (kernel_regions L). leaf_flags f \<and> e \<le> 2 ^ 39"
    using kernel_regions_flags assms(2) unfolding layout_ok_def by fast
  have "missing s1 r (region_set (kernel_regions L)) \<le> free_pages s1"
    using missing_le [of s1 r "region_set (kernel_regions L)"] root(5) assms(3) by linarith
  note ex = map_regions_spec [OF root(2) insertI1 fl order_refl this]
  obtain s' where s': "map_regions s1 r (kernel_regions L) = Some s'" "vm_grows (insert r R) s1 s'"
    "free_pages s1 + missing s' r (region_set (kernel_regions L)) = free_pages s' + missing s1 r (region_set (kernel_regions L))"
    "\<And>r' va. r' \<in> insert r R \<Longrightarrow> va < 2 ^ 39 \<Longrightarrow> walk r' va (tree s') =
      (case (if r' = r then region_of (kernel_regions L) va else None) of
         Some f \<Rightarrow> Some \<lparr>wr_phys = va, wr_flags = f\<rparr> | None \<Rightarrow> walk r' va (tree s1))"
    using ex by blast
  have map: "walk r va (tree s') =
      map_option (\<lambda>f. \<lparr>wr_phys = va, wr_flags = f\<rparr>) (region_of (kernel_regions L) va)" if "va < 2 ^ 39" for va
    using s'(4) [OF insertI1 that] root(6) by (simp split: option.split)
  have safe: "\<not> flags_contains (wr_flags w) PTE_USER \<and>
      \<not> (flags_contains (wr_flags w) PTE_WRITE \<and> flags_contains (wr_flags w) PTE_EXECUTE)"
    if "va < 2 ^ 39" "walk r va (tree s') = Some w" for va w
    using that map [OF that(1)] region_of_flags [of "kernel_regions L" va] kernel_regions_flags by fastforce
  have "kvm_init L s = Some (r, s')" using root(1) s'(1) assms(2) by (simp add: kvm_init_eq)
  moreover have "walk r' va (tree s') = walk r' va (tree s)" if "r' \<in> R" "va < 2 ^ 39" for r' va
    using s'(4) [OF insertI2 [OF that(1)] that(2)] root(3,7) that by auto
  moreover have "free_pages s \<le> free_pages s' + card (table_paths (region_set (kernel_regions L))) + 1"
    using s'(3) root(5) missing_le [of s1 r "region_set (kernel_regions L)"] by linarith
  moreover have "pool (page_bitmap s') = pool (page_bitmap s)" using vm_growsD(2) [OF s'(2)] root(12) by simp
  moreover have "\<exists>m a. s' = s\<lparr>ram := m, page_bitmap := a\<rparr>"
    using root(9) vm_growsD(7) [OF s'(2)] by (elim exE) (simp, blast)
  moreover have "ram s' b = ram s b" if "page_of b \<notin> pool (page_bitmap s)" for b
  proof -
    have "r mod PAGE_SIZE = 0" using assms(1) root(11) pool_aligned by (auto simp: vm_wf_def)
    moreover have "live s' \<subseteq> pool (page_bitmap s)"
      using live_subset_pool [of "page_bitmap s'"] vm_growsD(1,2) [OF s'(2)] root(12) by (auto simp: vm_wf_def)
    moreover have "tables (tree s') (insert r R) \<subseteq> live s'" using tables_live vm_growsD(1) [OF s'(2)] by blast
    ultimately show ?thesis
      using vm_growsD(6) [OF s'(2)] alloc_zeroed_page_outside [OF root(1)] root(11) that by (metis subsetD)
  qed
  ultimately show ?thesis
    using vm_growsD(1) [OF s'(2)] map safe by (intro exI [of _ r] exI [of _ s']) blast
qed

section \<open>Properties\<close>

text \<open>
  C13. Mapping a page.  On well-formed tables \<open>map_page\<close> panics only when the page pool has fewer
  free pages than the tables the address still needs.  Otherwise the address translates to the
  new page with the new permissions, every other address of this and of every other address
  space translates as before, the tables stay well formed, and no byte outside the tables
  changes.
\<close>

theorem map_page_refines:
  assumes "vm_wf s R" "r \<in> R" "leaf_flags f" "pa mod PAGE_SIZE = 0"
  shows "(map_page s r va pa f = None \<and> free_pages s < missing s r {va}) \<or>
    (\<exists>s'. map_page s r va pa f = Some s' \<and> vm_grows R s s' \<and>
       free_pages s + missing s' r {va} = free_pages s' + missing s r {va} \<and>
       (\<forall>r' va'. r' \<in> R \<longrightarrow> walk r' va' (tree s') =
          (if r' = r \<and> same_vpn va va'
           then Some \<lparr>wr_phys = pa + take_bit 12 va', wr_flags = f\<rparr> else walk r' va' (tree s))))"
  using assms
proof (cases rule: map_page_cases [where va = va])
  case (ok s')
  then show ?thesis by (intro disjI2 exI [of _ s']) simp
qed simp

theorem map_page_refines_witness:
  "vm_wf small_vm {0x80300000} \<and> leaf_flags USER_RW \<and>
   (\<exists>s'. map_page small_vm 0x80300000 0x5FFFF000 0x80305000 USER_RW = Some s' \<and>
      walk 0x80300000 0x5FFFF123 (tree s') = Some \<lparr>wr_phys = 0x80305123, wr_flags = USER_RW\<rparr>)"
proof -
  have al: "(0x80305000 :: usize) mod PAGE_SIZE = 0" by (simp add: PAGE_SIZE_def)
  have "\<not> free_pages small_vm < missing small_vm 0x80300000 {0x5FFFF000}"
    using missing_one [of small_vm "0x80300000" "0x5FFFF000"] small_vm_facts(2) by simp
  moreover have "same_vpn 0x5FFFF000 0x5FFFF123" by (simp add: same_vpn_def drop_bit_eq_div take_bit_eq_mod)
  moreover have "(0x80305000 :: usize) + take_bit 12 0x5FFFF123 = 0x80305123" by (simp add: take_bit_eq_mod)
  ultimately show ?thesis
    using map_page_refines [OF small_vm_facts(1) _ perms_leaf(6) al, of "0x80300000" "0x5FFFF000"]
      small_vm_facts(1) perms_leaf(6) by auto
qed

text \<open>
  C14. Unmapping a page never panics on well-formed tables.  It reports whether the address was
  mapped; if it was, exactly that page disappears from exactly that address space, and if it was
  not, nothing changes.  No page is returned to the allocator.
\<close>

theorem unmap_page_refines:
  assumes "vm_wf s R" "r \<in> R"
  shows "\<exists>s'. unmap_page s r va = Some (walk r va (tree s) \<noteq> None, s') \<and> vm_grows R s s' \<and>
    free_pages s' = free_pages s \<and> (walk r va (tree s) = None \<longrightarrow> s' = s) \<and>
    (\<forall>r' va'. r' \<in> R \<longrightarrow> walk r' va' (tree s') =
       (if r' = r \<and> same_vpn va va' then None else walk r' va' (tree s)))"
  by (rule unmap_page_spec [OF assms, of va]) auto

theorem unmap_page_refines_witness:
  "\<exists>s1 s2. vm_wf s1 {0x80300000} \<and> map_page small_vm 0x80300000 0x5FFFF000 0x80305000 USER_RW = Some s1 \<and>
     unmap_page s1 0x80300000 0x5FFFF000 = Some (True, s2) \<and> walk 0x80300000 0x5FFFF123 (tree s2) = None"
proof -
  have al: "(0x80305000 :: usize) mod PAGE_SIZE = 0" by (simp add: PAGE_SIZE_def)
  have v: "same_vpn 0x5FFFF000 0x5FFFF123" by (simp add: same_vpn_def drop_bit_eq_div take_bit_eq_mod)
  from small_vm_facts(1) singletonI perms_leaf(6) al show ?thesis
  proof (cases rule: map_page_cases [where r = "0x80300000" and va = "0x5FFFF000"])
    case oom
    then show ?thesis using missing_one [of small_vm "0x80300000" "0x5FFFF000"] small_vm_facts(2) by simp
  next
    case (ok s1)
    then have w: "vm_wf s1 {0x80300000}" "walk 0x80300000 0x5FFFF000 (tree s1) \<noteq> None"
      using vm_growsD(1) by (auto simp: same_vpn_def)
    from unmap_page_refines [OF w(1), of "0x80300000" "0x5FFFF000"] obtain s2 where
      "unmap_page s1 0x80300000 0x5FFFF000 = Some (True, s2)" "walk 0x80300000 0x5FFFF123 (tree s2) = None"
      using w(2) v by auto
    then show ?thesis using ok(1) w(1) by blast
  qed
qed

text \<open>
  C15. The kernel's own address space.  With a layout whose sections end below the Sv39 limit and
  enough free pages for the tables, \<open>kvm::init\<close> terminates without panic, and the new space maps
  exactly the kernel sections and devices, each address to itself with the permissions of its
  section; none of these mappings is accessible from user mode and none is both writable and
  executable; the other address spaces are untouched.
\<close>

theorem kernel_map_exact:
  assumes "vm_wf s R" "layout_ok L" "card (table_paths (region_set (kernel_regions L))) < free_pages s"
  shows "\<exists>root s'. kvm_init L s = Some (root, s') \<and> vm_wf s' (insert root R) \<and>
    (\<forall>va. va < 2 ^ 39 \<longrightarrow> walk root va (tree s') =
       map_option (\<lambda>f. \<lparr>wr_phys = va, wr_flags = f\<rparr>) (region_of (kernel_regions L) va)) \<and>
    (\<forall>va w. va < 2 ^ 39 \<longrightarrow> walk root va (tree s') = Some w \<longrightarrow>
       \<not> flags_contains (wr_flags w) PTE_USER \<and>
       \<not> (flags_contains (wr_flags w) PTE_WRITE \<and> flags_contains (wr_flags w) PTE_EXECUTE)) \<and>
    (\<forall>r va. r \<in> R \<longrightarrow> va < 2 ^ 39 \<longrightarrow> walk r va (tree s') = walk r va (tree s))"
  using kvm_init_exact [OF assms] by blast

definition qemu_layout :: layout where
  "qemu_layout = \<lparr>text_start = 0x80200000, text_end = 0x80240000, rodata_start = 0x80240000,
     rodata_end = 0x80250000, data_start = 0x80250000, data_end = 0x80251000, bss_start = 0x80251000,
     bss_end = 0x80300000, heap_start = 0x80300000, heap_end = 0x87FF0000, stack_top = 0x88000000\<rparr>"

lemma qemu_layout_facts:
  "layout_ok qemu_layout" "card (table_paths (region_set (kernel_regions qemu_layout))) \<le> 1539"
proof -
  show "layout_ok qemu_layout"
    by (simp add: layout_ok_def qemu_layout_def kernel_regions_def UART_BASE_def PLIC_BASE_def
        PLIC_MAP_SIZE_def PAGE_SIZE_def VIRTIO_MMIO_BASE_def VIRTIO_MMIO_SLOTS_def VIRTIO_MMIO_STRIDE_def)
  have "unat va < 3 * 2 ^ 30" if "va \<in> region_set (kernel_regions qemu_layout)" for va
  proof -
    from that obtain a e f where r: "(a, e, f) \<in> set (kernel_regions qemu_layout)" "va < page_up e"
      by (auto simp: region_set_def in_range_def)
    have up: "unat (page_up e) \<le> 3 * 2 ^ 30" if "e \<le> 0x88000000" for e
    proof -
      have "unat e \<le> 0x88000000" using that by (simp add: word_le_nat_alt)
      moreover from this have "unat (e + 4095) = unat e + 4095" by (subst unat_add_small) simp_all
      ultimately show ?thesis by (simp add: page_up_def unat_page_of)
    qed
    have "e \<le> 0x88000000"
      using r(1)
      by (auto simp: qemu_layout_def kernel_regions_def UART_BASE_def PLIC_BASE_def
        PLIC_MAP_SIZE_def PAGE_SIZE_def VIRTIO_MMIO_BASE_def VIRTIO_MMIO_SLOTS_def VIRTIO_MMIO_STRIDE_def)
    from up [OF this] r(2) show ?thesis by (simp add: word_less_nat_alt)
  qed
  from table_paths_card [OF this] show "card (table_paths (region_set (kernel_regions qemu_layout))) \<le> 1539" by simp
qed

theorem kernel_map_exact_witness:
  "\<exists>root s'. kvm_init qemu_layout (boot_vm 2000) = Some (root, s') \<and>
     walk root 0x80200123 (tree s') = Some \<lparr>wr_phys = 0x80200123, wr_flags = KERNEL_RX\<rparr>"
proof -
  have n: "0 < unat (2000 :: usize)" "unat (2000 :: usize) \<le> MAX_PAGES" by (simp_all add: MAX_PAGES_def)
  have c: "card (table_paths (region_set (kernel_regions qemu_layout))) < free_pages (boot_vm 2000)"
    using qemu_layout_facts(2) boot_vm_facts(2) [OF n] by simp
  have "region_of (kernel_regions qemu_layout) 0x80200123 = Some KERNEL_RX"
    by (simp add: kernel_regions_def qemu_layout_def in_range_def page_up_def page_of_def UART_BASE_def
        PLIC_BASE_def PLIC_MAP_SIZE_def PAGE_SIZE_def VIRTIO_MMIO_BASE_def VIRTIO_MMIO_SLOTS_def VIRTIO_MMIO_STRIDE_def)
  then show ?thesis
    using kernel_map_exact [OF boot_vm_facts(1) [OF n] qemu_layout_facts(1) c] by force
qed

end
