(* ===== verification/Devices.thy ===== *)
theory Devices
  imports Prelude Kvm
begin

unbundle bit_operations_syntax

text \<open>
  The two devices the kernel drives itself: the interrupt controller (\<open>plic.rs\<close>) and the UART
  (\<open>uart.rs\<close>).  The record \<open>devices\<close> holds what the drivers can observe or change: the PLIC's
  readable and writable registers by address, the interrupt numbers completed so far (latest
  first), the UART's control registers by index, the bytes waiting in its receive FIFO and the
  bytes transmitted (latest first).  The transmitter is always eventually ready, so the polling
  loop of \<open>putc\<close> ends.  A claim is answered by the hardware; the handler takes the answer as an
  argument.
\<close>

section \<open>PLIC\<close>

record devices =
  plic_regs :: "usize \<Rightarrow> u32"
  plic_done :: "u32 list"
  uart_regs :: "nat \<Rightarrow> u8"
  uart_rx :: "u8 list"
  uart_tx :: "u8 list"
  timer_cmp :: u64

definition UART0_IRQ :: u32 where "UART0_IRQ = 10"
definition PLIC_S_CONTEXT :: usize where "PLIC_S_CONTEXT = 1"
definition VIRTIO_IRQ_BASE :: u32 where "VIRTIO_IRQ_BASE = 1"
definition TIMER_FREQ :: u64 where "TIMER_FREQ = 10000000"
definition TIMESLICE :: u64 where "TIMESLICE = TIMER_FREQ div 100"

definition priority_addr :: "u32 \<Rightarrow> usize" where
  "priority_addr irq = PLIC_BASE + ucast irq * 4"

definition ENABLE_BASE :: usize where
  "ENABLE_BASE = PLIC_BASE + 0x2000 + PLIC_S_CONTEXT * 0x80"

definition THRESHOLD :: usize where
  "THRESHOLD = PLIC_BASE + 0x200000 + PLIC_S_CONTEXT * 0x1000"

definition plic_init :: "devices \<Rightarrow> devices" where
  "plic_init d =
     (let regs = (plic_regs d)(priority_addr UART0_IRQ := 1);
          regs = fold (\<lambda>i r. r(priority_addr (VIRTIO_IRQ_BASE + of_nat i) := 1))
                   [0..<unat VIRTIO_MMIO_SLOTS] regs
      in d\<lparr>plic_regs := regs(THRESHOLD := 0)\<rparr>)"

definition enable_addr :: "u32 \<Rightarrow> usize" where
  "enable_addr irq = ENABLE_BASE + ucast (irq div 32) * 4"

definition plic_enable_irq :: "devices \<Rightarrow> u32 \<Rightarrow> devices" where
  "plic_enable_irq d irq =
     (let bit_index = irq mod 32;
          current = plic_regs d (enable_addr irq)
      in d\<lparr>plic_regs := (plic_regs d)(enable_addr irq := current OR push_bit (unat bit_index) 1)\<rparr>)"

definition plic_complete :: "devices \<Rightarrow> u32 \<Rightarrow> devices" where
  "plic_complete d irq = d\<lparr>plic_done := irq # plic_done d\<rparr>"

text \<open>Interrupt \<open>irq\<close> is enabled for the kernel's context.\<close>

definition irq_enabled :: "devices \<Rightarrow> u32 \<Rightarrow> bool" where
  "irq_enabled d irq = bit (plic_regs d (enable_addr irq)) (unat (irq mod 32))"

section \<open>UART\<close>

text \<open>The write of \<open>0x07\<close> to the FIFO control register empties the receive FIFO.\<close>

definition uart_init :: "devices \<Rightarrow> devices" where
  "uart_init d =
     d\<lparr>uart_regs := (uart_regs d)(1 := 0x00, 3 := 0x03, 2 := 0x07, 4 := 0x0B), uart_rx := []\<rparr>"

definition putc :: "devices \<Rightarrow> u8 \<Rightarrow> devices" where
  "putc d c = d\<lparr>uart_tx := c # uart_tx d\<rparr>"

definition puts :: "devices \<Rightarrow> u8 list \<Rightarrow> devices" where
  "puts d s = fold (\<lambda>b d. putc (if b = 0x0A then putc d 0x0D else d) b) s d"

definition enable_rx_interrupt :: "devices \<Rightarrow> devices" where
  "enable_rx_interrupt d = d\<lparr>uart_regs := (uart_regs d)(1 := 0x01)\<rparr>"

definition disable_rx_interrupt :: "devices \<Rightarrow> devices" where
  "disable_rx_interrupt d = d\<lparr>uart_regs := (uart_regs d)(1 := 0x00)\<rparr>"

definition getc :: "devices \<Rightarrow> u8 option \<times> devices" where
  "getc d = (case uart_rx d of [] \<Rightarrow> (None, d) | c # cs \<Rightarrow> (Some c, d\<lparr>uart_rx := cs\<rparr>))"

definition echo :: "u8 \<Rightarrow> u8 list" where
  "echo c = (if c = 0x0D \<or> c = 0x0A then [0x0D, 0x0A]
             else if c = 0x7F \<or> c = 0x08 then [0x08, 0x20, 0x08] else [c])"

lemma uart_rx_putc [simp]: "uart_rx (fold (\<lambda>b d. putc d b) bs d) = uart_rx d"
  by (induction bs arbitrary: d) (simp_all add: putc_def)

lemma uart_tx_putc: "uart_tx (fold (\<lambda>b d. putc d b) bs d) = rev bs @ uart_tx d"
  by (induction bs arbitrary: d) (simp_all add: putc_def)

text \<open>The \<open>while let Some(c) = uart.getc()\<close> loop: it ends because each turn takes a byte out.\<close>

function uart_handle_interrupt :: "devices \<Rightarrow> devices" where
  "uart_handle_interrupt d =
     (case getc d of (None, d') \<Rightarrow> d' | (Some c, d') \<Rightarrow> uart_handle_interrupt (fold (\<lambda>b d. putc d b) (echo c) d'))"
  by pat_completeness auto
termination
  by (relation "measure (\<lambda>d. length (uart_rx d))") (auto simp: getc_def split: list.splits)

declare uart_handle_interrupt.simps [simp del]

lemma uart_handle_interrupt_eq:
  "uart_rx (uart_handle_interrupt d) = [] \<and>
   uart_tx (uart_handle_interrupt d) = rev (concat (map echo (uart_rx d))) @ uart_tx d"
proof (induction d rule: uart_handle_interrupt.induct)
  case (1 d)
  show ?case
  proof (cases "uart_rx d")
    case Nil
    then show ?thesis by (subst (1 2) uart_handle_interrupt.simps) (simp add: getc_def)
  next
    case (Cons c cs)
    then show ?thesis
      using 1 [of "Some c" "d\<lparr>uart_rx := cs\<rparr>" c]
      by (subst (1 2) uart_handle_interrupt.simps) (simp add: getc_def uart_tx_putc)
  qed
qed

section \<open>Properties\<close>

text \<open>
  Enabling an interrupt at the controller sets the enable bit of that interrupt and leaves
  the enable bit of every other interrupt as it was.
\<close>

theorem plic_enable_exact:
  "irq_enabled (plic_enable_irq d irq) irq' \<longleftrightarrow> irq' = irq \<or> irq_enabled d irq'"
proof -
  have lt: "unat (irq mod 32) < 32" for irq :: u32
    by (simp add: unat_mod)
  have addr: "enable_addr irq' = enable_addr irq \<longleftrightarrow> irq' div 32 = irq div 32"
  proof
    assume "enable_addr irq' = enable_addr irq"
    then have eq: "ucast (irq' div 32) * 4 = (ucast (irq div 32) * 4 :: usize)" by (simp add: enable_addr_def)
    have "unat (ucast w * 4 :: usize) = unat w * 4" for w :: u32
    proof -
      have w: "unat w < 2 ^ 32" by (rule order_less_le_trans [OF unsigned_less]) simp
      then have "unat (ucast w :: usize) = unat w"
        by (simp add: unsigned_ucast_eq take_bit_nat_eq_self)
      then show ?thesis using w by (subst unat_mult_small) simp_all
    qed
    with arg_cong [OF eq, of unat] show "irq' div 32 = irq div 32" by (simp add: word_unat_eq_iff)
  qed (simp add: enable_addr_def)
  have "irq' = irq \<longleftrightarrow> irq' div 32 = irq div 32 \<and> unat (irq' mod 32) = unat (irq mod 32)"
    by (metis div_mult_mod_eq word_unat_eq_iff)
  then show ?thesis
    using lt [of irq] lt [of irq'] addr
    by (auto simp: irq_enabled_def plic_enable_irq_def Let_def bit_simps)
qed

text \<open>
  The UART interrupt handler terminates with the receive FIFO drained and every received
  byte echoed in order: line ends as carriage return and line feed, a backspace or delete as an
  erase sequence, anything else as itself.
\<close>

theorem uart_echo_exact:
  "uart_rx (uart_handle_interrupt d) = [] \<and>
   rev (uart_tx (uart_handle_interrupt d)) = rev (uart_tx d) @ concat (map echo (uart_rx d))"
  using uart_handle_interrupt_eq [of d] by simp

end
