(* ===== verification/Wasi.thy ===== *)
theory Wasi
  imports Interp_Safe Devices
begin

unbundle bit_operations_syntax

text \<open>
  \<open>wasi.rs\<close>: the WASI bridge, which gives the interpreter its host functions, the initialisation of
  linear memory from the data segments, and \<open>run_wasm\<close>, which puts parser, bridge and interpreter
  together.  The host's state is the bridge and the devices, whose UART receives the output; the
  kernel's own log lines are not part of the model.
\<close>

definition MAX_DISPATCH :: nat where "MAX_DISPATCH = 16"

datatype WasiFunc = Unknown | FdWrite | ProcExit | EnvironSizesGet | EnvironGet | ArgsSizesGet | ArgsGet

record WasiBridge =
  dispatch :: "WasiFunc list"
  bridge_imports :: nat
  exit_code :: "u32 option"

definition ascii :: "string \<Rightarrow> u8 list" where "ascii s = map (\<lambda>c. of_nat (of_char c)) s"

text \<open>The \<open>if\<close> chain over the known names; a comparison that panicked would be \<open>None\<close>.\<close>

fun first_match :: "WasmModule \<Rightarrow> nat \<Rightarrow> (string \<times> WasiFunc) list \<Rightarrow> WasiFunc option" where
  "first_match m i [] = Some Unknown"
| "first_match m i ((name, f) # rest) =
     do { hit \<leftarrow> import_name_eq m i (ascii name); if hit then Some f else first_match m i rest }"

definition wasi_names :: "(string \<times> WasiFunc) list" where
  "wasi_names = [(''fd_write'', FdWrite), (''proc_exit'', ProcExit), (''environ_sizes_get'', EnvironSizesGet),
      (''environ_get'', EnvironGet), (''args_sizes_get'', ArgsSizesGet), (''args_get'', ArgsGet)]"

definition match_wasi_name :: "WasmModule \<Rightarrow> nat \<Rightarrow> WasiFunc option" where
  "match_wasi_name m i = first_match m i wasi_names"

fun fill_dispatch :: "WasmModule \<Rightarrow> nat list \<Rightarrow> WasiFunc list \<Rightarrow> WasiFunc list option" where
  "fill_dispatch m [] ds = Some ds"
| "fill_dispatch m (i # is) ds =
     do { f \<leftarrow> match_wasi_name m i; ds \<leftarrow> upd ds i f; fill_dispatch m is ds }"

definition from_module :: "WasmModule \<Rightarrow> WasiBridge option" where
  "from_module m =
     do { ds \<leftarrow> fill_dispatch m [0..<min (import_count m) MAX_DISPATCH] (replicate MAX_DISPATCH Unknown);
          Some \<lparr>dispatch = ds, bridge_imports = import_count m, exit_code = None\<rparr> }"

section \<open>Memory access\<close>

definition read_u32_le :: "u8 list \<Rightarrow> nat \<Rightarrow> (u32, u32) res" where
  "read_u32_le mem addr =
     (if length mem < addr + 4 then err_res 28
      else bind_res (or_panic (slice mem addr (addr + 4))) (\<lambda>bs. ok_res (from_le bs)))"

definition write_u32_le :: "u8 list \<Rightarrow> nat \<Rightarrow> u32 \<Rightarrow> (u32, u8 list) res" where
  "write_u32_le mem addr val =
     (if length mem < addr + 4 then err_res 28 else put_bytes addr (to_le 4 val) mem)"

section \<open>WASI functions\<close>

text \<open>
  A handler returns its \<open>Result\<close> together with the devices and the memory, in the shape the interpreter
  expects; \<open>err_with\<close> is the \<open>?\<close> of a helper inside a handler.
\<close>

type_synonym hostres = "((u32 + u64 option) \<times> devices \<times> u8 list) option"

definition emit_byte :: "u8 \<Rightarrow> devices \<Rightarrow> devices" where
  "emit_byte byte d = putc (if byte = 0x0A then putc d 0x0D else d) byte"

definition err_with :: "('e \<Rightarrow> 'f) \<Rightarrow> ('e, 'a) res \<Rightarrow> ('f, 'a) res" where
  "err_with f = map_option (map_sum f id)"

text \<open>One turn of the loop over the buffers; the error value is what the handler returns early.\<close>

definition write_iov :: "u8 list \<Rightarrow> nat \<Rightarrow> nat \<Rightarrow> u32 \<times> devices \<Rightarrow>
    ((u32 + u64 option) \<times> devices, u32 \<times> devices) res" where
  "write_iov mem iovs_ptr i = (\<lambda>(written, d).
     let iov_addr = iovs_ptr + i * 8
     in bind_res (err_with (\<lambda>e. (Inl e, d)) (read_u32_le mem iov_addr)) (\<lambda>buf_ptr.
        bind_res (err_with (\<lambda>e. (Inl e, d)) (read_u32_le mem (iov_addr + 4))) (\<lambda>buf_len.
          if length mem < unat buf_ptr + unat buf_len then err_res (Inr (Some 28), d)
          else bind_res (for_res (\<lambda>j d. bind_res (or_panic (idx mem (unat buf_ptr + j))) (\<lambda>b. ok_res (emit_byte b d)))
                           [0..<unat buf_len] d) (\<lambda>d. ok_res (written + buf_len, d)))))"

definition fd_write :: "u64 list \<Rightarrow> u8 list \<Rightarrow> devices \<Rightarrow> hostres" where
  "fd_write args mem d =
     (if length args < 4 then Some (Inl 1, d, mem)
      else let fd = ucast (args ! 0) :: u32; iovs_ptr = unat (ucast (args ! 1) :: u32);
               iovs_len = unat (ucast (args ! 2) :: u32); nwritten_ptr = unat (ucast (args ! 3) :: u32)
           in if fd \<noteq> 1 \<and> fd \<noteq> 2 then Some (Inr (Some 8), d, mem)
              else case for_res (write_iov mem iovs_ptr) [0..<iovs_len] (0, d) of
                     None \<Rightarrow> None
                   | Some (Inl (r, d)) \<Rightarrow> Some (r, d, mem)
                   | Some (Inr (written, d)) \<Rightarrow>
                       (case write_u32_le mem nwritten_ptr written of
                          None \<Rightarrow> None
                        | Some (Inl e) \<Rightarrow> Some (Inl e, d, mem)
                        | Some (Inr mem) \<Rightarrow> Some (Inr (Some 0), d, mem)))"

definition proc_exit :: "u64 list \<Rightarrow> WasiBridge \<Rightarrow> (u32 + u64 option) \<times> WasiBridge" where
  "proc_exit args b = (Inl 0xDEAD, b\<lparr>exit_code := Some (if args \<noteq> [] then ucast (args ! 0) else 0)\<rparr>)"

text \<open>\<open>environ_sizes_get\<close>; \<open>args_sizes_get\<close> has the same body.\<close>

definition environ_sizes_get :: "u64 list \<Rightarrow> u8 list \<Rightarrow> devices \<Rightarrow> hostres" where
  "environ_sizes_get args mem d =
     (if length args < 2 then Some (Inl 1, d, mem)
      else case write_u32_le mem (unat (ucast (args ! 0) :: u32)) 0 of
             None \<Rightarrow> None
           | Some (Inl e) \<Rightarrow> Some (Inl e, d, mem)
           | Some (Inr mem) \<Rightarrow>
               (case write_u32_le mem (unat (ucast (args ! 1) :: u32)) 0 of
                  None \<Rightarrow> None
                | Some (Inl e) \<Rightarrow> Some (Inl e, d, mem)
                | Some (Inr mem) \<Rightarrow> Some (Inr (Some 0), d, mem)))"

definition args_sizes_get :: "u64 list \<Rightarrow> u8 list \<Rightarrow> devices \<Rightarrow> hostres" where
  "args_sizes_get args mem d = environ_sizes_get args mem d"

definition environ_get :: "u64 list \<Rightarrow> u8 list \<Rightarrow> devices \<Rightarrow> hostres" where
  "environ_get args mem d = Some (Inr (Some 0), d, mem)"

definition args_get :: "u64 list \<Rightarrow> u8 list \<Rightarrow> devices \<Rightarrow> hostres" where
  "args_get args mem d = Some (Inr (Some 0), d, mem)"

definition wasi_call :: "(WasiBridge \<times> devices) host" where
  "wasi_call = (\<lambda>(b, d) func_idx args mem.
     let i = unat func_idx; with_bridge = map_option (\<lambda>(r, d, mem). (r, (b, d), mem))
     in if bridge_imports b \<le> i then Some (Inl func_idx, (b, d), mem)
        else case idx (dispatch b) i of
               None \<Rightarrow> None
             | Some FdWrite \<Rightarrow> with_bridge (fd_write args mem d)
             | Some ProcExit \<Rightarrow> (let (r, b) = proc_exit args b in Some (r, (b, d), mem))
             | Some EnvironSizesGet \<Rightarrow> with_bridge (environ_sizes_get args mem d)
             | Some EnvironGet \<Rightarrow> with_bridge (environ_get args mem d)
             | Some ArgsSizesGet \<Rightarrow> with_bridge (args_sizes_get args mem d)
             | Some ArgsGet \<Rightarrow> with_bridge (args_get args mem d)
             | Some Unknown \<Rightarrow> Some (Inl func_idx, (b, d), mem))"

section \<open>Running a module\<close>

fun copy_segment :: "u8 list \<Rightarrow> nat \<Rightarrow> nat \<Rightarrow> nat list \<Rightarrow> u8 list \<Rightarrow> u8 list option" where
  "copy_segment bytes src dst [] mem = Some mem"
| "copy_segment bytes src dst (j # js) mem =
     do { b \<leftarrow> idx bytes (src + j); mem \<leftarrow> upd mem (dst + j) b; copy_segment bytes src dst js mem }"

fun init_segments :: "WasmModule \<Rightarrow> u8 list \<Rightarrow> nat list \<Rightarrow> u8 list \<Rightarrow> u8 list option" where
  "init_segments m bytes [] mem = Some mem"
| "init_segments m bytes (i # is) mem =
     do { seg \<leftarrow> idx (data_segments m) i;
          let dst_start = unat (seg_offset seg);
          let dst_end = dst_start + data_len seg;
          let src_end = data_offset seg + data_len seg;
          if length mem < dst_end \<or> length bytes < src_end then init_segments m bytes is mem
          else do { mem \<leftarrow> copy_segment bytes (data_offset seg) dst_start [0..<data_len seg] mem;
                    init_segments m bytes is mem } }"

definition init_data_segments :: "WasmModule \<Rightarrow> u8 list \<Rightarrow> u8 list \<Rightarrow> u8 list option" where
  "init_data_segments m bytes mem = init_segments m bytes [0..<data_segment_count m] mem"

definition exit_status :: "WasiBridge \<Rightarrow> u32" where
  "exit_status b = (case exit_code b of None \<Rightarrow> 0 | Some c \<Rightarrow> c)"

text \<open>
  \<open>run_wasm\<close> on a linear memory of \<open>n\<close> bytes: \<open>None\<close> when the program does not end, \<open>Some None\<close> a panic,
  and otherwise the exit code and the devices afterwards.  The source's memory has 65536 bytes.
\<close>

definition run_wasm_in :: "nat \<Rightarrow> u8 list \<Rightarrow> devices \<Rightarrow> (u32 \<times> devices) option option" where
  "run_wasm_in n bytes d =
     (case wasm_parse bytes of
        None \<Rightarrow> Some None
      | Some (Inl e) \<Rightarrow> Some (Some (-1, d))
      | Some (Inr m) \<Rightarrow>
          (case (init_data_segments m bytes (replicate n 0), from_module m,
                 find_export m (ascii ''_start'') EXPORT_FUNC) of
             (Some mem, Some b, Some None) \<Rightarrow> Some (Some (-2, d))
           | (Some mem, Some b, Some (Some start_idx)) \<Rightarrow>
               (case call_function wasi_call start_idx []
                       (new_interp m bytes (of_nat (import_count m)), mem, (b, d)) of
                  None \<Rightarrow> None
                | Some None \<Rightarrow> Some None
                | Some (Some (Inr (_, _, b, d))) \<Rightarrow> Some (Some (exit_status b, d))
                | Some (Some (Inl (t, _, b, d))) \<Rightarrow>
                    Some (Some (if t = HostCallError 0xDEAD then exit_status b else -3, d)))
           | _ \<Rightarrow> Some None))"

definition run_wasm :: "u8 list \<Rightarrow> devices \<Rightarrow> (u32 \<times> devices) option option" where
  "run_wasm = run_wasm_in 65536"

definition HELLO_WASM :: "u8 list" where
  "HELLO_WASM =
    [0x00, 0x61, 0x73, 0x6D, 0x01, 0x00, 0x00, 0x00, 0x01, 0x0C, 0x02, 0x60, 0x04, 0x7F, 0x7F,
     0x7F, 0x7F, 0x01, 0x7F, 0x60, 0x00, 0x00, 0x02, 0x23, 0x01, 0x16, 0x77, 0x61, 0x73, 0x69,
     0x5F, 0x73, 0x6E, 0x61, 0x70, 0x73, 0x68, 0x6F, 0x74, 0x5F, 0x70, 0x72, 0x65, 0x76, 0x69,
     0x65, 0x77, 0x31, 0x08, 0x66, 0x64, 0x5F, 0x77, 0x72, 0x69, 0x74, 0x65, 0x00, 0x00, 0x03,
     0x02, 0x01, 0x01, 0x05, 0x03, 0x01, 0x00, 0x01, 0x07, 0x13, 0x02, 0x06, 0x5F, 0x73, 0x74,
     0x61, 0x72, 0x74, 0x00, 0x01, 0x06, 0x6D, 0x65, 0x6D, 0x6F, 0x72, 0x79, 0x02, 0x00, 0x0A,
     0x1E, 0x01, 0x1C, 0x00, 0x41, 0x00, 0x41, 0xE4, 0x00, 0x36, 0x02, 0x00, 0x41, 0x04, 0x41,
     0x11, 0x36, 0x02, 0x00, 0x41, 0x01, 0x41, 0x00, 0x41, 0x01, 0x41, 0x08, 0x10, 0x00, 0x1A,
     0x0B, 0x0B, 0x18, 0x01, 0x00, 0x41, 0xE4, 0x00, 0x0B, 0x11, 0x48, 0x65, 0x6C, 0x6C, 0x6F,
     0x20, 0x66, 0x72, 0x6F, 0x6D, 0x20, 0x57, 0x41, 0x53, 0x4D, 0x21, 0x0A]"

definition run_wasm_test :: "devices \<Rightarrow> (u32 \<times> devices) option option" where
  "run_wasm_test = run_wasm HELLO_WASM"

section \<open>Memory helpers\<close>

lemma put_bytes_eq:
  "ea + length bs \<le> length mem \<Longrightarrow> put_bytes ea bs mem = (ok_res (take ea mem @ bs @ drop (ea + length bs) mem) :: ('e, u8 list) res)"
proof (induction bs rule: rev_induct)
  case (snoc b bs)
  have "for_res (\<lambda>i mem. or_panic (upd mem (ea + i) ((bs @ [b]) ! i))) [0..<length bs] m =
      (put_bytes ea bs m :: ('e, u8 list) res)" for m
    unfolding put_bytes_def by (rule for_res_cong) (simp_all add: nth_append)
  moreover have "drop (ea + length bs) mem = mem ! (ea + length bs) # drop (Suc (ea + length bs)) mem"
    using snoc.prems by (simp add: Cons_nth_drop_Suc)
  ultimately show ?case
    using snoc unfolding put_bytes_def [of ea "bs @ [b]"]
    by (simp add: for_res_append upd_def list_update_append)
qed (simp add: put_bytes_def)

lemma write_u32_le_eq:
  "write_u32_le mem addr val =
     (if length mem < addr + 4 then err_res 28 else ok_res (take addr mem @ to_le 4 val @ drop (addr + 4) mem))"
  by (simp add: write_u32_le_def put_bytes_eq to_le_def)

text \<open>The little-endian word at an address inside the memory.\<close>

definition u32_at :: "u8 list \<Rightarrow> nat \<Rightarrow> u32" where
  "u32_at mem a = from_le (take 4 (drop a mem))"

lemma read_u32_le_eq:
  "read_u32_le mem addr = (if length mem < addr + 4 then err_res 28 else ok_res (u32_at mem addr))"
  by (simp add: read_u32_le_def slice_def u32_at_def take_drop add.commute)

section \<open>Output\<close>

text \<open>What a serial terminal receives for a byte string: line feeds become carriage return, line feed.\<close>

definition crlf :: "u8 list \<Rightarrow> u8 list" where
  "crlf bs = concat (map (\<lambda>b. if b = 0x0A then [0x0D, 0x0A] else [b]) bs)"

definition emit :: "u8 list \<Rightarrow> devices \<Rightarrow> devices" where
  "emit bs d = d\<lparr>uart_tx := rev (crlf bs) @ uart_tx d\<rparr>"

lemma emit_simps [simp]: "emit [] d = d" "emit bs (emit as d) = emit (as @ bs) d"
  "emit_byte b d = emit [b] d"
  by (simp_all add: emit_def crlf_def emit_byte_def putc_def)

lemma emit_loop:
  "p + n \<le> length mem \<Longrightarrow>
   for_res (\<lambda>j d. bind_res (or_panic (idx mem (p + j))) (\<lambda>b. ok_res (emit_byte b d))) [0..<n] d =
     ok_res (emit (take n (drop p mem)) d)"
  by (induction n) (auto simp: for_res_append take_Suc_conv_app_nth)

text \<open>The buffer the \<open>i\<close>-th entry of the vector at \<open>p\<close> describes, its end and the entry's validity.\<close>

definition iov_ptr :: "u8 list \<Rightarrow> nat \<Rightarrow> nat \<Rightarrow> nat" where
  "iov_ptr mem p i = unat (u32_at mem (p + i * 8))"

definition iov_len :: "u8 list \<Rightarrow> nat \<Rightarrow> nat \<Rightarrow> u32" where
  "iov_len mem p i = u32_at mem (p + i * 8 + 4)"

definition iov_bytes :: "u8 list \<Rightarrow> nat \<Rightarrow> nat \<Rightarrow> u8 list" where
  "iov_bytes mem p i = take (unat (iov_len mem p i)) (drop (iov_ptr mem p i) mem)"

lemma write_iov_eq:
  "write_iov mem p i (w, d) =
     (if length mem < p + i * 8 + 8 then err_res (Inl 28, d)
      else if length mem < iov_ptr mem p i + unat (iov_len mem p i) then err_res (Inr (Some 28), d)
      else ok_res (w + iov_len mem p i, emit (iov_bytes mem p i) d))"
  by (auto simp: write_iov_def Let_def read_u32_le_eq err_with_def emit_loop iov_ptr_def iov_len_def
      iov_bytes_def simp del: emit_simps(3))

lemma write_iovs_hold: "holds (\<lambda>_. True) (for_res (write_iov mem p) is s)"
  by (rule holds_for_inv) (auto simp: write_iov_eq)

lemma write_iovs_eq:
  "(\<forall>i<n. p + i * 8 + 8 \<le> length mem \<and> iov_ptr mem p i + unat (iov_len mem p i) \<le> length mem) \<Longrightarrow>
   for_res (write_iov mem p) [0..<n] (w, d) =
     ok_res (w + sum_list (map (iov_len mem p) [0..<n]), emit (concat (map (iov_bytes mem p) [0..<n])) d)"
  by (induction n) (simp_all add: for_res_append write_iov_eq not_less add.assoc)

text \<open>
  C24. \<open>fd_write\<close> on stdout or stderr with valid buffers sends exactly the bytes the vector describes to
  the UART, in order and with line feeds translated, returns success, stores the number of bytes
  written at \<open>nwritten_ptr\<close> and changes no other byte of the linear memory.
\<close>
theorem fd_write_exact:
  fixes fd :: u32 and p n nw :: nat
  assumes "fd = ucast a0" "p = unat (ucast a1 :: u32)" "n = unat (ucast a2 :: u32)" "nw = unat (ucast a3 :: u32)"
    and "fd = 1 \<or> fd = 2" "p + 8 * n \<le> length mem" "nw + 4 \<le> length mem"
    and "\<forall>i<n. iov_ptr mem p i + unat (iov_len mem p i) \<le> length mem"
  shows "fd_write (a0 # a1 # a2 # a3 # rest) mem d =
    Some (Inr (Some 0),
      d\<lparr>uart_tx := rev (crlf (concat (map (iov_bytes mem p) [0..<n]))) @ uart_tx d\<rparr>,
      take nw mem @ to_le 4 (sum_list (map (iov_len mem p) [0..<n])) @ drop (nw + 4) mem)"
proof -
  have "p + i * 8 + 8 \<le> length mem" if "i < n" for i
    using that assms(6) mult_le_mono1 [of "Suc i" n 8] by simp
  then have loop: "for_res (write_iov mem p) [0..<n] (0, d) =
      ok_res (sum_list (map (iov_len mem p) [0..<n]), emit (concat (map (iov_bytes mem p) [0..<n])) d)"
    using write_iovs_eq [of n p mem 0 d] assms(8) by simp
  show ?thesis
    using assms(5,7) unfolding fd_write_def Let_def
    by (auto simp: assms(1-4) [symmetric] loop write_u32_le_eq emit_def)
qed

definition quiet_devices :: devices where
  "quiet_devices = \<lparr>plic_regs = \<lambda>_. 0, plic_done = [], uart_regs = \<lambda>_. 0, uart_rx = [], uart_tx = [], timer_cmp = 0\<rparr>"

theorem fd_write_exact_witness:
  "fd_write [1, 0, 1, 8] [10, 0, 0, 0, 2, 0, 0, 0, 9, 9, 0x48, 0x0A] quiet_devices =
     Some (Inr (Some 0), quiet_devices\<lparr>uart_tx := [0x0A, 0x0D, 0x48]\<rparr>, [10, 0, 0, 0, 2, 0, 0, 0, 2, 0, 0, 0])"
proof -
  let ?mem = "[10, 0, 0, 0, 2, 0, 0, 0, 9, 9, 0x48, 0x0A] :: u8 list"
  have iov: "iov_ptr ?mem 0 0 = 10" "iov_len ?mem 0 0 = 2" "iov_bytes ?mem 0 0 = [0x48, 0x0A]" "to_le 4 (2 :: u32) = [2, 0, 0, 0]"
    by code_simp+
  have eq: "unat (ucast (0 :: u64) :: u32) = 0" "unat (ucast (1 :: u64) :: u32) = 1" "unat (ucast (8 :: u64) :: u32) = 8"
    by code_simp+
  show ?thesis
    using fd_write_exact [where ?a0.0 = 1 and ?a1.0 = 0 and ?a2.0 = 1 and ?a3.0 = 8 and fd = 1 and p = 0 and n = 1
        and nw = 8 and mem = ?mem and d = quiet_devices and rest = "[]"] iov eq
    by (simp add: crlf_def quiet_devices_def)
qed

section \<open>The bridge as the interpreter's host\<close>

definition bridge_wf :: "WasiBridge \<Rightarrow> bool" where
  "bridge_wf b \<longleftrightarrow> length (dispatch b) = MAX_DISPATCH \<and> bridge_imports b \<le> MAX_DISPATCH"

lemma handlers_total:
  "\<exists>r d' mem'. fd_write args mem d = Some (r, d', mem') \<and> length mem' = length mem"
  "\<exists>r d' mem'. environ_sizes_get args mem d = Some (r, d', mem') \<and> length mem' = length mem"
proof -
  show "\<exists>r d' mem'. fd_write args mem d = Some (r, d', mem') \<and> length mem' = length mem"
    using write_iovs_hold [of mem "unat (ucast (args ! 1) :: u32)" "[0..<unat (ucast (args ! 2) :: u32)]" "(0, d)"]
    unfolding fd_write_def Let_def
    by (auto simp: write_u32_le_eq to_le_def split: option.split sum.split prod.split)
  show "\<exists>r d' mem'. environ_sizes_get args mem d = Some (r, d', mem') \<and> length mem' = length mem"
    by (auto simp: environ_sizes_get_def write_u32_le_eq to_le_def)
qed

interpretation wasi: host_functions wasi_call "\<lambda>(b, d). bridge_wf b"
proof
  fix h :: "WasiBridge \<times> devices" and i args mem
  assume "case h of (b, d) \<Rightarrow> bridge_wf b"
  then obtain b d where h: "h = (b, d)" "bridge_wf b" by auto
  note total = handlers_total [of args mem d]
  show "\<exists>r h' mem'. wasi_call h i args mem = Some (r, h', mem') \<and>
      (case h' of (b, d) \<Rightarrow> bridge_wf b) \<and> length mem' = length mem"
  proof (cases "bridge_imports b \<le> unat i")
    case False
    then have "idx (dispatch b) (unat i) = Some (dispatch b ! unat i)"
      using h by (auto simp: bridge_wf_def)
    then show ?thesis
      using total h False
      by (cases "dispatch b ! unat i")
        (auto simp: wasi_call_def Let_def environ_get_def args_get_def args_sizes_get_def proc_exit_def bridge_wf_def)
  qed (use h in \<open>simp add: wasi_call_def\<close>)
qed

section \<open>Building the bridge and the memory\<close>

definition import_name :: "WasmModule \<Rightarrow> nat \<Rightarrow> u8 list" where
  "import_name m i = take (import_name_lens m ! i) (import_names m ! i)"

lemma import_name_eq_exact:
  assumes "wasm_wf d m" "i < import_count m"
  shows "import_name_eq m i s = Some (import_name m i = s)"
proof -
  have "i < length (import_name_lens m)" "i < length (import_names m)"
    "import_name_lens m ! i \<le> length (import_names m ! i)"
    using assms by (auto simp: wasm_wf_def)
  then show ?thesis
    using bytes_eq_prefix [of s "import_names m ! i"] assms(2)
    by (auto simp: import_name_eq_def import_name_def)
qed

definition known :: "(string \<times> WasiFunc) list \<Rightarrow> u8 list \<Rightarrow> WasiFunc" where
  "known tab name = (case map_of (map (\<lambda>(s, f). (ascii s, f)) tab) name of None \<Rightarrow> Unknown | Some f \<Rightarrow> f)"

lemma first_match_known:
  "wasm_wf d m \<Longrightarrow> i < import_count m \<Longrightarrow> first_match m i tab = Some (known tab (import_name m i))"
  by (induction tab) (auto simp: import_name_eq_exact known_def)

lemma fill_dispatch_eq:
  assumes "wasm_wf d m" "n \<le> import_count m"
  shows "n \<le> length ds \<Longrightarrow>
    \<exists>ds'. fill_dispatch m [k..<n] ds = Some ds' \<and> length ds' = length ds \<and>
      (\<forall>i<length ds. ds' ! i = (if k \<le> i \<and> i < n then known wasi_names (import_name m i) else ds ! i))"
proof (induction "n - k" arbitrary: k ds)
  case (Suc x)
  then have k: "[k..<n] = k # [Suc k..<n]" "k < n" by (simp_all add: upt_conv_Cons)
  then have "match_wasi_name m k = Some (known wasi_names (import_name m k))"
    using first_match_known [OF assms(1), of k] assms(2) by (simp add: match_wasi_name_def)
  moreover have "x = n - Suc k" using Suc(2) by simp
  moreover obtain ds' where "fill_dispatch m [Suc k..<n] (ds[k := known wasi_names (import_name m k)]) = Some ds'"
    "length ds' = length ds"
    "\<forall>i<length ds. ds' ! i = (if Suc k \<le> i \<and> i < n then known wasi_names (import_name m i)
       else ds[k := known wasi_names (import_name m k)] ! i)"
    using Suc(1) [of "Suc k" "ds[k := known wasi_names (import_name m k)]"] Suc.prems calculation by auto
  ultimately show ?case
    using k Suc.prems by (auto simp: nth_list_update not_less_eq_eq le_antisym)
qed auto

text \<open>
  The dispatch table \<open>from_module\<close> builds for a parsed module sends each imported function to the WASI
  function of exactly that name, the names that are not known and the entries past the imports to
  \<open>Unknown\<close>; comparing the names does not panic.
\<close>
lemma from_module_exact:
  assumes "wasm_wf d m"
  shows "\<exists>b. from_module m = Some b \<and> bridge_wf b \<and> exit_code b = None \<and> bridge_imports b = import_count m \<and>
    (\<forall>i<MAX_DISPATCH. dispatch b ! i = (if i < import_count m then known wasi_names (import_name m i) else Unknown))"
proof -
  have n: "import_count m \<le> MAX_DISPATCH"
    using assms by (simp add: wasm_wf_def MAX_DISPATCH_def MAX_IMPORTS_def)
  then show ?thesis
    using fill_dispatch_eq [OF assms, of "import_count m" "replicate MAX_DISPATCH Unknown" 0]
    by (auto simp: from_module_def bridge_wf_def min_absorb1)
qed

text \<open>A data segment's destination, and the memory after the segment is copied or, if out of range, skipped.\<close>

definition place :: "u8 list \<Rightarrow> DataSegment \<Rightarrow> u8 list \<Rightarrow> u8 list" where
  "place bytes seg mem =
     (let dst = unat (seg_offset seg); n = data_len seg
      in if dst + n \<le> length mem then take dst mem @ take n (drop (data_offset seg) bytes) @ drop (dst + n) mem
         else mem)"

lemma copy_segment_append:
  "copy_segment bytes src dst (xs @ ys) mem = copy_segment bytes src dst xs mem \<bind> copy_segment bytes src dst ys"
  by (induction xs arbitrary: mem) (auto split: Option.bind_split)

lemma copy_segment_eq:
  "src + n \<le> length bytes \<Longrightarrow> dst + n \<le> length mem \<Longrightarrow>
   copy_segment bytes src dst [0..<n] mem = Some (take dst mem @ take n (drop src bytes) @ drop (dst + n) mem)"
proof (induction n)
  case (Suc n)
  have "drop (dst + n) mem = mem ! (dst + n) # drop (Suc (dst + n)) mem"
    using Suc.prems by (simp add: Cons_nth_drop_Suc)
  then show ?case
    using Suc by (simp add: copy_segment_append upd_def list_update_append take_Suc_conv_app_nth min_absorb2)
qed simp

lemma length_place [simp]:
  "data_offset seg + data_len seg \<le> length bytes \<Longrightarrow> length (place bytes seg mem) = length mem"
  by (auto simp: place_def Let_def)

text \<open>
  \<open>init_data_segments\<close> on a parsed module copies the segments into linear memory in the order of
  the binary, skips those that do not fit and does not panic.
\<close>
lemma init_data_segments_exact:
  assumes "wasm_wf bytes m"
  shows "init_data_segments m bytes mem =
    Some (fold (place bytes) (take (data_segment_count m) (data_segments m)) mem)"
proof -
  have seg: "data_offset (data_segments m ! i) + data_len (data_segments m ! i) \<le> length bytes"
    "i < length (data_segments m)" if "i < data_segment_count m" for i
    using assms that by (auto simp: wasm_wf_def)
  have "init_segments m bytes is mem = Some (fold (place bytes) (map ((!) (data_segments m)) is) mem)"
    if "set is \<subseteq> {..<data_segment_count m}" for "is"
    using that
  proof (induction "is" arbitrary: mem)
    case (Cons i "is")
    then have i: "i < data_segment_count m" by simp
    show ?case
      using Cons copy_segment_eq [of "data_offset (data_segments m ! i)" _ bytes] seg [OF i]
      by (auto simp: place_def Let_def)
  qed simp
  moreover have "map ((!) (data_segments m)) [0..<data_segment_count m] = take (data_segment_count m) (data_segments m)"
    using assms by (intro nth_equalityI) (auto simp: wasm_wf_def)
  ultimately show ?thesis by (simp add: init_data_segments_def lessThan_atLeast0)
qed

text \<open>
  C23. Whatever bytes it is given, \<open>run_wasm\<close> does not panic: a binary the parser rejects, one without a
  \<open>_start\<close> function and one that traps are reported by exit codes, and a program that ends never indexes
  outside a table, the linear memory or the bridge on the way.
\<close>
theorem run_wasm_no_panic: "run_wasm bytes d \<noteq> Some None"
proof (cases "wasm_parse bytes")
  case (Some r)
  show ?thesis
  proof (cases r)
    case (Inr m)
    have wf: "wasm_wf bytes m" using parse_wf_of Some Inr by simp
    obtain b where b: "from_module m = Some b" "bridge_wf b" using from_module_exact [OF wf] by blast
    obtain e where e: "find_export m (ascii ''_start'') EXPORT_FUNC = Some e"
      using find_export_from_find [OF wf, of "[0..<export_count m]"] by (auto simp: find_export_def atLeast0LessThan)
    have "unat (of_nat (import_count m) :: u32) \<le> import_count m" by (simp add: unat_of_nat)
    then have "call_function wasi_call i [] (new_interp m bytes (of_nat (import_count m)), mem, (b, d)) \<noteq> Some None"
      for i mem
      using wasi.call_function_safe [OF wf _ _, of _ "(b, d)" i "[]" mem None] b(2) by auto
    then show ?thesis
      unfolding run_wasm_def run_wasm_in_def
      using Some Inr b(1) e init_data_segments_exact [OF wf, of "replicate 65536 0"]
      by (auto split: option.splits sum.splits)
  qed (use Some in \<open>simp add: run_wasm_def run_wasm_in_def\<close>)
qed (use wasm_parse_holds [of bytes] in simp)

end
