(* ===== verification/Wasi_Hello.thy ===== *)
theory Wasi_Hello
  imports Wasi
begin

text \<open>
  The built-in test program of \<open>wasi.rs\<close>, executed by the kernel's simplifier through the parser, the
  data segments, the bridge and the interpreter.  The memory beyond the bytes the program touches
  stays symbolic.
\<close>

lemma length_by_Suc [code]: "length [] = 0" "length (x # xs) = Suc (length xs)"
  by simp_all

lemma hello_run:
  "map_option (map_option (map_prod id uart_tx)) (run_wasm_in (128 + k) HELLO_WASM
     \<lparr>plic_regs = pr, plic_done = pd, uart_regs = ur, uart_rx = rx, uart_tx = tx, timer_cmp = tc\<rparr>) =
   Some (Some (0, rev (crlf (ascii ''Hello from WASM!'' @ [0x0A])) @ tx))"
  by code_simp

text \<open>
  C25. The built-in test binary runs to its end, exits with code 0 and prints exactly
  \<open>Hello from WASM!\<close> and a line end on the UART, whatever the state of the devices was.
\<close>
theorem hello_wasm_prints:
  "map_option (map_option (map_prod id uart_tx)) (run_wasm_test d) =
     Some (Some (0, rev (crlf (ascii ''Hello from WASM!'' @ [0x0A])) @ uart_tx d))"
proof -
  have eq: "run_wasm_test = run_wasm_in (128 + 65408) HELLO_WASM"
    by (simp add: run_wasm_test_def run_wasm_def)
  show ?thesis by (cases d) (simp only: eq hello_run devices.simps)
qed

end
