(* ===== verification/Virtio.thy ===== *)
theory Virtio
  imports Devices "HOL-Library.Multiset"
begin

unbundle bit_operations_syntax

text \<open>
  \<open>virtio.rs\<close> and \<open>driver.rs\<close>: the VirtIO MMIO transport and the virtio-net driver.  The driver's
  structure lies in memory that it shares with the device: the device reads descriptors, available
  rings and buffers and writes the used rings and the receive buffers.  Its actions between two driver
  calls are steps of their own; during one call the used rings do not change.  Register writes are
  logged in \<open>mmio_out\<close>; what a register read returns is decided by the device, a parameter that sees
  all register writes so far.  The physical addresses of the static structures are parameters.
\<close>

section \<open>Constants\<close>

definition VIRTIO_MMIO_MAGIC :: usize where "VIRTIO_MMIO_MAGIC = 0x000"
definition VIRTIO_MMIO_VERSION :: usize where "VIRTIO_MMIO_VERSION = 0x004"
definition VIRTIO_MMIO_DEVICE_ID :: usize where "VIRTIO_MMIO_DEVICE_ID = 0x008"
definition VIRTIO_MMIO_VENDOR_ID :: usize where "VIRTIO_MMIO_VENDOR_ID = 0x00C"
definition VIRTIO_MMIO_DEV_FEATURES :: usize where "VIRTIO_MMIO_DEV_FEATURES = 0x010"
definition VIRTIO_MMIO_DEV_FEATURES_SEL :: usize where "VIRTIO_MMIO_DEV_FEATURES_SEL = 0x014"
definition VIRTIO_MMIO_DRV_FEATURES :: usize where "VIRTIO_MMIO_DRV_FEATURES = 0x020"
definition VIRTIO_MMIO_DRV_FEATURES_SEL :: usize where "VIRTIO_MMIO_DRV_FEATURES_SEL = 0x024"
definition VIRTIO_MMIO_QUEUE_SEL :: usize where "VIRTIO_MMIO_QUEUE_SEL = 0x030"
definition VIRTIO_MMIO_QUEUE_NUM_MAX :: usize where "VIRTIO_MMIO_QUEUE_NUM_MAX = 0x034"
definition VIRTIO_MMIO_QUEUE_NUM :: usize where "VIRTIO_MMIO_QUEUE_NUM = 0x038"
definition VIRTIO_MMIO_QUEUE_READY :: usize where "VIRTIO_MMIO_QUEUE_READY = 0x044"
definition VIRTIO_MMIO_QUEUE_NOTIFY :: usize where "VIRTIO_MMIO_QUEUE_NOTIFY = 0x050"
definition VIRTIO_MMIO_IRQ_STATUS :: usize where "VIRTIO_MMIO_IRQ_STATUS = 0x060"
definition VIRTIO_MMIO_IRQ_ACK :: usize where "VIRTIO_MMIO_IRQ_ACK = 0x064"
definition VIRTIO_MMIO_STATUS :: usize where "VIRTIO_MMIO_STATUS = 0x070"
definition VIRTIO_MMIO_QUEUE_DESC_LOW :: usize where "VIRTIO_MMIO_QUEUE_DESC_LOW = 0x080"
definition VIRTIO_MMIO_QUEUE_DESC_HIGH :: usize where "VIRTIO_MMIO_QUEUE_DESC_HIGH = 0x084"
definition VIRTIO_MMIO_QUEUE_AVAIL_LOW :: usize where "VIRTIO_MMIO_QUEUE_AVAIL_LOW = 0x090"
definition VIRTIO_MMIO_QUEUE_AVAIL_HIGH :: usize where "VIRTIO_MMIO_QUEUE_AVAIL_HIGH = 0x094"
definition VIRTIO_MMIO_QUEUE_USED_LOW :: usize where "VIRTIO_MMIO_QUEUE_USED_LOW = 0x0A0"
definition VIRTIO_MMIO_QUEUE_USED_HIGH :: usize where "VIRTIO_MMIO_QUEUE_USED_HIGH = 0x0A4"
definition VIRTIO_MMIO_CONFIG :: usize where "VIRTIO_MMIO_CONFIG = 0x100"
definition STATUS_ACK :: u32 where "STATUS_ACK = 1"
definition STATUS_DRIVER :: u32 where "STATUS_DRIVER = 2"
definition STATUS_DRIVER_OK :: u32 where "STATUS_DRIVER_OK = 4"
definition STATUS_FEATURES_OK :: u32 where "STATUS_FEATURES_OK = 8"
definition STATUS_FAILED :: u32 where "STATUS_FAILED = 128"
definition VIRTIO_MAGIC :: u32 where "VIRTIO_MAGIC = 0x74726976"
definition VIRTIO_NET_F_MAC :: u32 where "VIRTIO_NET_F_MAC = push_bit 5 1"
definition VIRTIO_NET_F_STATUS :: u32 where "VIRTIO_NET_F_STATUS = push_bit 16 1"
definition VIRTIO_F_VERSION_1 :: u32 where "VIRTIO_F_VERSION_1 = push_bit 0 1"
definition VRING_DESC_F_NEXT :: u16 where "VRING_DESC_F_NEXT = 1"
definition VRING_DESC_F_WRITE :: u16 where "VRING_DESC_F_WRITE = 2"
definition RX_BUFFERS :: nat where "RX_BUFFERS = 32"
definition TX_BUFFERS :: nat where "TX_BUFFERS = 16"
definition PACKET_SIZE :: nat where "PACKET_SIZE = 1514"
definition VIRTIO_NET_HDR_SIZE :: nat where "VIRTIO_NET_HDR_SIZE = 12"
definition BUF_SIZE :: nat where "BUF_SIZE = PACKET_SIZE + VIRTIO_NET_HDR_SIZE"
definition QUEUE_SIZE :: nat where "QUEUE_SIZE = 64"
definition VIRTIO_DEV_NET :: u32 where "VIRTIO_DEV_NET = 1"

lemmas queue_sizes = RX_BUFFERS_def TX_BUFFERS_def PACKET_SIZE_def VIRTIO_NET_HDR_SIZE_def BUF_SIZE_def QUEUE_SIZE_def

datatype DriverError = NotFound | InitFailed | NotReady | BufferFull | BufferEmpty | InvalidState

section \<open>State\<close>

record VirtqDesc =
  d_addr :: u64
  d_len :: u32
  d_flags :: u16
  d_next :: u16

record VirtqAvail =
  a_flags :: u16
  a_idx :: u16
  a_ring :: "u16 list"

record VirtqUsedElem =
  e_id :: u32
  e_len :: u32

record VirtqUsed =
  u_flags :: u16
  u_idx :: u16
  u_ring :: "VirtqUsedElem list"

record VirtioNetHdr =
  h_flags :: u8
  gso_type :: u8
  hdr_len :: u16
  gso_size :: u16
  csum_start :: u16
  csum_offset :: u16
  num_buffers :: u16

record VirtioNet =
  vbase :: usize
  virq :: u32
  vmac :: "u8 list"
  initialized :: bool
  rx_desc :: "VirtqDesc list"
  rx_avail :: VirtqAvail
  rx_used :: VirtqUsed
  rx_last_used :: u16
  tx_desc :: "VirtqDesc list"
  tx_avail :: VirtqAvail
  tx_used :: VirtqUsed
  tx_last_used :: u16
  rx_buffers :: "u8 list list"
  tx_buffers :: "u8 list list"
  tx_free_mask :: u16
  mmio_out :: "(usize \<times> u32) list"

definition desc_zero :: VirtqDesc where "desc_zero = \<lparr>d_addr = 0, d_len = 0, d_flags = 0, d_next = 0\<rparr>"

definition avail_zero :: VirtqAvail where
  "avail_zero = \<lparr>a_flags = 0, a_idx = 0, a_ring = replicate QUEUE_SIZE 0\<rparr>"

definition elem_zero :: VirtqUsedElem where "elem_zero = \<lparr>e_id = 0, e_len = 0\<rparr>"

definition used_zero :: VirtqUsed where
  "used_zero = \<lparr>u_flags = 0, u_idx = 0, u_ring = replicate QUEUE_SIZE elem_zero\<rparr>"

definition hdr_zero :: VirtioNetHdr where
  "hdr_zero = \<lparr>h_flags = 0, gso_type = 0, hdr_len = 0, gso_size = 0, csum_start = 0, csum_offset = 0, num_buffers = 0\<rparr>"

definition new_uninit :: VirtioNet where
  "new_uninit = \<lparr>vbase = 0, virq = 0, vmac = replicate 6 0, initialized = False,
     rx_desc = replicate QUEUE_SIZE desc_zero, rx_avail = avail_zero, rx_used = used_zero, rx_last_used = 0,
     tx_desc = replicate QUEUE_SIZE desc_zero, tx_avail = avail_zero, tx_used = used_zero, tx_last_used = 0,
     rx_buffers = replicate RX_BUFFERS (replicate BUF_SIZE 0),
     tx_buffers = replicate TX_BUFFERS (replicate BUF_SIZE 0), tx_free_mask = 0xFFFF, mmio_out = []\<rparr>"

definition load_idx :: "VirtqUsed \<Rightarrow> u16" where "load_idx q = u_idx q"

text \<open>The header as the device sees it: the fields of the C layout in little-endian order.\<close>

definition le16 :: "u16 \<Rightarrow> u8 list" where "le16 w = [ucast w, ucast (drop_bit 8 w)]"

definition hdr_bytes :: "VirtioNetHdr \<Rightarrow> u8 list" where
  "hdr_bytes h = [h_flags h, gso_type h] @ le16 (hdr_len h) @ le16 (gso_size h) @ le16 (csum_start h) @
     le16 (csum_offset h) @ le16 (num_buffers h)"

text \<open>The physical addresses of the driver's static structures.\<close>

record dma_layout =
  desc_pa :: "u32 \<Rightarrow> usize"
  avail_pa :: "u32 \<Rightarrow> usize"
  used_pa :: "u32 \<Rightarrow> usize"
  rx_buf_pa :: "nat \<Rightarrow> u64"
  tx_buf_pa :: "nat \<Rightarrow> u64"

text \<open>The device's answer to a 32-bit and to an 8-bit register read, after the given register writes.\<close>

record mmio_device =
  reg32 :: "(usize \<times> u32) list \<Rightarrow> usize \<Rightarrow> u32"
  reg8 :: "(usize \<times> u32) list \<Rightarrow> usize \<Rightarrow> u8"

section \<open>Registers and queues\<close>

definition read32 :: "mmio_device \<Rightarrow> VirtioNet \<Rightarrow> usize \<Rightarrow> u32" where
  "read32 hw v offset = reg32 hw (mmio_out v) (vbase v + offset)"

definition write32 :: "usize \<Rightarrow> u32 \<Rightarrow> VirtioNet \<Rightarrow> VirtioNet" where
  "write32 offset val v = v\<lparr>mmio_out := mmio_out v @ [(vbase v + offset, val)]\<rparr>"

definition setup_queue :: "mmio_device \<Rightarrow> dma_layout \<Rightarrow> u32 \<Rightarrow> VirtioNet \<Rightarrow> VirtioNet" where
  "setup_queue hw dma queue_idx v =
     (let v = write32 VIRTIO_MMIO_QUEUE_SEL queue_idx v;
          max = read32 hw v VIRTIO_MMIO_QUEUE_NUM_MAX
      in if max = 0 then v
         else let v = write32 VIRTIO_MMIO_QUEUE_NUM (of_nat QUEUE_SIZE) v;
                  q = (if queue_idx = 0 then 0 else 1);
                  v = write32 VIRTIO_MMIO_QUEUE_DESC_LOW (ucast (desc_pa dma q)) v;
                  v = write32 VIRTIO_MMIO_QUEUE_DESC_HIGH (ucast (drop_bit 32 (desc_pa dma q))) v;
                  v = write32 VIRTIO_MMIO_QUEUE_AVAIL_LOW (ucast (avail_pa dma q)) v;
                  v = write32 VIRTIO_MMIO_QUEUE_AVAIL_HIGH (ucast (drop_bit 32 (avail_pa dma q))) v;
                  v = write32 VIRTIO_MMIO_QUEUE_USED_LOW (ucast (used_pa dma q)) v;
                  v = write32 VIRTIO_MMIO_QUEUE_USED_HIGH (ucast (drop_bit 32 (used_pa dma q))) v
              in write32 VIRTIO_MMIO_QUEUE_READY 1 v)"

text \<open>
  The step that hands a descriptor to the device: the head goes into the ring slot, then the index moves.
\<close>

definition ring_add :: "u16 \<Rightarrow> VirtqAvail \<Rightarrow> VirtqAvail option" where
  "ring_add head q =
     do { ring \<leftarrow> upd (a_ring q) (unat (a_idx q) mod QUEUE_SIZE) head;
          Some (q\<lparr>a_ring := ring, a_idx := a_idx q + 1\<rparr>) }"

definition provide_rx :: "dma_layout \<Rightarrow> nat \<Rightarrow> VirtioNet \<Rightarrow> VirtioNet option" where
  "provide_rx dma i v =
     do { _ \<leftarrow> idx (rx_buffers v) i;
          ds \<leftarrow> upd (rx_desc v) i
            \<lparr>d_addr = rx_buf_pa dma i, d_len = of_nat BUF_SIZE, d_flags = VRING_DESC_F_WRITE, d_next = 0\<rparr>;
          av \<leftarrow> ring_add (of_nat i) (rx_avail v);
          Some (v\<lparr>rx_desc := ds, rx_avail := av\<rparr>) }"

fun provide_all :: "dma_layout \<Rightarrow> nat list \<Rightarrow> VirtioNet \<Rightarrow> VirtioNet option" where
  "provide_all dma [] v = Some v"
| "provide_all dma (i # is) v = do { v \<leftarrow> provide_rx dma i v; provide_all dma is v }"

definition populate_rx_queue :: "dma_layout \<Rightarrow> VirtioNet \<Rightarrow> VirtioNet option" where
  "populate_rx_queue dma v =
     do { v \<leftarrow> provide_all dma [0..<RX_BUFFERS] v;
          Some (write32 VIRTIO_MMIO_QUEUE_NOTIFY 0 (write32 VIRTIO_MMIO_QUEUE_SEL 0 v)) }"

function reclaim_tx :: "VirtioNet \<Rightarrow> VirtioNet option" where
  "reclaim_tx v =
     (let used_idx = load_idx (tx_used v)
      in if tx_last_used v = used_idx then Some v
         else do { elem \<leftarrow> idx (u_ring (tx_used v)) (unat (tx_last_used v) mod QUEUE_SIZE);
                   let desc_idx = unat (e_id elem);
                   let v = (if desc_idx < TX_BUFFERS
                            then v\<lparr>tx_free_mask := tx_free_mask v OR push_bit desc_idx 1\<rparr> else v);
                   reclaim_tx (v\<lparr>tx_last_used := tx_last_used v + 1\<rparr>) })"
  by pat_completeness auto
termination
proof (relation "measure (\<lambda>v. unat (u_idx (tx_used v) - tx_last_used v))", goal_cases)
  case (2 v used_idx elem desc_idx v')
  then have "u_idx (tx_used v) - tx_last_used v \<noteq> 0" by (simp add: load_idx_def)
  then have "unat (u_idx (tx_used v) - tx_last_used v - 1) < unat (u_idx (tx_used v) - tx_last_used v)"
    by (simp add: unat_minus_one unat_gt_0)
  then show ?case using 2 by (simp add: algebra_simps split: if_splits)
qed simp

declare reclaim_tx.simps [simp del]

definition process_rx_used :: "VirtioNet \<Rightarrow> bool" where
  "process_rx_used v \<longleftrightarrow> load_idx (rx_used v) \<noteq> rx_last_used v"

section \<open>Discovery and initialisation\<close>

definition probe :: "mmio_device \<Rightarrow> (usize \<times> u32) list \<Rightarrow> usize \<Rightarrow> bool" where
  "probe hw out base =
     (if reg32 hw out base \<noteq> VIRTIO_MAGIC then False
      else if reg32 hw out (base + VIRTIO_MMIO_VERSION) \<noteq> 2 then False
      else reg32 hw out (base + VIRTIO_MMIO_DEVICE_ID) = VIRTIO_DEV_NET)"

definition virtio_init :: "mmio_device \<Rightarrow> dma_layout \<Rightarrow> VirtioNet \<Rightarrow> ((DriverError + unit) \<times> VirtioNet) option" where
  "virtio_init hw dma v =
     (if vbase v = 0 then Some (Inl NotFound, v)
      else
        let v = write32 VIRTIO_MMIO_STATUS 0 v;
            v = write32 VIRTIO_MMIO_STATUS STATUS_ACK v;
            v = write32 VIRTIO_MMIO_STATUS (STATUS_ACK OR STATUS_DRIVER) v;
            v = write32 VIRTIO_MMIO_DEV_FEATURES_SEL 0 v;
            features_lo = read32 hw v VIRTIO_MMIO_DEV_FEATURES;
            v = write32 VIRTIO_MMIO_DEV_FEATURES_SEL 1 v;
            features_hi = read32 hw v VIRTIO_MMIO_DEV_FEATURES;
            our_features_lo = features_lo AND (VIRTIO_NET_F_MAC OR VIRTIO_NET_F_STATUS);
            our_features_hi = features_hi AND VIRTIO_F_VERSION_1;
            v = write32 VIRTIO_MMIO_DRV_FEATURES_SEL 0 v;
            v = write32 VIRTIO_MMIO_DRV_FEATURES our_features_lo v;
            v = write32 VIRTIO_MMIO_DRV_FEATURES_SEL 1 v;
            v = write32 VIRTIO_MMIO_DRV_FEATURES our_features_hi v;
            v = write32 VIRTIO_MMIO_STATUS (STATUS_ACK OR STATUS_DRIVER OR STATUS_FEATURES_OK) v;
            status = read32 hw v VIRTIO_MMIO_STATUS
        in if status AND STATUS_FEATURES_OK = 0
           then Some (Inl InitFailed, write32 VIRTIO_MMIO_STATUS STATUS_FAILED v)
           else
             let v = v\<lparr>vmac := if features_lo AND VIRTIO_NET_F_MAC \<noteq> 0
                      then map (\<lambda>i. reg8 hw (mmio_out v) (vbase v + VIRTIO_MMIO_CONFIG + of_nat i)) [0..<6]
                      else [0x52, 0x54, 0x00, 0x12, 0x34, 0x56]\<rparr>;
                 v = setup_queue hw dma 1 (setup_queue hw dma 0 v)
             in do { v \<leftarrow> populate_rx_queue dma v;
                     let v = write32 VIRTIO_MMIO_STATUS
                       (STATUS_ACK OR STATUS_DRIVER OR STATUS_FEATURES_OK OR STATUS_DRIVER_OK) v;
                     Some (Inr (), v\<lparr>initialized := True\<rparr>) })"

definition virtio_handle_interrupt :: "mmio_device \<Rightarrow> VirtioNet \<Rightarrow> VirtioNet option" where
  "virtio_handle_interrupt hw v =
     (let irq_status = read32 hw v VIRTIO_MMIO_IRQ_STATUS
      in reclaim_tx (write32 VIRTIO_MMIO_IRQ_ACK irq_status v))"

section \<open>Packets\<close>

definition mtu :: "VirtioNet \<Rightarrow> nat" where "mtu v = PACKET_SIZE"

definition mac_address :: "VirtioNet \<Rightarrow> u8 list" where "mac_address v = vmac v"

text \<open>\<open>dst[at..at + src.len()].copy_from_slice(src)\<close>.\<close>

definition blit :: "nat \<Rightarrow> u8 list \<Rightarrow> u8 list \<Rightarrow> u8 list option" where
  "blit at src dst =
     (if at + length src \<le> length dst then Some (take at dst @ src @ drop (at + length src) dst) else None)"

definition transmit :: "dma_layout \<Rightarrow> u8 list \<Rightarrow> VirtioNet \<Rightarrow> ((DriverError + unit) \<times> VirtioNet) option" where
  "transmit dma bytes v =
     (if \<not> initialized v then Some (Inl NotReady, v)
      else if PACKET_SIZE < length bytes then Some (Inl BufferFull, v)
      else do {
        v \<leftarrow> reclaim_tx v;
        if tx_free_mask v = 0 then Some (Inl BufferFull, v)
        else do {
          let buf_idx = trailing_zeros (tx_free_mask v);
          let v = v\<lparr>tx_free_mask := tx_free_mask v AND NOT (push_bit buf_idx 1)\<rparr>;
          buf \<leftarrow> idx (tx_buffers v) buf_idx;
          buf \<leftarrow> blit 0 (take VIRTIO_NET_HDR_SIZE (hdr_bytes hdr_zero)) buf;
          buf \<leftarrow> blit VIRTIO_NET_HDR_SIZE bytes buf;
          bufs \<leftarrow> upd (tx_buffers v) buf_idx buf;
          let total_len = VIRTIO_NET_HDR_SIZE + length bytes;
          ds \<leftarrow> upd (tx_desc v) buf_idx
            \<lparr>d_addr = tx_buf_pa dma buf_idx, d_len = of_nat total_len, d_flags = 0, d_next = 0\<rparr>;
          av \<leftarrow> ring_add (of_nat buf_idx) (tx_avail v);
          Some (Inr (), write32 VIRTIO_MMIO_QUEUE_NOTIFY 1
            (v\<lparr>tx_buffers := bufs, tx_desc := ds, tx_avail := av\<rparr>)) } })"

text \<open>The result carries the caller's buffer, of which the packet overwrites a prefix.\<close>

definition vn_receive :: "dma_layout \<Rightarrow> u8 list \<Rightarrow> VirtioNet \<Rightarrow> ((DriverError + nat) \<times> u8 list \<times> VirtioNet) option" where
  "vn_receive dma buf v =
     (if \<not> initialized v then Some (Inl NotReady, buf, v)
      else let used_idx = load_idx (rx_used v) in
        if rx_last_used v = used_idx then Some (Inl BufferEmpty, buf, v)
        else do {
          elem \<leftarrow> idx (u_ring (rx_used v)) (unat (rx_last_used v) mod QUEUE_SIZE);
          let desc_idx = unat (e_id elem);
          let total_len = unat (e_len elem);
          if RX_BUFFERS \<le> desc_idx \<or> total_len \<le> VIRTIO_NET_HDR_SIZE
          then Some (Inl InvalidState, buf, v\<lparr>rx_last_used := rx_last_used v + 1\<rparr>)
          else do {
            let data_len = total_len - VIRTIO_NET_HDR_SIZE;
            let copy_len = min data_len (length buf);
            rxb \<leftarrow> idx (rx_buffers v) desc_idx;
            assert_that (VIRTIO_NET_HDR_SIZE + copy_len \<le> length rxb);
            buf \<leftarrow> blit 0 (take copy_len (drop VIRTIO_NET_HDR_SIZE rxb)) buf;
            v \<leftarrow> provide_rx dma desc_idx (v\<lparr>rx_last_used := rx_last_used v + 1\<rparr>);
            Some (Inr copy_len, buf, write32 VIRTIO_MMIO_QUEUE_NOTIFY 0 v) } })"

definition can_transmit :: "VirtioNet \<Rightarrow> bool" where
  "can_transmit v \<longleftrightarrow> initialized v \<and> tx_free_mask v \<noteq> 0"

definition can_receive :: "VirtioNet \<Rightarrow> bool" where
  "can_receive v = (if \<not> initialized v then False else load_idx (rx_used v) \<noteq> rx_last_used v)"

section \<open>Globals\<close>

record virtio_state =
  VIRTIO_NET :: VirtioNet
  VIRTIO_NET_READY :: bool
  VIRTIO_NET_IRQ :: u32

text \<open>One slot of the scan: the first virtio-net device found is kept.\<close>

definition probe_slot :: "mmio_device \<Rightarrow> nat \<Rightarrow> (nat \<times> u32) option \<times> virtio_state \<Rightarrow> (nat \<times> u32) option \<times> virtio_state" where
  "probe_slot hw slot = (\<lambda>(found, g).
     let base = VIRTIO_MMIO_BASE + of_nat slot * VIRTIO_MMIO_STRIDE
     in if found = None \<and> probe hw (mmio_out (VIRTIO_NET g)) base
        then let irq = VIRTIO_IRQ_BASE + of_nat slot
             in (Some (slot, irq), g\<lparr>VIRTIO_NET := (VIRTIO_NET g)\<lparr>vbase := base, virq := irq\<rparr>, VIRTIO_NET_IRQ := irq\<rparr>)
        else (found, g))"

definition probe_all :: "mmio_device \<Rightarrow> virtio_state \<Rightarrow> (nat \<times> u32) option \<times> virtio_state" where
  "probe_all hw g = fold (probe_slot hw) [0..<unat VIRTIO_MMIO_SLOTS] (None, g)"

definition init_device :: "mmio_device \<Rightarrow> dma_layout \<Rightarrow> virtio_state \<Rightarrow> ((DriverError + unit) \<times> virtio_state) option" where
  "init_device hw dma g =
     map_option (\<lambda>(r, v). (r, case r of Inl e \<Rightarrow> g\<lparr>VIRTIO_NET := v\<rparr>
                               | Inr _ \<Rightarrow> g\<lparr>VIRTIO_NET := v, VIRTIO_NET_READY := True\<rparr>))
       (virtio_init hw dma (VIRTIO_NET g))"

end
