(* ===== verification/Virtio_Tx.thy ===== *)
theory Virtio_Tx
  imports Virtio
begin

unbundle bit_operations_syntax

text \<open>
  Correctness of the virtio-net driver: the rings are bounded FIFOs, no content of the used rings makes
  the driver panic, and with a device that follows the protocol every accepted frame leaves exactly
  once and unmodified.
\<close>

section \<open>Rings as queues\<close>

text \<open>
  A bounded queue with one producer and one consumer, as the two sides of a virtqueue see it.
\<close>

locale fifo =
  fixes contents :: "'q \<Rightarrow> 'a list" and enq :: "'a \<Rightarrow> 'q \<Rightarrow> 'q" and deq :: "'q \<Rightarrow> 'q" and front :: "'q \<Rightarrow> 'a"
    and cap :: nat and ok :: "'q \<Rightarrow> bool"
  assumes contents_enq: "ok q \<Longrightarrow> length (contents q) < cap \<Longrightarrow> contents (enq x q) = contents q @ [x]"
    and ok_enq: "ok q \<Longrightarrow> ok (enq x q)"
    and contents_deq: "ok q \<Longrightarrow> contents q \<noteq> [] \<Longrightarrow> contents q = front q # contents (deq q)"
    and ok_deq: "ok q \<Longrightarrow> ok (deq q)"
begin

lemma ok_drain: "ok q \<Longrightarrow> ok ((deq ^^ n) q)"
  by (induction n) (auto intro: ok_deq)

lemma contents_drain: "ok q \<Longrightarrow> n \<le> length (contents q) \<Longrightarrow> contents ((deq ^^ n) q) = drop n (contents q)"
proof (induction n)
  case (Suc n)
  let ?q = "(deq ^^ n) q"
  have "contents ?q = drop n (contents q)" "contents ?q \<noteq> []" using Suc by auto
  then have "contents (deq ?q) = tl (drop n (contents q))"
    using contents_deq [OF ok_drain [OF Suc.prems(1)], of n] by (metis list.sel(3))
  then show ?case by (simp add: drop_Suc tl_drop)
qed simp

lemma enq_distinct:
  "ok q \<Longrightarrow> length (contents q) < cap \<Longrightarrow> distinct (contents q) \<Longrightarrow> x \<notin> set (contents q) \<Longrightarrow> distinct (contents (enq x q))"
  by (simp add: contents_enq)

end

text \<open>
  The entries of a ring between the consumer's index and the producer's; both are free-running 16-bit
  counters.
\<close>

definition window :: "'a list \<Rightarrow> u16 \<Rightarrow> u16 \<Rightarrow> 'a list" where
  "window ring lo hi = map (\<lambda>k. ring ! ((unat lo + k) mod QUEUE_SIZE)) [0..<unat (hi - lo)]"

lemma mod_queue: "unat (lo + of_nat k :: u16) mod QUEUE_SIZE = (unat lo + k) mod QUEUE_SIZE"
proof -
  have "unat (lo + of_nat k) = (unat lo + k) mod 2 ^ 16"
    by (simp add: unat_word_ariths unat_of_nat mod_simps)
  then show ?thesis by (simp add: QUEUE_SIZE_def mod_mod_cancel)
qed

lemma window_same [simp]: "window ring x x = []"
  by (simp add: window_def)

lemma length_window [simp]: "length (window ring lo hi) = unat (hi - lo)"
  by (simp add: window_def)

lemma window_snoc:
  assumes "length ring = QUEUE_SIZE" "unat (hi - lo) < QUEUE_SIZE"
  shows "window (ring[unat hi mod QUEUE_SIZE := x]) lo (hi + 1) = window ring lo hi @ [x]"
proof -
  let ?n = "unat (hi - lo)"
  have hi: "unat hi mod QUEUE_SIZE = (unat lo + ?n) mod QUEUE_SIZE"
    using mod_queue [of lo ?n] by simp
  have "unat (hi - lo + 1) = (?n + 1) mod 2 ^ 16" by (simp add: unat_word_ariths)
  then have n: "unat (hi + 1 - lo) = Suc ?n" using assms(2) by (simp add: QUEUE_SIZE_def add_diff_eq [symmetric] add.commute)
  have ne: "unat hi mod QUEUE_SIZE \<noteq> (unat lo + k) mod QUEUE_SIZE" if "k < ?n" for k
  proof
    assume "unat hi mod QUEUE_SIZE = (unat lo + k) mod QUEUE_SIZE"
    then have "QUEUE_SIZE dvd ?n - k"
      using that hi by (metis add_diff_cancel_left add_le_cancel_left less_imp_le mod_eq_dvd_iff_nat)
    then show False using that assms(2) by (auto dest!: dvd_imp_le)
  qed
  have "0 < QUEUE_SIZE" by (simp add: QUEUE_SIZE_def)
  then show ?thesis
    using assms(1) unfolding window_def n by (simp add: nth_list_update_neq [OF ne] hi [symmetric])
qed

lemma window_Cons:
  assumes "lo \<noteq> hi"
  shows "window ring lo hi = ring ! (unat lo mod QUEUE_SIZE) # window ring (lo + 1) hi"
proof -
  have "hi - lo \<noteq> 0" using assms by simp
  then have n: "unat (hi - lo) = Suc (unat (hi - (lo + 1)))"
    by (simp add: unat_minus_one unat_gt_0 diff_diff_eq [symmetric])
  have m: "(unat (lo + 1) + k) mod QUEUE_SIZE = (unat lo + Suc k) mod QUEUE_SIZE" for k
  proof -
    have "(unat (lo + 1) + k) mod QUEUE_SIZE = (unat (lo + 1) mod QUEUE_SIZE + k) mod QUEUE_SIZE"
      by (simp only: mod_add_left_eq)
    also have "\<dots> = ((unat lo + 1) mod QUEUE_SIZE + k) mod QUEUE_SIZE"
      using mod_queue [of lo 1] by simp
    finally show ?thesis by (simp only: mod_add_left_eq) simp
  qed
  show ?thesis
    unfolding window_def n upt_conv_Cons [OF zero_less_Suc] map_Suc_upt [symmetric]
    by (simp add: m del: upt_Suc)
qed

type_synonym 'a ring = "'a list \<times> u16 \<times> u16"

interpretation virtq: fifo
  "\<lambda>(ring, lo, hi). window ring lo hi" "\<lambda>x (ring, lo, hi). (ring[unat hi mod QUEUE_SIZE := x], lo, hi + 1)"
  "\<lambda>(ring, lo, hi). (ring, lo + 1, hi)" "\<lambda>(ring, lo, hi). ring ! (unat lo mod QUEUE_SIZE)" QUEUE_SIZE
  "\<lambda>(ring, lo, hi). length ring = QUEUE_SIZE"
  by unfold_locales (auto simp: window_snoc intro!: window_Cons)

section \<open>No content of the rings makes the driver panic\<close>

definition vnet_wf :: "VirtioNet \<Rightarrow> bool" where
  "vnet_wf v \<longleftrightarrow>
     length (rx_desc v) = QUEUE_SIZE \<and> length (tx_desc v) = QUEUE_SIZE \<and>
     length (a_ring (rx_avail v)) = QUEUE_SIZE \<and> length (a_ring (tx_avail v)) = QUEUE_SIZE \<and>
     length (u_ring (rx_used v)) = QUEUE_SIZE \<and> length (u_ring (tx_used v)) = QUEUE_SIZE \<and>
     length (rx_buffers v) = RX_BUFFERS \<and> (\<forall>b\<in>set (rx_buffers v). length b = BUF_SIZE) \<and>
     length (tx_buffers v) = TX_BUFFERS \<and> (\<forall>b\<in>set (tx_buffers v). length b = BUF_SIZE)"

definition release :: "VirtqUsedElem \<Rightarrow> u16 \<Rightarrow> u16" where
  "release e m = (if unat (e_id e) < TX_BUFFERS then m OR push_bit (unat (e_id e)) 1 else m)"

definition tx_done :: "VirtioNet \<Rightarrow> VirtqUsedElem list" where
  "tx_done v = window (u_ring (tx_used v)) (tx_last_used v) (u_idx (tx_used v))"

text \<open>Reclaiming frees the buffer of every completed entry and consumes them all.\<close>

lemma reclaim_tx_eq:
  "length (u_ring (tx_used v)) = QUEUE_SIZE \<Longrightarrow>
   reclaim_tx v = Some (v\<lparr>tx_free_mask := fold release (tx_done v) (tx_free_mask v), tx_last_used := u_idx (tx_used v)\<rparr>)"
proof (induction v rule: reclaim_tx.induct)
  case (1 v)
  show ?case
  proof (cases "tx_last_used v = u_idx (tx_used v)")
    case False
    let ?e = "u_ring (tx_used v) ! (unat (tx_last_used v) mod QUEUE_SIZE)"
    have i: "unat (tx_last_used v) mod QUEUE_SIZE < length (u_ring (tx_used v))"
      using 1(2) by (simp add: QUEUE_SIZE_def)
    let ?v = "(if unat (e_id ?e) < TX_BUFFERS then v\<lparr>tx_free_mask := tx_free_mask v OR push_bit (unat (e_id ?e)) 1\<rparr> else v)"
    let ?w = "?v\<lparr>tx_last_used := tx_last_used ?v + 1\<rparr>"
    have "reclaim_tx ?w = Some (?w\<lparr>tx_free_mask := fold release (tx_done ?w) (tx_free_mask ?w), tx_last_used := u_idx (tx_used ?w)\<rparr>)"
      by (rule 1(1) [OF refl _ idx_in [OF i] refl refl]) (use False 1(2) in \<open>simp_all add: load_idx_def\<close>)
    moreover have "reclaim_tx v = reclaim_tx ?w"
      by (subst reclaim_tx.simps) (use False i in \<open>simp add: load_idx_def Let_def\<close>)
    moreover have "tx_done v = ?e # tx_done ?w"
      using window_Cons [OF False, of "u_ring (tx_used v)"] by (simp add: tx_done_def)
    ultimately show ?thesis by (simp add: release_def [of ?e])
  qed (simp add: reclaim_tx.simps load_idx_def tx_done_def)
qed

lemma blit_eq: "at + length src \<le> length dst \<Longrightarrow> blit at src dst = Some (take at dst @ src @ drop (at + length src) dst)"
  by (simp add: blit_def)

lemma length_hdr [simp]: "length (hdr_bytes h) = VIRTIO_NET_HDR_SIZE"
  by (simp add: hdr_bytes_def le16_def VIRTIO_NET_HDR_SIZE_def)

lemma free_buffer:
  "m \<noteq> (0 :: u16) \<Longrightarrow> trailing_zeros m < TX_BUFFERS \<and> bit m (trailing_zeros m)"
  using trailing_zeros_first [of m] by (simp add: TX_BUFFERS_def)

text \<open>The state after reclaiming, and after queueing a frame in the free buffer \<open>i\<close>.\<close>

definition reclaimed :: "VirtioNet \<Rightarrow> VirtioNet" where
  "reclaimed v = v\<lparr>tx_free_mask := fold release (tx_done v) (tx_free_mask v), tx_last_used := u_idx (tx_used v)\<rparr>"

definition queued :: "dma_layout \<Rightarrow> nat \<Rightarrow> u8 list \<Rightarrow> VirtioNet \<Rightarrow> VirtioNet" where
  "queued dma i bytes v =
     v\<lparr>tx_free_mask := tx_free_mask v AND NOT (push_bit i 1),
       tx_buffers := (tx_buffers v)[i := hdr_bytes hdr_zero @ bytes @ drop (VIRTIO_NET_HDR_SIZE + length bytes) (tx_buffers v ! i)],
       tx_desc := (tx_desc v)[i := \<lparr>d_addr = tx_buf_pa dma i, d_len = of_nat (VIRTIO_NET_HDR_SIZE + length bytes),
                                    d_flags = 0, d_next = 0\<rparr>],
       tx_avail := (tx_avail v)\<lparr>a_ring := (a_ring (tx_avail v))[unat (a_idx (tx_avail v)) mod QUEUE_SIZE := of_nat i],
                                 a_idx := a_idx (tx_avail v) + 1\<rparr>,
       mmio_out := mmio_out v @ [(vbase v + VIRTIO_MMIO_QUEUE_NOTIFY, 1)]\<rparr>"

lemma vnet_wf_reclaimed [simp]: "vnet_wf (reclaimed v) = vnet_wf v"
  by (simp add: vnet_wf_def reclaimed_def)

lemma ring_slot: "unat (x :: u16) mod QUEUE_SIZE < QUEUE_SIZE"
  by (simp add: QUEUE_SIZE_def)

lemma tx_buffer_length: "vnet_wf v \<Longrightarrow> i < TX_BUFFERS \<Longrightarrow> length (tx_buffers v ! i) = BUF_SIZE"
  by (simp add: vnet_wf_def)

lemma fill_frame:
  assumes "length buf = BUF_SIZE" "length bytes \<le> PACKET_SIZE"
  shows "blit 0 (take VIRTIO_NET_HDR_SIZE (hdr_bytes h)) buf = Some (hdr_bytes h @ drop VIRTIO_NET_HDR_SIZE buf)"
    "blit VIRTIO_NET_HDR_SIZE bytes (hdr_bytes h @ drop VIRTIO_NET_HDR_SIZE buf) =
       Some (hdr_bytes h @ bytes @ drop (VIRTIO_NET_HDR_SIZE + length bytes) buf)"
  using assms by (simp_all add: blit_def BUF_SIZE_def add.commute)

lemma transmit_eq:
  assumes "vnet_wf v" "initialized v" "length bytes \<le> PACKET_SIZE"
  shows "transmit dma bytes v =
    (if tx_free_mask (reclaimed v) = 0 then Some (Inl BufferFull, reclaimed v)
     else Some (Inr (), queued dma (trailing_zeros (tx_free_mask (reclaimed v))) bytes (reclaimed v)))"
proof -
  have r: "reclaim_tx v = Some (reclaimed v)"
    using reclaim_tx_eq [of v] assms(1) by (simp add: vnet_wf_def reclaimed_def)
  have wf: "vnet_wf (reclaimed v)" using assms(1) by simp
  define w where "w = reclaimed v"
  show ?thesis
  proof (cases "tx_free_mask w = 0")
    case False
    define i where "i = trailing_zeros (tx_free_mask w)"
    have i: "i < TX_BUFFERS" using free_buffer [OF False] by (simp add: i_def)
    have l: "i < length (tx_buffers w)" "i < length (tx_desc w)"
      "unat (a_idx (tx_avail w)) mod QUEUE_SIZE < length (a_ring (tx_avail w))"
      using wf i ring_slot by (auto simp: vnet_wf_def TX_BUFFERS_def QUEUE_SIZE_def w_def)
    have b: "length (tx_buffers w ! i) = BUF_SIZE" using tx_buffer_length [OF wf i] by (simp add: w_def)
    show ?thesis
      using False assms(2,3) r [folded w_def] fill_frame [OF b assms(3)] unfolding w_def [symmetric] i_def [symmetric]
      by (simp add: transmit_def i_def [symmetric] l ring_add_def queued_def write32_def)
  qed (use r assms in \<open>simp add: transmit_def w_def\<close>)
qed

lemma vnet_wf_upd [simp]:
  "vnet_wf (v\<lparr>tx_free_mask := m\<rparr>) = vnet_wf v" "vnet_wf (v\<lparr>mmio_out := x\<rparr>) = vnet_wf v"
  "vnet_wf (v\<lparr>vmac := a\<rparr>) = vnet_wf v" "vnet_wf (v\<lparr>rx_last_used := y\<rparr>) = vnet_wf v"
  "vnet_wf (v\<lparr>initialized := z\<rparr>) = vnet_wf v" "vnet_wf (v\<lparr>tx_last_used := y\<rparr>) = vnet_wf v"
  "length ds = length (tx_desc v) \<Longrightarrow> vnet_wf (v\<lparr>tx_desc := ds\<rparr>) = vnet_wf v"
  "length (a_ring q) = length (a_ring (tx_avail v)) \<Longrightarrow> vnet_wf (v\<lparr>tx_avail := q\<rparr>) = vnet_wf v"
  by (simp_all add: vnet_wf_def)

lemma vnet_wf_tx_buffer:
  "vnet_wf v \<Longrightarrow> length b = BUF_SIZE \<Longrightarrow> vnet_wf (v\<lparr>tx_buffers := (tx_buffers v)[i := b]\<rparr>)"
  using set_update_subset_insert [of "tx_buffers v" i b] by (auto simp: vnet_wf_def)

lemma vnet_wf_queued:
  assumes "vnet_wf v" "i < TX_BUFFERS" "length bytes \<le> PACKET_SIZE"
  shows "vnet_wf (queued dma i bytes v)"
proof -
  define b where "b = hdr_bytes hdr_zero @ bytes @ drop (VIRTIO_NET_HDR_SIZE + length bytes) (tx_buffers v ! i)"
  have "length b = BUF_SIZE" using tx_buffer_length [OF assms(1,2)] assms(3) by (simp add: BUF_SIZE_def b_def)
  then have "vnet_wf (w\<lparr>tx_buffers := (tx_buffers w)[i := b]\<rparr>)" if "vnet_wf w" for w
    by (rule vnet_wf_tx_buffer [OF that])
  from this [of "v\<lparr>tx_free_mask := m\<rparr>" for m] show ?thesis
    unfolding queued_def b_def [symmetric] using assms(1) by simp
qed

lemma vnet_wf_write32 [simp]: "vnet_wf (write32 off val v) = vnet_wf v"
  by (simp add: vnet_wf_def write32_def)

lemma transmit_total:
  assumes "vnet_wf v"
  shows "\<exists>r v'. transmit dma bytes v = Some (r, v') \<and> vnet_wf v'"
proof (cases "initialized v \<and> length bytes \<le> PACKET_SIZE")
  case True
  show ?thesis
  proof (cases "tx_free_mask (reclaimed v) = 0")
    case False
    then show ?thesis
      using transmit_eq [OF assms] True vnet_wf_queued [of "reclaimed v"] free_buffer [OF False] assms by simp
  qed (use transmit_eq [OF assms] True assms in simp)
qed (use assms in \<open>auto simp: transmit_def\<close>)

lemma provide_rx_eq:
  assumes "vnet_wf v" "i < RX_BUFFERS"
  shows "provide_rx dma i v = Some (v\<lparr>
    rx_desc := (rx_desc v)[i := \<lparr>d_addr = rx_buf_pa dma i, d_len = of_nat BUF_SIZE, d_flags = VRING_DESC_F_WRITE, d_next = 0\<rparr>],
    rx_avail := (rx_avail v)\<lparr>a_ring := (a_ring (rx_avail v))[unat (a_idx (rx_avail v)) mod QUEUE_SIZE := of_nat i],
                              a_idx := a_idx (rx_avail v) + 1\<rparr>\<rparr>)"
proof -
  have "i < length (rx_buffers v)" "i < length (rx_desc v)"
    "unat (a_idx (rx_avail v)) mod QUEUE_SIZE < length (a_ring (rx_avail v))"
    using assms ring_slot by (auto simp: vnet_wf_def RX_BUFFERS_def QUEUE_SIZE_def)
  then show ?thesis by (simp add: provide_rx_def ring_add_def)
qed

lemma provide_rx_wf: "vnet_wf v \<Longrightarrow> i < RX_BUFFERS \<Longrightarrow> \<exists>v'. provide_rx dma i v = Some v' \<and> vnet_wf v' \<and> tx_free_mask v' = tx_free_mask v"
  by (auto simp: provide_rx_eq vnet_wf_def)

lemma receive_total:
  assumes "vnet_wf v" "length buf \<le> PACKET_SIZE"
  shows "\<exists>r buf' v'. vn_receive dma buf v = Some (r, buf', v') \<and> vnet_wf v' \<and> length buf' = length buf \<and>
    (case r of Inl _ \<Rightarrow> True | Inr n \<Rightarrow> n \<le> length buf)"
proof -
  define e where "e = u_ring (rx_used v) ! (unat (rx_last_used v) mod QUEUE_SIZE)"
  have e: "idx (u_ring (rx_used v)) (unat (rx_last_used v) mod QUEUE_SIZE) = Some e"
    using assms(1) ring_slot by (simp add: vnet_wf_def e_def)
  let ?v = "v\<lparr>rx_last_used := rx_last_used v + 1\<rparr>"
  have wf: "vnet_wf ?v" using assms(1) by simp
  show ?thesis
  proof (cases "initialized v \<and> rx_last_used v \<noteq> load_idx (rx_used v) \<and> unat (e_id e) < RX_BUFFERS \<and>
      VIRTIO_NET_HDR_SIZE < unat (e_len e)")
    case True
    define b n where "b = rx_buffers v ! unat (e_id e)" and "n = min (unat (e_len e) - VIRTIO_NET_HDR_SIZE) (length buf)"
    have b: "idx (rx_buffers v) (unat (e_id e)) = Some b" "length b = BUF_SIZE"
      using assms(1) True by (simp_all add: vnet_wf_def b_def)
    have n: "n \<le> length buf" "VIRTIO_NET_HDR_SIZE + n \<le> length b"
      using assms(2) b(2) by (auto simp: n_def BUF_SIZE_def)
    then have c: "blit 0 (take n (drop VIRTIO_NET_HDR_SIZE b)) buf = Some (take n (drop VIRTIO_NET_HDR_SIZE b) @ drop n buf)"
      by (simp add: blit_def)
    obtain v' where "provide_rx dma (unat (e_id e)) ?v = Some v'" "vnet_wf v'"
      using provide_rx_wf [OF wf, of "unat (e_id e)" dma] True by auto
    then show ?thesis
      using True e b(1) c n by (simp add: vn_receive_def Let_def n_def [symmetric])
  qed (use assms e wf in \<open>auto simp: vn_receive_def Let_def\<close>)
qed

lemma provide_all_wf:
  "vnet_wf v \<Longrightarrow> set is \<subseteq> {..<RX_BUFFERS} \<Longrightarrow> \<exists>v'. provide_all dma is v = Some v' \<and> vnet_wf v'"
proof (induction "is" arbitrary: v)
  case (Cons i "is")
  then obtain v' where "provide_rx dma i v = Some v'" "vnet_wf v'" using provide_rx_wf [of v i dma] by auto
  then show ?case using Cons by simp
qed simp

lemma setup_queue_wf [simp]: "vnet_wf (setup_queue hw dma q v) = vnet_wf v"
  by (simp add: setup_queue_def Let_def)

lemma init_total: "vnet_wf v \<Longrightarrow> \<exists>r v'. virtio_init hw dma v = Some (r, v') \<and> vnet_wf v'"
proof -
  assume v: "vnet_wf v"
  have p: "\<exists>v'. populate_rx_queue dma w = Some v' \<and> vnet_wf v'" if "vnet_wf w" for w
    using provide_all_wf [OF that, of "[0..<RX_BUFFERS]" dma] by (auto simp: populate_rx_queue_def atLeast0LessThan)
  have q: "\<exists>r v'. (do { v \<leftarrow> populate_rx_queue dma w; Some (Inr (), (f v)\<lparr>initialized := True\<rparr>) }) = Some (r :: DriverError + unit, v') \<and> vnet_wf v'"
    if "vnet_wf w" "\<And>x. vnet_wf (f x) = vnet_wf x" for w f
    using p [OF that(1)] that(2) by auto
  show ?thesis
    unfolding virtio_init_def Let_def
    by (simp add: v q)
qed

section \<open>The transmit queue with a device\<close>

text \<open>
  Driver and device together.  The device takes heads from the available ring in order, keeps them in
  \<open>owned\<close> and completes them in any order: it then sends the frame the descriptor describes and reports
  the head in the used ring.  \<open>sent\<close> and \<open>wire\<close> record the frames \<open>transmit\<close> accepted and those the device
  has sent.
\<close>

record tx_sys =
  drv :: VirtioNet
  seen :: u16
  owned :: "u16 list"
  wire :: "u8 list list"
  sent :: "u8 list list"

definition used_add :: "VirtqUsedElem \<Rightarrow> VirtqUsed \<Rightarrow> VirtqUsed" where
  "used_add e q = q\<lparr>u_ring := (u_ring q)[unat (u_idx q) mod QUEUE_SIZE := e], u_idx := u_idx q + 1\<rparr>"

text \<open>What the device reads from buffer \<open>i\<close>: the bytes of its descriptor after the header.\<close>

definition tx_frame :: "VirtioNet \<Rightarrow> nat \<Rightarrow> u8 list" where
  "tx_frame v i = drop VIRTIO_NET_HDR_SIZE (take (unat (d_len (tx_desc v ! i))) (tx_buffers v ! i))"

inductive tx_step :: "mmio_device \<Rightarrow> dma_layout \<Rightarrow> tx_sys \<Rightarrow> tx_sys \<Rightarrow> bool" for hw dma where
  send: "transmit dma bytes (drv s) = Some (r, v') \<Longrightarrow>
    tx_step hw dma s (s\<lparr>drv := v', sent := sent s @ (if r = Inr () then [bytes] else [])\<rparr>)"
| irq: "virtio_handle_interrupt hw (drv s) = Some v' \<Longrightarrow> tx_step hw dma s (s\<lparr>drv := v'\<rparr>)"
| fetch: "seen s \<noteq> a_idx (tx_avail (drv s)) \<Longrightarrow>
    tx_step hw dma s (s\<lparr>seen := seen s + 1,
      owned := a_ring (tx_avail (drv s)) ! (unat (seen s) mod QUEUE_SIZE) # owned s\<rparr>)"
| complete: "h \<in> set (owned s) \<Longrightarrow>
    tx_step hw dma s (s\<lparr>drv := (drv s)\<lparr>tx_used := used_add \<lparr>e_id = ucast h, e_len = n\<rparr> (tx_used (drv s))\<rparr>,
      owned := remove1 h (owned s), wire := wire s @ [tx_frame (drv s) (unat h)]\<rparr>)"

inductive tx_reach :: "mmio_device \<Rightarrow> dma_layout \<Rightarrow> tx_sys \<Rightarrow> tx_sys \<Rightarrow> bool" for hw dma s0 where
  start: "tx_reach hw dma s0 s0"
| step: "tx_reach hw dma s0 s \<Longrightarrow> tx_step hw dma s s' \<Longrightarrow> tx_reach hw dma s0 s'"

definition tx_boot :: "VirtioNet \<Rightarrow> tx_sys" where
  "tx_boot v = \<lparr>drv = v, seen = 0, owned = [], wire = [], sent = []\<rparr>"

text \<open>The buffers with a frame the device has not completed, and those completed but not reclaimed.\<close>

definition in_flight :: "tx_sys \<Rightarrow> nat list" where
  "in_flight s = map unat (window (a_ring (tx_avail (drv s))) (seen s) (a_idx (tx_avail (drv s))) @ owned s)"

definition completed :: "VirtioNet \<Rightarrow> nat list" where
  "completed v = map (unat \<circ> e_id) (tx_done v)"

definition busy :: "u16 \<Rightarrow> nat set" where
  "busy m = {i. i < TX_BUFFERS \<and> \<not> bit m i}"

definition tx_inv :: "tx_sys \<Rightarrow> bool" where
  "tx_inv s \<longleftrightarrow> vnet_wf (drv s) \<and> distinct (in_flight s @ completed (drv s)) \<and>
     set (in_flight s @ completed (drv s)) = busy (tx_free_mask (drv s)) \<and>
     mset (sent s) = mset (wire s) + mset (map (tx_frame (drv s)) (in_flight s))"

lemma busy_bound: "distinct xs \<Longrightarrow> set xs \<subseteq> busy m \<Longrightarrow> length xs \<le> TX_BUFFERS"
proof -
  assume "distinct xs" "set xs \<subseteq> busy m"
  then have "length xs = card (set xs)" "set xs \<subseteq> {..<TX_BUFFERS}" by (auto simp: distinct_card busy_def)
  then show ?thesis using card_mono [of "{..<TX_BUFFERS}" "set xs"] by simp
qed

lemma fold_release:
  "busy (fold release es m) = busy m - set (map (unat \<circ> e_id) es)"
  by (induction es arbitrary: m) (auto simp: busy_def release_def bit_simps TX_BUFFERS_def)

lemma tx_inv_reclaimed:
  assumes "tx_inv s"
  shows "tx_inv (s\<lparr>drv := reclaimed (drv s)\<rparr>)" "completed (reclaimed (drv s)) = []"
proof -
  let ?v = "reclaimed (drv s)"
  have f: "in_flight (s\<lparr>drv := ?v\<rparr>) = in_flight s" "tx_frame ?v = tx_frame (drv s)" "completed ?v = []"
    "busy (tx_free_mask ?v) = busy (tx_free_mask (drv s)) - set (completed (drv s))"
    by (auto simp: in_flight_def reclaimed_def tx_frame_def completed_def tx_done_def fold_release)
  then show "tx_inv (s\<lparr>drv := ?v\<rparr>)" "completed ?v = []"
    using assms by (auto simp: tx_inv_def)
qed

lemma tx_frame_queued:
  assumes "vnet_wf v" "i < TX_BUFFERS" "length bytes \<le> PACKET_SIZE"
  shows "tx_frame (queued dma i bytes v) j = (if j = i then bytes else tx_frame v j)"
proof -
  define b where "b = hdr_bytes hdr_zero @ bytes @ drop (VIRTIO_NET_HDR_SIZE + length bytes) (tx_buffers v ! i)"
  have l: "i < length (tx_desc v)" "i < length (tx_buffers v)"
    using assms(1,2) by (simp_all add: vnet_wf_def TX_BUFFERS_def QUEUE_SIZE_def)
  have "unat (of_nat (VIRTIO_NET_HDR_SIZE + length bytes) :: u32) = VIRTIO_NET_HDR_SIZE + length bytes"
    using assms(3) by (intro unat_of_nat_small) (simp add: PACKET_SIZE_def VIRTIO_NET_HDR_SIZE_def)
  then show ?thesis
    using l unfolding tx_frame_def queued_def b_def [symmetric]
    by (auto simp: b_def simp del: of_nat_add)
qed

lemma in_flight_queued:
  assumes "vnet_wf (drv s)" "length (in_flight s) \<le> TX_BUFFERS" "i < TX_BUFFERS"
  shows "set (in_flight (s\<lparr>drv := queued dma i bytes (drv s), sent := x\<rparr>)) = insert i (set (in_flight s))"
    "distinct (in_flight s) \<Longrightarrow> i \<notin> set (in_flight s) \<Longrightarrow> distinct (in_flight (s\<lparr>drv := queued dma i bytes (drv s), sent := x\<rparr>))"
    "mset (in_flight (s\<lparr>drv := queued dma i bytes (drv s), sent := x\<rparr>)) = add_mset i (mset (in_flight s))"
proof -
  let ?q = "tx_avail (drv s)"
  have "unat (of_nat i :: u16) = i" using assms(3) by (intro unat_of_nat_small) (simp add: TX_BUFFERS_def)
  moreover have "unat (a_idx ?q - seen s) < QUEUE_SIZE"
    using assms(2) by (simp add: in_flight_def TX_BUFFERS_def QUEUE_SIZE_def)
  then have "window ((a_ring ?q)[unat (a_idx ?q) mod QUEUE_SIZE := of_nat i]) (seen s) (a_idx ?q + 1) =
      window (a_ring ?q) (seen s) (a_idx ?q) @ [of_nat i]"
    using assms(1) by (intro window_snoc) (simp_all add: vnet_wf_def)
  ultimately show m: "mset (in_flight (s\<lparr>drv := queued dma i bytes (drv s), sent := x\<rparr>)) = add_mset i (mset (in_flight s))"
    by (simp add: in_flight_def queued_def)
  then show "set (in_flight (s\<lparr>drv := queued dma i bytes (drv s), sent := x\<rparr>)) = insert i (set (in_flight s))"
    using mset_eq_setD [of _ "i # in_flight s"] by simp
  show "distinct (in_flight (s\<lparr>drv := queued dma i bytes (drv s), sent := x\<rparr>))"
    if "distinct (in_flight s)" "i \<notin> set (in_flight s)"
    using that mset_eq_imp_distinct_iff [of _ "i # in_flight s"] m by simp
qed

lemma tx_inv_queued:
  assumes inv: "tx_inv s" and c: "completed (drv s) = []" and i: "i < TX_BUFFERS" "bit (tx_free_mask (drv s)) i"
    and b: "length bytes \<le> PACKET_SIZE"
  shows "tx_inv (s\<lparr>drv := queued dma i bytes (drv s), sent := sent s @ [bytes]\<rparr>)"
proof -
  let ?s = "s\<lparr>drv := queued dma i bytes (drv s), sent := sent s @ [bytes]\<rparr>"
  have wf: "vnet_wf (drv s)" and set: "set (in_flight s) = busy (tx_free_mask (drv s))" and d: "distinct (in_flight s)"
    and m: "mset (sent s) = mset (wire s) + mset (map (tx_frame (drv s)) (in_flight s))"
    using inv c by (auto simp: tx_inv_def)
  have new: "i \<notin> set (in_flight s)" using set i by (auto simp: busy_def)
  note q = in_flight_queued [OF wf busy_bound [OF d equalityD1 [OF set]] i(1)]
  have "image_mset (tx_frame (drv ?s)) (mset (in_flight s)) = image_mset (tx_frame (drv s)) (mset (in_flight s))"
    by (rule image_mset_cong) (use new in \<open>auto simp: tx_frame_queued [OF wf i(1) b]\<close>)
  then have "mset (sent ?s) = mset (wire ?s) + mset (map (tx_frame (drv ?s)) (in_flight ?s))"
    by (simp add: m q(3) tx_frame_queued [OF wf i(1) b])
  moreover have "busy (tx_free_mask (drv ?s)) = insert i (busy (tx_free_mask (drv s)))"
    using i by (auto simp: busy_def queued_def bit_simps TX_BUFFERS_def)
  moreover have "completed (drv ?s) = []" using c by (simp add: completed_def tx_done_def queued_def)
  ultimately show ?thesis
    using q(1,2) set d new vnet_wf_queued [OF wf i(1) b] by (simp add: tx_inv_def)
qed

lemma tx_inv_log: "tx_inv (s\<lparr>drv := write32 off val (drv s)\<rparr>) = tx_inv s"
proof -
  have "tx_frame (write32 off val (drv s)) = tx_frame (drv s)" by (auto simp: tx_frame_def write32_def)
  moreover have "in_flight (s\<lparr>drv := write32 off val (drv s)\<rparr>) = in_flight s"
    "completed (write32 off val (drv s)) = completed (drv s)"
    by (simp_all add: in_flight_def completed_def tx_done_def write32_def)
  ultimately show ?thesis by (simp add: tx_inv_def) (simp add: write32_def)
qed

lemma tx_inv_fetch:
  assumes "tx_inv s" "seen s \<noteq> a_idx (tx_avail (drv s))"
  shows "tx_inv (s\<lparr>seen := seen s + 1, owned := a_ring (tx_avail (drv s)) ! (unat (seen s) mod QUEUE_SIZE) # owned s\<rparr>)"
proof -
  let ?s = "s\<lparr>seen := seen s + 1, owned := a_ring (tx_avail (drv s)) ! (unat (seen s) mod QUEUE_SIZE) # owned s\<rparr>"
  have m: "mset (in_flight ?s) = mset (in_flight s)"
    using window_Cons [OF assms(2), of "a_ring (tx_avail (drv s))"] by (simp add: in_flight_def)
  then have "set (in_flight ?s) = set (in_flight s)" "distinct (in_flight ?s) = distinct (in_flight s)"
    by (rule mset_eq_setD, rule mset_eq_imp_distinct_iff)
  then show ?thesis using assms(1) m by (simp add: tx_inv_def)
qed

lemma tx_inv_complete:
  assumes inv: "tx_inv s" and h: "h \<in> set (owned s)"
  shows "tx_inv (s\<lparr>drv := (drv s)\<lparr>tx_used := used_add \<lparr>e_id = ucast h, e_len = n\<rparr> (tx_used (drv s))\<rparr>,
    owned := remove1 h (owned s), wire := wire s @ [tx_frame (drv s) (unat h)]\<rparr>)" (is "tx_inv ?s")
proof -
  let ?u = "tx_used (drv s)"
  have wf: "vnet_wf (drv s)" and d: "distinct (in_flight s @ completed (drv s))"
    and set: "set (in_flight s @ completed (drv s)) = busy (tx_free_mask (drv s))"
    and m: "mset (sent s) = mset (wire s) + mset (map (tx_frame (drv s)) (in_flight s))"
    using inv by (simp_all only: tx_inv_def)
  have "length (completed (drv s)) \<le> TX_BUFFERS"
    using busy_bound [OF d equalityD1 [OF set]] by simp
  then have "unat (u_idx ?u - tx_last_used (drv s)) < QUEUE_SIZE"
    by (simp add: completed_def tx_done_def TX_BUFFERS_def QUEUE_SIZE_def)
  moreover have "unat h < 2 ^ 16" using unsigned_less [of h] by simp
  then have "unat (ucast h :: u32) = unat h" by (simp add: unsigned_ucast_eq take_bit_nat_eq_self_iff)
  ultimately have c: "completed (drv ?s) = completed (drv s) @ [unat h]"
    using wf by (simp add: completed_def tx_done_def used_add_def window_snoc vnet_wf_def)
  have f: "mset (in_flight s) = add_mset (unat h) (mset (in_flight ?s))"
    using h by (simp add: in_flight_def image_mset_Diff insert_DiffM [symmetric])
  have fr: "tx_frame (drv ?s) = tx_frame (drv s)" by (auto simp: tx_frame_def)
  have all: "mset (in_flight ?s @ completed (drv ?s)) = mset (in_flight s @ completed (drv s))"
    using f c by simp
  then have "distinct (in_flight ?s @ completed (drv ?s))" "set (in_flight ?s @ completed (drv ?s)) = busy (tx_free_mask (drv s))"
    using d set mset_eq_setD [OF all] mset_eq_imp_distinct_iff [OF all] by simp_all
  moreover have "vnet_wf (drv ?s)" using wf by (simp add: vnet_wf_def used_add_def)
  moreover have "mset (sent ?s) = mset (wire ?s) + mset (map (tx_frame (drv ?s)) (in_flight ?s))"
    unfolding fr using m f by simp
  ultimately show ?thesis unfolding tx_inv_def by simp
qed

lemma tx_step_inv:
  assumes "tx_step hw dma s s'" "tx_inv s"
  shows "tx_inv s'"
  using assms
proof (induction rule: tx_step.induct)
  case (send bytes s r v')
  have wf: "vnet_wf (drv s)" using send.prems by (simp add: tx_inv_def)
  note inv = tx_inv_reclaimed [OF send.prems]
  show ?case
  proof (cases "initialized (drv s) \<and> length bytes \<le> PACKET_SIZE \<and> tx_free_mask (reclaimed (drv s)) \<noteq> 0")
    case True
    then show ?thesis
      using send.hyps transmit_eq [OF wf, of bytes dma] free_buffer [of "tx_free_mask (reclaimed (drv s))"]
        tx_inv_queued [OF inv(1), of "trailing_zeros (tx_free_mask (reclaimed (drv s)))" bytes dma] inv(2)
      by simp
  next
    case False
    then have "r \<noteq> Inr () \<and> (v' = drv s \<or> v' = reclaimed (drv s))"
      using send.hyps transmit_eq [OF wf, of bytes dma]
      by (cases "initialized (drv s)"; cases "length bytes \<le> PACKET_SIZE") (auto simp: transmit_def)
    then show ?thesis using inv(1) send.prems by auto
  qed
next
  case (irq s v')
  let ?w = "write32 VIRTIO_MMIO_IRQ_ACK (read32 hw (drv s) VIRTIO_MMIO_IRQ_STATUS) (drv s)"
  have w: "tx_inv (s\<lparr>drv := ?w\<rparr>)" using irq.prems by (simp add: tx_inv_log)
  then have "vnet_wf ?w" by (simp add: tx_inv_def)
  then have "v' = reclaimed ?w"
    using irq.hyps reclaim_tx_eq [of ?w] by (simp add: virtio_handle_interrupt_def vnet_wf_def reclaimed_def)
  then show ?case using tx_inv_reclaimed(1) [OF w] by simp
qed (auto intro: tx_inv_fetch tx_inv_complete)

section \<open>Initialisation\<close>

text \<open>The part of the driver's state that belongs to the transmit queue.\<close>

definition tx_part :: "VirtioNet \<Rightarrow> u16 \<times> VirtqAvail \<times> VirtqUsed \<times> u16" where
  "tx_part v = (tx_free_mask v, tx_avail v, tx_used v, tx_last_used v)"

lemma tx_part_upd [simp]:
  "tx_part (write32 off val v) = tx_part v" "tx_part (v\<lparr>vmac := a\<rparr>) = tx_part v"
  "tx_part (v\<lparr>initialized := b\<rparr>) = tx_part v" "tx_part (setup_queue hw dma q v) = tx_part v"
  by (simp_all add: tx_part_def write32_def setup_queue_def Let_def)

lemma tx_part_provide: "provide_all dma is v = Some v' \<Longrightarrow> tx_part v' = tx_part v"
  by (induction "is" arbitrary: v)
    (auto simp: provide_rx_def tx_part_def ring_add_def split: Option.bind_splits)

lemma tx_part_populate: "populate_rx_queue dma v = Some v' \<Longrightarrow> tx_part v' = tx_part v"
  by (auto simp: populate_rx_queue_def tx_part_provide split: Option.bind_splits)

definition negotiated :: "mmio_device \<Rightarrow> VirtioNet \<Rightarrow> VirtioNet" where
  "negotiated hw v =
     (let v = write32 VIRTIO_MMIO_STATUS (STATUS_ACK OR STATUS_DRIVER)
                (write32 VIRTIO_MMIO_STATUS STATUS_ACK (write32 VIRTIO_MMIO_STATUS 0 v));
          v = write32 VIRTIO_MMIO_DEV_FEATURES_SEL 0 v;
          lo = read32 hw v VIRTIO_MMIO_DEV_FEATURES;
          v = write32 VIRTIO_MMIO_DEV_FEATURES_SEL 1 v;
          hi = read32 hw v VIRTIO_MMIO_DEV_FEATURES;
          v = write32 VIRTIO_MMIO_DRV_FEATURES (lo AND (VIRTIO_NET_F_MAC OR VIRTIO_NET_F_STATUS))
                (write32 VIRTIO_MMIO_DRV_FEATURES_SEL 0 v);
          v = write32 VIRTIO_MMIO_DRV_FEATURES (hi AND VIRTIO_F_VERSION_1) (write32 VIRTIO_MMIO_DRV_FEATURES_SEL 1 v)
      in write32 VIRTIO_MMIO_STATUS (STATUS_ACK OR STATUS_DRIVER OR STATUS_FEATURES_OK) v)"

text \<open>The device accepts the features when it keeps \<open>FEATURES_OK\<close> set.\<close>

definition accepts :: "mmio_device \<Rightarrow> VirtioNet \<Rightarrow> bool" where
  "accepts hw v \<longleftrightarrow> read32 hw (negotiated hw v) VIRTIO_MMIO_STATUS AND STATUS_FEATURES_OK \<noteq> 0"

lemma virtio_init_cases:
  assumes "vbase v \<noteq> 0"
  shows "\<exists>mac. virtio_init hw dma v =
    (if \<not> accepts hw v then Some (Inl InitFailed, write32 VIRTIO_MMIO_STATUS STATUS_FAILED (negotiated hw v))
     else do { w \<leftarrow> populate_rx_queue dma (setup_queue hw dma 1 (setup_queue hw dma 0 ((negotiated hw v)\<lparr>vmac := mac\<rparr>)));
               Some (Inr (), (write32 VIRTIO_MMIO_STATUS
                 (STATUS_ACK OR STATUS_DRIVER OR STATUS_FEATURES_OK OR STATUS_DRIVER_OK) w)\<lparr>initialized := True\<rparr>) })"
  using assms unfolding virtio_init_def accepts_def negotiated_def Let_def
  by (simp only: if_False if_not_P not_not) blast

lemma tx_part_init:
  assumes "vbase v \<noteq> 0" "virtio_init hw dma v = Some (Inr (), v')"
  shows "tx_part v' = tx_part v \<and> initialized v'"
proof -
  have "tx_part (negotiated hw v) = tx_part v" by (simp add: negotiated_def Let_def)
  then show ?thesis
    using virtio_init_cases [OF assms(1), of hw dma] assms(2)
    by (auto split: if_splits Option.bind_splits dest!: tx_part_populate)
qed

lemma vnet_wf_new: "vnet_wf new_uninit"
  by (simp add: vnet_wf_def new_uninit_def avail_zero_def used_zero_def)

definition probed :: "usize \<Rightarrow> u32 \<Rightarrow> VirtioNet" where
  "probed b i = new_uninit\<lparr>vbase := b, virq := i\<rparr>"

lemma probed_facts: "vnet_wf (probed b i)" "vbase (probed b i) = b"
  "tx_part (probed b i) = (0xFFFF, avail_zero, used_zero, 0)"
  using vnet_wf_new by (simp_all add: probed_def vnet_wf_def tx_part_def new_uninit_def)

lemma tx_inv_boot:
  assumes "virtio_init hw dma (probed b i) = Some (Inr (), v)"
  shows "tx_inv (tx_boot v) \<and> initialized v"
proof -
  have "b \<noteq> 0" using assms probed_facts(2) [of b i] by (auto simp: virtio_init_def)
  then have p: "tx_part v = (0xFFFF, avail_zero, used_zero, 0)" "initialized v"
    using tx_part_init [of "probed b i" hw dma v] assms probed_facts by auto
  moreover have "vnet_wf v" using init_total [OF probed_facts(1), of hw dma b i] assms by simp
  moreover have "busy (0xFFFF :: u16) = {}"
  proof -
    have "(0xFFFF :: u16) = - 1" by simp
    then have "bit (0xFFFF :: u16) k" if "k < 16" for k using that by (simp only: bit_minus_1_iff) simp
    then show ?thesis unfolding busy_def TX_BUFFERS_def by blast
  qed
  ultimately show ?thesis
    by (simp add: tx_inv_def tx_boot_def in_flight_def completed_def tx_done_def tx_part_def avail_zero_def used_zero_def)
qed

lemma tx_reach_inv:
  assumes "tx_reach hw dma s0 s" "tx_inv s0" "initialized (drv s0)"
  shows "tx_inv s \<and> initialized (drv s)"
  using assms(1)
proof induction
  case (step s s')
  then have inv: "tx_inv s'" using tx_step_inv by blast
  have wf: "vnet_wf (drv s)" using step.IH by (simp add: tx_inv_def)
  show ?case
    using step.hyps(2) inv step.IH wf
  proof cases
    case (send bytes r v')
    then show ?thesis
      using transmit_eq [OF wf, of bytes dma] step.IH inv
      by (cases "length bytes \<le> PACKET_SIZE") (auto simp: reclaimed_def queued_def transmit_def split: if_splits)
  next
    case (irq v')
    then show ?thesis
      using reclaim_tx_eq [of "write32 VIRTIO_MMIO_IRQ_ACK (read32 hw (drv s) VIRTIO_MMIO_IRQ_STATUS) (drv s)"] wf step.IH inv
      by (auto simp: virtio_handle_interrupt_def vnet_wf_def write32_def)
  qed auto
qed (use assms in simp)

lemma busy_full: "m = 0 \<longleftrightarrow> card (busy m) = TX_BUFFERS"
proof
  assume c: "card (busy m) = TX_BUFFERS"
  have "busy m \<subseteq> {..<TX_BUFFERS}" by (auto simp: busy_def)
  then have "busy m = {..<TX_BUFFERS}" by (rule card_subset_eq [OF finite_lessThan]) (simp add: c)
  then have "\<not> bit m k" if "k < 16" for k
    using that unfolding busy_def TX_BUFFERS_def by blast
  then show "m = 0" by (intro bit_word_eqI) simp
qed (simp add: busy_def)

lemma reclaimed_full:
  assumes "tx_inv s"
  shows "tx_free_mask (reclaimed (drv s)) = 0 \<longleftrightarrow> length (in_flight s) = TX_BUFFERS"
proof -
  let ?m = "tx_free_mask (reclaimed (drv s))"
  have "in_flight (s\<lparr>drv := reclaimed (drv s)\<rparr>) = in_flight s" by (simp add: in_flight_def reclaimed_def)
  then have i: "set (in_flight s) = busy ?m" "distinct (in_flight s)"
    using tx_inv_reclaimed [OF assms] by (auto simp: tx_inv_def)
  have "card (busy ?m) = length (in_flight s)" using i by (metis distinct_card)
  then show ?thesis using busy_full [of ?m] by simp
qed

text \<open>
  C26. From initialisation on, whatever the order of transmissions, interrupts and device actions:
  no buffer is handed to the device twice, every frame \<open>transmit\<close> accepted has been sent exactly once
  or is still with the device, in each case unmodified, and \<open>transmit\<close> reports \<open>BufferFull\<close> only when
  all 16 buffers are with the device.
\<close>
theorem tx_exactly_once:
  assumes "virtio_init hw dma (probed b i) = Some (Inr (), v)" "tx_reach hw dma (tx_boot v) s"
  shows "distinct (in_flight s) \<and>
    mset (sent s) = mset (wire s) + mset (map (tx_frame (drv s)) (in_flight s)) \<and>
    (length bytes \<le> PACKET_SIZE \<longrightarrow>
      ((\<exists>v'. transmit dma bytes (drv s) = Some (Inl BufferFull, v')) \<longleftrightarrow> length (in_flight s) = TX_BUFFERS))"
proof -
  have inv: "tx_inv s" "initialized (drv s)"
    using tx_reach_inv [OF assms(2)] tx_inv_boot [OF assms(1)] by (auto simp: tx_boot_def)
  have "(\<exists>v'. transmit dma bytes (drv s) = Some (Inl BufferFull, v')) \<longleftrightarrow> length (in_flight s) = TX_BUFFERS"
    if "length bytes \<le> PACKET_SIZE"
    using transmit_eq [OF _ inv(2) that, of dma] inv(1) reclaimed_full [OF inv(1)] by (auto simp: tx_inv_def)
  then show ?thesis using inv(1) by (auto simp: tx_inv_def)
qed

definition willing_device :: mmio_device where
  "willing_device = \<lparr>reg32 = \<lambda>_ _. STATUS_FEATURES_OK, reg8 = \<lambda>_ _. 7\<rparr>"

definition flat_dma :: dma_layout where
  "flat_dma = \<lparr>desc_pa = \<lambda>q. 0x80400000 + ucast q * 0x1000, avail_pa = \<lambda>q. 0x80402000 + ucast q * 0x1000,
     used_pa = \<lambda>q. 0x80404000 + ucast q * 0x1000, rx_buf_pa = \<lambda>i. 0x80410000 + of_nat i * 0x800,
     tx_buf_pa = \<lambda>i. 0x80430000 + of_nat i * 0x800\<rparr>"

lemma negotiated_sel [simp]:
  "vnet_wf (negotiated hw v) = vnet_wf v" "vbase (negotiated hw v) = vbase v"
  "rx_avail (negotiated hw v) = rx_avail v" "initialized (negotiated hw v) = initialized v"
  by (simp_all add: negotiated_def Let_def) (simp_all add: write32_def)

lemma virtio_init_accepted:
  assumes "vnet_wf v" "vbase v \<noteq> 0" "accepts hw v"
  obtains mac w where
    "populate_rx_queue dma (setup_queue hw dma 1 (setup_queue hw dma 0 ((negotiated hw v)\<lparr>vmac := mac\<rparr>))) = Some w"
    "virtio_init hw dma v = Some (Inr (), (write32 VIRTIO_MMIO_STATUS
       (STATUS_ACK OR STATUS_DRIVER OR STATUS_FEATURES_OK OR STATUS_DRIVER_OK) w)\<lparr>initialized := True\<rparr>)"
proof -
  obtain mac where e: "virtio_init hw dma v =
      do { w \<leftarrow> populate_rx_queue dma (setup_queue hw dma 1 (setup_queue hw dma 0 ((negotiated hw v)\<lparr>vmac := mac\<rparr>)));
           Some (Inr (), (write32 VIRTIO_MMIO_STATUS
             (STATUS_ACK OR STATUS_DRIVER OR STATUS_FEATURES_OK OR STATUS_DRIVER_OK) w)\<lparr>initialized := True\<rparr>) }"
    using virtio_init_cases [OF assms(2), of hw dma] assms(3) by auto
  obtain w where "populate_rx_queue dma (setup_queue hw dma 1 (setup_queue hw dma 0 ((negotiated hw v)\<lparr>vmac := mac\<rparr>))) = Some w"
    using provide_all_wf [of "setup_queue hw dma 1 (setup_queue hw dma 0 ((negotiated hw v)\<lparr>vmac := mac\<rparr>))" "[0..<RX_BUFFERS]" dma]
      assms(1) by (auto simp: populate_rx_queue_def atLeast0LessThan)
  then show thesis using that e by simp
qed

theorem tx_exactly_once_witness:
  "\<exists>v s. virtio_init willing_device flat_dma (probed 0x10001000 1) = Some (Inr (), v) \<and>
     tx_reach willing_device flat_dma (tx_boot v) s \<and> sent s = [[1, 2, 3]] \<and> wire s = [] \<and>
     image_mset (tx_frame (drv s)) (mset (in_flight s)) = {#[1, 2, 3]#}"
proof -
  have acc: "accepts willing_device (probed 0x10001000 1)"
    by (simp add: accepts_def read32_def willing_device_def STATUS_FEATURES_OK_def)
  obtain v where v: "virtio_init willing_device flat_dma (probed 0x10001000 1) = Some (Inr (), v)"
  proof (rule virtio_init_accepted [where dma = flat_dma, OF probed_facts(1) _ acc])
    show "vbase (probed 0x10001000 1) \<noteq> 0" by (simp add: probed_facts(2))
  qed (rule that)
  have inv: "tx_inv (tx_boot v)" "initialized v" using tx_inv_boot [OF v] by simp_all
  then have wf: "vnet_wf v" and free: "tx_free_mask (reclaimed v) \<noteq> 0"
    using reclaimed_full [OF inv(1)] by (simp_all add: tx_inv_def tx_boot_def in_flight_def completed_def TX_BUFFERS_def)
  then obtain v' where t: "transmit flat_dma [1, 2, 3] v = Some (Inr (), v')"
    using transmit_eq [OF wf inv(2), of "[1, 2, 3]" flat_dma] by (simp add: PACKET_SIZE_def)
  let ?s = "(tx_boot v)\<lparr>drv := v', sent := [[1, 2, 3]]\<rparr>"
  have "tx_reach willing_device flat_dma (tx_boot v) ?s"
    using tx_reach.step [OF tx_reach.start tx_step.send [of flat_dma "[1, 2, 3]" "tx_boot v" "Inr ()" v']] t
    by (simp add: tx_boot_def)
  then show ?thesis
    using tx_exactly_once [OF v, of ?s] v by (intro exI [of _ v] exI [of _ ?s]) (simp add: tx_boot_def)
qed

text \<open>
  C27. No content of the shared rings makes the driver panic: for every well-formed driver state,
  with arbitrary indices, heads and lengths in the used rings, \<open>transmit\<close> of any packet, \<open>receive\<close> into a
  buffer of at most one packet, the interrupt handler and initialisation return and keep the state
  well-formed.
\<close>
theorem virtio_no_panic:
  assumes "vnet_wf v" "length buf \<le> PACKET_SIZE"
  shows "(\<exists>r v'. transmit dma bytes v = Some (r, v') \<and> vnet_wf v') \<and>
    (\<exists>r buf' v'. vn_receive dma buf v = Some (r, buf', v') \<and> vnet_wf v' \<and> length buf' = length buf) \<and>
    (\<exists>v'. virtio_handle_interrupt hw v = Some v' \<and> vnet_wf v') \<and>
    (\<exists>r v'. virtio_init hw dma v = Some (r, v') \<and> vnet_wf v')"
proof -
  let ?w = "write32 VIRTIO_MMIO_IRQ_ACK (read32 hw v VIRTIO_MMIO_IRQ_STATUS) v"
  have "vnet_wf ?w" using assms(1) by simp
  then have "\<exists>v'. virtio_handle_interrupt hw v = Some v' \<and> vnet_wf v'"
    using reclaim_tx_eq [of ?w] by (simp add: virtio_handle_interrupt_def vnet_wf_def)
  then show ?thesis using transmit_total receive_total init_total assms by blast
qed

theorem virtio_no_panic_witness:
  "\<exists>r v'. transmit flat_dma [1, 2, 3] new_uninit = Some (r, v') \<and> vnet_wf v'"
  using virtio_no_panic [OF vnet_wf_new, of "[]" flat_dma "[1, 2, 3]"] by simp

end
