(* ===== verification/Virtio_Rx.thy ===== *)
theory Virtio_Rx
  imports Virtio_Tx
begin

unbundle bit_operations_syntax

text \<open>
  The initialisation handshake with the device and the receive queue of the virtio-net driver.
\<close>

section \<open>The handshake\<close>

text \<open>The values written to the status register, in order.\<close>

definition status_writes :: "VirtioNet \<Rightarrow> u32 list" where
  "status_writes v = map snd (filter (\<lambda>(a, _). a = vbase v + VIRTIO_MMIO_STATUS) (mmio_out v))"

lemma vbase_upd [simp]: "vbase (write32 off val v) = vbase v" "vbase (setup_queue hw dma q v) = vbase v"
  by (simp_all add: write32_def setup_queue_def Let_def)

lemma status_writes_write32 [simp]:
  "status_writes (write32 off val v) = status_writes v @ (if off = VIRTIO_MMIO_STATUS then [val] else [])"
  by (simp add: status_writes_def write32_def)

lemmas virtio_regs = VIRTIO_MMIO_STATUS_def VIRTIO_MMIO_DEV_FEATURES_SEL_def VIRTIO_MMIO_DRV_FEATURES_SEL_def
  VIRTIO_MMIO_DRV_FEATURES_def VIRTIO_MMIO_QUEUE_SEL_def VIRTIO_MMIO_QUEUE_NUM_def VIRTIO_MMIO_QUEUE_DESC_LOW_def
  VIRTIO_MMIO_QUEUE_DESC_HIGH_def VIRTIO_MMIO_QUEUE_AVAIL_LOW_def VIRTIO_MMIO_QUEUE_AVAIL_HIGH_def
  VIRTIO_MMIO_QUEUE_USED_LOW_def VIRTIO_MMIO_QUEUE_USED_HIGH_def VIRTIO_MMIO_QUEUE_READY_def
  VIRTIO_MMIO_QUEUE_NOTIFY_def

lemma status_writes_setup [simp]: "status_writes (setup_queue hw dma q v) = status_writes v"
  by (simp add: setup_queue_def Let_def) (simp add: virtio_regs)

lemma status_writes_negotiated [simp]:
  "status_writes (negotiated hw v) = status_writes v @
     [0, STATUS_ACK, STATUS_ACK OR STATUS_DRIVER, STATUS_ACK OR STATUS_DRIVER OR STATUS_FEATURES_OK]"
  by (simp add: negotiated_def Let_def) (simp add: virtio_regs)

text \<open>The device has been given the first \<open>n\<close> receive buffers, each once and with its own descriptor.\<close>

definition rx_given :: "dma_layout \<Rightarrow> nat \<Rightarrow> VirtioNet \<Rightarrow> bool" where
  "rx_given dma n v \<longleftrightarrow> a_idx (rx_avail v) = of_nat n \<and>
     (\<forall>k<n. a_ring (rx_avail v) ! k = of_nat k \<and> rx_desc v ! k =
        \<lparr>d_addr = rx_buf_pa dma k, d_len = of_nat BUF_SIZE, d_flags = VRING_DESC_F_WRITE, d_next = 0\<rparr>)"

lemma provide_all_snoc:
  "provide_all dma (is @ [i]) v = do { v \<leftarrow> provide_all dma is v; provide_rx dma i v }"
  by (induction "is" arbitrary: v) (auto split: Option.bind_split)

lemma provide_rx_given:
  assumes "vnet_wf v" "rx_given dma n v" "n < RX_BUFFERS" "provide_rx dma n v = Some v'"
  shows "rx_given dma (Suc n) v'"
proof -
  have "unat (a_idx (rx_avail v)) mod QUEUE_SIZE = n"
    using assms(2,3) by (simp add: rx_given_def RX_BUFFERS_def QUEUE_SIZE_def unat_of_nat)
  then show ?thesis
    using assms by (auto simp: provide_rx_eq rx_given_def less_Suc_eq vnet_wf_def RX_BUFFERS_def QUEUE_SIZE_def)
qed

lemma provide_all_given:
  assumes "vnet_wf v" "a_idx (rx_avail v) = 0" "n \<le> RX_BUFFERS"
  shows "\<exists>v'. provide_all dma [0..<n] v = Some v' \<and> vnet_wf v' \<and> rx_given dma n v' \<and>
    mmio_out v' = mmio_out v \<and> vbase v' = vbase v"
  using assms(3)
proof (induction n)
  case (Suc n)
  then obtain w where w: "provide_all dma [0..<n] v = Some w" "vnet_wf w" "rx_given dma n w"
    "mmio_out w = mmio_out v" "vbase w = vbase v" by auto
  obtain v' where "provide_rx dma n w = Some v'" "vnet_wf v'" "mmio_out v' = mmio_out w" "vbase v' = vbase w"
    using provide_rx_wf [OF w(2), of n dma] provide_rx_eq [OF w(2), of n dma] Suc.prems by auto
  then show ?case
    using w Suc.prems provide_rx_given [OF w(2,3), of v'] by (simp add: provide_all_snoc)
qed (use assms in \<open>simp add: rx_given_def\<close>)

lemma rx_given_write32 [simp]: "rx_given dma n (write32 off val v) = rx_given dma n v"
  by (simp add: rx_given_def write32_def)

lemma populate_given:
  assumes "vnet_wf v" "a_idx (rx_avail v) = 0" "populate_rx_queue dma v = Some w"
  shows "rx_given dma RX_BUFFERS w \<and> status_writes w = status_writes v \<and> vbase w = vbase v"
proof -
  obtain u where u: "provide_all dma [0..<RX_BUFFERS] v = Some u" "rx_given dma RX_BUFFERS u"
    "mmio_out u = mmio_out v" "vbase u = vbase v"
    using provide_all_given [OF assms(1,2), of RX_BUFFERS dma] by auto
  then have "status_writes u = status_writes v" by (simp add: status_writes_def)
  then show ?thesis
    using assms(3) u by (auto simp: populate_rx_queue_def virtio_regs)
qed

lemma rx_avail_setup [simp]: "rx_avail (setup_queue hw dma q v) = rx_avail v"
  by (simp add: setup_queue_def Let_def write32_def)

text \<open>
  The initialisation of a probed device follows the VirtIO handshake.  When the device accepts the
  features, the status register is written 0, \<open>ACK\<close>, \<open>DRIVER\<close>, \<open>FEATURES_OK\<close> and, after everything else,
  \<open>DRIVER_OK\<close>, and the device has been given all 32 receive buffers; when it does not, the driver
  reports \<open>InitFailed\<close>, writes \<open>FAILED\<close> and stays uninitialised.
\<close>
theorem init_handshake:
  assumes "b \<noteq> 0"
  shows "\<exists>r v'. virtio_init hw dma (probed b i) = Some (r, v') \<and>
    (if accepts hw (probed b i)
     then r = Inr () \<and> initialized v' \<and> rx_given dma RX_BUFFERS v' \<and> status_writes v' = [0, 1, 3, 11, 15] \<and>
       last (mmio_out v') = (b + VIRTIO_MMIO_STATUS, 15)
     else r = Inl InitFailed \<and> \<not> initialized v' \<and> status_writes v' = [0, 1, 3, 11, 128])"
proof (cases "accepts hw (probed b i)")
  case True
  have v0: "vnet_wf (probed b i)" "vbase (probed b i) \<noteq> 0" using assms probed_facts by auto
  have a: "a_idx (rx_avail (probed b i)) = 0" "status_writes (probed b i) = []"
    by (simp_all add: probed_def new_uninit_def avail_zero_def status_writes_def)
  obtain mac w where w: "populate_rx_queue dma (setup_queue hw dma 1 (setup_queue hw dma 0 ((negotiated hw (probed b i))\<lparr>vmac := mac\<rparr>))) = Some w"
    and e: "virtio_init hw dma (probed b i) = Some (Inr (), (write32 VIRTIO_MMIO_STATUS
       (STATUS_ACK OR STATUS_DRIVER OR STATUS_FEATURES_OK OR STATUS_DRIVER_OK) w)\<lparr>initialized := True\<rparr>)"
    by (rule virtio_init_accepted [OF v0 True])
  have m: "status_writes (v\<lparr>vmac := x\<rparr>) = status_writes v" "status_writes (v\<lparr>initialized := y\<rparr>) = status_writes v"
    "rx_given dma n (v\<lparr>initialized := y\<rparr>) = rx_given dma n v" for v x y n
    by (simp_all add: status_writes_def rx_given_def)
  have w': "rx_given dma RX_BUFFERS w" "status_writes w = [0, 1, 3, 11]" "vbase w = b"
    using populate_given [OF _ _ w] v0 a probed_facts(2) [of b i]
    by (simp_all add: m STATUS_ACK_def STATUS_DRIVER_def STATUS_FEATURES_OK_def)
  have "last (mmio_out (write32 off val w)) = (b + off, val)" for off val
    using w'(3) by (simp add: write32_def)
  then show ?thesis
    using True e w'(1,2)
    by (simp add: m STATUS_ACK_def STATUS_DRIVER_def STATUS_FEATURES_OK_def STATUS_DRIVER_OK_def)
next
  case False
  have "\<not> initialized (probed b i)" "status_writes (probed b i) = []"
    by (simp_all add: probed_def new_uninit_def status_writes_def)
  moreover have "initialized (write32 off val v) = initialized v" for off val v by (simp add: write32_def)
  ultimately show ?thesis
    using virtio_init_cases [of "probed b i" hw dma] assms False probed_facts(2) [of b i]
    by (auto simp: STATUS_ACK_def STATUS_DRIVER_def STATUS_FEATURES_OK_def STATUS_FAILED_def)
qed

theorem init_handshake_witness:
  "\<exists>v'. virtio_init willing_device flat_dma (probed 0x10001000 1) = Some (Inr (), v') \<and>
     rx_given flat_dma RX_BUFFERS v' \<and> status_writes v' = [0, 1, 3, 11, 15]"
proof -
  have "accepts willing_device (probed 0x10001000 1)"
    by (simp add: accepts_def read32_def willing_device_def STATUS_FEATURES_OK_def)
  then show ?thesis using init_handshake [of "0x10001000" willing_device flat_dma 1] by auto
qed

section \<open>Receiving\<close>

definition rx_done :: "VirtioNet \<Rightarrow> VirtqUsedElem list" where
  "rx_done v = window (u_ring (rx_used v)) (rx_last_used v) (u_idx (rx_used v))"

text \<open>A completion the driver rejects: a head outside the buffers or nothing after the header.\<close>

definition runt :: "VirtqUsedElem \<Rightarrow> bool" where
  "runt e \<longleftrightarrow> RX_BUFFERS \<le> unat (e_id e) \<or> unat (e_len e) \<le> VIRTIO_NET_HDR_SIZE"

lemma receive_front:
  assumes "vnet_wf v" "initialized v" "rx_done v \<noteq> []"
  shows "idx (u_ring (rx_used v)) (unat (rx_last_used v) mod QUEUE_SIZE) = Some (hd (rx_done v))"
    "rx_last_used v \<noteq> load_idx (rx_used v)"
    "rx_done (v\<lparr>rx_last_used := rx_last_used v + 1\<rparr>) = tl (rx_done v)"
proof -
  have ne: "rx_last_used v \<noteq> u_idx (rx_used v)" using assms(3) by (auto simp: rx_done_def)
  then show "rx_last_used v \<noteq> load_idx (rx_used v)" by (simp add: load_idx_def)
  show "idx (u_ring (rx_used v)) (unat (rx_last_used v) mod QUEUE_SIZE) = Some (hd (rx_done v))"
    "rx_done (v\<lparr>rx_last_used := rx_last_used v + 1\<rparr>) = tl (rx_done v)"
    using assms(1) ring_slot window_Cons [OF ne, of "u_ring (rx_used v)"] by (simp_all add: vnet_wf_def rx_done_def)
qed

text \<open>
  A received packet of a device that reports its buffer's head and length is copied to the caller
  without the header, cut to the caller's buffer, and the receive buffer is given back to the device.
\<close>
theorem receive_exact:
  assumes "vnet_wf v" "initialized v" "rx_done v \<noteq> []" "\<not> runt (hd (rx_done v))" "length buf \<le> PACKET_SIZE"
  shows "\<exists>v'. vn_receive dma buf v =
      (let e = hd (rx_done v); n = min (unat (e_len e) - VIRTIO_NET_HDR_SIZE) (length buf)
       in Some (Inr n, take n (drop VIRTIO_NET_HDR_SIZE (rx_buffers v ! unat (e_id e))) @ drop n buf, v')) \<and>
    rx_done v' = tl (rx_done v) \<and> rx_buffers v' = rx_buffers v \<and>
    a_idx (rx_avail v') = a_idx (rx_avail v) + 1 \<and>
    a_ring (rx_avail v') ! (unat (a_idx (rx_avail v)) mod QUEUE_SIZE) = of_nat (unat (e_id (hd (rx_done v))))"
proof -
  define e n where "e = hd (rx_done v)" and "n = min (unat (e_len e) - VIRTIO_NET_HDR_SIZE) (length buf)"
  note front = receive_front [OF assms(1-3), folded e_def]
  have id: "unat (e_id e) < RX_BUFFERS" "VIRTIO_NET_HDR_SIZE < unat (e_len e)"
    using assms(4) by (simp_all add: runt_def e_def)
  define b where "b = rx_buffers v ! unat (e_id e)"
  have b: "idx (rx_buffers v) (unat (e_id e)) = Some b" "length b = BUF_SIZE"
    using assms(1) id by (simp_all add: vnet_wf_def b_def)
  have n: "n \<le> length buf" "VIRTIO_NET_HDR_SIZE + n \<le> length b"
    using assms(5) b(2) by (auto simp: n_def BUF_SIZE_def)
  then have c: "blit 0 (take n (drop VIRTIO_NET_HDR_SIZE b)) buf = Some (take n (drop VIRTIO_NET_HDR_SIZE b) @ drop n buf)"
    by (simp add: blit_def)
  let ?v = "v\<lparr>rx_last_used := rx_last_used v + 1\<rparr>"
  have wf: "vnet_wf ?v" using assms(1) by simp
  obtain w where w: "provide_rx dma (unat (e_id e)) ?v = Some w" "rx_done w = rx_done ?v" "rx_buffers w = rx_buffers v"
      "a_idx (rx_avail w) = a_idx (rx_avail v) + 1"
      "a_ring (rx_avail w) ! (unat (a_idx (rx_avail v)) mod QUEUE_SIZE) = of_nat (unat (e_id e))"
    using provide_rx_eq [OF wf id(1), of dma] assms(1) ring_slot by (auto simp: rx_done_def vnet_wf_def)
  have "vn_receive dma buf v = Some (Inr n, take n (drop VIRTIO_NET_HDR_SIZE b) @ drop n buf, write32 VIRTIO_MMIO_QUEUE_NOTIFY 0 w)"
    using assms(2) front(1,2) id b(1) c n w(1) by (simp add: vn_receive_def Let_def n_def [symmetric])
  moreover have "rx_done (write32 off val w) = rx_done w" for off val by (simp add: rx_done_def write32_def)
  ultimately show ?thesis
    using w(2-5) front(3) unfolding Let_def e_def [symmetric] n_def [symmetric] b_def [symmetric]
    by (intro exI [of _ "write32 VIRTIO_MMIO_QUEUE_NOTIFY 0 w"]) (simp add: write32_def)
qed

text \<open>Receiving \<open>n\<close> times, whatever the results.\<close>

fun drain_rx :: "dma_layout \<Rightarrow> u8 list \<Rightarrow> nat \<Rightarrow> VirtioNet \<Rightarrow> VirtioNet option" where
  "drain_rx dma buf 0 v = Some v"
| "drain_rx dma buf (Suc n) v = do { (_, _, v) \<leftarrow> vn_receive dma buf v; drain_rx dma buf n v }"

text \<open>
  A rejected completion is consumed without giving its buffer back, although the comment says it is
  re-provisioned: after any number of rejected completions the available ring is the same as before
  them, so after 32 runt packets the device has no receive buffer left.
\<close>
theorem rx_runt_leak:
  assumes "vnet_wf v" "initialized v" "list_all runt (rx_done v)"
  shows "drain_rx dma buf (length (rx_done v)) v = Some (v\<lparr>rx_last_used := u_idx (rx_used v)\<rparr>)"
  using assms
proof (induction "rx_done v" arbitrary: v)
  case Nil
  then have "length (rx_done v) = 0" by simp
  then have "rx_last_used v = u_idx (rx_used v)" by (simp add: rx_done_def unat_eq_0)
  then show ?case using Nil by simp
next
  case (Cons e es)
  let ?v = "v\<lparr>rx_last_used := rx_last_used v + 1\<rparr>"
  have ne: "rx_done v \<noteq> []" using Cons(2) by auto
  note front = receive_front [OF Cons.prems(1,2) ne]
  have d: "rx_done v = e # es" using Cons(2) by simp
  have e: "hd (rx_done v) = e" "es = rx_done ?v" using front(3) by (simp_all add: d)
  then have r: "runt e" "list_all runt (rx_done ?v)" using Cons.prems(3) by (simp_all add: d)
  have "vn_receive dma buf v = Some (Inl InvalidState, buf, ?v)"
    using Cons.prems(2) front(1,2) e(1) r(1) by (auto simp: vn_receive_def Let_def runt_def)
  moreover have "drain_rx dma buf (length (rx_done ?v)) ?v = Some (?v\<lparr>rx_last_used := u_idx (rx_used ?v)\<rparr>)"
    by (rule Cons(1) [OF e(2)]) (use Cons.prems r(2) in simp_all)
  moreover have "length (rx_done v) = Suc (length (rx_done ?v))" using d e(2) by simp
  ultimately show ?case by simp
qed

text \<open>A driver to which the device has reported one completion.\<close>

definition one_used :: "VirtqUsedElem \<Rightarrow> VirtioNet" where
  "one_used e = new_uninit\<lparr>initialized := True,
     rx_used := used_zero\<lparr>u_idx := 1, u_ring := (u_ring used_zero)[0 := e]\<rparr>\<rparr>"

lemma one_used_facts:
  "vnet_wf (one_used e)" "initialized (one_used e)" "rx_done (one_used e) = [e]" "u_idx (rx_used (one_used e)) = 1"
proof -
  show "vnet_wf (one_used e)" using vnet_wf_new by (simp add: one_used_def vnet_wf_def used_zero_def)
  show "initialized (one_used e)" "u_idx (rx_used (one_used e)) = 1" by (simp_all add: one_used_def)
  have "window ([elem_zero][0 := x] @ r) 0 1 = [x]" for x and r :: "VirtqUsedElem list"
    by (simp add: window_def)
  moreover have "(replicate QUEUE_SIZE elem_zero)[0 := x] = [elem_zero][0 := x] @ replicate 63 elem_zero" for x
    by (simp add: QUEUE_SIZE_def eval_nat_numeral)
  ultimately show "rx_done (one_used e) = [e]"
    by (simp only: one_used_def rx_done_def VirtioNet.simps VirtqUsed.simps used_zero_def new_uninit_def)
qed

theorem receive_exact_witness:
  "\<exists>v'. vn_receive flat_dma [9, 9, 9, 9, 9] (one_used \<lparr>e_id = 5, e_len = 15\<rparr>) = Some (Inr 3, [0, 0, 0, 9, 9], v') \<and>
     a_ring (rx_avail v') ! 0 = 5"
proof -
  let ?e = "\<lparr>e_id = 5, e_len = 15\<rparr> :: VirtqUsedElem"
  have b: "rx_buffers (one_used ?e) ! 5 = replicate BUF_SIZE 0" "a_idx (rx_avail (one_used ?e)) = 0"
    by (simp_all add: one_used_def new_uninit_def RX_BUFFERS_def avail_zero_def)
  have h: "rx_done (one_used ?e) \<noteq> []" "\<not> runt (hd (rx_done (one_used ?e)))" "length [9 :: u8, 9, 9, 9, 9] \<le> PACKET_SIZE"
    by (simp_all add: one_used_facts runt_def RX_BUFFERS_def VIRTIO_NET_HDR_SIZE_def PACKET_SIZE_def)
  have t: "take 3 (drop VIRTIO_NET_HDR_SIZE (replicate BUF_SIZE (0 :: u8))) = [0, 0, 0]"
    by (simp add: VIRTIO_NET_HDR_SIZE_def BUF_SIZE_def PACKET_SIZE_def numeral_3_eq_3)
  show ?thesis
    using receive_exact [OF one_used_facts(1,2) h, of flat_dma] b t
    by (auto simp: one_used_facts(3) VIRTIO_NET_HDR_SIZE_def BUF_SIZE_def PACKET_SIZE_def Let_def)
qed

theorem rx_runt_leak_witness:
  "drain_rx flat_dma [] 1 (one_used \<lparr>e_id = 5, e_len = 12\<rparr>) =
     Some ((one_used \<lparr>e_id = 5, e_len = 12\<rparr>)\<lparr>rx_last_used := 1\<rparr>)"
proof -
  have "list_all runt (rx_done (one_used \<lparr>e_id = 5, e_len = 12\<rparr>))"
    by (simp add: one_used_facts runt_def VIRTIO_NET_HDR_SIZE_def)
  then show ?thesis
    using rx_runt_leak [OF one_used_facts(1,2), of "\<lparr>e_id = 5, e_len = 12\<rparr>" flat_dma "[]"] by (simp add: one_used_facts(3,4))
qed

end
