(* ===== verification/Abi.thy ===== *)
theory Abi
  imports Prelude Page_Alloc
begin

text \<open>
  The kernel/user contract: the syscall numbers and error encoding of \<open>abi.rs\<close> and the argument
  validators of \<open>security.rs\<close>.  Every syscall handler of the later theories calls the validators
  here.
\<close>

section \<open>security.rs\<close>

definition MAX_PROCS :: usize where "MAX_PROCS = 8"
definition MAX_IRQS :: usize where "MAX_IRQS = 64"
definition USER_VA_START :: usize where "USER_VA_START = 0x50000000"
definition USER_VA_END :: usize where "USER_VA_END = 0x80000000"

definition is_page_aligned :: "usize \<Rightarrow> bool" where
  "is_page_aligned addr \<longleftrightarrow> addr mod PAGE_SIZE = 0"

definition is_user_va :: "usize \<Rightarrow> bool" where
  "is_user_va va \<longleftrightarrow> USER_VA_START \<le> va \<and> va < USER_VA_END"

definition is_valid_ipc_target :: "usize \<Rightarrow> usize \<Rightarrow> bool" where
  "is_valid_ipc_target target current \<longleftrightarrow> 0 < target \<and> target < MAX_PROCS \<and> target \<noteq> current"

definition is_valid_map_flags :: "usize \<Rightarrow> bool" where
  "is_valid_map_flags flags \<longleftrightarrow> flags \<le> 1"

definition is_valid_irq :: "usize \<Rightarrow> bool" where
  "is_valid_irq irq \<longleftrightarrow> irq < MAX_IRQS"

definition is_valid_alloc_count :: "usize \<Rightarrow> bool" where
  "is_valid_alloc_count count \<longleftrightarrow> count = 1"

definition is_valid_elf_size :: "usize \<Rightarrow> bool" where
  "is_valid_elf_size len \<longleftrightarrow> 0 < len \<and> len \<le> 1024 * 1024"

section \<open>abi.rs\<close>

definition SYS_PUTCHAR :: usize where "SYS_PUTCHAR = 0"
definition SYS_EXIT :: usize where "SYS_EXIT = 1"
definition SYS_SEND :: usize where "SYS_SEND = 2"
definition SYS_RECEIVE :: usize where "SYS_RECEIVE = 3"
definition SYS_CALL :: usize where "SYS_CALL = 4"
definition SYS_REPLY :: usize where "SYS_REPLY = 5"
definition SYS_MAP :: usize where "SYS_MAP = 6"
definition SYS_UNMAP :: usize where "SYS_UNMAP = 7"
definition SYS_ALLOC_PAGES :: usize where "SYS_ALLOC_PAGES = 8"
definition SYS_FREE_PAGES :: usize where "SYS_FREE_PAGES = 9"
definition SYS_SPAWN :: usize where "SYS_SPAWN = 10"
definition SYS_WAIT :: usize where "SYS_WAIT = 11"
definition SYS_GETPID :: usize where "SYS_GETPID = 12"
definition SYS_YIELD :: usize where "SYS_YIELD = 13"
definition SYS_IRQ_REGISTER :: usize where "SYS_IRQ_REGISTER = 14"
definition SYS_IRQ_ACK :: usize where "SYS_IRQ_ACK = 15"
definition SYS_REBOOT :: usize where "SYS_REBOOT = 16"
definition SYS_MAX :: usize where "SYS_MAX = SYS_REBOOT"

lemmas sys_defs =
  SYS_PUTCHAR_def SYS_EXIT_def SYS_SEND_def SYS_RECEIVE_def SYS_CALL_def SYS_REPLY_def SYS_MAP_def
  SYS_UNMAP_def SYS_ALLOC_PAGES_def SYS_FREE_PAGES_def SYS_SPAWN_def SYS_WAIT_def SYS_GETPID_def
  SYS_YIELD_def SYS_IRQ_REGISTER_def SYS_IRQ_ACK_def SYS_REBOOT_def SYS_MAX_def

datatype syscall_error =
  Generic | InvalidArgument | NoSuchProcess | PermissionDenied | WouldBlock | OutOfResources
| NotMapped | BadElf

text \<open>The \<open>#[repr(usize)]\<close> discriminant.\<close>

fun error_number :: "syscall_error \<Rightarrow> usize" where
  "error_number Generic = 1"
| "error_number InvalidArgument = 2"
| "error_number NoSuchProcess = 3"
| "error_number PermissionDenied = 4"
| "error_number WouldBlock = 5"
| "error_number OutOfResources = 6"
| "error_number NotMapped = 7"
| "error_number BadElf = 8"

definition USIZE_MAX :: usize where "USIZE_MAX = - 1"

definition into_retval :: "syscall_error \<Rightarrow> usize" where
  "into_retval e = USIZE_MAX - (error_number e - 1)"

definition ERR :: usize where "ERR = USIZE_MAX"

section \<open>Properties\<close>

lemma MAX_PROCS_unat: "p < MAX_PROCS \<longleftrightarrow> unat p < 8"
  by (simp add: MAX_PROCS_def word_less_nat_alt)

lemma MAX_IRQS_unat: "i < MAX_IRQS \<longleftrightarrow> unat i < 64"
  by (simp add: MAX_IRQS_def word_less_nat_alt)

lemma valid_target_unat:
  "is_valid_ipc_target t c \<longleftrightarrow> 0 < unat t \<and> unat t < 8 \<and> unat t \<noteq> unat c"
  by (simp add: is_valid_ipc_target_def MAX_PROCS_unat word_less_nat_alt [of 0] word_unat_eq_iff)

text \<open>
  The error encoding of the ABI: the generic error is the legacy value \<open>usize::MAX\<close>, the
  value of an error determines the error, userspace recovers the number as
  \<open>usize::MAX - a0 + 1\<close>, and an error value is never the error number's bitwise complement,
  which the comment above the enum announces.
\<close>

theorem syscall_error_codes:
  "into_retval Generic = ERR \<and>
   (into_retval e = into_retval e' \<longleftrightarrow> e = e') \<and>
   USIZE_MAX - into_retval e + 1 = error_number e \<and>
   2 ^ 64 - 8 \<le> unat (into_retval e) \<and>
   into_retval e \<noteq> NOT (error_number e)"
  by (cases e; cases e'; simp add: into_retval_def ERR_def USIZE_MAX_def unsigned_minus_1_eq_mask mask_eq_exp_minus_1)

end
