(* ===== verification/Process.thy ===== *)
theory Process
  imports Abi Kvm Devices
begin

unbundle bit_operations_syntax

text \<open>
  \<open>process.rs\<close> and the trap frame of \<open>trap.rs\<close>: the process control block, the process table and
  the kernel's global state.  The record \<open>kernel\<close> extends the memory state \<open>vm\<close> by the statics
  \<open>PROCS\<close>, \<open>CURRENT_PID\<close>, \<open>IRQ_OWNER\<close> and \<open>TICKS\<close>, the trap frame on the kernel stack that a
  handler edits and \<open>sret\<close> returns to, and the devices.

  The invariant \<open>kernel_inv\<close> of this theory is what the handlers of all later theories keep: the
  tables have their fixed sizes, slot 0 is never used, at most the current process is \<open>Running\<close>
  and then \<open>satp\<close> is its table, it runs exactly when the frame returns to user mode, and every saved
  context returns to user mode.
\<close>

section \<open>Trap frame\<close>

record trap_frame =
  tf_ra :: usize
  tf_sp :: usize
  tf_gp :: usize
  tf_tp :: usize
  tf_t0 :: usize
  tf_t1 :: usize
  tf_t2 :: usize
  tf_s0 :: usize
  tf_s1 :: usize
  tf_a0 :: usize
  tf_a1 :: usize
  tf_a2 :: usize
  tf_a3 :: usize
  tf_a4 :: usize
  tf_a5 :: usize
  tf_a6 :: usize
  tf_a7 :: usize
  tf_s2 :: usize
  tf_s3 :: usize
  tf_s4 :: usize
  tf_s5 :: usize
  tf_s6 :: usize
  tf_s7 :: usize
  tf_s8 :: usize
  tf_s9 :: usize
  tf_s10 :: usize
  tf_s11 :: usize
  tf_t3 :: usize
  tf_t4 :: usize
  tf_t5 :: usize
  tf_t6 :: usize
  tf_sstatus :: usize
  tf_sepc :: usize

definition TrapFrame_zero :: trap_frame where
  "TrapFrame_zero =
     \<lparr>tf_ra = 0, tf_sp = 0, tf_gp = 0, tf_tp = 0, tf_t0 = 0, tf_t1 = 0, tf_t2 = 0, tf_s0 = 0, tf_s1 = 0,
      tf_a0 = 0, tf_a1 = 0, tf_a2 = 0, tf_a3 = 0, tf_a4 = 0, tf_a5 = 0, tf_a6 = 0, tf_a7 = 0,
      tf_s2 = 0, tf_s3 = 0, tf_s4 = 0, tf_s5 = 0, tf_s6 = 0, tf_s7 = 0, tf_s8 = 0, tf_s9 = 0,
      tf_s10 = 0, tf_s11 = 0, tf_t3 = 0, tf_t4 = 0, tf_t5 = 0, tf_t6 = 0, tf_sstatus = 0, tf_sepc = 0\<rparr>"

section \<open>Processes\<close>

datatype process_state =
  Free | Ready | Running | BlockedSend | BlockedRecv | BlockedCall | BlockedWait | BlockedNet

datatype net_op = NetNone | NetRecv | NetConnect

record process =
  pr_pid :: usize
  pr_state :: process_state
  pr_satp :: u64
  pr_context :: trap_frame
  pr_ipc_target :: usize
  pr_ipc_value :: usize
  pr_ipc_arg2 :: usize
  pr_ipc_arg3 :: usize
  pr_parent :: usize
  pr_exit_code :: usize
  pr_irq_num :: u32
  pr_irq_pending :: bool
  pr_net_op :: net_op
  pr_net_socket :: usize
  pr_net_buf_va :: usize
  pr_net_buf_len :: usize

definition Process_empty :: process where
  "Process_empty =
     \<lparr>pr_pid = 0, pr_state = Free, pr_satp = 0, pr_context = TrapFrame_zero, pr_ipc_target = 0,
      pr_ipc_value = 0, pr_ipc_arg2 = 0, pr_ipc_arg3 = 0, pr_parent = 0, pr_exit_code = 0,
      pr_irq_num = 0, pr_irq_pending = False, pr_net_op = NetNone, pr_net_socket = 0,
      pr_net_buf_va = 0, pr_net_buf_len = 0\<rparr>"

section \<open>Kernel state\<close>

record kernel = vm +
  procs :: "process list"
  current_pid :: usize
  irq_owners :: "usize list"
  ticks :: u64
  frame :: trap_frame
  dev :: devices

text \<open>Addresses of kernel code the handlers put into \<open>sepc\<close>, and the linker layout.\<close>

record kcfg =
  lay :: layout
  idle_pc :: usize
  exit_pc :: usize

definition get_proc :: "kernel \<Rightarrow> usize \<Rightarrow> process option" where
  "get_proc k pid = idx (procs k) (unat pid)"

definition upd_proc :: "usize \<Rightarrow> (process \<Rightarrow> process) \<Rightarrow> kernel \<Rightarrow> kernel option" where
  "upd_proc pid f k = do {
     p \<leftarrow> idx (procs k) (unat pid);
     Some (k\<lparr>procs := (procs k)[unat pid := f p]\<rparr>)
   }"

abbreviation set_a0 :: "usize \<Rightarrow> kernel \<Rightarrow> kernel" where
  "set_a0 v k \<equiv> k\<lparr>frame := (frame k)\<lparr>tf_a0 := v\<rparr>\<rparr>"

abbreviation set_a1 :: "usize \<Rightarrow> kernel \<Rightarrow> kernel" where
  "set_a1 v k \<equiv> k\<lparr>frame := (frame k)\<lparr>tf_a1 := v\<rparr>\<rparr>"

text \<open>\<open>frame.sepc += 4\<close>: step over the \<open>ecall\<close>.\<close>

definition advance :: "kernel \<Rightarrow> kernel" where
  "advance k = k\<lparr>frame := (frame k)\<lparr>tf_sepc := tf_sepc (frame k) + 4\<rparr>\<rparr>"

definition current_satp :: "kernel \<Rightarrow> u64 option" where
  "current_satp k =
     (let pid = current_pid k
      in if pid = 0 then Some 0 else map_option pr_satp (get_proc k pid))"

definition sys_getpid :: "kernel \<Rightarrow> kernel" where
  "sys_getpid k = (let k = advance k in set_a0 (current_pid k) k)"

section \<open>Invariant\<close>

text \<open>\<open>sstatus.SPP\<close>: clear means that \<open>sret\<close> returns to user mode.\<close>

definition user_mode :: "trap_frame \<Rightarrow> bool" where
  "user_mode f \<longleftrightarrow> tf_sstatus f AND push_bit 8 1 = 0"

definition kernel_inv :: "kernel \<Rightarrow> bool" where
  "kernel_inv k \<longleftrightarrow>
     length (procs k) = 8 \<and> length (irq_owners k) = 64 \<and> unat (current_pid k) < 8 \<and>
     pr_state (procs k ! 0) = Free \<and>
     (\<forall>i < 8. pr_state (procs k ! i) = Running \<longrightarrow> i = unat (current_pid k)) \<and>
     (\<forall>i < 8. pr_state (procs k ! i) = Running \<longrightarrow> satp k = pr_satp (procs k ! i)) \<and>
     (\<forall>i < 8. pr_state (procs k ! i) \<noteq> Free \<longrightarrow> user_mode (pr_context (procs k ! i))) \<and>
     (\<forall>i < 64. unat (irq_owners k ! i) < 8) \<and>
     (user_mode (frame k) \<longrightarrow> pr_state (procs k ! unat (current_pid k)) = Running) \<and>
     (\<not> user_mode (frame k) \<longrightarrow> (\<forall>i < 8. pr_state (procs k ! i) \<noteq> Running))"

text \<open>The state a trap from user mode finds: the invariant, with the current process running.\<close>

definition user_trap :: "kernel \<Rightarrow> bool" where
  "user_trap k \<longleftrightarrow> kernel_inv k \<and> user_mode (frame k)"

lemma kernel_invD:
  assumes "kernel_inv k"
  shows "length (procs k) = 8" "length (irq_owners k) = 64" "unat (current_pid k) < 8"
    "pr_state (procs k ! 0) = Free"
    "\<And>i. i < 8 \<Longrightarrow> pr_state (procs k ! i) = Running \<Longrightarrow> i = unat (current_pid k)"
    "\<And>i. i < 8 \<Longrightarrow> pr_state (procs k ! i) = Running \<Longrightarrow> satp k = pr_satp (procs k ! i)"
    "\<And>i. i < 8 \<Longrightarrow> pr_state (procs k ! i) \<noteq> Free \<Longrightarrow> user_mode (pr_context (procs k ! i))"
    "\<And>i. i < 64 \<Longrightarrow> unat (irq_owners k ! i) < 8"
    "user_mode (frame k) \<Longrightarrow> pr_state (procs k ! unat (current_pid k)) = Running"
    "\<And>i. \<not> user_mode (frame k) \<Longrightarrow> i < 8 \<Longrightarrow> pr_state (procs k ! i) \<noteq> Running"
  using assms by (simp_all add: kernel_inv_def)

lemma kernel_invI:
  assumes "length (procs k) = 8" "length (irq_owners k) = 64" "unat (current_pid k) < 8"
    "pr_state (procs k ! 0) = Free"
    "\<And>i. i < 8 \<Longrightarrow> pr_state (procs k ! i) = Running \<Longrightarrow> i = unat (current_pid k)"
    "\<And>i. i < 8 \<Longrightarrow> pr_state (procs k ! i) = Running \<Longrightarrow> satp k = pr_satp (procs k ! i)"
    "\<And>i. i < 8 \<Longrightarrow> pr_state (procs k ! i) \<noteq> Free \<Longrightarrow> user_mode (pr_context (procs k ! i))"
    "\<And>i. i < 64 \<Longrightarrow> unat (irq_owners k ! i) < 8"
    "user_mode (frame k) \<Longrightarrow> pr_state (procs k ! unat (current_pid k)) = Running"
    "\<And>i. \<not> user_mode (frame k) \<Longrightarrow> i < 8 \<Longrightarrow> pr_state (procs k ! i) \<noteq> Running"
  shows "kernel_inv k"
  unfolding kernel_inv_def by (intro conjI allI impI) (fact assms | (rule assms; assumption))+

text \<open>What the invariant looks at; anything that keeps these keeps the invariant.\<close>

lemma kernel_inv_cong:
  assumes "kernel_inv k" "procs k' = procs k" "current_pid k' = current_pid k" "satp k' = satp k"
    "irq_owners k' = irq_owners k" "tf_sstatus (frame k') = tf_sstatus (frame k)"
  shows "kernel_inv k'"
  using assms by (simp add: kernel_inv_def user_mode_def)

lemma user_trapD:
  assumes "user_trap k"
  shows "kernel_inv k" "user_mode (frame k)" "0 < unat (current_pid k)" "unat (current_pid k) < 8"
    "pr_state (procs k ! unat (current_pid k)) = Running"
    "satp k = pr_satp (procs k ! unat (current_pid k))" "length (procs k) = 8" "current_pid k \<noteq> 0"
proof -
  show k: "kernel_inv k" and u: "user_mode (frame k)" using assms by (simp_all add: user_trap_def)
  note K = kernel_invD [OF k]
  show "unat (current_pid k) < 8" "length (procs k) = 8" by (rule K)+
  show r: "pr_state (procs k ! unat (current_pid k)) = Running" by (rule K(9) [OF u])
  show "satp k = pr_satp (procs k ! unat (current_pid k))" by (rule K(6) [OF K(3) r])
  show p: "0 < unat (current_pid k)"
    using r K(4) by (cases "unat (current_pid k)") auto
  show "current_pid k \<noteq> 0" using p by auto
qed

lemma user_mode_update [simp]:
  "user_mode (f\<lparr>tf_a0 := v\<rparr>) = user_mode f" "user_mode (f\<lparr>tf_a1 := v\<rparr>) = user_mode f"
  "user_mode (f\<lparr>tf_a2 := v\<rparr>) = user_mode f" "user_mode (f\<lparr>tf_a3 := v\<rparr>) = user_mode f"
  "user_mode (f\<lparr>tf_sepc := v\<rparr>) = user_mode f"
  by (simp_all add: user_mode_def)

lemma advance_sel [simp]:
  "procs (advance k) = procs k" "current_pid (advance k) = current_pid k" "satp (advance k) = satp k"
  "irq_owners (advance k) = irq_owners k" "ticks (advance k) = ticks k" "dev (advance k) = dev k"
  "ram (advance k) = ram k" "page_bitmap (advance k) = page_bitmap k" "kernel_satp (advance k) = kernel_satp k"
  "frame (advance k) = (frame k)\<lparr>tf_sepc := tf_sepc (frame k) + 4\<rparr>"
  by (simp_all add: advance_def)

lemma user_trap_advance [simp]: "user_trap (advance k) = user_trap k"
  by (simp add: user_trap_def kernel_inv_def user_mode_def)

lemma kernel_inv_set_a0 [simp]: "kernel_inv (set_a0 v k) = kernel_inv k"
  by (simp add: kernel_inv_def)

lemma kernel_inv_advance [simp]: "kernel_inv (advance k) = kernel_inv k"
  by (simp add: kernel_inv_def)

lemma get_proc_in [simp]: "unat pid < length (procs k) \<Longrightarrow> get_proc k pid = Some (procs k ! unat pid)"
  by (simp add: get_proc_def)

lemma upd_proc_in [simp]:
  "unat pid < length (procs k) \<Longrightarrow>
   upd_proc pid f k = Some (k\<lparr>procs := (procs k)[unat pid := f (procs k ! unat pid)]\<rparr>)"
  by (simp add: upd_proc_def)

end
