(* ===== verification/Sched.thy ===== *)
theory Sched
  imports Process
begin

unbundle bit_operations_syntax

text \<open>
  \<open>sched.rs\<close>: round-robin selection and context switching.  The four entry points are
  \<open>sys_yield\<close>, \<open>preempt\<close>, \<open>schedule_from_idle\<close> and \<open>schedule\<close>; the last is what every blocking
  syscall ends in.  The locale \<open>scheduler\<close> is the contract those syscalls rely on.
\<close>

section \<open>Model\<close>

text \<open>
  The scans of the process table: the first index of the list whose process satisfies the test,
  or \<open>0\<close>, which is what the \<open>let mut next = 0; for ... break\<close> loops compute.
\<close>

fun find_proc :: "(process \<Rightarrow> bool) \<Rightarrow> process list \<Rightarrow> usize list \<Rightarrow> usize option" where
  "find_proc P ps [] = Some 0"
| "find_proc P ps (i # is) = do {
     p \<leftarrow> idx ps (unat i);
     if P p then Some i else find_proc P ps is
   }"

definition is_ready :: "process \<Rightarrow> bool" where
  "is_ready p \<longleftrightarrow> pr_state p = Ready"

definition is_alive :: "process \<Rightarrow> bool" where
  "is_alive p \<longleftrightarrow> pr_state p \<noteq> Free"

text \<open>\<open>((current - 1 + offset) % (MAX_PROCS - 1)) + 1\<close> for \<open>offset\<close> in \<open>1..n\<close>.\<close>

definition rr_order :: "usize \<Rightarrow> nat \<Rightarrow> usize list" where
  "rr_order current n =
     map (\<lambda>offset. ((current - 1 + of_nat offset) mod (MAX_PROCS - 1)) + 1) [1..<n]"

definition all_pids :: "usize list" where
  "all_pids = map of_nat [1..<unat MAX_PROCS]"

text \<open>Load the next process: frame, state, \<open>CURRENT_PID\<close> and page table.\<close>

definition switch_to :: "usize \<Rightarrow> kernel \<Rightarrow> kernel option" where
  "switch_to next k = do {
     p \<leftarrow> get_proc k next;
     k \<leftarrow> upd_proc next (\<lambda>p. p\<lparr>pr_state := Running\<rparr>) (k\<lparr>frame := pr_context p\<rparr>);
     Some (k\<lparr>current_pid := next, satp := pr_satp p\<rparr>)
   }"

text \<open>Return to the kernel code at \<open>pc\<close> in supervisor mode: SPP and SPIE set.\<close>

definition return_to_kernel :: "usize \<Rightarrow> kernel \<Rightarrow> kernel" where
  "return_to_kernel pc k =
     k\<lparr>frame := (frame k)\<lparr>tf_sstatus := push_bit 8 1 OR push_bit 5 1, tf_sepc := pc\<rparr>\<rparr>"

definition schedule :: "kcfg \<Rightarrow> kernel \<Rightarrow> usize \<Rightarrow> kernel option" where
  "schedule cfg k blocked_pid = do {
     k \<leftarrow> upd_proc blocked_pid (\<lambda>p. p\<lparr>pr_context := frame k\<rparr>) k;
     next \<leftarrow> find_proc is_ready (procs k) (rr_order blocked_pid (unat MAX_PROCS));
     if next = 0 then do {
       alive \<leftarrow> find_proc is_alive (procs k) all_pids;
       assert_that (alive \<noteq> 0);
       Some (return_to_kernel (idle_pc cfg) (k\<lparr>current_pid := 0, satp := kernel_satp k\<rparr>))
     } else switch_to next k
   }"

definition sys_yield :: "kcfg \<Rightarrow> kernel \<Rightarrow> kernel option" where
  "sys_yield cfg k =
     (let k = advance k; current = current_pid k
      in if current = 0 then Some k
         else do {
           found \<leftarrow> find_proc is_ready (procs k) (rr_order current (unat (MAX_PROCS - 1)));
           if found = 0 then Some (set_a0 0 k)
           else do {
             k \<leftarrow> upd_proc current (\<lambda>p. p\<lparr>pr_state := Ready\<rparr>) k;
             k \<leftarrow> schedule cfg k current;
             Some (set_a0 0 k)
           }
         })"

definition preempt :: "kernel \<Rightarrow> kernel option" where
  "preempt k =
     (let current = current_pid k
      in if current = 0 then Some k
         else do {
           next \<leftarrow> find_proc is_ready (procs k) (rr_order current (unat (MAX_PROCS - 1)));
           if next = 0 then Some k
           else do {
             k \<leftarrow> upd_proc current (\<lambda>p. p\<lparr>pr_context := frame k\<rparr>) k;
             k \<leftarrow> upd_proc current (\<lambda>p. p\<lparr>pr_state := Ready\<rparr>) k;
             switch_to next k
           }
         })"

definition schedule_from_idle :: "kernel \<Rightarrow> kernel option" where
  "schedule_from_idle k = do {
     next \<leftarrow> find_proc is_ready (procs k) all_pids;
     if next = 0 then Some k else switch_to next k
   }"

section \<open>The scans\<close>

text \<open>A scan over process numbers is a search for the first match.\<close>

lemma find_proc_find:
  assumes "\<forall>i \<in> set ns. 0 < i \<and> i < length ps" "length ps = 8"
  shows "find_proc P ps (map of_nat ns) =
    Some (case find (\<lambda>i. P (ps ! i)) ns of None \<Rightarrow> 0 | Some i \<Rightarrow> of_nat i)"
  using assms
proof (induction ns)
  case (Cons i ns)
  then have "unat (of_nat i :: usize) = i" by (intro unat_of_nat_small) simp
  then show ?case using Cons by simp
qed simp

lemma find_Some_in: "find P xs = Some x \<Longrightarrow> x \<in> set xs \<and> P x"
  by (auto simp: find_Some_iff)

lemma all_pids_map: "all_pids = map of_nat [1..<8]"
  by (simp add: all_pids_def MAX_PROCS_def)

text \<open>The round-robin order on \<open>1..7\<close> in plain arithmetic.\<close>

definition cyc :: "nat \<Rightarrow> nat \<Rightarrow> nat" where
  "cyc c off = (c - 1 + off) mod 7 + 1"

lemma cyc_range: "0 < cyc c off" "cyc c off < 8"
  unfolding cyc_def by (simp, rule order_le_less_trans [of _ 7], simp_all add: Suc_leI)

lemma cyc_tables:
  "\<forall>c \<in> set [1..<8]. cyc c ` set [1..<8] = set [1..<8]"
  "\<forall>c \<in> set [1..<8]. cyc c 7 = c"
  by code_simp+

lemma MAX_PROCS_unats: "unat MAX_PROCS = 8" "unat (MAX_PROCS - 1) = 7"
  by (simp_all add: MAX_PROCS_def)

lemma rr_order_cyc:
  assumes "0 < unat c" "unat c < 8" "n \<le> 8"
  shows "rr_order c n = map of_nat (map (cyc (unat c)) [1..<n])"
  unfolding rr_order_def map_map comp_def
proof (rule map_cong [OF refl])
  fix off assume "off \<in> set [1..<n]"
  then have o: "off < 8" using assms(3) by auto
  have c1: "unat (c - 1) = unat c - 1" using assms(1) by (subst unat_sub) (simp_all add: word_le_nat_alt)
  have "unat (of_nat off :: usize) = off" using o by (intro unat_of_nat_small) simp
  then have "unat (c - 1 + of_nat off) = unat c - 1 + off"
    using assms c1 o by (subst unat_add_small) simp_all
  then have m: "unat ((c - 1 + of_nat off) mod (MAX_PROCS - 1)) = (unat c - 1 + off) mod 7"
    by (simp add: unat_mod MAX_PROCS_def)
  have "(unat c - 1 + off) mod 7 < 7" by simp
  then have "unat ((c - 1 + of_nat off) mod (MAX_PROCS - 1) + 1) = cyc (unat c) off"
    using m unfolding cyc_def by (subst unat_add_small) simp_all
  moreover have "unat (of_nat (cyc (unat c) off) :: usize) = cyc (unat c) off"
    using cyc_range(2) [of "unat c" off] by (intro unat_of_nat_small) simp
  ultimately show "(c - 1 + of_nat off) mod (MAX_PROCS - 1) + 1 = of_nat (cyc (unat c) off)"
    by (simp only: word_unat_eq_iff)
qed

section \<open>Specification of the policy\<close>

text \<open>The first ready process after \<open>c\<close> in the cyclic order, \<open>c\<close> itself last.\<close>

definition next_ready :: "process_state list \<Rightarrow> nat \<Rightarrow> nat option" where
  "next_ready sts c = find (\<lambda>i. sts ! i = Ready) (map (cyc c) [1..<8])"

definition states :: "kernel \<Rightarrow> process_state list" where
  "states k = map pr_state (procs k)"

text \<open>The scheduler of the specification: the process that runs next, or 0, and the new states.\<close>

definition sched_spec :: "nat \<Rightarrow> process_state list \<Rightarrow> nat \<times> process_state list" where
  "sched_spec b sts = (case next_ready sts b of None \<Rightarrow> (0, sts) | Some n \<Rightarrow> (n, sts[n := Running]))"

lemma next_ready_Some: "next_ready sts c = Some n \<Longrightarrow> 0 < n \<and> n < 8 \<and> sts ! n = Ready"
  using cyc_range by (auto simp: next_ready_def dest!: find_Some_in)

lemma next_ready_None:
  assumes "next_ready sts c = None" "0 < c" "c < 8" "0 < i" "i < 8"
  shows "sts ! i \<noteq> Ready"
proof -
  have c: "c \<in> set [1..<8]" and i: "i \<in> set [1..<8]" using assms by auto
  then have "i \<in> cyc c ` set [1..<8]" using cyc_tables(1) by blast
  then show ?thesis using assms(1) by (auto simp: next_ready_def find_None_iff)
qed

lemma states_nth: "i < length (procs k) \<Longrightarrow> states k ! i = pr_state (procs k ! i)"
  by (simp add: states_def)

lemma find_cong_set: "(\<And>x. x \<in> set xs \<Longrightarrow> P x = Q x) \<Longrightarrow> find P xs = find Q xs"
  by (induction xs) simp_all

lemma scan_rr:
  assumes "0 < unat c" "unat c < 8" "length ps = 8"
  shows "find_proc is_ready ps (rr_order c (unat MAX_PROCS)) =
    Some (case next_ready (map pr_state ps) (unat c) of None \<Rightarrow> 0 | Some i \<Rightarrow> of_nat i)"
proof -
  have r: "\<forall>i \<in> set (map (cyc (unat c)) [1..<8]). 0 < i \<and> i < length ps" using cyc_range assms(3) by auto
  have "find (\<lambda>i. is_ready (ps ! i)) (map (cyc (unat c)) [1..<8]) = next_ready (map pr_state ps) (unat c)"
    unfolding next_ready_def using r by (intro find_cong_set) (auto simp: is_ready_def)
  then show ?thesis
    unfolding MAX_PROCS_unats rr_order_cyc [OF assms(1,2) order_refl] find_proc_find [OF r assms(3)] by simp
qed

lemma find_snoc: "find P (xs @ [x]) = (case find P xs of None \<Rightarrow> if P x then Some x else None | Some y \<Rightarrow> Some y)"
  by (induction xs) auto

text \<open>\<open>preempt\<close> and \<open>sys_yield\<close> stop one short of the caller, who is not ready anyway.\<close>

lemma scan_rr_others:
  assumes "0 < unat c" "unat c < 8" "length ps = 8" "pr_state (ps ! unat c) \<noteq> Ready"
  shows "find_proc is_ready ps (rr_order c (unat (MAX_PROCS - 1))) =
    Some (case next_ready (map pr_state ps) (unat c) of None \<Rightarrow> 0 | Some i \<Rightarrow> of_nat i)"
proof -
  have r: "\<forall>i \<in> set (map (cyc (unat c)) [1..<7]). 0 < i \<and> i < length ps" using cyc_range assms(3) by auto
  have seven: "cyc (unat c) 7 = unat c" using cyc_tables(2) assms(1,2) by auto
  have "[1..<8] = [1..<7] @ [7::nat]" by (simp add: upt_rec)
  then have "next_ready (map pr_state ps) (unat c) =
    find (\<lambda>i. map pr_state ps ! i = Ready) (map (cyc (unat c)) [1..<7])"
    unfolding next_ready_def using assms(2-4) seven by (simp add: find_snoc split: option.splits)
  moreover have "find (\<lambda>i. map pr_state ps ! i = Ready) (map (cyc (unat c)) [1..<7]) =
    find (\<lambda>i. is_ready (ps ! i)) (map (cyc (unat c)) [1..<7])"
    using r by (intro find_cong_set) (auto simp: is_ready_def)
  moreover have rr: "rr_order c 7 = map of_nat (map (cyc (unat c)) [1..<7])"
    by (rule rr_order_cyc [OF assms(1,2)]) simp
  ultimately show ?thesis
    unfolding MAX_PROCS_unats rr find_proc_find [OF r assms(3)] by (simp only:)
qed

lemma scan_all:
  assumes "length ps = 8"
  shows "find_proc P ps all_pids = Some (case find (\<lambda>i. P (ps ! i)) [1..<8] of None \<Rightarrow> 0 | Some i \<Rightarrow> of_nat i)"
  unfolding all_pids_map using assms by (intro find_proc_find) auto

section \<open>Switching\<close>

definition resume :: "nat \<Rightarrow> kernel \<Rightarrow> kernel" where
  "resume n k = k\<lparr>frame := pr_context (procs k ! n),
     procs := (procs k)[n := (procs k ! n)\<lparr>pr_state := Running\<rparr>],
     current_pid := of_nat n, satp := pr_satp (procs k ! n)\<rparr>"

definition park :: "usize \<Rightarrow> kernel \<Rightarrow> kernel" where
  "park pc k = return_to_kernel pc (k\<lparr>current_pid := 0, satp := kernel_satp k\<rparr>)"

definition save :: "nat \<Rightarrow> kernel \<Rightarrow> kernel" where
  "save b k = k\<lparr>procs := (procs k)[b := (procs k ! b)\<lparr>pr_context := frame k\<rparr>]\<rparr>"

lemma resume_sel [simp]:
  "frame (resume n k) = pr_context (procs k ! n)" "current_pid (resume n k) = of_nat n"
  "procs (resume n k) = (procs k)[n := (procs k ! n)\<lparr>pr_state := Running\<rparr>]"
  "satp (resume n k) = pr_satp (procs k ! n)" "irq_owners (resume n k) = irq_owners k"
  "ram (resume n k) = ram k" "page_bitmap (resume n k) = page_bitmap k"
  "kernel_satp (resume n k) = kernel_satp k" "ticks (resume n k) = ticks k" "dev (resume n k) = dev k"
  by (simp_all add: resume_def)

lemma park_sel [simp]:
  "procs (park pc k) = procs k" "current_pid (park pc k) = 0" "satp (park pc k) = kernel_satp k"
  "irq_owners (park pc k) = irq_owners k" "ram (park pc k) = ram k" "page_bitmap (park pc k) = page_bitmap k"
  "kernel_satp (park pc k) = kernel_satp k" "ticks (park pc k) = ticks k" "dev (park pc k) = dev k"
  "tf_sepc (frame (park pc k)) = pc"
  by (simp_all add: park_def return_to_kernel_def)

lemma save_sel [simp]:
  "procs (save b k) = (procs k)[b := (procs k ! b)\<lparr>pr_context := frame k\<rparr>]"
  "current_pid (save b k) = current_pid k" "satp (save b k) = satp k" "frame (save b k) = frame k"
  "irq_owners (save b k) = irq_owners k" "ram (save b k) = ram k" "page_bitmap (save b k) = page_bitmap k"
  "kernel_satp (save b k) = kernel_satp k" "ticks (save b k) = ticks k" "dev (save b k) = dev k"
  by (simp_all add: save_def)

lemma states_save [simp]: "states (save b k) = states k"
  by (cases "b < length (procs k)") (simp_all add: states_def map_update list_update_same_conv list_update_beyond)

lemma switch_to_resume: "n < 8 \<Longrightarrow> length (procs k) = 8 \<Longrightarrow> switch_to (of_nat n) k = Some (resume n k)"
  by (simp add: switch_to_def resume_def unat_of_nat_small)

lemma unat_pid: "n < 8 \<Longrightarrow> unat (of_nat n :: usize) = n"
  by (rule unat_of_nat_small) simp

lemma of_nat_pid_neq_0: "0 < n \<Longrightarrow> n < 8 \<Longrightarrow> (of_nat n :: usize) \<noteq> 0"
  using unat_pid [of n] by auto

text \<open>What \<open>schedule\<close> computes.\<close>

lemma schedule_eq:
  assumes "0 < unat b" "unat b < 8" "length (procs k) = 8" "pr_state (procs k ! unat b) \<noteq> Free"
  shows "schedule cfg k b =
    Some (case next_ready (states k) (unat b) of
            Some n \<Rightarrow> resume n (save (unat b) k) | None \<Rightarrow> park (idle_pc cfg) (save (unat b) k))"
proof -
  let ?k = "save (unat b) k"
  have up: "upd_proc b (\<lambda>p. p\<lparr>pr_context := frame k\<rparr>) k = Some ?k" using assms by (simp add: save_def)
  have l: "length (procs ?k) = 8" using assms(3) by simp
  have s: "map pr_state (procs ?k) = states k" using states_save [of "unat b" k] unfolding states_def by simp
  have al: "\<exists>i. find_proc is_alive (procs ?k) all_pids = Some i \<and> i \<noteq> 0"
  proof -
    have "unat b \<in> set [1..<8] \<and> is_alive (procs ?k ! unat b)"
      using assms by (auto simp: is_alive_def)
    then obtain i where i: "find (\<lambda>i. is_alive (procs ?k ! i)) [1..<8] = Some i"
      by (cases "find (\<lambda>i. is_alive (procs ?k ! i)) [1..<8]") (auto simp: find_None_iff)
    then have "0 < i \<and> i < 8" by (auto dest!: find_Some_in)
    then have "(of_nat i :: usize) \<noteq> 0" using of_nat_pid_neq_0 by blast
    then show ?thesis using i scan_all [OF l, of is_alive] by auto
  qed
  show ?thesis
  proof (cases "next_ready (states k) (unat b)")
    case None
    then show ?thesis
      using al up scan_rr [OF assms(1,2) l] s by (auto simp: schedule_def park_def)
  next
    case (Some n)
    then have n: "0 < n" "n < 8" using next_ready_Some by blast+
    then have "(of_nat n :: usize) \<noteq> 0" using of_nat_pid_neq_0 by blast
    then show ?thesis
      using Some up scan_rr [OF assms(1,2) l] s switch_to_resume [OF n(2) l] by (simp add: schedule_def)
  qed
qed

section \<open>Between two processes\<close>

text \<open>
  A state in which no process is marked \<open>Running\<close>: the current one has just been demoted to a
  blocked, ready or free state, and the next one is not chosen yet.
\<close>

definition kernel_parked :: "kernel \<Rightarrow> bool" where
  "kernel_parked k \<longleftrightarrow>
     length (procs k) = 8 \<and> length (irq_owners k) = 64 \<and> pr_state (procs k ! 0) = Free \<and>
     (\<forall>i < 8. pr_state (procs k ! i) \<noteq> Running) \<and>
     (\<forall>i < 8. pr_state (procs k ! i) \<noteq> Free \<longrightarrow> user_mode (pr_context (procs k ! i))) \<and>
     (\<forall>i < 64. unat (irq_owners k ! i) < 8)"

lemma kernel_parkedD:
  assumes "kernel_parked k"
  shows "length (procs k) = 8" "length (irq_owners k) = 64" "pr_state (procs k ! 0) = Free"
    "\<And>i. i < 8 \<Longrightarrow> pr_state (procs k ! i) \<noteq> Running"
    "\<And>i. i < 8 \<Longrightarrow> pr_state (procs k ! i) \<noteq> Free \<Longrightarrow> user_mode (pr_context (procs k ! i))"
    "\<And>i. i < 64 \<Longrightarrow> unat (irq_owners k ! i) < 8"
  using assms by (simp_all add: kernel_parked_def)

lemma park_supervisor [simp]: "\<not> user_mode (frame (park pc k))"
  by (simp add: park_def return_to_kernel_def user_mode_def)

lemma park_inv: "kernel_parked k \<Longrightarrow> kernel_inv (park pc k)"
  using kernel_parkedD [of k] by (intro kernel_invI) auto

lemma resume_inv:
  assumes pk: "kernel_parked k" and n: "n < 8" and r: "pr_state (procs k ! n) = Ready"
  shows "kernel_inv (resume n k)" "user_mode (frame (resume n k))"
proof -
  note P = kernel_parkedD [OF pk]
  show um: "user_mode (frame (resume n k))" using P(5) [OF n] r by simp
  have n0: "n \<noteq> 0" using r P(3) by (cases n) auto
  have ps: "procs (resume n k) ! i = (if i = n then (procs k ! n)\<lparr>pr_state := Running\<rparr> else procs k ! i)" for i
    using P(1) n by (cases "i = n") simp_all
  have cp: "unat (current_pid (resume n k)) = n" using n by (simp add: unat_pid)
  show "kernel_inv (resume n k)"
    by (rule kernel_invI; (unfold ps cp)?) (use P n r um n0 in \<open>auto split: if_splits\<close>)
qed

lemma save_parked:
  assumes "kernel_parked k" "user_mode (frame k)"
  shows "kernel_parked (save b k)"
proof -
  have ps: "procs (save b k) ! i = (if i = b then (procs k ! b)\<lparr>pr_context := frame k\<rparr> else procs k ! i)"
    if "i < 8" for i
    using that kernel_parkedD(1) [OF assms(1)] by (cases "i = b") simp_all
  have l: "length (procs (save b k)) = 8" using kernel_parkedD(1) [OF assms(1)] by simp
  show ?thesis using kernel_parkedD [OF assms(1)] assms(2) by (simp add: kernel_parked_def ps l del: save_sel(1))
qed

text \<open>Demoting the running process parks the kernel.\<close>

lemma demote_parked:
  assumes ut: "user_trap k" and c: "current_pid k = c"
    and ps: "procs k' = (procs k)[unat c := p]" "irq_owners k' = irq_owners k"
    and p: "pr_state p \<noteq> Running" "user_mode (pr_context p) \<or> pr_state p = Free"
  shows "kernel_parked k'"
proof -
  note U = user_trapD [OF ut] and K = kernel_invD [OF user_trapD(1) [OF ut]]
  show ?thesis
    unfolding kernel_parked_def ps using K(1,2,4,5,7,8) U(3,4) p c
    by (auto simp: nth_list_update)
qed

text \<open>
  The contract of \<open>schedule\<close> that the blocking syscalls rely on: from a parked state, for a blocked
  process that is alive, it does not panic and re-establishes the invariant; the state it started
  from keeps everything but the scheduler's own variables.
\<close>

locale scheduler =
  fixes sched :: "kernel \<Rightarrow> usize \<Rightarrow> kernel option"
  assumes sched_total: "kernel_parked k \<Longrightarrow> user_mode (frame k) \<Longrightarrow> 0 < unat b \<Longrightarrow> unat b < 8 \<Longrightarrow>
      pr_state (procs k ! unat b) \<noteq> Free \<Longrightarrow> \<exists>k'. sched k b = Some k' \<and> kernel_inv k'"
    and sched_frame: "kernel_parked k \<Longrightarrow> user_mode (frame k) \<Longrightarrow> 0 < unat b \<Longrightarrow> unat b < 8 \<Longrightarrow>
      pr_state (procs k ! unat b) \<noteq> Free \<Longrightarrow> sched k b = Some k' \<Longrightarrow>
      ram k' = ram k \<and> page_bitmap k' = page_bitmap k \<and> kernel_satp k' = kernel_satp k \<and>
      irq_owners k' = irq_owners k \<and> dev k' = dev k \<and> ticks k' = ticks k"
    and sched_procs: "kernel_parked k \<Longrightarrow> user_mode (frame k) \<Longrightarrow> 0 < unat b \<Longrightarrow> unat b < 8 \<Longrightarrow>
      pr_state (procs k ! unat b) \<noteq> Free \<Longrightarrow> sched k b = Some k' \<Longrightarrow> i < 8 \<Longrightarrow>
      procs k' ! i = procs (save (unat b) k) ! i \<or>
      pr_state (procs k ! i) = Ready \<and> procs k' ! i = (procs (save (unat b) k) ! i)\<lparr>pr_state := Running\<rparr>"
begin

text \<open>Blocking the current process: set its entry, then schedule.\<close>

lemma block_current:
  assumes ut: "user_trap k" and k': "procs k' = (procs k)[unat (current_pid k) := p]"
      "irq_owners k' = irq_owners k" "user_mode (frame k')"
    and p: "pr_state p \<noteq> Running" "pr_state p \<noteq> Free" "user_mode (pr_context p)"
  shows "\<exists>k''. sched k' (current_pid k) = Some k'' \<and> kernel_inv k''"
proof (rule sched_total)
  note U = user_trapD [OF ut]
  show "kernel_parked k'" by (rule demote_parked [OF ut refl k'(1,2)]) (use p in auto)
  show "pr_state (procs k' ! unat (current_pid k)) \<noteq> Free" using U(4,7) p k'(1) by simp
qed (use user_trapD [OF ut] k' in simp_all)

text \<open>A process that is neither blocked by this call nor chosen keeps its whole entry.\<close>

lemma block_others:
  assumes ut: "user_trap k" and k': "procs k' = (procs k)[unat (current_pid k) := p]"
      "irq_owners k' = irq_owners k" "user_mode (frame k')"
    and p: "pr_state p \<noteq> Running" "pr_state p \<noteq> Free" "user_mode (pr_context p)"
    and s: "sched k' (current_pid k) = Some k''"
    and i: "i < 8" "i \<noteq> unat (current_pid k)" "pr_state (procs k ! i) \<noteq> Ready"
  shows "procs k'' ! i = procs k ! i"
proof -
  note U = user_trapD [OF ut]
  have pk: "kernel_parked k'" by (rule demote_parked [OF ut refl k'(1,2)]) (use p in auto)
  have nf: "pr_state (procs k' ! unat (current_pid k)) \<noteq> Free" using U(4,7) p k'(1) by simp
  have eq: "procs (save (unat (current_pid k)) k') ! i = procs k ! i" "procs k' ! i = procs k ! i"
    using i k'(1) by simp_all
  from sched_procs [OF pk k'(3) U(3,4) nf s i(1)] i(3) show ?thesis unfolding eq by blast
qed

end

lemma schedule_inv:
  assumes "kernel_parked k" "user_mode (frame k)" "0 < unat b" "unat b < 8" "pr_state (procs k ! unat b) \<noteq> Free"
  shows "\<exists>k'. schedule cfg k b = Some k' \<and> kernel_inv k'"
proof -
  have sp: "kernel_parked (save (unat b) k)" using assms(1,2) by (rule save_parked)
  note eq = schedule_eq [OF assms(3,4) kernel_parkedD(1) [OF assms(1)] assms(5), of cfg]
  show ?thesis
  proof (cases "next_ready (states k) (unat b)")
    case None
    then show ?thesis using eq park_inv [OF sp] by simp
  next
    case (Some n)
    then have n: "n < 8" "states k ! n = Ready" using next_ready_Some by blast+
    then have "pr_state (procs (save (unat b) k) ! n) = Ready"
      using states_nth [of n "save (unat b) k"] kernel_parkedD(1) [OF sp] by simp
    then show ?thesis using eq Some resume_inv(1) [OF sp n(1)] by simp
  qed
qed

interpretation rr: scheduler "schedule cfg"
proof
  fix k k' :: kernel and b :: usize
  assume A: "kernel_parked k" "user_mode (frame k)" "0 < unat b" "unat b < 8" "pr_state (procs k ! unat b) \<noteq> Free"
  note len = kernel_parkedD(1) [OF A(1)] and eq = schedule_eq [OF A(3,4) kernel_parkedD(1) [OF A(1)] A(5), of cfg]
  show "\<exists>k'. schedule cfg k b = Some k' \<and> kernel_inv k'" by (rule schedule_inv [OF A])
  assume s: "schedule cfg k b = Some k'"
  show "ram k' = ram k \<and> page_bitmap k' = page_bitmap k \<and> kernel_satp k' = kernel_satp k \<and>
      irq_owners k' = irq_owners k \<and> dev k' = dev k \<and> ticks k' = ticks k"
    using s eq by (auto split: option.splits)
  fix i :: nat assume i: "i < 8"
  show "procs k' ! i = procs (save (unat b) k) ! i \<or>
      pr_state (procs k ! i) = Ready \<and> procs k' ! i = (procs (save (unat b) k) ! i)\<lparr>pr_state := Running\<rparr>"
  proof (cases "next_ready (states k) (unat b)")
    case None
    then show ?thesis using s eq by auto
  next
    case (Some n)
    then have n: "n < 8" "states k ! n = Ready" using next_ready_Some by blast+
    have k': "k' = resume n (save (unat b) k)" using s eq Some by simp
    show ?thesis
      using n states_nth [of n k] i len unfolding k' by (cases "i = n") (simp_all add: nth_list_update)
  qed
qed

section \<open>Preemption, yield and the idle loop\<close>

text \<open>Marking the current process ready in the table.\<close>

definition unrun :: "kernel \<Rightarrow> kernel" where
  "unrun k = k\<lparr>procs := (procs k)[unat (current_pid k) := (procs k ! unat (current_pid k))\<lparr>pr_state := Ready\<rparr>]\<rparr>"

lemma unrun_sel [simp]:
  "procs (unrun k) = (procs k)[unat (current_pid k) := (procs k ! unat (current_pid k))\<lparr>pr_state := Ready\<rparr>]"
  "current_pid (unrun k) = current_pid k" "frame (unrun k) = frame k" "irq_owners (unrun k) = irq_owners k"
  "satp (unrun k) = satp k" "dev (unrun k) = dev k" "ram (unrun k) = ram k" "ticks (unrun k) = ticks k"
  "page_bitmap (unrun k) = page_bitmap k" "kernel_satp (unrun k) = kernel_satp k"
  by (simp_all add: unrun_def)

lemma unrun_save_parked:
  assumes ut: "user_trap k"
  shows "kernel_parked (save (unat (current_pid k)) (unrun k))"
proof (rule save_parked)
  note U = user_trapD [OF ut] and K = kernel_invD [OF user_trapD(1) [OF ut]]
  show "kernel_parked (unrun k)"
    by (rule demote_parked [OF ut refl unrun_sel(1,4)]) (use U(4,5) K(7) in auto)
  show "user_mode (frame (unrun k))" using U(2) by simp
qed

lemma states_unrun: "states (unrun k) = (states k)[unat (current_pid k) := Ready]"
  by (simp add: states_def map_update)

text \<open>The running process sees the same next process whether it is marked ready or not.\<close>

lemma cyc_only_self: "\<forall>c \<in> set [1..<8]. \<forall>off \<in> set [1..<7]. cyc c off \<noteq> c"
  by code_simp

lemma next_ready_unrun:
  assumes ut: "user_trap k" and n: "next_ready (states k) (unat (current_pid k)) = Some n"
  shows "next_ready (states (unrun k)) (unat (current_pid k)) = Some n" "n \<noteq> unat (current_pid k)"
proof -
  let ?c = "unat (current_pid k)"
  note U = user_trapD [OF ut]
  have c: "?c \<in> set [1..<8]" using U(3,4) by auto
  have run: "states k ! ?c = Running" using U(4,5,7) by (simp add: states_nth)
  then show nc: "n \<noteq> ?c" using next_ready_Some [OF n] by auto
  have seven: "cyc ?c 7 = ?c" using cyc_tables(2) c by blast
  have split: "[1..<8] = [1..<7] @ [7::nat]" by (simp add: upt_rec)
  have fn: "find (\<lambda>i. states k ! i = Ready) (map (cyc ?c) [1..<7]) = Some n"
    using n run seven unfolding next_ready_def split map_append by (simp add: find_snoc split: option.splits)
  have others: "i \<noteq> ?c" if "i \<in> set (map (cyc ?c) [1..<7])" for i
    using that cyc_only_self c by auto
  have "find (\<lambda>i. states (unrun k) ! i = Ready) (map (cyc ?c) [1..<7]) = Some n"
    unfolding fn [symmetric] states_unrun
    by (rule find_cong_set) (simp add: nth_list_update_neq others [symmetric])
  then show "next_ready (states (unrun k)) ?c = Some n"
    unfolding next_ready_def split map_append by (simp add: find_snoc)
qed

text \<open>A switch away from a process that stays ready.\<close>

definition rotate_to :: "nat \<Rightarrow> kernel \<Rightarrow> kernel" where
  "rotate_to n k = resume n (save (unat (current_pid k)) (unrun k))"

lemma rotate_to_inv:
  assumes ut: "user_trap k" and n: "next_ready (states k) (unat (current_pid k)) = Some n"
  shows "kernel_inv (rotate_to n k)" "user_mode (frame (rotate_to n k))"
proof -
  have nn: "n < 8" "states k ! n = Ready" using next_ready_Some [OF n] by auto
  have nc: "n \<noteq> unat (current_pid k)" by (rule next_ready_unrun [OF ut n])
  have "pr_state (procs (save (unat (current_pid k)) (unrun k)) ! n) = Ready"
    using nn nc user_trapD(7) [OF ut] by (simp add: states_nth)
  from resume_inv [OF unrun_save_parked [OF ut] nn(1) this]
  show "kernel_inv (rotate_to n k)" "user_mode (frame (rotate_to n k))"
    by (simp_all only: rotate_to_def)
qed

lemma process_swap: "p\<lparr>pr_state := s, pr_context := c\<rparr> = p\<lparr>pr_context := c, pr_state := s\<rparr>"
  by simp

lemma preempt_eq:
  assumes ut: "user_trap k"
  shows "preempt k = Some (case next_ready (states k) (unat (current_pid k)) of
    None \<Rightarrow> k | Some n \<Rightarrow> rotate_to n k)"
proof -
  note U = user_trapD [OF ut]
  have scan: "find_proc is_ready (procs k) (rr_order (current_pid k) (unat (MAX_PROCS - 1))) =
    Some (case next_ready (states k) (unat (current_pid k)) of None \<Rightarrow> 0 | Some i \<Rightarrow> of_nat i)"
    unfolding states_def using U(3,4,5,7) by (intro scan_rr_others) simp_all
  show ?thesis
  proof (cases "next_ready (states k) (unat (current_pid k))")
    case None
    then show ?thesis using scan U(8) by (simp add: preempt_def Let_def)
  next
    case (Some n)
    then have n: "0 < n" "n < 8" using next_ready_Some by blast+
    have sw: "switch_to (of_nat n) (save (unat (current_pid k)) (unrun k)) = Some (rotate_to n k)"
      unfolding rotate_to_def using U(7) by (intro switch_to_resume [OF n(2)]) simp
    have eq: "save (unat (current_pid k)) (unrun k) = k\<lparr>procs := (procs k)[unat (current_pid k) :=
        (procs k ! unat (current_pid k))\<lparr>pr_context := frame k, pr_state := Ready\<rparr>]\<rparr>"
      using U(4,7) by (simp add: save_def unrun_def process_swap)
    show ?thesis
      using scan Some n of_nat_pid_neq_0 [OF n] sw U(4,7,8) by (simp add: preempt_def Let_def eq)
  qed
qed

lemma sys_yield_eq:
  assumes ut: "user_trap k"
  shows "sys_yield cfg k = Some (set_a0 0 (case next_ready (states k) (unat (current_pid k)) of
    None \<Rightarrow> advance k | Some n \<Rightarrow> rotate_to n (advance k)))"
proof -
  let ?k = "advance k"
  have ut': "user_trap ?k" using ut by simp
  note U = user_trapD [OF ut']
  have sts: "states ?k = states k" by (simp add: states_def)
  have scan: "find_proc is_ready (procs ?k) (rr_order (current_pid ?k) (unat (MAX_PROCS - 1))) =
    Some (case next_ready (states ?k) (unat (current_pid ?k)) of None \<Rightarrow> 0 | Some i \<Rightarrow> of_nat i)"
    unfolding states_def using U(3,4,5,7) by (intro scan_rr_others) simp_all
  show ?thesis
  proof (cases "next_ready (states k) (unat (current_pid k))")
    case None
    then show ?thesis using scan sts U(8) by (simp add: sys_yield_def Let_def)
  next
    case (Some n)
    then have n: "0 < n" "n < 8" using next_ready_Some by blast+
    have up: "upd_proc (current_pid ?k) (\<lambda>p. p\<lparr>pr_state := Ready\<rparr>) ?k = Some (unrun ?k)"
      using U(4,7) by (simp add: unrun_def)
    have "next_ready (states (unrun ?k)) (unat (current_pid ?k)) = Some n"
      by (rule next_ready_unrun [OF ut']) (simp add: sts Some)
    then have "schedule cfg (unrun ?k) (current_pid ?k) = Some (rotate_to n ?k)"
      using schedule_eq [of "current_pid ?k" "unrun ?k" cfg] U(3,4,7) by (simp add: rotate_to_def)
    then show ?thesis
      using scan sts Some up of_nat_pid_neq_0 [OF n] U(8) by (simp add: sys_yield_def Let_def)
  qed
qed

lemma schedule_from_idle_eq:
  assumes "length (procs k) = 8"
  shows "schedule_from_idle k = Some (case find (\<lambda>i. is_ready (procs k ! i)) [1..<8] of
    None \<Rightarrow> k | Some n \<Rightarrow> resume n k)"
proof (cases "find (\<lambda>i. is_ready (procs k ! i)) [1..<8]")
  case None
  then show ?thesis using scan_all [OF assms, of is_ready] by (simp add: schedule_from_idle_def)
next
  case (Some n)
  then have n: "0 < n" "n < 8" by (auto dest!: find_Some_in)
  show ?thesis
    using scan_all [OF assms, of is_ready] Some switch_to_resume [OF n(2) assms] of_nat_pid_neq_0 [OF n]
    by (simp add: schedule_from_idle_def)
qed

section \<open>Properties\<close>

text \<open>A table with three ready processes, for the concrete instances below.\<close>

definition user_frame :: "usize \<Rightarrow> trap_frame" where
  "user_frame pc = TrapFrame_zero\<lparr>tf_sstatus := push_bit 5 1, tf_sepc := pc\<rparr>"

definition proc_at :: "nat \<Rightarrow> process_state \<Rightarrow> process" where
  "proc_at i st = Process_empty\<lparr>pr_pid := of_nat i, pr_state := st, pr_satp := of_nat (100 + i),
     pr_context := (user_frame (of_nat (1000 * i)))\<lparr>tf_a0 := of_nat (40 + i)\<rparr>\<rparr>"

definition demo_kernel :: "process_state list \<Rightarrow> nat \<Rightarrow> kernel" where
  "demo_kernel sts c =
     \<lparr>ram = (\<lambda>_. 0), page_bitmap = new_allocator 0x80300000 256, kernel_satp = 7, satp = of_nat (100 + c),
      procs = map2 proc_at [0..<8] sts, current_pid = of_nat c, irq_owners = replicate 64 0, ticks = 0,
      frame = user_frame 0x50000000,
      dev = \<lparr>plic_regs = (\<lambda>_. 0), plic_done = [], uart_regs = (\<lambda>_. 0), uart_rx = [], uart_tx = [],
             timer_cmp = 0\<rparr>\<rparr>"

definition demo_cfg :: kcfg where
  "demo_cfg = \<lparr>lay = qemu_layout, idle_pc = 0x80200100, exit_pc = 0x80200200\<rparr>"

lemma demo_kernel_inv:
  assumes "length sts = 8" "sts ! 0 = Free" "0 < c" "c < 8"
    "\<forall>i < 8. sts ! i = Running \<longleftrightarrow> i = c"
  shows "user_trap (demo_kernel sts c)"
proof -
  let ?k = "demo_kernel sts c"
  have p: "procs ?k ! i = proc_at i (sts ! i)" if "i < 8" for i
    using that assms(1) by (simp add: demo_kernel_def)
  have um: "user_mode (user_frame pc)" for pc by (simp add: user_mode_def user_frame_def TrapFrame_zero_def)
  have "kernel_inv ?k"
  proof (rule kernel_invI)
    show "length (procs ?k) = 8" using assms(1) by (simp add: demo_kernel_def)
    show "unat (current_pid ?k) < 8" using assms(4) by (simp add: demo_kernel_def unat_pid)
  qed (use assms p um in \<open>auto simp: proc_at_def unat_pid demo_kernel_def\<close>)
  then show ?thesis using um by (simp add: user_trap_def demo_kernel_def)
qed

text \<open>
  C38. Blocking on the scheduler refines the round-robin specification: whenever the kernel is
  between two processes and the blocked one is not free, \<open>schedule\<close> does not panic (so the
  \<open>Deadlock\<close> panic is unreachable), the process that runs next and the process states afterwards
  are those of the cyclic search that starts after the blocked process, the blocked process keeps
  its registers in the table, the frame and page table are those of the chosen process, or those
  of the idle loop if nothing is ready, and the kernel invariant holds again.
\<close>

theorem schedule_refines:
  assumes "kernel_parked k" "user_mode (frame k)" "0 < unat b" "unat b < 8" "pr_state (procs k ! unat b) \<noteq> Free"
  shows "\<exists>k'. schedule cfg k b = Some k' \<and> kernel_inv k' \<and>
    (unat (current_pid k'), states k') = sched_spec (unat b) (states k) \<and>
    pr_context (procs k' ! unat b) = frame k \<and>
    (if current_pid k' = 0
     then satp k' = kernel_satp k \<and> tf_sepc (frame k') = idle_pc cfg \<and> \<not> user_mode (frame k')
     else satp k' = pr_satp (procs k' ! unat (current_pid k')) \<and>
          frame k' = pr_context (procs k' ! unat (current_pid k')))"
proof -
  note len = kernel_parkedD(1) [OF assms(1)]
  note eq = schedule_eq [OF assms(3,4) len assms(5), of cfg]
  obtain k' where k': "schedule cfg k b = Some k'" "kernel_inv k'" using schedule_inv [OF assms] by blast
  show ?thesis
  proof (cases "next_ready (states k) (unat b)")
    case None
    then have "k' = park (idle_pc cfg) (save (unat b) k)" using k' eq by simp
    moreover have "states (park (idle_pc cfg) (save (unat b) k)) = states k"
      using states_save [of "unat b" k] by (simp add: states_def)
    ultimately show ?thesis using k' None assms(4) len by (simp add: sched_spec_def)
  next
    case (Some n)
    then have n: "0 < n" "n < 8" using next_ready_Some by blast+
    have e: "k' = resume n (save (unat b) k)" using Some k' eq by simp
    have "states (resume n (save (unat b) k)) = (states k)[n := Running]"
      using states_save [of "unat b" k] by (simp add: states_def map_update)
    then show ?thesis
      using k' Some n assms(4) len of_nat_pid_neq_0 [OF n]
      by (simp add: e sched_spec_def unat_pid nth_list_update)
  qed
qed

definition parked_demo :: kernel where
  "parked_demo = demo_kernel [Free, Ready, BlockedRecv, Free, Ready, Free, Free, Free] 2"

lemma parked_demo_facts:
  "kernel_parked parked_demo" "user_mode (frame parked_demo)" "pr_state (procs parked_demo ! 2) \<noteq> Free"
  "states parked_demo = [Free, Ready, BlockedRecv, Free, Ready, Free, Free, Free]"
proof -
  show st: "states parked_demo = [Free, Ready, BlockedRecv, Free, Ready, Free, Free, Free]"
    by (simp add: parked_demo_def demo_kernel_def states_def proc_at_def upt_rec)
  have p: "procs parked_demo ! i = proc_at i ([Free, Ready, BlockedRecv, Free, Ready, Free, Free, Free] ! i)"
    if "i < 8" for i
    using that by (simp add: parked_demo_def demo_kernel_def)
  have um: "user_mode (user_frame pc)" for pc by (simp add: user_mode_def user_frame_def TrapFrame_zero_def)
  have cases: "i = 0 \<or> i = 1 \<or> i = 2 \<or> i = 3 \<or> i = 4 \<or> i = 5 \<or> i = 6 \<or> i = 7" if "i < 8" for i :: nat
    using that by linarith
  show "kernel_parked parked_demo"
    unfolding kernel_parked_def
    by (auto simp: p proc_at_def um dest!: cases) (simp_all add: parked_demo_def demo_kernel_def)
  show "user_mode (frame parked_demo)" using um by (simp add: parked_demo_def demo_kernel_def)
  show "pr_state (procs parked_demo ! 2) \<noteq> Free" by (simp add: p proc_at_def)
qed

theorem schedule_refines_witness:
  "\<exists>k'. schedule demo_cfg parked_demo 2 = Some k' \<and> kernel_inv k' \<and> current_pid k' = 4"
proof -
  have nr: "next_ready [Free, Ready, BlockedRecv, Free, Ready, Free, Free, Free] 2 = Some 4" by code_simp
  obtain k' where k': "schedule demo_cfg parked_demo 2 = Some k'" "kernel_inv k'"
    "(unat (current_pid k'), states k') = sched_spec 2 (states parked_demo)"
    using schedule_refines [of parked_demo 2 demo_cfg] parked_demo_facts by auto
  then have "unat (current_pid k') = 4" by (simp add: sched_spec_def parked_demo_facts nr)
  then have "current_pid k' = 4" by (simp add: word_unat_eq_iff)
  with k' show ?thesis by blast
qed

text \<open>
  The timer ticks of a run of user slices: the list gives the registers with which each slice is
  interrupted, and the result the kernel states after the ticks.
\<close>

fun run_slices :: "trap_frame list \<Rightarrow> kernel \<Rightarrow> kernel list option" where
  "run_slices [] k = Some []"
| "run_slices (f # fs) k = do {
     k' \<leftarrow> preempt (k\<lparr>frame := f\<rparr>);
     ks \<leftarrow> run_slices fs k';
     Some (k' # ks)
   }"

lemma user_trap_frame: "user_trap k \<Longrightarrow> user_mode f \<Longrightarrow> user_trap (k\<lparr>frame := f\<rparr>)"
  by (simp add: user_trap_def kernel_inv_def)

lemma preempt_user:
  assumes "user_trap k"
  shows "\<exists>k'. preempt k = Some k' \<and> user_trap k'"
proof (cases "next_ready (states k) (unat (current_pid k))")
  case None
  then show ?thesis using preempt_eq [OF assms] assms by simp
next
  case (Some n)
  then show ?thesis using preempt_eq [OF assms] rotate_to_inv [OF assms Some] by (simp add: user_trap_def)
qed

lemma run_slices_total: "user_trap k \<Longrightarrow> \<forall>f \<in> set fs. user_mode f \<Longrightarrow> \<exists>ks. run_slices fs k = Some ks"
proof (induction fs arbitrary: k)
  case (Cons f fs)
  then obtain k' where k': "preempt (k\<lparr>frame := f\<rparr>) = Some k'" "user_trap k'"
    using preempt_user user_trap_frame by fastforce
  obtain ks where "run_slices fs k' = Some ks" using Cons k'(2) by auto
  with k'(1) show ?case by simp
qed simp

lemma cyc_add: "0 < c \<Longrightarrow> m \<le> d \<Longrightarrow> cyc (cyc c m) (d - m) = cyc c d"
proof -
  assume "0 < c" "m \<le> d"
  then have "c - 1 + d = c - 1 + m + (d - m)" by simp
  then show ?thesis unfolding cyc_def by (simp only: mod_add_left_eq diff_add_inverse2)
qed

lemma cyc_reach: "\<forall>c \<in> set [1..<8]. \<forall>j \<in> set [1..<8]. c \<noteq> j \<longrightarrow> (\<exists>d \<in> set [1..<7]. cyc c d = j)"
  by code_simp

text \<open>The next process lies at or before any ready process in the cyclic order.\<close>

lemma next_ready_before:
  assumes "sts ! cyc c d = Ready" "0 < d" "d < 8"
  shows "\<exists>m. 0 < m \<and> m \<le> d \<and> next_ready sts c = Some (cyc c m)"
proof -
  let ?xs = "map (cyc c) [1..<8]"
  have nth: "?xs ! i = cyc c (Suc i)" if "i < 7" for i using that by simp
  have "cyc c d \<in> set ?xs" using assms by auto
  then obtain n where n: "find (\<lambda>i. sts ! i = Ready) ?xs = Some n"
    using assms(1) by (cases "find (\<lambda>i. sts ! i = Ready) ?xs") (auto simp: find_None_iff)
  then obtain i where i: "i < 7" "n = ?xs ! i" "\<forall>j < i. sts ! (?xs ! j) \<noteq> Ready"
    by (auto simp: find_Some_iff simp del: nth_map)
  have "i \<le> d - 1" using i(3) nth [of "d - 1"] assms by (cases "d - 1 < i") (auto simp del: nth_map)
  then show ?thesis using n i nth [OF i(1)] assms(2) by (intro exI [of _ "Suc i"]) (auto simp: next_ready_def)
qed

lemma slices_reach:
  assumes "user_trap k" "\<forall>f \<in> set fs. user_mode f" "run_slices fs k = Some ks"
    and "0 < d" "d \<le> 6" "d \<le> length fs"
    and "j = cyc (unat (current_pid k)) d" "states k ! j = Ready"
  shows "\<exists>k' \<in> set ks. unat (current_pid k') = j"
  using assms
proof (induction fs arbitrary: k ks d)
  case (Cons f fs)
  let ?k = "k\<lparr>frame := f\<rparr>" and ?c = "unat (current_pid k)"
  have ut: "user_trap ?k" by (rule user_trap_frame) (use Cons.prems in simp_all)
  have s: "states ?k = states k" by (simp add: states_def)
  obtain m where m: "0 < m" "m \<le> d" "next_ready (states k) ?c = Some (cyc ?c m)"
    using next_ready_before [of "states k" ?c d] Cons.prems by auto
  have nr: "next_ready (states ?k) (unat (current_pid ?k)) = Some (cyc ?c m)" using m(3) s by simp
  let ?n = "cyc ?c m" and ?k' = "rotate_to (cyc ?c m) ?k"
  have pe: "preempt ?k = Some ?k'" using preempt_eq [OF ut] nr by simp
  then obtain ks' where ks: "run_slices fs ?k' = Some ks'" "ks = ?k' # ks'" using Cons.prems(3) by (auto split: bind_splits)
  have cp: "unat (current_pid ?k') = ?n" using cyc_range(2) by (simp add: rotate_to_def unat_pid)
  show ?case
  proof (cases "m = d")
    case True
    then show ?thesis using ks cp Cons.prems(7) by auto
  next
    case False
    then have md: "0 < d - m" "m \<le> d" using m by auto
    have ut': "user_trap ?k'" using rotate_to_inv [OF ut nr] by (simp add: user_trap_def)
    have c: "0 < ?c" "?c < 8" using user_trapD(3,4) [OF Cons.prems(1)] by auto
    have j: "j = cyc ?n (d - m)" using cyc_add [OF c(1) md(2)] Cons.prems(7) by simp
    have n: "?n \<in> set [1..<8]" using cyc_range [of ?c m] by auto
    have jn: "j \<noteq> ?n" using cyc_only_self n md Cons.prems(5) m(1) j by fastforce
    have jc: "j < 8" using cyc_range(2) Cons.prems(7) by simp
    have "states ?k' ! j = Ready"
      using Cons.prems(8) jn jc user_trapD(4,7) [OF Cons.prems(1)]
      by (simp add: rotate_to_def states_def nth_list_update)
    from Cons.IH [OF ut' _ ks(1) md(1) _ _ _ this] show ?thesis
      using Cons.prems m(1) j cp ks(2) by auto
  qed
qed simp

text \<open>
  C39. Timer preemption starves nobody: whatever registers the interrupted processes have, a ready
  process is running after at most six timer ticks, and no tick panics.
\<close>

theorem preempt_fair:
  assumes "user_trap k" "0 < j" "j < 8" "pr_state (procs k ! j) = Ready"
    and "length fs = 6" "\<forall>f \<in> set fs. user_mode f"
  shows "\<exists>ks. run_slices fs k = Some ks \<and> (\<exists>k' \<in> set ks. unat (current_pid k') = j)"
proof -
  note U = user_trapD [OF assms(1)]
  obtain ks where ks: "run_slices fs k = Some ks" using run_slices_total assms(1,6) by blast
  have "unat (current_pid k) \<noteq> j" using U(5) assms(4) by auto
  then obtain d where d: "0 < d" "d \<le> 6" "j = cyc (unat (current_pid k)) d"
  proof -
    have "unat (current_pid k) \<in> set [1..<8]" "j \<in> set [1..<8]" using U(3,4) assms(2,3) by auto
    then obtain d where "d \<in> set [1..<7]" "cyc (unat (current_pid k)) d = j"
      using cyc_reach \<open>unat (current_pid k) \<noteq> j\<close> by blast
    then show ?thesis by (intro that [of d]) auto
  qed
  have "states k ! j = Ready" using assms(3,4) U(7) by (simp add: states_nth)
  from slices_reach [OF assms(1,6) ks d(1,2) _ d(3) this] ks show ?thesis using assms(5) d(2) by auto
qed

definition fair_demo :: kernel where
  "fair_demo = demo_kernel [Free, Ready, Running, Ready, Ready, Free, BlockedRecv, Ready] 2"

lemma fair_demo_facts: "user_trap fair_demo" "pr_state (procs fair_demo ! 1) = Ready"
proof -
  have "\<forall>i < 8. [Free, Ready, Running, Ready, Ready, Free, BlockedRecv, Ready] ! i = Running \<longleftrightarrow> i = 2"
    by (simp add: All_less_Suc numeral_eq_Suc)
  then show "user_trap fair_demo" unfolding fair_demo_def by (intro demo_kernel_inv) simp_all
  show "pr_state (procs fair_demo ! 1) = Ready" by (simp add: fair_demo_def demo_kernel_def proc_at_def upt_rec)
qed

theorem preempt_fair_witness:
  "\<exists>ks. run_slices (replicate 6 (user_frame 4)) fair_demo = Some ks \<and> (\<exists>k'. k' \<in> set ks \<and> unat (current_pid k') = 1)"
  using preempt_fair [OF fair_demo_facts(1) _ _ fair_demo_facts(2), of "replicate 6 (user_frame 4)"]
  by (auto simp: user_mode_def user_frame_def TrapFrame_zero_def)

text \<open>
  What \<open>sys_yield\<close> does when another process is ready: it switches to the next process in
  cyclic order, and then writes the result 0 into the frame, which by now holds the registers of
  that process. The process that resumes finds its \<open>a0\<close> overwritten, and the yielding process is
  saved without its result.
\<close>

theorem sys_yield_switch:
  assumes "user_trap k" "next_ready (states k) (unat (current_pid k)) = Some n"
  shows "\<exists>k'. sys_yield cfg k = Some k' \<and> kernel_inv k' \<and> current_pid k' = of_nat n \<and>
    frame k' = (pr_context (procs k ! n))\<lparr>tf_a0 := 0\<rparr> \<and>
    procs k' ! unat (current_pid k) = (procs k ! unat (current_pid k))
      \<lparr>pr_state := Ready, pr_context := (frame k)\<lparr>tf_sepc := tf_sepc (frame k) + 4\<rparr>\<rparr>"
proof -
  let ?k = "rotate_to n (advance k)"
  note U = user_trapD [OF assms(1)]
  have nr: "next_ready (states (advance k)) (unat (current_pid (advance k))) = Some n"
    using assms(2) by (simp add: states_def)
  have nc: "n \<noteq> unat (current_pid k)" by (rule next_ready_unrun [OF assms])
  have "kernel_inv (set_a0 0 ?k)"
    using rotate_to_inv(1) [OF _ nr] assms(1) by simp
  then show ?thesis
    using sys_yield_eq [OF assms(1), of cfg] assms(2) nc U(4,7) by (simp add: rotate_to_def)
qed

theorem sys_yield_switch_witness:
  "\<exists>k'. sys_yield demo_cfg fair_demo = Some k' \<and> current_pid k' = 3 \<and> tf_a0 (frame k') = 0 \<and>
     tf_a0 (pr_context (procs fair_demo ! 3)) = 43"
proof -
  have st: "states fair_demo = [Free, Ready, Running, Ready, Ready, Free, BlockedRecv, Ready]"
    by (simp add: fair_demo_def demo_kernel_def states_def proc_at_def upt_rec)
  have c: "unat (current_pid fair_demo) = 2" by (simp add: fair_demo_def demo_kernel_def)
  have "next_ready (states fair_demo) (unat (current_pid fair_demo)) = Some 3"
    unfolding st c by code_simp
  from sys_yield_switch [OF fair_demo_facts(1) this, of demo_cfg] show ?thesis
    by (auto simp: fair_demo_def demo_kernel_def proc_at_def)
qed

end
