(* ===== verification/Peer.thy ===== *)
theory Peer
  imports Sched
begin

text \<open>
  What a kernel entry made on behalf of one process may do to the table entry of another.  The
  relation \<open>peer_step c\<close> lists the ways: a message handed to a receiver that waits for \<open>c\<close> or for
  anybody, the completion of a send, call or wait whose target is \<open>c\<close>, and the creation of a child
  in a free slot.  \<open>syscall_ok\<close> is the contract every syscall handler of the later theories is
  proved against: the kernel invariant, and peer steps only, for all processes but the caller.
\<close>

inductive peer_step :: "usize \<Rightarrow> process \<Rightarrow> process \<Rightarrow> bool" for c where
  peer_same: "peer_step c p p"
| peer_deliver: "pr_state p = BlockedRecv \<Longrightarrow> pr_ipc_target p = 0 \<or> pr_ipc_target p = c \<Longrightarrow>
    peer_step c p (p\<lparr>pr_context := (pr_context p)\<lparr>tf_a0 := m, tf_a1 := c\<rparr>, pr_state := Ready\<rparr>)"
| peer_deliver_call: "pr_state p = BlockedRecv \<Longrightarrow> pr_ipc_target p = 0 \<or> pr_ipc_target p = c \<Longrightarrow>
    peer_step c p (p\<lparr>pr_context := (pr_context p)\<lparr>tf_a0 := m, tf_a1 := c, tf_a2 := x, tf_a3 := y\<rparr>,
      pr_state := Ready\<rparr>)"
| peer_accept: "pr_state p = BlockedSend \<Longrightarrow> pr_ipc_target p = c \<Longrightarrow>
    peer_step c p (p\<lparr>pr_state := Ready, pr_context := (pr_context p)\<lparr>tf_a0 := 0\<rparr>\<rparr>)"
| peer_reply: "pr_state p = BlockedCall \<Longrightarrow> pr_ipc_target p = c \<Longrightarrow>
    peer_step c p (p\<lparr>pr_context := (pr_context p)\<lparr>tf_a0 := v\<rparr>, pr_state := Ready\<rparr>)"
| peer_wake: "pr_state p = BlockedWait \<Longrightarrow> pr_ipc_target p = c \<Longrightarrow>
    peer_step c p (p\<lparr>pr_context := (pr_context p)\<lparr>tf_a0 := v\<rparr>, pr_state := Ready\<rparr>)"
| peer_spawn: "pr_state p = Free \<Longrightarrow> pr_state q = Ready \<Longrightarrow> pr_parent q = c \<Longrightarrow>
    user_mode (pr_context q) \<Longrightarrow> peer_step c p q"

inductive_cases peer_stepE: "peer_step c p q"

lemma peer_step_inv:
  assumes "peer_step c p q" "pr_state p \<noteq> Running" "pr_state p \<noteq> Free \<longrightarrow> user_mode (pr_context p)"
  shows "pr_state q \<noteq> Running" "pr_state q \<noteq> Free \<longrightarrow> user_mode (pr_context q)"
  using assms by (cases rule: peer_step.cases; simp)+

definition dispatched :: "process \<Rightarrow> process \<Rightarrow> bool" where
  "dispatched p p' \<longleftrightarrow> p' = p \<or> pr_state p = Ready \<and> p' = p\<lparr>pr_state := Running\<rparr>"

definition peer_ok :: "usize \<Rightarrow> process \<Rightarrow> process \<Rightarrow> bool" where
  "peer_ok c p p' \<longleftrightarrow> (\<exists>q. peer_step c p q \<and> dispatched q p')"

definition syscall_ok :: "kernel \<Rightarrow> kernel \<Rightarrow> bool" where
  "syscall_ok k k' \<longleftrightarrow> kernel_inv k' \<and>
     (\<forall>i < 8. i \<noteq> unat (current_pid k) \<longrightarrow> peer_ok (current_pid k) (procs k ! i) (procs k' ! i))"

lemma peer_ok_refl [simp]: "peer_ok c p p"
  by (auto simp: peer_ok_def dispatched_def intro: peer_same)

lemma peer_ok_step: "peer_step c p q \<Longrightarrow> peer_ok c p q"
  by (auto simp: peer_ok_def dispatched_def)

lemma syscall_okD:
  assumes "syscall_ok k k'"
  shows "kernel_inv k'" "\<And>i. i < 8 \<Longrightarrow> i \<noteq> unat (current_pid k) \<Longrightarrow>
    peer_ok (current_pid k) (procs k ! i) (procs k' ! i)"
  using assms by (simp_all add: syscall_ok_def)

lemma syscall_ok_cong:
  "procs k = procs j \<Longrightarrow> current_pid k = current_pid j \<Longrightarrow> syscall_ok k k' = syscall_ok j k'"
  by (simp add: syscall_ok_def)

lemma syscall_ok_advance [simp]: "syscall_ok (advance k) k' = syscall_ok k k'"
  by (rule syscall_ok_cong) simp_all

text \<open>A handler that leaves the process table, \<open>CURRENT_PID\<close>, \<open>satp\<close> and the mode alone.\<close>

lemma syscall_local:
  assumes "kernel_inv k" "procs k' = procs k" "current_pid k' = current_pid k" "satp k' = satp k"
    "irq_owners k' = irq_owners k" "user_mode (frame k') = user_mode (frame k)"
  shows "syscall_ok k k'"
proof -
  have "kernel_inv k'" using assms by (simp add: kernel_inv_def)
  then show ?thesis using assms(2) by (simp add: syscall_ok_def)
qed

text \<open>A handler that takes one peer step.\<close>

lemma upd_other_trap:
  assumes ut: "user_trap k" and t: "0 < t" "t < 8" "t \<noteq> unat (current_pid k)"
    and q': "pr_state q \<noteq> Running" "pr_state q \<noteq> Free \<longrightarrow> user_mode (pr_context q)"
    and k': "procs k' = (procs k)[t := q]" "current_pid k' = current_pid k" "satp k' = satp k"
      "irq_owners k' = irq_owners k" "user_mode (frame k')"
  shows "user_trap k'"
proof -
  note U = user_trapD [OF ut] and K = kernel_invD [OF user_trapD(1) [OF ut]]
  have nth: "procs k' ! i = (if i = t then q else procs k ! i)" if "i < 8" for i
    using that U(7) by (simp add: k'(1) nth_list_update)
  have "kernel_inv k'"
  proof (rule kernel_invI)
    fix i :: nat assume i: "i < 8"
    show "pr_state (procs k' ! i) = Running \<Longrightarrow> i = unat (current_pid k')"
      using q'(1) K(5) [OF i] by (simp add: nth [OF i] k'(2) split: if_splits)
    show "pr_state (procs k' ! i) = Running \<Longrightarrow> satp k' = pr_satp (procs k' ! i)"
      using q'(1) K(6) [OF i] by (simp add: nth [OF i] k'(3) split: if_splits)
    show "pr_state (procs k' ! i) \<noteq> Free \<Longrightarrow> user_mode (pr_context (procs k' ! i))"
      using q'(2) K(7) [OF i] by (simp add: nth [OF i] split: if_splits)
  next
    show "pr_state (procs k' ! unat (current_pid k')) = Running"
      using U(5) t(3) by (simp add: nth [OF U(4)] k'(2))
  qed (use K(1-4,8) t k' in \<open>simp_all add: nth\<close>)
  then show ?thesis using k' by (simp add: user_trap_def)
qed

lemma upd_user_trap:
  assumes ut: "user_trap k" and t: "0 < t" "t < 8" "t \<noteq> unat (current_pid k)"
    and q: "peer_step c (procs k ! t) q"
    and k': "procs k' = (procs k)[t := q]" "current_pid k' = current_pid k" "satp k' = satp k"
      "irq_owners k' = irq_owners k" "user_mode (frame k')"
  shows "user_trap k'"
proof -
  note K = kernel_invD [OF user_trapD(1) [OF ut]]
  have st: "pr_state (procs k ! t) \<noteq> Running" using K(5) [OF t(2)] t(3) by blast
  have um: "pr_state (procs k ! t) \<noteq> Free \<longrightarrow> user_mode (pr_context (procs k ! t))" using K(7) [OF t(2)] by blast
  show ?thesis by (rule upd_other_trap [OF ut t peer_step_inv [OF q st um] k'])
qed

lemma syscall_peer:
  assumes ut: "user_trap k" and t: "0 < t" "t < 8" "t \<noteq> unat (current_pid k)"
    and q: "peer_step (current_pid k) (procs k ! t) q"
    and k': "procs k' = (procs k)[t := q]" "current_pid k' = current_pid k" "satp k' = satp k"
      "irq_owners k' = irq_owners k" "user_mode (frame k')"
  shows "syscall_ok k k'"
proof -
  have "kernel_inv k'" using upd_user_trap [OF assms] by (simp add: user_trap_def)
  moreover have "peer_ok (current_pid k) (procs k ! i) (procs k' ! i)" if "i < 8" for i
    using q user_trapD(7) [OF ut] that by (cases "i = t") (simp_all add: k'(1) peer_ok_step)
  ultimately show ?thesis by (simp add: syscall_ok_def)
qed

text \<open>A handler that blocks its caller, possibly after one peer step.\<close>

lemma block_dispatched:
  assumes ut: "user_trap k" and k': "procs k' = (procs k)[unat (current_pid k) := p]"
      "irq_owners k' = irq_owners k" "user_mode (frame k')"
    and p: "pr_state p \<noteq> Running" "pr_state p \<noteq> Free" "user_mode (pr_context p)"
    and s: "schedule cfg k' (current_pid k) = Some k''" and i: "i < 8" "i \<noteq> unat (current_pid k)"
  shows "dispatched (procs k ! i) (procs k'' ! i)"
proof -
  note U = user_trapD [OF ut]
  have pk: "kernel_parked k'" by (rule demote_parked [OF ut refl k'(1,2)]) (use p in auto)
  have nf: "pr_state (procs k' ! unat (current_pid k)) \<noteq> Free" using U(4,7) p k'(1) by simp
  have eq: "procs (save (unat (current_pid k)) k') ! i = procs k ! i" "procs k' ! i = procs k ! i"
    using i k'(1) by simp_all
  from rr.sched_procs [OF pk k'(3) U(3,4) nf s i(1)] show ?thesis unfolding eq dispatched_def by blast
qed

lemma syscall_block:
  assumes ut: "user_trap k1" and k1: "current_pid k1 = current_pid k"
      "\<And>i. i < 8 \<Longrightarrow> i \<noteq> unat (current_pid k) \<Longrightarrow> peer_step (current_pid k) (procs k ! i) (procs k1 ! i)"
    and k': "procs k' = (procs k1)[unat (current_pid k) := p]" "irq_owners k' = irq_owners k1" "user_mode (frame k')"
    and p: "pr_state p \<noteq> Running" "pr_state p \<noteq> Free" "user_mode (pr_context p)"
  shows "\<exists>k''. schedule cfg k' (current_pid k) = Some k'' \<and> syscall_ok k k''"
proof -
  have ps: "procs k' = (procs k1)[unat (current_pid k1) := p]" using k'(1) k1(1) by simp
  obtain k'' where s: "schedule cfg k' (current_pid k) = Some k''" "kernel_inv k''"
    using rr.block_current [OF ut ps k'(2,3) p] k1(1) by metis
  have "peer_ok (current_pid k) (procs k ! i) (procs k'' ! i)" if i: "i < 8" "i \<noteq> unat (current_pid k)" for i
    using block_dispatched [OF ut ps k'(2,3) p _ i(1)] s(1) i k1 unfolding peer_ok_def by metis
  then show ?thesis using s by (auto simp: syscall_ok_def)
qed

end
