(* ===== verification/Ipc.thy ===== *)
theory Ipc
  imports Peer
begin

text \<open>
  \<open>ipc.rs\<close>: synchronous rendezvous between processes, remote procedure calls, and interrupt
  notification.  The theorems say that the order in which the two sides arrive does not matter,
  that a call returns exactly what the server replies, and that every handler meets the contract
  \<open>syscall_ok\<close>.
\<close>

section \<open>Model\<close>

text \<open>The process waits for a message from \<open>current\<close> or from anyone.\<close>

definition waits_for :: "usize \<Rightarrow> process \<Rightarrow> bool" where
  "waits_for current p \<longleftrightarrow> pr_state p = BlockedRecv \<and> (pr_ipc_target p = 0 \<or> pr_ipc_target p = current)"

definition sys_call :: "kcfg \<Rightarrow> kernel \<Rightarrow> kernel option" where
  "sys_call cfg k =
     (let k = advance k; current = current_pid k; target_pid = tf_a0 (frame k); msg_value = tf_a1 (frame k);
          arg2 = tf_a2 (frame k); arg3 = tf_a3 (frame k)
      in if \<not> is_valid_ipc_target target_pid current then Some (set_a0 USIZE_MAX k)
         else do {
           t \<leftarrow> get_proc k target_pid;
           k \<leftarrow> if waits_for current t
               then upd_proc target_pid (\<lambda>p. p\<lparr>pr_context := (pr_context p)
                      \<lparr>tf_a0 := msg_value, tf_a1 := current, tf_a2 := arg2, tf_a3 := arg3\<rparr>,
                      pr_state := Ready\<rparr>) k
               else Some k;
           k \<leftarrow> upd_proc current (\<lambda>p. p\<lparr>pr_ipc_target := target_pid, pr_ipc_value := msg_value,
                  pr_ipc_arg2 := arg2, pr_ipc_arg3 := arg3, pr_state := BlockedCall\<rparr>) k;
           schedule cfg k current
         })"

definition sys_reply :: "kernel \<Rightarrow> kernel option" where
  "sys_reply k =
     (let k = advance k; current = current_pid k; target_pid = tf_a0 (frame k); reply_value = tf_a1 (frame k)
      in if \<not> is_valid_ipc_target target_pid current then Some (set_a0 USIZE_MAX k)
         else do {
           t \<leftarrow> get_proc k target_pid;
           if pr_state t = BlockedCall \<and> pr_ipc_target t = current then do {
             k \<leftarrow> upd_proc target_pid (\<lambda>p. p\<lparr>pr_context := (pr_context p)\<lparr>tf_a0 := reply_value\<rparr>,
                    pr_state := Ready\<rparr>) k;
             Some (set_a0 0 k)
           } else Some (set_a0 USIZE_MAX k)
         })"

definition sys_send :: "kcfg \<Rightarrow> kernel \<Rightarrow> kernel option" where
  "sys_send cfg k =
     (let k = advance k; current = current_pid k; target_pid = tf_a0 (frame k); msg_value = tf_a1 (frame k)
      in if \<not> is_valid_ipc_target target_pid current then Some (set_a0 USIZE_MAX k)
         else do {
           t \<leftarrow> get_proc k target_pid;
           if waits_for current t then do {
             k \<leftarrow> upd_proc target_pid (\<lambda>p. p\<lparr>pr_context := (pr_context p)
                    \<lparr>tf_a0 := msg_value, tf_a1 := current\<rparr>, pr_state := Ready\<rparr>) k;
             Some (set_a0 0 k)
           } else do {
             k \<leftarrow> upd_proc current (\<lambda>p. p\<lparr>pr_ipc_target := target_pid, pr_ipc_value := msg_value,
                    pr_state := BlockedSend\<rparr>) k;
             schedule cfg k current
           }
         })"

text \<open>A blocked sender or caller whose target is \<open>current\<close>, if \<open>from_pid\<close> admits it.\<close>

definition is_sender :: "usize \<Rightarrow> usize \<Rightarrow> usize \<Rightarrow> process \<Rightarrow> bool" where
  "is_sender current from_pid i p \<longleftrightarrow>
     (pr_state p = BlockedSend \<or> pr_state p = BlockedCall) \<and> pr_ipc_target p = current \<and>
     (from_pid = 0 \<or> from_pid = i)"

fun find_sender :: "usize \<Rightarrow> usize \<Rightarrow> process list \<Rightarrow> usize list \<Rightarrow> usize option" where
  "find_sender current from_pid ps [] = Some 0"
| "find_sender current from_pid ps (i # is) = do {
     p \<leftarrow> idx ps (unat i);
     if is_sender current from_pid i p then Some i else find_sender current from_pid ps is
   }"

definition sys_receive :: "kcfg \<Rightarrow> kernel \<Rightarrow> kernel option" where
  "sys_receive cfg k =
     (let k = advance k; current = current_pid k; from_pid = tf_a0 (frame k)
      in do {
        me \<leftarrow> get_proc k current;
        if pr_irq_pending me \<and> from_pid = 0 then do {
          k \<leftarrow> upd_proc current (\<lambda>p. p\<lparr>pr_irq_pending := False\<rparr>) k;
          Some (set_a1 0 (set_a0 (ucast (pr_irq_num me)) k))
        } else do {
          i \<leftarrow> find_sender current from_pid (procs k) all_pids;
          if i \<noteq> 0 then do {
            s \<leftarrow> get_proc k i;
            k \<leftarrow> if pr_state s = BlockedSend
                then upd_proc i (\<lambda>p. p\<lparr>pr_state := Ready, pr_context := (pr_context p)\<lparr>tf_a0 := 0\<rparr>\<rparr>) k
                else Some k;
            Some (set_a1 i (set_a0 (pr_ipc_value s) k))
          } else do {
            k \<leftarrow> upd_proc current (\<lambda>p. p\<lparr>pr_ipc_target := from_pid, pr_state := BlockedRecv\<rparr>) k;
            schedule cfg k current
          }
        }
      })"

definition irq_notify :: "u32 \<Rightarrow> usize \<Rightarrow> kernel \<Rightarrow> kernel option" where
  "irq_notify irq owner k = do {
     p \<leftarrow> get_proc k owner;
     if pr_state p = BlockedRecv
     then upd_proc owner (\<lambda>p. p\<lparr>pr_context := (pr_context p)\<lparr>tf_a0 := ucast irq, tf_a1 := 0\<rparr>,
            pr_state := Ready\<rparr>) k
     else upd_proc owner (\<lambda>p. p\<lparr>pr_irq_pending := True\<rparr>) k
   }"

section \<open>The handlers meet the contract\<close>

lemma error_ok: "user_trap k \<Longrightarrow> syscall_ok k (set_a0 v (advance k))"
  by (rule syscall_local) (simp_all add: user_trap_def)

text \<open>The entry a blocking call leaves in the table.\<close>

definition call_entry :: "usize \<Rightarrow> usize \<Rightarrow> usize \<Rightarrow> usize \<Rightarrow> process \<Rightarrow> process" where
  "call_entry t m x y p = p\<lparr>pr_ipc_target := t, pr_ipc_value := m, pr_ipc_arg2 := x, pr_ipc_arg3 := y,
     pr_state := BlockedCall\<rparr>"

definition send_entry :: "usize \<Rightarrow> usize \<Rightarrow> process \<Rightarrow> process" where
  "send_entry t m p = p\<lparr>pr_ipc_target := t, pr_ipc_value := m, pr_state := BlockedSend\<rparr>"

definition recv_entry :: "usize \<Rightarrow> process \<Rightarrow> process" where
  "recv_entry from p = p\<lparr>pr_ipc_target := from, pr_state := BlockedRecv\<rparr>"

lemma entry_sel [simp]:
  "pr_state (call_entry t m x y p) = BlockedCall" "pr_context (call_entry t m x y p) = pr_context p"
  "pr_state (send_entry t m p) = BlockedSend" "pr_context (send_entry t m p) = pr_context p"
  "pr_state (recv_entry f p) = BlockedRecv" "pr_context (recv_entry f p) = pr_context p"
  by (simp_all add: call_entry_def send_entry_def recv_entry_def)

text \<open>Blocking the caller after an optional peer step.\<close>

definition set_proc :: "nat \<Rightarrow> process \<Rightarrow> kernel \<Rightarrow> kernel" where
  "set_proc i p k = k\<lparr>procs := (procs k)[i := p]\<rparr>"

lemma set_proc_sel [simp]:
  "procs (set_proc i p k) = (procs k)[i := p]" "current_pid (set_proc i p k) = current_pid k"
  "satp (set_proc i p k) = satp k" "irq_owners (set_proc i p k) = irq_owners k"
  "frame (set_proc i p k) = frame k" "ram (set_proc i p k) = ram k" "dev (set_proc i p k) = dev k"
  "page_bitmap (set_proc i p k) = page_bitmap k" "kernel_satp (set_proc i p k) = kernel_satp k"
  "ticks (set_proc i p k) = ticks k"
  by (simp_all add: set_proc_def)

lemma set_proc_peer:
  assumes "user_trap k" "0 < t" "t < 8" "t \<noteq> unat (current_pid k)" "peer_step c (procs k ! t) q"
  shows "user_trap (set_proc t q k)"
  by (rule upd_user_trap [OF assms]) (use user_trapD [OF assms(1)] in simp_all)

lemma running_context: "user_trap k \<Longrightarrow> user_mode (pr_context (procs k ! unat (current_pid k)))"
  using user_trapD [of k] kernel_invD(7) [of k "unat (current_pid k)"] by auto

lemma block_self_ok:
  assumes ut: "user_trap k" and p: "pr_state p \<noteq> Running" "pr_state p \<noteq> Free"
      "pr_context p = pr_context (procs k ! unat (current_pid k))"
  shows "\<exists>k'. schedule cfg (set_proc (unat (current_pid k)) p k) (current_pid k) = Some k' \<and> syscall_ok k k'"
  by (rule syscall_block [OF ut, where p = p])
    (use p running_context [OF ut] user_trapD(2) [OF ut] in \<open>simp_all add: peer_same\<close>)

lemma block_peer_ok:
  assumes ut: "user_trap k" and t: "0 < t" "t < 8" "t \<noteq> unat (current_pid k)"
    and q: "peer_step (current_pid k) (procs k ! t) q"
    and p: "pr_state p \<noteq> Running" "pr_state p \<noteq> Free" "pr_context p = pr_context (procs k ! unat (current_pid k))"
  shows "\<exists>k'. schedule cfg (set_proc (unat (current_pid k)) p (set_proc t q k)) (current_pid k) = Some k' \<and>
    syscall_ok k k'"
proof (rule syscall_block [OF set_proc_peer [OF ut t q], where p = p])
  fix i :: nat assume "i < 8"
  then show "peer_step (current_pid k) (procs k ! i) (procs (set_proc t q k) ! i)"
    using q user_trapD(7) [OF ut] by (cases "i = t") (simp_all add: peer_same)
qed (use p running_context [OF ut] user_trapD(2) [OF ut] in simp_all)

text \<open>The branches of the handlers in the vocabulary of \<open>set_proc\<close>.\<close>

lemma upd_proc_set: "unat pid < 8 \<Longrightarrow> length (procs k) = 8 \<Longrightarrow>
  upd_proc pid f k = Some (set_proc (unat pid) (f (procs k ! unat pid)) k)"
  by (simp add: set_proc_def)

lemma sys_send_eq:
  assumes ut: "user_trap k"
  shows "sys_send cfg k =
    (let c = current_pid k; t = tf_a0 (frame k); m = tf_a1 (frame k); p = procs k ! unat t; k1 = advance k
     in if \<not> is_valid_ipc_target t c then Some (set_a0 USIZE_MAX k1)
        else if waits_for c p
        then Some (set_a0 0 (set_proc (unat t)
               (p\<lparr>pr_context := (pr_context p)\<lparr>tf_a0 := m, tf_a1 := c\<rparr>, pr_state := Ready\<rparr>) k1))
        else schedule cfg (set_proc (unat c) (send_entry t m (procs k ! unat c)) k1) c)"
  using user_trapD [OF ut]
  by (simp add: sys_send_def Let_def valid_target_unat send_entry_def set_proc_def)

lemma sys_call_eq:
  assumes ut: "user_trap k"
  shows "sys_call cfg k =
    (let c = current_pid k; t = tf_a0 (frame k); m = tf_a1 (frame k); x = tf_a2 (frame k); y = tf_a3 (frame k);
         p = procs k ! unat t; k1 = advance k; e = call_entry t m x y (procs k ! unat c)
     in if \<not> is_valid_ipc_target t c then Some (set_a0 USIZE_MAX k1)
        else if waits_for c p
        then schedule cfg (set_proc (unat c) e (set_proc (unat t) (p\<lparr>pr_context := (pr_context p)
               \<lparr>tf_a0 := m, tf_a1 := c, tf_a2 := x, tf_a3 := y\<rparr>, pr_state := Ready\<rparr>) k1)) c
        else schedule cfg (set_proc (unat c) e k1) c)"
  using user_trapD [OF ut]
  by (simp add: sys_call_def Let_def valid_target_unat call_entry_def set_proc_def)

lemma sys_reply_eq:
  assumes ut: "user_trap k"
  shows "sys_reply k =
    (let c = current_pid k; t = tf_a0 (frame k); p = procs k ! unat t; k1 = advance k
     in if is_valid_ipc_target t c \<and> pr_state p = BlockedCall \<and> pr_ipc_target p = c
        then Some (set_a0 0 (set_proc (unat t)
               (p\<lparr>pr_context := (pr_context p)\<lparr>tf_a0 := tf_a1 (frame k)\<rparr>, pr_state := Ready\<rparr>) k1))
        else Some (set_a0 USIZE_MAX k1))"
  using user_trapD [OF ut]
  by (simp add: sys_reply_def Let_def valid_target_unat set_proc_def)

text \<open>The search for a sender.\<close>

definition first_sender :: "usize \<Rightarrow> usize \<Rightarrow> process list \<Rightarrow> nat option" where
  "first_sender c from ps = find (\<lambda>i. is_sender c from (of_nat i) (ps ! i)) [1..<8]"

lemma find_sender_find:
  assumes "\<forall>i \<in> set ns. 0 < i \<and> i < 8" "length ps = 8"
  shows "find_sender c from ps (map of_nat ns) =
    Some (case find (\<lambda>i. is_sender c from (of_nat i) (ps ! i)) ns of None \<Rightarrow> 0 | Some i \<Rightarrow> of_nat i)"
  using assms by (induction ns) (simp_all add: unat_pid)

lemma find_sender_first:
  "length ps = 8 \<Longrightarrow> find_sender c from ps all_pids =
    Some (case first_sender c from ps of None \<Rightarrow> 0 | Some i \<Rightarrow> of_nat i)"
  unfolding all_pids_map first_sender_def by (rule find_sender_find) auto

lemma first_sender_Some: "first_sender c from ps = Some i \<Longrightarrow> 0 < i \<and> i < 8 \<and> is_sender c from (of_nat i) (ps ! i)"
  by (auto simp: first_sender_def dest!: find_Some_in)

lemma sys_receive_eq:
  assumes ut: "user_trap k"
  shows "sys_receive cfg k =
    (let c = current_pid k; from = tf_a0 (frame k); me = procs k ! unat c; k1 = advance k
     in if pr_irq_pending me \<and> from = 0
        then Some (set_a1 0 (set_a0 (ucast (pr_irq_num me)) (set_proc (unat c) (me\<lparr>pr_irq_pending := False\<rparr>) k1)))
        else case first_sender c from (procs k) of
          None \<Rightarrow> schedule cfg (set_proc (unat c) (recv_entry from me) k1) c
        | Some i \<Rightarrow> Some (set_a1 (of_nat i) (set_a0 (pr_ipc_value (procs k ! i))
            (if pr_state (procs k ! i) = BlockedSend
             then set_proc i ((procs k ! i)\<lparr>pr_state := Ready, pr_context := (pr_context (procs k ! i))\<lparr>tf_a0 := 0\<rparr>\<rparr>) k1
             else k1))))"
proof (cases "first_sender (current_pid k) (tf_a0 (frame k)) (procs k)")
  case None
  then show ?thesis
    using user_trapD [OF ut] find_sender_first [of "procs k" "current_pid k" "tf_a0 (frame k)"]
    by (simp add: sys_receive_def Let_def recv_entry_def set_proc_def)
next
  case (Some i)
  then have i: "0 < i" "i < 8" using first_sender_Some by blast+
  show ?thesis
    using user_trapD [OF ut] Some find_sender_first [of "procs k" "current_pid k" "tf_a0 (frame k)"] i
    by (simp add: sys_receive_def Let_def set_proc_def unat_pid of_nat_pid_neq_0 [OF i])
qed

lemma sys_send_ok:
  assumes ut: "user_trap k"
  shows "\<exists>k'. sys_send cfg k = Some k' \<and> syscall_ok k k'"
proof -
  let ?c = "current_pid k" and ?t = "tf_a0 (frame k)" and ?m = "tf_a1 (frame k)"
  let ?p = "procs k ! unat ?t"
  consider (bad) "\<not> is_valid_ipc_target ?t ?c" | (meet) "is_valid_ipc_target ?t ?c" "waits_for ?c ?p"
    | (wait) "is_valid_ipc_target ?t ?c" "\<not> waits_for ?c ?p" by blast
  then show ?thesis
  proof cases
    case bad
    then show ?thesis using sys_send_eq [OF ut, of cfg] error_ok [OF ut] by (simp add: Let_def)
  next
    case meet
    let ?q = "?p\<lparr>pr_context := (pr_context ?p)\<lparr>tf_a0 := ?m, tf_a1 := ?c\<rparr>, pr_state := Ready\<rparr>"
    have "peer_step ?c ?p ?q" using meet(2) by (intro peer_deliver) (simp_all add: waits_for_def)
    then have "syscall_ok k (set_a0 0 (set_proc (unat ?t) ?q (advance k)))"
      using meet(1) user_trapD(2) [OF ut]
      by (intro syscall_peer [OF ut, where t = "unat ?t" and q = ?q]) (simp_all add: valid_target_unat)
    then show ?thesis using sys_send_eq [OF ut, of cfg] meet by (simp add: Let_def)
  next
    case wait
    then show ?thesis
      using sys_send_eq [OF ut, of cfg] block_self_ok [of "advance k" "send_entry ?t ?m (procs k ! unat ?c)" cfg] ut
      by (simp add: Let_def)
  qed
qed

lemma sys_call_ok:
  assumes ut: "user_trap k"
  shows "\<exists>k'. sys_call cfg k = Some k' \<and> syscall_ok k k'"
proof -
  let ?c = "current_pid k" and ?t = "tf_a0 (frame k)" and ?m = "tf_a1 (frame k)"
  let ?x = "tf_a2 (frame k)" and ?y = "tf_a3 (frame k)" and ?p = "procs k ! unat (tf_a0 (frame k))"
  let ?e = "call_entry ?t ?m ?x ?y (procs k ! unat ?c)"
  consider (bad) "\<not> is_valid_ipc_target ?t ?c" | (meet) "is_valid_ipc_target ?t ?c" "waits_for ?c ?p"
    | (wait) "is_valid_ipc_target ?t ?c" "\<not> waits_for ?c ?p" by blast
  then show ?thesis
  proof cases
    case bad
    then show ?thesis using sys_call_eq [OF ut, of cfg] error_ok [OF ut] by (simp add: Let_def)
  next
    case meet
    let ?q = "?p\<lparr>pr_context := (pr_context ?p)\<lparr>tf_a0 := ?m, tf_a1 := ?c, tf_a2 := ?x, tf_a3 := ?y\<rparr>, pr_state := Ready\<rparr>"
    have "peer_step ?c ?p ?q" using meet(2) by (intro peer_deliver_call) (simp_all add: waits_for_def)
    then show ?thesis
      using sys_call_eq [OF ut, of cfg] block_peer_ok [of "advance k" "unat ?t" ?q ?e cfg] ut meet
      by (simp add: Let_def valid_target_unat)
  next
    case wait
    then show ?thesis
      using sys_call_eq [OF ut, of cfg] block_self_ok [of "advance k" ?e cfg] ut by (simp add: Let_def)
  qed
qed

lemma sys_reply_ok:
  assumes ut: "user_trap k"
  shows "\<exists>k'. sys_reply k = Some k' \<and> syscall_ok k k'"
proof -
  let ?c = "current_pid k" and ?t = "tf_a0 (frame k)"
  let ?p = "procs k ! unat ?t"
  show ?thesis
  proof (cases "is_valid_ipc_target ?t ?c \<and> pr_state ?p = BlockedCall \<and> pr_ipc_target ?p = ?c")
    case True
    let ?q = "?p\<lparr>pr_context := (pr_context ?p)\<lparr>tf_a0 := tf_a1 (frame k)\<rparr>, pr_state := Ready\<rparr>"
    have "peer_step ?c ?p ?q" using True by (intro peer_reply) simp_all
    then have "syscall_ok k (set_a0 0 (set_proc (unat ?t) ?q (advance k)))"
      using True user_trapD(2) [OF ut]
      by (intro syscall_peer [OF ut, where t = "unat ?t" and q = ?q]) (simp_all add: valid_target_unat)
    then show ?thesis using sys_reply_eq [OF ut] True by (simp add: Let_def)
  next
    case False
    then have "sys_reply k = Some (set_a0 USIZE_MAX (advance k))" using sys_reply_eq [OF ut] by (auto simp: Let_def)
    then show ?thesis using error_ok [OF ut] by blast
  qed
qed

text \<open>Changing fields of the caller's own entry that the invariant does not mention.\<close>

lemma own_entry_ok:
  assumes ut: "user_trap k" and p: "pr_state p = Running" "pr_satp p = pr_satp (procs k ! unat (current_pid k))"
      "pr_context p = pr_context (procs k ! unat (current_pid k))"
    and k': "procs k' = (procs k)[unat (current_pid k) := p]" "current_pid k' = current_pid k" "satp k' = satp k"
      "length (irq_owners k') = 64" "\<forall>i < 64. unat (irq_owners k' ! i) < 8" "user_mode (frame k')"
  shows "syscall_ok k k'"
proof -
  note U = user_trapD [OF ut] and K = kernel_invD [OF user_trapD(1) [OF ut]]
  have nth: "procs k' ! i = (if i = unat (current_pid k) then p else procs k ! i)" if "i < 8" for i
    using that U(7) by (simp add: k'(1) nth_list_update)
  have "kernel_inv k'"
  proof (rule kernel_invI)
    fix i :: nat assume i: "i < 8"
    show "pr_state (procs k' ! i) = Running \<Longrightarrow> i = unat (current_pid k')"
      using K(5) [OF i] by (simp add: nth [OF i] k'(2) split: if_splits)
    show "pr_state (procs k' ! i) = Running \<Longrightarrow> satp k' = pr_satp (procs k' ! i)"
      using p(2) U(6) K(6) [OF i] by (simp add: nth [OF i] k'(3) split: if_splits)
    show "pr_state (procs k' ! i) \<noteq> Free \<Longrightarrow> user_mode (pr_context (procs k' ! i))"
      using p(3) running_context [OF ut] K(7) [OF i] by (simp add: nth [OF i] split: if_splits)
  next
    show "pr_state (procs k' ! unat (current_pid k')) = Running"
      using p(1) by (simp add: nth [OF U(4)] k'(2))
  qed (use K(1,3,4) U(3) k' in \<open>simp_all add: nth\<close>)
  moreover have "peer_ok (current_pid k) (procs k ! i) (procs k' ! i)" if "i < 8" "i \<noteq> unat (current_pid k)" for i
    using that by (simp add: nth)
  ultimately show ?thesis by (simp add: syscall_ok_def)
qed

lemma sys_receive_ok:
  assumes ut: "user_trap k"
  shows "\<exists>k'. sys_receive cfg k = Some k' \<and> syscall_ok k k'"
proof -
  let ?c = "current_pid k" and ?from = "tf_a0 (frame k)" and ?me = "procs k ! unat (current_pid k)"
  note U = user_trapD [OF ut] and K = kernel_invD [OF user_trapD(1) [OF ut]]
  consider (irq) "pr_irq_pending ?me" "?from = 0"
    | (none) "\<not> (pr_irq_pending ?me \<and> ?from = 0)" "first_sender ?c ?from (procs k) = None"
    | (got) i where "\<not> (pr_irq_pending ?me \<and> ?from = 0)" "first_sender ?c ?from (procs k) = Some i"
    by blast
  then show ?thesis
  proof cases
    case irq
    have "syscall_ok k (set_a1 0 (set_a0 (ucast (pr_irq_num ?me))
        (set_proc (unat ?c) (?me\<lparr>pr_irq_pending := False\<rparr>) (advance k))))"
      by (rule own_entry_ok [OF ut, where p = "?me\<lparr>pr_irq_pending := False\<rparr>"]) (use U(2,5) K(2,8) in simp_all)
    then show ?thesis using sys_receive_eq [OF ut, of cfg] irq by (simp add: Let_def)
  next
    case none
    then show ?thesis
      using sys_receive_eq [OF ut, of cfg] block_self_ok [of "advance k" "recv_entry ?from ?me" cfg] ut
      by (simp add: Let_def del: de_Morgan_conj)
  next
    case (got i)
    then have i: "0 < i" "i < 8" "is_sender ?c ?from (of_nat i) (procs k ! i)" using first_sender_Some by blast+
    have ic: "i \<noteq> unat ?c" using i(3) U(5) by (auto simp: is_sender_def)
    let ?s = "procs k ! i"
    let ?q = "?s\<lparr>pr_state := Ready, pr_context := (pr_context ?s)\<lparr>tf_a0 := 0\<rparr>\<rparr>"
    have "syscall_ok k (set_a1 (of_nat i) (set_a0 (pr_ipc_value ?s)
        (if pr_state ?s = BlockedSend then set_proc i ?q (advance k) else advance k)))"
    proof (cases "pr_state ?s = BlockedSend")
      case True
      then have "peer_step ?c ?s ?q" using i(3) by (intro peer_accept) (simp_all add: is_sender_def)
      then show ?thesis
        using True i ic U(2) by (intro syscall_peer [OF ut, where t = i and q = ?q]) simp_all
    next
      case False
      then show ?thesis using U(1) by (intro syscall_local) simp_all
    qed
    then show ?thesis using sys_receive_eq [OF ut, of cfg] got by (simp add: Let_def del: de_Morgan_conj)
  qed
qed

lemma irq_notify_inv:
  assumes inv: "kernel_inv k" and o': "0 < unat owner" "unat owner < 8"
    and own: "user_mode (frame k) \<longrightarrow> 0 < unat (current_pid k)"
  shows "\<exists>p. irq_notify irq owner k = Some (set_proc (unat owner) p k) \<and> kernel_inv (set_proc (unat owner) p k)"
proof -
  note K = kernel_invD [OF inv]
  let ?p = "procs k ! unat owner"
  define q where "q = (if pr_state ?p = BlockedRecv
    then ?p\<lparr>pr_context := (pr_context ?p)\<lparr>tf_a0 := ucast irq, tf_a1 := 0\<rparr>, pr_state := Ready\<rparr>
    else ?p\<lparr>pr_irq_pending := True\<rparr>)"
  have eq: "irq_notify irq owner k = Some (set_proc (unat owner) q k)"
    using o' K(1) by (simp add: irq_notify_def q_def set_proc_def)
  have nth: "procs (set_proc (unat owner) q k) ! i = (if i = unat owner then q else procs k ! i)" if "i < 8" for i
    using that K(1) by (simp add: nth_list_update)
  have q: "pr_state q = Running \<longleftrightarrow> pr_state ?p = Running" "pr_satp q = pr_satp ?p"
    "pr_state q = Free \<longleftrightarrow> pr_state ?p = Free" "user_mode (pr_context q) = user_mode (pr_context ?p)"
    by (simp_all add: q_def)
  have "kernel_inv (set_proc (unat owner) q k)"
  proof (rule kernel_invI)
    fix i :: nat assume i: "i < 8"
    show "pr_state (procs (set_proc (unat owner) q k) ! i) = Running \<Longrightarrow> i = unat (current_pid (set_proc (unat owner) q k))"
      using K(5) [OF i] q(1) by (simp add: nth [OF i] del: set_proc_sel(1) split: if_splits)
    show "pr_state (procs (set_proc (unat owner) q k) ! i) = Running \<Longrightarrow>
        satp (set_proc (unat owner) q k) = pr_satp (procs (set_proc (unat owner) q k) ! i)"
      using K(6) [OF i] q by (simp add: nth [OF i] del: set_proc_sel(1) split: if_splits)
    show "pr_state (procs (set_proc (unat owner) q k) ! i) \<noteq> Free \<Longrightarrow>
        user_mode (pr_context (procs (set_proc (unat owner) q k) ! i))"
      using K(7) [OF i] q by (simp add: nth [OF i] del: set_proc_sel(1) split: if_splits)
  next
    assume "user_mode (frame (set_proc (unat owner) q k))"
    then show "pr_state (procs (set_proc (unat owner) q k) ! unat (current_pid (set_proc (unat owner) q k))) = Running"
      using K(9) q(1) nth [OF K(3)] by (simp del: set_proc_sel(1) split: if_splits)
  next
    fix i :: nat assume "\<not> user_mode (frame (set_proc (unat owner) q k))" and i: "i < 8"
    then show "pr_state (procs (set_proc (unat owner) q k) ! i) \<noteq> Running"
      using K(10) [OF _ i] q(1) by (auto simp: nth [OF i] simp del: set_proc_sel(1))
  qed (use K(1-4,8) o' in simp_all)
  then show ?thesis using eq by blast
qed

section \<open>Properties\<close>

text \<open>The entry that a blocked process is left with.\<close>

lemma block_entry:
  assumes ut: "user_trap k" and k': "procs k' = (procs k)[unat (current_pid k) := p]"
      "irq_owners k' = irq_owners k" "user_mode (frame k')"
    and p: "pr_state p \<noteq> Running" "pr_state p \<noteq> Free" "pr_state p \<noteq> Ready" "user_mode (pr_context p)"
    and s: "schedule cfg k' (current_pid k) = Some k''"
  shows "procs k'' ! unat (current_pid k) = p\<lparr>pr_context := frame k'\<rparr>"
proof -
  note U = user_trapD [OF ut]
  have pk: "kernel_parked k'" by (rule demote_parked [OF ut refl k'(1,2)]) (use p in auto)
  have c: "procs k' ! unat (current_pid k) = p" using U(4,7) k'(1) by simp
  have "procs (save (unat (current_pid k)) k') ! unat (current_pid k) = p\<lparr>pr_context := frame k'\<rparr>"
    using U(4,7) k'(1) by simp
  with rr.sched_procs [OF pk k'(3) U(3,4) _ s U(4)] p c show ?thesis by auto
qed

lemma block_self_entry:
  assumes ut: "user_trap k" and p: "pr_state p \<noteq> Running" "pr_state p \<noteq> Free" "pr_state p \<noteq> Ready"
      "pr_context p = pr_context (procs k ! unat (current_pid k))"
    and s: "schedule cfg (set_proc (unat (current_pid k)) p k) (current_pid k) = Some k'"
  shows "procs k' ! unat (current_pid k) = p\<lparr>pr_context := frame k\<rparr>"
  using block_entry [OF ut _ _ _ p(1-3) _ s] p(4) running_context [OF ut] user_trapD(2) [OF ut] by simp

definition returns_from :: "trap_frame \<Rightarrow> usize \<Rightarrow> trap_frame" where
  "returns_from f v = f\<lparr>tf_sepc := tf_sepc f + 4, tf_a0 := v\<rparr>"

definition receives :: "trap_frame \<Rightarrow> usize \<Rightarrow> usize \<Rightarrow> trap_frame" where
  "receives f m s = f\<lparr>tf_sepc := tf_sepc f + 4, tf_a0 := m, tf_a1 := s\<rparr>"

text \<open>Which process runs after a block.\<close>

lemma block_switch:
  assumes ut: "user_trap k" and p: "pr_state p \<noteq> Running" "pr_state p \<noteq> Free"
      "pr_context p = pr_context (procs k ! unat (current_pid k))"
    and n: "next_ready ((states k)[unat (current_pid k) := pr_state p]) (unat (current_pid k)) = Some n"
    and s: "schedule cfg (set_proc (unat (current_pid k)) p k) (current_pid k) = Some k'"
  shows "user_trap k'" "current_pid k' = of_nat n"
proof -
  let ?c = "unat (current_pid k)" and ?k = "set_proc (unat (current_pid k)) p k"
  note U = user_trapD [OF ut]
  have pk: "kernel_parked ?k"
    by (rule demote_parked [OF ut refl, where p = p]) (use p running_context [OF ut] in simp_all)
  have sts: "states ?k = (states k)[?c := pr_state p]" by (simp add: states_def map_update)
  have k': "k' = resume n (save ?c ?k)"
    using schedule_eq [of "current_pid k" ?k cfg] U(3,4,7) p n s by (simp add: sts)
  have nn: "n < 8" "states (save ?c ?k) ! n = Ready" using next_ready_Some [OF n] sts by simp_all
  have "pr_state (procs (save ?c ?k) ! n) = Ready"
    using nn states_nth [of n "save ?c ?k"] U(7) by simp
  from resume_inv [OF save_parked [OF pk] nn(1) this] show "user_trap k'" using U(2) by (simp add: k' user_trap_def)
  show "current_pid k' = of_nat n" by (simp add: k')
qed

text \<open>
  A system of two processes for the concrete instances: the first runs and has put the number of the
  second and the value 77 into its registers.
\<close>

definition ipc_demo :: "process_state \<Rightarrow> usize \<Rightarrow> kernel" where
  "ipc_demo st a = (demo_kernel [Free, Running, st, Free, Free, Free, Free, Free] 1)
     \<lparr>frame := (user_frame 0x50000000)\<lparr>tf_a0 := a, tf_a1 := 77\<rparr>\<rparr>"

text \<open>The state reached by a syscall, with the registers of the process that now runs set up.\<close>

definition then_regs :: "kernel option \<Rightarrow> usize \<Rightarrow> usize \<Rightarrow> kernel" where
  "then_regs r a b = (case r of None \<Rightarrow> ipc_demo Free 0 | Some k \<Rightarrow> k\<lparr>frame := (frame k)\<lparr>tf_a0 := a, tf_a1 := b\<rparr>\<rparr>)"

lemma ipc_demo_facts:
  assumes "st \<noteq> Running"
  shows "user_trap (ipc_demo st a)" "current_pid (ipc_demo st a) = 1" "tf_a0 (frame (ipc_demo st a)) = a"
    "tf_a1 (frame (ipc_demo st a)) = 77" "procs (ipc_demo st a) ! 2 = proc_at 2 st"
    "states (ipc_demo st a) = [Free, Running, st, Free, Free, Free, Free, Free]"
    "procs (ipc_demo st a) ! 1 = proc_at 1 Running"
proof -
  have "\<forall>i < 8. [Free, Running, st, Free, Free, Free, Free, Free] ! i = Running \<longleftrightarrow> i = 1"
    using assms by (simp add: All_less_Suc numeral_eq_Suc)
  then have "user_trap (demo_kernel [Free, Running, st, Free, Free, Free, Free, Free] 1)"
    by (intro demo_kernel_inv) simp_all
  then show "user_trap (ipc_demo st a)"
    unfolding ipc_demo_def
    by (rule user_trap_frame) (simp add: user_mode_def user_frame_def TrapFrame_zero_def)
qed (simp_all add: ipc_demo_def demo_kernel_def states_def proc_at_def upt_rec)

lemma demo_next:
  "next_ready [Free, BlockedSend, Ready, Free, Free, Free, Free, Free] 1 = Some 2"
  "next_ready [Free, BlockedCall, Ready, Free, Free, Free, Free, Free] 1 = Some 2"
  "next_ready [Free, BlockedRecv, Ready, Free, Free, Free, Free, Free] 1 = Some 2"
  by code_simp+

lemma then_regs_trap:
  "user_trap k \<Longrightarrow> user_trap (then_regs (Some k) a b)"
  by (simp add: then_regs_def user_trap_frame user_trapD(2))

lemma then_regs_sel [simp]:
  "procs (then_regs (Some k) a b) = procs k" "current_pid (then_regs (Some k) a b) = current_pid k"
  "tf_a0 (frame (then_regs (Some k) a b)) = a" "tf_a1 (frame (then_regs (Some k) a b)) = b"
  by (simp_all add: then_regs_def)

text \<open>The first process blocks and the second runs.\<close>

lemma demo_send: "\<exists>k1. sys_send demo_cfg (ipc_demo Ready 2) = Some k1 \<and> user_trap k1 \<and> current_pid k1 = 2"
proof -
  let ?k = "advance (ipc_demo Ready 2)"
  note F = ipc_demo_facts [of Ready 2, simplified]
  have eq: "sys_send demo_cfg (ipc_demo Ready 2) =
      schedule demo_cfg (set_proc (unat (current_pid ?k)) (send_entry 2 77 (proc_at 1 Running)) ?k) (current_pid ?k)"
    using sys_send_eq [OF F(1), of demo_cfg] F
    by (simp add: Let_def valid_target_unat waits_for_def proc_at_def)
  obtain k1 where k1: "sys_send demo_cfg (ipc_demo Ready 2) = Some k1" using sys_send_ok [OF F(1)] by blast
  have "states ?k = states (ipc_demo Ready 2)" by (simp add: states_def)
  then show ?thesis
    using block_switch [OF _ _ _ _ _ k1 [unfolded eq], of 2] F k1 demo_next by simp
qed

lemma demo_call: "\<exists>k1. sys_call demo_cfg (ipc_demo Ready 2) = Some k1 \<and> user_trap k1 \<and> current_pid k1 = 2 \<and>
  procs k1 ! 1 = (call_entry 2 77 0 0 (proc_at 1 Running))\<lparr>pr_context := frame (advance (ipc_demo Ready 2))\<rparr>"
proof -
  let ?k = "advance (ipc_demo Ready 2)"
  note F = ipc_demo_facts [of Ready 2, simplified]
  have z: "tf_a2 (frame (ipc_demo Ready 2)) = 0" "tf_a3 (frame (ipc_demo Ready 2)) = 0"
    by (simp_all add: ipc_demo_def user_frame_def TrapFrame_zero_def)
  have eq: "sys_call demo_cfg (ipc_demo Ready 2) =
      schedule demo_cfg (set_proc (unat (current_pid ?k)) (call_entry 2 77 0 0 (proc_at 1 Running)) ?k) (current_pid ?k)"
    using sys_call_eq [OF F(1), of demo_cfg] F z
    by (simp add: Let_def valid_target_unat waits_for_def proc_at_def)
  obtain k1 where k1: "sys_call demo_cfg (ipc_demo Ready 2) = Some k1" using sys_call_ok [OF F(1)] by blast
  have "states ?k = states (ipc_demo Ready 2)" by (simp add: states_def)
  then show ?thesis
    using block_switch [OF _ _ _ _ _ k1 [unfolded eq], of 2] block_self_entry [OF _ _ _ _ _ k1 [unfolded eq]]
      F k1 demo_next by simp
qed

lemma demo_receive:
  "\<exists>k1. sys_receive demo_cfg (ipc_demo Ready 2) = Some k1 \<and> user_trap k1 \<and> current_pid k1 = 2"
  "first_sender 1 2 (procs (ipc_demo Ready 2)) = None"
proof -
  let ?k = "advance (ipc_demo Ready 2)"
  note F = ipc_demo_facts [of Ready 2, simplified]
  have "\<not> is_sender 1 2 (of_nat i) (procs (ipc_demo Ready 2) ! i)" if "i < 8" for i
    using that unat_pid [of i] F(5) by (cases "i = 2") (auto simp: is_sender_def proc_at_def dest: arg_cong [of _ _ unat])
  then show fs: "first_sender 1 2 (procs (ipc_demo Ready 2)) = None"
    by (auto simp: first_sender_def find_None_iff)
  have eq: "sys_receive demo_cfg (ipc_demo Ready 2) =
      schedule demo_cfg (set_proc (unat (current_pid ?k)) (recv_entry 2 (proc_at 1 Running)) ?k) (current_pid ?k)"
    using sys_receive_eq [OF F(1), of demo_cfg] F fs by (simp add: Let_def)
  obtain k1 where k1: "sys_receive demo_cfg (ipc_demo Ready 2) = Some k1" using sys_receive_ok [OF F(1)] by blast
  have "states ?k = states (ipc_demo Ready 2)" by (simp add: states_def)
  then show "\<exists>k1. sys_receive demo_cfg (ipc_demo Ready 2) = Some k1 \<and> user_trap k1 \<and> current_pid k1 = 2"
    using block_switch [OF _ _ _ _ _ k1 [unfolded eq], of 2] F k1 demo_next by simp
qed

text \<open>
  C6. A send that arrives before its receive: the sender blocks; when the target later runs and
  asks for a message of this sender, it receives the message and the sender's number in its
  registers, and the sender is ready with the result 0, its other registers as at the send.
\<close>

theorem send_then_receive:
  assumes "user_trap k" "is_valid_ipc_target (tf_a0 (frame k)) (current_pid k)"
    and "\<not> waits_for (current_pid k) (procs k ! unat (tf_a0 (frame k)))"
    and "sys_send cfg k = Some k1"
    and "user_trap k2" "current_pid k2 = tf_a0 (frame k)" "tf_a0 (frame k2) = current_pid k"
    and "procs k2 ! unat (current_pid k) = procs k1 ! unat (current_pid k)"
  shows "\<exists>k3. sys_receive cfg k2 = Some k3 \<and> current_pid k3 = current_pid k2 \<and>
    frame k3 = receives (frame k2) (tf_a1 (frame k)) (current_pid k) \<and>
    pr_state (procs k3 ! unat (current_pid k)) = Ready \<and>
    pr_context (procs k3 ! unat (current_pid k)) = returns_from (frame k) 0"
proof -
  let ?c = "current_pid k" and ?t = "tf_a0 (frame k)" and ?m = "tf_a1 (frame k)"
  let ?e = "send_entry ?t ?m (procs k ! unat ?c)"
  note U = user_trapD [OF assms(1)] and U2 = user_trapD [OF assms(5)]
  have "schedule cfg (set_proc (unat ?c) ?e (advance k)) ?c = Some k1"
    using assms(2,3,4) sys_send_eq [OF assms(1), of cfg] by (simp add: Let_def)
  then have e1: "procs k1 ! unat ?c = ?e\<lparr>pr_context := frame (advance k)\<rparr>"
    using block_self_entry [of "advance k" ?e cfg k1] assms(1) by simp
  let ?s = "procs k2 ! unat ?c"
  have s: "pr_state ?s = BlockedSend" "pr_ipc_target ?s = current_pid k2" "pr_ipc_value ?s = ?m"
    "pr_context ?s = frame (advance k)"
    using e1 assms(6,8) by (simp_all add: send_entry_def)
  have me: "is_sender (current_pid k2) ?c ?c ?s" using s by (simp add: is_sender_def)
  have only: "\<not> is_sender (current_pid k2) ?c (of_nat i) (procs k2 ! i)" if "i < 8" "i \<noteq> unat ?c" for i
    using that U(8) unat_pid [of i] by (auto simp: is_sender_def)
  have "\<not> is_sender (current_pid k2) ?c (1 + of_nat j) (procs k2 ! Suc j)" if "j < unat ?c - 1" for j
    using only [of "Suc j"] that U(4) by simp
  then have fs: "first_sender (current_pid k2) ?c (procs k2) = Some (unat ?c)"
    unfolding first_sender_def find_Some_iff using U(3,4) me
    by (intro exI [of _ "unat ?c - 1"]) (auto simp: nth_upt)
  show ?thesis
    using sys_receive_eq [OF assms(5), of cfg] fs s assms(7) U U2(7)
    by (simp add: Let_def receives_def returns_from_def)
qed

theorem send_then_receive_witness:
  "\<exists>k3. sys_receive demo_cfg (then_regs (sys_send demo_cfg (ipc_demo Ready 2)) 1 0) = Some k3 \<and>
     tf_a0 (frame k3) = 77 \<and> tf_a1 (frame k3) = 1"
proof -
  obtain k1 where k1: "sys_send demo_cfg (ipc_demo Ready 2) = Some k1" "user_trap k1" "current_pid k1 = 2"
    using demo_send by blast
  note F = ipc_demo_facts [of Ready 2, simplified]
  have "is_valid_ipc_target 2 1" by (simp add: valid_target_unat)
  then show ?thesis
    using send_then_receive [OF F(1) _ _ k1(1) then_regs_trap [OF k1(2)], of 1 0] k1 F
    by (auto simp: receives_def waits_for_def proc_at_def)
qed

text \<open>
  A receive that arrives before the send: the receiver blocks, accepting this sender or
  anybody; when the sender later sends, it continues at once with the result 0, and the receiver is
  ready with the message and the sender's number in its registers. Together with the previous
  property: both sides end with the same registers whichever of them comes first.
\<close>

theorem receive_then_send:
  assumes "user_trap k" "tf_a0 (frame k) = 0 \<or> tf_a0 (frame k) = s"
    and "\<not> (pr_irq_pending (procs k ! unat (current_pid k)) \<and> tf_a0 (frame k) = 0)"
    and "first_sender (current_pid k) (tf_a0 (frame k)) (procs k) = None"
    and "sys_receive cfg k = Some k1"
    and "user_trap k2" "current_pid k2 = s" "s \<noteq> current_pid k" "tf_a0 (frame k2) = current_pid k"
    and "procs k2 ! unat (current_pid k) = procs k1 ! unat (current_pid k)"
  shows "\<exists>k3. sys_send cfg k2 = Some k3 \<and> current_pid k3 = s \<and>
    frame k3 = returns_from (frame k2) 0 \<and>
    pr_state (procs k3 ! unat (current_pid k)) = Ready \<and>
    pr_context (procs k3 ! unat (current_pid k)) = receives (frame k) (tf_a1 (frame k2)) s"
proof -
  let ?c = "current_pid k" and ?f = "tf_a0 (frame k)"
  let ?e = "recv_entry ?f (procs k ! unat ?c)"
  note U = user_trapD [OF assms(1)] and U2 = user_trapD [OF assms(6)]
  have "schedule cfg (set_proc (unat ?c) ?e (advance k)) ?c = Some k1"
    using assms(3,4,5) sys_receive_eq [OF assms(1), of cfg] by (simp add: Let_def del: de_Morgan_conj)
  then have e1: "procs k1 ! unat ?c = ?e\<lparr>pr_context := frame (advance k)\<rparr>"
    using block_self_entry [of "advance k" ?e cfg k1] assms(1) by simp
  have w: "waits_for s (procs k2 ! unat ?c)" "pr_context (procs k2 ! unat ?c) = frame (advance k)"
    using e1 assms(2,10) by (simp_all add: waits_for_def recv_entry_def)
  have v: "is_valid_ipc_target ?c s" using U(3,4) assms(8) by (simp add: valid_target_unat word_unat_eq_iff)
  show ?thesis
    using sys_send_eq [OF assms(6), of cfg] v w assms(7,9) U U2(7)
    by (simp add: Let_def receives_def returns_from_def)
qed

theorem receive_then_send_witness:
  "\<exists>k3. sys_send demo_cfg (then_regs (sys_receive demo_cfg (ipc_demo Ready 2)) 1 55) = Some k3 \<and>
     tf_a0 (pr_context (procs k3 ! 1)) = 55 \<and> tf_a1 (pr_context (procs k3 ! 1)) = 2"
proof -
  obtain k1 where k1: "sys_receive demo_cfg (ipc_demo Ready 2) = Some k1" "user_trap k1" "current_pid k1 = 2"
    using demo_receive(1) by blast
  note F = ipc_demo_facts [of Ready 2, simplified]
  show ?thesis
    using receive_then_send [OF F(1) _ _ _ k1(1) then_regs_trap [OF k1(2)], of 2 1 55] k1 F demo_receive(2)
    by (auto simp: receives_def)
qed

text \<open>
  C5. A remote procedure call returns what the server replies: after \<open>SYS_CALL\<close> the caller is
  blocked whether or not the server was waiting; when the server later replies to it, the caller is
  ready with the reply in \<open>a0\<close> and its other registers as at the call, and the server continues with
  the result 0.
\<close>

theorem call_reply_roundtrip:
  assumes "user_trap k" "is_valid_ipc_target (tf_a0 (frame k)) (current_pid k)" "sys_call cfg k = Some k1"
    and "user_trap k2" "current_pid k2 = tf_a0 (frame k)" "tf_a0 (frame k2) = current_pid k"
    and "procs k2 ! unat (current_pid k) = procs k1 ! unat (current_pid k)"
  shows "pr_state (procs k1 ! unat (current_pid k)) = BlockedCall \<and>
    (\<exists>k3. sys_reply k2 = Some k3 \<and> current_pid k3 = current_pid k2 \<and>
      frame k3 = returns_from (frame k2) 0 \<and>
      pr_state (procs k3 ! unat (current_pid k)) = Ready \<and>
      pr_context (procs k3 ! unat (current_pid k)) = returns_from (frame k) (tf_a1 (frame k2)))"
proof -
  let ?c = "current_pid k" and ?t = "tf_a0 (frame k)" and ?m = "tf_a1 (frame k)"
  let ?x = "tf_a2 (frame k)" and ?y = "tf_a3 (frame k)" and ?p = "procs k ! unat (tf_a0 (frame k))"
  let ?e = "call_entry ?t ?m ?x ?y (procs k ! unat ?c)"
  let ?q = "?p\<lparr>pr_context := (pr_context ?p)\<lparr>tf_a0 := ?m, tf_a1 := ?c, tf_a2 := ?x, tf_a3 := ?y\<rparr>, pr_state := Ready\<rparr>"
  note U = user_trapD [OF assms(1)] and U2 = user_trapD [OF assms(4)]
  have tc: "0 < unat ?t" "unat ?t < 8" "unat ?t \<noteq> unat ?c" using assms(2) by (simp_all add: valid_target_unat)
  have e1: "procs k1 ! unat ?c = ?e\<lparr>pr_context := frame (advance k)\<rparr>"
  proof (cases "waits_for ?c ?p")
    case True
    have ps: "peer_step ?c ?p ?q" using True by (intro peer_deliver_call) (simp_all add: waits_for_def)
    have ut: "user_trap (set_proc (unat ?t) ?q (advance k))"
      using set_proc_peer [of "advance k" "unat ?t" ?c ?q] assms(1) tc ps by simp
    have "schedule cfg (set_proc (unat ?c) ?e (set_proc (unat ?t) ?q (advance k))) ?c = Some k1"
      using assms(2,3) True sys_call_eq [OF assms(1), of cfg] by (simp add: Let_def)
    then show ?thesis using block_self_entry [OF ut, of ?e cfg k1] tc(3) by simp
  next
    case False
    have "schedule cfg (set_proc (unat ?c) ?e (advance k)) ?c = Some k1"
      using assms(2,3) False sys_call_eq [OF assms(1), of cfg] by (simp add: Let_def)
    then show ?thesis using block_self_entry [of "advance k" ?e cfg k1] assms(1) by simp
  qed
  have s: "pr_state (procs k2 ! unat ?c) = BlockedCall" "pr_ipc_target (procs k2 ! unat ?c) = current_pid k2"
    "pr_context (procs k2 ! unat ?c) = frame (advance k)"
    using e1 assms(5,7) by (simp_all add: call_entry_def)
  have v: "is_valid_ipc_target ?c (current_pid k2)" using U(3,4) tc(3) assms(5) by (simp add: valid_target_unat)
  show ?thesis
    using sys_reply_eq [OF assms(4)] s v assms(6) e1 U U2(7)
    by (simp add: Let_def returns_from_def)
qed

theorem call_reply_roundtrip_witness:
  "\<exists>k3. sys_reply (then_regs (sys_call demo_cfg (ipc_demo Ready 2)) 1 99) = Some k3 \<and>
     pr_state (procs k3 ! 1) = Ready \<and> tf_a0 (pr_context (procs k3 ! 1)) = 99"
proof -
  obtain k1 where k1: "sys_call demo_cfg (ipc_demo Ready 2) = Some k1" "user_trap k1" "current_pid k1 = 2"
    using demo_call by blast
  note F = ipc_demo_facts [of Ready 2, simplified]
  have "is_valid_ipc_target 2 1" by (simp add: valid_target_unat)
  then show ?thesis
    using call_reply_roundtrip [OF F(1) _ k1(1) then_regs_trap [OF k1(2)], of 1 99] k1 F
    by (auto simp: returns_from_def)
qed

text \<open>
  What a server sees of a pending call: \<open>SYS_RECEIVE\<close> delivers the caller's message but leaves
  the process table as it is, so the same call is delivered again by the next \<open>SYS_RECEIVE\<close> before
  the reply, and the extra arguments \<open>ipc_arg2\<close> and \<open>ipc_arg3\<close> that the caller stored are not put
  into the server's \<open>a2\<close> and \<open>a3\<close>.
\<close>

theorem pending_call_receive:
  assumes "user_trap k" "first_sender (current_pid k) (tf_a0 (frame k)) (procs k) = Some i"
    and "pr_state (procs k ! i) = BlockedCall"
    and "\<not> (pr_irq_pending (procs k ! unat (current_pid k)) \<and> tf_a0 (frame k) = 0)"
  shows "\<exists>k'. sys_receive cfg k = Some k' \<and> procs k' = procs k \<and> current_pid k' = current_pid k \<and>
    frame k' = receives (frame k) (pr_ipc_value (procs k ! i)) (of_nat i) \<and>
    tf_a2 (frame k') = tf_a2 (frame k) \<and> tf_a3 (frame k') = tf_a3 (frame k)"
  using sys_receive_eq [OF assms(1), of cfg] assms(2-4)
  by (simp add: Let_def receives_def del: de_Morgan_conj)

theorem pending_call_receive_witness:
  "\<exists>k'. sys_receive demo_cfg (then_regs (sys_call demo_cfg (ipc_demo Ready 2)) 1 0) = Some k' \<and>
     tf_a0 (frame k') = 77 \<and> pr_state (procs k' ! 1) = BlockedCall"
proof -
  obtain k1 where k1: "sys_call demo_cfg (ipc_demo Ready 2) = Some k1" "user_trap k1" "current_pid k1 = 2"
    "procs k1 ! 1 = (call_entry 2 77 0 0 (proc_at 1 Running))\<lparr>pr_context := frame (advance (ipc_demo Ready 2))\<rparr>"
    using demo_call by blast
  have e: "pr_state (procs k1 ! 1) = BlockedCall" "pr_ipc_target (procs k1 ! 1) = 2" "pr_ipc_value (procs k1 ! 1) = 77"
    unfolding k1(4) by (simp_all add: call_entry_def)
  have "first_sender 2 1 (procs k1) = Some 1"
    using e by (simp add: first_sender_def upt_rec is_sender_def)
  then show ?thesis
    using pending_call_receive [OF then_regs_trap [OF k1(2)], of 1 0 1 demo_cfg] k1(1,3) e
    by (auto simp: receives_def)
qed

end
