(* ===== verification/Elf.thy ===== *)
theory Elf
  imports Mem
begin

unbundle bit_operations_syntax

text \<open>
  \<open>elf.rs\<close>: the ELF64 parser behind \<open>SYS_SPAWN\<close> and the boot loader.  The byte slice is given as
  its length and a function from offsets to bytes.  The parser reads through raw pointers, so the
  function also says what lies beyond the slice; the theorems show when the parser looks there.
\<close>

section \<open>Constants and types\<close>

definition ELF_MAGIC :: "u8 list" where "ELF_MAGIC = [0x7F, 0x45, 0x4C, 0x46]"
definition ELFCLASS64 :: u8 where "ELFCLASS64 = 2"
definition ELFDATA2LSB :: u8 where "ELFDATA2LSB = 1"
definition ET_EXEC :: u16 where "ET_EXEC = 2"
definition EM_RISCV :: u16 where "EM_RISCV = 0xF3"
definition PT_LOAD :: u32 where "PT_LOAD = 1"
definition PF_X :: u32 where "PF_X = 1"

record elf64_header =
  e_ident :: "u8 list"
  e_type :: u16
  e_machine :: u16
  e_version :: u32
  e_entry :: u64
  e_phoff :: u64
  e_shoff :: u64
  e_flags :: u32
  e_ehsize :: u16
  e_phentsize :: u16
  e_phnum :: u16
  e_shentsize :: u16
  e_shnum :: u16
  e_shstrndx :: u16

record elf64_phdr =
  p_type :: u32
  p_flags :: u32
  p_offset :: u64
  p_vaddr :: u64
  p_paddr :: u64
  p_filesz :: u64
  p_memsz :: u64
  p_align :: u64

record load_segment =
  file_offset :: usize
  seg_vaddr :: usize
  filesz :: usize
  memsz :: usize
  executable :: bool

record elf_info =
  elf_entry :: usize
  segments :: "load_segment list"
  num_segments :: nat

datatype elf_error =
  TooSmall | BadMagic | NotElf64 | NotLittleEndian | NotExecutable | NotRiscV | TooManySegments
| SegmentOutOfBounds

text \<open>The \<open>#[repr(C)]\<close> layouts, read little endian at an offset of the slice.\<close>

definition read_header :: "mem \<Rightarrow> usize \<Rightarrow> elf64_header" where
  "read_header d at =
     \<lparr>e_ident = load_bytes d at 16, e_type = load16 d (at + 16), e_machine = load16 d (at + 18),
      e_version = load32 d (at + 20), e_entry = load64 d (at + 24), e_phoff = load64 d (at + 32),
      e_shoff = load64 d (at + 40), e_flags = load32 d (at + 48), e_ehsize = load16 d (at + 52),
      e_phentsize = load16 d (at + 54), e_phnum = load16 d (at + 56), e_shentsize = load16 d (at + 58),
      e_shnum = load16 d (at + 60), e_shstrndx = load16 d (at + 62)\<rparr>"

definition read_phdr :: "mem \<Rightarrow> usize \<Rightarrow> elf64_phdr" where
  "read_phdr d at =
     \<lparr>p_type = load32 d at, p_flags = load32 d (at + 4), p_offset = load64 d (at + 8),
      p_vaddr = load64 d (at + 16), p_paddr = load64 d (at + 24), p_filesz = load64 d (at + 32),
      p_memsz = load64 d (at + 40), p_align = load64 d (at + 48)\<rparr>"

section \<open>The parser\<close>

definition empty_segment :: load_segment where
  "empty_segment = \<lparr>file_offset = 0, seg_vaddr = 0, filesz = 0, memsz = 0, executable = False\<rparr>"

definition phdr_segment :: "elf64_phdr \<Rightarrow> load_segment" where
  "phdr_segment ph =
     \<lparr>file_offset = p_offset ph, seg_vaddr = p_vaddr ph, filesz = p_filesz ph, memsz = p_memsz ph,
      executable = (p_flags ph AND PF_X \<noteq> 0)\<rparr>"

text \<open>The loop over the program headers; the list holds the indices still to be visited.\<close>

fun parse_phdrs :: "mem \<Rightarrow> usize \<Rightarrow> usize \<Rightarrow> usize \<Rightarrow> elf_info \<Rightarrow> nat list \<Rightarrow> (elf_error + elf_info)" where
  "parse_phdrs d len phoff phentsize info [] = Inr info"
| "parse_phdrs d len phoff phentsize info (i # is) =
     (let off = phoff + of_nat i * phentsize
      in if len < off + 56 then Inl SegmentOutOfBounds
         else
           let ph = read_phdr d off
           in if p_type ph \<noteq> PT_LOAD then parse_phdrs d len phoff phentsize info is
              else if 4 \<le> num_segments info then Inl TooManySegments
              else
                let seg_end = p_offset ph + p_filesz ph
                in if len < seg_end then Inl SegmentOutOfBounds
                   else parse_phdrs d len phoff phentsize
                     (info\<lparr>segments := (segments info)[num_segments info := phdr_segment ph],
                           num_segments := num_segments info + 1\<rparr>) is)"

definition parse :: "mem \<Rightarrow> usize \<Rightarrow> (elf_error + elf_info)" where
  "parse d len =
     (if len < 64 then Inl TooSmall
      else
        let hdr = read_header d 0
        in if take 4 (e_ident hdr) \<noteq> ELF_MAGIC then Inl BadMagic
           else if e_ident hdr ! 4 \<noteq> ELFCLASS64 then Inl NotElf64
           else if e_ident hdr ! 5 \<noteq> ELFDATA2LSB then Inl NotLittleEndian
           else if e_type hdr \<noteq> ET_EXEC then Inl NotExecutable
           else if e_machine hdr \<noteq> EM_RISCV then Inl NotRiscV
           else parse_phdrs d len (e_phoff hdr) (ucast (e_phentsize hdr))
             \<lparr>elf_entry = e_entry hdr, segments = replicate 4 empty_segment, num_segments = 0\<rparr>
             [0..<unat (e_phnum hdr)])"

definition pages_needed :: "usize \<Rightarrow> usize \<Rightarrow> usize" where
  "pages_needed memsz' vaddr =
     (let start_page = vaddr AND NOT (PAGE_SIZE - 1);
          end = vaddr + memsz';
          end_page = (end + PAGE_SIZE - 1) AND NOT (PAGE_SIZE - 1)
      in (end_page - start_page) div PAGE_SIZE)"

section \<open>Reference: the loadable headers\<close>

text \<open>The header's checks, the program headers in order, and those of them that are loadable.\<close>

definition header_ok :: "mem \<Rightarrow> usize \<Rightarrow> bool" where
  "header_ok d len \<longleftrightarrow> 64 \<le> len \<and>
     (let hdr = read_header d 0 in take 4 (e_ident hdr) = ELF_MAGIC \<and> e_ident hdr ! 4 = ELFCLASS64 \<and>
        e_ident hdr ! 5 = ELFDATA2LSB \<and> e_type hdr = ET_EXEC \<and> e_machine hdr = EM_RISCV)"

definition phdr_offsets :: "mem \<Rightarrow> usize list" where
  "phdr_offsets d =
     (let hdr = read_header d 0
      in map (\<lambda>i. e_phoff hdr + of_nat i * ucast (e_phentsize hdr)) [0..<unat (e_phnum hdr)])"

definition loadable :: "mem \<Rightarrow> usize list \<Rightarrow> elf64_phdr list" where
  "loadable d os = filter (\<lambda>ph. p_type ph = PT_LOAD) (map (read_phdr d) os)"

definition pad4 :: "load_segment list \<Rightarrow> load_segment list" where
  "pad4 xs = xs @ replicate (4 - length xs) empty_segment"

lemma pad4_snoc: "length xs < 4 \<Longrightarrow> (pad4 xs)[length xs := x] = pad4 (xs @ [x])"
  by (cases "4 - length xs") (auto simp: pad4_def list_update_append Suc_diff_Suc)

lemma parse_phdrs_Inr:
  assumes "num_segments info = length segs" "segments info = pad4 segs" "length segs \<le> 4"
    and "os = map (\<lambda>i. phoff + of_nat i * phentsize) is"
  shows "parse_phdrs d len phoff phentsize info is = Inr info' \<longleftrightarrow>
    (\<forall>off \<in> set os. off + 56 \<le> len) \<and>
    (\<forall>ph \<in> set (loadable d os). p_offset ph + p_filesz ph \<le> len) \<and>
    length segs + length (loadable d os) \<le> 4 \<and>
    info' = \<lparr>elf_entry = elf_entry info, segments = pad4 (segs @ map phdr_segment (loadable d os)),
             num_segments = length segs + length (loadable d os)\<rparr>"
  using assms
proof (induction "is" arbitrary: info segs os)
  case Nil
  then show ?case by (cases info) (auto simp: loadable_def)
next
  case (Cons i "is")
  let ?off = "phoff + of_nat i * phentsize"
  let ?ph = "read_phdr d ?off"
  obtain os' where os: "os = ?off # os'" "os' = map (\<lambda>i. phoff + of_nat i * phentsize) is"
    using Cons.prems(4) by simp
  show ?case
  proof (cases "p_type ?ph = PT_LOAD")
    case False
    then show ?thesis
      using Cons.IH [OF Cons.prems(1-3) os(2)] by (auto simp: Let_def os loadable_def not_le)
  next
    case True
    then have l: "loadable d os = ?ph # loadable d os'" by (simp add: os loadable_def)
    show ?thesis
    proof (cases "length segs = 4")
      case True
      then show ?thesis using \<open>p_type ?ph = PT_LOAD\<close> Cons.prems(1) l by (auto simp: Let_def)
    next
      case False
      then have len: "length segs < 4" using Cons.prems(3) by simp
      let ?info = "info\<lparr>segments := (segments info)[num_segments info := phdr_segment ?ph],
                        num_segments := num_segments info + 1\<rparr>"
      have "segments ?info = pad4 (segs @ [phdr_segment ?ph])"
        using Cons.prems(1,2) pad4_snoc [OF len] by simp
      from Cons.IH [OF _ this _ os(2)] len Cons.prems(1)
      show ?thesis using True l by (auto simp: Let_def os not_le not_less)
    qed
  qed
qed

section \<open>Properties\<close>

lemma parse_Inr:
  "parse d len = Inr info \<longleftrightarrow>
    header_ok d len \<and> (\<forall>off \<in> set (phdr_offsets d). off + 56 \<le> len) \<and>
    (\<forall>ph \<in> set (loadable d (phdr_offsets d)). p_offset ph + p_filesz ph \<le> len) \<and>
    length (loadable d (phdr_offsets d)) \<le> 4 \<and>
    info = \<lparr>elf_entry = e_entry (read_header d 0),
            segments = pad4 (map phdr_segment (loadable d (phdr_offsets d))),
            num_segments = length (loadable d (phdr_offsets d))\<rparr>"
proof (cases "header_ok d len")
  case True
  let ?h = "read_header d 0"
  let ?info = "\<lparr>elf_entry = e_entry ?h, segments = replicate 4 empty_segment, num_segments = 0\<rparr>"
  have "parse d len = parse_phdrs d len (e_phoff ?h) (ucast (e_phentsize ?h)) ?info [0..<unat (e_phnum ?h)]"
    using True by (auto simp: parse_def header_ok_def Let_def not_less [symmetric])
  moreover have "segments ?info = pad4 []" by (simp add: pad4_def)
  ultimately show ?thesis
    using True parse_phdrs_Inr [of ?info "[]" "phdr_offsets d" "e_phoff ?h" "ucast (e_phentsize ?h)"
      "[0..<unat (e_phnum ?h)]" d len info]
    by (simp add: phdr_offsets_def Let_def)
next
  case False
  then have "\<exists>e. parse d len = Inl e" by (auto simp: parse_def header_ok_def Let_def not_less)
  then show ?thesis using False by auto
qed

section \<open>Reference: an ELF64 image as numbers\<close>

text \<open>
  The fields of the format at the offsets of the ELF64 specification, as natural numbers read
  little endian from the bytes, without the \<open>repr(C)\<close> structures of the source: the program header
  table is given by its offset (at 32), entry size (at 54) and entry count (at 56); a header of
  type 1 is loadable, and its fields are flags (4), file offset (8), address (16), file size (32)
  and memory size (40).
\<close>

primrec le_at :: "mem \<Rightarrow> nat \<Rightarrow> nat \<Rightarrow> nat" where
  "le_at d off 0 = 0"
| "le_at d off (Suc n) = unat (d (of_nat off)) + 256 * le_at d (Suc off) n"

definition elf_magic_ok :: "mem \<Rightarrow> bool" where
  "elf_magic_ok d \<longleftrightarrow> le_at d 0 4 = 0x464C457F \<and> le_at d 4 1 = 2 \<and> le_at d 5 1 = 1 \<and>
     le_at d 16 2 = 2 \<and> le_at d 18 2 = 243"

definition ph_table :: "mem \<Rightarrow> nat list" where
  "ph_table d = map (\<lambda>i. le_at d 32 8 + i * le_at d 54 2) [0..<le_at d 56 2]"

definition pt_load :: "mem \<Rightarrow> nat list" where
  "pt_load d = filter (\<lambda>off. le_at d off 4 = 1) (ph_table d)"

definition segment_end :: "mem \<Rightarrow> nat \<Rightarrow> nat" where
  "segment_end d off = le_at d (off + 8) 8 + le_at d (off + 32) 8"

definition segment_at :: "mem \<Rightarrow> nat \<Rightarrow> load_segment" where
  "segment_at d off =
     \<lparr>file_offset = of_nat (le_at d (off + 8) 8), seg_vaddr = of_nat (le_at d (off + 16) 8),
      filesz = of_nat (le_at d (off + 32) 8), memsz = of_nat (le_at d (off + 40) 8),
      executable = odd (le_at d (off + 4) 4)\<rparr>"

lemma le_at_bytes:
  "le_at d off 1 = unat (d (of_nat off))"
  "le_at d off 2 = unat (d (of_nat off)) + 256 * unat (d (of_nat (off + 1)))"
  "le_at d off 4 = unat (d (of_nat off)) + 256 * (unat (d (of_nat (off + 1))) +
     256 * (unat (d (of_nat (off + 2))) + 256 * unat (d (of_nat (off + 3)))))"
  "le_at d off 8 = le_at d off 4 + 256 ^ 4 * le_at d (off + 4) 4"
proof -
  have n: "2 = Suc (Suc 0)" "4 = Suc (Suc (Suc (Suc 0)))"
    "8 = Suc (Suc (Suc (Suc (Suc (Suc (Suc (Suc 0)))))))" by simp_all
  have o: "Suc (Suc (Suc (Suc off))) = off + 4" "Suc (Suc (Suc off)) = off + 3" "Suc (Suc off) = off + 2"
    by simp_all
  show "le_at d off 1 = unat (d (of_nat off))"
    "le_at d off 2 = unat (d (of_nat off)) + 256 * unat (d (of_nat (off + 1)))"
    unfolding n(1) by simp_all
  show "le_at d off 4 = unat (d (of_nat off)) + 256 * (unat (d (of_nat (off + 1))) +
     256 * (unat (d (of_nat (off + 2))) + 256 * unat (d (of_nat (off + 3)))))"
    unfolding n(2) by (simp only: le_at.simps o) (simp add: add.commute)
  show "le_at d off 8 = le_at d off 4 + 256 ^ 4 * le_at d (off + 4) 4"
    unfolding n(3) n(2) [THEN arg_cong [of _ _ "le_at d off"]] n(2) [THEN arg_cong [of _ _ "le_at d (off + 4)"]]
    by (simp only: le_at.simps o) (simp add: add.commute)
qed

lemma le_at_less: "le_at d off n < 256 ^ n"
proof (induction n arbitrary: off)
  case (Suc n)
  have "unat (d (of_nat off)) < 256" using unsigned_less [of "d (of_nat off)"] by simp
  with Suc [of "Suc off"] show ?case by simp
qed simp

lemma load_le_of_nat: "load_le n d (of_nat off) = (of_nat (le_at d off n) :: 'a::len word)"
  if "8 * n \<le> LENGTH('a)"
  using that
proof (induction n arbitrary: off)
  case (Suc n)
  let ?b = "d (of_nat off)" and ?x = "of_nat (le_at d (Suc off) n) :: 'a word"
  have "(ucast ?b :: 'a word) AND push_bit 8 ?x = 0"
    using bit_imp_le_length [of ?b] by (intro bit_word_eqI) (fastforce simp: bit_simps)
  then have "ucast ?b OR push_bit 8 ?x = ucast ?b + push_bit 8 ?x"
    by (rule disjunctive_add_eq_or [symmetric])
  also have "\<dots> = of_nat (unat ?b + 256 * le_at d (Suc off) n)"
    by (simp add: push_bit_eq_mult mult.commute)
  finally have "ucast ?b OR push_bit 8 ?x = of_nat (le_at d off (Suc n))" by simp
  moreover have "load_le n d (of_nat off + 1) = ?x"
    using Suc.IH [of "Suc off"] Suc.prems by (simp add: add.commute)
  ultimately show ?case by (simp only: load_le.simps)
qed simp

lemma load_of_nat:
  "load64 d (of_nat off) = of_nat (le_at d off 8)" "load32 d (of_nat off) = of_nat (le_at d off 4)"
  "load16 d (of_nat off) = of_nat (le_at d off 2)"
  by (simp_all add: load64_def load32_def load16_def load_le_of_nat)

lemma unat_le_at:
  "unat (of_nat (le_at d off 8) :: u64) = le_at d off 8" "unat (of_nat (le_at d off 4) :: u32) = le_at d off 4"
  "unat (of_nat (le_at d off 2) :: u16) = le_at d off 2"
  using le_at_less [of d off 8] le_at_less [of d off 4] le_at_less [of d off 2]
  by (simp_all add: unat_of_nat_small)

lemma ucast_le_at: "ucast (of_nat (le_at d off 2) :: u16) = (of_nat (le_at d off 2) :: u64)"
  by (metis of_nat_unat unat_le_at(3))

lemma load_at:
  "load64 d (of_nat off + numeral k) = of_nat (le_at d (off + numeral k) 8)"
  "load32 d (of_nat off + numeral k) = of_nat (le_at d (off + numeral k) 4)"
  using load_of_nat [of d "off + numeral k"] by simp_all

lemma load_num:
  "load64 d (numeral k) = of_nat (le_at d (numeral k) 8)" "load16 d (numeral k) = of_nat (le_at d (numeral k) 2)"
  using load_of_nat [of d "numeral k"] by simp_all

text \<open>The structures the parser reads are the reference fields.\<close>

lemma byte_eq: "w = numeral k \<longleftrightarrow> unat w = numeral k" if "numeral k < (256 :: nat)" for w :: u8
  using that unat_of_nat_small [of "numeral k", where 'a = 8] by (auto simp: word_unat_eq_iff)

lemma header_ok_numbers: "header_ok d len \<longleftrightarrow> 64 \<le> unat len \<and> elf_magic_ok d"
proof -
  have bound: "unat (w :: u8) < 256" for w using unsigned_less [of w] by simp
  have magic: "take 4 (load_bytes d 0 16) = ELF_MAGIC \<longleftrightarrow> le_at d 0 4 = 0x464C457F"
  proof -
    have split: "x + 256 * y = n \<longleftrightarrow> x = n mod 256 \<and> y = n div 256" if "x < 256" for x y n :: nat
      using that by auto
    have "[0..<4] = [0, 1, 2, 3 :: nat]" by (simp add: upt_rec)
    then have "take 4 (load_bytes d 0 16) = [d 0, d 1, d 2, d 3]" by (simp add: load_bytes_def take_map)
    moreover have "le_at d 0 4 = unat (d 0) + 256 * (unat (d 1) + 256 * (unat (d 2) + 256 * unat (d 3)))"
      unfolding le_at_bytes by simp
    ultimately show ?thesis
      by (simp only: split [OF bound]) (simp add: ELF_MAGIC_def byte_eq)
  qed
  have "(d 4 = ELFCLASS64) = (le_at d 4 1 = 2)" "(d 5 = ELFDATA2LSB) = (le_at d 5 1 = 1)"
    unfolding le_at_bytes by (simp_all add: ELFCLASS64_def ELFDATA2LSB_def byte_eq word_unat_eq_iff)
  moreover have "(load16 d 16 = ET_EXEC) = (le_at d 16 2 = 2)" "(load16 d 18 = EM_RISCV) = (le_at d 18 2 = 243)"
    by (simp_all add: load_num word_unat_eq_iff unat_le_at ET_EXEC_def EM_RISCV_def)
  moreover have "load_bytes d 0 16 ! 4 = d 4" "load_bytes d 0 16 ! 5 = d 5" by (simp_all add: load_bytes_def)
  ultimately show ?thesis
    unfolding header_ok_def elf_magic_ok_def Let_def read_header_def using magic
    by (simp add: word_le_nat_alt)
qed

lemma phdr_offsets_numbers: "phdr_offsets d = map of_nat (ph_table d)"
  by (simp add: phdr_offsets_def ph_table_def read_header_def load_num unat_le_at Let_def ucast_le_at)

lemma phdr_fields:
  "p_type (read_phdr d (of_nat off)) = PT_LOAD \<longleftrightarrow> le_at d off 4 = 1"
  "unat (p_offset (read_phdr d (of_nat off))) + unat (p_filesz (read_phdr d (of_nat off))) = segment_end d off"
  "phdr_segment (read_phdr d (of_nat off)) = segment_at d off"
proof -
  show "p_type (read_phdr d (of_nat off)) = PT_LOAD \<longleftrightarrow> le_at d off 4 = 1"
    using unat_le_at(2) [of d off] by (auto simp: read_phdr_def load_of_nat PT_LOAD_def word_unat_eq_iff)
  show "unat (p_offset (read_phdr d (of_nat off))) + unat (p_filesz (read_phdr d (of_nat off))) = segment_end d off"
    by (simp add: read_phdr_def load_at unat_le_at segment_end_def)
  have "(w AND PF_X \<noteq> 0) = odd (unat w)" for w :: u32
  proof -
    have "odd (unat w) = odd w" 
      using bit_unsigned_iff [of w 0, where 'a = nat] by (simp add: bit_0)
    then show ?thesis by (simp add: PF_X_def and_one_eq odd_iff_mod_2_eq_one)
  qed
  then show "phdr_segment (read_phdr d (of_nat off)) = segment_at d off"
    by (simp add: read_phdr_def phdr_segment_def segment_at_def load_at unat_le_at)
qed

lemma loadable_numbers: "loadable d (phdr_offsets d) = map (\<lambda>off. read_phdr d (of_nat off)) (pt_load d)"
  by (simp add: loadable_def phdr_offsets_numbers pt_load_def filter_map comp_def phdr_fields(1))

text \<open>
  C40. What the ELF parser accepts: when no bounds computation leaves 64 bits, exactly the images
  that are little-endian RISC-V ELF64 executables, whose program headers and loadable segments lie
  within the image in true (unbounded) arithmetic, and which have at most four loadable segments;
  the result is the entry point and those segments in file order, field by field as the format
  places them, with the unused slots empty.
\<close>

theorem elf_parse_exact:
  assumes "\<And>off. off \<in> set (ph_table d) \<Longrightarrow> off + 56 < 2 ^ 64"
    and "\<And>off. off \<in> set (pt_load d) \<Longrightarrow> segment_end d off < 2 ^ 64"
  shows "parse d len = Inr info \<longleftrightarrow>
    64 \<le> unat len \<and> elf_magic_ok d \<and>
    list_all (\<lambda>off. off + 56 \<le> unat len) (ph_table d) \<and>
    list_all (\<lambda>off. segment_end d off \<le> unat len) (pt_load d) \<and> length (pt_load d) \<le> 4 \<and>
    info = \<lparr>elf_entry = of_nat (le_at d 24 8),
            segments = map (segment_at d) (pt_load d) @ replicate (4 - length (pt_load d)) empty_segment,
            num_segments = length (pt_load d)\<rparr>"
proof -
  have o: "(of_nat off + 56 \<le> len) = (off + 56 \<le> unat len)" if "off \<in> set (ph_table d)" for off
  proof -
    have "unat (of_nat (off + 56) :: usize) = off + 56"
      by (rule unat_of_nat_small) (use assms(1) [OF that] in simp)
    then show ?thesis by (simp add: word_le_nat_alt)
  qed
  have e: "(p_offset ph + p_filesz ph \<le> len) = (segment_end d off \<le> unat len)"
    if "off \<in> set (pt_load d)" "ph = read_phdr d (of_nat off)" for off ph
  proof -
    have "unat (p_offset ph + p_filesz ph) = segment_end d off"
      unfolding phdr_fields(2) [symmetric] that(2)
      by (rule unat_add_small) (use assms(2) [OF that(1)] phdr_fields(2) [of d off] in simp)
    then show ?thesis by (simp only: word_le_nat_alt)
  qed
  have A: "(\<forall>off \<in> set (phdr_offsets d). off + 56 \<le> len) = list_all (\<lambda>off. off + 56 \<le> unat len) (ph_table d)"
    using o by (simp add: phdr_offsets_numbers list_all_iff)
  have B: "(\<forall>ph \<in> set (map (\<lambda>off. read_phdr d (of_nat off)) (pt_load d)). p_offset ph + p_filesz ph \<le> len) =
      list_all (\<lambda>off. segment_end d off \<le> unat len) (pt_load d)"
    using e by (simp add: list_all_iff)
  have C: "map phdr_segment (map (\<lambda>off. read_phdr d (of_nat off)) (pt_load d)) = map (segment_at d) (pt_load d)"
    by (simp add: phdr_fields(3))
  have D: "e_entry (read_header d 0) = of_nat (le_at d 24 8)" by (simp add: read_header_def load_num)
  show ?thesis
    unfolding parse_Inr header_ok_numbers loadable_numbers A B C D pad4_def length_map conj_assoc ..
qed

text \<open>An image of 120 bytes with one loadable segment of 16 bytes, at the given file offset.\<close>

definition one_segment :: "u8 list \<Rightarrow> u8 list" where
  "one_segment offset =
     [0x7F, 0x45, 0x4C, 0x46, 2, 1, 1, 0, 0, 0, 0, 0, 0, 0, 0, 0] @
     [2, 0, 0xF3, 0, 1, 0, 0, 0] @ [0, 0, 0, 0x50, 0, 0, 0, 0] @ [64, 0, 0, 0, 0, 0, 0, 0] @
     [0, 0, 0, 0, 0, 0, 0, 0] @ [0, 0, 0, 0, 64, 0, 56, 0, 1, 0, 0, 0, 0, 0, 0, 0] @
     [1, 0, 0, 0, 5, 0, 0, 0] @ offset @
     [0, 0, 0, 0x50, 0, 0, 0, 0] @ [0, 0, 0, 0, 0, 0, 0, 0] @ [16, 0, 0, 0, 0, 0, 0, 0] @
     [16, 0, 0, 0, 0, 0, 0, 0] @ [0, 0, 0, 0, 0, 0, 0, 0]"

definition image_bytes :: "u8 list \<Rightarrow> mem" where
  "image_bytes bs a = (if unat a < length bs then bs ! unat a else 0)"

definition small_elf :: mem where
  "small_elf = image_bytes (one_segment [100, 0, 0, 0, 0, 0, 0, 0])"

theorem elf_parse_exact_witness:
  "parse small_elf 120 = Inr \<lparr>elf_entry = 0x50000000,
     segments = \<lparr>file_offset = 100, seg_vaddr = 0x50000000, filesz = 16, memsz = 16,
                 executable = True\<rparr> # replicate 3 empty_segment, num_segments = 1\<rparr> \<and>
   parse small_elf 119 \<noteq> parse small_elf 120"
proof -
  note bytes = le_at_bytes small_elf_def image_bytes_def one_segment_def
  have t1: "ph_table small_elf = [64]" by (simp add: ph_table_def bytes)
  then have t2: "pt_load small_elf = [64]" by (simp add: pt_load_def) (simp add: bytes)
  have t3: "segment_end small_elf 64 = 116" "le_at small_elf 24 8 = 0x50000000"
    by (simp_all add: segment_end_def bytes)
  have t4: "elf_magic_ok small_elf" by (simp add: elf_magic_ok_def bytes)
  have t5: "segment_at small_elf 64 = \<lparr>file_offset = 100, seg_vaddr = 0x50000000, filesz = 16, memsz = 16,
       executable = True\<rparr>"
    by (simp add: segment_at_def bytes)
  note t = t1 t2 t3 t4 t5
  have 1: "off + 56 < 2 ^ 64" if "off \<in> set (ph_table small_elf)" for off using that by (simp add: t)
  have 2: "segment_end small_elf off < 2 ^ 64" if "off \<in> set (pt_load small_elf)" for off
    using that by (simp add: t)
  note ex = elf_parse_exact [OF 1 2]
  have y: "parse small_elf 120 = Inr \<lparr>elf_entry = 0x50000000,
     segments = \<lparr>file_offset = 100, seg_vaddr = 0x50000000, filesz = 16, memsz = 16,
                 executable = True\<rparr> # replicate 3 empty_segment, num_segments = 1\<rparr>"
    by (rule ex [THEN iffD2]) (simp_all add: t)
  moreover have "parse small_elf 119 \<noteq> Inr info" for info using ex [THEN iffD1] by (fastforce simp: t)
  ultimately show ?thesis by metis
qed

text \<open>
  The segment bounds test can be bypassed without that hypothesis: \<open>p_offset + p_filesz\<close> wraps
  around in a release build, so the parser accepts an image of 120 bytes with a segment that starts
  eight bytes below \<open>2 ^ 64\<close>, far outside the image the comment says it is validated against.
\<close>

definition wrap_elf :: mem where
  "wrap_elf = image_bytes (one_segment [0xF8, 0xFF, 0xFF, 0xFF, 0xFF, 0xFF, 0xFF, 0xFF])"

theorem elf_bounds_wrap:
  "parse wrap_elf 120 = Inr \<lparr>elf_entry = 0x50000000,
     segments = \<lparr>file_offset = 0xFFFFFFFFFFFFFFF8, seg_vaddr = 0x50000000, filesz = 16, memsz = 16,
                 executable = True\<rparr> # replicate 3 empty_segment, num_segments = 1\<rparr>"
  by code_simp

text \<open>
  The page count of a segment is the least number of pages from the segment's first page that
  covers its last byte, for every segment that does not run past the top of the address space.
\<close>

theorem pages_needed_exact:
  assumes "unat vaddr + unat memsz' + 4095 < 2 ^ 64" "0 < unat memsz'"
  shows "unat (pages_needed memsz' vaddr) =
    (unat vaddr + unat memsz' - 1) div 4096 - unat vaddr div 4096 + 1"
proof -
  let ?e = "vaddr + memsz' + PAGE_SIZE - 1"
  have eq: "pages_needed memsz' vaddr = (page_of ?e - page_of vaddr) div PAGE_SIZE"
    by (simp add: pages_needed_def Let_def page_of_def PAGE_SIZE_def)
  have e: "?e = vaddr + memsz' + 4095" by (simp add: PAGE_SIZE_def)
  have s: "unat (vaddr + memsz') = unat vaddr + unat memsz'"
    using assms(1) by (intro unat_add_small) simp
  have ue: "unat ?e = unat vaddr + unat memsz' + 4095"
    unfolding e using assms(1) s by (subst unat_add_small) simp_all
  have k: "unat vaddr + unat memsz' + 4095 = (unat vaddr + unat memsz' - 1) + 4096"
    using assms(2) by simp
  have q: "unat ?e div 4096 = (unat vaddr + unat memsz' - 1) div 4096 + 1"
    unfolding ue k by simp
  have le: "unat vaddr div 4096 \<le> (unat vaddr + unat memsz' - 1) div 4096"
    using assms(2) by (intro div_le_mono) simp
  have "page_of vaddr \<le> page_of ?e"
    using q le by (simp only: word_le_nat_alt unat_page_of) simp
  then have "unat (page_of ?e - page_of vaddr) = unat ?e div 4096 * 4096 - unat vaddr div 4096 * 4096"
    by (simp only: unat_sub unat_page_of)
  then have "unat (pages_needed memsz' vaddr) = unat ?e div 4096 - unat vaddr div 4096"
    unfolding eq by (simp add: unat_div PAGE_SIZE_def diff_mult_distrib [symmetric])
  then show ?thesis using q le by (simp add: Suc_diff_le)
qed

theorem pages_needed_exact_witness: "unat (pages_needed 0x1001 0x50000FFF) = 2"
  using pages_needed_exact [of "0x50000FFF" "0x1001"] by simp

end
