(* ===== verification/Loader.thy ===== *)
theory Loader
  imports Ipc Elf
begin

unbundle bit_operations_syntax

text \<open>
  The steps that \<open>sys_spawn\<close> (\<open>syscall.rs\<close>) and the boot-time creation functions of \<open>lifecycle.rs\<close>
  share: copying an image, loading ELF segments page by page into a fresh address space, and
  filling in a process table entry.  The relation \<open>vm_only\<close> says that an operation touches nothing
  but memory and the page allocator, which is all the address-space operations do.

  A byte of the image is read by a function \<open>rd\<close> from the kernel state and an address: for images
  in kernel memory it is \<open>ram\<close>; for \<open>sys_spawn\<close> it is the load the hart performs at a user virtual
  address, an argument of the model.
\<close>

section \<open>Model\<close>

definition copy_loop :: "('z vm_scheme \<Rightarrow> usize \<Rightarrow> u8) \<Rightarrow> usize \<Rightarrow> usize \<Rightarrow> nat \<Rightarrow> 'z vm_scheme \<Rightarrow> 'z vm_scheme" where
  "copy_loop rd src dst n s =
     fold (\<lambda>b s. s\<lparr>ram := (ram s)(dst + of_nat b := rd s (src + of_nat b))\<rparr>) [0..<n] s"

text \<open>The file bytes of a segment that fall into the page of \<open>va\<close>, copied to the frame \<open>page\<close>.\<close>

definition fill_page ::
  "('z vm_scheme \<Rightarrow> usize \<Rightarrow> u8) \<Rightarrow> usize \<Rightarrow> load_segment \<Rightarrow> usize \<Rightarrow> usize \<Rightarrow> 'z vm_scheme \<Rightarrow> 'z vm_scheme" where
  "fill_page rd elf_data seg va page s =
     (let page_start = va;
          page_end = va + PAGE_SIZE;
          seg_file_start = seg_vaddr seg;
          seg_file_end = seg_vaddr seg + filesz seg;
          copy_start = (if page_start < seg_file_start then seg_file_start else page_start);
          copy_end = (if seg_file_end < page_end then seg_file_end else page_end)
      in if copy_start < copy_end then
           copy_loop rd (elf_data + (file_offset seg + (copy_start - seg_vaddr seg)))
             (page + (copy_start - page_start)) (unat (copy_end - copy_start)) s
         else s)"

definition load_page ::
  "('z vm_scheme \<Rightarrow> usize \<Rightarrow> u8) \<Rightarrow> usize \<Rightarrow> load_segment \<Rightarrow> usize \<Rightarrow> pte_flags \<Rightarrow> usize \<Rightarrow> 'z vm_scheme \<Rightarrow>
   'z vm_scheme option" where
  "load_page rd elf_data seg user_root flags va s = do {
     (page, s) \<leftarrow> alloc_zeroed_page s;
     map_user_page (fill_page rd elf_data seg va page s) user_root va page flags
   }"

fun load_pages ::
  "('z vm_scheme \<Rightarrow> usize \<Rightarrow> u8) \<Rightarrow> usize \<Rightarrow> load_segment \<Rightarrow> usize \<Rightarrow> pte_flags \<Rightarrow> usize list \<Rightarrow> 'z vm_scheme \<Rightarrow>
   'z vm_scheme option" where
  "load_pages rd elf_data seg user_root flags [] s = Some s"
| "load_pages rd elf_data seg user_root flags (va # vas) s = do {
     s \<leftarrow> load_page rd elf_data seg user_root flags va s;
     load_pages rd elf_data seg user_root flags vas s
   }"

definition segment_pages :: "load_segment \<Rightarrow> usize list" where
  "segment_pages seg =
     (let num_pages = pages_needed (memsz seg) (seg_vaddr seg);
          base_va = seg_vaddr seg AND NOT (PAGE_SIZE - 1)
      in map (\<lambda>p. base_va + of_nat p * PAGE_SIZE) [0..<unat num_pages])"

fun load_segments ::
  "('z vm_scheme \<Rightarrow> usize \<Rightarrow> u8) \<Rightarrow> usize \<Rightarrow> usize \<Rightarrow> load_segment list \<Rightarrow> 'z vm_scheme \<Rightarrow> 'z vm_scheme option" where
  "load_segments rd elf_data user_root [] s = Some s"
| "load_segments rd elf_data user_root (seg # segs) s = do {
     s \<leftarrow> load_pages rd elf_data seg user_root (if executable seg then USER_RX else USER_RW)
            (segment_pages seg) s;
     load_segments rd elf_data user_root segs s
   }"

definition STACK_VA :: usize where "STACK_VA = 0x7FFF0000"

text \<open>Address space of an ELF image: kernel regions, segments, one stack page; returns the root.\<close>

definition build_elf_space ::
  "layout \<Rightarrow> ('z vm_scheme \<Rightarrow> usize \<Rightarrow> u8) \<Rightarrow> usize \<Rightarrow> elf_info \<Rightarrow> 'z vm_scheme \<Rightarrow> (usize \<times> 'z vm_scheme) option" where
  "build_elf_space L rd elf_data info s = do {
     (user_root, s) \<leftarrow> alloc_zeroed_page s;
     s \<leftarrow> map_kernel_regions L s user_root;
     s \<leftarrow> load_segments rd elf_data user_root (take (num_segments info) (segments info)) s;
     (user_stack, s) \<leftarrow> alloc_zeroed_page s;
     s \<leftarrow> map_user_page s user_root STACK_VA user_stack USER_RW;
     Some (user_root, s)
   }"

text \<open>The \<open>Process { ... }\<close> literal of the three creation functions.\<close>

definition new_process :: "usize \<Rightarrow> u64 \<Rightarrow> usize \<Rightarrow> usize \<Rightarrow> usize \<Rightarrow> process" where
  "new_process pid stp entry_pc user_sp parent =
     \<lparr>pr_pid = pid, pr_state = Ready, pr_satp = stp,
      pr_context = TrapFrame_zero\<lparr>tf_sepc := entry_pc, tf_sp := user_sp, tf_sstatus := push_bit 5 1\<rparr>,
      pr_ipc_target = 0, pr_ipc_value = 0, pr_ipc_arg2 = 0, pr_ipc_arg3 = 0, pr_parent = parent,
      pr_exit_code = 0, pr_irq_num = 0, pr_irq_pending = False, pr_net_op = NetNone, pr_net_socket = 0,
      pr_net_buf_va = 0, pr_net_buf_len = 0\<rparr>"

lemma new_process_sel [simp]:
  "pr_pid (new_process pid stp pc sp par) = pid" "pr_state (new_process pid stp pc sp par) = Ready"
  "pr_satp (new_process pid stp pc sp par) = stp" "pr_parent (new_process pid stp pc sp par) = par"
  "user_mode (pr_context (new_process pid stp pc sp par))"
  "tf_sepc (pr_context (new_process pid stp pc sp par)) = pc"
  "tf_sp (pr_context (new_process pid stp pc sp par)) = sp"
  by (simp_all add: new_process_def user_mode_def)

section \<open>Only memory changes\<close>

definition vm_only :: "'z vm_scheme \<Rightarrow> 'z vm_scheme \<Rightarrow> bool" where
  "vm_only s s' \<longleftrightarrow> (\<exists>m a. s' = s\<lparr>ram := m, page_bitmap := a\<rparr>)"

lemma vm_only_refl [simp]: "vm_only s s"
  unfolding vm_only_def by (intro exI [of _ "ram s"] exI [of _ "page_bitmap s"]) simp

lemma vm_only_trans: "vm_only s s' \<Longrightarrow> vm_only s' s'' \<Longrightarrow> vm_only s s''"
  unfolding vm_only_def by (elim exE) (simp, metis)

lemma vm_only_ram [simp]: "vm_only s (s\<lparr>ram := m\<rparr>)"
  unfolding vm_only_def by (intro exI [of _ m] exI [of _ "page_bitmap s"]) simp

lemma vm_only_both [simp]: "vm_only s (s\<lparr>ram := m, page_bitmap := a\<rparr>)"
  unfolding vm_only_def by blast

lemma vm_only_bitmap [simp]: "vm_only s (s\<lparr>page_bitmap := a\<rparr>)"
  unfolding vm_only_def by (intro exI [of _ "ram s"] exI [of _ a]) simp

lemma vm_only_kernel:
  fixes k k' :: kernel
  assumes "vm_only k k'"
  shows "procs k' = procs k" "current_pid k' = current_pid k" "satp k' = satp k"
    "irq_owners k' = irq_owners k" "frame k' = frame k" "dev k' = dev k" "ticks k' = ticks k"
    "kernel_satp k' = kernel_satp k"
  using assms unfolding vm_only_def by auto

lemma alloc_zeroed_page_only: "alloc_zeroed_page s = Some (p, s') \<Longrightarrow> vm_only s s'"
  by (auto simp: alloc_zeroed_page_def split: bind_splits prod.splits)

lemma write_pte_only: "write_pte s t i e = Some s' \<Longrightarrow> vm_only s s'"
  by (auto simp: write_pte_def split: bind_splits)

lemma walk_or_create_only:
  assumes "walk_or_create s t i = Some (p, s')"
  shows "vm_only s s'"
proof -
  obtain e where e: "read_pte s t i = Some e" using assms by (auto simp: walk_or_create_def split: bind_splits)
  show ?thesis
  proof (cases "Pte_is_valid e")
    case True
    then show ?thesis using assms e by (auto simp: walk_or_create_def split: bind_splits)
  next
    case False
    then obtain s1 where "alloc_zeroed_page s = Some (p, s1)" "write_pte s1 t i (Pte_branch p) = Some s'"
      using assms e by (auto simp: walk_or_create_def split: bind_splits)
    then show ?thesis using alloc_zeroed_page_only write_pte_only vm_only_trans by metis
  qed
qed

lemma map_page_only:
  assumes "map_page s r va pa f = Some s'"
  shows "vm_only s s'"
proof -
  obtain i j l off where va: "va_parts va = (i, j, l, off)" by (metis prod_cases4)
  obtain p1 s1 p2 s2 where "walk_or_create s r i = Some (p1, s1)" "walk_or_create s1 p1 j = Some (p2, s2)"
    "write_pte s2 p2 l (Pte_new pa f) = Some s'"
    using assms va by (auto simp: map_page_def split: bind_splits)
  then show ?thesis using walk_or_create_only write_pte_only vm_only_trans by metis
qed

lemma map_user_page_only: "map_user_page s r va pa f = Some s' \<Longrightarrow> vm_only s s'"
  unfolding map_user_page_def by (rule map_page_only)

lemma map_range_loop_only:
  assumes "map_range_loop r e f a s = Some s'"
  shows "vm_only s s'"
proof (rule map_range_loop.raw_induct [where P = "\<lambda>_ _ _ _ s s'. vm_only s s'", OF _ assms])
  fix loop :: "usize \<Rightarrow> usize \<Rightarrow> pte_flags \<Rightarrow> usize \<Rightarrow> 'z vm_scheme \<Rightarrow> 'z vm_scheme option"
    and r e f a and s s' :: "'z vm_scheme"
  assume IH: "\<And>r e f a s s'. loop r e f a s = Some s' \<Longrightarrow> vm_only s s'"
    and run: "(if a < e then map_page s r a a f \<bind> loop r e f (a + PAGE_SIZE) else Some s) = Some s'"
  show "vm_only s s'"
  proof (cases "a < e")
    case True
    then obtain s1 where "map_page s r a a f = Some s1" "loop r e f (a + PAGE_SIZE) s1 = Some s'"
      using run by (auto split: bind_splits)
    then show ?thesis using IH map_page_only vm_only_trans by metis
  qed (use run in simp)
qed

lemma map_range_only: "map_range s r a e f = Some s' \<Longrightarrow> vm_only s s'"
  unfolding map_range_def Let_def by (rule map_range_loop_only)

lemma map_regions_only: "map_regions s r rs = Some s' \<Longrightarrow> vm_only s s'"
proof (induction rs arbitrary: s)
  case (Cons x rs)
  obtain a e f where x: "x = (a, e, f)" by (cases x)
  obtain s1 where "map_range s r a e f = Some s1" "map_regions s1 r rs = Some s'"
    using Cons.prems by (auto simp: x split: bind_splits)
  then show ?case using Cons.IH map_range_only vm_only_trans by metis
qed simp

lemma unmap_page_only:
  assumes "unmap_page s r va = Some (b, s')"
  shows "vm_only s s'"
proof -
  obtain i j l off where va: "va_parts va = (i, j, l, off)" by (metis prod_cases4)
  show ?thesis
    using assms va by (auto simp: unmap_page_def split: bind_splits if_splits dest: write_pte_only)
qed

lemma map_kernel_regions_only:
  assumes "map_kernel_regions L s r = Some s'"
  shows "vm_only s s'"
proof -
  have "layout_ok L \<or> map_kernel_regions L s r = map_regions s r (kernel_regions L)"
    using assms by (auto simp: map_kernel_regions_def linker_range_def kernel_regions_def split: bind_splits)
  then show ?thesis using assms map_kernel_regions_eq map_regions_only by metis
qed

lemma copy_loop_only: "vm_only s (copy_loop rd src dst n s)"
proof (induction n)
  case (Suc n)
  have "vm_only (copy_loop rd src dst n s) (copy_loop rd src dst (Suc n) s)" by (simp add: copy_loop_def)
  then show ?case using Suc vm_only_trans by blast
qed (simp add: copy_loop_def)

lemma fill_page_only: "vm_only s (fill_page rd d seg va page s)"
  unfolding fill_page_def Let_def by (simp add: copy_loop_only)

lemma load_page_only:
  assumes "load_page rd d seg r f va s = Some s'"
  shows "vm_only s s'"
proof -
  obtain p s1 where "alloc_zeroed_page s = Some (p, s1)" "map_user_page (fill_page rd d seg va p s1) r va p f = Some s'"
    using assms by (auto simp: load_page_def split: bind_splits)
  then show ?thesis using alloc_zeroed_page_only fill_page_only map_user_page_only vm_only_trans by metis
qed

lemma load_pages_only: "load_pages rd d seg r f vas s = Some s' \<Longrightarrow> vm_only s s'"
proof (induction vas arbitrary: s)
  case (Cons va vas)
  then obtain s1 where "load_page rd d seg r f va s = Some s1" "load_pages rd d seg r f vas s1 = Some s'"
    by (auto split: bind_splits)
  then show ?case using Cons.IH load_page_only vm_only_trans by metis
qed simp

lemma load_segments_only: "load_segments rd d r segs s = Some s' \<Longrightarrow> vm_only s s'"
proof (induction segs arbitrary: s)
  case (Cons seg segs)
  then obtain s1 where "load_pages rd d seg r (if executable seg then USER_RX else USER_RW) (segment_pages seg) s = Some s1"
    "load_segments rd d r segs s1 = Some s'"
    by (auto split: bind_splits)
  then show ?case using Cons.IH load_pages_only vm_only_trans by metis
qed simp

lemma build_elf_space_only:
  assumes "build_elf_space L rd d info s = Some (r, s')"
  shows "vm_only s s'"
proof -
  obtain s1 s2 s3 stk s4 where st: "alloc_zeroed_page s = Some (r, s1)" "map_kernel_regions L s1 r = Some s2"
    "load_segments rd d r (take (num_segments info) (segments info)) s2 = Some s3"
    "alloc_zeroed_page s3 = Some (stk, s4)" "map_user_page s4 r STACK_VA stk USER_RW = Some s'"
    using assms by (auto simp: build_elf_space_def split: bind_splits)
  from st show ?thesis
    using alloc_zeroed_page_only map_kernel_regions_only load_segments_only map_user_page_only vm_only_trans
    by metis
qed

end
