(* ===== verification/User_Mem.thy ===== *)
theory User_Mem
  imports Kvm
begin

unbundle bit_operations_syntax

text \<open>
  Correctness of the user-buffer access of \<open>kvm.rs\<close> (\<open>walk_user_range\<close>, \<open>copy_from_user\<close>,
  \<open>copy_to_user\<close>, \<open>translate_user\<close>): the chunked copy is equivalent to translating and copying
  byte by byte, validation is complete before the first byte moves, and only user-accessible
  heap pages are ever touched.
\<close>

section \<open>User buffers\<close>

text \<open>
  What one byte of a user buffer is: its physical address if it lies below \<open>USER_VA_MAX\<close>, is
  mapped with \<open>U\<close> (and \<open>W\<close> if it is to be written) and falls into the heap.
\<close>

definition user_access :: "layout \<Rightarrow> mem \<Rightarrow> usize \<Rightarrow> bool \<Rightarrow> usize \<Rightarrow> usize option" where
  "user_access L m root nw va =
     (if USER_VA_MAX \<le> va then None
      else case walk root va (load64 m) of
        None \<Rightarrow> None
      | Some r \<Rightarrow>
          if flags_contains (wr_flags r) PTE_USER \<and> (nw \<longrightarrow> flags_contains (wr_flags r) PTE_WRITE) \<and>
             is_user_heap_pa L (page_of (wr_phys r))
          then Some (wr_phys r) else None)"

definition chunk_addrs :: "chunk \<Rightarrow> usize list" where
  "chunk_addrs c = map (\<lambda>k. c_pa c + of_nat k) [0..<unat (c_len c)]"

lemma unat_bytes_to_page_end: "unat (bytes_to_page_end va) = 4096 - unat (take_bit 12 va)"
proof -
  have "take_bit 12 va \<le> 4096" using unat_take12 [of va] by (simp add: word_le_nat_alt)
  then show ?thesis
    by (simp add: bytes_to_page_end_def mask_numerals take_bit_eq_mask [symmetric] unat_sub)
qed

text \<open>Moving within a page keeps the page and shifts the translation.\<close>

lemma in_page_add:
  assumes "k < unat (bytes_to_page_end va)"
  shows "take_bit 12 (va + of_nat k) = take_bit 12 va + of_nat k" "page_of (va + of_nat k) = page_of va"
    "drop_bit 12 (va + of_nat k) = drop_bit 12 va"
proof -
  define w where "w = take_bit 12 va + (of_nat k :: usize)"
  have k: "unat (take_bit 12 va) + k < 4096" using assms by (simp add: unat_bytes_to_page_end)
  then have "unat w = unat (take_bit 12 va) + k"
    unfolding w_def by (subst unat_add_small) (simp_all add: unat_of_nat_small)
  then have w: "take_bit 12 w = w" using k by (intro take12_small) (simp add: word_less_nat_alt)
  have eq: "va + of_nat k = page_of va + w" unfolding w_def by (metis add.assoc page_split)
  show pg: "page_of (va + of_nat k) = page_of va" unfolding eq by (rule page_of_add [OF page_of_aligned w])
  show "take_bit 12 (va + of_nat k) = take_bit 12 va + of_nat k"
  proof -
    have "page_of va + take_bit 12 (va + of_nat k) = page_of va + w"
      using page_split [of "va + of_nat k"] unfolding pg eq [symmetric] .
    then show ?thesis by (simp only: add_left_cancel w_def)
  qed
  show "drop_bit 12 (va + of_nat k) = drop_bit 12 va"
  proof (rule bit_word_eqI)
    fix n show "bit (drop_bit 12 (va + of_nat k)) n = bit (drop_bit 12 va) n"
      using arg_cong [OF pg, of "\<lambda>x. bit x (12 + n)"] by (simp add: bit_page_of bit_drop_bit_eq)
  qed
qed

lemma walk_offset:
  assumes "walk root va rd = Some r" "k < unat (bytes_to_page_end va)"
  shows "walk root (va + of_nat k) rd = Some \<lparr>wr_phys = wr_phys r + of_nat k, wr_flags = wr_flags r\<rparr>"
proof -
  obtain i j l off where va: "va_parts va = (i, j, l, off)" by (metis prod_cases4)
  note P = in_page_add [OF assms(2)]
  have hi: "drop_bit (18 + 12) (va + of_nat k) = drop_bit (18 + 12) va"
    "drop_bit (9 + 12) (va + of_nat k) = drop_bit (9 + 12) va"
    using P(3) by (simp_all only: drop_bit_drop_bit [symmetric])
  have va': "va_parts (va + of_nat k) = (i, j, l, off + of_nat k)"
    using va P(1,3) hi by (simp add: va_parts_take)
  show ?thesis
    using assms(1) unfolding walk_lookups [OF va refl refl refl] walk_lookups [OF va' refl refl refl]
    by (auto split: if_splits)
qed

lemma walk_phys_page_end:
  assumes "walk root va rd = Some r"
  shows "bytes_to_page_end (wr_phys r) = bytes_to_page_end va"
proof -
  obtain i j l off where va: "va_parts va = (i, j, l, off)" by (metis prod_cases4)
  then have off: "off = take_bit 12 va" by (simp add: va_parts_take)
  have "take_bit 12 (Pte_phys_addr e + off) = take_bit 12 va" for e
    unfolding off using page_add_or [OF Pte_phys_aligned [of e], of "take_bit 12 va"]
    by (simp add: take_bit_or Pte_phys_aligned [unfolded page_aligned_iff])
  then show ?thesis
    using assms unfolding walk_lookups [OF va refl refl refl]
    by (auto simp: bytes_to_page_end_def mask_numerals take_bit_eq_mask [symmetric] split: if_splits)
qed

lemma access_offset:
  assumes "user_access L m root nw va = Some pa" "k < unat (bytes_to_page_end va)"
  shows "user_access L m root nw (va + of_nat k) = Some (pa + of_nat k)"
proof -
  from assms(1) obtain r where r: "walk root va (load64 m) = Some r" "\<not> USER_VA_MAX \<le> va"
    "flags_contains (wr_flags r) PTE_USER" "nw \<longrightarrow> flags_contains (wr_flags r) PTE_WRITE"
    "is_user_heap_pa L (page_of (wr_phys r))" "pa = wr_phys r"
    by (auto simp: user_access_def split: if_splits option.splits)
  note P = in_page_add [OF assms(2)]
  have "k < unat (bytes_to_page_end (wr_phys r))" using assms(2) walk_phys_page_end [OF r(1)] by simp
  then have pg: "page_of (wr_phys r + of_nat k) = page_of (wr_phys r)" by (rule in_page_add(2))
  have "\<not> USER_VA_MAX \<le> va + of_nat k"
  proof -
    have q: "unat va div 4096 = unat (va + of_nat k) div 4096"
      using arg_cong [OF P(2), of unat] by (simp add: unat_page_of)
    have "unat va < 2147483648" using r(2) by (simp add: USER_VA_MAX_def word_le_nat_alt)
    then have "unat va div 4096 < 524288" by (simp add: div_less_iff_less_mult)
    then have "unat (va + of_nat k) < 2147483648" unfolding q by (simp add: div_less_iff_less_mult)
    then show ?thesis by (simp add: USER_VA_MAX_def word_le_nat_alt)
  qed
  then show ?thesis using walk_offset [OF r(1) assms(2)] r(3-6) pg by (simp add: user_access_def)
qed

lemma walk_chunks_step:
  "walk_chunks (Suc n) L m root uva tot nw d =
     (if d < tot then
        (case user_access L m root nw (uva + d) of
           None \<Rightarrow> Inl ()
         | Some pa \<Rightarrow>
             let cl = min (bytes_to_page_end (uva + d)) (tot - d)
             in case walk_chunks n L m root uva tot nw (d + cl) of
                  Inl e \<Rightarrow> Inl e | Inr cs \<Rightarrow> Inr (\<lparr>c_pa = pa, c_len = cl\<rparr> # cs))
      else Inr [])"
  by (auto simp: user_access_def Let_def page_of_def split: option.split)

text \<open>The length of the next chunk never overruns the request and never leaves the page.\<close>

lemma chunk_len:
  assumes "d < tot" and cl: "cl = min (bytes_to_page_end va) (tot - d)"
  shows "0 < unat cl" "unat cl \<le> unat (bytes_to_page_end va)" "unat (d + cl) = unat d + unat cl"
    "d + cl \<le> tot" "unat d + unat cl \<le> unat tot"
    "unat cl = min (4096 - unat (take_bit 12 va)) (unat tot - unat d)"
proof -
  have td: "unat (tot - d) = unat tot - unat d" using assms(1) by (simp add: unat_sub)
  then show u: "unat cl = min (4096 - unat (take_bit 12 va)) (unat tot - unat d)"
    unfolding cl by (simp add: min_def unat_bytes_to_page_end word_le_nat_alt)
  show "0 < unat cl" using u unat_take12 [of va] assms(1) by (simp add: word_less_nat_alt)
  show "unat cl \<le> unat (bytes_to_page_end va)" using u by (simp add: unat_bytes_to_page_end)
  show le: "unat d + unat cl \<le> unat tot" using u assms(1) by (simp add: word_less_nat_alt)
  then show s: "unat (d + cl) = unat d + unat cl"
    using unat_lt2p [of tot] by (intro unat_add_small) simp
  show "d + cl \<le> tot" using s le by (simp add: word_le_nat_alt)
qed

lemma access_chunk:
  assumes "d < tot" "cl = min (bytes_to_page_end (uva + d)) (tot - d)"
    and "user_access L m root nw (uva + d) = Some pa" "unat d \<le> i" "i < unat d + unat cl"
  shows "user_access L m root nw (uva + of_nat i) = Some (pa + of_nat (i - unat d))"
proof -
  have "uva + of_nat i = (uva + d) + of_nat (i - unat d)"
    using assms(4) by (simp add: of_nat_diff)
  moreover have "i - unat d < unat (bytes_to_page_end (uva + d))"
    using chunk_len(2) [OF assms(1,2)] assms(4,5) by linarith
  ultimately show ?thesis using access_offset [OF assms(3)] by (simp only:)
qed

lemma walk_chunks_sound:
  assumes "walk_chunks n L m root uva tot nw d = Inr cs" "d \<le> tot"
  shows "(\<forall>i. unat d \<le> i \<longrightarrow> i < unat tot \<longrightarrow> user_access L m root nw (uva + of_nat i) \<noteq> None) \<and>
    concat (map chunk_addrs cs) =
      map (\<lambda>i. the (user_access L m root nw (uva + of_nat i))) [unat d..<unat tot]"
  using assms
proof (induction n arbitrary: d cs)
  case 0
  then show ?case by (auto simp: word_less_nat_alt word_le_nat_alt split: if_splits)
next
  case (Suc n)
  show ?case
  proof (cases "d < tot")
    case False
    then show ?thesis using Suc.prems by (auto simp: walk_chunks_step word_less_nat_alt)
  next
    case True
    define cl where cl: "cl = min (bytes_to_page_end (uva + d)) (tot - d)"
    note C = chunk_len [OF True cl]
    obtain pa cs' where pa: "user_access L m root nw (uva + d) = Some pa"
      and cs': "walk_chunks n L m root uva tot nw (d + cl) = Inr cs'" "cs = \<lparr>c_pa = pa, c_len = cl\<rparr> # cs'"
      using Suc.prems(1) True
      by (auto simp: walk_chunks_step cl Let_def simp del: walk_chunks.simps split: option.splits sum.splits)
    note A = access_chunk [OF True cl pa]
    have IH: "\<forall>i. unat d + unat cl \<le> i \<longrightarrow> i < unat tot \<longrightarrow> user_access L m root nw (uva + of_nat i) \<noteq> None"
      "concat (map chunk_addrs cs') =
        map (\<lambda>i. the (user_access L m root nw (uva + of_nat i))) [unat d + unat cl..<unat tot]"
      using Suc.IH [OF cs'(1) C(4)] C(3) by auto
    have "chunk_addrs \<lparr>c_pa = pa, c_len = cl\<rparr> =
        map (\<lambda>i. the (user_access L m root nw (uva + of_nat i))) [unat d..<unat d + unat cl]"
      unfolding chunk_addrs_def using A [of "unat d + _"]
      by (intro nth_equalityI) (simp_all del: of_nat_add)
    moreover have "[unat d..<unat tot] = [unat d..<unat d + unat cl] @ [unat d + unat cl..<unat tot]"
      using C(5) upt_add_eq_append [of "unat d" "unat d + unat cl" "unat tot - (unat d + unat cl)"] by simp
    moreover have "user_access L m root nw (uva + of_nat i) \<noteq> None" if "unat d \<le> i" "i < unat tot" for i
      using A [OF that(1)] IH(1) that by (cases "i < unat d + unat cl") auto
    ultimately show ?thesis using IH(2) cs'(2) by simp
  qed
qed

lemma aligned_add_page:
  assumes "p mod PAGE_SIZE = 0"
  shows "(p + 4096) mod PAGE_SIZE = 0"
proof -
  have "unat (p + 4096) mod 4096 = (unat p + 4096) mod 2 ^ 64 mod 4096" by (simp add: unat_word_ariths)
  also have "\<dots> = (unat p + 4096) mod 4096" by (rule mod_mod_cancel) simp
  also have "\<dots> = 0" using assms by (simp add: aligned_unat)
  finally show ?thesis by (simp only: aligned_unat)
qed

lemma walk_chunks_complete:
  assumes "\<And>i. unat d \<le> i \<Longrightarrow> i < unat tot \<Longrightarrow> user_access L m root nw (uva + of_nat i) \<noteq> None"
    and "unat (take_bit 12 (uva + d)) + (unat tot - unat d) \<le> 4096 * n"
  shows "\<exists>cs. walk_chunks n L m root uva tot nw d = Inr cs"
  using assms
proof (induction n arbitrary: d)
  case 0
  then show ?case by (simp add: word_less_nat_alt)
next
  case (Suc n)
  show ?case
  proof (cases "d < tot")
    case False
    then show ?thesis by (simp add: walk_chunks_step)
  next
    case True
    define cl where cl: "cl = min (bytes_to_page_end (uva + d)) (tot - d)"
    note C = chunk_len [OF True cl]
    obtain pa where pa: "user_access L m root nw (uva + d) = Some pa"
      using Suc.prems(1) [of "unat d"] True by (auto simp: word_less_nat_alt)
    have "\<exists>cs. walk_chunks n L m root uva tot nw (d + cl) = Inr cs"
    proof (cases "d + cl < tot")
      case False
      then show ?thesis by (cases n) (simp_all add: walk_chunks_step del: walk_chunks.simps(2))
    next
      case more: True
      have c: "unat cl = 4096 - unat (take_bit 12 (uva + d))"
        using more C(3,6) by (simp add: word_less_nat_alt)
      have "cl = 4096 - take_bit 12 (uva + d)"
      proof -
        have "cl = bytes_to_page_end (uva + d)" using c by (simp add: word_unat_eq_iff unat_bytes_to_page_end)
        then show ?thesis by (simp add: bytes_to_page_end_def mask_numerals take_bit_eq_mask)
      qed
      moreover have "uva + (d + cl) = (page_of (uva + d) + take_bit 12 (uva + d)) + cl"
        by (simp add: page_split add.assoc)
      ultimately have "uva + (d + cl) = page_of (uva + d) + 4096" by (simp only: add.assoc) simp
      moreover have "(page_of (uva + d) + 4096) mod PAGE_SIZE = 0"
        by (rule aligned_add_page [OF page_of_aligned])
      ultimately have z: "take_bit 12 (uva + (d + cl)) = 0" by (simp add: page_aligned_iff)
      show ?thesis
      proof (rule Suc.IH)
        show "user_access L m root nw (uva + of_nat i) \<noteq> None" if "unat (d + cl) \<le> i" "i < unat tot" for i
          using Suc.prems(1) [of i] that C(3) by simp
        show "unat (take_bit 12 (uva + (d + cl))) + (unat tot - unat (d + cl)) \<le> 4096 * n"
          using Suc.prems(2) c C(3) unfolding z by simp
      qed
    qed
    then show ?thesis using True pa by (auto simp: walk_chunks_step cl Let_def simp del: walk_chunks.simps)
  qed
qed

section \<open>Copies\<close>

abbreviation user_addr :: "layout \<Rightarrow> mem \<Rightarrow> u64 \<Rightarrow> bool \<Rightarrow> usize \<Rightarrow> nat \<Rightarrow> usize option" where
  "user_addr L m stp nw va i \<equiv> user_access L m (satp_to_root stp) nw (va + of_nat i)"

lemma translate_user_access: "translate_user L m stp va = user_access L m (satp_to_root stp) False va"
  by (auto simp: translate_user_def user_access_def Let_def page_of_def split: option.split bind_split)

lemma load_bytes_chunk: "load_bytes m (c_pa c) (unat (c_len c)) = map m (chunk_addrs c)"
  by (simp add: load_bytes_def chunk_addrs_def)

lemma walk_user_range_sound:
  assumes "walk_user_range L m stp va tot nw = Inr cs"
  shows "\<And>i. i < unat tot \<Longrightarrow> user_addr L m stp nw va i \<noteq> None"
    and "concat (map chunk_addrs cs) = map (\<lambda>i. the (user_addr L m stp nw va i)) [0..<unat tot]"
  using walk_chunks_sound [OF assms [unfolded walk_user_range_def]] by simp_all

lemma walk_user_range_complete:
  assumes "\<And>i. i < unat tot \<Longrightarrow> user_addr L m stp nw va i \<noteq> None"
    and "unat (take_bit 12 va) + unat tot \<le> 4096 * MAX_COPY_CHUNKS"
  obtains cs where "walk_user_range L m stp va tot nw = Inr cs"
  using walk_chunks_complete [of 0 tot L m "satp_to_root stp" nw va MAX_COPY_CHUNKS] assms
  by (auto simp: walk_user_range_def)

lemma in_chunk:
  assumes "unat (c_len c) < 2 ^ 64"
  shows "b \<in> set (chunk_addrs c) \<longleftrightarrow> unat (b - c_pa c) < unat (c_len c)"
proof
  assume "b \<in> set (chunk_addrs c)"
  then obtain k where k: "k < unat (c_len c)" "b - c_pa c = of_nat k" by (auto simp: chunk_addrs_def)
  then show "unat (b - c_pa c) < unat (c_len c)" using assms by (simp add: unat_of_nat_small)
next
  assume "unat (b - c_pa c) < unat (c_len c)"
  then show "b \<in> set (chunk_addrs c)"
    unfolding chunk_addrs_def by (auto intro!: image_eqI [of _ _ "unat (b - c_pa c)"])
qed

lemma store_chunk:
  assumes "length bs = unat (c_len c)"
  shows "b \<notin> set (chunk_addrs c) \<Longrightarrow> store_bytes m (c_pa c) bs b = m b"
    and "k < length bs \<Longrightarrow> store_bytes m (c_pa c) bs (chunk_addrs c ! k) = bs ! k"
proof -
  have lt: "unat (c_len c) < 2 ^ 64" by (rule unat_lt2p)
  show "b \<notin> set (chunk_addrs c) \<Longrightarrow> store_bytes m (c_pa c) bs b = m b"
    using in_chunk [OF lt] assms by (simp add: store_bytes_def)
  show "k < length bs \<Longrightarrow> store_bytes m (c_pa c) bs (chunk_addrs c ! k) = bs ! k"
    using lt assms by (simp add: store_bytes_def chunk_addrs_def unat_of_nat_small)
qed

lemma copy_out:
  assumes "length src = length (concat (map chunk_addrs cs))"
  shows "b \<notin> set (concat (map chunk_addrs cs)) \<Longrightarrow> copy_chunks_out m cs src b = m b"
    and "distinct (concat (map chunk_addrs cs)) \<Longrightarrow> k < length src \<Longrightarrow>
      copy_chunks_out m cs src (concat (map chunk_addrs cs) ! k) = src ! k"
proof -
  have "(b \<notin> set (concat (map chunk_addrs cs)) \<longrightarrow> copy_chunks_out m cs src b = m b) \<and>
    (distinct (concat (map chunk_addrs cs)) \<longrightarrow> k < length src \<longrightarrow>
      copy_chunks_out m cs src (concat (map chunk_addrs cs) ! k) = src ! k)" for b k
    using assms
  proof (induction cs arbitrary: m src k b)
    case (Cons c cs)
    let ?n = "unat (c_len c)"
    have n: "length (chunk_addrs c) = ?n" by (simp add: chunk_addrs_def)
    then have len: "length (take ?n src) = ?n" "length (drop ?n src) = length (concat (map chunk_addrs cs))"
      using Cons.prems by simp_all
    note S = store_chunk [OF len(1)]
    have frame: "b \<notin> set (concat (map chunk_addrs cs)) \<Longrightarrow>
        copy_chunks_out m' cs (drop ?n src) b = m' b" for m' b
      using Cons.IH [OF len(2)] by blast
    have val: "distinct (concat (map chunk_addrs cs)) \<Longrightarrow> k < length (drop ?n src) \<Longrightarrow>
        copy_chunks_out m' cs (drop ?n src) (concat (map chunk_addrs cs) ! k) = drop ?n src ! k" for m' k
      using Cons.IH [OF len(2)] by blast
    show ?case
    proof (intro conjI impI)
      assume "b \<notin> set (concat (map chunk_addrs (c # cs)))"
      then show "copy_chunks_out m (c # cs) src b = m b" using frame S(1) by simp
    next
      assume d: "distinct (concat (map chunk_addrs (c # cs)))" and k: "k < length src"
      show "copy_chunks_out m (c # cs) src (concat (map chunk_addrs (c # cs)) ! k) = src ! k"
      proof (cases "k < ?n")
        case True
        then have "chunk_addrs c ! k \<in> set (chunk_addrs c)" using n by simp
        then have "chunk_addrs c ! k \<notin> set (concat (map chunk_addrs cs))" using d by auto
        then show ?thesis using True frame S(2) [of k] n len(1) by (simp add: nth_append)
      next
        case False
        then show ?thesis using val [of "k - ?n"] d k n by (simp add: nth_append)
      qed
    qed
  qed simp
  then show "b \<notin> set (concat (map chunk_addrs cs)) \<Longrightarrow> copy_chunks_out m cs src b = m b"
    and "distinct (concat (map chunk_addrs cs)) \<Longrightarrow> k < length src \<Longrightarrow>
      copy_chunks_out m cs src (concat (map chunk_addrs cs) ! k) = src ! k" by blast+
qed

section \<open>Properties\<close>

lemma copy_length: "length src < 2 ^ 64 \<Longrightarrow> unat (of_nat (length src) :: usize) = length src"
  by (rule unat_of_nat_small) simp

lemma copy_to_user_Inr:
  assumes "copy_to_user L m stp va src = Inr m'" "length src < 2 ^ 64"
  shows "\<And>i. i < length src \<Longrightarrow> user_addr L m stp True va i \<noteq> None"
    "\<And>b. (\<And>i. i < length src \<Longrightarrow> user_addr L m stp True va i \<noteq> Some b) \<Longrightarrow> m' b = m b"
    "\<And>i. inj_on (user_addr L m stp True va) {..<length src} \<Longrightarrow> i < length src \<Longrightarrow>
       m' (the (user_addr L m stp True va i)) = src ! i"
proof -
  let ?ad = "\<lambda>i. the (user_addr L m stp True va i)"
  note n = copy_length [OF assms(2)]
  show some: "\<And>i. i < length src \<Longrightarrow> user_addr L m stp True va i \<noteq> None"
    using assms walk_user_range_sound(1) [of L m stp va "of_nat (length src)" True] n
    by (auto simp: copy_to_user_def Let_def split: if_splits sum.splits)
  show "m' b = m b" if b: "\<And>i. i < length src \<Longrightarrow> user_addr L m stp True va i \<noteq> Some b" for b
  proof (cases "(of_nat (length src) :: usize) = 0")
    case True
    then show ?thesis using assms(1) by (simp add: copy_to_user_def)
  next
    case False
    then obtain cs where cs: "walk_user_range L m stp va (of_nat (length src)) True = Inr cs"
      and m': "m' = copy_chunks_out m cs src"
      using assms(1) by (auto simp: copy_to_user_def split: sum.splits)
    note A = walk_user_range_sound(2) [OF cs, unfolded n]
    have "b \<notin> set (concat (map chunk_addrs cs))"
    proof
      assume "b \<in> set (concat (map chunk_addrs cs))"
      then obtain i where "i < length src" "b = ?ad i" unfolding A by auto
      then show False using b [of i] some [of i] by auto
    qed
    then show ?thesis unfolding m' using A by (intro copy_out(1)) simp_all
  qed
  show "m' (?ad i) = src ! i"
    if inj: "inj_on (user_addr L m stp True va) {..<length src}" and i: "i < length src" for i
  proof -
    have "(of_nat (length src) :: usize) \<noteq> 0" using i n by (metis gr_implies_not0 unsigned_0)
    then obtain cs where cs: "walk_user_range L m stp va (of_nat (length src)) True = Inr cs"
      and m': "m' = copy_chunks_out m cs src"
      using assms(1) by (auto simp: copy_to_user_def split: sum.splits)
    note A = walk_user_range_sound(2) [OF cs, unfolded n]
    have "inj_on ?ad {0..<length src}"
      using inj some by (auto simp: inj_on_def) (metis lessThan_iff option.exhaust_sel some)
    then have "distinct (concat (map chunk_addrs cs))" unfolding A by (simp add: distinct_map)
    moreover have "length src = length (concat (map chunk_addrs cs))" unfolding A by simp
    ultimately have "copy_chunks_out m cs src (concat (map chunk_addrs cs) ! i) = src ! i"
      using i by (intro copy_out(2))
    then show ?thesis unfolding m' A using i by simp
  qed
qed

lemma copy_to_user_Inl:
  assumes "copy_to_user L m stp va src = Inl e" "length src < 2 ^ 64"
    "unat (take_bit 12 va) + length src \<le> 4096 * MAX_COPY_CHUNKS"
  shows "\<exists>i < length src. user_addr L m stp True va i = None"
proof (rule ccontr)
  assume a: "\<not> ?thesis"
  note n = copy_length [OF assms(2)]
  obtain cs where "walk_user_range L m stp va (of_nat (length src)) True = Inr cs"
    using a assms(3) by (auto intro: walk_user_range_complete [of "of_nat (length src)" L m stp True va] simp: n)
  then show False using assms(1) by (simp add: copy_to_user_def Let_def split: if_splits)
qed

lemma copy_from_user_cases:
  assumes "unat (take_bit 12 va) + unat len \<le> 4096 * MAX_COPY_CHUNKS"
  shows "copy_from_user L m stp va len =
    (if \<forall>i < unat len. user_addr L m stp False va i \<noteq> None
     then Inr (map (\<lambda>i. m (the (user_addr L m stp False va i))) [0..<unat len]) else Inl ())"
proof (cases "len = 0")
  case True
  then show ?thesis by (simp add: copy_from_user_def)
next
  case False
  show ?thesis
  proof (cases "walk_user_range L m stp va len False")
    case (Inl e)
    then have "\<not> (\<forall>i < unat len. user_addr L m stp False va i \<noteq> None)"
      using walk_user_range_complete [of len L m stp False va] assms by fastforce
    then show ?thesis using Inl False by (simp add: copy_from_user_def)
  next
    case (Inr cs)
    have "concat (map (\<lambda>c. load_bytes m (c_pa c) (unat (c_len c))) cs) = map m (concat (map chunk_addrs cs))"
      by (simp add: load_bytes_chunk map_concat comp_def)
    then show ?thesis
      using walk_user_range_sound [OF Inr] False Inr by (simp add: copy_from_user_def)
  qed
qed

lemma user_access_read: "user_access L m root True va = Some pa \<Longrightarrow> user_access L m root False va = Some pa"
  by (auto simp: user_access_def split: option.splits if_splits)

lemma user_access_frame:
  assumes "r \<in> R" "\<And>t. t \<in> tables (load64 m) R \<Longrightarrow> t mod PAGE_SIZE = 0"
    "\<And>b. page_of b \<in> tables (load64 m) R \<Longrightarrow> m' b = m b"
  shows "user_access L m' r nw va = user_access L m r nw va"
proof -
  have "entry (load64 m') t i = entry (load64 m) t i" if "t \<in> tables (load64 m) R" "i < PT_ENTRIES" for t i
  proof (rule load64_cong)
    note E = entry_addr [OF assms(2) [OF that(1)] that(2)]
    show "m' (t + i * 8 + of_nat k) = m (t + i * 8 + of_nat k)" if "k < 8" for k
      by (rule assms(3)) (simp add: word_in_page [OF E(1) that] E(2) \<open>t \<in> tables (load64 m) R\<close>)
  qed
  then have "walk r va (load64 m') = walk r va (load64 m)" using tree_frame(2) assms(1) by blast
  then show ?thesis by (simp add: user_access_def)
qed

text \<open>
  C16. Writing a user buffer of at most 32 pages.  \<open>copy_to_user\<close> fails exactly when some byte of
  the buffer is not a mapped, user-accessible, writable heap byte below \<open>USER_VA_MAX\<close>.  When it
  succeeds, all bytes were checked, no physical byte outside the buffer changed, and every byte
  of the buffer holds its source byte (the buffer's pages being distinct).
\<close>

theorem copy_to_user_exact:
  assumes "length src < 2 ^ 64" "unat (take_bit 12 va) + length src \<le> 4096 * MAX_COPY_CHUNKS"
  shows "case copy_to_user L m stp va src of
      Inl _ \<Rightarrow> \<exists>i < length src. user_addr L m stp True va i = None
    | Inr m' \<Rightarrow> (\<forall>i < length src. user_addr L m stp True va i \<noteq> None) \<and>
        (\<forall>b. (\<forall>i < length src. user_addr L m stp True va i \<noteq> Some b) \<longrightarrow> m' b = m b) \<and>
        (inj_on (user_addr L m stp True va) {..<length src} \<longrightarrow>
           (\<forall>i < length src. m' (the (user_addr L m stp True va i)) = src ! i))"
  using copy_to_user_Inl [OF _ assms] copy_to_user_Inr [OF _ assms(1)] by (auto split: sum.split)

theorem copy_to_user_exact_witness:
  "copy_to_user qemu_layout (ram small_vm) (make_satp 0x80300000 0) 0x50000000 [1, 2, 3] = Inl ()"
proof -
  have root: "satp_to_root (make_satp 0x80300000 0) = 0x80300000"
    by (simp add: satp_to_root_def make_satp_def SATP_SV39_def drop_bit_eq_div)
  have no: "user_addr qemu_layout (ram small_vm) (make_satp 0x80300000 0) True 0x50000000 i = None" for i
    unfolding root user_access_def using small_vm_facts(3) by simp
  have "unat (take_bit 12 (0x50000000 :: usize)) + length [1 :: u8, 2, 3] \<le> 4096 * MAX_COPY_CHUNKS"
    by (simp add: take_bit_eq_mod MAX_COPY_CHUNKS_def)
  from copy_to_user_exact [OF _ this, of qemu_layout "ram small_vm" "make_satp 0x80300000 0"] no
  show ?thesis by (cases "copy_to_user qemu_layout (ram small_vm) (make_satp 0x80300000 0) 0x50000000 [1, 2, 3]") auto
qed

text \<open>
  Reading a user buffer of at most 32 pages returns exactly the bytes the buffer's addresses
  translate to, in order, and fails if and only if some byte is not a mapped, user-accessible
  heap byte below \<open>USER_VA_MAX\<close>.
\<close>

theorem copy_from_user_exact:
  assumes "unat (take_bit 12 va) + unat len \<le> 4096 * MAX_COPY_CHUNKS"
  shows "copy_from_user L m stp va len =
    (if \<forall>i < unat len. translate_user L m stp (va + of_nat i) \<noteq> None
     then Inr (map (\<lambda>i. m (the (translate_user L m stp (va + of_nat i)))) [0..<unat len]) else Inl ())"
  unfolding translate_user_access by (rule copy_from_user_cases [OF assms])

theorem copy_from_user_exact_witness:
  "copy_from_user qemu_layout (ram small_vm) (make_satp 0x80300000 0) 0x50000000 0 = Inr []"
  using copy_from_user_exact [of "0x50000000" 0 qemu_layout "ram small_vm" "make_satp 0x80300000 0"]
  by (simp add: take_bit_eq_mod MAX_COPY_CHUNKS_def)

text \<open>
  What the kernel writes into a user buffer it reads back: if the copy out succeeds, the
  buffer's bytes are at distinct physical places and none of them lies in a page table, then
  reading the same buffer afterwards returns the bytes that were written.
\<close>

theorem user_copy_roundtrip:
  assumes "vm_wf s R" "satp_to_root stp \<in> R" "copy_to_user L (ram s) stp va src = Inr m'"
    "length src < 2 ^ 64" "unat (take_bit 12 va) + length src \<le> 4096 * MAX_COPY_CHUNKS"
    "inj_on (user_addr L (ram s) stp True va) {..<length src}"
    "\<forall>i < length src. page_of (the (user_addr L (ram s) stp True va i)) \<notin> tables (tree s) R"
  shows "copy_from_user L m' stp va (of_nat (length src)) = Inr src"
proof -
  note C = copy_to_user_Inr [OF assms(3,4)]
  have al: "t mod PAGE_SIZE = 0" if "t \<in> tables (tree s) R" for t
    using pt_wf_tables that assms(1) unfolding vm_wf_def by blast
  have fr: "m' b = ram s b" if "page_of b \<in> tables (tree s) R" for b
    using C(2) assms(7) that by (metis option.sel)
  have "user_addr L m' stp nw va i = user_addr L (ram s) stp nw va i" for nw i
    by (rule user_access_frame [OF assms(2) al fr])
  moreover have "user_addr L (ram s) stp False va i = user_addr L (ram s) stp True va i" if "i < length src" for i
    using C(1) [OF that] user_access_read by fastforce
  ultimately show ?thesis
    using copy_from_user_cases [of va "of_nat (length src)" L m' stp] assms(5) C(1,3) assms(6)
    by (auto simp: copy_length [OF assms(4)] intro!: nth_equalityI)
qed

text \<open>An address space with one writable user page, for the witness.\<close>

lemma mapped_vm:
  obtains s pa where "vm_wf (s :: vm) {0x80300000}" "pa mod PAGE_SIZE = 0" "pa \<notin> tables (tree s) {0x80300000}"
    "0x80300000 \<le> unat pa" "unat pa < 0x80400000"
    "\<And>va. page_of va = 0x50000000 \<Longrightarrow>
       walk 0x80300000 va (tree s) = Some \<lparr>wr_phys = pa + take_bit 12 va, wr_flags = USER_RW\<rparr>"
proof -
  let ?r = "0x80300000 :: usize"
  have wa: "wf_alloc (page_bitmap small_vm)" using small_vm_facts(1) by (simp add: vm_wf_def)
  obtain pa and s1 :: vm where s1: "vm_wf s1 (insert pa {?r})" "pa \<notin> {?r}" "Suc (free_pages s1) = free_pages small_vm"
    "pa \<in> pool (page_bitmap small_vm)"
    using small_vm_facts(1)
  proof (cases rule: fresh_root_cases)
    case (root pa s1)
    then show ?thesis by (intro that [of s1 pa])
  qed (use small_vm_facts(2) in simp)
  have al: "pa mod PAGE_SIZE = 0" by (rule pool_aligned [OF wa s1(4)])
  have r: "?r \<in> insert pa {?r}" by simp
  obtain s2 where s2: "vm_grows (insert pa {?r}) s1 s2"
    "\<And>r' va'. r' \<in> insert pa {?r} \<Longrightarrow> walk r' va' (tree s2) =
      (if r' = ?r \<and> same_vpn 0x50000000 va'
       then Some \<lparr>wr_phys = pa + take_bit 12 va', wr_flags = USER_RW\<rparr> else walk r' va' (tree s1))"
  proof (rule map_page_cases [OF s1(1) r perms_leaf(6) al, of "0x50000000"])
    show thesis if "free_pages s1 < missing s1 ?r {0x50000000}"
      using that missing_one [of s1 ?r "0x50000000"] s1(3) small_vm_facts(2) by simp
  qed (rule that)
  note wf2 = vm_growsD(1) [OF s2(1), unfolded vm_wf_def]
  show ?thesis
  proof (rule that [of s2 pa])
    show "vm_wf s2 {?r}" using wf2 pt_wf_roots unfolding vm_wf_def by blast
    show "pa \<notin> tables (tree s2) {?r}"
    proof
      assume "pa \<in> tables (tree s2) {?r}"
      then obtain q where "length q \<le> 2" "table_at (tree s2) ?r q = Some pa" by (auto simp: tables_def)
      then have "pa = ?r" using pt_wf_inj [OF conjunct2 [OF wf2], of pa ?r "[]" q pa] by simp
      then show False using s1(2) by simp
    qed
    obtain i where i: "i < 256" "pa = page_addr (page_bitmap small_vm) i"
      using pool_index [OF s1(4)] by (auto simp: small_vm_def boot_vm_def new_allocator_def set_page_def)
    have "unat pa = 0x80300000 + i * 4096"
      unfolding i(2) using unat_page_addr [OF wa, of i] i(1)
      by (simp add: small_vm_def boot_vm_def new_allocator_def set_page_def)
    then show "0x80300000 \<le> unat pa" "unat pa < 0x80400000" using i(1) by simp_all
    show "walk ?r va (tree s2) = Some \<lparr>wr_phys = pa + take_bit 12 va, wr_flags = USER_RW\<rparr>"
      if "page_of va = 0x50000000" for va
    proof -
      have "unat va < 0x50001000" "0x50000000 mod PAGE_SIZE = 0"
        using that page_of_between [of "0x50000000" va] by (simp_all add: PAGE_SIZE_def)
      then have "same_vpn 0x50000000 va"
        using that by (subst same_vpn_page) (simp_all add: word_less_nat_alt page_of_self)
      then show ?thesis using s2(2) [of ?r va] by simp
    qed
  qed (rule al)
qed

theorem user_copy_roundtrip_witness:
  "\<exists>(s :: vm) m'. vm_wf s {0x80300000} \<and>
     copy_to_user qemu_layout (ram s) (make_satp 0x80300000 0) 0x50000010 [1, 2, 3] = Inr m' \<and>
     copy_from_user qemu_layout m' (make_satp 0x80300000 0) 0x50000010 3 = Inr [1, 2, 3]"
proof -
  let ?src = "[1, 2, 3] :: u8 list" and ?stp = "make_satp 0x80300000 0" and ?va = "0x50000010 :: usize"
  obtain s pa where s: "vm_wf (s :: vm) {0x80300000}" "pa mod PAGE_SIZE = 0" "pa \<notin> tables (tree s) {0x80300000}"
    "0x80300000 \<le> unat pa" "unat pa < 0x80400000"
    "\<And>va. page_of va = 0x50000000 \<Longrightarrow>
       walk 0x80300000 va (tree s) = Some \<lparr>wr_phys = pa + take_bit 12 va, wr_flags = USER_RW\<rparr>"
    by (rule mapped_vm) blast
  have root: "satp_to_root ?stp = 0x80300000"
    by (simp add: satp_to_root_def make_satp_def SATP_SV39_def drop_bit_eq_div)
  have fl: "flags_contains USER_RW PTE_USER" "flags_contains USER_RW PTE_WRITE"
    by (simp_all add: flags_contains_def USER_RW_def flag_bit_defs)
  have ad: "user_addr qemu_layout (ram s) ?stp True ?va i = Some (pa + (0x10 + of_nat i))" if "i < 3" for i
  proof -
    have i: "i = 0 \<or> i = 1 \<or> i = 2" using that by auto
    have pg: "page_of (?va + of_nat i) = 0x50000000" using i by (auto simp: page_of_def)
    have off: "take_bit 12 (?va + of_nat i) = 0x10 + of_nat i" using i by (auto simp: take_bit_eq_mod)
    have "page_of (pa + (0x10 + of_nat i)) = pa"
      by (rule page_of_add [OF s(2)]) (use i in \<open>auto simp: take_bit_eq_mod\<close>)
    then have "is_user_heap_pa qemu_layout (page_of (pa + (0x10 + of_nat i)))"
      using s(4,5) by (simp add: is_user_heap_pa_def qemu_layout_def word_le_nat_alt word_less_nat_alt)
    moreover have "\<not> USER_VA_MAX \<le> ?va + of_nat i" using i by (auto simp: USER_VA_MAX_def)
    ultimately show ?thesis unfolding root user_access_def using s(6) [OF pg] off fl by simp
  qed
  have pg: "page_of (pa + (0x10 + of_nat i)) = pa" if "i < 3" for i
    by (rule page_of_add [OF s(2)], rule take12_small)
      (use that in \<open>auto simp: word_less_nat_alt unat_add_small unat_of_nat_small\<close>)
  have sz: "unat (take_bit 12 ?va) + length ?src \<le> 4096 * MAX_COPY_CHUNKS"
    by (simp add: take_bit_eq_mod MAX_COPY_CHUNKS_def)
  obtain m' where m': "copy_to_user qemu_layout (ram s) ?stp ?va ?src = Inr m'"
    using copy_to_user_Inl [of qemu_layout "ram s" ?stp ?va ?src, OF _ _ sz] ad
    by (cases "copy_to_user qemu_layout (ram s) ?stp ?va ?src") auto
  have inj: "inj_on (user_addr qemu_layout (ram s) ?stp True ?va) {..<length ?src}"
    using ad by (auto simp: inj_on_def less_Suc_eq numeral_3_eq_3)
  have nt: "\<forall>i < length ?src. page_of (the (user_addr qemu_layout (ram s) ?stp True ?va i)) \<notin> tables (tree s) {0x80300000}"
    using ad pg s(3) by simp
  have "copy_from_user qemu_layout m' ?stp ?va (of_nat (length ?src)) = Inr ?src"
    by (rule user_copy_roundtrip [OF s(1) _ m' _ sz inj nt]) (simp_all add: root)
  then show ?thesis using s(1) m' by auto
qed

text \<open>
  C17. Isolation of the kernel's mappings: in the address space built by \<open>kvm::init\<close> no user
  address translates, so \<open>translate_user\<close> rejects every address and a non-empty \<open>copy_to_user\<close>
  fails wherever it points, kernel sections and devices included.
\<close>

theorem kernel_space_not_user:
  assumes "vm_wf s R" "layout_ok L" "card (table_paths (region_set (kernel_regions L))) < free_pages s"
    "kvm_init L s = Some (root, s')" "satp_to_root stp = root"
    "src \<noteq> []" "length src < 2 ^ 64"
  shows "translate_user H (ram s') stp va = None \<and> copy_to_user H (ram s') stp va src = Inl ()"
proof -
  have "user_access H (ram s') root nw v = None" for nw v
  proof (cases "USER_VA_MAX \<le> v")
    case False
    then have v: "v < 2 ^ 39" by (simp add: USER_VA_MAX_def word_le_nat_alt word_less_nat_alt)
    have "\<not> flags_contains (wr_flags w) PTE_USER" if "walk root v (tree s') = Some w" for w
      using kvm_init_exact [OF assms(1-3)] assms(4) that v by auto
    then show ?thesis by (auto simp: user_access_def split: option.split)
  qed (simp add: user_access_def)
  then show ?thesis
    using copy_to_user_Inr(1) [of H "ram s'" stp va src _ 0] assms(5-7) translate_user_access
    by (cases "copy_to_user H (ram s') stp va src") auto
qed

lemma boot_root:
  assumes "0 < unat n" "unat n \<le> MAX_PAGES" "layout_ok L" "kvm_init L (boot_vm n) = Some (root, s')"
  shows "root = 0x80300000"
proof -
  note B = boot_vm_facts [OF assms(1,2)]
  let ?a = "page_bitmap (boot_vm n)"
  have t: "total_pages ?a = n" "base_addr ?a = 0x80300000" by (simp_all add: boot_vm_def new_allocator_def)
  have "\<not> page_bit ?a 0" by (simp add: page_bit_def boot_vm_def new_allocator_def BITMAP_WORDS_def MAX_PAGES_def)
  then have "alloc ?a = Some (Inr (page_addr ?a 0), set_page ?a 0)"
    using alloc_least [OF B(3), of 0] assms(1) t by simp
  then have "\<exists>s1. alloc_zeroed_page (boot_vm n) = Some (0x80300000, s1)"
    by (simp add: alloc_zeroed_page_def expect_page_def page_addr_def t)
  then show ?thesis using assms(3,4) by (auto simp: kvm_init_eq split: bind_splits)
qed

theorem kernel_space_not_user_witness:
  "\<exists>s'. kvm_init qemu_layout (boot_vm 2000) = Some (0x80300000, s') \<and>
     translate_user qemu_layout (ram s') (make_satp 0x80300000 0) 0x50000000 = None"
proof -
  have n: "0 < unat (2000 :: usize)" "unat (2000 :: usize) \<le> MAX_PAGES" by (simp_all add: MAX_PAGES_def)
  have c: "card (table_paths (region_set (kernel_regions qemu_layout))) < free_pages (boot_vm 2000)"
    using qemu_layout_facts(2) boot_vm_facts(2) [OF n] by simp
  obtain s' where k: "kvm_init qemu_layout (boot_vm 2000) = Some (0x80300000, s')"
    using kvm_init_exact [OF boot_vm_facts(1) [OF n] qemu_layout_facts(1) c]
      boot_root [OF n qemu_layout_facts(1)] by blast
  have root: "satp_to_root (make_satp 0x80300000 0) = 0x80300000"
    by (simp add: satp_to_root_def make_satp_def SATP_SV39_def drop_bit_eq_div)
  show ?thesis
    using kernel_space_not_user [OF boot_vm_facts(1) [OF n] qemu_layout_facts(1) c k root, of "[0]" qemu_layout "0x50000000"] k
    by auto
qed

end
