(* ===== verification/Syscall.thy ===== *)
theory Syscall
  imports Loader User_Mem
begin

unbundle bit_operations_syntax

text \<open>
  \<open>syscall.rs\<close>: memory syscalls, interrupt ownership and process creation.  The load of a byte at a
  user virtual address, which \<open>sys_spawn\<close> performs through a raw pointer, is done by the hart and
  is an argument \<open>uload\<close> of the model; a load that faults there ends in the kernel's own exception
  handler and is not described.
\<close>

section \<open>Model\<close>

definition sys_map :: "kcfg \<Rightarrow> kernel \<Rightarrow> kernel option" where
  "sys_map cfg k =
     (let k = advance k; phys = tf_a0 (frame k); virt = tf_a1 (frame k); flags_arg = tf_a2 (frame k)
      in if \<not> is_page_aligned phys \<or> \<not> is_page_aligned virt then Some (set_a0 USIZE_MAX k)
         else if \<not> is_user_va virt then Some (set_a0 USIZE_MAX k)
         else do {
           allocated \<leftarrow> is_allocated (page_bitmap k) phys;
           if \<not> allocated then Some (set_a0 USIZE_MAX k)
           else if \<not> is_user_heap_pa (lay cfg) phys then Some (set_a0 USIZE_MAX k)
           else if \<not> is_valid_map_flags flags_arg then Some (set_a0 USIZE_MAX k)
           else do {
             p \<leftarrow> get_proc k (current_pid k);
             k \<leftarrow> map_user_page k (satp_to_root (pr_satp p)) virt phys
                    (if flags_arg = 0 then USER_RW else USER_RX);
             Some (set_a0 0 k)
           }
         })"

definition sys_unmap :: "kernel \<Rightarrow> kernel option" where
  "sys_unmap k =
     (let k = advance k; virt = tf_a0 (frame k)
      in if \<not> is_page_aligned virt then Some (set_a0 USIZE_MAX k)
         else if \<not> is_user_va virt then Some (set_a0 USIZE_MAX k)
         else do {
           p \<leftarrow> get_proc k (current_pid k);
           (unmapped, k) \<leftarrow> unmap_page k (satp_to_root (pr_satp p)) virt;
           Some (set_a0 (if unmapped then 0 else USIZE_MAX) k)
         })"

definition sys_alloc_pages :: "kernel \<Rightarrow> kernel option" where
  "sys_alloc_pages k =
     (let k = advance k; count = tf_a0 (frame k)
      in if \<not> is_valid_alloc_count count then Some (set_a0 USIZE_MAX k)
         else do {
           (r, a) \<leftarrow> alloc (page_bitmap k);
           (case r of
              Inr phys \<Rightarrow> Some (set_a0 phys (k\<lparr>ram := zero_page (ram k) phys, page_bitmap := a\<rparr>))
            | Inl _ \<Rightarrow> Some (set_a0 USIZE_MAX (k\<lparr>page_bitmap := a\<rparr>)))
         })"

definition sys_free_pages :: "kernel \<Rightarrow> kernel option" where
  "sys_free_pages k =
     (let k = advance k; phys = tf_a0 (frame k); count = tf_a1 (frame k)
      in if \<not> is_valid_alloc_count count then Some (set_a0 USIZE_MAX k)
         else if \<not> is_page_aligned phys then Some (set_a0 USIZE_MAX k)
         else do {
           allocated \<leftarrow> is_allocated (page_bitmap k) phys;
           if \<not> allocated then Some (set_a0 USIZE_MAX k)
           else do {
             let k = k\<lparr>ram := zero_page (ram k) phys\<rparr>;
             (r, a) \<leftarrow> free (page_bitmap k) phys;
             Some (set_a0 (case r of Inr _ \<Rightarrow> 0 | Inl _ \<Rightarrow> USIZE_MAX) (k\<lparr>page_bitmap := a\<rparr>))
           }
         })"

definition sys_irq_register :: "kernel \<Rightarrow> kernel option" where
  "sys_irq_register k =
     (let k = advance k; current = current_pid k; irq = ucast (tf_a0 (frame k)) :: u32
      in if \<not> is_valid_irq (ucast irq) then Some (set_a0 USIZE_MAX k)
         else do {
           owner \<leftarrow> idx (irq_owners k) (unat irq);
           if owner \<noteq> 0 then Some (set_a0 USIZE_MAX k)
           else do {
             k \<leftarrow> upd_proc current (\<lambda>p. p\<lparr>pr_irq_num := irq\<rparr>)
                    (k\<lparr>irq_owners := (irq_owners k)[unat irq := current]\<rparr>);
             Some (set_a0 0 (k\<lparr>dev := plic_enable_irq (dev k) irq\<rparr>))
           }
         })"

definition sys_irq_ack :: "kernel \<Rightarrow> kernel option" where
  "sys_irq_ack k =
     (let k = advance k
      in do {
        p \<leftarrow> get_proc k (current_pid k);
        if pr_irq_num p = 0 then Some (set_a0 USIZE_MAX k)
        else Some (set_a0 0 (k\<lparr>dev := plic_complete (dev k) (pr_irq_num p)\<rparr>))
      })"

definition irq_owner :: "kernel \<Rightarrow> u32 \<Rightarrow> usize option" where
  "irq_owner k irq = (if \<not> is_valid_irq (ucast irq) then Some 0 else idx (irq_owners k) (unat irq))"

definition is_free :: "process \<Rightarrow> bool" where
  "is_free p \<longleftrightarrow> pr_state p = Free"

definition sys_spawn :: "(kernel \<Rightarrow> usize \<Rightarrow> u8) \<Rightarrow> kcfg \<Rightarrow> kernel \<Rightarrow> kernel option" where
  "sys_spawn uload cfg k =
     (let k = advance k; elf_ptr = tf_a0 (frame k); elf_len = tf_a1 (frame k); parent = current_pid k
      in if \<not> is_valid_elf_size elf_len then Some (set_a0 USIZE_MAX k)
         else (case parse (\<lambda>off. uload k (elf_ptr + off)) elf_len of
             Inl _ \<Rightarrow> Some (set_a0 USIZE_MAX k)
           | Inr info \<Rightarrow> do {
               new_pid \<leftarrow> find_proc is_free (procs k) all_pids;
               if new_pid = 0 then Some (set_a0 USIZE_MAX k)
               else do {
                 (user_root, k) \<leftarrow> build_elf_space (lay cfg) uload elf_ptr info k;
                 k \<leftarrow> upd_proc new_pid (\<lambda>_. new_process new_pid (make_satp user_root (ucast new_pid))
                        (elf_entry info) (STACK_VA + PAGE_SIZE) parent) k;
                 Some (set_a0 new_pid k)
               }
             }))"

section \<open>The handlers meet the contract\<close>

text \<open>An operation that changes memory and the allocator only, and then the result register.\<close>

lemma vm_only_ok:
  fixes k k' :: kernel
  assumes ut: "user_trap k" and v: "vm_only (advance k) k'" and f: "user_mode f"
  shows "syscall_ok k (k'\<lparr>frame := f\<rparr>)"
  using vm_only_kernel [OF v] f by (intro syscall_local) (simp_all add: user_trapD [OF ut])

lemma vm_only_mode: "user_trap k \<Longrightarrow> vm_only (advance k) k' \<Longrightarrow> user_mode (frame (k' :: kernel))"
  using vm_only_kernel(5) [of "advance k" k'] user_trapD(2) [of k] by simp

lemma sys_map_ok:
  assumes ut: "user_trap k" and s: "sys_map cfg k = Some k'"
  shows "syscall_ok k k'"
  using s ut
  by (auto simp: sys_map_def Let_def user_trapD(2) split: if_splits bind_splits
      intro!: vm_only_ok intro: map_user_page_only vm_only_mode [OF ut map_user_page_only])

lemma sys_unmap_ok:
  assumes ut: "user_trap k" and s: "sys_unmap k = Some k'"
  shows "syscall_ok k k'"
  using s ut
  by (auto simp: sys_unmap_def Let_def user_trapD(2) split: if_splits bind_splits
      intro!: vm_only_ok intro: unmap_page_only vm_only_mode [OF ut unmap_page_only])

lemma sys_alloc_pages_ok:
  assumes ut: "user_trap k" and s: "sys_alloc_pages k = Some k'"
  shows "syscall_ok k k'"
  using s ut
  by (auto simp: sys_alloc_pages_def Let_def user_trapD(2) split: if_splits bind_splits sum.splits
      intro!: vm_only_ok)

lemma sys_free_pages_ok:
  assumes ut: "user_trap k" and s: "sys_free_pages k = Some k'"
  shows "syscall_ok k k'"
  using s ut
  by (auto simp: sys_free_pages_def Let_def user_trapD(2) split: if_splits bind_splits
      intro!: vm_only_ok)

lemma valid_irq_unat: "is_valid_irq (ucast (irq :: u32)) \<longleftrightarrow> unat irq < 64"
proof -
  have "unat irq < 2 ^ 32" by (rule order_less_le_trans [OF unsigned_less]) simp
  then have "unat (ucast irq :: usize) = unat irq" by (simp add: unsigned_ucast_eq take_bit_nat_eq_self)
  then show ?thesis by (simp add: is_valid_irq_def MAX_IRQS_unat)
qed

lemma sys_irq_register_eq:
  assumes ut: "user_trap k"
  shows "sys_irq_register k =
    (let c = unat (current_pid k); irq = ucast (tf_a0 (frame k)) :: u32; k1 = advance k
     in if unat irq < 64 \<and> irq_owners k ! unat irq = 0
        then Some (set_a0 0 ((set_proc c ((procs k ! c)\<lparr>pr_irq_num := irq\<rparr>) k1)
               \<lparr>irq_owners := (irq_owners k)[unat irq := current_pid k], dev := plic_enable_irq (dev k) irq\<rparr>))
        else Some (set_a0 USIZE_MAX k1))"
proof -
  note U = user_trapD [OF ut] and K = kernel_invD [OF user_trapD(1) [OF ut]]
  let ?irq = "ucast (tf_a0 (frame k)) :: u32"
  show ?thesis
  proof (cases "unat ?irq < 64 \<and> irq_owners k ! unat ?irq = 0")
    case True
    then show ?thesis using U(4,7) K(2) by (simp add: sys_irq_register_def Let_def valid_irq_unat set_proc_def)
  next
    case False
    then show ?thesis using K(2) by (auto simp: sys_irq_register_def Let_def valid_irq_unat)
  qed
qed

lemma sys_irq_register_ok:
  assumes ut: "user_trap k"
  shows "\<exists>k'. sys_irq_register k = Some k' \<and> syscall_ok k k'"
proof -
  note U = user_trapD [OF ut] and K = kernel_invD [OF user_trapD(1) [OF ut]]
  let ?irq = "ucast (tf_a0 (frame k)) :: u32" and ?c = "unat (current_pid k)"
  show ?thesis
  proof (cases "unat ?irq < 64 \<and> irq_owners k ! unat ?irq = 0")
    case True
    let ?p = "(procs k ! ?c)\<lparr>pr_irq_num := ?irq\<rparr>"
    have "syscall_ok k (set_a0 0 ((set_proc ?c ?p (advance k))
               \<lparr>irq_owners := (irq_owners k)[unat ?irq := current_pid k], dev := plic_enable_irq (dev k) ?irq\<rparr>))"
      by (rule own_entry_ok [OF ut, where p = ?p]) (use U(2,4,5) K(2,8) True in \<open>simp_all add: nth_list_update\<close>)
    then show ?thesis using sys_irq_register_eq [OF ut] True by (simp add: Let_def)
  next
    case False
    then have "sys_irq_register k = Some (set_a0 USIZE_MAX (advance k))"
      using sys_irq_register_eq [OF ut] by (simp add: Let_def del: de_Morgan_conj)
    then show ?thesis using error_ok [OF ut] by blast
  qed
qed

lemma sys_irq_ack_ok:
  assumes ut: "user_trap k"
  shows "\<exists>k'. sys_irq_ack k = Some k' \<and> syscall_ok k k'"
proof (cases "pr_irq_num (procs k ! unat (current_pid k)) = 0")
  case True
  then have "sys_irq_ack k = Some (set_a0 USIZE_MAX (advance k))"
    using user_trapD [OF ut] by (simp add: sys_irq_ack_def Let_def)
  then show ?thesis using error_ok [OF ut] by blast
next
  case False
  let ?k = "set_a0 0 ((advance k)\<lparr>dev := plic_complete (dev k) (pr_irq_num (procs k ! unat (current_pid k)))\<rparr>)"
  have "sys_irq_ack k = Some ?k" using user_trapD [OF ut] False by (simp add: sys_irq_ack_def Let_def)
  moreover have "syscall_ok k ?k" using user_trapD(1) [OF ut] by (intro syscall_local) simp_all
  ultimately show ?thesis by blast
qed

text \<open>The new entry goes into a free slot, with the caller as parent.\<close>

lemma spawn_slot_ok:
  fixes k k' :: kernel
  assumes ut: "user_trap k" and v: "vm_only (advance k) k'" and n: "0 < n" "n < 8" "is_free (procs k ! n)"
    and p: "pr_state p = Ready" "pr_parent p = current_pid k" "user_mode (pr_context p)"
  shows "syscall_ok k (set_a0 r (set_proc n p k'))"
proof (rule syscall_peer [OF ut n(1,2), where q = p])
  note V = vm_only_kernel [OF v]
  show "n \<noteq> unat (current_pid k)" using n(3) user_trapD(5) [OF ut] by (auto simp: is_free_def)
  show "peer_step (current_pid k) (procs k ! n) p" using n(3) p by (intro peer_spawn) (simp_all add: is_free_def)
qed (use vm_only_kernel [OF v] vm_only_mode [OF ut v] in simp_all)

lemma sys_spawn_ok:
  assumes ut: "user_trap k" and s: "sys_spawn uload cfg k = Some k'"
  shows "syscall_ok k k'"
proof -
  note U = user_trapD [OF ut]
  let ?p = "parse (\<lambda>off. uload (advance k) (tf_a0 (frame k) + off)) (tf_a1 (frame k))"
  let ?n = "find (\<lambda>i. is_free (procs k ! i)) [1..<8]"
  have scan: "find_proc is_free (procs k) all_pids = Some (case ?n of None \<Rightarrow> 0 | Some i \<Rightarrow> of_nat i)"
    by (rule scan_all [OF U(7)])
  show ?thesis
  proof (cases "is_valid_elf_size (tf_a1 (frame k)) \<and> (\<exists>info. ?p = Inr info) \<and> ?n \<noteq> None")
    case False
    then have "k' = set_a0 USIZE_MAX (advance k)"
      using s scan by (auto simp: sys_spawn_def Let_def split: sum.splits if_splits option.splits)
    then show ?thesis using error_ok [OF ut] by simp
  next
    case True
    then obtain info n where i: "is_valid_elf_size (tf_a1 (frame k))" "?p = Inr info" "?n = Some n" by auto
    then have n: "0 < n" "n < 8" "is_free (procs k ! n)" by (auto dest!: find_Some_in)
    obtain root k1 where b: "build_elf_space (lay cfg) uload (tf_a0 (frame k)) info (advance k) = Some (root, k1)"
      using s scan i of_nat_pid_neq_0 [OF n(1,2)] by (auto simp: sys_spawn_def Let_def split: bind_splits)
    have v: "vm_only (advance k) k1" by (rule build_elf_space_only [OF b])
    have "length (procs k1) = 8" using vm_only_kernel(1) [OF v] U(7) by simp
    then have "k' = set_a0 (of_nat n) (set_proc n (new_process (of_nat n) (make_satp root (ucast (of_nat n :: usize)))
        (elf_entry info) (STACK_VA + PAGE_SIZE) (current_pid k)) k1)"
      using s scan i b n of_nat_pid_neq_0 [OF n(1,2)]
      by (simp add: sys_spawn_def Let_def unat_pid set_proc_def)
    then show ?thesis using spawn_slot_ok [OF ut v n] by simp
  qed
qed

section \<open>Properties\<close>

definition map_args_ok :: "kcfg \<Rightarrow> kernel \<Rightarrow> bool" where
  "map_args_ok cfg k \<longleftrightarrow>
     tf_a0 (frame k) mod PAGE_SIZE = 0 \<and> tf_a1 (frame k) mod PAGE_SIZE = 0 \<and>
     is_user_va (tf_a1 (frame k)) \<and> tf_a0 (frame k) \<in> live k \<and>
     is_user_heap_pa (lay cfg) (tf_a0 (frame k)) \<and> tf_a2 (frame k) \<le> 1"

lemma vm_wf_cong: "ram s' = ram s \<Longrightarrow> page_bitmap s' = page_bitmap s \<Longrightarrow> vm_wf s' R = vm_wf s R"
  by (simp add: vm_wf_def)

lemma free_missing_cong:
  "ram s' = ram s \<Longrightarrow> page_bitmap s' = page_bitmap s \<Longrightarrow> free_pages s' = free_pages s"
  "ram s' = ram s \<Longrightarrow> missing s' r V = missing s r V"
  by (simp_all add: free_pages_def missing_def)

lemma sys_map_eq:
  assumes ut: "user_trap k" and wf: "wf_alloc (page_bitmap k)"
  shows "sys_map cfg k =
    (if map_args_ok cfg k
     then map_option (set_a0 0) (map_user_page (advance k) (satp_to_root (satp k)) (tf_a1 (frame k)) (tf_a0 (frame k))
            (if tf_a2 (frame k) = 0 then USER_RW else USER_RX))
     else Some (set_a0 USIZE_MAX (advance k)))"
  using user_trapD [OF ut] is_allocated_live [OF wf]
  by (auto simp: sys_map_def Let_def map_args_ok_def is_page_aligned_def is_valid_map_flags_def split: bind_splits)

text \<open>
  With good arguments \<open>SYS_MAP\<close> either panics, when the page pool cannot supply the page tables the
  address still needs (\<open>kvm::alloc_zeroed_page\<close> panics on an empty pool), or maps the frame.
\<close>

lemma sys_map_cases:
  assumes "user_trap k" "vm_wf k R" "satp_to_root (satp k) \<in> R" "map_args_ok cfg k"
  obtains (panic) "sys_map cfg k = None" "free_pages k < missing k (satp_to_root (satp k)) {tf_a1 (frame k)}"
  | (mapped) k1 where "sys_map cfg k = Some (set_a0 0 k1)" "vm_grows R (advance k) k1"
      "\<And>r va. r \<in> R \<Longrightarrow> walk r va (tree k1) =
        (if r = satp_to_root (satp k) \<and> same_vpn (tf_a1 (frame k)) va
         then Some \<lparr>wr_phys = tf_a0 (frame k) + take_bit 12 va,
                    wr_flags = (if tf_a2 (frame k) = 0 then USER_RW else USER_RX)\<rparr>
         else walk r va (tree k))"
proof -
  let ?f = "if tf_a2 (frame k) = 0 then USER_RW else USER_RX"
  have wa: "wf_alloc (page_bitmap k)" using assms(2) by (simp add: vm_wf_def)
  note eq = sys_map_eq [OF assms(1) wa, of cfg]
  have wf: "vm_wf (advance k) R" using assms(2) by (simp add: vm_wf_cong [of "advance k" k])
  have fl: "leaf_flags ?f" using perms_leaf by simp
  have al: "tf_a0 (frame k) mod PAGE_SIZE = 0" using assms(4) by (simp add: map_args_ok_def)
  have fm: "free_pages (advance k) = free_pages k" "missing (advance k) r V = missing k r V" for r V
    by (simp_all add: free_missing_cong [of "advance k" k])
  from wf assms(3) fl al show thesis
  proof (cases rule: map_page_cases [where va = "tf_a1 (frame k)"])
    case oom
    then show thesis using eq assms(4) fm by (intro panic) (simp_all add: map_user_page_def)
  next
    case (ok k1)
    then show thesis using eq assms(4) by (intro mapped [of k1]) (simp_all add: map_user_page_def)
  qed
qed


text \<open>The small pool of \<open>Kvm\<close> as the memory of a kernel whose process 1 owns its one address space.\<close>

definition vm_demo :: "usize \<Rightarrow> usize \<Rightarrow> usize \<Rightarrow> kernel" where
  "vm_demo a b c =
     (ipc_demo Ready 2)\<lparr>ram := ram small_vm, page_bitmap := page_bitmap small_vm, satp := make_satp 0x80300000 1,
       procs := (procs (ipc_demo Ready 2))[1 := (proc_at 1 Running)\<lparr>pr_satp := make_satp 0x80300000 1\<rparr>],
       frame := (user_frame 0x50000000)\<lparr>tf_a0 := a, tf_a1 := b, tf_a2 := c\<rparr>\<rparr>"

lemma vm_demo_facts:
  "user_trap (vm_demo a b c)" "vm_wf (vm_demo a b c) {0x80300000}" "satp_to_root (satp (vm_demo a b c)) = 0x80300000"
  "free_pages (vm_demo a b c) = free_pages small_vm" "missing (vm_demo a b c) r V = missing small_vm r V"
  "live (vm_demo a b c) = live small_vm" "frame (vm_demo a b c) = (user_frame 0x50000000)\<lparr>tf_a0 := a, tf_a1 := b, tf_a2 := c\<rparr>"
proof -
  let ?k = "vm_demo a b c"
  note F = ipc_demo_facts [of Ready 2, simplified] 
  note U = user_trapD [OF F(1)] and K = kernel_invD [OF user_trapD(1) [OF F(1)]]
  have um: "user_mode (frame ?k)" by (simp add: vm_demo_def user_mode_def user_frame_def TrapFrame_zero_def)
  have nth: "procs ?k ! i = (if i = 1 then (proc_at 1 Running)\<lparr>pr_satp := make_satp 0x80300000 1\<rparr> else procs (ipc_demo Ready 2) ! i)"
    if "i < 8" for i
    using that U(7) by (simp add: vm_demo_def nth_list_update)
  have sel: "current_pid ?k = 1" "satp ?k = make_satp 0x80300000 1" "irq_owners ?k = irq_owners (ipc_demo Ready 2)"
    "length (procs ?k) = 8"
    using F(2) U(7) by (simp_all add: vm_demo_def)
  have "kernel_inv ?k"
  proof (rule kernel_invI)
    fix i :: nat assume i: "i < 8"
    show "pr_state (procs ?k ! i) = Running \<Longrightarrow> i = unat (current_pid ?k)"
      using K(5) [OF i] F(2) by (simp add: nth [OF i] sel split: if_splits)
    show "pr_state (procs ?k ! i) = Running \<Longrightarrow> satp ?k = pr_satp (procs ?k ! i)"
      using K(5) [OF i] F(2) by (simp add: nth [OF i] sel split: if_splits)
    show "pr_state (procs ?k ! i) \<noteq> Free \<Longrightarrow> user_mode (pr_context (procs ?k ! i))"
      using K(7) [OF i] by (simp add: nth [OF i] proc_at_def user_mode_def user_frame_def TrapFrame_zero_def split: if_splits)
  qed (use K(2,4,8) um in \<open>simp_all add: nth sel proc_at_def\<close>)
  then show "user_trap ?k" using um by (simp add: user_trap_def)
  show "vm_wf ?k {0x80300000}" using small_vm_facts(1) by (simp add: vm_wf_def vm_demo_def)
  show "satp_to_root (satp ?k) = 0x80300000" unfolding sel(2) by code_simp
qed (simp_all add: vm_demo_def free_pages_def missing_def)

lemma vm_demo_live: "0x80300000 \<in> live (vm_demo a b c)"
proof -
  have "table_at (tree small_vm) 0x80300000 [] = Some 0x80300000" by simp
  then have "0x80300000 \<in> tables (tree small_vm) {0x80300000}" by (intro tablesI [where p = "[]"]) simp_all
  then show ?thesis using tables_live [OF small_vm_facts(1)] vm_demo_facts(6) by auto
qed




text \<open>Given the caller's own page-table root as the frame, the call accepts it and maps it writable.\<close>

lemma own_root_mapped:
  "\<exists>k'. sys_map demo_cfg (vm_demo 0x80300000 0x50001000 0) = Some k' \<and>
     walk 0x80300000 0x50001008 (tree k') = Some \<lparr>wr_phys = 0x80300008, wr_flags = USER_RW\<rparr>"
proof -
  let ?k = "vm_demo 0x80300000 0x50001000 0"
  note F = vm_demo_facts [of "0x80300000" "0x50001000" 0]
  have fr: "tf_a0 (frame ?k) = 0x80300000" "tf_a1 (frame ?k) = 0x50001000" "tf_a2 (frame ?k) = 0" by (simp_all add: F)
  have ok: "map_args_ok demo_cfg ?k"
    unfolding map_args_ok_def fr using vm_demo_live
    by (simp add: PAGE_SIZE_def is_user_va_def USER_VA_START_def USER_VA_END_def is_user_heap_pa_def demo_cfg_def
        qemu_layout_def)
  have room: "\<not> free_pages ?k < missing ?k 0x80300000 {0x50001000}"
    using missing_one [of small_vm "0x80300000" "0x50001000"] small_vm_facts(2) F(4,5) by simp
  have vpn: "same_vpn 0x50001000 0x50001008" "(0x80300000 :: usize) + take_bit 12 0x50001008 = 0x80300008"
    by (simp_all add: same_vpn_def drop_bit_eq_div take_bit_eq_mod)
  have "satp_to_root (satp ?k) \<in> {0x80300000}" using F(3) by simp
  from F(1,2) this ok show ?thesis
  proof (cases rule: sys_map_cases)
    case panic
    then show ?thesis using room by (simp add: F(3) fr)
  next
    case (mapped k1)
    then show ?thesis by (simp add: F(3) fr vpn)
  qed
qed

lemma walk_zeroed:
  assumes "r mod PAGE_SIZE = 0"
  shows "walk r va (load64 (zero_page m r)) = None"
proof -
  obtain i j l off where va: "va_parts va = (i, j, l, off)" by (metis prod_cases4)
  have "entry (load64 (zero_page m r)) r i = 0"
    using phys.entry_wipe [OF assms assms va_parts_bounds(1) [OF va], of m] by simp
  then show ?thesis
    using walk_lookups [OF va refl refl refl, where rd = "load64 (zero_page m r)" and root = r] by (simp add: Pte_invalid_kinds)
qed

text \<open>
  \<open>SYS_FREE_PAGES\<close> does not ask who owns a page: given the page-table root of any process, the
  call succeeds, the page goes back to the pool, and no user address of that process translates
  any more.
\<close>

theorem free_pages_unowned:
  assumes "user_trap k" "wf_alloc (page_bitmap k)"
    and "satp_to_root (pr_satp (procs k ! j)) \<in> live k"
    and "tf_a0 (frame k) = satp_to_root (pr_satp (procs k ! j))" "tf_a1 (frame k) = 1"
  shows "\<exists>k'. sys_free_pages k = Some k' \<and> tf_a0 (frame k') = 0 \<and> procs k' = procs k \<and>
    live k' = live k - {satp_to_root (pr_satp (procs k ! j))} \<and>
    (\<forall>va. translate_user L (ram k') (pr_satp (procs k' ! j)) va = None)"
proof -
  let ?r = "satp_to_root (pr_satp (procs k ! j))"
  have al: "?r mod PAGE_SIZE = 0" using assms(2,3) live_subset_pool pool_aligned by blast
  obtain a where f: "free (page_bitmap k) ?r = Some (Inr (), a)"
    using free_spec [OF assms(2), of ?r] assms(3) by simp
  let ?k = "(advance k)\<lparr>ram := zero_page (ram k) ?r, page_bitmap := a\<rparr>"
  have s: "sys_free_pages k = Some (set_a0 0 ?k)"
    using assms(3-5) f is_allocated_live [OF assms(2), of ?r] al
    by (simp add: sys_free_pages_def Let_def is_valid_alloc_count_def is_page_aligned_def)
  have "live_pages a = live k - {?r}" using free_live [OF assms(2,3) f] by simp
  moreover have "translate_user L (zero_page (ram k) ?r) (pr_satp (procs k ! j)) va = None" for va
    using walk_zeroed [OF al, of va "ram k"] by (simp add: translate_user_def Let_def)
  ultimately show ?thesis using s by simp
qed

theorem free_pages_unowned_witness:
  "\<exists>k'. sys_free_pages (vm_demo 0x80300000 1 0) = Some k' \<and> tf_a0 (frame k') = 0 \<and> 0x80300000 \<notin> live k'"
proof -
  let ?k = "vm_demo 0x80300000 1 0"
  note F = vm_demo_facts [of "0x80300000" 1 0]
  have "satp_to_root (pr_satp (procs ?k ! 1)) = 0x80300000"
    using user_trapD(6) [OF F(1)] F(3) by (simp add: vm_demo_def ipc_demo_facts(2) [of Ready, simplified])
  moreover have "wf_alloc (page_bitmap ?k)" using F(2) by (simp add: vm_wf_def)
  ultimately show ?thesis
    using free_pages_unowned [OF F(1), of 1 qemu_layout] vm_demo_live F(7) by auto
qed

text \<open>
  \<open>SYS_ALLOC_PAGES\<close>: for a count other than one, and when the pool is exhausted, the result is
  \<open>usize::MAX\<close> and no memory changes; otherwise the result is a page that was free, it belongs to
  the allocated pages now, it is all zero, and no byte of an allocated page changed.
\<close>

theorem sys_alloc_pages_exact:
  assumes "user_trap k" "wf_alloc (page_bitmap k)"
  shows "\<exists>k'. sys_alloc_pages k = Some k' \<and>
    (if tf_a0 (frame k) = 1 \<and> live k \<noteq> pool (page_bitmap k)
     then tf_a0 (frame k') \<in> pool (page_bitmap k) - live k \<and> live k' = insert (tf_a0 (frame k')) (live k) \<and>
          (\<forall>b. page_of b = tf_a0 (frame k') \<longrightarrow> ram k' b = 0) \<and>
          (\<forall>b. page_of b \<in> live k \<longrightarrow> ram k' b = ram k b)
     else k' = set_a0 USIZE_MAX (advance k))"
proof (cases "tf_a0 (frame k) = 1")
  case False
  then show ?thesis by (simp add: sys_alloc_pages_def Let_def is_valid_alloc_count_def)
next
  case one: True
  from assms(2) show ?thesis
  proof (cases rule: alloc_cases)
    case full
    then show ?thesis using one by (simp add: sys_alloc_pages_def Let_def is_valid_alloc_count_def)
  next
    case (page i)
    let ?p = "page_addr (page_bitmap k) i"
    note A = alloc_page [OF assms(2) page(4)]
    have al: "?p mod PAGE_SIZE = 0" using A(2) assms(2) pool_aligned by blast
    have ne: "live k \<noteq> pool (page_bitmap k)" using A(2,3) by blast
    have z: "zero_page (ram k) ?p b = (if page_of b = ?p then 0 else ram k b)" for b
      using zero_page_eq [OF al] by simp
    show ?thesis
      using one page(4) A ne z by (auto simp: sys_alloc_pages_def Let_def is_valid_alloc_count_def)
  qed
qed

theorem sys_alloc_pages_exact_witness:
  "\<exists>k'. sys_alloc_pages (vm_demo 1 0 0) = Some k' \<and> tf_a0 (frame k') \<notin> live (vm_demo 1 0 0) \<and>
     tf_a0 (frame k') \<in> live k'"
proof -
  let ?k = "vm_demo 1 0 0"
  note F = vm_demo_facts [of 1 0 0]
  have "live ?k \<noteq> pool (page_bitmap ?k)"
    using F(4) small_vm_facts(2) by (auto simp: free_pages_def)
  moreover have "wf_alloc (page_bitmap ?k)" using F(2) by (simp add: vm_wf_def)
  ultimately show ?thesis using sys_alloc_pages_exact [OF F(1)] F(7) by auto
qed

end
