(* ===== verification/Lifecycle.thy ===== *)
theory Lifecycle
  imports Syscall
begin

unbundle bit_operations_syntax

text \<open>
  \<open>lifecycle.rs\<close>: what makes processes live and ends them.  \<open>create_process\<close> and
  \<open>create_process_from_elf\<close> fill the table at boot, \<open>launch\<close> creates the two boot processes and
  enters the first, \<open>sys_exit\<close> and \<open>kill_current\<close> release a slot and hand the hart on, \<open>sys_wait\<close>
  collects an exit code.  The programs embedded with \<open>global_asm!\<close> are data: the addresses and sizes
  of their images are the record \<open>boot_images\<close>.
\<close>

section \<open>Model\<close>

record boot_images =
  init_start :: usize
  init_size :: usize
  uart_start :: usize
  uart_size :: usize

text \<open>Free the slot, its interrupt and its pending network operation.\<close>

definition release_irq :: "usize \<Rightarrow> kernel \<Rightarrow> kernel option" where
  "release_irq current k = do {
     p \<leftarrow> get_proc k current;
     if pr_irq_num p \<noteq> 0 then do {
       let irq = pr_irq_num p;
       k \<leftarrow> if is_valid_irq (ucast irq)
           then do { os \<leftarrow> upd (irq_owners k) (unat irq) 0; Some (k\<lparr>irq_owners := os\<rparr>) }
           else Some k;
       upd_proc current (\<lambda>p. p\<lparr>pr_irq_num := 0\<rparr>) k
     } else Some k
   }"

definition release_slot :: "usize \<Rightarrow> usize \<Rightarrow> kernel \<Rightarrow> kernel option" where
  "release_slot current exit_code k = do {
     k \<leftarrow> upd_proc current (\<lambda>p. p\<lparr>pr_state := Free, pr_exit_code := exit_code\<rparr>) k;
     k \<leftarrow> release_irq current k;
     upd_proc current (\<lambda>p. p\<lparr>pr_net_op := NetNone, pr_net_socket := 0, pr_net_buf_va := 0, pr_net_buf_len := 0\<rparr>) k
   }"

text \<open>Hand the exit code to the first process that waits for this one.\<close>

definition is_waiting_on :: "usize \<Rightarrow> process \<Rightarrow> bool" where
  "is_waiting_on current p \<longleftrightarrow> pr_state p = BlockedWait \<and> pr_ipc_target p = current"

definition wake_waiter :: "usize \<Rightarrow> usize \<Rightarrow> kernel \<Rightarrow> kernel option" where
  "wake_waiter current exit_code k = do {
     i \<leftarrow> find_proc (is_waiting_on current) (procs k) all_pids;
     if i = 0 then Some k
     else upd_proc i (\<lambda>p. p\<lparr>pr_context := (pr_context p)\<lparr>tf_a0 := exit_code\<rparr>, pr_state := Ready\<rparr>) k
   }"

definition kill_current :: "kcfg \<Rightarrow> usize \<Rightarrow> kernel \<Rightarrow> kernel option" where
  "kill_current cfg exit_code k =
     (let current = current_pid k
      in do {
        assert_that (current \<noteq> 0);
        k \<leftarrow> release_slot current exit_code k;
        k \<leftarrow> wake_waiter current exit_code k;
        next \<leftarrow> find_proc is_ready (procs k) all_pids;
        if next = 0 then do {
          any_alive \<leftarrow> find_proc is_alive (procs k) all_pids;
          let k = k\<lparr>satp := kernel_satp k\<rparr>;
          if any_alive \<noteq> 0 then Some (return_to_kernel (idle_pc cfg) (k\<lparr>current_pid := 0\<rparr>))
          else Some (return_to_kernel (exit_pc cfg) (k\<lparr>current_pid := 0\<rparr>))
        } else switch_to next k
      })"

definition sys_exit :: "kcfg \<Rightarrow> kernel \<Rightarrow> kernel option" where
  "sys_exit cfg k =
     (let current = current_pid k; exit_code = tf_a0 (frame k)
      in do {
        k \<leftarrow> release_slot current exit_code k;
        k \<leftarrow> wake_waiter current exit_code k;
        next \<leftarrow> find_proc is_ready (procs k) all_pids;
        if next = 0 then do {
          any_alive \<leftarrow> find_proc is_alive (procs k) all_pids;
          let k = k\<lparr>satp := kernel_satp k\<rparr>;
          if any_alive \<noteq> 0 then Some (return_to_kernel (idle_pc cfg) (k\<lparr>current_pid := 0\<rparr>))
          else Some (k\<lparr>frame := (frame k)\<lparr>tf_sstatus := tf_sstatus (frame k) OR push_bit 8 1 OR push_bit 5 1,
                                        tf_sepc := exit_pc cfg\<rparr>\<rparr>)
        } else switch_to next k
      })"

definition sys_wait :: "kcfg \<Rightarrow> kernel \<Rightarrow> kernel option" where
  "sys_wait cfg k =
     (let k = advance k; current = current_pid k; child_pid = tf_a0 (frame k)
      in if \<not> is_valid_ipc_target child_pid current then Some (set_a0 USIZE_MAX k)
         else do {
           ch \<leftarrow> get_proc k child_pid;
           if pr_parent ch \<noteq> current then Some (set_a0 USIZE_MAX k)
           else if pr_state ch = Free then Some (set_a0 (pr_exit_code ch) k)
           else do {
             k \<leftarrow> upd_proc current (\<lambda>p. p\<lparr>pr_ipc_target := child_pid, pr_state := BlockedWait\<rparr>) k;
             schedule cfg k current
           }
         })"

text \<open>Boot-time creation from an image in kernel memory.\<close>

definition create_process :: "kcfg \<Rightarrow> usize \<Rightarrow> usize \<Rightarrow> usize \<Rightarrow> kernel \<Rightarrow> kernel option" where
  "create_process cfg pid code_start code_size k = do {
     assert_that (0 < pid \<and> pid < MAX_PROCS);
     (user_code, k) \<leftarrow> alloc_zeroed_page k;
     let k = copy_loop ram code_start user_code (unat code_size) k;
     (user_stack, k) \<leftarrow> alloc_zeroed_page k;
     (user_root, k) \<leftarrow> alloc_zeroed_page k;
     k \<leftarrow> map_kernel_regions (lay cfg) k user_root;
     k \<leftarrow> map_range k user_root user_code (user_code + PAGE_SIZE) USER_RX;
     k \<leftarrow> map_range k user_root user_stack (user_stack + PAGE_SIZE) USER_RW;
     upd_proc pid (\<lambda>_. new_process pid (make_satp user_root (ucast pid)) user_code (user_stack + PAGE_SIZE) 0) k
   }"

definition create_process_from_elf :: "kcfg \<Rightarrow> usize \<Rightarrow> elf_info \<Rightarrow> usize \<Rightarrow> kernel \<Rightarrow> kernel option" where
  "create_process_from_elf cfg pid info elf_data k = do {
     assert_that (0 < pid \<and> pid < MAX_PROCS);
     (user_root, k) \<leftarrow> build_elf_space (lay cfg) ram elf_data info k;
     upd_proc pid (\<lambda>_. new_process pid (make_satp user_root (ucast pid)) (elf_entry info) (STACK_VA + PAGE_SIZE) 0) k
   }"

definition UART_USER_VA :: usize where "UART_USER_VA = 0x5E000000"

text \<open>
  \<open>launch\<close> in the default build.  The final \<open>sret\<close> continues with the registers of the current
  frame except for the stack pointer, at the entry point in user mode.
\<close>

definition launch :: "kcfg \<Rightarrow> boot_images \<Rightarrow> kernel \<Rightarrow> kernel option" where
  "launch cfg img k = do {
     k \<leftarrow> create_process cfg 1 (init_start img) (init_size img) k;
     k \<leftarrow> create_process cfg 2 (uart_start img) (uart_size img) k;
     p2 \<leftarrow> get_proc k 2;
     k \<leftarrow> map_user_page k (satp_to_root (pr_satp p2)) UART_USER_VA UART_BASE USER_MMIO;
     p1 \<leftarrow> get_proc k 1;
     k \<leftarrow> upd_proc 1 (\<lambda>p. p\<lparr>pr_state := Running\<rparr>) (k\<lparr>current_pid := 1\<rparr>);
     Some (k\<lparr>satp := pr_satp p1,
       frame := (frame k)\<lparr>tf_sepc := tf_sepc (pr_context p1), tf_sp := tf_sp (pr_context p1),
                         tf_sstatus := (tf_sstatus (frame k) AND NOT (push_bit 8 1)) OR push_bit 5 1\<rparr>\<rparr>)
   }"

section \<open>Leaving a process\<close>

text \<open>The table after the slot is released: nothing runs, the other entries are as before.\<close>

definition dead_entry :: "usize \<Rightarrow> process \<Rightarrow> process" where
  "dead_entry code p = p\<lparr>pr_state := Free, pr_exit_code := code, pr_irq_num := 0, pr_net_op := NetNone,
     pr_net_socket := 0, pr_net_buf_va := 0, pr_net_buf_len := 0\<rparr>"

definition released_irqs :: "process \<Rightarrow> usize list \<Rightarrow> usize list" where
  "released_irqs p os = (if pr_irq_num p \<noteq> 0 \<and> unat (pr_irq_num p) < 64 then os[unat (pr_irq_num p) := 0] else os)"

lemma dead_entry_sel [simp]: "pr_state (dead_entry c p) = Free" "pr_exit_code (dead_entry c p) = c"
  "pr_parent (dead_entry c p) = pr_parent p" "pr_irq_num (dead_entry c p) = 0"
  by (simp_all add: dead_entry_def)

lemma release_slot_eq:
  assumes "unat c < 8" "length (procs k) = 8" "length (irq_owners k) = 64"
  shows "release_slot c code k = Some ((set_proc (unat c) (dead_entry code (procs k ! unat c)) k)
    \<lparr>irq_owners := released_irqs (procs k ! unat c) (irq_owners k)\<rparr>)"
proof (cases "pr_irq_num (procs k ! unat c) = 0")
  case True
  then have "dead_entry code (procs k ! unat c) = (procs k ! unat c)\<lparr>pr_state := Free, pr_exit_code := code,
      pr_net_op := NetNone, pr_net_socket := 0, pr_net_buf_va := 0, pr_net_buf_len := 0\<rparr>"
    by (cases "procs k ! unat c") (simp add: dead_entry_def)
  then show ?thesis
    using True assms by (simp add: release_slot_def release_irq_def Let_def released_irqs_def set_proc_def)
next
  case False
  then show ?thesis
    using assms
    by (simp add: release_slot_def release_irq_def Let_def valid_irq_unat released_irqs_def dead_entry_def set_proc_def)
qed

definition woken :: "usize \<Rightarrow> process \<Rightarrow> process" where
  "woken code p = p\<lparr>pr_context := (pr_context p)\<lparr>tf_a0 := code\<rparr>, pr_state := Ready\<rparr>"

lemma wake_waiter_eq:
  assumes "length (procs k) = 8"
  shows "wake_waiter c code k = Some (case find (\<lambda>i. is_waiting_on c (procs k ! i)) [1..<8] of
    None \<Rightarrow> k | Some i \<Rightarrow> set_proc i (woken code (procs k ! i)) k)"
proof (cases "find (\<lambda>i. is_waiting_on c (procs k ! i)) [1..<8]")
  case None
  then show ?thesis using scan_all [OF assms, of "is_waiting_on c"] by (simp add: wake_waiter_def)
next
  case (Some i)
  then have i: "0 < i" "i < 8" by (auto dest!: find_Some_in)
  show ?thesis
    using scan_all [OF assms, of "is_waiting_on c"] Some of_nat_pid_neq_0 [OF i] i assms
    by (simp add: wake_waiter_def woken_def set_proc_def unat_pid)
qed

text \<open>The state in which the hart is handed on: parked, and reached by peer steps.\<close>

lemma leave_parked:
  assumes ut: "user_trap k"
  shows "\<exists>k1 k2. release_slot (current_pid k) code k = Some k1 \<and> wake_waiter (current_pid k) code k1 = Some k2 \<and>
    kernel_parked k2 \<and> frame k2 = frame k \<and> current_pid k2 = current_pid k \<and>
    procs k2 ! unat (current_pid k) = dead_entry code (procs k ! unat (current_pid k)) \<and>
    irq_owners k2 = released_irqs (procs k ! unat (current_pid k)) (irq_owners k) \<and>
    (\<forall>i < 8. i \<noteq> unat (current_pid k) \<longrightarrow> peer_step (current_pid k) (procs k ! i) (procs k2 ! i))"
proof -
  let ?c = "unat (current_pid k)"
  note U = user_trapD [OF ut] and K = kernel_invD [OF user_trapD(1) [OF ut]]
  define k1 where "k1 = (set_proc ?c (dead_entry code (procs k ! ?c)) k)
    \<lparr>irq_owners := released_irqs (procs k ! ?c) (irq_owners k)\<rparr>"
  have r: "release_slot (current_pid k) code k = Some k1"
    unfolding k1_def by (rule release_slot_eq [OF U(4,7) K(2)])
  have n1: "procs k1 ! i = (if i = ?c then dead_entry code (procs k ! ?c) else procs k ! i)" if "i < 8" for i
    using that U(7) by (simp add: k1_def nth_list_update)
  have l1: "length (procs k1) = 8" using U(7) by (simp add: k1_def)
  have irq: "irq_owners k1 = released_irqs (procs k ! ?c) (irq_owners k)" "length (irq_owners k1) = 64"
    "\<forall>i < 64. unat (irq_owners k1 ! i) < 8"
    using K(2,8) by (simp_all add: k1_def released_irqs_def nth_list_update)
  have pk1: "kernel_parked k1"
    unfolding kernel_parked_def using K(4,5,7) U(3) l1 irq(2,3) by (auto simp: n1)
  define w where "w = find (\<lambda>i. is_waiting_on (current_pid k) (procs k1 ! i)) [1..<8]"
  show ?thesis
  proof (cases w)
    case None
    have "wake_waiter (current_pid k) code k1 = Some k1"
      using wake_waiter_eq [OF l1, of "current_pid k" code] None unfolding w_def by simp
    then show ?thesis
      using r pk1 irq(1) n1 U(4) by (intro exI [of _ k1]) (simp add: k1_def [THEN arg_cong [where f = frame]]
        k1_def [THEN arg_cong [where f = current_pid]] peer_same)
  next
    case (Some i)
    then have i: "0 < i" "i < 8" "is_waiting_on (current_pid k) (procs k1 ! i)"
      unfolding w_def by (auto dest!: find_Some_in)
    have ic: "i \<noteq> ?c" using i(2,3) n1 by (auto simp: is_waiting_on_def)
    let ?k2 = "set_proc i (woken code (procs k1 ! i)) k1"
    have wk: "wake_waiter (current_pid k) code k1 = Some ?k2"
      using wake_waiter_eq [OF l1, of "current_pid k" code] Some unfolding w_def by simp
    have n2: "procs ?k2 ! j = (if j = i then woken code (procs k ! i) else procs k1 ! j)" if "j < 8" for j
      using that l1 n1 [OF i(2)] ic by (simp add: nth_list_update)
    have st: "pr_state (procs k ! i) = BlockedWait" "pr_ipc_target (procs k ! i) = current_pid k"
      using i(2,3) n1 ic by (simp_all add: is_waiting_on_def)
    have ps: "peer_step (current_pid k) (procs k ! i) (woken code (procs k ! i))"
      unfolding woken_def using st by (rule peer_wake)
    have um: "user_mode (pr_context (woken code (procs k ! i)))" "pr_state (woken code (procs k ! i)) = Ready"
      using K(7) [OF i(2)] st(1) by (simp_all add: woken_def)
    have "kernel_parked ?k2"
      using kernel_parkedD [OF pk1] i um unfolding kernel_parked_def
      by (auto simp: n2 simp del: set_proc_sel(1)) (simp add: l1)
    then show ?thesis
      using r wk irq(1) n1 n2 ps ic U(4)
      by (intro exI [of _ k1] exI [of _ ?k2]) (auto simp: k1_def [THEN arg_cong [where f = frame]]
        k1_def [THEN arg_cong [where f = current_pid]] peer_same simp del: set_proc_sel(1))
  qed
qed

text \<open>Handing the hart on from a parked state reached by peer steps.\<close>

lemma hand_on_ok:
  assumes pk: "kernel_parked k2"
    and ps: "\<forall>i < 8. i \<noteq> unat (current_pid k) \<longrightarrow> peer_step (current_pid k) (procs k ! i) (procs k2 ! i)"
  shows "syscall_ok k (park pc k2)"
    "n < 8 \<Longrightarrow> pr_state (procs k2 ! n) = Ready \<Longrightarrow> syscall_ok k (resume n k2)"
    "unat (current_pid k2) < 8 \<Longrightarrow> \<not> user_mode f \<Longrightarrow> syscall_ok k (k2\<lparr>satp := v, frame := f\<rparr>)"
proof -
  note P = kernel_parkedD [OF pk]
  show "syscall_ok k (park pc k2)" using park_inv [OF pk] ps by (simp add: syscall_ok_def peer_ok_step)
  show "syscall_ok k (resume n k2)" if n: "n < 8" "pr_state (procs k2 ! n) = Ready"
  proof -
    have "dispatched (procs k2 ! i) (procs (resume n k2) ! i)" if "i < 8" for i
      using n that P(1) by (cases "i = n") (simp_all add: dispatched_def)
    then show ?thesis using resume_inv(1) [OF pk n] ps by (auto simp: syscall_ok_def peer_ok_def)
  qed
  show "syscall_ok k (k2\<lparr>satp := v, frame := f\<rparr>)" if "unat (current_pid k2) < 8" "\<not> user_mode f"
  proof -
    have "kernel_inv (k2\<lparr>satp := v, frame := f\<rparr>)" by (rule kernel_invI) (use P that in auto)
    then show ?thesis using ps by (simp add: syscall_ok_def peer_ok_step)
  qed
qed

definition first_ready :: "process list \<Rightarrow> nat option" where
  "first_ready ps = find (\<lambda>i. is_ready (ps ! i)) [1..<8]"

lemma first_ready_Some: "first_ready ps = Some n \<Longrightarrow> 0 < n \<and> n < 8 \<and> pr_state (ps ! n) = Ready"
  by (auto simp: first_ready_def is_ready_def dest!: find_Some_in)

lemma scan_ready: "length ps = 8 \<Longrightarrow>
  find_proc is_ready ps all_pids = Some (case first_ready ps of None \<Rightarrow> 0 | Some i \<Rightarrow> of_nat i)"
  unfolding first_ready_def by (rule scan_all)

lemma scan_alive: "length ps = 8 \<Longrightarrow> \<exists>i. find_proc is_alive ps all_pids = Some i \<and>
  (i = 0 \<longleftrightarrow> (\<forall>j < 8. 0 < j \<longrightarrow> pr_state (ps ! j) = Free))"
proof -
  assume l: "length ps = 8"
  show ?thesis
  proof (cases "find (\<lambda>i. is_alive (ps ! i)) [1..<8]")
    case None
    then have "find_proc is_alive ps all_pids = Some 0" using scan_all [OF l, of is_alive] by simp
    then show ?thesis using None by (auto simp: find_None_iff is_alive_def)
  next
    case (Some i)
    then have i: "0 < i" "i < 8" "is_alive (ps ! i)" by (auto dest!: find_Some_in)
    then show ?thesis
      using scan_all [OF l, of is_alive] Some of_nat_pid_neq_0 [OF i(1,2)] by (auto simp: is_alive_def)
  qed
qed

lemma kill_current_ok:
  assumes ut: "user_trap k"
  shows "\<exists>k'. kill_current cfg code k = Some k' \<and> syscall_ok k k'"
proof -
  let ?c = "current_pid k"
  obtain k1 k2 where s: "release_slot ?c code k = Some k1" "wake_waiter ?c code k1 = Some k2" and pk: "kernel_parked k2"
    and ps: "\<forall>i < 8. i \<noteq> unat ?c \<longrightarrow> peer_step ?c (procs k ! i) (procs k2 ! i)"
    using leave_parked [OF ut, of code] by blast
  note l = kernel_parkedD(1) [OF pk]
  obtain al where al: "find_proc is_alive (procs k2) all_pids = Some al" using scan_alive [OF l] by blast
  note H = hand_on_ok [OF pk ps]
  show ?thesis
  proof (cases "first_ready (procs k2)")
    case None
    have "kill_current cfg code k = Some (park (if al \<noteq> 0 then idle_pc cfg else exit_pc cfg) k2)"
      using s al None scan_ready [OF l] user_trapD(8) [OF ut]
      by (simp add: kill_current_def Let_def park_def return_to_kernel_def)
    then show ?thesis using H(1) by blast
  next
    case (Some n)
    note n = first_ready_Some [OF Some]
    have "kill_current cfg code k = Some (resume n k2)"
      using s Some scan_ready [OF l] user_trapD(8) [OF ut] n of_nat_pid_neq_0 [of n] switch_to_resume [OF _ l, of n]
      by (simp add: kill_current_def Let_def)
    then show ?thesis using H(2) n by blast
  qed
qed

lemma sys_exit_ok:
  assumes ut: "user_trap k"
  shows "\<exists>k'. sys_exit cfg k = Some k' \<and> syscall_ok k k'"
proof -
  let ?c = "current_pid k" and ?code = "tf_a0 (frame k)"
  obtain k1 k2 where s: "release_slot ?c ?code k = Some k1" "wake_waiter ?c ?code k1 = Some k2" and pk: "kernel_parked k2"
    and cp: "current_pid k2 = ?c" and ps: "\<forall>i < 8. i \<noteq> unat ?c \<longrightarrow> peer_step ?c (procs k ! i) (procs k2 ! i)"
    using leave_parked [OF ut, of ?code] by blast
  note l = kernel_parkedD(1) [OF pk]
  obtain al where al: "find_proc is_alive (procs k2) all_pids = Some al" using scan_alive [OF l] by blast
  note H = hand_on_ok [OF pk ps]
  show ?thesis
  proof (cases "first_ready (procs k2)")
    case None
    show ?thesis
    proof (cases "al = 0")
      case True
      let ?f = "(frame k2)\<lparr>tf_sstatus := tf_sstatus (frame k2) OR push_bit 8 1 OR push_bit 5 1, tf_sepc := exit_pc cfg\<rparr>"
      have "bit (tf_sstatus ?f AND push_bit 8 1) 8" by (simp add: bit_simps)
      then have "\<not> user_mode ?f" unfolding user_mode_def by (metis bit_0_eq bot_apply bot_bool_def)
      then have "syscall_ok k (k2\<lparr>satp := kernel_satp k2, frame := ?f\<rparr>)"
        using H(3) cp user_trapD(4) [OF ut] by simp
      moreover have "sys_exit cfg k = Some (k2\<lparr>satp := kernel_satp k2, frame := ?f\<rparr>)"
        using s al True None scan_ready [OF l] by (simp add: sys_exit_def Let_def)
      ultimately show ?thesis by blast
    next
      case False
      have "sys_exit cfg k = Some (park (idle_pc cfg) k2)"
        using s al False None scan_ready [OF l] by (simp add: sys_exit_def Let_def park_def return_to_kernel_def)
      then show ?thesis using H(1) by blast
    qed
  next
    case (Some n)
    note n = first_ready_Some [OF Some]
    have "sys_exit cfg k = Some (resume n k2)"
      using s Some scan_ready [OF l] n of_nat_pid_neq_0 [of n] switch_to_resume [OF _ l, of n]
      by (simp add: sys_exit_def Let_def)
    then show ?thesis using H(2) n by blast
  qed
qed

definition wait_entry :: "usize \<Rightarrow> process \<Rightarrow> process" where
  "wait_entry ch p = p\<lparr>pr_ipc_target := ch, pr_state := BlockedWait\<rparr>"

lemma wait_entry_sel [simp]:
  "pr_state (wait_entry ch p) = BlockedWait" "pr_context (wait_entry ch p) = pr_context p"
  "pr_ipc_target (wait_entry ch p) = ch"
  by (simp_all add: wait_entry_def)

lemma sys_wait_eq:
  assumes ut: "user_trap k"
  shows "sys_wait cfg k =
    (let c = current_pid k; t = tf_a0 (frame k); p = procs k ! unat t; k1 = advance k
     in if \<not> is_valid_ipc_target t c \<or> pr_parent p \<noteq> c then Some (set_a0 USIZE_MAX k1)
        else if pr_state p = Free then Some (set_a0 (pr_exit_code p) k1)
        else schedule cfg (set_proc (unat c) (wait_entry t (procs k ! unat c)) k1) c)"
  using user_trapD [OF ut]
  by (simp add: sys_wait_def Let_def valid_target_unat wait_entry_def set_proc_def)

lemma sys_wait_ok:
  assumes ut: "user_trap k"
  shows "\<exists>k'. sys_wait cfg k = Some k' \<and> syscall_ok k k'"
proof -
  let ?c = "current_pid k" and ?t = "tf_a0 (frame k)"
  let ?p = "procs k ! unat ?t"
  have "(\<exists>v. sys_wait cfg k = Some (set_a0 v (advance k))) \<or>
    sys_wait cfg k = schedule cfg (set_proc (unat ?c) (wait_entry ?t (procs k ! unat ?c)) (advance k)) ?c"
    unfolding sys_wait_eq [OF ut, of cfg] Let_def by auto
  then show ?thesis
    using error_ok [OF ut] block_self_ok [of "advance k" "wait_entry ?t (procs k ! unat ?c)" cfg] ut by auto
qed

section \<open>Properties\<close>

text \<open>A process that is neither the caller nor ready after the peer steps keeps its registers.\<close>

lemma sys_exit_spec:
  assumes ut: "user_trap k"
  obtains k' where "sys_exit cfg k = Some k'"
    "irq_owners k' = released_irqs (procs k ! unat (current_pid k)) (irq_owners k)"
    "procs k' ! unat (current_pid k) = dead_entry (tf_a0 (frame k)) (procs k ! unat (current_pid k))"
    "\<forall>i < 8. i \<noteq> unat (current_pid k) \<longrightarrow> dispatched
       (if find (\<lambda>i. is_waiting_on (current_pid k) (procs k ! i)) [1..<8] = Some i
        then woken (tf_a0 (frame k)) (procs k ! i) else procs k ! i) (procs k' ! i)"
    "(\<forall>i < 8. i \<noteq> unat (current_pid k) \<longrightarrow> pr_state (procs k ! i) = Free) \<Longrightarrow>
       current_pid k' = current_pid k \<and> satp k' = kernel_satp k \<and> tf_sepc (frame k') = exit_pc cfg"
proof -
  note out = that
  let ?c = "current_pid k" and ?code = "tf_a0 (frame k)"
  note U = user_trapD [OF ut] and K = kernel_invD [OF user_trapD(1) [OF ut]]
  define k1 where "k1 = (set_proc (unat ?c) (dead_entry ?code (procs k ! unat ?c)) k)
    \<lparr>irq_owners := released_irqs (procs k ! unat ?c) (irq_owners k)\<rparr>"
  define w where "w = find (\<lambda>i. is_waiting_on ?c (procs k ! i)) [1..<8]"
  define k2 where "k2 = (case w of None \<Rightarrow> k1 | Some i \<Rightarrow> set_proc i (woken ?code (procs k1 ! i)) k1)"
  have r: "release_slot ?c ?code k = Some k1" unfolding k1_def by (rule release_slot_eq [OF U(4,7) K(2)])
  have n1: "procs k1 ! i = (if i = unat ?c then dead_entry ?code (procs k ! unat ?c) else procs k ! i)" if "i < 8" for i
    using that U(7) by (simp add: k1_def nth_list_update)
  have l1: "length (procs k1) = 8" using U(7) by (simp add: k1_def)
  have nwc: "\<not> is_waiting_on ?c (procs k ! unat ?c)" "\<not> is_waiting_on ?c (dead_entry ?code (procs k ! unat ?c))"
    using U(5) by (simp_all add: is_waiting_on_def)
  have w1: "find (\<lambda>i. is_waiting_on ?c (procs k1 ! i)) [1..<8] = w"
    unfolding w_def using nwc by (intro find_cong_set) (auto simp: n1)
  have wk: "wake_waiter ?c ?code k1 = Some k2" unfolding k2_def using wake_waiter_eq [OF l1] w1 by simp
  have wc: "i \<noteq> unat ?c \<and> 0 < i \<and> i < 8" if "w = Some i" for i
    using that nwc(1) unfolding w_def by (auto dest!: find_Some_in)
  have n2: "procs k2 ! i = (if i = unat ?c then dead_entry ?code (procs k ! unat ?c)
      else if w = Some i then woken ?code (procs k ! i) else procs k ! i)" if "i < 8" for i
    using that wc n1 l1 unfolding k2_def by (auto simp: nth_list_update split: option.splits)
  have sel: "length (procs k2) = 8" "irq_owners k2 = released_irqs (procs k ! unat ?c) (irq_owners k)"
    "current_pid k2 = ?c" "kernel_satp k2 = kernel_satp k"
    using l1 unfolding k2_def by (auto simp: k1_def split: option.splits)
  obtain al where al: "find_proc is_alive (procs k2) all_pids = Some al"
    "al = 0 \<longleftrightarrow> (\<forall>j < 8. 0 < j \<longrightarrow> pr_state (procs k2 ! j) = Free)" using scan_alive [OF sel(1)] by blast
  have pub: thesis
    if "sys_exit cfg k = Some k'" "irq_owners k' = irq_owners k2" "\<And>i. i < 8 \<Longrightarrow> dispatched (procs k2 ! i) (procs k' ! i)"
      "(\<forall>i < 8. i \<noteq> unat ?c \<longrightarrow> pr_state (procs k ! i) = Free) \<Longrightarrow>
       current_pid k' = ?c \<and> satp k' = kernel_satp k \<and> tf_sepc (frame k') = exit_pc cfg" for k'
  proof (rule out [OF that(1)])
    show "procs k' ! unat ?c = dead_entry ?code (procs k ! unat ?c)"
      using that(3) [OF U(4)] n2 [OF U(4)] by (auto simp: dispatched_def)
    show "\<forall>i < 8. i \<noteq> unat ?c \<longrightarrow> dispatched (if find (\<lambda>i. is_waiting_on ?c (procs k ! i)) [1..<8] = Some i
        then woken ?code (procs k ! i) else procs k ! i) (procs k' ! i)"
      unfolding w_def [symmetric]
    proof (intro allI impI)
      fix i :: nat assume i: "i < 8" "i \<noteq> unat ?c"
      show "dispatched (if w = Some i then woken ?code (procs k ! i) else procs k ! i) (procs k' ! i)"
        using that(3) [OF i(1)] n2 [OF i(1)] i(2) by simp
    qed
  qed (use that sel in simp_all)
  show ?thesis
  proof (cases "first_ready (procs k2)")
    case None
    show ?thesis
    proof (cases "al = 0")
      case True
      then have "sys_exit cfg k = Some (k2\<lparr>satp := kernel_satp k2, frame := (frame k2)\<lparr>tf_sstatus :=
          tf_sstatus (frame k2) OR push_bit 8 1 OR push_bit 5 1, tf_sepc := exit_pc cfg\<rparr>\<rparr>)"
        using r wk al(1) None scan_ready [OF sel(1)] by (simp add: sys_exit_def Let_def)
      then show ?thesis by (rule pub) (simp_all add: dispatched_def sel)
    next
      case False
      then have "sys_exit cfg k = Some (park (idle_pc cfg) k2)"
        using r wk al None scan_ready [OF sel(1)] by (simp add: sys_exit_def Let_def park_def return_to_kernel_def)
      moreover have "\<not> (\<forall>i < 8. i \<noteq> unat ?c \<longrightarrow> pr_state (procs k ! i) = Free)"
        using False al(2) wc unfolding w_def by (auto simp: n2 is_waiting_on_def woken_def w_def dest!: find_Some_in split: if_splits)
      ultimately show ?thesis by (intro pub [of "park (idle_pc cfg) k2"]) (simp_all add: dispatched_def)
    qed
  next
    case (Some n)
    note n = first_ready_Some [OF Some]
    have "sys_exit cfg k = Some (resume n k2)"
      using r wk Some scan_ready [OF sel(1)] n of_nat_pid_neq_0 [of n] switch_to_resume [OF _ sel(1), of n]
      by (simp add: sys_exit_def Let_def)
    moreover have "dispatched (procs k2 ! i) (procs (resume n k2) ! i)" if "i < 8" for i
      using n that sel(1) by (cases "i = n") (simp_all add: dispatched_def)
    moreover have "\<not> (\<forall>i < 8. i \<noteq> unat ?c \<longrightarrow> pr_state (procs k ! i) = Free)"
      using n n2 [of n] by (auto simp: w_def is_waiting_on_def dest!: find_Some_in split: if_splits)
    ultimately show ?thesis by (intro pub [of "resume n k2"]) simp_all
  qed
qed

text \<open>
  C8. Waiting for a child: \<open>SYS_WAIT\<close> on a live child blocks the parent; when the child later exits,
  its slot is free and holds the exit code, and the parent is runnable again with the exit code in
  \<open>a0\<close> and its other registers as at the wait.
\<close>

theorem wait_exit_roundtrip:
  assumes "user_trap k" "is_valid_ipc_target (tf_a0 (frame k)) (current_pid k)"
    and "pr_parent (procs k ! unat (tf_a0 (frame k))) = current_pid k"
    and "pr_state (procs k ! unat (tf_a0 (frame k))) \<noteq> Free"
    and "sys_wait cfg k = Some k1"
    and "user_trap k2" "current_pid k2 = tf_a0 (frame k)"
    and "procs k2 ! unat (current_pid k) = procs k1 ! unat (current_pid k)"
    and "\<forall>i < 8. i \<noteq> unat (current_pid k) \<longrightarrow> \<not> is_waiting_on (current_pid k2) (procs k2 ! i)"
  shows "\<exists>k3. sys_exit cfg k2 = Some k3 \<and>
    pr_state (procs k3 ! unat (current_pid k2)) = Free \<and>
    pr_exit_code (procs k3 ! unat (current_pid k2)) = tf_a0 (frame k2) \<and>
    pr_state (procs k3 ! unat (current_pid k)) \<in> {Ready, Running} \<and>
    pr_context (procs k3 ! unat (current_pid k)) = returns_from (frame k) (tf_a0 (frame k2))"
proof -
  let ?c = "current_pid k" and ?t = "tf_a0 (frame k)"
  let ?e = "wait_entry ?t (procs k ! unat ?c)"
  note U = user_trapD [OF assms(1)]
  have "schedule cfg (set_proc (unat ?c) ?e (advance k)) ?c = Some k1"
    using assms(2-5) sys_wait_eq [OF assms(1), of cfg] by (simp add: Let_def)
  then have e1: "procs k2 ! unat ?c = ?e\<lparr>pr_context := frame (advance k)\<rparr>"
    using block_self_entry [of "advance k" ?e cfg k1] assms(1,8) by simp
  have w: "is_waiting_on (current_pid k2) (procs k2 ! unat ?c)"
    unfolding e1 using assms(7) by (simp add: is_waiting_on_def)
  have "unat ?c \<in> set [1..<8]" using U(3,4) by simp
  with w obtain i where "find (\<lambda>i. is_waiting_on (current_pid k2) (procs k2 ! i)) [1..<8] = Some i"
    by (cases "find (\<lambda>i. is_waiting_on (current_pid k2) (procs k2 ! i)) [1..<8]") (auto simp: find_None_iff)
  moreover have "i = unat ?c" using find_Some_in [OF calculation] assms(9) by auto
  ultimately have f: "find (\<lambda>i. is_waiting_on (current_pid k2) (procs k2 ! i)) [1..<8] = Some (unat ?c)" by simp
  have ne: "unat ?c \<noteq> unat (current_pid k2)" using assms(2,7) by (simp add: valid_target_unat)
  obtain k3 where k3: "sys_exit cfg k2 = Some k3"
    "procs k3 ! unat (current_pid k2) = dead_entry (tf_a0 (frame k2)) (procs k2 ! unat (current_pid k2))"
    "dispatched (woken (tf_a0 (frame k2)) (procs k2 ! unat ?c)) (procs k3 ! unat ?c)"
    by (rule sys_exit_spec [OF assms(6), of cfg]) (use f U(4) ne in force)
  have "pr_context (procs k3 ! unat ?c) = returns_from (frame k) (tf_a0 (frame k2))"
    "pr_state (procs k3 ! unat ?c) \<in> {Ready, Running}"
    using k3(3) unfolding e1 by (auto simp: dispatched_def woken_def returns_from_def)
  then show ?thesis using k3(1,2) by simp
qed

lemma set_proc_same:
  assumes ut: "user_trap k" and t: "0 < t" "t < 8" "t \<noteq> unat (current_pid k)"
    and q: "pr_state q = pr_state (procs k ! t)" "pr_context q = pr_context (procs k ! t)"
  shows "user_trap (set_proc t q k)"
proof (rule upd_other_trap [OF ut t])
  note K = kernel_invD [OF user_trapD(1) [OF ut]]
  show "pr_state q \<noteq> Running" using K(5) [OF t(2)] t(3) q(1) by auto
  show "pr_state q \<noteq> Free \<longrightarrow> user_mode (pr_context q)" using K(7) [OF t(2)] q by simp
qed (use user_trapD(2) [OF ut] in simp_all)

text \<open>The first process is the parent of the second.\<close>

definition family_demo :: kernel where
  "family_demo = set_proc 2 ((proc_at 2 Ready)\<lparr>pr_parent := 1\<rparr>) (ipc_demo Ready 2)"

lemma family_demo_facts:
  "user_trap family_demo" "current_pid family_demo = 1" "tf_a0 (frame family_demo) = 2"
  "procs family_demo ! 2 = (proc_at 2 Ready)\<lparr>pr_parent := 1\<rparr>" "procs family_demo ! 1 = proc_at 1 Running"
  "states family_demo = [Free, Running, Ready, Free, Free, Free, Free, Free]"
  "\<forall>i < 8. pr_state (procs family_demo ! i) \<noteq> BlockedWait"
proof -
  note F = ipc_demo_facts [of Ready 2, simplified]
  have l: "length (procs (ipc_demo Ready 2)) = 8" using user_trapD(7) [OF F(1)] .
  show "user_trap family_demo"
    unfolding family_demo_def by (rule set_proc_same [OF F(1)]) (simp_all add: F proc_at_def)
  show "states family_demo = [Free, Running, Ready, Free, Free, Free, Free, Free]"
    using F(6) by (simp add: family_demo_def states_def map_update proc_at_def)
  then have "pr_state (procs family_demo ! i) = [Free, Running, Ready, Free, Free, Free, Free, Free] ! i" if "i < 8" for i
    using states_nth [of i family_demo] that l by (simp add: family_demo_def)
  then show "\<forall>i < 8. pr_state (procs family_demo ! i) \<noteq> BlockedWait"
    by (simp add: All_less_Suc numeral_eq_Suc)
qed (use user_trapD(7) [OF ipc_demo_facts(1) [of Ready 2]] ipc_demo_facts [of Ready 2, simplified] in
  \<open>simp_all add: family_demo_def\<close>)

theorem wait_exit_roundtrip_witness:
  "\<exists>k1 k3. sys_wait demo_cfg family_demo = Some k1 \<and> sys_exit demo_cfg (then_regs (Some k1) 5 0) = Some k3 \<and>
     tf_a0 (pr_context (procs k3 ! 1)) = 5"
proof -
  note F = family_demo_facts
  let ?k = "advance family_demo"
  have v: "is_valid_ipc_target 2 1" by (simp add: valid_target_unat)
  have eq: "sys_wait demo_cfg family_demo =
      schedule demo_cfg (set_proc (unat (current_pid ?k)) (wait_entry 2 (proc_at 1 Running)) ?k) (current_pid ?k)"
    using sys_wait_eq [OF F(1), of demo_cfg] F v by (simp add: Let_def proc_at_def)
  obtain k1 where k1: "sys_wait demo_cfg family_demo = Some k1" using sys_wait_ok [OF F(1)] by blast
  have st: "states ?k = states family_demo" by (simp add: states_def)
  have nr: "next_ready [Free, BlockedWait, Ready, Free, Free, Free, Free, Free] 1 = Some 2" by code_simp
  have ut: "user_trap ?k" using F(1) by simp
  have sw: "user_trap k1" "current_pid k1 = 2"
    using block_switch [OF ut _ _ _ _ k1 [unfolded eq], of 2] F st nr by simp_all
  have others: "dispatched (procs family_demo ! i) (procs k1 ! i)" if "i < 8" "i \<noteq> 1" for i
    using block_dispatched [OF ut _ _ _ _ _ _ k1 [unfolded eq] that(1)] that F user_trapD(2) [OF ut] running_context [OF ut]
    by simp
  have "\<not> is_waiting_on 2 (procs k1 ! i)" if "i < 8" "i \<noteq> 1" for i
    using others [OF that] F(7) that by (auto simp: dispatched_def is_waiting_on_def)
  then show ?thesis
    using wait_exit_roundtrip [OF F(1) _ _ _ k1 then_regs_trap [OF sw(1)], of 5 0] k1 sw F v
    by (auto simp: returns_from_def proc_at_def)
qed

text \<open>
  A process that registers for two interrupts and exits leaves the first one owned: only the
  interrupt registered last is released, and the interrupt registered first stays assigned to the
  freed process number, so that no other process can claim it.
\<close>

theorem irq_ownership_leak:
  assumes "user_trap k" "unat a < 64" "unat b < 64" "a \<noteq> b"
    and "irq_owners k ! unat a = 0" "irq_owners k ! unat b = 0"
    and "tf_a0 (frame k) = ucast (a :: u32)" "sys_irq_register k = Some k1"
    and "user_trap (k1\<lparr>frame := f1\<rparr>)" "tf_a0 f1 = ucast (b :: u32)" "sys_irq_register (k1\<lparr>frame := f1\<rparr>) = Some k2"
    and "user_trap (k2\<lparr>frame := f2\<rparr>)"
  shows "\<exists>k3. sys_exit cfg (k2\<lparr>frame := f2\<rparr>) = Some k3 \<and>
    pr_state (procs k3 ! unat (current_pid k)) = Free \<and>
    (unat b \<noteq> 0 \<longrightarrow> irq_owners k3 ! unat b = 0) \<and> irq_owners k3 ! unat a = current_pid k"
proof -
  let ?c = "current_pid k"
  note U = user_trapD [OF assms(1)] and K = kernel_invD [OF user_trapD(1) [OF assms(1)]]
  have uc: "ucast (ucast w :: usize) = w" for w :: u32
    by (rule bit_word_eqI) (simp add: bit_simps)
  have k1: "current_pid k1 = ?c" "irq_owners k1 = (irq_owners k)[unat a := ?c]" "length (procs k1) = 8"
    using sys_irq_register_eq [OF assms(1)] assms(2,5,7,8) uc U(7) by (auto simp: Let_def)
  have ab: "unat a \<noteq> unat b" using assms(4) by (simp add: word_unat_eq_iff)
  have k2: "current_pid k2 = ?c" "irq_owners k2 = (irq_owners k)[unat a := ?c, unat b := ?c]"
    "pr_irq_num (procs k2 ! unat ?c) = b"
    using sys_irq_register_eq [OF assms(9)] assms(3,6,10,11) uc k1 K(2) ab U(4) by (auto simp: Let_def)
  obtain k3 where k3: "sys_exit cfg (k2\<lparr>frame := f2\<rparr>) = Some k3"
    "irq_owners k3 = released_irqs (procs k2 ! unat ?c) (irq_owners k2)"
    "pr_state (procs k3 ! unat ?c) = Free"
    by (rule sys_exit_spec [OF assms(12), of cfg]) (simp add: k2(1))
  show ?thesis
    using k3 k2 assms(2,3) ab K(2) by (auto simp: released_irqs_def nth_list_update word_unat_eq_iff)
qed

lemma irq_register_trap:
  assumes ut: "user_trap k" and s: "sys_irq_register k = Some k'"
  shows "user_trap k'"
proof -
  have "kernel_inv k'" using sys_irq_register_ok [OF ut] s by (auto dest: syscall_okD(1))
  moreover have "user_mode (frame k')"
    using sys_irq_register_eq [OF ut] s user_trapD(2) [OF ut] by (auto simp: Let_def split: if_splits)
  ultimately show ?thesis by (simp add: user_trap_def)
qed

theorem irq_ownership_leak_witness:
  "\<exists>k1 k2 k3. sys_irq_register (ipc_demo Ready 5) = Some k1 \<and>
     sys_irq_register (k1\<lparr>frame := (user_frame 4)\<lparr>tf_a0 := 6\<rparr>\<rparr>) = Some k2 \<and>
     sys_exit demo_cfg (k2\<lparr>frame := user_frame 8\<rparr>) = Some k3 \<and>
     pr_state (procs k3 ! 1) = Free \<and> irq_owners k3 ! 5 = 1 \<and> irq_owners k3 ! 6 = 0"
proof -
  note F = ipc_demo_facts [of Ready 5, simplified]
  have um: "user_mode (user_frame pc)" "user_mode ((user_frame pc)\<lparr>tf_a0 := x\<rparr>)" for pc x
    by (simp_all add: user_mode_def user_frame_def TrapFrame_zero_def)
  obtain k1 where k1: "sys_irq_register (ipc_demo Ready 5) = Some k1" using sys_irq_register_ok [OF F(1)] by blast
  have t1: "user_trap (k1\<lparr>frame := (user_frame 4)\<lparr>tf_a0 := 6\<rparr>\<rparr>)"
    by (rule user_trap_frame [OF irq_register_trap [OF F(1) k1] um(2)])
  obtain k2 where k2: "sys_irq_register (k1\<lparr>frame := (user_frame 4)\<lparr>tf_a0 := 6\<rparr>\<rparr>) = Some k2"
    using sys_irq_register_ok [OF t1] by blast
  have t2: "user_trap (k2\<lparr>frame := user_frame 8\<rparr>)" by (rule user_trap_frame [OF irq_register_trap [OF t1 k2] um(1)])
  have "irq_owners (ipc_demo Ready 5) = replicate 64 0" by (simp add: ipc_demo_def demo_kernel_def)
  then show ?thesis
    using irq_ownership_leak [OF F(1) _ _ _ _ _ _ k1 t1 _ k2 t2, of 5 6 demo_cfg] F k1 k2 by auto
qed

text \<open>
  When the last process exits, the hart returns to the kernel with the kernel's page table, but
  \<open>CURRENT_PID\<close> keeps the number of the process that is gone.
\<close>

theorem last_exit_keeps_pid:
  assumes "user_trap k" "\<forall>i < 8. i \<noteq> unat (current_pid k) \<longrightarrow> pr_state (procs k ! i) = Free"
  shows "\<exists>k'. sys_exit cfg k = Some k' \<and> satp k' = kernel_satp k \<and> tf_sepc (frame k') = exit_pc cfg \<and>
    current_pid k' = current_pid k \<and> current_pid k' \<noteq> 0 \<and>
    (\<forall>i < 8. pr_state (procs k' ! i) = Free)"
proof -
  obtain k' where k': "sys_exit cfg k = Some k'"
    "procs k' ! unat (current_pid k) = dead_entry (tf_a0 (frame k)) (procs k ! unat (current_pid k))"
    "\<forall>i < 8. i \<noteq> unat (current_pid k) \<longrightarrow> dispatched
       (if find (\<lambda>i. is_waiting_on (current_pid k) (procs k ! i)) [1..<8] = Some i
        then woken (tf_a0 (frame k)) (procs k ! i) else procs k ! i) (procs k' ! i)"
    "current_pid k' = current_pid k \<and> satp k' = kernel_satp k \<and> tf_sepc (frame k') = exit_pc cfg"
    by (rule sys_exit_spec [OF assms(1), of cfg]) (use assms(2) in blast)
  have "pr_state (procs k' ! i) = Free" if i: "i < 8" for i
  proof (cases "i = unat (current_pid k)")
    case False
    have "find (\<lambda>i. is_waiting_on (current_pid k) (procs k ! i)) [1..<8] \<noteq> Some i"
      using assms(2) i False by (auto simp: is_waiting_on_def dest!: find_Some_in)
    then show ?thesis using k'(3) assms(2) i False by (auto simp: dispatched_def)
  qed (use k'(2) in simp)
  then show ?thesis using k'(1,4) user_trapD(8) [OF assms(1)] by simp
qed

theorem last_exit_keeps_pid_witness:
  "\<exists>k'. sys_exit demo_cfg (ipc_demo Free 0) = Some k' \<and> current_pid k' = 1 \<and> satp k' = 7"
proof -
  note F = ipc_demo_facts [of Free 0, simplified]
  have "pr_state (procs (ipc_demo Free 0) ! i) = [Free, Running, Free, Free, Free, Free, Free, Free] ! i" if "i < 8" for i
    using states_nth [of i "ipc_demo Free 0"] that F(6) user_trapD(7) [OF F(1)] by simp
  then have "\<forall>i < 8. i \<noteq> unat (current_pid (ipc_demo Free 0)) \<longrightarrow> pr_state (procs (ipc_demo Free 0) ! i) = Free"
    using F(2) by (simp add: All_less_Suc numeral_eq_Suc)
  from last_exit_keeps_pid [OF F(1) this, of demo_cfg] show ?thesis
    using F(2) by (auto simp: ipc_demo_def demo_kernel_def)
qed

end
