(* ===== verification/Boot.thy ===== *)
theory Boot
  imports Lifecycle
begin

unbundle bit_operations_syntax

text \<open>
  The boot-time half of \<open>lifecycle.rs\<close> in detail: with enough free pages \<open>create_process\<close> does not
  panic and builds the address space it is meant to build, and \<open>launch\<close> brings the kernel into a
  state with the kernel invariant, process 1 running and process 2 ready.
\<close>

section \<open>Data pages\<close>

text \<open>Writes outside the page tables keep every table and translation.\<close>

lemma vm_wf_write:
  assumes wf: "vm_wf s R" and same: "\<And>b. page_of b \<in> tables (tree s) R \<Longrightarrow> m b = ram s b"
  shows "vm_wf (s\<lparr>ram := m\<rparr>) R" "r \<in> R \<Longrightarrow> walk r va (load64 m) = walk r va (tree s)"
    "tables (load64 m) R = tables (tree s) R" "missing (s\<lparr>ram := m\<rparr>) r V = missing s r V \<or> r \<notin> R"
proof -
  have pw: "pt_wf (tree s) R (live s)" using wf by (simp add: vm_wf_def)
  have e: "entry (load64 m) t i = entry (tree s) t i" if t: "t \<in> tables (tree s) R" and i: "i < PT_ENTRIES" for t i
  proof (rule load64_cong)
    note E = entry_addr [OF conjunct2 [OF pt_wf_tables [OF pw t]] i]
    show "m (t + i * 8 + of_nat k) = ram s (t + i * 8 + of_nat k)" if "k < 8" for k
      by (rule same) (simp add: word_in_page [OF E(1) that] E(2) t)
  qed
  then have ev: "\<forall>t i. t \<in> tables (tree s) R \<longrightarrow> i < PT_ENTRIES \<longrightarrow> entry (load64 m) t i = entry (tree s) t i" by blast
  show "vm_wf (s\<lparr>ram := m\<rparr>) R" using tree_frame(3) [OF ev pw] wf by (simp add: vm_wf_def)
  show "r \<in> R \<Longrightarrow> walk r va (load64 m) = walk r va (tree s)" by (rule tree_frame(2) [OF ev])
  show "tables (load64 m) R = tables (tree s) R" by (rule tree_frame(1) [OF ev])
  show "missing (s\<lparr>ram := m\<rparr>) r V = missing s r V \<or> r \<notin> R"
  proof (cases "r \<in> R")
    case True
    have "table_at (load64 m) r q = table_at (tree s) r q" if "q \<in> table_paths V" for q
      by (rule tree_frame_paths [OF ev True table_paths_len [OF that]])
    then show ?thesis by (auto simp: missing_def intro!: arg_cong [where f = card])
  qed simp
qed

lemma page_of_off: "c mod PAGE_SIZE = 0 \<Longrightarrow> i < 4096 \<Longrightarrow> page_of (c + of_nat i) = c"
proof -
  assume c: "c mod PAGE_SIZE = 0" and i: "i < 4096"
  have "unat (of_nat i :: usize) = i" using i by (intro unat_of_nat_small) simp
  then show ?thesis using i by (intro page_of_add [OF c] take12_small) (simp add: word_less_nat_alt)
qed

text \<open>A fresh page for data.\<close>

lemma fresh_page:
  assumes wf: "vm_wf s R" and free: "0 < free_pages s"
  obtains p s' where "alloc_zeroed_page s = Some (p, s')" "vm_wf s' R" "p \<notin> live s" "p \<in> pool (page_bitmap s)"
    "p mod PAGE_SIZE = 0" "live s' = insert p (live s)" "pool (page_bitmap s') = pool (page_bitmap s)"
    "Suc (free_pages s') = free_pages s" "\<forall>b. page_of b \<in> live s \<longrightarrow> ram s' b = ram s b"
    "\<forall>r va. r \<in> R \<longrightarrow> walk r va (tree s') = walk r va (tree s)" "vm_only s s'"
    "tables (tree s') R = tables (tree s) R" "p \<notin> tables (tree s) R"
    "\<forall>b. page_of b \<notin> pool (page_bitmap s) \<longrightarrow> ram s' b = ram s b"
  using wf
proof (cases rule: fresh_root_cases)
  case full
  then show ?thesis using free by simp
next
  case (root p s')
  have "vm_wf s' R" using root(2) pt_wf_roots [of "tree s'" "insert p R" "live s'" R] by (auto simp: vm_wf_def)
  moreover have "p mod PAGE_SIZE = 0" using wf root(11) pool_aligned by (auto simp: vm_wf_def)
  moreover have "tables (tree s') R = tables (tree s) R"
    using root(8) tables_live [OF wf] vm_wf_write(3) [OF wf, of "ram s'"] by blast
  moreover have "\<forall>b. page_of b \<notin> pool (page_bitmap s) \<longrightarrow> ram s' b = ram s b"
    using root(11) by (auto intro: alloc_zeroed_page_outside [OF root(1) calculation(2)])
  moreover have "p \<notin> tables (tree s) R" using root(10) tables_live [OF wf] by blast
  ultimately show ?thesis
    using root by (intro that [of p s']) (auto simp: vm_only_def)
qed

lemma copy_loop_ram:
  assumes "dst mod PAGE_SIZE = 0" "n \<le> 4096"
  shows "page_of b \<noteq> dst \<Longrightarrow> ram (copy_loop ram src dst n s) b = ram s b"
    "(\<And>j. j < n \<Longrightarrow> page_of (src + of_nat j) \<noteq> dst) \<Longrightarrow> i < n \<Longrightarrow>
      ram (copy_loop ram src dst n s) (dst + of_nat i) = ram s (src + of_nat i)"
proof -
  have off: "unat (of_nat i :: usize) = i" if "i < 4096" for i using that by (intro unat_of_nat_small) simp
  note inp = page_of_off [OF assms(1)]
  have step: "copy_loop ram src dst (Suc m) s = (copy_loop ram src dst m s)
      \<lparr>ram := (ram (copy_loop ram src dst m s))(dst + of_nat m := ram (copy_loop ram src dst m s) (src + of_nat m))\<rparr>" for m
    by (simp add: copy_loop_def)
  have zero: "copy_loop ram src dst 0 s = s" by (simp add: copy_loop_def)
  have out: "ram (copy_loop ram src dst m s) b = ram s b" if "page_of b \<noteq> dst" "m \<le> n" for m b
    using that
  proof (induction m)
    case (Suc m)
    have "b \<noteq> dst + of_nat m" using inp [of m] Suc.prems assms(2) by auto
    then show ?case using Suc by (simp add: step)
  qed (simp add: zero)
  show "page_of b \<noteq> dst \<Longrightarrow> ram (copy_loop ram src dst n s) b = ram s b" by (rule out) simp_all
  assume src: "\<And>j. j < n \<Longrightarrow> page_of (src + of_nat j) \<noteq> dst" and i: "i < n"
  have "ram (copy_loop ram src dst m s) (dst + of_nat i) = ram s (src + of_nat i)" if "i < m" "m \<le> n" for m
    using that
  proof (induction m)
    case (Suc m)
    show ?case
    proof (cases "i = m")
      case True
      then show ?thesis using out [OF src [OF i], of m] Suc.prems by (simp add: step)
    next
      case False
      have "(of_nat i :: usize) \<noteq> of_nat m"
      proof
        assume "(of_nat i :: usize) = of_nat m"
        then have "unat (of_nat i :: usize) = unat (of_nat m :: usize)" by simp
        moreover have "i < 4096" "m < 4096" using Suc.prems assms(2) by simp_all
        ultimately show False using False by (simp only: off)
      qed
      then show ?thesis using Suc False by (simp add: step)
    qed
  qed simp
  then show "ram (copy_loop ram src dst n s) (dst + of_nat i) = ram s (src + of_nat i)" using i by simp
qed

section \<open>Creating a process\<close>

text \<open>The page pool lies in the heap region of the layout, below the boot stack.\<close>

definition heap_pool :: "layout \<Rightarrow> bitmap_allocator \<Rightarrow> bool" where
  "heap_pool L a \<longleftrightarrow> (\<forall>p \<in> pool a. unat (heap_start L) \<le> unat p \<and> unat p + 4096 \<le> unat (stack_top L))"

abbreviation kernel_tables :: "layout \<Rightarrow> nat" where
  "kernel_tables L \<equiv> card (table_paths (region_set (kernel_regions L)))"

lemma in_range_page:
  assumes al: "p mod PAGE_SIZE = 0" and b: "unat p + 4096 \<le> 2 ^ 39"
  shows "in_range p (p + PAGE_SIZE) v \<longleftrightarrow> page_of v = p" "p + PAGE_SIZE \<le> 2 ^ 39"
proof -
  have u: "unat (p + PAGE_SIZE) = unat p + 4096" using b by (subst unat_add_small) (simp_all add: PAGE_SIZE_def)
  have u': "unat (p + PAGE_SIZE + 4095) = unat p + 4096 + 4095" using b u by (subst unat_add_small) simp_all
  have m: "unat p mod 4096 = 0" using al by (simp only: aligned_unat)
  then obtain q where "unat p = 4096 * q" by (auto dest: mod_0_imp_dvd)
  then have "(unat p + 4096 + 4095) div 4096 * 4096 = unat p + 4096" by simp
  then have up: "unat (page_up (p + PAGE_SIZE)) = unat p + 4096" by (simp add: page_up_def unat_page_of u')
  show "in_range p (p + PAGE_SIZE) v \<longleftrightarrow> page_of v = p"
    unfolding in_range_def page_of_self [OF al] page_of_between [OF al]
    by (simp add: word_le_nat_alt word_less_nat_alt up)
  show "p + PAGE_SIZE \<le> 2 ^ 39" using b by (simp add: word_le_nat_alt u)
qed

lemma heap_region:
  assumes "layout_ok L" "heap_pool L a" "p \<in> pool a" "p mod PAGE_SIZE = 0"
  shows "unat p + 4096 \<le> 2 ^ 39" "page_of v = p \<Longrightarrow> v \<in> region_set (kernel_regions L)"
proof -
  have st: "(heap_start L, stack_top L, KERNEL_RW) \<in> set (kernel_regions L)" by (simp add: kernel_regions_def)
  then have "stack_top L \<le> 2 ^ 39" using assms(1) by (fastforce simp: layout_ok_def)
  then have sl: "unat (stack_top L) \<le> 2 ^ 39" by (simp add: word_le_nat_alt)
  have p: "unat (heap_start L) \<le> unat p" "unat p + 4096 \<le> unat (stack_top L)"
    using assms(2,3) by (auto simp: heap_pool_def)
  show "unat p + 4096 \<le> 2 ^ 39" using p sl by linarith
  assume v: "page_of v = p"
  have v': "unat p \<le> unat v" "unat v < unat p + 4096" using v page_of_between [OF assms(4)] by auto
  have "unat (page_of (heap_start L)) \<le> unat (heap_start L)" by (simp add: unat_page_of)
  then have "page_of (heap_start L) \<le> v" using p(1) v'(1) by (simp add: word_le_nat_alt)
  moreover have "unat (stack_top L) \<le> unat (page_up (stack_top L))"
  proof -
    have "unat (stack_top L + 4095) = unat (stack_top L) + 4095" using sl by (subst unat_add_small) simp_all
    then show ?thesis by (simp add: page_up_def unat_page_of)
  qed
  then have "v < page_up (stack_top L)" using v'(2) p(2) by (simp add: word_less_nat_alt)
  ultimately show "v \<in> region_set (kernel_regions L)"
    using st unfolding region_set_def in_range_def by blast
qed

text \<open>What an address space built by \<open>create_process\<close> maps.\<close>

definition boot_space :: "layout \<Rightarrow> usize \<Rightarrow> usize \<Rightarrow> usize \<Rightarrow> walk_result option" where
  "boot_space L code stk va =
     (if page_of va = stk then Some \<lparr>wr_phys = va, wr_flags = USER_RW\<rparr>
      else if page_of va = code then Some \<lparr>wr_phys = va, wr_flags = USER_RX\<rparr>
      else map_option (\<lambda>f. \<lparr>wr_phys = va, wr_flags = f\<rparr>) (region_of (kernel_regions L) va))"

lemma user_space_spec:
  assumes wf: "vm_wf s R" and L: "layout_ok L" "kernel_tables L + 1 \<le> free_pages s"
    and c: "c mod PAGE_SIZE = 0" "unat c + 4096 \<le> 2 ^ 39" "\<And>v. page_of v = c \<Longrightarrow> v \<in> region_set (kernel_regions L)"
    and t: "t mod PAGE_SIZE = 0" "unat t + 4096 \<le> 2 ^ 39" "\<And>v. page_of v = t \<Longrightarrow> v \<in> region_set (kernel_regions L)"
  obtains r s1 s2 s3 s' where "alloc_zeroed_page s = Some (r, s1)" "map_kernel_regions L s1 r = Some s2"
    "map_range s2 r c (c + PAGE_SIZE) USER_RX = Some s3" "map_range s3 r t (t + PAGE_SIZE) USER_RW = Some s'"
    "vm_wf s' (insert r R)" "r \<notin> R" "r \<in> pool (page_bitmap s)" "pool (page_bitmap s') = pool (page_bitmap s)"
    "free_pages s \<le> free_pages s' + kernel_tables L + 1" "vm_only s s'" "live s \<subseteq> live s'"
    "\<forall>va < 2 ^ 39. walk r va (tree s') = boot_space L c t va"
    "\<forall>r' va. r' \<in> R \<longrightarrow> va < 2 ^ 39 \<longrightarrow> walk r' va (tree s') = walk r' va (tree s)"
    "\<forall>b. page_of b \<in> live s \<longrightarrow> page_of b \<notin> tables (tree s) R \<longrightarrow> ram s' b = ram s b"
    "\<forall>p. p \<in> live s \<longrightarrow> p \<notin> tables (tree s) R \<longrightarrow> p \<notin> tables (tree s') (insert r R)"
    "\<forall>b. page_of b \<notin> pool (page_bitmap s) \<longrightarrow> ram s' b = ram s b"
  using wf
proof (cases rule: fresh_root_cases)
  case full
  then show ?thesis using L(2) by simp
next
  case (root r s1)
  let ?V = "region_set (kernel_regions L)" and ?R = "insert r R"
  have fl: "\<forall>(a, e, f) \<in> set (kernel_regions L). leaf_flags f \<and> e \<le> 2 ^ 39"
    using kernel_regions_flags L(1) unfolding layout_ok_def by fast
  have sub: "in_range c (c + PAGE_SIZE) v \<Longrightarrow> v \<in> ?V" "in_range t (t + PAGE_SIZE) v \<Longrightarrow> v \<in> ?V" for v
    using in_range_page(1) [OF c(1,2), of v] in_range_page(1) [OF t(1,2), of v] c(3) t(3) by blast+
  have m1: "missing s1 r ?V \<le> free_pages s1" using missing_le [of s1 r ?V] root(5) L(2) by linarith
  obtain s2 where s2: "map_regions s1 r (kernel_regions L) = Some s2" "vm_grows ?R s1 s2"
    "free_pages s1 + missing s2 r ?V = free_pages s2 + missing s1 r ?V"
    "\<And>r' va. r' \<in> ?R \<Longrightarrow> va < 2 ^ 39 \<Longrightarrow> walk r' va (tree s2) =
      (case (if r' = r then region_of (kernel_regions L) va else None) of
         Some f \<Rightarrow> Some \<lparr>wr_phys = va, wr_flags = f\<rparr> | None \<Rightarrow> walk r' va (tree s1))"
    using map_regions_spec [OF root(2) insertI1 fl order_refl m1] by blast
  have m2: "missing s2 r ?V \<le> free_pages s2" using s2(3) m1 by linarith
  obtain s3 where s3: "map_range s2 r c (c + PAGE_SIZE) USER_RX = Some s3" "vm_grows ?R s2 s3"
    "free_pages s2 + missing s3 r ?V = free_pages s3 + missing s2 r ?V"
    "\<And>r' va. r' \<in> ?R \<Longrightarrow> va < 2 ^ 39 \<Longrightarrow> walk r' va (tree s3) =
      (if r' = r \<and> in_range c (c + PAGE_SIZE) va then Some \<lparr>wr_phys = va, wr_flags = USER_RX\<rparr> else walk r' va (tree s2))"
    by (rule map_range_spec [OF vm_growsD(1) [OF s2(2)] insertI1 perms_leaf(5) in_range_page(2) [OF c(1,2)] sub(1) m2])
      (assumption, rule that)
  have m3: "missing s3 r ?V \<le> free_pages s3" using s3(3) m2 by linarith
  obtain s' where s': "map_range s3 r t (t + PAGE_SIZE) USER_RW = Some s'" "vm_grows ?R s3 s'"
    "free_pages s3 + missing s' r ?V = free_pages s' + missing s3 r ?V"
    "\<And>r' va. r' \<in> ?R \<Longrightarrow> va < 2 ^ 39 \<Longrightarrow> walk r' va (tree s') =
      (if r' = r \<and> in_range t (t + PAGE_SIZE) va then Some \<lparr>wr_phys = va, wr_flags = USER_RW\<rparr> else walk r' va (tree s3))"
    by (rule map_range_spec [OF vm_growsD(1) [OF s3(2)] insertI1 perms_leaf(6) in_range_page(2) [OF t(1,2)] sub(2) m3])
      (assumption, rule that)
  have g: "vm_grows ?R s1 s'" by (rule vm_grows_trans [OF vm_grows_trans [OF s2(2) s3(2)] s'(2)])
  have nt: "p \<notin> tables (tree s') ?R" if "p \<in> live s" "p \<notin> tables (tree s) R" for p
    using vm_growsD(5) [OF g, of p] that root(4,10,13) by auto
  show ?thesis
  proof (rule that [OF root(1) _ s3(1) s'(1) vm_growsD(1) [OF g] root(3,11)])
    show "map_kernel_regions L s1 r = Some s2" by (simp add: map_kernel_regions_eq [OF L(1)] s2(1))
    show "pool (page_bitmap s') = pool (page_bitmap s)" using vm_growsD(2) [OF g] root(12) by simp
    show "free_pages s \<le> free_pages s' + kernel_tables L + 1"
      using s2(3) s3(3) s'(3) root(5) missing_le [of s1 r ?V] by linarith
    show "vm_only s s'"
      using root(9) vm_growsD(7) [OF g] vm_only_trans [of s s1 s'] by (simp add: vm_only_def)
    show "live s \<subseteq> live s'" using vm_growsD(3) [OF g] root(4) by auto
    show "\<forall>va < 2 ^ 39. walk r va (tree s') = boot_space L c t va"
      using s'(4) [OF insertI1] s3(4) [OF insertI1] s2(4) [OF insertI1] root(6)
        in_range_page(1) [OF t(1,2)] in_range_page(1) [OF c(1,2)]
      by (simp add: boot_space_def split: option.split)
    show "\<forall>r' va. r' \<in> R \<longrightarrow> va < 2 ^ 39 \<longrightarrow> walk r' va (tree s') = walk r' va (tree s)"
      using s'(4) [OF insertI2] s3(4) [OF insertI2] s2(4) [OF insertI2] root(3,7) by auto
    show "\<forall>b. page_of b \<in> live s \<longrightarrow> page_of b \<notin> tables (tree s) R \<longrightarrow> ram s' b = ram s b"
      using nt vm_growsD(6) [OF g] root(8) by simp
    show "\<forall>p. p \<in> live s \<longrightarrow> p \<notin> tables (tree s) R \<longrightarrow> p \<notin> tables (tree s') (insert r R)" using nt by blast
    have "r mod PAGE_SIZE = 0" using wf root(11) pool_aligned by (auto simp: vm_wf_def)
    moreover have "live s' \<subseteq> pool (page_bitmap s)"
      using live_subset_pool [of "page_bitmap s'"] vm_growsD(1,2) [OF g] root(12) by (auto simp: vm_wf_def)
    moreover have "tables (tree s') ?R \<subseteq> live s'" using tables_live vm_growsD(1) [OF g] by blast
    ultimately show "\<forall>b. page_of b \<notin> pool (page_bitmap s) \<longrightarrow> ram s' b = ram s b"
      using vm_growsD(6) [OF g] alloc_zeroed_page_outside [OF root(1)] root(11) by (metis subsetD)
  qed
qed

text \<open>
  The boot image of a process: its bytes, which lie outside the page pool and fit into a page.
\<close>

definition image_ok :: "bitmap_allocator \<Rightarrow> usize \<Rightarrow> usize \<Rightarrow> bool" where
  "image_ok a src n \<longleftrightarrow> unat n \<le> 4096 \<and> (\<forall>j < unat n. page_of (src + of_nat j) \<notin> pool a)"

lemma create_process_spec:
  assumes wf: "vm_wf k R" and L: "layout_ok (lay cfg)" "heap_pool (lay cfg) (page_bitmap k)"
    and img: "image_ok (page_bitmap k) src n" and pid: "0 < unat pid" "unat pid < 8" "length (procs k) = 8"
    and free: "kernel_tables (lay cfg) + 3 \<le> free_pages k"
  obtains r code stk k1 where
    "create_process cfg pid src n k = Some (set_proc (unat pid)
       (new_process pid (make_satp r (ucast pid)) code (stk + PAGE_SIZE) 0) k1)"
    "vm_only k k1" "vm_wf k1 (insert r R)" "r \<notin> R" "r \<in> pool (page_bitmap k)"
    "pool (page_bitmap k1) = pool (page_bitmap k)" "free_pages k \<le> free_pages k1 + kernel_tables (lay cfg) + 3"
    "code mod PAGE_SIZE = 0" "stk mod PAGE_SIZE = 0" "code \<noteq> stk"
    "\<forall>va < 2 ^ 39. walk r va (tree k1) = boot_space (lay cfg) code stk va"
    "\<forall>r' va. r' \<in> R \<longrightarrow> va < 2 ^ 39 \<longrightarrow> walk r' va (tree k1) = walk r' va (tree k)"
    "\<forall>i < unat n. ram k1 (code + of_nat i) = ram k (src + of_nat i)"
    "\<forall>b. page_of b \<in> live k \<longrightarrow> page_of b \<notin> tables (tree k) R \<longrightarrow> ram k1 b = ram k b"
    "live k \<subseteq> live k1" "code \<in> live k1" "stk \<in> live k1" "code \<notin> live k" "stk \<notin> live k"
    "code \<notin> tables (tree k1) (insert r R)"
    "\<forall>p. p \<in> live k \<longrightarrow> p \<notin> tables (tree k) R \<longrightarrow> p \<notin> tables (tree k1) (insert r R)"
    "\<forall>b. page_of b \<notin> pool (page_bitmap k) \<longrightarrow> ram k1 b = ram k b"
proof -
  let ?L = "lay cfg" and ?n = "unat n"
  have f1: "0 < free_pages k" using free by simp
  obtain c s1 where s1: "alloc_zeroed_page k = Some (c, s1)" "vm_wf s1 R" "c \<notin> live k" "c \<in> pool (page_bitmap k)"
    "c mod PAGE_SIZE = 0" "live s1 = insert c (live k)" "pool (page_bitmap s1) = pool (page_bitmap k)"
    "Suc (free_pages s1) = free_pages k" "\<forall>b. page_of b \<in> live k \<longrightarrow> ram s1 b = ram k b"
    "\<forall>r va. r \<in> R \<longrightarrow> walk r va (tree s1) = walk r va (tree k)" "vm_only k s1"
    "tables (tree s1) R = tables (tree k) R" "c \<notin> tables (tree k) R"
    "\<forall>b. page_of b \<notin> pool (page_bitmap k) \<longrightarrow> ram s1 b = ram k b"
    by (rule fresh_page [OF wf f1])
  define s2 where "s2 = copy_loop ram src c ?n s1"
  have n: "?n \<le> 4096" using img by (simp add: image_ok_def)
  have o2: "vm_only s1 s2" unfolding s2_def by (rule copy_loop_only)
  obtain m where m: "s2 = s1\<lparr>ram := m\<rparr>"
  proof -
    have "\<exists>m. copy_loop ram src c j s1 = s1\<lparr>ram := m\<rparr>" for j
      by (induction j) (auto simp: copy_loop_def intro: exI [of _ "ram s1"])
    then show thesis using that unfolding s2_def by blast
  qed
  have same2: "ram s2 b = ram s1 b" if "page_of b \<noteq> c" for b
    unfolding s2_def by (rule copy_loop_ram(1) [OF s1(5) n that])
  have tabm: "m b = ram s1 b" if "page_of b \<in> tables (tree s1) R" for b
    using same2 [of b] that s1(12,13) by (auto simp: m)
  have w2: "vm_wf s2 R" "r \<in> R \<Longrightarrow> walk r va (tree s2) = walk r va (tree s1)" "tables (tree s2) R = tables (tree s1) R" for r va
    using vm_wf_write(1-3) [OF s1(2) tabm] by (simp_all add: m)
  have b2: "page_bitmap s2 = page_bitmap s1" by (simp add: m)
  have f2: "free_pages s2 = free_pages s1" by (simp add: free_pages_def b2)
  have "0 < free_pages s2" using free s1(8) f2 by simp
  then obtain t s3 where s3: "alloc_zeroed_page s2 = Some (t, s3)" "vm_wf s3 R" "t \<notin> live s2" "t \<in> pool (page_bitmap s2)"
    "t mod PAGE_SIZE = 0" "live s3 = insert t (live s2)" "pool (page_bitmap s3) = pool (page_bitmap s2)"
    "Suc (free_pages s3) = free_pages s2" "\<forall>b. page_of b \<in> live s2 \<longrightarrow> ram s3 b = ram s2 b"
    "\<forall>r va. r \<in> R \<longrightarrow> walk r va (tree s3) = walk r va (tree s2)" "vm_only s2 s3"
    "tables (tree s3) R = tables (tree s2) R" "t \<notin> tables (tree s2) R"
    "\<forall>b. page_of b \<notin> pool (page_bitmap s2) \<longrightarrow> ram s3 b = ram s2 b"
    by (rule fresh_page [OF w2(1)])
  have live: "live s2 = insert c (live k)" "live s3 = insert t (insert c (live k))" using s1(6) s3(6) b2 by simp_all
  have tk: "t \<notin> live k" "t \<noteq> c" "t \<in> pool (page_bitmap k)" using s3(3,4) live s1(7) b2 by auto
  note hc = heap_region [OF L s1(4,5)] and ht = heap_region [OF L tk(3) s3(5)]
  have f3: "kernel_tables ?L + 1 \<le> free_pages s3" using free s1(8) f2 s3(8) by linarith
  obtain r s4 s5 s6 k1 where S: "alloc_zeroed_page s3 = Some (r, s4)" "map_kernel_regions ?L s4 r = Some s5"
    "map_range s5 r c (c + PAGE_SIZE) USER_RX = Some s6" "map_range s6 r t (t + PAGE_SIZE) USER_RW = Some k1"
    "vm_wf k1 (insert r R)" "r \<notin> R" "r \<in> pool (page_bitmap s3)" "pool (page_bitmap k1) = pool (page_bitmap s3)"
    "free_pages s3 \<le> free_pages k1 + kernel_tables ?L + 1" "vm_only s3 k1" "live s3 \<subseteq> live k1"
    "\<forall>va < 2 ^ 39. walk r va (tree k1) = boot_space ?L c t va"
    "\<forall>r' va. r' \<in> R \<longrightarrow> va < 2 ^ 39 \<longrightarrow> walk r' va (tree k1) = walk r' va (tree s3)"
    "\<forall>b. page_of b \<in> live s3 \<longrightarrow> page_of b \<notin> tables (tree s3) R \<longrightarrow> ram k1 b = ram s3 b"
    "\<forall>p. p \<in> live s3 \<longrightarrow> p \<notin> tables (tree s3) R \<longrightarrow> p \<notin> tables (tree k1) (insert r R)"
    "\<forall>b. page_of b \<notin> pool (page_bitmap s3) \<longrightarrow> ram k1 b = ram s3 b"
    by (rule user_space_spec [OF s3(2) L(1) f3 s1(5) hc s3(5) ht])
  have only: "vm_only k k1" using s1(11) o2 s3(11) S(10) vm_only_trans by metis
  have tabs: "tables (tree s3) R = tables (tree k) R" using s1(12) w2(3) s3(12) by simp
  have bytes: "ram k1 b = ram s2 b" if "page_of b \<in> live s2" "page_of b \<notin> tables (tree k) R" for b
    using that S(14) s3(9) live tabs by auto
  show ?thesis
  proof (rule that [OF _ only S(5,6)])
    have "length (procs k1) = 8" using vm_only_kernel(1) [OF only] pid(3) by simp
    then show "create_process cfg pid src n k = Some (set_proc (unat pid)
       (new_process pid (make_satp r (ucast pid)) c (t + PAGE_SIZE) 0) k1)"
      using s1(1) s3(1) [unfolded s2_def] S(1-4) pid
      by (simp add: create_process_def Let_def MAX_PROCS_unat word_less_nat_alt [of 0] set_proc_def)
    show "\<forall>i < ?n. ram k1 (c + of_nat i) = ram k (src + of_nat i)"
    proof (intro allI impI)
      fix i assume i: "i < ?n"
      have src: "page_of (src + of_nat j) \<noteq> c" if "j < ?n" for j
        using img that s1(4) by (auto simp: image_ok_def)
      have cp: "ram s2 (c + of_nat i) = ram s1 (src + of_nat i)"
        unfolding s2_def by (rule copy_loop_ram(2) [OF s1(5) n src i])
      have pc: "page_of (c + of_nat i) = c" using i n by (intro page_of_off [OF s1(5)]) simp
      have ks: "ram s1 (src + of_nat i) = ram k (src + of_nat i)"
        by (rule alloc_zeroed_page_outside [OF s1(1,5) src [OF i]])
      show "ram k1 (c + of_nat i) = ram k (src + of_nat i)"
        using bytes [of "c + of_nat i"] cp ks pc live(1) s1(13) by simp
    qed
    show "\<forall>b. page_of b \<in> live k \<longrightarrow> page_of b \<notin> tables (tree k) R \<longrightarrow> ram k1 b = ram k b"
      using bytes same2 s1(3,9) live(1) by (metis insertCI)
    show "c \<notin> tables (tree k1) (insert r R)"
      "\<forall>p. p \<in> live k \<longrightarrow> p \<notin> tables (tree k) R \<longrightarrow> p \<notin> tables (tree k1) (insert r R)"
      using S(15) live tabs s1(13) by auto
    show "\<forall>b. page_of b \<notin> pool (page_bitmap k) \<longrightarrow> ram k1 b = ram k b"
      using S(16) s3(7,14) same2 s1(4,7,14) b2 by metis
    show "free_pages k \<le> free_pages k1 + kernel_tables ?L + 3" using S(9) s1(8) f2 s3(8) by linarith
    show "\<forall>r' va. r' \<in> R \<longrightarrow> va < 2 ^ 39 \<longrightarrow> walk r' va (tree k1) = walk r' va (tree k)"
      using S(13) s3(10) w2(2) s1(10) by simp
  qed (use S s1 s3 live tk b2 in auto)
qed

section \<open>Launch\<close>

text \<open>
  The kernel as \<open>boot\<close> leaves it: no process yet, the tables of \<open>R\<close> well formed, the images of the two
  boot programs in the kernel image, and enough pages for two address spaces.
\<close>

definition boot_ready :: "kcfg \<Rightarrow> boot_images \<Rightarrow> usize set \<Rightarrow> kernel \<Rightarrow> bool" where
  "boot_ready cfg img R k \<longleftrightarrow>
     procs k = replicate 8 Process_empty \<and> irq_owners k = replicate 64 0 \<and> vm_wf k R \<and>
     layout_ok (lay cfg) \<and> heap_pool (lay cfg) (page_bitmap k) \<and>
     image_ok (page_bitmap k) (init_start img) (init_size img) \<and>
     image_ok (page_bitmap k) (uart_start img) (uart_size img) \<and>
     2 * (kernel_tables (lay cfg) + 3) + 2 \<le> free_pages k"

lemma vm_sel_set_proc [simp]: "vm_wf (set_proc i p k) R = vm_wf k R" "free_pages (set_proc i p k) = free_pages k"
  "missing (set_proc i p k) r V = missing k r V"
  by (simp_all add: vm_wf_def free_pages_def missing_def)

text \<open>The state \<open>launch\<close> leaves, from the address spaces of the two processes.\<close>

lemma launch_spec:
  assumes b: "boot_ready cfg img R k"
  obtains r1 c1 t1 r2 c2 t2 k' where "launch cfg img k = Some k'"
    "procs k' = (replicate 8 Process_empty)
       [1 := (new_process 1 (make_satp r1 1) c1 (t1 + PAGE_SIZE) 0)\<lparr>pr_state := Running\<rparr>,
        2 := new_process 2 (make_satp r2 2) c2 (t2 + PAGE_SIZE) 0]"
    "current_pid k' = 1" "satp k' = make_satp r1 1" "satp_to_root (satp k') = r1" "irq_owners k' = replicate 64 0"
    "tf_sepc (frame k') = c1" "tf_sp (frame k') = t1 + PAGE_SIZE"
    "tf_sstatus (frame k') = (tf_sstatus (frame k) AND NOT (push_bit 8 1)) OR push_bit 5 1"
    "vm_wf k' {r1, r2}" "r1 \<noteq> r2"
    "\<forall>va < 2 ^ 39. walk r1 va (tree k') = boot_space (lay cfg) c1 t1 va"
    "\<forall>va < 2 ^ 39. walk r2 va (tree k') =
       (if same_vpn UART_USER_VA va then Some \<lparr>wr_phys = UART_BASE + take_bit 12 va, wr_flags = USER_MMIO\<rparr>
        else boot_space (lay cfg) c2 t2 va)"
    "\<forall>i < unat (init_size img). ram k' (c1 + of_nat i) = ram k (init_start img + of_nat i)"
    "\<forall>i < unat (uart_size img). ram k' (c2 + of_nat i) = ram k (uart_start img + of_nat i)"
    "c1 mod PAGE_SIZE = 0" "t1 mod PAGE_SIZE = 0" "c1 \<noteq> t1" "c1 < 2 ^ 39" "t1 < 2 ^ 39"
    "satp_to_root (make_satp r2 2) = r2" "c1 \<in> pool (page_bitmap k)" "dev k' = dev k"
proof -
  note B = b [unfolded boot_ready_def]
  let ?L = "lay cfg"
  have len: "length (procs k) = 8" and wf: "vm_wf k R" and lay: "layout_ok ?L" and hp: "heap_pool ?L (page_bitmap k)"
    and i1: "image_ok (page_bitmap k) (init_start img) (init_size img)"
    and i2: "image_ok (page_bitmap k) (uart_start img) (uart_size img)"
    and f: "2 * (kernel_tables ?L + 3) + 2 \<le> free_pages k" using B by simp_all
  have fr: "kernel_tables ?L + 3 \<le> free_pages k" using f by simp
  have p1: "0 < unat (1 :: usize)" "unat (1 :: usize) < 8" and p2: "0 < unat (2 :: usize)" "unat (2 :: usize) < 8" by simp_all
  obtain r1 c1 t1 a where A: "create_process cfg 1 (init_start img) (init_size img) k = Some (set_proc (unat (1 :: usize))
       (new_process 1 (make_satp r1 (ucast (1 :: usize))) c1 (t1 + PAGE_SIZE) 0) a)"
    "vm_only k a" "vm_wf a (insert r1 R)" "r1 \<notin> R" "r1 \<in> pool (page_bitmap k)"
    "pool (page_bitmap a) = pool (page_bitmap k)" "free_pages k \<le> free_pages a + kernel_tables ?L + 3"
    "c1 mod PAGE_SIZE = 0" "t1 mod PAGE_SIZE = 0" "c1 \<noteq> t1"
    "\<forall>va < 2 ^ 39. walk r1 va (tree a) = boot_space ?L c1 t1 va"
    "\<forall>r' va. r' \<in> R \<longrightarrow> va < 2 ^ 39 \<longrightarrow> walk r' va (tree a) = walk r' va (tree k)"
    "\<forall>i < unat (init_size img). ram a (c1 + of_nat i) = ram k (init_start img + of_nat i)"
    "\<forall>b. page_of b \<in> live k \<longrightarrow> page_of b \<notin> tables (tree k) R \<longrightarrow> ram a b = ram k b"
    "live k \<subseteq> live a" "c1 \<in> live a" "t1 \<in> live a" "c1 \<notin> live k" "t1 \<notin> live k"
    "c1 \<notin> tables (tree a) (insert r1 R)"
    "\<forall>p. p \<in> live k \<longrightarrow> p \<notin> tables (tree k) R \<longrightarrow> p \<notin> tables (tree a) (insert r1 R)"
    "\<forall>b. page_of b \<notin> pool (page_bitmap k) \<longrightarrow> ram a b = ram k b"
    by (rule create_process_spec [OF wf lay hp i1 p1 len fr])
  define n1 where "n1 = new_process 1 (make_satp r1 1) c1 (t1 + PAGE_SIZE) 0"
  define ka where "ka = set_proc 1 n1 a"
  have cp1: "create_process cfg 1 (init_start img) (init_size img) k = Some ka"
    using A(1) by (simp add: ka_def n1_def)
  have ka: "vm_wf ka (insert r1 R)" "heap_pool ?L (page_bitmap ka)" "image_ok (page_bitmap ka) (uart_start img) (uart_size img)"
    "length (procs ka) = 8" "kernel_tables ?L + 3 \<le> free_pages ka" "procs ka = (procs k)[1 := n1]"
    "ram ka = ram a" "page_bitmap ka = page_bitmap a"
    using A(3,6,7) hp i2 f len vm_only_kernel(1) [OF A(2)]
    by (simp_all add: ka_def heap_pool_def image_ok_def)
  obtain r2 c2 t2 e where E: "create_process cfg 2 (uart_start img) (uart_size img) ka = Some (set_proc (unat (2 :: usize))
       (new_process 2 (make_satp r2 (ucast (2 :: usize))) c2 (t2 + PAGE_SIZE) 0) e)"
    "vm_only ka e" "vm_wf e (insert r2 (insert r1 R))" "r2 \<notin> insert r1 R" "r2 \<in> pool (page_bitmap ka)"
    "pool (page_bitmap e) = pool (page_bitmap ka)" "free_pages ka \<le> free_pages e + kernel_tables ?L + 3"
    "c2 mod PAGE_SIZE = 0" "t2 mod PAGE_SIZE = 0" "c2 \<noteq> t2"
    "\<forall>va < 2 ^ 39. walk r2 va (tree e) = boot_space ?L c2 t2 va"
    "\<forall>r' va. r' \<in> insert r1 R \<longrightarrow> va < 2 ^ 39 \<longrightarrow> walk r' va (tree e) = walk r' va (tree ka)"
    "\<forall>i < unat (uart_size img). ram e (c2 + of_nat i) = ram ka (uart_start img + of_nat i)"
    "\<forall>b. page_of b \<in> live ka \<longrightarrow> page_of b \<notin> tables (tree ka) (insert r1 R) \<longrightarrow> ram e b = ram ka b"
    "live ka \<subseteq> live e" "c2 \<in> live e" "t2 \<in> live e" "c2 \<notin> live ka" "t2 \<notin> live ka"
    "c2 \<notin> tables (tree e) (insert r2 (insert r1 R))"
    "\<forall>p. p \<in> live ka \<longrightarrow> p \<notin> tables (tree ka) (insert r1 R) \<longrightarrow> p \<notin> tables (tree e) (insert r2 (insert r1 R))"
    "\<forall>b. page_of b \<notin> pool (page_bitmap ka) \<longrightarrow> ram e b = ram ka b"
    by (rule create_process_spec [OF ka(1) lay ka(2,3) p2 ka(4,5)])
  let ?R = "insert r2 (insert r1 R)"
  define n2 where "n2 = new_process 2 (make_satp r2 2) c2 (t2 + PAGE_SIZE) 0"
  define ke where "ke = set_proc 2 n2 e"
  have cp2: "create_process cfg 2 (uart_start img) (uart_size img) ka = Some ke"
    using E(1) by (simp add: ke_def n2_def)
  have ke: "vm_wf ke ?R" "2 \<le> free_pages ke" "procs ke = (procs k)[1 := n1, 2 := n2]" "ram ke = ram e"
    "page_bitmap ke = page_bitmap e" "length (procs ke) = 8"
    using E(3,7) A(7) f len ka(6) vm_only_kernel(1) [OF E(2)] by (simp_all add: ke_def ka_def)
  have small: "root < 2 ^ 56 \<and> root mod PAGE_SIZE = 0" if "root \<in> pool (page_bitmap k)" for root
  proof -
    have al: "root mod PAGE_SIZE = 0" using that wf pool_aligned by (auto simp: vm_wf_def)
    have "unat root + 4096 \<le> 2 ^ 39" by (rule heap_region(1) [OF lay hp that al])
    then show ?thesis using al by (simp add: word_less_nat_alt)
  qed
  have root: "satp_to_root (make_satp r1 1) = r1" "satp_to_root (make_satp r2 2) = r2"
    using small [OF A(5)] small [of r2] E(5) A(6) ka(8) satp_root by simp_all
  have al: "UART_BASE mod PAGE_SIZE = 0" by (simp add: UART_BASE_def PAGE_SIZE_def)
  have "\<not> free_pages ke < missing ke r2 {UART_USER_VA}" using missing_one [of ke r2 UART_USER_VA] ke(2) by simp
  then obtain g where g: "map_page ke r2 UART_USER_VA UART_BASE USER_MMIO = Some g" "vm_grows ?R ke g"
    "\<And>r' va'. r' \<in> ?R \<Longrightarrow> walk r' va' (tree g) = (if r' = r2 \<and> same_vpn UART_USER_VA va'
       then Some \<lparr>wr_phys = UART_BASE + take_bit 12 va', wr_flags = USER_MMIO\<rparr> else walk r' va' (tree ke))"
    using map_page_cases [OF ke(1) insertI1 perms_leaf(7) al, of UART_USER_VA] by metis
  have only: "vm_only ke g" by (rule map_page_only [OF g(1)])
  have pg: "procs g = (procs k)[1 := n1, 2 := n2]" "frame g = frame k" "irq_owners g = irq_owners k" "length (procs g) = 8"
    using vm_only_kernel [OF only] vm_only_kernel [OF E(2)] vm_only_kernel [OF A(2)] ke(3,6)
    by (simp_all add: ke_def ka_def)
  define k' where "k' = g\<lparr>current_pid := 1, procs := (procs g)[1 := n1\<lparr>pr_state := Running\<rparr>], satp := pr_satp n1,
    frame := (frame g)\<lparr>tf_sepc := tf_sepc (pr_context n1), tf_sp := tf_sp (pr_context n1),
                tf_sstatus := (tf_sstatus (frame g) AND NOT (push_bit 8 1)) OR push_bit 5 1\<rparr>\<rparr>"
  have dg: "dev k' = dev k"
    using vm_only_kernel(6) [OF only] vm_only_kernel(6) [OF E(2)] vm_only_kernel(6) [OF A(2)]
    by (simp add: k'_def ke_def ka_def)
  have gp: "procs g ! 1 = n1" "procs ke ! 2 = n2" using pg(1) ke(3) len by simp_all
  have lau: "launch cfg img k = Some k'"
    using cp1 cp2 g(1) gp pg(4) ke(6) root(2)
    by (simp add: launch_def k'_def map_user_page_def n2_def)
  have byte: "ram g b = ram e b" if "page_of b \<in> live e" "page_of b \<notin> tables (tree e) ?R" for b
    using vm_growsD(5,6) [OF g(2)] that ke(4,5) by metis
  have pgs: "i < 4096" if "i < unat (init_size img) \<or> i < unat (uart_size img)" for i
    using that i1 i2 by (auto simp: image_ok_def)
  have sel: "ram k' = ram g" "page_bitmap k' = page_bitmap g" by (simp_all add: k'_def)
  have c1: "c1 \<in> live ka" "c1 \<notin> tables (tree ka) (insert r1 R)" "c1 \<in> live e" "c1 \<notin> tables (tree e) ?R"
    using A(16,20) E(15,21) ka(7,8) by auto
  show ?thesis
  proof (rule that [OF lau, of r1 c1 t1 r2 c2 t2])
    show "procs k' = (replicate 8 Process_empty)
       [1 := (new_process 1 (make_satp r1 1) c1 (t1 + PAGE_SIZE) 0)\<lparr>pr_state := Running\<rparr>,
        2 := new_process 2 (make_satp r2 2) c2 (t2 + PAGE_SIZE) 0]"
      using pg(1) B by (simp add: k'_def n1_def n2_def list_update_swap)
    show "vm_wf k' {r1, r2}"
      using vm_growsD(1) [OF g(2)] pt_wf_roots [of "tree g" ?R "live g" "{r1, r2}"] by (simp add: vm_wf_def sel)
    show "\<forall>i < unat (init_size img). ram k' (c1 + of_nat i) = ram k (init_start img + of_nat i)"
      using byte page_of_off [OF A(8) pgs] c1 E(14) A(13) ka(7) sel by simp
    show "\<forall>i < unat (uart_size img). ram k' (c2 + of_nat i) = ram k (uart_start img + of_nat i)"
      using byte page_of_off [OF E(8) pgs] E(13,16,20) A(22) ka(7) i2 sel by (simp add: image_ok_def)
    show "\<forall>va < 2 ^ 39. walk r1 va (tree k') = boot_space ?L c1 t1 va"
      using g(3) [of r1] E(4,12) A(11) ka(7) ke(4) sel by auto
    show "\<forall>va < 2 ^ 39. walk r2 va (tree k') =
       (if same_vpn UART_USER_VA va then Some \<lparr>wr_phys = UART_BASE + take_bit 12 va, wr_flags = USER_MMIO\<rparr>
        else boot_space ?L c2 t2 va)"
      using g(3) [of r2] E(11) ke(4) sel by auto
    show "r1 \<noteq> r2" using E(4) by auto
    have pool: "c1 \<in> pool (page_bitmap k)" "t1 \<in> pool (page_bitmap k)"
      using A(3,6,16,17) live_subset_pool [of "page_bitmap a"] by (auto simp: vm_wf_def)
    have "unat p + 4096 \<le> 2 ^ 39" if "p \<in> pool (page_bitmap k)" for p
      using heap_region(1) [OF lay hp that] small [OF that] by simp
    from this [OF pool(1)] this [OF pool(2)] show "c1 < 2 ^ 39" "t1 < 2 ^ 39" by (simp_all add: word_less_nat_alt)
    show "c1 mod PAGE_SIZE = 0" "t1 mod PAGE_SIZE = 0" "c1 \<noteq> t1" by (fact A)+
    show "satp_to_root (make_satp r2 2) = r2" "c1 \<in> pool (page_bitmap k)" "dev k' = dev k" by (fact root(2) pool(1) dg)+
  qed (use pg root B in \<open>simp_all add: k'_def n1_def\<close>)
qed

lemma launch_user:
  assumes b: "boot_ready cfg img R k"
  obtains k' where "launch cfg img k = Some k'" "user_trap k'"
proof (rule launch_spec [OF b])
  fix r1 c1 t1 r2 c2 t2 k'
  assume l: "launch cfg img k = Some k'"
    and ps: "procs k' = (replicate 8 Process_empty)
       [1 := (new_process 1 (make_satp r1 1) c1 (t1 + PAGE_SIZE) 0)\<lparr>pr_state := Running\<rparr>,
        2 := new_process 2 (make_satp r2 2) c2 (t2 + PAGE_SIZE) 0]"
    and c: "current_pid k' = 1" and sp: "satp k' = make_satp r1 1" and irq: "irq_owners k' = replicate 64 0"
    and ss: "tf_sstatus (frame k') = (tf_sstatus (frame k) AND NOT (push_bit 8 1)) OR push_bit 5 1"
  have um: "user_mode (frame k')"
  proof -
    have "(x AND NOT (push_bit 8 1) OR push_bit 5 1) AND push_bit 8 (1 :: usize) = push_bit 5 1 AND push_bit 8 1" for x
      by (rule bit_word_eqI) (auto simp del: push_bit_of_1 push_bit_numeral simp: bit_simps)
    then show ?thesis unfolding user_mode_def ss by (simp add: push_bit_eq_mult)
  qed
  let ?p1 = "(new_process 1 (make_satp r1 1) c1 (t1 + PAGE_SIZE) 0)\<lparr>pr_state := Running\<rparr>"
  have nth: "procs k' ! i = (if i = 1 then ?p1 else if i = 2 then new_process 2 (make_satp r2 2) c2 (t2 + PAGE_SIZE) 0
      else Process_empty)" if "i < 8" for i
    using that by (simp add: ps nth_list_update)
  have pm: "user_mode (pr_context ?p1)" by (simp add: new_process_def user_mode_def)
  have "kernel_inv k'"
    by (rule kernel_invI) (use um pm in \<open>auto simp: nth c sp irq Process_empty_def split: if_splits\<close>, simp add: ps)
  then have "user_trap k'" using um by (simp add: user_trap_def)
  with l show thesis by (rule that)
qed

section \<open>Properties\<close>

text \<open>
  Booting into user mode: from the state the boot stages leave, with enough pages for two
  address spaces, \<open>launch\<close> does not panic; process 1 runs in user mode with the invariant
  established and process 2 is ready; the program counter is the start of a user page that is
  executable, not writable, and holds the image of the first program, and the stack pointer is the
  end of a user page that is writable and not executable.
\<close>

theorem launch_boots:
  assumes "boot_ready cfg img R k"
  shows "\<exists>k' code stk. launch cfg img k = Some k' \<and> user_trap k' \<and>
    states k' = [Free, Running, Ready, Free, Free, Free, Free, Free] \<and>
    tf_sepc (frame k') = code \<and> tf_sp (frame k') = stk + PAGE_SIZE \<and>
    walk (satp_to_root (satp k')) code (tree k') = Some \<lparr>wr_phys = code, wr_flags = USER_RX\<rparr> \<and>
    walk (satp_to_root (satp k')) stk (tree k') = Some \<lparr>wr_phys = stk, wr_flags = USER_RW\<rparr> \<and>
    (\<forall>i < unat (init_size img). ram k' (code + of_nat i) = ram k (init_start img + of_nat i))"
proof (rule launch_spec [OF assms])
  fix r1 c1 t1 r2 c2 t2 k'
  assume l: "launch cfg img k = Some k'"
    and ps: "procs k' = (replicate 8 Process_empty)
       [1 := (new_process 1 (make_satp r1 1) c1 (t1 + PAGE_SIZE) 0)\<lparr>pr_state := Running\<rparr>,
        2 := new_process 2 (make_satp r2 2) c2 (t2 + PAGE_SIZE) 0]"
    and root: "satp_to_root (satp k') = r1" and pc: "tf_sepc (frame k') = c1" and sp: "tf_sp (frame k') = t1 + PAGE_SIZE"
    and w: "\<forall>va < 2 ^ 39. walk r1 va (tree k') = boot_space (lay cfg) c1 t1 va"
    and img: "\<forall>i < unat (init_size img). ram k' (c1 + of_nat i) = ram k (init_start img + of_nat i)"
    and al: "c1 mod PAGE_SIZE = 0" "t1 mod PAGE_SIZE = 0" "c1 \<noteq> t1" "c1 < 2 ^ 39" "t1 < 2 ^ 39"
  obtain k'' where "launch cfg img k = Some k''" "user_trap k''" by (rule launch_user [OF assms])
  then have ut: "user_trap k'" using l by simp
  have st: "states k' = [Free, Running, Ready, Free, Free, Free, Free, Free]"
    by (simp add: states_def ps Process_empty_def numeral_eq_Suc)
  have "walk r1 c1 (tree k') = Some \<lparr>wr_phys = c1, wr_flags = USER_RX\<rparr>"
    "walk r1 t1 (tree k') = Some \<lparr>wr_phys = t1, wr_flags = USER_RW\<rparr>"
    using w al page_of_self [OF al(1)] page_of_self [OF al(2)] by (simp_all add: boot_space_def)
  then show ?thesis using l ut st root pc sp img by blast
qed

text \<open>A machine with 4000 free pages and two images of sixteen bytes in the kernel's text.\<close>

definition boot_demo :: kernel where
  "boot_demo =
     \<lparr>ram = (\<lambda>_. 0), page_bitmap = new_allocator 0x80300000 4000, kernel_satp = 0, satp = 0,
      procs = replicate 8 Process_empty, current_pid = 0, irq_owners = replicate 64 0, ticks = 0,
      frame = TrapFrame_zero,
      dev = \<lparr>plic_regs = (\<lambda>_. 0), plic_done = [], uart_regs = (\<lambda>_. 0), uart_rx = [], uart_tx = [],
             timer_cmp = 0\<rparr>\<rparr>"

definition img_demo :: boot_images where
  "img_demo = \<lparr>init_start = 0x80200000, init_size = 16, uart_start = 0x80200100, uart_size = 16\<rparr>"

lemma boot_demo_ready: "boot_ready demo_cfg img_demo {} boot_demo"
proof -
  have n: "0 < unat (4000 :: usize)" "unat (4000 :: usize) \<le> MAX_PAGES" by (simp_all add: MAX_PAGES_def)
  let ?a = "new_allocator 0x80300000 4000"
  have sel: "ram boot_demo = ram (boot_vm 4000)" "page_bitmap boot_demo = page_bitmap (boot_vm 4000)"
    "page_bitmap boot_demo = ?a"
    by (simp_all add: boot_demo_def boot_vm_def)
  have wf: "vm_wf boot_demo {}" using boot_vm_facts(1) [OF n] by (simp add: vm_wf_def sel(1,2))
  have fp: "free_pages boot_demo = 4000" using boot_vm_facts(2) [OF n] by (simp add: free_pages_def sel(1,2))
  have pl: "0x80300000 \<le> unat p \<and> unat p + 4096 \<le> 0x88000000" if "p \<in> pool ?a" for p
  proof -
    have tot: "unat (total_pages ?a) = 4000" by (simp add: new_allocator_def)
    from pool_index [OF that] obtain i where i: "i < 4000" "p = page_addr ?a i" unfolding tot by blast
    have "wf_alloc ?a" using wf by (simp add: vm_wf_def sel(3))
    then have "unat p = 0x80300000 + 4096 * i"
      using unat_page_addr [of ?a i] i by (simp add: new_allocator_def)
    then show ?thesis using i(1) by simp
  qed
  have lay: "heap_start (lay demo_cfg) = 0x80300000" "stack_top (lay demo_cfg) = 0x88000000" "lay demo_cfg = qemu_layout"
    by (simp_all add: demo_cfg_def qemu_layout_def)
  have hp: "heap_pool (lay demo_cfg) (page_bitmap boot_demo)"
    unfolding heap_pool_def sel(3) lay(1,2) using pl by simp
  have img: "image_ok (page_bitmap boot_demo) src 16" if "src = 0x80200000 \<or> src = 0x80200100" for src
  proof -
    have "page_of (src + of_nat j) \<notin> pool ?a" if j: "j < 16" for j
    proof
      assume "page_of (src + of_nat j) \<in> pool ?a"
      then have le: "0x80300000 \<le> unat (page_of (src + of_nat j))" using pl by blast
      have "unat (of_nat j :: usize) = j" using j by (intro unat_of_nat_small) simp
      then have "unat (src + of_nat j) = unat src + j"
        using \<open>src = _ \<or> _\<close> j by (subst unat_add_small) auto
      then have "unat (page_of (src + of_nat j)) \<le> unat src + j" by (simp add: unat_page_of)
      then show False using le \<open>src = _ \<or> _\<close> j by auto
    qed
    then show ?thesis by (simp add: image_ok_def sel(3))
  qed
  show ?thesis
    unfolding boot_ready_def
    using wf hp img [of "0x80200000"] img [of "0x80200100"] fp qemu_layout_facts
    by (simp add: lay(3) img_demo_def) (simp add: boot_demo_def)
qed

theorem launch_boots_witness:
  "\<exists>k'. launch demo_cfg img_demo boot_demo = Some k' \<and> user_trap k' \<and>
     states k' = [Free, Running, Ready, Free, Free, Free, Free, Free]"
  using launch_boots [OF boot_demo_ready] by blast

end
