(* ===== verification/Trap.thy ===== *)
theory Trap
  imports Boot
begin

unbundle bit_operations_syntax

text \<open>
  \<open>trap.rs\<close> and \<open>handlers.rs\<close>: the dispatch of a trap to the syscall handlers, the timer and the
  external interrupt handler, and the machine as a step relation.  A trap brings the cause register,
  the interrupt number the PLIC answers to a claim, and the value of the time register.  In the
  default build the network stack is absent, so the \<open>cfg(feature = "net")\<close> branches are too.

  The main results span all the components: every trap from a state with the kernel invariant
  leads to one with it, a syscall touches other processes only by the peer steps of \<open>Peer\<close>, and the
  kernel panics only for lack of pages.
\<close>

section \<open>Model\<close>

datatype trap_result = Resume kernel | Reset

record trap_event =
  ev_scause :: usize
  ev_claim :: u32
  ev_time :: u64

definition sys_putchar :: "kernel \<Rightarrow> kernel option" where
  "sys_putchar k =
     (let ch = ucast (tf_a0 (frame k)) :: u8;
          k = k\<lparr>dev := putc (dev k) ch\<rparr>
      in Some (advance (set_a0 0 k)))"

definition handlers_sys_call :: "kcfg \<Rightarrow> kernel \<Rightarrow> kernel option" where
  "handlers_sys_call cfg k = sys_call cfg k"

definition sys_reboot :: "kernel \<Rightarrow> trap_result option" where
  "sys_reboot k = Some Reset"

definition sys_unknown :: "kernel \<Rightarrow> kernel option" where
  "sys_unknown k = Some (advance (set_a0 ERR k))"

text \<open>The dispatch table, indexed by the syscall number.\<close>

definition HANDLERS :: "(kernel \<Rightarrow> usize \<Rightarrow> u8) \<Rightarrow> kcfg \<Rightarrow> (kernel \<Rightarrow> trap_result option) list" where
  "HANDLERS uload cfg =
     (let plain = (\<lambda>h k. map_option Resume (h k))
      in [plain sys_putchar, plain (sys_exit cfg), plain (sys_send cfg), plain (sys_receive cfg),
          plain (handlers_sys_call cfg), plain sys_reply, plain (sys_map cfg), plain sys_unmap,
          plain sys_alloc_pages, plain sys_free_pages, plain (sys_spawn uload cfg), plain (sys_wait cfg),
          plain (\<lambda>k. Some (sys_getpid k)), plain (sys_yield cfg), plain sys_irq_register, plain sys_irq_ack,
          sys_reboot])"

definition handle_ecall :: "(kernel \<Rightarrow> usize \<Rightarrow> u8) \<Rightarrow> kcfg \<Rightarrow> kernel \<Rightarrow> trap_result option" where
  "handle_ecall uload cfg k =
     (let syscall_num = tf_a7 (frame k)
      in if syscall_num \<le> SYS_MAX
         then do { h \<leftarrow> idx (HANDLERS uload cfg) (unat syscall_num); h k }
         else map_option Resume (sys_unknown k))"

definition handle_external :: "u32 \<Rightarrow> kernel \<Rightarrow> kernel option" where
  "handle_external irq k =
     (if irq = 0 then Some k
      else do {
        owner \<leftarrow> irq_owner k irq;
        if owner \<noteq> 0 then do {
          k \<leftarrow> irq_notify irq owner k;
          if tf_sstatus (frame k) AND push_bit 8 1 \<noteq> 0 then schedule_from_idle k else Some k
        } else do {
          let k = (if irq = UART0_IRQ then k\<lparr>dev := uart_handle_interrupt (dev k)\<rparr> else k);
          Some (k\<lparr>dev := plic_complete (dev k) irq\<rparr>)
        }
      })"

definition timer_init :: "u64 \<Rightarrow> kernel \<Rightarrow> kernel" where
  "timer_init time k = k\<lparr>dev := (dev k)\<lparr>timer_cmp := time + TIMESLICE\<rparr>\<rparr>"

definition handle_timer :: "u64 \<Rightarrow> kernel \<Rightarrow> kernel option" where
  "handle_timer time k =
     (let k = k\<lparr>ticks := ticks k + 1\<rparr>;
          k = k\<lparr>dev := (dev k)\<lparr>timer_cmp := time + TIMESLICE\<rparr>\<rparr>
      in if tf_sstatus (frame k) AND push_bit 8 1 = 0 then preempt k else schedule_from_idle k)"

definition trap_handler :: "(kernel \<Rightarrow> usize \<Rightarrow> u8) \<Rightarrow> kcfg \<Rightarrow> trap_event \<Rightarrow> kernel \<Rightarrow> trap_result option" where
  "trap_handler uload cfg ev k =
     (let scause = ev_scause ev;
          is_interrupt = drop_bit 63 scause = 1;
          code = scause AND 0x7FFFFFFFFFFFFFFF
      in if is_interrupt then
           (if code = 5 then map_option Resume (handle_timer (ev_time ev) k)
            else if code = 9 then map_option Resume (handle_external (ev_claim ev) k)
            else Some (Resume k))
         else if code = 8 then handle_ecall uload cfg k
         else if tf_sstatus (frame k) AND push_bit 8 1 = 0 then
           map_option Resume (kill_current cfg (128 + code) k)
         else None)"

text \<open>One turn of the interactive loop that \<open>post_process_exit\<close> ends in.\<close>

definition post_process_key :: "devices \<Rightarrow> u8 \<Rightarrow> devices option" where
  "post_process_key d c =
     (if c = 0x12 \<or> c = 0x52 then None
      else if c = 0x0D \<or> c = 0x0A then Some (putc (putc d 0x0D) 0x0A)
      else if c = 0x7F \<or> c = 0x08 then Some (putc (putc (putc d 0x08) 0x20) 0x08)
      else if c < 0x20 \<or> 0x7E < c then Some d
      else Some (putc d c))"

definition post_process_turn :: "kernel \<Rightarrow> trap_result" where
  "post_process_turn k =
     (case getc (dev k) of
        (None, d) \<Rightarrow> Resume (k\<lparr>dev := d\<rparr>)
      | (Some c, d) \<Rightarrow> (case post_process_key d c of None \<Rightarrow> Reset | Some d' \<Rightarrow> Resume (k\<lparr>dev := d'\<rparr>)))"

section \<open>Syscalls\<close>

lemma kernel_parked_idle:
  assumes "kernel_inv k" "\<not> user_mode (frame k)"
  shows "kernel_parked k"
  using kernel_invD [OF assms(1)] assms(2) by (simp add: kernel_parked_def)

lemma sys_yield_ok:
  assumes ut: "user_trap k"
  shows "\<exists>k'. sys_yield cfg k = Some k' \<and> syscall_ok k k'"
proof -
  let ?k = "advance k"
  have ut': "user_trap ?k" using ut by simp
  note U = user_trapD [OF ut']
  have st: "states ?k = states k" by (simp add: states_def)
  show ?thesis
  proof (cases "next_ready (states k) (unat (current_pid k))")
    case None
    then show ?thesis using sys_yield_eq [OF ut, of cfg] error_ok [OF ut] by simp
  next
    case (Some n)
    then have nr: "next_ready (states ?k) (unat (current_pid ?k)) = Some n" by (simp add: st)
    have n: "n < 8" "states k ! n = Ready" using next_ready_Some [OF Some] by auto
    have "dispatched (procs k ! i) (procs (rotate_to n ?k) ! i)" if i: "i < 8" "i \<noteq> unat (current_pid k)" for i
      using i n U(7) next_ready_unrun(2) [OF ut' nr]
      by (cases "i = n") (simp_all add: rotate_to_def dispatched_def states_nth)
    then have "syscall_ok k (set_a0 0 (rotate_to n ?k))"
      using rotate_to_inv(1) [OF ut' nr] by (auto simp: syscall_ok_def peer_ok_def intro: peer_same)
    then show ?thesis using sys_yield_eq [OF ut, of cfg] Some by simp
  qed
qed

lemma sys_getpid_ok: "user_trap k \<Longrightarrow> syscall_ok k (sys_getpid k)"
  unfolding sys_getpid_def Let_def by (rule error_ok)

lemma sys_putchar_ok: "user_trap k \<Longrightarrow> \<exists>k'. sys_putchar k = Some k' \<and> syscall_ok k k'"
  by (simp add: sys_putchar_def Let_def) (rule syscall_local, simp_all add: user_trap_def)

lemma sys_unknown_ok: "user_trap k \<Longrightarrow> \<exists>k'. sys_unknown k = Some k' \<and> syscall_ok k k'"
  by (simp add: sys_unknown_def) (rule syscall_local, simp_all add: user_trap_def)

text \<open>The syscalls that allocate or free pages; only these can panic.\<close>

definition page_syscalls :: "usize set" where
  "page_syscalls = {SYS_MAP, SYS_UNMAP, SYS_ALLOC_PAGES, SYS_FREE_PAGES, SYS_SPAWN}"

lemma HANDLERS_nth:
  assumes "n \<le> SYS_MAX"
  shows "unat n < length (HANDLERS uload cfg)"
    "n \<in> {0, 1, 2, 3, 4, 5, 6, 7, 8, 9, 10, 11, 12, 13, 14, 15, 16}"
proof -
  have u: "unat n \<le> 16" using assms by (simp add: SYS_MAX_def SYS_REBOOT_def word_le_nat_alt)
  then show "unat n < length (HANDLERS uload cfg)" by (simp add: HANDLERS_def Let_def)
  show "n \<in> {0, 1, 2, 3, 4, 5, 6, 7, 8, 9, 10, 11, 12, 13, 14, 15, 16}"
    unfolding insert_iff word_unat_eq_iff using u by simp arith
qed

lemma handle_ecall_ok:
  assumes ut: "user_trap k"
  shows "handle_ecall uload cfg k = Some (Resume k') \<Longrightarrow> syscall_ok k k'"
    "handle_ecall uload cfg k = None \<Longrightarrow> tf_a7 (frame k) \<in> page_syscalls"
proof -
  let ?n = "tf_a7 (frame k)" and ?r = "handle_ecall uload cfg k"
  have "(\<forall>k'. ?r = Some (Resume k') \<longrightarrow> syscall_ok k k') \<and> (?r = None \<longrightarrow> ?n \<in> page_syscalls)"
  proof (cases "?n \<le> SYS_MAX")
    case False
    then show ?thesis using sys_unknown_ok [OF ut] by (auto simp: handle_ecall_def)
  next
    case True
    have r: "?r = (HANDLERS uload cfg ! unat ?n) k"
      using True HANDLERS_nth(1) [OF True, of uload cfg] by (simp add: handle_ecall_def Let_def)
    show ?thesis
      unfolding r using HANDLERS_nth(2) [OF True]
      apply (elim insertE emptyE)
      subgoal using sys_putchar_ok [OF ut] by (auto simp: HANDLERS_def)
      subgoal using sys_exit_ok [OF ut, of cfg] by (auto simp: HANDLERS_def)
      subgoal using sys_send_ok [OF ut, of cfg] by (auto simp: HANDLERS_def)
      subgoal using sys_receive_ok [OF ut, of cfg] by (auto simp: HANDLERS_def)
      subgoal using sys_call_ok [OF ut, of cfg] by (auto simp: HANDLERS_def handlers_sys_call_def)
      subgoal using sys_reply_ok [OF ut] by (auto simp: HANDLERS_def)
      subgoal using sys_map_ok [OF ut, of cfg] by (auto simp: HANDLERS_def page_syscalls_def sys_defs)
      subgoal using sys_unmap_ok [OF ut] by (auto simp: HANDLERS_def page_syscalls_def sys_defs)
      subgoal using sys_alloc_pages_ok [OF ut] by (auto simp: HANDLERS_def page_syscalls_def sys_defs)
      subgoal using sys_free_pages_ok [OF ut] by (auto simp: HANDLERS_def page_syscalls_def sys_defs)
      subgoal using sys_spawn_ok [OF ut, of uload cfg] by (auto simp: HANDLERS_def page_syscalls_def sys_defs)
      subgoal using sys_wait_ok [OF ut, of cfg] by (auto simp: HANDLERS_def)
      subgoal using sys_getpid_ok [OF ut] by (auto simp: HANDLERS_def)
      subgoal using sys_yield_ok [OF ut, of cfg] by (auto simp: HANDLERS_def)
      subgoal using sys_irq_register_ok [OF ut] by (auto simp: HANDLERS_def)
      subgoal using sys_irq_ack_ok [OF ut] by (auto simp: HANDLERS_def)
      subgoal by (auto simp: HANDLERS_def sys_reboot_def)
      done
  qed
  then show "?r = Some (Resume k') \<Longrightarrow> syscall_ok k k'" "?r = None \<Longrightarrow> ?n \<in> page_syscalls" by blast+
qed

section \<open>Interrupts and faults\<close>

lemma idle_inv:
  assumes inv: "kernel_inv k" and su: "\<not> user_mode (frame k)"
  shows "\<exists>k'. schedule_from_idle k = Some k' \<and> kernel_inv k'"
proof (cases "find (\<lambda>i. is_ready (procs k ! i)) [1..<8]")
  case None
  then show ?thesis using schedule_from_idle_eq [OF kernel_invD(1) [OF inv]] inv by simp
next
  case (Some n)
  then have n: "n < 8" "pr_state (procs k ! n) = Ready" by (auto simp: is_ready_def dest!: find_Some_in)
  show ?thesis
    using schedule_from_idle_eq [OF kernel_invD(1) [OF inv]] Some
      resume_inv(1) [OF kernel_parked_idle [OF inv su] n] by simp
qed

lemma kernel_inv_dev:
  "kernel_inv (k\<lparr>dev := d\<rparr>) = kernel_inv k" "kernel_inv (k\<lparr>ticks := t\<rparr>) = kernel_inv k"
  by (simp_all add: kernel_inv_def)

lemma handle_timer_inv:
  assumes inv: "kernel_inv k"
  shows "\<exists>k'. handle_timer time k = Some k' \<and> kernel_inv k'"
proof -
  let ?k = "k\<lparr>ticks := ticks k + 1, dev := (dev k)\<lparr>timer_cmp := time + TIMESLICE\<rparr>\<rparr>"
  have i: "kernel_inv ?k" using inv by (simp add: kernel_inv_dev)
  show ?thesis
  proof (cases "user_mode (frame ?k)")
    case True
    then have "user_trap ?k" using i by (simp add: user_trap_def)
    then obtain k' where "preempt ?k = Some k'" "kernel_inv k'" using preempt_user user_trapD(1) by blast
    then show ?thesis using True by (auto simp: handle_timer_def Let_def user_mode_def)
  next
    case False
    then show ?thesis using idle_inv [OF i] by (auto simp: handle_timer_def Let_def user_mode_def)
  qed
qed

lemma irq_owner_lt:
  assumes inv: "kernel_inv k"
  shows "\<exists>w. irq_owner k irq = Some w \<and> unat w < 8"
proof (cases "unat irq < 64")
  case True
  then show ?thesis using kernel_invD(2,8) [OF inv] by (simp add: irq_owner_def valid_irq_unat)
qed (simp add: irq_owner_def valid_irq_unat)

lemma handle_external_inv:
  assumes inv: "kernel_inv k"
  shows "\<exists>k'. handle_external irq k = Some k' \<and> kernel_inv k'"
proof (cases "irq = 0")
  case True
  then show ?thesis using inv by (simp add: handle_external_def)
next
  case False
  obtain w where w: "irq_owner k irq = Some w" "unat w < 8" using irq_owner_lt [OF inv] by blast
  show ?thesis
  proof (cases "w = 0")
    case True
    then show ?thesis using w False inv by (simp add: handle_external_def Let_def kernel_inv_dev)
  next
    case own: False
    then have w0: "0 < unat w" by (simp add: word_unat_eq_iff)
    have cp: "user_mode (frame k) \<longrightarrow> 0 < unat (current_pid k)"
      using inv user_trapD(3) [of k] by (simp add: user_trap_def)
    obtain p where n: "irq_notify irq w k = Some (set_proc (unat w) p k)" "kernel_inv (set_proc (unat w) p k)"
      using irq_notify_inv [OF inv w0 w(2) cp] by blast
    show ?thesis
    proof (cases "user_mode (frame k)")
      case True
      then show ?thesis using n w own False by (simp add: handle_external_def user_mode_def)
    next
      case su: False
      then have "\<exists>k'. schedule_from_idle (set_proc (unat w) p k) = Some k' \<and> kernel_inv k'"
        using idle_inv [OF n(2)] by simp
      then show ?thesis using n(1) w own False su by (simp add: handle_external_def user_mode_def)
    qed
  qed
qed

text \<open>An environment call comes from user mode.\<close>

definition trap_code :: "trap_event \<Rightarrow> usize" where
  "trap_code ev = ev_scause ev AND 0x7FFFFFFFFFFFFFFF"

definition is_ecall :: "trap_event \<Rightarrow> bool" where
  "is_ecall ev \<longleftrightarrow> drop_bit 63 (ev_scause ev) \<noteq> 1 \<and> trap_code ev = 8"

definition is_fault :: "trap_event \<Rightarrow> bool" where
  "is_fault ev \<longleftrightarrow> drop_bit 63 (ev_scause ev) \<noteq> 1 \<and> trap_code ev \<noteq> 8"

definition legal_event :: "trap_event \<Rightarrow> kernel \<Rightarrow> bool" where
  "legal_event ev k \<longleftrightarrow> (is_ecall ev \<longrightarrow> user_mode (frame k))"

lemma trap_handler_inv:
  assumes inv: "kernel_inv k" and legal: "legal_event ev k"
  shows "trap_handler uload cfg ev k = Some (Resume k') \<Longrightarrow> kernel_inv k'"
    "trap_handler uload cfg ev k = None \<Longrightarrow>
      is_fault ev \<and> \<not> user_mode (frame k) \<or> is_ecall ev \<and> tf_a7 (frame k) \<in> page_syscalls"
proof -
  let ?r = "trap_handler uload cfg ev k"
  have "(\<forall>k'. ?r = Some (Resume k') \<longrightarrow> kernel_inv k') \<and>
    (?r = None \<longrightarrow> is_fault ev \<and> \<not> user_mode (frame k) \<or> is_ecall ev \<and> tf_a7 (frame k) \<in> page_syscalls)"
  proof (cases "drop_bit 63 (ev_scause ev) = 1")
    case True
    then show ?thesis
      using handle_timer_inv [OF inv, of "ev_time ev"] handle_external_inv [OF inv, of "ev_claim ev"] inv
      by (auto simp: trap_handler_def Let_def)
  next
    case exc: False
    show ?thesis
    proof (cases "trap_code ev = 8")
      case True
      then have ut: "user_trap k" using inv legal exc by (simp add: user_trap_def legal_event_def is_ecall_def)
      have "?r = handle_ecall uload cfg k" using True exc by (simp add: trap_handler_def Let_def trap_code_def)
      then show ?thesis
        using handle_ecall_ok [OF ut, of uload cfg] True exc by (auto simp: is_ecall_def dest: syscall_okD(1))
    next
      case False
      show ?thesis
      proof (cases "user_mode (frame k)")
        case True
        then have "user_trap k" using inv by (simp add: user_trap_def)
        then obtain k' where "kill_current cfg (128 + trap_code ev) k = Some k'" "syscall_ok k k'"
          using kill_current_ok by blast
        then show ?thesis
          using False True exc by (auto simp: trap_handler_def Let_def trap_code_def user_mode_def dest: syscall_okD(1))
      next
        case su: False
        then show ?thesis
          using False exc by (auto simp: trap_handler_def Let_def trap_code_def user_mode_def is_fault_def)
      qed
    qed
  qed
  then show "?r = Some (Resume k') \<Longrightarrow> kernel_inv k'"
    "?r = None \<Longrightarrow> is_fault ev \<and> \<not> user_mode (frame k) \<or> is_ecall ev \<and> tf_a7 (frame k) \<in> page_syscalls"
    by blast+
qed

section \<open>The machine\<close>

text \<open>
  Between traps the hart runs what the frame returns to: a user program, which may change its
  registers and the memory it can write, or the kernel's idle loop, which changes registers only;
  bytes may arrive at the UART at any time.  The kernel's statics are fields of the state and not bytes
  of its memory, so a store through a page table that a process has edited reaches them on the machine
  but not here.
\<close>

definition user_writes :: "kernel \<Rightarrow> mem \<Rightarrow> bool" where
  "user_writes k m \<longleftrightarrow> (\<forall>b. m b = ram k b \<or>
     (\<exists>va w. walk (satp_to_root (satp k)) va (tree k) = Some w \<and> wr_phys w = b \<and>
        flags_contains (wr_flags w) PTE_USER \<and> flags_contains (wr_flags w) PTE_WRITE))"

inductive machine_step :: "(kernel \<Rightarrow> usize \<Rightarrow> u8) \<Rightarrow> kcfg \<Rightarrow> kernel \<Rightarrow> kernel \<Rightarrow> bool" for uload cfg where
  user_run: "user_mode (frame k) \<Longrightarrow> user_mode f \<Longrightarrow> user_writes k m \<Longrightarrow>
    machine_step uload cfg k (k\<lparr>ram := m, frame := f\<rparr>)"
| idle_run: "\<not> user_mode (frame k) \<Longrightarrow> \<not> user_mode f \<Longrightarrow> machine_step uload cfg k (k\<lparr>frame := f\<rparr>)"
| uart_byte: "machine_step uload cfg k (k\<lparr>dev := (dev k)\<lparr>uart_rx := uart_rx (dev k) @ [c]\<rparr>\<rparr>)"
| trap: "legal_event ev k \<Longrightarrow> trap_handler uload cfg ev k = Some (Resume k') \<Longrightarrow> machine_step uload cfg k k'"

inductive_cases machine_stepE: "machine_step uload cfg k k'"

inductive reachable :: "(kernel \<Rightarrow> usize \<Rightarrow> u8) \<Rightarrow> kcfg \<Rightarrow> boot_images \<Rightarrow> kernel \<Rightarrow> bool" for uload cfg img where
  boot: "boot_ready cfg img R k \<Longrightarrow> launch cfg img k = Some k' \<Longrightarrow> reachable uload cfg img k'"
| step: "reachable uload cfg img k \<Longrightarrow> machine_step uload cfg k k' \<Longrightarrow> reachable uload cfg img k'"

lemma machine_step_inv:
  assumes "machine_step uload cfg k k'" "kernel_inv k"
  shows "kernel_inv k'"
  using assms
proof (cases rule: machine_step.cases)
  case (trap ev)
  then show ?thesis using trap_handler_inv(1) assms(2) by blast
qed (simp_all add: kernel_inv_def)

lemma reachable_kernel_inv: "reachable uload cfg img k \<Longrightarrow> kernel_inv k"
proof (induction rule: reachable.induct)
  case (boot R k k')
  obtain k'' where "launch cfg img k = Some k''" "user_trap k''" by (rule launch_user [OF boot(1)])
  then show ?case using boot(2) user_trapD(1) by simp
next
  case (step k k')
  then show ?case using machine_step_inv by blast
qed

section \<open>Properties\<close>

text \<open>
  C1. The kernel invariant holds in every reachable state: from the boot state through any
  interleaving of user execution, idling, device input and traps, the process table keeps its
  shape, slot 0 stays unused, at most one process is \<open>Running\<close> and it is \<open>CURRENT_PID\<close> with its
  page table in \<open>satp\<close>, user mode is entered only for that process, and every saved context returns
  to user mode.
\<close>

theorem reachable_inv:
  assumes "reachable uload cfg img k"
  shows "length (procs k) = 8 \<and> pr_state (procs k ! 0) = Free \<and> unat (current_pid k) < 8 \<and>
    (\<forall>i < 8. pr_state (procs k ! i) = Running \<longrightarrow> i = unat (current_pid k) \<and> satp k = pr_satp (procs k ! i)) \<and>
    (user_mode (frame k) \<longleftrightarrow> pr_state (procs k ! unat (current_pid k)) = Running) \<and>
    (\<forall>i < 8. pr_state (procs k ! i) \<noteq> Free \<longrightarrow> user_mode (pr_context (procs k ! i)))"
proof -
  note K = kernel_invD [OF reachable_kernel_inv [OF assms]]
  show ?thesis using K(1,3,4) K(5-7,9,10) by auto
qed

theorem reachable_inv_witness:
  "\<exists>k. reachable (\<lambda>_ _. 0) demo_cfg img_demo k \<and> unat (current_pid k) < 8 \<and> pr_state (procs k ! 0) = Free"
proof -
  obtain k where "launch demo_cfg img_demo boot_demo = Some k" by (rule launch_user [OF boot_demo_ready])
  then have "reachable (\<lambda>_ _. 0) demo_cfg img_demo k" by (rule reachable.boot [OF boot_demo_ready])
  then show ?thesis using reachable_inv by blast
qed

text \<open>
  C2. Isolation of the process table: a syscall returns to a state in which every other process has
  the entry it had, except that a message was handed to a process waiting for the caller or for
  anybody, a process whose send, call or wait was directed at the caller was completed, a free
  slot was filled with a child of the caller, or a ready process was chosen to run. In particular
  no syscall changes the page table, the saved program counter or any callee-saved register of
  another live process.
\<close>

theorem syscall_isolation:
  assumes "reachable uload cfg img k" "user_mode (frame k)" "handle_ecall uload cfg k = Some (Resume k')"
    and "i < 8" "i \<noteq> unat (current_pid k)" "pr_state (procs k ! i) \<noteq> Free"
  shows "peer_ok (current_pid k) (procs k ! i) (procs k' ! i) \<and>
    pr_satp (procs k' ! i) = pr_satp (procs k ! i) \<and>
    tf_sepc (pr_context (procs k' ! i)) = tf_sepc (pr_context (procs k ! i)) \<and>
    tf_sp (pr_context (procs k' ! i)) = tf_sp (pr_context (procs k ! i)) \<and>
    (pr_state (procs k ! i) = Ready \<longrightarrow> pr_context (procs k' ! i) = pr_context (procs k ! i))"
proof -
  have ut: "user_trap k" using reachable_kernel_inv [OF assms(1)] assms(2) by (simp add: user_trap_def)
  have p: "peer_ok (current_pid k) (procs k ! i) (procs k' ! i)"
    using syscall_okD(2) [OF handle_ecall_ok(1) [OF ut assms(3)] assms(4,5)] .
  then obtain q where q: "peer_step (current_pid k) (procs k ! i) q" "dispatched q (procs k' ! i)"
    by (auto simp: peer_ok_def)
  from q(1) assms(6) have
    "pr_satp q = pr_satp (procs k ! i) \<and> tf_sepc (pr_context q) = tf_sepc (pr_context (procs k ! i)) \<and>
     tf_sp (pr_context q) = tf_sp (pr_context (procs k ! i)) \<and>
     (pr_state (procs k ! i) = Ready \<longrightarrow> pr_context q = pr_context (procs k ! i))"
    by (cases rule: peer_step.cases) auto
  then show ?thesis using p q(2) by (auto simp: dispatched_def)
qed

lemma demo_reachable:
  obtains k where "reachable (\<lambda>_ _. 0) demo_cfg img_demo k" "user_mode (frame k)" "tf_a7 (frame k) = SYS_GETPID"
    "states k = [Free, Running, Ready, Free, Free, Free, Free, Free]" "current_pid k = 1" "length (procs k) = 8"
proof (rule launch_spec [OF boot_demo_ready])
  fix r1 c1 t1 r2 c2 t2 k
  assume l: "launch demo_cfg img_demo boot_demo = Some k" and c: "current_pid k = 1"
    and ps: "procs k = (replicate 8 Process_empty)
       [1 := (new_process 1 (make_satp r1 1) c1 (t1 + PAGE_SIZE) 0)\<lparr>pr_state := Running\<rparr>,
        2 := new_process 2 (make_satp r2 2) c2 (t2 + PAGE_SIZE) 0]"
  have r: "reachable (\<lambda>_ _. 0) demo_cfg img_demo k" by (rule reachable.boot [OF boot_demo_ready l])
  obtain k'' where "launch demo_cfg img_demo boot_demo = Some k''" "user_trap k''" by (rule launch_user [OF boot_demo_ready])
  then have um: "user_mode (frame k)" using l user_trapD(2) by simp
  let ?k = "k\<lparr>ram := ram k, frame := (frame k)\<lparr>tf_a7 := SYS_GETPID\<rparr>\<rparr>"
  have "machine_step (\<lambda>_ _. 0) demo_cfg k ?k"
    using um by (intro user_run) (simp_all add: user_writes_def user_mode_def)
  then have "reachable (\<lambda>_ _. 0) demo_cfg img_demo ?k" by (rule reachable.step [OF r])
  moreover have "states ?k = [Free, Running, Ready, Free, Free, Free, Free, Free]"
    by (simp add: states_def ps Process_empty_def numeral_eq_Suc)
  ultimately show thesis using um c ps by (intro that [of ?k]) (simp_all add: user_mode_def)
qed

theorem syscall_isolation_witness:
  "\<exists>k k'. reachable (\<lambda>_ _. 0) demo_cfg img_demo k \<and> handle_ecall (\<lambda>_ _. 0) demo_cfg k = Some (Resume k') \<and>
     pr_satp (procs k' ! 2) = pr_satp (procs k ! 2)"
proof (rule demo_reachable)
  fix k
  assume r: "reachable (\<lambda>_ _. 0) demo_cfg img_demo k" and um: "user_mode (frame k)" and a7: "tf_a7 (frame k) = SYS_GETPID"
    and st: "states k = [Free, Running, Ready, Free, Free, Free, Free, Free]" and c: "current_pid k = 1"
    and l: "length (procs k) = 8"
  have e: "handle_ecall (\<lambda>_ _. 0) demo_cfg k = Some (Resume (sys_getpid k))"
    by (simp add: handle_ecall_def Let_def a7 sys_defs HANDLERS_def)
  have "pr_state (procs k ! 2) = Ready" using states_nth [of 2 k] st l by simp
  then show ?thesis using syscall_isolation [OF r um e, of 2] c e r by auto
qed

text \<open>
  C3. When a trap does not panic: in every reachable state the trap handler returns, unless the
  trap is a fault of the kernel itself in supervisor mode or one of the five syscalls that manage
  pages. No IPC, scheduling, exit, wait, interrupt or timer path panics, and no user fault brings
  the kernel down.
\<close>

theorem trap_no_panic:
  assumes "reachable uload cfg img k" "legal_event ev k" "is_fault ev \<longrightarrow> user_mode (frame k)"
    and "is_ecall ev \<longrightarrow> tf_a7 (frame k) \<notin> {SYS_MAP, SYS_UNMAP, SYS_ALLOC_PAGES, SYS_FREE_PAGES, SYS_SPAWN}"
  shows "\<exists>r. trap_handler uload cfg ev k = Some r"
  using trap_handler_inv(2) [OF reachable_kernel_inv [OF assms(1)] assms(2), of uload cfg] assms(3,4)
  by (cases "trap_handler uload cfg ev k") (auto simp: page_syscalls_def)

theorem trap_no_panic_witness:
  "\<exists>k r. reachable (\<lambda>_ _. 0) demo_cfg img_demo k \<and>
     trap_handler (\<lambda>_ _. 0) demo_cfg \<lparr>ev_scause = 2, ev_claim = 0, ev_time = 0\<rparr> k = Some r"
proof (rule demo_reachable)
  fix k
  assume r: "reachable (\<lambda>_ _. 0) demo_cfg img_demo k" and um: "user_mode (frame k)"
  let ?ev = "\<lparr>ev_scause = 2, ev_claim = 0, ev_time = 0\<rparr>"
  have "\<not> is_ecall ?ev" by (simp add: is_ecall_def trap_code_def)
  then show ?thesis using trap_no_panic [OF r, of ?ev] um r by (auto simp: legal_event_def)
qed

end
