(* ===== verification/Contexts.thy ===== *)
theory Contexts
  imports Trap
begin

text \<open>
  The registers of a process across kernel entries.  A process that is not running keeps its saved
  context until it runs again, whatever the other processes, the devices and the timer do meanwhile:
  the completion of its own blocked call writes result registers, and everything else stays.  These
  are the facts user code compiled around an \<open>ecall\<close> or interrupted by a timer relies on.
\<close>

section \<open>Switching loads a saved context\<close>

definition same_but_a0 :: "trap_frame \<Rightarrow> trap_frame \<Rightarrow> bool" where
  "same_but_a0 f g \<longleftrightarrow> f\<lparr>tf_a0 := 0\<rparr> = g\<lparr>tf_a0 := 0\<rparr>"

definition same_but_args :: "trap_frame \<Rightarrow> trap_frame \<Rightarrow> bool" where
  "same_but_args f g \<longleftrightarrow> f\<lparr>tf_a0 := 0, tf_a1 := 0, tf_a2 := 0, tf_a3 := 0\<rparr> =
     g\<lparr>tf_a0 := 0, tf_a1 := 0, tf_a2 := 0, tf_a3 := 0\<rparr>"

lemma same_refl [simp]: "same_but_a0 f f" "same_but_args f f"
  by (simp_all add: same_but_a0_def same_but_args_def)

lemma same_trans [trans]:
  "same_but_a0 f g \<Longrightarrow> same_but_a0 g h \<Longrightarrow> same_but_a0 f h"
  "same_but_args f g \<Longrightarrow> same_but_args g h \<Longrightarrow> same_but_args f h"
  by (simp_all add: same_but_a0_def same_but_args_def)

lemma same_a0_args: "same_but_a0 f g \<Longrightarrow> same_but_args f g"
  by (simp add: same_but_a0_def same_but_args_def)

lemma same_mode: "same_but_args f g \<Longrightarrow> user_mode f = user_mode g"
  unfolding same_but_args_def by (cases f; cases g) (simp add: user_mode_def)

lemma same_but_a0_upd: "same_but_a0 f g \<longleftrightarrow> f = g\<lparr>tf_a0 := tf_a0 f\<rparr>"
  by (cases f; cases g) (auto simp: same_but_a0_def)

definition fresh :: "kernel \<Rightarrow> bool" where
  "fresh k \<longleftrightarrow> (user_mode (frame k) \<longrightarrow> same_but_a0 (frame k) (pr_context (procs k ! unat (current_pid k))))"

definition loaded :: "kernel \<Rightarrow> bool" where
  "loaded k \<longleftrightarrow> (user_mode (frame k) \<longrightarrow> frame k = pr_context (procs k ! unat (current_pid k)))"

lemma loaded_fresh: "loaded k \<Longrightarrow> fresh k"
  by (simp add: loaded_def fresh_def)

lemma loaded_resume [simp]: "n < 8 \<Longrightarrow> length (procs k) = 8 \<Longrightarrow> loaded (resume n k)"
  by (simp add: loaded_def unat_pid)

lemma loaded_supervisor [simp]: "\<not> user_mode (frame k) \<Longrightarrow> loaded k"
  by (simp add: loaded_def)

lemma fresh_set_a0 [simp]: "fresh (set_a0 v k) = fresh k"
  by (simp add: fresh_def same_but_a0_def)

text \<open>The syscalls whose only result is \<open>a0\<close>, for a caller that goes on or blocks.\<close>

definition a0_syscalls :: "usize set" where
  "a0_syscalls = {SYS_SEND, SYS_CALL, SYS_REPLY, SYS_MAP, SYS_UNMAP, SYS_ALLOC_PAGES, SYS_FREE_PAGES, SYS_SPAWN,
     SYS_WAIT, SYS_GETPID, SYS_IRQ_REGISTER, SYS_IRQ_ACK}"

definition comes_back :: "kernel \<Rightarrow> kernel \<Rightarrow> bool" where
  "comes_back k k' \<longleftrightarrow>
     (current_pid k' = current_pid k \<and> (\<exists>v. frame k' = returns_from (frame k) v)) \<or>
     (pr_state (procs k' ! unat (current_pid k)) \<in> {BlockedSend, BlockedCall, BlockedWait} \<and>
      pr_context (procs k' ! unat (current_pid k)) = (frame k)\<lparr>tf_sepc := tf_sepc (frame k) + 4\<rparr> \<and> loaded k')"

lemma back_local [intro]: "current_pid k' = current_pid k \<Longrightarrow> frame k' = (frame (advance k))\<lparr>tf_a0 := v\<rparr> \<Longrightarrow> comes_back k k'"
  by (auto simp: comes_back_def returns_from_def advance_def)

lemma back_keep:
  "current_pid k' = current_pid k \<Longrightarrow> frame k' = (frame k)\<lparr>tf_sepc := tf_sepc (frame k) + 4, tf_a0 := tf_a0 (frame k')\<rparr> \<Longrightarrow>
   comes_back k k'"
  unfolding comes_back_def returns_from_def by blast

text \<open>Blocking saves the frame in the caller's entry, whoever runs next.\<close>

lemma schedule_own:
  assumes "0 < unat b" "unat b < 8" "length (procs k) = 8" "pr_state (procs k ! unat b) \<noteq> Free"
    "pr_state (procs k ! unat b) \<noteq> Ready" "schedule cfg k b = Some k'"
  shows "procs k' ! unat b = (procs k ! unat b)\<lparr>pr_context := frame k\<rparr>"
proof (cases "next_ready (states k) (unat b)")
  case None
  then show ?thesis using schedule_eq [OF assms(1-4), of cfg] assms(2,3,6) by auto
next
  case (Some n)
  then have "n \<noteq> unat b" using next_ready_Some [OF Some] assms(2,3,5) states_nth [of n k] by auto
  then show ?thesis using schedule_eq [OF assms(1-4), of cfg] assms(2,3,6) Some by auto
qed

lemma schedule_loaded:
  assumes "0 < unat b" "unat b < 8" "length (procs k) = 8" "pr_state (procs k ! unat b) \<noteq> Free"
    "schedule cfg k b = Some k'"
  shows "loaded k'"
  using schedule_eq [OF assms(1-4), of cfg] assms(3,5) next_ready_Some [of "states k" "unat b"]
  by (auto simp: user_mode_def park_def return_to_kernel_def split: option.splits)

lemma back_blocked:
  assumes "schedule cfg (set_proc (unat (current_pid k)) p k0) (current_pid k) = Some k'" "user_trap k"
    "pr_state p \<in> {BlockedSend, BlockedCall, BlockedWait}" "frame k0 = frame (advance k)" "length (procs k0) = 8"
  shows "comes_back k k'"
proof -
  note U = user_trapD [OF assms(2)]
  have "procs k' ! unat (current_pid k) = p\<lparr>pr_context := frame (advance k)\<rparr>"
    using schedule_own [OF U(3,4) _ _ _ assms(1)] assms(3-5) U(4) by auto
  moreover have "loaded k'"
    by (rule schedule_loaded [OF U(3,4) _ _ assms(1)]) (use assms(3,5) U(4) in auto)
  ultimately show ?thesis using assms(3) by (simp add: comes_back_def advance_def)
qed

lemma vm_back:
  fixes k k' :: kernel
  shows "vm_only (advance k) k' \<Longrightarrow> comes_back k (set_a0 v k')"
  using vm_only_kernel [of "advance k" k'] by (intro back_local) auto

lemma send_back: "user_trap k \<Longrightarrow> sys_send cfg k = Some k' \<Longrightarrow> comes_back k k'"
  using sys_send_eq [of k cfg] user_trapD(7) [of k]
  by (auto simp: Let_def split: if_splits) (erule back_blocked; simp)+

lemma call_back: "user_trap k \<Longrightarrow> sys_call cfg k = Some k' \<Longrightarrow> comes_back k k'"
  using sys_call_eq [of k cfg] user_trapD(7) [of k]
  by (auto simp: Let_def split: if_splits) (erule back_blocked; simp)+

lemma wait_back: "user_trap k \<Longrightarrow> sys_wait cfg k = Some k' \<Longrightarrow> comes_back k k'"
  using sys_wait_eq [of k cfg] user_trapD(7) [of k]
  by (auto simp: Let_def split: if_splits) (erule back_blocked; simp)+

lemma reply_back: "user_trap k \<Longrightarrow> sys_reply k = Some k' \<Longrightarrow> comes_back k k'"
  using sys_reply_eq [of k] by (auto simp: Let_def split: if_splits)

lemma map_back: "sys_map cfg k = Some k' \<Longrightarrow> comes_back k k'"
  by (auto simp: sys_map_def Let_def split: if_splits bind_splits intro!: vm_back dest: map_user_page_only)

lemma unmap_back: "sys_unmap k = Some k' \<Longrightarrow> comes_back k k'"
  by (auto simp: sys_unmap_def Let_def split: if_splits bind_splits intro!: vm_back dest: unmap_page_only)

lemma alloc_back: "sys_alloc_pages k = Some k' \<Longrightarrow> comes_back k k'"
  by (auto simp: sys_alloc_pages_def Let_def split: if_splits bind_splits sum.splits intro!: back_keep)

lemma free_back: "sys_free_pages k = Some k' \<Longrightarrow> comes_back k k'"
  by (auto simp: sys_free_pages_def Let_def split: if_splits bind_splits intro!: back_keep)

lemma irq_back:
  "user_trap k \<Longrightarrow> sys_irq_register k = Some k' \<Longrightarrow> comes_back k k'" "sys_irq_ack k = Some k' \<Longrightarrow> comes_back k k'"
  using sys_irq_register_eq [of k]
  by (auto simp: Let_def sys_irq_ack_def split: if_splits bind_splits)

lemma spawn_back:
  assumes "sys_spawn uload cfg k = Some k'"
  shows "comes_back k k'"
proof -
  have "comes_back k (set_a0 v k2)" if "vm_only (advance k) k1" "upd_proc n g k1 = Some k2" for v n g and k1 k2 :: kernel
    using that(2) vm_only_kernel [OF that(1)] by (intro back_local) (auto simp: upd_proc_def split: bind_splits)
  then show ?thesis
    using assms by (auto simp: sys_spawn_def Let_def split: if_splits bind_splits sum.splits dest!: build_elf_space_only)
qed

lemma a0_back:
  assumes ut: "user_trap k" and n: "tf_a7 (frame k) \<in> a0_syscalls" and e: "handle_ecall uload cfg k = Some (Resume k')"
  shows "comes_back k k'"
  using n e unfolding a0_syscalls_def handle_ecall_def Let_def HANDLERS_def
  by (auto simp: sys_defs handlers_sys_call_def sys_getpid_def Let_def
      intro: send_back [OF ut] call_back [OF ut] wait_back [OF ut] reply_back [OF ut] map_back unmap_back alloc_back
        free_back irq_back(1) [OF ut] irq_back(2) spawn_back intro!: back_keep [where k' = "advance k\<lparr>frame := f\<rparr>" for f])

section \<open>Every kernel entry\<close>

text \<open>
  The entry returns to the process that made it, or to one whose saved context it loaded.  A
  \<open>SYS_YIELD\<close> writes its result into the frame after the switch, so there the context is loaded but
  for \<open>a0\<close>.
\<close>

definition entry_loaded :: "kernel \<Rightarrow> kernel \<Rightarrow> bool" where
  "entry_loaded k k' \<longleftrightarrow> current_pid k' = current_pid k \<or> loaded k'"

lemma entry_same [intro]: "current_pid k' = current_pid k \<Longrightarrow> entry_loaded k k'"
  by (simp add: entry_loaded_def)

lemma entry_switch [intro]: "loaded k' \<Longrightarrow> entry_loaded k k'"
  by (simp add: entry_loaded_def)

lemma loaded_rotate: "n < 8 \<Longrightarrow> length (procs k) = 8 \<Longrightarrow> loaded (rotate_to n k)"
  unfolding rotate_to_def by (rule loaded_resume) simp_all

lemma back_entry: "comes_back k k' \<Longrightarrow> entry_loaded k k'"
  by (auto simp: comes_back_def)

lemma switch_loaded: "length (procs k) = 8 \<Longrightarrow> switch_to n k = Some k' \<Longrightarrow> loaded k'"
  by (auto simp: switch_to_def loaded_def upd_proc_def get_proc_def idx_def split: bind_splits if_splits)

text \<open>\<open>SYS_RECEIVE\<close> answers at once in \<open>a0\<close> and \<open>a1\<close>, or saves the frame and blocks.\<close>

lemma receive_back:
  assumes ut: "user_trap k" and e: "sys_receive cfg k = Some k'"
  shows "current_pid k' = current_pid k \<and> same_but_args (frame k') (frame (advance k)) \<or>
    pr_state (procs k' ! unat (current_pid k)) = BlockedRecv \<and>
    pr_context (procs k' ! unat (current_pid k)) = frame (advance k) \<and> loaded k'"
proof -
  note U = user_trapD [OF ut]
  let ?b = "set_proc (unat (current_pid k)) (recv_entry (tf_a0 (frame k)) (procs k ! unat (current_pid k))) (advance k)"
  show ?thesis
  proof (cases "schedule cfg ?b (current_pid k) = Some k'")
    case True
    have "procs k' ! unat (current_pid k) = (procs ?b ! unat (current_pid k))\<lparr>pr_context := frame ?b\<rparr>"
      by (rule schedule_own [OF U(3,4) _ _ _ True]) (use U(4,7) in \<open>simp_all add: recv_entry_def\<close>)
    moreover have "loaded k'"
      by (rule schedule_loaded [OF U(3,4) _ _ True]) (use U(4,7) in \<open>simp_all add: recv_entry_def\<close>)
    ultimately show ?thesis using U(4,7) by (simp add: recv_entry_def)
  next
    case False
    then show ?thesis using sys_receive_eq [OF ut, of cfg] e
      by (auto simp: Let_def same_but_args_def advance_def split: if_splits option.splits)
  qed
qed

lemma receive_entry: "user_trap k \<Longrightarrow> sys_receive cfg k = Some k' \<Longrightarrow> entry_loaded k k'"
  using receive_back by blast

lemma yield_entry: "user_trap k \<Longrightarrow> sys_yield cfg k = Some k' \<Longrightarrow> current_pid k' = current_pid k \<or> fresh k'"
  using sys_yield_eq [of k cfg] user_trapD(7) [of k] next_ready_Some [of "states k" "unat (current_pid k)"]
  by (cases "next_ready (states k) (unat (current_pid k))") (auto dest: loaded_fresh [OF loaded_rotate, of _ "advance k"])

lemma preempt_entry: "user_trap k \<Longrightarrow> preempt k = Some k' \<Longrightarrow> entry_loaded k k'"
  using preempt_eq [of k] user_trapD(7) [of k] next_ready_Some [of "states k" "unat (current_pid k)"]
  by (cases "next_ready (states k) (unat (current_pid k))") (auto intro: loaded_rotate)

lemma leave_length:
  assumes "user_trap k" "release_slot (current_pid k) code k = Some k1" "wake_waiter (current_pid k) code k1 = Some k2"
  shows "length (procs k2) = 8"
  using leave_parked [OF assms(1), of code] assms(2,3) kernel_parkedD(1) by auto

lemma supervisor_or: "\<not> user_mode (f\<lparr>tf_sstatus := x OR 288\<rparr>)"
proof -
  have "bit ((x OR 288) AND 256) 8" by (simp add: bit_simps)
  then show ?thesis unfolding user_mode_def by (auto simp: push_bit_of_1)
qed

lemma exit_entry: "user_trap k \<Longrightarrow> sys_exit cfg k = Some k' \<Longrightarrow> entry_loaded k k'"
  by (auto simp: sys_exit_def Let_def return_to_kernel_def supervisor_or supervisor_or [where x = 0, simplified]
      split: bind_splits if_splits intro!: entry_switch dest: switch_loaded [OF leave_length])

lemma kill_entry: "user_trap k \<Longrightarrow> kill_current cfg code k = Some k' \<Longrightarrow> entry_loaded k k'"
  by (auto simp: kill_current_def Let_def return_to_kernel_def supervisor_or [where x = 0, simplified]
      split: bind_splits if_splits intro!: entry_switch dest: switch_loaded [OF leave_length])

lemma ecall_loaded:
  assumes ut: "user_trap k" and e: "handle_ecall uload cfg k = Some (Resume k')" and y: "tf_a7 (frame k) \<noteq> SYS_YIELD"
  shows "entry_loaded k k'"
proof (cases "tf_a7 (frame k) \<in> a0_syscalls")
  case True
  then show ?thesis using a0_back [OF ut _ e] back_entry by blast
next
  case False
  show ?thesis
  proof (cases "tf_a7 (frame k) \<le> SYS_MAX")
    case le: True
    have "tf_a7 (frame k) \<in> {0, 1, 3, 16}"
      using HANDLERS_nth(2) [OF le] False y unfolding a0_syscalls_def sys_defs by blast
    then show ?thesis
      using e by (auto simp: handle_ecall_def HANDLERS_def sys_defs sys_putchar_def sys_reboot_def Let_def
        intro: exit_entry [OF ut] receive_entry [OF ut] intro!: entry_same [where k' = "advance j" for j])
  next
    case False
    then show ?thesis using e by (auto simp: handle_ecall_def sys_unknown_def intro!: entry_same)
  qed
qed

lemma ecall_entry:
  assumes ut: "user_trap k" and e: "handle_ecall uload cfg k = Some (Resume k')"
  shows "current_pid k' = current_pid k \<or> fresh k'"
proof (cases "tf_a7 (frame k) = SYS_YIELD")
  case True
  then have "sys_yield cfg k = Some k'" using e by (simp add: handle_ecall_def HANDLERS_def sys_defs)
  then show ?thesis by (rule yield_entry [OF ut])
qed (use ecall_loaded [OF ut e] loaded_fresh in \<open>auto simp: entry_loaded_def\<close>)

section \<open>A process that is not running\<close>

lemma rotate_ok:
  assumes ut: "user_trap k" and n: "next_ready (states k) (unat (current_pid k)) = Some n"
  shows "syscall_ok k (rotate_to n k)"
proof -
  have "dispatched (procs k ! i) (procs (rotate_to n k) ! i)" if i: "i < 8" "i \<noteq> unat (current_pid k)" for i
    using next_ready_Some [OF n] next_ready_unrun(2) [OF ut n] i user_trapD(7) [OF ut]
    by (cases "i = n") (simp_all add: rotate_to_def dispatched_def states_nth)
  then show ?thesis using rotate_to_inv(1) [OF ut n] by (auto simp: syscall_ok_def peer_ok_def intro: peer_same)
qed

text \<open>
  A way to rest: \<open>rest\<close> says in which entries the process stays off the hart, \<open>hold\<close> how its entry
  may change from one step of the machine to the next, \<open>like\<close> how the frame it is resumed with
  relates to its saved context, and \<open>calm i\<close> which steps resume process \<open>i\<close> that way.  Whatever
  satisfies these laws is kept by every step of the machine.
\<close>

locale resting =
  fixes rest :: "process \<Rightarrow> bool" and hold :: "process \<Rightarrow> process \<Rightarrow> bool"
    and like :: "trap_frame \<Rightarrow> trap_frame \<Rightarrow> bool"
    and calm :: "(kernel \<Rightarrow> usize \<Rightarrow> u8) \<Rightarrow> kcfg \<Rightarrow> nat \<Rightarrow> kernel \<Rightarrow> kernel \<Rightarrow> bool"
  assumes rest_state: "rest p \<Longrightarrow> pr_state p \<noteq> Running"
    and hold_state: "hold p q \<Longrightarrow> rest q \<or> pr_state q = Running"
    and hold_trans: "hold p q \<Longrightarrow> hold q r \<Longrightarrow> hold p r"
    and hold_dispatched: "rest p \<Longrightarrow> dispatched p q \<Longrightarrow> hold p q"
    and hold_peer: "rest p \<Longrightarrow> peer_step c p q \<Longrightarrow> hold p q \<and> rest q"
    and hold_notify: "irq_notify irq w k = Some k' \<Longrightarrow> length (procs k) = 8 \<Longrightarrow> i < 8 \<Longrightarrow> rest (procs k ! i) \<Longrightarrow>
      rest (procs k' ! i) \<and> hold (procs k ! i) (procs k' ! i)"
    and like_refl: "like f f"
    and ecall_like: "user_trap k \<Longrightarrow> handle_ecall uload cfg k = Some (Resume k') \<Longrightarrow>
      calm uload cfg (unat (current_pid k')) k k' \<Longrightarrow> current_pid k' \<noteq> current_pid k \<Longrightarrow> user_mode (frame k') \<Longrightarrow>
      like (frame k') (pr_context (procs k' ! unat (current_pid k')))"
begin

text \<open>The entry is held, and the frame is like the context when the process runs.\<close>

definition kept :: "nat \<Rightarrow> kernel \<Rightarrow> kernel \<Rightarrow> bool" where
  "kept i k k' \<longleftrightarrow> hold (procs k ! i) (procs k' ! i) \<and>
     (pr_state (procs k' ! i) = Running \<longrightarrow> like (frame k') (pr_context (procs k' ! i)))"

lemma hold_refl: "rest p \<Longrightarrow> hold p p"
  by (rule hold_dispatched) (simp_all add: dispatched_def)

lemma kept_refl: "procs k' = procs k \<Longrightarrow> rest (procs k ! i) \<Longrightarrow> kept i k k'"
  using rest_state by (auto simp: kept_def hold_refl)

lemma hold_peer_ok: "rest p \<Longrightarrow> peer_ok c p q \<Longrightarrow> hold p q"
  unfolding peer_ok_def using hold_peer hold_dispatched hold_trans by blast

lemma user_entry_kept:
  assumes ut: "user_trap k" and s: "syscall_ok k k'" and i: "i < 8" "rest (procs k ! i)"
    and e: "current_pid k' \<noteq> current_pid k \<Longrightarrow> user_mode (frame k') \<Longrightarrow> unat (current_pid k') = i \<Longrightarrow>
      like (frame k') (pr_context (procs k' ! unat (current_pid k')))"
  shows "kept i k k'"
proof -
  have ne: "i \<noteq> unat (current_pid k)" using rest_state [OF i(2)] user_trapD(5) [OF ut] by auto
  note K = kernel_invD [OF syscall_okD(1) [OF s]]
  have "like (frame k') (pr_context (procs k' ! i))" if r: "pr_state (procs k' ! i) = Running"
  proof -
    have c: "i = unat (current_pid k')" using K(5) [OF i(1) r] .
    moreover have "user_mode (frame k')" using K(10) [OF _ i(1)] r by blast
    ultimately show ?thesis using e ne by metis
  qed
  then show ?thesis using hold_peer_ok [OF i(2) syscall_okD(2) [OF s i(1) ne]] by (simp add: kept_def)
qed

lemma loaded_entry_kept:
  assumes "user_trap k" "syscall_ok k k'" "entry_loaded k k'" "i < 8" "rest (procs k ! i)"
  shows "kept i k k'"
  using assms(3) by (intro user_entry_kept [OF assms(1,2,4,5)]) (auto simp: entry_loaded_def loaded_def like_refl)

lemma resume_kept:
  assumes "length (procs k) = 8" "n < 8" "pr_state (procs k ! n) = Ready" "rest (procs k ! i)" "i < 8"
  shows "kept i k (resume n k)"
  using assms by (cases "i = n") (auto simp: kept_def hold_refl rest_state like_refl dispatched_def intro!: hold_dispatched)

lemma idle_kept:
  assumes inv: "kernel_inv k" and i: "i < 8" "rest (procs k ! i)" and e: "schedule_from_idle k = Some k'"
  shows "kept i k k'"
proof (cases "find (\<lambda>i. is_ready (procs k ! i)) [1..<8]")
  case None
  then show ?thesis using schedule_from_idle_eq [OF kernel_invD(1) [OF inv]] e i(2) by (simp add: kept_refl)
next
  case (Some n)
  then have "n < 8" "pr_state (procs k ! n) = Ready" by (auto simp: is_ready_def dest!: find_Some_in)
  then show ?thesis
    using schedule_from_idle_eq [OF kernel_invD(1) [OF inv]] e Some resume_kept [OF kernel_invD(1) [OF inv] _ _ i(2,1)]
    by simp
qed

lemma preempt_kept:
  assumes ut: "user_trap k" and i: "i < 8" "rest (procs k ! i)" and e: "preempt k = Some k'"
  shows "kept i k k'"
proof (cases "next_ready (states k) (unat (current_pid k))")
  case None
  then show ?thesis using preempt_eq [OF ut] e i(2) by (simp add: kept_refl)
next
  case (Some n)
  then have "k' = rotate_to n k" using preempt_eq [OF ut] e by simp
  then show ?thesis using loaded_entry_kept [OF ut _ preempt_entry [OF ut e] i] rotate_ok [OF ut Some] by simp
qed

lemma external_kept:
  assumes inv: "kernel_inv k" and i: "i < 8" "rest (procs k ! i)" and e: "handle_external irq k = Some k'"
  shows "kept i k k'"
proof (cases "procs k' = procs k")
  case True
  then show ?thesis using i(2) by (rule kept_refl)
next
  case False
  obtain w where w: "irq_owner k irq = Some w" "unat w < 8" using irq_owner_lt [OF inv] by blast
  have irq: "irq \<noteq> 0" "w \<noteq> 0" using False e w(1) by (auto simp: handle_external_def Let_def split: if_splits)
  then have "0 < unat w" by (simp add: word_unat_eq_iff)
  moreover have "user_mode (frame k) \<longrightarrow> 0 < unat (current_pid k)"
    using inv user_trapD(3) [of k] by (simp add: user_trap_def)
  ultimately obtain p where n: "irq_notify irq w k = Some (set_proc (unat w) p k)" "kernel_inv (set_proc (unat w) p k)"
    using irq_notify_inv [OF inv _ w(2)] by blast
  note h = hold_notify [OF n(1) kernel_invD(1) [OF inv] i]
  show ?thesis
  proof (cases "user_mode (frame k)")
    case True
    then have "k' = set_proc (unat w) p k" using e n(1) w(1) irq by (simp add: handle_external_def user_mode_def)
    then show ?thesis using h rest_state by (auto simp: kept_def)
  next
    case False
    then have "schedule_from_idle (set_proc (unat w) p k) = Some k'"
      using e n(1) w(1) irq by (simp add: handle_external_def user_mode_def)
    then have "kept i (set_proc (unat w) p k) k'" using idle_kept [OF n(2) i(1)] h by blast
    then show ?thesis using h hold_trans by (auto simp: kept_def)
  qed
qed

lemma timer_kept:
  assumes inv: "kernel_inv k" and i: "i < 8" "rest (procs k ! i)" and e: "handle_timer t k = Some k'"
  shows "kept i k k'"
proof -
  let ?k = "k\<lparr>ticks := ticks k + 1, dev := (dev k)\<lparr>timer_cmp := t + TIMESLICE\<rparr>\<rparr>"
  have inv': "kernel_inv ?k" using inv by (simp add: kernel_inv_dev)
  have "kept i ?k k'"
  proof (cases "user_mode (frame k)")
    case True
    then show ?thesis
      using e preempt_kept [of ?k i k'] inv' i by (simp add: handle_timer_def Let_def user_mode_def user_trap_def)
  next
    case False
    then show ?thesis using e idle_kept [OF inv', of i k'] i by (simp add: handle_timer_def Let_def user_mode_def)
  qed
  then show ?thesis by (simp add: kept_def)
qed

lemma trap_kept:
  assumes inv: "kernel_inv k" and legal: "legal_event ev k" and e: "trap_handler uload cfg ev k = Some (Resume k')"
    and i: "i < 8" "rest (procs k ! i)" and c: "calm uload cfg i k k'"
  shows "kept i k k'"
proof (cases "drop_bit 63 (ev_scause ev) = 1")
  case True
  then consider "handle_timer (ev_time ev) k = Some k'" | "handle_external (ev_claim ev) k = Some k'" | "k' = k"
    using e by (auto simp: trap_handler_def Let_def split: if_splits)
  then show ?thesis
    using timer_kept [OF inv i] external_kept [OF inv i] kept_refl [OF refl i(2)] by cases auto
next
  case False
  show ?thesis
  proof (cases "trap_code ev = 8")
    case True
    then have ut: "user_trap k" using inv legal False by (simp add: user_trap_def legal_event_def is_ecall_def)
    have h: "handle_ecall uload cfg k = Some (Resume k')"
      using True False e by (simp add: trap_handler_def Let_def trap_code_def)
    show ?thesis using user_entry_kept [OF ut handle_ecall_ok(1) [OF ut h] i] ecall_like [OF ut h] c by blast
  next
    case fault: False
    then have k: "user_mode (frame k)" "kill_current cfg (128 + trap_code ev) k = Some k'"
      using False e by (auto simp: trap_handler_def Let_def trap_code_def user_mode_def split: if_splits)
    then have ut: "user_trap k" using inv by (simp add: user_trap_def)
    show ?thesis
      using loaded_entry_kept [OF ut _ kill_entry [OF ut k(2)] i] kill_current_ok [OF ut, of cfg "128 + trap_code ev"] k(2)
      by auto
  qed
qed

lemma machine_kept:
  assumes "machine_step uload cfg k k'" "kernel_inv k" "i < 8" "rest (procs k ! i)" "calm uload cfg i k k'"
  shows "kept i k k'"
  using assms(1)
proof (cases rule: machine_step.cases)
  case (trap ev)
  then show ?thesis using trap_kept assms(2-5) by blast
qed (use assms(4) in \<open>simp_all add: kept_refl\<close>)

lemma kept_more:
  assumes "kernel_inv k1" "kept i k k1" "pr_state (procs k1 ! i) \<noteq> Running" "machine_step uload cfg k1 k2"
    "i < 8" "calm uload cfg i k1 k2"
  shows "kernel_inv k2 \<and> kept i k k2"
proof -
  have "rest (procs k1 ! i)" using assms(2,3) hold_state by (auto simp: kept_def)
  then show ?thesis
    using machine_step_inv [OF assms(4,1)] machine_kept [OF assms(4,1,5) _ assms(6)] assms(2) hold_trans
    by (auto simp: kept_def)
qed

end

text \<open>
  The first way: any process that is ready or waits for a message, a reply or a child.  The
  completion of its own blocked call writes result registers.
\<close>

definition parked :: "process \<Rightarrow> bool" where
  "parked p \<longleftrightarrow> pr_state p \<in> {Ready, BlockedSend, BlockedCall, BlockedWait, BlockedRecv}"

definition held :: "process \<Rightarrow> process \<Rightarrow> bool" where
  "held p q \<longleftrightarrow> (parked q \<or> pr_state q = Running) \<and> same_but_args (pr_context q) (pr_context p) \<and>
     (pr_state p \<noteq> BlockedRecv \<longrightarrow> pr_state q \<noteq> BlockedRecv \<and> same_but_a0 (pr_context q) (pr_context p))"

lemma held_trans: "held p q \<Longrightarrow> held q r \<Longrightarrow> held p r"
  unfolding held_def using same_trans by blast

lemma held_dispatched: "parked p \<Longrightarrow> dispatched p q \<Longrightarrow> held p q"
  by (auto simp: dispatched_def held_def)

lemma held_peer: "parked p \<Longrightarrow> peer_step c p q \<Longrightarrow> held p q \<and> parked q"
  by (erule peer_step.cases) (auto simp: held_def parked_def same_but_a0_def same_but_args_def)

lemma notify_held:
  assumes "irq_notify irq w k = Some k'" "length (procs k) = 8" "i < 8" "parked (procs k ! i)"
  shows "parked (procs k' ! i) \<and> held (procs k ! i) (procs k' ! i)"
  using assms by (cases "i = unat w") (auto simp: irq_notify_def upd_proc_def get_proc_def idx_eq_Some held_def parked_def
    same_but_a0_def same_but_args_def nth_list_update split: bind_splits if_splits)

interpretation parking: resting parked held same_but_a0 "\<lambda>_ _ _ _ _. True"
proof (unfold_locales, goal_cases)
  case (1 p) then show ?case by (auto simp: parked_def)
next
  case (2 p q) then show ?case by (simp add: held_def)
next
  case (3 p q r) then show ?case by (rule held_trans)
next
  case (4 p q) then show ?case by (rule held_dispatched)
next
  case (5 p c q) then show ?case by (rule held_peer)
next
  case (6 irq w k k' i) then show ?case by (rule notify_held)
next
  case (8 k uload cfg k') then show ?case using ecall_entry [OF 8(1,2)] by (simp add: fresh_def)
qed simp

text \<open>
  The second way: a ready process.  Nobody has anything to write into its registers, so it is resumed
  with all of them, unless a \<open>SYS_YIELD\<close> of another process hands it the hart.
\<close>

definition queued :: "process \<Rightarrow> bool" where
  "queued p \<longleftrightarrow> pr_state p = Ready"

definition unwritten :: "process \<Rightarrow> process \<Rightarrow> bool" where
  "unwritten p q \<longleftrightarrow> pr_state q \<in> {Ready, Running} \<and> pr_context q = pr_context p"

definition yielded_to :: "(kernel \<Rightarrow> usize \<Rightarrow> u8) \<Rightarrow> kcfg \<Rightarrow> nat \<Rightarrow> kernel \<Rightarrow> kernel \<Rightarrow> bool" where
  "yielded_to uload cfg i k k' \<longleftrightarrow> tf_a7 (frame k) = SYS_YIELD \<and> handle_ecall uload cfg k = Some (Resume k') \<and>
     unat (current_pid k') = i"

lemma notify_queued:
  assumes "irq_notify irq w k = Some k'" "length (procs k) = 8" "i < 8" "queued (procs k ! i)"
  shows "queued (procs k' ! i) \<and> unwritten (procs k ! i) (procs k' ! i)"
  using assms by (cases "i = unat w") (auto simp: irq_notify_def upd_proc_def get_proc_def idx_eq_Some queued_def
    unwritten_def nth_list_update split: bind_splits if_splits)

lemma queued_peer: "queued p \<Longrightarrow> peer_step c p q \<Longrightarrow> unwritten p q \<and> queued q"
  by (erule peer_step.cases) (auto simp: queued_def unwritten_def)

interpretation queueing: resting queued unwritten "(=)" "\<lambda>uload cfg i k k'. \<not> yielded_to uload cfg i k k'"
proof (unfold_locales, goal_cases)
  case (1 p) then show ?case by (simp add: queued_def)
next
  case (2 p q) then show ?case by (simp add: queued_def unwritten_def)
next
  case (3 p q r) then show ?case by (simp add: unwritten_def)
next
  case (4 p q) then show ?case by (auto simp: queued_def unwritten_def dispatched_def)
next
  case (5 p c q) then show ?case by (rule queued_peer)
next
  case (6 irq w k k' i) then show ?case by (rule notify_queued)
next
  case (8 k uload cfg k')
  then have "entry_loaded k k'" using ecall_loaded [OF 8(1,2)] by (simp add: yielded_to_def)
  then show ?case using 8(4,5) by (simp add: entry_loaded_def loaded_def)
qed simp

text \<open>The machine runs and process \<open>i\<close> does not, up to the last state at most.\<close>

inductive parked_run :: "(kernel \<Rightarrow> usize \<Rightarrow> u8) \<Rightarrow> kcfg \<Rightarrow> nat \<Rightarrow> kernel \<Rightarrow> kernel \<Rightarrow> bool" for uload cfg i k where
  parked_here: "parked_run uload cfg i k k"
| parked_more: "parked_run uload cfg i k k1 \<Longrightarrow> pr_state (procs k1 ! i) \<noteq> Running \<Longrightarrow> machine_step uload cfg k1 k2 \<Longrightarrow>
    parked_run uload cfg i k k2"

inductive_cases parked_runE: "parked_run uload cfg i k k'"

lemma parked_run_held:
  assumes "parked_run uload cfg i k k'" "kernel_inv k" "i < 8" "parked (procs k ! i)"
  shows "kernel_inv k' \<and> parking.kept i k k'"
  using assms(1)
proof (induction rule: parked_run.induct)
  case parked_here
  then show ?case using assms(2,4) by (simp add: parking.kept_refl)
next
  case (parked_more k1 k2)
  then show ?case using parking.kept_more [OF _ _ parked_more(2,3) assms(3)] by blast
qed

lemma parked_run_frame:
  assumes r: "parked_run uload cfg i k k'" and "kernel_inv k" "i < 8" "parked (procs k ! i)"
    and u: "user_mode (frame k')" "unat (current_pid k') = i"
  shows "same_but_args (frame k') (pr_context (procs k ! i))"
    "pr_state (procs k ! i) \<noteq> BlockedRecv \<Longrightarrow> same_but_a0 (frame k') (pr_context (procs k ! i))"
proof -
  have h: "kernel_inv k'" "parking.kept i k k'" using parked_run_held [OF assms(1-4)] by blast+
  have "pr_state (procs k' ! i) = Running" using kernel_invD(9) [OF h(1)] u by simp
  then have f: "same_but_a0 (frame k') (pr_context (procs k' ! i))" using h(2) by (simp add: parking.kept_def)
  have g: "held (procs k ! i) (procs k' ! i)" using h(2) by (simp add: parking.kept_def)
  show "same_but_args (frame k') (pr_context (procs k ! i))"
    using same_a0_args [OF f] g same_trans(2) unfolding held_def by blast
  show "pr_state (procs k ! i) \<noteq> BlockedRecv \<Longrightarrow> same_but_a0 (frame k') (pr_context (procs k ! i))"
    using f g same_trans(1) unfolding held_def by blast
qed

text \<open>The same, and no \<open>SYS_YIELD\<close> hands process \<open>i\<close> the hart: it gets it from the timer or from a blocking or exit.\<close>

inductive unyielded_run :: "(kernel \<Rightarrow> usize \<Rightarrow> u8) \<Rightarrow> kcfg \<Rightarrow> nat \<Rightarrow> kernel \<Rightarrow> kernel \<Rightarrow> bool" for uload cfg i k where
  unyielded_here: "unyielded_run uload cfg i k k"
| unyielded_more: "unyielded_run uload cfg i k k1 \<Longrightarrow> pr_state (procs k1 ! i) \<noteq> Running \<Longrightarrow>
    machine_step uload cfg k1 k2 \<Longrightarrow> \<not> yielded_to uload cfg i k1 k2 \<Longrightarrow> unyielded_run uload cfg i k k2"

lemma unyielded_parked: "unyielded_run uload cfg i k k' \<Longrightarrow> parked_run uload cfg i k k'"
  by (induction rule: unyielded_run.induct) (auto intro: parked_run.intros)

lemma unyielded_run_kept:
  assumes "unyielded_run uload cfg i k k'" "kernel_inv k" "i < 8" "queued (procs k ! i)"
  shows "kernel_inv k' \<and> queueing.kept i k k'"
  using assms(1)
proof (induction rule: unyielded_run.induct)
  case unyielded_here
  then show ?case using assms(2,4) by (simp add: queueing.kept_refl)
next
  case (unyielded_more k1 k2)
  then show ?case using queueing.kept_more [OF _ _ unyielded_more(2,3) assms(3) unyielded_more(4)] by blast
qed

lemma unyielded_run_frame:
  assumes "unyielded_run uload cfg i k k'" "kernel_inv k" "i < 8" "pr_state (procs k ! i) = Ready"
    and u: "user_mode (frame k')" "unat (current_pid k') = i"
  shows "frame k' = pr_context (procs k ! i)"
proof -
  have h: "kernel_inv k'" "queueing.kept i k k'"
    using unyielded_run_kept [OF assms(1-3)] assms(4) by (simp_all add: queued_def)
  have "pr_state (procs k' ! i) = Running" using kernel_invD(9) [OF h(1)] u by simp
  then show ?thesis using h(2) by (simp add: queueing.kept_def unwritten_def)
qed

lemma parked_run_running: "parked_run uload cfg i k k' \<Longrightarrow> pr_state (procs k ! i) = Running \<Longrightarrow> k' = k"
  by (induction rule: parked_run.induct) simp_all

text \<open>What a call finds in its registers when its process runs again.\<close>

lemma syscall_returns:
  assumes "user_trap k" "tf_a7 (frame k) \<in> a0_syscalls" "handle_ecall uload cfg k = Some (Resume k1)"
    and "parked_run uload cfg (unat (current_pid k)) k1 k2" "user_mode (frame k2)" "current_pid k2 = current_pid k"
  shows "\<exists>v. frame k2 = returns_from (frame k) v"
proof -
  let ?c = "unat (current_pid k)"
  have inv: "kernel_inv k1" using handle_ecall_ok(1) [OF assms(1,3)] by (rule syscall_okD(1))
  note c8 = user_trapD(4) [OF assms(1)]
  from a0_back [OF assms(1-3)] show ?thesis unfolding comes_back_def
  proof (elim disjE conjE exE)
    fix v assume k1: "current_pid k1 = current_pid k" "frame k1 = returns_from (frame k) v"
    then have "user_mode (frame k1)" using user_trapD(2) [OF assms(1)] by (simp add: returns_from_def)
    then have "k2 = k1" using parked_run_running [OF assms(4)] kernel_invD(9) [OF inv] k1(1) by simp
    then show ?thesis using k1(2) by blast
  next
    assume "pr_state (procs k1 ! ?c) \<in> {BlockedSend, BlockedCall, BlockedWait}"
      "pr_context (procs k1 ! ?c) = (frame k)\<lparr>tf_sepc := tf_sepc (frame k) + 4\<rparr>"
    then have "same_but_a0 (frame k2) ((frame k)\<lparr>tf_sepc := tf_sepc (frame k) + 4\<rparr>)"
      using parked_run_frame(2) [OF assms(4) inv c8 _ assms(5)] assms(6) by (auto simp: parked_def)
    then show ?thesis by (auto simp: same_but_a0_upd returns_from_def)
  qed
qed

lemma receive_returns:
  assumes "user_trap k" "sys_receive cfg k = Some k1" "kernel_inv k1"
    and "parked_run uload cfg (unat (current_pid k)) k1 k2" "user_mode (frame k2)" "current_pid k2 = current_pid k"
  shows "same_but_args (frame k2) (frame (advance k))"
  using receive_back [OF assms(1,2)]
proof (elim disjE conjE)
  assume k1: "current_pid k1 = current_pid k" "same_but_args (frame k1) (frame (advance k))"
  have "user_mode (frame k1)" using same_mode [OF k1(2)] user_trapD(2) [OF assms(1)] by simp
  then have "k2 = k1" using parked_run_running [OF assms(4)] kernel_invD(9) [OF assms(3)] k1(1) by simp
  then show ?thesis using k1(2) by simp
next
  assume "pr_state (procs k1 ! unat (current_pid k)) = BlockedRecv"
    "pr_context (procs k1 ! unat (current_pid k)) = frame (advance k)"
  then show ?thesis
    using parked_run_frame(1) [OF assms(4,3) user_trapD(4) [OF assms(1)] _ assms(5)] assms(6) by (simp add: parked_def)
qed

section \<open>A caller waits for its server\<close>

text \<open>While the server does not run, nothing answers the call; an interrupt may be recorded for the caller.\<close>

definition same_call :: "process \<Rightarrow> process \<Rightarrow> bool" where
  "same_call p q \<longleftrightarrow> pr_state q = pr_state p \<and> pr_ipc_target q = pr_ipc_target p \<and> pr_context q = pr_context p"

lemma same_call_refl [simp]: "same_call p p"
  by (simp add: same_call_def)

lemma call_syscall:
  assumes "syscall_ok k k'" "i < 8" "i \<noteq> unat (current_pid k)" "pr_state (procs k ! i) = BlockedCall"
    "pr_ipc_target (procs k ! i) \<noteq> current_pid k"
  shows "same_call (procs k ! i) (procs k' ! i)"
proof -
  obtain q where q: "peer_step (current_pid k) (procs k ! i) q" "dispatched q (procs k' ! i)"
    using syscall_okD(2) [OF assms(1-3)] unfolding peer_ok_def by blast
  have "q = procs k ! i" using q(1) assms(4,5) by (cases rule: peer_step.cases) auto
  then show ?thesis using q(2) assms(4) by (auto simp: dispatched_def)
qed

lemma call_idle:
  assumes "length (procs k) = 8" "schedule_from_idle k = Some k'" "pr_state (procs k ! i) = BlockedCall"
  shows "procs k' ! i = procs k ! i"
proof (cases "find (\<lambda>i. is_ready (procs k ! i)) [1..<8]")
  case (Some n)
  then have "i \<noteq> n" using assms(3) by (auto simp: is_ready_def dest!: find_Some_in)
  then show ?thesis using schedule_from_idle_eq [OF assms(1)] assms(2) Some by auto
qed (use schedule_from_idle_eq [OF assms(1)] assms(2) in auto)

lemma call_external:
  assumes inv: "kernel_inv k" and i: "i < 8" "pr_state (procs k ! i) = BlockedCall" and e: "handle_external irq k = Some k'"
  shows "same_call (procs k ! i) (procs k' ! i)"
proof -
  have "same_call (procs k ! i) (procs j ! i) \<and> length (procs j) = 8" if "irq_notify irq w k = Some j" for w j
    using that i kernel_invD(1) [OF inv]
    by (cases "i = unat w") (auto simp: irq_notify_def upd_proc_def get_proc_def idx_eq_Some same_call_def nth_list_update
        split: bind_splits if_splits)
  note N = this
  show ?thesis
    using e call_idle [where i = i and k' = k'] N i(2)
    by (auto simp: handle_external_def Let_def same_call_def split: if_splits bind_splits) metis+
qed

lemma call_timer:
  assumes inv: "kernel_inv k" and i: "i < 8" "pr_state (procs k ! i) = BlockedCall" and e: "handle_timer t k = Some k'"
  shows "procs k' ! i = procs k ! i"
proof -
  let ?k = "k\<lparr>ticks := ticks k + 1, dev := (dev k)\<lparr>timer_cmp := t + TIMESLICE\<rparr>\<rparr>"
  have inv': "kernel_inv ?k" using inv by (simp add: kernel_inv_dev)
  show ?thesis
  proof (cases "user_mode (frame k)")
    case True
    then have ut: "user_trap ?k" using inv' by (simp add: user_trap_def)
    have p: "preempt ?k = Some k'" using e True by (simp add: handle_timer_def Let_def user_mode_def)
    have ne: "i \<noteq> unat (current_pid k)" using user_trapD(5) [OF ut] i(2) by auto
    show ?thesis
    proof (cases "next_ready (states ?k) (unat (current_pid ?k))")
      case (Some n)
      have "n \<noteq> i" using next_ready_Some [OF Some] i states_nth [of n ?k] user_trapD(7) [OF ut] by auto
      then show ?thesis using preempt_eq [OF ut] p Some ne by (simp add: rotate_to_def)
    qed (use preempt_eq [OF ut] p in simp)
  next
    case False
    then show ?thesis using call_idle [OF kernel_invD(1) [OF inv']] e i(2) by (simp add: handle_timer_def Let_def user_mode_def)
  qed
qed

lemma call_step:
  assumes "machine_step uload cfg k k'" "kernel_inv k" "i < 8" "pr_state (procs k ! i) = BlockedCall"
    and srv: "pr_state (procs k ! unat (pr_ipc_target (procs k ! i))) \<noteq> Running"
  shows "same_call (procs k ! i) (procs k' ! i)"
  using assms(1)
proof (cases rule: machine_step.cases)
  case (trap ev)
  show ?thesis
  proof (cases "drop_bit 63 (ev_scause ev) = 1")
    case True
    then show ?thesis using trap(2) call_timer [OF assms(2-4)] call_external [OF assms(2-4)]
      by (auto simp: trap_handler_def Let_def split: if_splits)
  next
    case False
    have go: ?thesis if "user_trap k" "syscall_ok k k'"
    proof (rule call_syscall [OF that(2) assms(3) _ assms(4)])
      show "i \<noteq> unat (current_pid k)" "pr_ipc_target (procs k ! i) \<noteq> current_pid k"
        using user_trapD(5) [OF that(1)] assms(4) srv by auto
    qed
    show ?thesis
    proof (cases "trap_code ev = 8")
      case True
      then have ut: "user_trap k"
        using assms(2) trap(1) False by (simp add: user_trap_def legal_event_def is_ecall_def)
      have "handle_ecall uload cfg k = Some (Resume k')"
        using True False trap(2) by (simp add: trap_handler_def Let_def trap_code_def)
      then show ?thesis using go [OF ut] handle_ecall_ok(1) [OF ut] by blast
    next
      case fault: False
      then have k: "user_mode (frame k)" "kill_current cfg (128 + trap_code ev) k = Some k'"
        using False trap(2) by (auto simp: trap_handler_def Let_def trap_code_def user_mode_def split: if_splits)
      then have ut: "user_trap k" using assms(2) by (simp add: user_trap_def)
      show ?thesis using go [OF ut] kill_current_ok [OF ut, of cfg "128 + trap_code ev"] k(2) by auto
    qed
  qed
qed simp_all

lemma call_waits:
  assumes "parked_run uload cfg t k k'" "kernel_inv k" "c < 8" "pr_state (procs k ! c) = BlockedCall"
    and "unat (pr_ipc_target (procs k ! c)) = t"
  shows "kernel_inv k' \<and> same_call (procs k ! c) (procs k' ! c)"
  using assms(1)
proof (induction rule: parked_run.induct)
  case (parked_more k1 k2)
  then have "pr_state (procs k1 ! c) = BlockedCall" "unat (pr_ipc_target (procs k1 ! c)) = t"
    using assms(4,5) by (simp_all add: same_call_def)
  then show ?case
    using parked_more call_step [OF parked_more(3) _ assms(3)] machine_step_inv [OF parked_more(3)]
    by (auto simp: same_call_def)
qed (use assms(2) in simp)

section \<open>Properties\<close>

text \<open>
  C31. A preempted process continues where it was: when a timer interrupt stops a process and the
  machine then runs in any way, with any syscalls of other processes, interrupts and faults, the next
  time the process runs it has the registers and the program counter it was interrupted with, except
  possibly \<open>a0\<close>, which a \<open>SYS_YIELD\<close> that hands the hart to it overwrites with zero.
\<close>

theorem preempted_resumes:
  assumes "user_trap k" "handle_timer time k = Some k1"
    and "parked_run uload cfg (unat (current_pid k)) k1 k2"
    and "user_mode (frame k2)" "current_pid k2 = current_pid k"
  shows "\<exists>v. frame k2 = (frame k)\<lparr>tf_a0 := v\<rparr>"
proof -
  let ?k = "k\<lparr>ticks := ticks k + 1, dev := (dev k)\<lparr>timer_cmp := time + TIMESLICE\<rparr>\<rparr>" and ?c = "unat (current_pid k)"
  have ut: "user_trap ?k" using assms(1) by (simp add: user_trap_def kernel_inv_dev)
  note U = user_trapD [OF ut]
  have p: "preempt ?k = Some k1" using assms(2) U(2) by (simp add: handle_timer_def Let_def user_mode_def)
  have inv: "kernel_inv k1"
    using handle_timer_inv [OF user_trapD(1) [OF assms(1)], of time] assms(2) by auto
  show ?thesis
  proof (cases "next_ready (states ?k) ?c")
    case None
    then have k1: "k1 = ?k" using preempt_eq [OF ut] p by simp
    then have "k2 = ?k" using parked_run_running [OF assms(3)] U(5) by simp
    then show ?thesis by (intro exI [of _ "tf_a0 (frame k)"]) simp
  next
    case (Some n)
    then have "k1 = rotate_to n ?k" using preempt_eq [OF ut] p by simp
    then have "pr_state (procs k1 ! ?c) = Ready \<and> pr_context (procs k1 ! ?c) = frame k"
      using next_ready_unrun(2) [OF ut] Some U(4,7) by (simp add: rotate_to_def)
    then show ?thesis
      using parked_run_frame(2) [OF assms(3) inv _ _ assms(4)] assms(5) U(4)
      by (auto simp: parked_def same_but_a0_upd)
  qed
qed

lemma timer_rotate:
  assumes "user_trap k" "next_ready (states k) (unat (current_pid k)) = Some n"
  shows "\<exists>k'. handle_timer t k = Some k' \<and> user_trap k' \<and> current_pid k' = of_nat n \<and>
    states k' = (states k)[unat (current_pid k) := Ready, n := Running] \<and>
    pr_state (procs k' ! unat (current_pid k)) = Ready"
proof -
  let ?k = "k\<lparr>ticks := ticks k + 1, dev := (dev k)\<lparr>timer_cmp := t + TIMESLICE\<rparr>\<rparr>"
  have ut: "user_trap ?k" using assms(1) by (simp add: user_trap_def kernel_inv_dev)
  have st: "states ?k = states k" by (simp add: states_def)
  have n: "next_ready (states ?k) (unat (current_pid ?k)) = Some n" using assms(2) by (simp add: st)
  note U = user_trapD [OF ut]
  have "handle_timer t k = Some (rotate_to n ?k)"
    using preempt_eq [OF ut] n U(2) by (simp add: handle_timer_def Let_def user_mode_def)
  moreover have "user_trap (rotate_to n ?k)" using rotate_to_inv [OF ut n] by (simp add: user_trap_def)
  moreover have "states (rotate_to n ?k) = (states k)[unat (current_pid k) := Ready, n := Running]"
    using U(4,7) by (simp add: states_def rotate_to_def map_update)
  moreover have "pr_state (procs (rotate_to n ?k) ! unat (current_pid k)) = Ready"
    using next_ready_unrun(2) [OF ut n] U(4,7) by (simp add: rotate_to_def)
  ultimately show ?thesis by (simp add: rotate_to_def)
qed

theorem preempted_resumes_witness:
  "\<exists>k1 k2 v. handle_timer 5 (ipc_demo Ready 2) = Some k1 \<and> current_pid k1 = 2 \<and>
     parked_run (\<lambda>_ _. 0) demo_cfg 1 k1 k2 \<and> current_pid k2 = 1 \<and>
     frame k2 = (frame (ipc_demo Ready 2))\<lparr>tf_a0 := v\<rparr>"
proof -
  let ?k = "ipc_demo Ready 2"
  note F = ipc_demo_facts [of Ready 2, simplified]
  have c: "unat (current_pid ?k) = 1" by (simp add: F)
  have n: "next_ready (states ?k) (unat (current_pid ?k)) = Some 2" unfolding F(6) c by code_simp
  obtain k1 where k1: "handle_timer 5 ?k = Some k1" "user_trap k1" "current_pid k1 = 2"
    "states k1 = [Free, Ready, Running, Free, Free, Free, Free, Free]" "pr_state (procs k1 ! 1) = Ready"
    using timer_rotate [OF F(1) n, of 5] unfolding F(6) c by auto
  have c1: "unat (current_pid k1) = 2" by (simp add: k1)
  have n1: "next_ready (states k1) (unat (current_pid k1)) = Some 1" unfolding k1(4) c1 by code_simp
  obtain k2 where k2: "handle_timer 9 k1 = Some k2" "user_trap k2" "current_pid k2 = 1"
    using timer_rotate [OF k1(2) n1, of 9] by auto
  let ?ev = "\<lparr>ev_scause = 0x8000000000000005, ev_claim = 0, ev_time = 9\<rparr>"
  have "machine_step (\<lambda>_ _. 0) demo_cfg k1 k2"
    by (rule machine_step.trap [of ?ev]) (use k2(1) in \<open>simp_all add: legal_event_def is_ecall_def trap_handler_def\<close>)
  then have r: "parked_run (\<lambda>_ _. 0) demo_cfg 1 k1 k2"
    using k1(5) by (intro parked_more [OF parked_here]) simp_all
  then have "\<exists>v. frame k2 = (frame ?k)\<lparr>tf_a0 := v\<rparr>"
    using preempted_resumes [OF F(1) k1(1), of _ demo_cfg k2] user_trapD(2) [OF k2(2)] k2(3) F(2) by simp
  then show ?thesis using k1 k2 r by blast
qed

end
