(* ===== verification/Userlib.thy ===== *)
theory Userlib
  imports Contexts
begin

unbundle bit_operations_syntax

text \<open>
  \<open>userspace/hello/src/gooseos.rs\<close> and \<open>userspace/hello/src/main.rs\<close>: the library through which Rust
  programs call the kernel, and the program over it.  A wrapper is one inline assembly block around an
  \<open>ecall\<close>: it loads registers, traps, and reads the registers it declares as outputs.  The compiler
  relies on every register that is not an output being unchanged; the theorems show for which wrappers
  the kernel keeps that promise, and that each wrapper reaches the handler it is written for.

  The library mirrors the syscall numbers of the kernel in its own constants.
\<close>

section \<open>Syscall numbers\<close>

definition lib_SYS_PUTCHAR :: usize where "lib_SYS_PUTCHAR = 0"
definition lib_SYS_EXIT :: usize where "lib_SYS_EXIT = 1"
definition lib_SYS_SEND :: usize where "lib_SYS_SEND = 2"
definition lib_SYS_RECEIVE :: usize where "lib_SYS_RECEIVE = 3"
definition lib_SYS_CALL :: usize where "lib_SYS_CALL = 4"
definition lib_SYS_REPLY :: usize where "lib_SYS_REPLY = 5"
definition lib_SYS_MAP :: usize where "lib_SYS_MAP = 6"
definition lib_SYS_UNMAP :: usize where "lib_SYS_UNMAP = 7"
definition lib_SYS_ALLOC_PAGES :: usize where "lib_SYS_ALLOC_PAGES = 8"
definition lib_SYS_FREE_PAGES :: usize where "lib_SYS_FREE_PAGES = 9"
definition lib_SYS_SPAWN :: usize where "lib_SYS_SPAWN = 10"
definition lib_SYS_WAIT :: usize where "lib_SYS_WAIT = 11"
definition lib_SYS_GETPID :: usize where "lib_SYS_GETPID = 12"
definition lib_SYS_YIELD :: usize where "lib_SYS_YIELD = 13"
definition lib_SYS_IRQ_REGISTER :: usize where "lib_SYS_IRQ_REGISTER = 14"
definition lib_SYS_IRQ_ACK :: usize where "lib_SYS_IRQ_ACK = 15"
definition lib_SYS_REBOOT :: usize where "lib_SYS_REBOOT = 16"
definition lib_ERR :: usize where "lib_ERR = - 1"

lemmas lib_defs =
  lib_SYS_PUTCHAR_def lib_SYS_EXIT_def lib_SYS_SEND_def lib_SYS_RECEIVE_def lib_SYS_CALL_def lib_SYS_REPLY_def
  lib_SYS_MAP_def lib_SYS_UNMAP_def lib_SYS_ALLOC_PAGES_def lib_SYS_FREE_PAGES_def lib_SYS_SPAWN_def
  lib_SYS_WAIT_def lib_SYS_GETPID_def lib_SYS_YIELD_def lib_SYS_IRQ_REGISTER_def lib_SYS_IRQ_ACK_def
  lib_SYS_REBOOT_def

section \<open>Inline assembly\<close>

datatype reg = A0 | A1 | A2 | A3 | A4 | A5 | A6 | A7 | T0 | T1 | T2 | T3 | S0 | S1 | S2

fun get_reg :: "reg \<Rightarrow> trap_frame \<Rightarrow> usize" where
  "get_reg A0 f = tf_a0 f"
| "get_reg A1 f = tf_a1 f"
| "get_reg A2 f = tf_a2 f"
| "get_reg A3 f = tf_a3 f"
| "get_reg A4 f = tf_a4 f"
| "get_reg A5 f = tf_a5 f"
| "get_reg A6 f = tf_a6 f"
| "get_reg A7 f = tf_a7 f"
| "get_reg T0 f = tf_t0 f"
| "get_reg T1 f = tf_t1 f"
| "get_reg T2 f = tf_t2 f"
| "get_reg T3 f = tf_t3 f"
| "get_reg S0 f = tf_s0 f"
| "get_reg S1 f = tf_s1 f"
| "get_reg S2 f = tf_s2 f"

fun set_reg :: "reg \<times> usize \<Rightarrow> trap_frame \<Rightarrow> trap_frame" where
  "set_reg (A0, v) f = f\<lparr>tf_a0 := v\<rparr>"
| "set_reg (A1, v) f = f\<lparr>tf_a1 := v\<rparr>"
| "set_reg (A2, v) f = f\<lparr>tf_a2 := v\<rparr>"
| "set_reg (A3, v) f = f\<lparr>tf_a3 := v\<rparr>"
| "set_reg (A4, v) f = f\<lparr>tf_a4 := v\<rparr>"
| "set_reg (A5, v) f = f\<lparr>tf_a5 := v\<rparr>"
| "set_reg (A6, v) f = f\<lparr>tf_a6 := v\<rparr>"
| "set_reg (A7, v) f = f\<lparr>tf_a7 := v\<rparr>"
| "set_reg (T0, v) f = f\<lparr>tf_t0 := v\<rparr>"
| "set_reg (T1, v) f = f\<lparr>tf_t1 := v\<rparr>"
| "set_reg (T2, v) f = f\<lparr>tf_t2 := v\<rparr>"
| "set_reg (T3, v) f = f\<lparr>tf_t3 := v\<rparr>"
| "set_reg (S0, v) f = f\<lparr>tf_s0 := v\<rparr>"
| "set_reg (S1, v) f = f\<lparr>tf_s1 := v\<rparr>"
| "set_reg (S2, v) f = f\<lparr>tf_s2 := v\<rparr>"

text \<open>The operands of a block: what it loads, what it declares as written, and the value it returns.\<close>

record asm_block =
  ins :: "(reg \<times> usize) list"
  outs :: "reg list"

record 'r wrapper = asm_block +
  ret :: "trap_frame \<Rightarrow> 'r"

definition enter :: "'z asm_block_scheme \<Rightarrow> kernel \<Rightarrow> kernel" where
  "enter b k = k\<lparr>frame := fold set_reg (ins b) (frame k)\<rparr>"

definition unit_result :: "trap_frame \<Rightarrow> unit + unit" where
  "unit_result f = (if tf_a0 f = lib_ERR then Inl () else Inr ())"

definition value_result :: "trap_frame \<Rightarrow> unit + usize" where
  "value_result f = (if tf_a0 f = lib_ERR then Inl () else Inr (tf_a0 f))"

section \<open>Wrappers\<close>

definition u_putchar :: "u8 \<Rightarrow> unit wrapper" where
  "u_putchar c = \<lparr>ins = [(A7, lib_SYS_PUTCHAR), (A0, ucast c)], outs = [], ret = (\<lambda>_. ())\<rparr>"

definition u_exit :: "usize \<Rightarrow> unit wrapper" where
  "u_exit code = \<lparr>ins = [(A7, lib_SYS_EXIT), (A0, code)], outs = [], ret = (\<lambda>_. ())\<rparr>"

definition u_send :: "usize \<Rightarrow> usize \<Rightarrow> (unit + unit) wrapper" where
  "u_send target msg = \<lparr>ins = [(A7, lib_SYS_SEND), (A0, target), (A1, msg)], outs = [A0], ret = unit_result\<rparr>"

definition u_receive :: "usize \<Rightarrow> (usize \<times> usize) wrapper" where
  "u_receive from = \<lparr>ins = [(A7, lib_SYS_RECEIVE), (A0, from)], outs = [A0, A1], ret = (\<lambda>f. (tf_a0 f, tf_a1 f))\<rparr>"

definition u_call :: "usize \<Rightarrow> usize \<Rightarrow> (unit + usize) wrapper" where
  "u_call target msg = \<lparr>ins = [(A7, lib_SYS_CALL), (A0, target), (A1, msg)], outs = [A0], ret = value_result\<rparr>"

definition u_reply :: "usize \<Rightarrow> usize \<Rightarrow> (unit + unit) wrapper" where
  "u_reply target val = \<lparr>ins = [(A7, lib_SYS_REPLY), (A0, target), (A1, val)], outs = [A0], ret = unit_result\<rparr>"

definition u_map_page :: "usize \<Rightarrow> usize \<Rightarrow> usize \<Rightarrow> (unit + unit) wrapper" where
  "u_map_page phys virt flags =
     \<lparr>ins = [(A7, lib_SYS_MAP), (A0, phys), (A1, virt), (A2, flags)], outs = [A0], ret = unit_result\<rparr>"

definition u_unmap_page :: "usize \<Rightarrow> (unit + unit) wrapper" where
  "u_unmap_page virt = \<lparr>ins = [(A7, lib_SYS_UNMAP), (A0, virt)], outs = [A0], ret = unit_result\<rparr>"

definition u_alloc_pages :: "usize \<Rightarrow> (unit + usize) wrapper" where
  "u_alloc_pages count = \<lparr>ins = [(A7, lib_SYS_ALLOC_PAGES), (A0, count)], outs = [A0], ret = value_result\<rparr>"

definition u_free_pages :: "usize \<Rightarrow> usize \<Rightarrow> (unit + unit) wrapper" where
  "u_free_pages addr count =
     \<lparr>ins = [(A7, lib_SYS_FREE_PAGES), (A0, addr), (A1, count)], outs = [A0], ret = unit_result\<rparr>"

definition u_spawn :: "usize \<Rightarrow> usize \<Rightarrow> (unit + usize) wrapper" where
  "u_spawn elf_ptr elf_len =
     \<lparr>ins = [(A7, lib_SYS_SPAWN), (A0, elf_ptr), (A1, elf_len)], outs = [A0], ret = value_result\<rparr>"

definition u_wait :: "usize \<Rightarrow> (unit + usize) wrapper" where
  "u_wait child_pid = \<lparr>ins = [(A7, lib_SYS_WAIT), (A0, child_pid)], outs = [A0], ret = value_result\<rparr>"

definition u_getpid :: "usize wrapper" where
  "u_getpid = \<lparr>ins = [(A7, lib_SYS_GETPID)], outs = [A0], ret = tf_a0\<rparr>"

definition u_yield :: "unit wrapper" where
  "u_yield = \<lparr>ins = [(A7, lib_SYS_YIELD)], outs = [], ret = (\<lambda>_. ())\<rparr>"

definition u_irq_register :: "u32 \<Rightarrow> (unit + unit) wrapper" where
  "u_irq_register irq = \<lparr>ins = [(A7, lib_SYS_IRQ_REGISTER), (A0, ucast irq)], outs = [A0], ret = unit_result\<rparr>"

definition u_irq_ack :: "(unit + unit) wrapper" where
  "u_irq_ack = \<lparr>ins = [(A7, lib_SYS_IRQ_ACK)], outs = [A0], ret = unit_result\<rparr>"

definition u_reboot :: "unit wrapper" where
  "u_reboot = \<lparr>ins = [(A7, lib_SYS_REBOOT)], outs = [], ret = (\<lambda>_. ())\<rparr>"

lemmas wrapper_defs =
  u_putchar_def u_exit_def u_send_def u_receive_def u_call_def u_reply_def u_map_page_def u_unmap_page_def
  u_alloc_pages_def u_free_pages_def u_spawn_def u_wait_def u_getpid_def u_yield_def u_irq_register_def
  u_irq_ack_def u_reboot_def

section \<open>Console output and the hello program\<close>

text \<open>A call that returns to its caller at once; no interrupt arrives meanwhile.\<close>

definition invoke :: "(kernel \<Rightarrow> usize \<Rightarrow> u8) \<Rightarrow> kcfg \<Rightarrow> 'r wrapper \<Rightarrow> kernel \<Rightarrow> ('r \<times> kernel) option" where
  "invoke uload cfg w k =
     do { r \<leftarrow> handle_ecall uload cfg (enter w k);
          case r of Resume k' \<Rightarrow> Some (ret w (frame k'), k') | Reset \<Rightarrow> None }"

fun write_str :: "(kernel \<Rightarrow> usize \<Rightarrow> u8) \<Rightarrow> kcfg \<Rightarrow> u8 list \<Rightarrow> kernel \<Rightarrow> kernel option" where
  "write_str uload cfg [] k = Some k"
| "write_str uload cfg (b # bs) k = do { (_, k) \<leftarrow> invoke uload cfg (u_putchar b) k; write_str uload cfg bs k }"

definition bytes_of :: "string \<Rightarrow> u8 list" where
  "bytes_of s = map (\<lambda>c. of_nat (of_char c)) s"

text \<open>The decimal digits that formatting a \<open>usize\<close> produces.\<close>

fun decimal :: "nat \<Rightarrow> u8 list" where
  "decimal n = (if n < 10 then [of_nat (48 + n)] else decimal (n div 10) @ [of_nat (48 + n mod 10)])"

declare decimal.simps [simp del]

lemma decimal_digit: "n < 10 \<Longrightarrow> decimal n = [of_nat (48 + n)]"
  by (simp add: decimal.simps)

definition hello_main :: "(kernel \<Rightarrow> usize \<Rightarrow> u8) \<Rightarrow> kcfg \<Rightarrow> kernel \<Rightarrow> kernel option" where
  "hello_main uload cfg k =
     do { k \<leftarrow> write_str uload cfg (bytes_of ''Hello from Rust userspace!'' @ [10]) k;
          (pid, k) \<leftarrow> invoke uload cfg u_getpid k;
          k \<leftarrow> write_str uload cfg (bytes_of ''My PID is '' @ decimal (unat pid) @ [10]) k;
          (_, k) \<leftarrow> invoke uload cfg (u_exit 0) k;
          Some k }"

section \<open>What the kernel does for a block\<close>

lemma enter_sel [simp]:
  "procs (enter b k) = procs k" "current_pid (enter b k) = current_pid k" "ram (enter b k) = ram k"
  "page_bitmap (enter b k) = page_bitmap k" "irq_owners (enter b k) = irq_owners k" "dev (enter b k) = dev k"
  "satp (enter b k) = satp k" "kernel_satp (enter b k) = kernel_satp k" "ticks (enter b k) = ticks k"
  by (simp_all add: enter_def)

lemma set_reg_mode [simp]: "user_mode (set_reg x f) = user_mode f"
  by (cases x; cases "fst x") (simp_all add: user_mode_def)

lemma fold_set_reg_mode [simp]: "user_mode (fold set_reg xs f) = user_mode f"
  by (induction xs arbitrary: f) simp_all

lemma enter_trap: "user_trap k \<Longrightarrow> user_trap (enter b k)"
  by (simp add: enter_def user_trap_frame user_trapD(2))

lemma frame_enter: "frame (enter b k) = fold set_reg (ins b) (frame k)"
  by (simp add: enter_def)

text \<open>The kernel writes every result it documents to a register the block declares.\<close>

definition lib_a0_blocks :: "usize \<Rightarrow> usize \<Rightarrow> usize \<Rightarrow> u32 \<Rightarrow> asm_block list" where
  "lib_a0_blocks x y z irq =
     [asm_block.truncate (u_send x y), asm_block.truncate (u_call x y), asm_block.truncate (u_reply x y),
      asm_block.truncate (u_map_page x y z), asm_block.truncate (u_unmap_page x), asm_block.truncate (u_alloc_pages x),
      asm_block.truncate (u_free_pages x y), asm_block.truncate (u_spawn x y), asm_block.truncate (u_wait x),
      asm_block.truncate u_getpid, asm_block.truncate (u_irq_register irq), asm_block.truncate u_irq_ack]"

lemma lib_a0_blocks_in:
  assumes "b \<in> set (lib_a0_blocks x y z irq)"
  shows "tf_a7 (frame (enter b k)) \<in> a0_syscalls" "outs b = [A0]"
  using assms unfolding lib_a0_blocks_def wrapper_defs
  by (auto simp: frame_enter asm_block.defs a0_syscalls_def lib_defs sys_defs)

lemma get_reg_a0: "r \<noteq> A0 \<Longrightarrow> get_reg r (f\<lparr>tf_sepc := pc, tf_a0 := v\<rparr>) = get_reg r f"
  by (cases r) simp_all

section \<open>Console output\<close>

text \<open>What printing leaves alone: everything but the console and the frame.\<close>

definition only_prints :: "u8 list \<Rightarrow> kernel \<Rightarrow> kernel \<Rightarrow> bool" where
  "only_prints bs k k' \<longleftrightarrow> user_mode (frame k') \<and> ram k' = ram k \<and> page_bitmap k' = page_bitmap k \<and>
     kernel_satp k' = kernel_satp k \<and> satp k' = satp k \<and> procs k' = procs k \<and> current_pid k' = current_pid k \<and>
     irq_owners k' = irq_owners k \<and> ticks k' = ticks k \<and>
     dev k' = (dev k)\<lparr>uart_tx := rev bs @ uart_tx (dev k)\<rparr>"

lemma only_prints_trap: "user_trap k \<Longrightarrow> only_prints bs k k' \<Longrightarrow> user_trap k'"
  by (simp add: only_prints_def user_trap_def kernel_inv_def)

lemma only_prints_trans: "only_prints bs k k1 \<Longrightarrow> only_prints cs k1 k2 \<Longrightarrow> only_prints (bs @ cs) k k2"
  by (simp add: only_prints_def)

lemma invoke_putchar:
  assumes "user_trap k"
  shows "\<exists>k'. invoke uload cfg (u_putchar c) k = Some ((), k') \<and> only_prints [c] k k'"
proof -
  have "handle_ecall uload cfg (enter (u_putchar c) k) = map_option Resume (sys_putchar (enter (u_putchar c) k))"
    by (simp add: handle_ecall_def HANDLERS_def sys_defs frame_enter u_putchar_def lib_defs)
  moreover have "ucast (ucast c :: usize) = c" by (rule bit_word_eqI) (auto simp: bit_simps)
  ultimately show ?thesis using user_trapD(2) [OF assms]
    by (simp add: invoke_def sys_putchar_def Let_def only_prints_def u_putchar_def enter_def putc_def user_mode_def)
qed

lemma write_str_prints:
  assumes "user_trap k"
  shows "\<exists>k'. write_str uload cfg bs k = Some k' \<and> only_prints bs k k'"
  using assms
proof (induction bs arbitrary: k)
  case Nil
  then show ?case using user_trapD(2) [of k] by (simp add: only_prints_def)
next
  case (Cons b bs)
  obtain k1 where k1: "invoke uload cfg (u_putchar b) k = Some ((), k1)" "only_prints [b] k k1"
    using invoke_putchar [OF Cons.prems] by blast
  then obtain k2 where "write_str uload cfg bs k1 = Some k2" "only_prints bs k1 k2"
    using Cons.IH only_prints_trap [OF Cons.prems] by blast
  then show ?case using k1 only_prints_trans [OF k1(2)] by auto
qed

lemma invoke_getpid:
  assumes "user_trap k"
  shows "\<exists>k'. invoke uload cfg u_getpid k = Some (current_pid k, k') \<and> only_prints [] k k'"
proof -
  have "handle_ecall uload cfg (enter u_getpid k) = Some (Resume (sys_getpid (enter u_getpid k)))"
    by (simp add: handle_ecall_def HANDLERS_def sys_defs frame_enter u_getpid_def lib_defs)
  then show ?thesis using user_trapD(2) [OF assms]
    by (simp add: invoke_def sys_getpid_def Let_def only_prints_def u_getpid_def enter_def user_mode_def)
qed

lemma switch_dev: "switch_to n k = Some k' \<Longrightarrow> dev k' = dev k"
  by (auto simp: switch_to_def upd_proc_def split: bind_splits)

lemma leave_dev: "release_slot c code k = Some k' \<Longrightarrow> dev k' = dev k" "wake_waiter c code k = Some k' \<Longrightarrow> dev k' = dev k"
  by (auto simp: release_slot_def release_irq_def wake_waiter_def upd_proc_def Let_def split: bind_splits if_splits)

lemma exit_dev: "sys_exit cfg k = Some k' \<Longrightarrow> dev k' = dev k"
  by (auto simp: sys_exit_def Let_def return_to_kernel_def leave_dev switch_dev split: bind_splits if_splits)

section \<open>Properties\<close>

text \<open>
  C32. The register contract of the library: every wrapper that declares \<open>a0\<close> as its only output
  finds, when its process runs again, the program counter behind the \<open>ecall\<close>, its result in \<open>a0\<close>
  and every other register as it was at the call, whether the kernel answered at once or the process
  was blocked while others ran, sent, replied, exited, were killed or interrupted.
\<close>

theorem lib_registers_kept:
  assumes "user_trap k" "b \<in> set (lib_a0_blocks x y z irq)"
    and "handle_ecall uload cfg (enter b k) = Some (Resume k1)"
    and "parked_run uload cfg (unat (current_pid k)) k1 k2" "user_mode (frame k2)" "current_pid k2 = current_pid k"
  shows "\<exists>v. frame k2 = returns_from (frame (enter b k)) v \<and>
    (\<forall>r. r \<notin> set (outs b) \<longrightarrow> get_reg r (frame k2) = get_reg r (frame (enter b k)))"
proof -
  obtain v where "frame k2 = returns_from (frame (enter b k)) v"
    using syscall_returns [OF enter_trap [OF assms(1)] lib_a0_blocks_in(1) [OF assms(2)] assms(3)] assms(4-6) by auto
  then show ?thesis using lib_a0_blocks_in(2) [OF assms(2)] by (auto simp: returns_from_def get_reg_a0)
qed

theorem lib_registers_kept_witness:
  "\<exists>k2 v. handle_ecall (\<lambda>_ _. 0) demo_cfg (enter u_getpid (ipc_demo Ready 2)) = Some (Resume k2) \<and>
     frame k2 = returns_from (frame (enter u_getpid (ipc_demo Ready 2))) v \<and>
     get_reg A1 (frame k2) = 77"
proof -
  let ?k = "ipc_demo Ready 2" and ?b = "asm_block.truncate u_getpid"
  note F = ipc_demo_facts [of Ready 2, simplified]
  have en: "enter ?b k = enter u_getpid k" for k by (simp add: enter_def asm_block.defs)
  have b: "?b \<in> set (lib_a0_blocks 0 0 0 0)" by (simp add: lib_a0_blocks_def)
  let ?k2 = "sys_getpid (enter ?b ?k)"
  have e: "handle_ecall (\<lambda>_ _. 0) demo_cfg (enter ?b ?k) = Some (Resume ?k2)"
    by (simp add: handle_ecall_def HANDLERS_def sys_defs frame_enter asm_block.defs u_getpid_def lib_defs)
  have k2: "user_mode (frame ?k2)" "current_pid ?k2 = current_pid ?k"
    using user_trapD(2) [OF enter_trap [OF F(1)], of ?b] by (simp_all add: sys_getpid_def Let_def)
  obtain v where "frame ?k2 = returns_from (frame (enter ?b ?k)) v"
    using lib_registers_kept [OF F(1) b e parked_here k2] by blast
  moreover have "get_reg A1 (frame ?k2) = 77"
    using lib_registers_kept [OF F(1) b e parked_here k2] F(4)
    by (auto simp: asm_block.defs u_getpid_def frame_enter)
  ultimately show ?thesis using e unfolding en by blast
qed

text \<open>
  C33. The \<open>hello\<close> program: run from any state in which its process is the current one, \<open>main\<close> writes the
  two lines with its own process id to the console, byte for byte and in order, changes nothing else on
  the way, and leaves its slot free with exit code 0.
\<close>

theorem hello_prints:
  assumes "user_trap k"
  shows "\<exists>k'. hello_main uload cfg k = Some k' \<and>
    uart_tx (dev k') = rev (bytes_of ''Hello from Rust userspace!'' @ [10] @
      bytes_of ''My PID is '' @ decimal (unat (current_pid k)) @ [10]) @ uart_tx (dev k) \<and>
    pr_state (procs k' ! unat (current_pid k)) = Free \<and> pr_exit_code (procs k' ! unat (current_pid k)) = 0"
proof -
  let ?s1 = "bytes_of ''Hello from Rust userspace!'' @ [10]"
  let ?s2 = "bytes_of ''My PID is '' @ decimal (unat (current_pid k)) @ [10]"
  obtain k1 where k1: "write_str uload cfg ?s1 k = Some k1" "only_prints ?s1 k k1"
    using write_str_prints [OF assms] by blast
  note t1 = only_prints_trap [OF assms k1(2)]
  obtain k2 where k2: "invoke uload cfg u_getpid k1 = Some (current_pid k1, k2)" "only_prints [] k1 k2"
    using invoke_getpid [OF t1] by blast
  note t2 = only_prints_trap [OF t1 k2(2)]
  obtain k3 where k3: "write_str uload cfg ?s2 k2 = Some k3" "only_prints ?s2 k2 k3"
    using write_str_prints [OF t2] by blast
  note t3 = only_prints_trap [OF t2 k3(2)]
  have p: "only_prints (?s1 @ ?s2) k k3"
    using only_prints_trans [OF k1(2) only_prints_trans [OF k2(2) k3(2)]] by simp
  have c: "current_pid k1 = current_pid k" "current_pid k3 = current_pid k" using k1(2) p by (simp_all add: only_prints_def)
  let ?k = "enter (u_exit 0) k3"
  obtain k4 where k4: "sys_exit cfg ?k = Some k4" "procs k4 ! unat (current_pid ?k) =
      dead_entry (tf_a0 (frame ?k)) (procs ?k ! unat (current_pid ?k))"
    by (rule sys_exit_spec [OF enter_trap [OF t3], of cfg])
  have "invoke uload cfg (u_exit 0) k3 = Some ((), k4)"
    using k4(1) by (simp add: invoke_def handle_ecall_def HANDLERS_def sys_defs frame_enter u_exit_def lib_defs)
  then have "hello_main uload cfg k = Some k4" using k1(1) k2(1) k3(1) c by (simp add: hello_main_def)
  moreover have "dev k4 = dev k3" using exit_dev [OF k4(1)] by simp
  moreover have "uart_tx (dev k3) = rev (?s1 @ ?s2) @ uart_tx (dev k)" using p by (simp add: only_prints_def)
  ultimately show ?thesis using k4(2) c by (simp add: dead_entry_def frame_enter u_exit_def)
qed

theorem hello_prints_witness:
  "\<exists>k'. hello_main (\<lambda>_ _. 0) demo_cfg (ipc_demo Free 0) = Some k' \<and>
    uart_tx (dev k') = rev (bytes_of ''Hello from Rust userspace!'' @ [10] @ bytes_of ''My PID is 1'' @ [10])"
proof -
  note F = ipc_demo_facts [of Free 0, simplified]
  have "uart_tx (dev (ipc_demo Free 0)) = []" by (simp add: ipc_demo_def demo_kernel_def)
  moreover have "bytes_of ''My PID is 1'' = bytes_of ''My PID is '' @ decimal 1"
    by (simp add: bytes_of_def decimal_digit)
  ultimately show ?thesis using hello_prints [OF F(1), of "\<lambda>_ _. 0" demo_cfg] unfolding F(2) by auto
qed

end
