(* ===== verification/Net.thy ===== *)
theory Net
  imports Ipc User_Mem Virtio
begin

unbundle bit_operations_syntax

text \<open>
  \<open>net.rs\<close>: the in-kernel network server, reached by \<open>SYS_CALL\<close> to process 3 in builds with the
  \<open>net\<close> feature.  The TCP/IP stack is the library smoltcp, which is a parameter: the record
  \<open>smoltcp\<close> holds the operations the source calls, on an opaque stack state \<open>'n\<close> with opaque socket
  handles \<open>'h\<close>.  A stack operation that can fail returns a flag or a sum.  Polling the stack drives the
  virtio driver through the receive and transmit tokens of the adapter: the stack's part of a poll is
  the sequence of its token requests, depending on the answers, and \<open>run_poll\<close> serves them from the driver.
\<close>

section \<open>Constants\<close>

definition NET_SERVER_PID :: usize where "NET_SERVER_PID = 3"
definition NET_STATUS :: usize where "NET_STATUS = 0"
definition NET_SOCKET_TCP :: usize where "NET_SOCKET_TCP = 1"
definition NET_SOCKET_UDP :: usize where "NET_SOCKET_UDP = 2"
definition NET_BIND :: usize where "NET_BIND = 3"
definition NET_CONNECT :: usize where "NET_CONNECT = 4"
definition NET_LISTEN :: usize where "NET_LISTEN = 5"
definition NET_SEND :: usize where "NET_SEND = 7"
definition NET_RECV :: usize where "NET_RECV = 8"
definition NET_CLOSE :: usize where "NET_CLOSE = 9"

definition MAX_TCP_SOCKETS :: nat where "MAX_TCP_SOCKETS = 4"
definition MAX_UDP_SOCKETS :: nat where "MAX_UDP_SOCKETS = 4"
definition STAGING_SIZE :: nat where "STAGING_SIZE = 4096"

lemmas net_sizes = MAX_TCP_SOCKETS_def MAX_UDP_SOCKETS_def STAGING_SIZE_def

section \<open>The stack\<close>

type_synonym ipv4 = "u8 \<times> u8 \<times> u8 \<times> u8"

text \<open>
  \<open>Interface::poll\<close> gets the device as an argument and drives it through the tokens of its
  \<open>phy::Device\<close> implementation.  What the stack does is a program of such uses: it asks for a receive
  token (and learns whether there is one), consumes one (and gets the packet), asks for a transmit token,
  consumes one with the packet it wrote, or ends with its new state.
\<close>

datatype 'n poll_prog =
  Poll_End 'n
| Poll_Receive "bool \<Rightarrow> 'n poll_prog"
| Rx_Token "u8 list \<Rightarrow> 'n poll_prog"
| Poll_Transmit "bool \<Rightarrow> 'n poll_prog"
| Tx_Token "u8 list" "'n poll_prog"

text \<open>\<open>udp_recv\<close> fails with \<open>True\<close> for \<open>Exhausted\<close> and with \<open>False\<close> for every other error.\<close>

record ('h, 'n) smoltcp =
  sm_new :: "u8 list \<Rightarrow> 'n"
  sm_poll :: "u64 \<Rightarrow> 'n \<Rightarrow> 'n poll_prog"
  tcp_add :: "nat \<Rightarrow> 'n \<Rightarrow> 'h \<times> 'n"
  udp_add :: "nat \<Rightarrow> 'n \<Rightarrow> 'h \<times> 'n"
  udp_bind :: "'h \<Rightarrow> u16 \<Rightarrow> 'n \<Rightarrow> bool \<times> 'n"
  tcp_listen :: "'h \<Rightarrow> u16 \<Rightarrow> 'n \<Rightarrow> bool \<times> 'n"
  tcp_connect :: "'h \<Rightarrow> ipv4 \<Rightarrow> u16 \<Rightarrow> u16 \<Rightarrow> 'n \<Rightarrow> bool \<times> 'n"
  tcp_may_send :: "'h \<Rightarrow> 'n \<Rightarrow> bool"
  tcp_may_recv :: "'h \<Rightarrow> 'n \<Rightarrow> bool"
  tcp_is_active :: "'h \<Rightarrow> 'n \<Rightarrow> bool"
  tcp_send :: "'h \<Rightarrow> u8 list \<Rightarrow> 'n \<Rightarrow> (unit + nat) \<times> 'n"
  udp_send :: "'h \<Rightarrow> u8 list \<Rightarrow> ipv4 \<Rightarrow> u16 \<Rightarrow> 'n \<Rightarrow> bool \<times> 'n"
  tcp_recv :: "'h \<Rightarrow> nat \<Rightarrow> 'n \<Rightarrow> (unit + u8 list) \<times> 'n"
  udp_recv :: "'h \<Rightarrow> nat \<Rightarrow> 'n \<Rightarrow> (bool + u8 list) \<times> 'n"
  tcp_close :: "'h \<Rightarrow> 'n \<Rightarrow> 'n"
  udp_close :: "'h \<Rightarrow> 'n \<Rightarrow> 'n"

text \<open>
  The statics of \<open>net.rs\<close>; \<open>NET_IFACE\<close> and \<open>NET_SOCKETS\<close> are set together and are one field here.  The
  driver's statics, which \<open>crate::virtio::get()\<close> reaches, and the addresses of its buffers are fields too.
\<close>

record ('h, 'n) net =
  net_stack :: "'n option"
  net_ready :: bool
  tcp_handles :: "'h option list"
  udp_handles :: "'h option list"
  tcp_alloc_count :: nat
  udp_alloc_count :: nat
  staging :: "u8 list"
  net_virtio :: virtio_state
  net_dma :: dma_layout

definition net_zero :: "dma_layout \<Rightarrow> ('h, 'n) net" where
  "net_zero dma = \<lparr>net_stack = None, net_ready = False, tcp_handles = replicate MAX_TCP_SOCKETS None,
     udp_handles = replicate MAX_UDP_SOCKETS None, tcp_alloc_count = 0, udp_alloc_count = 0,
     staging = replicate STAGING_SIZE 0,
     net_virtio = \<lparr>VIRTIO_NET = new_uninit, VIRTIO_NET_READY = False, VIRTIO_NET_IRQ = 0\<rparr>, net_dma = dma\<rparr>"

section \<open>The device adapter\<close>

text \<open>smoltcp's view of the driver: tokens are handed out when the driver can use them.\<close>

definition phy_receive :: "VirtioNet \<Rightarrow> bool" where
  "phy_receive v \<longleftrightarrow> can_receive v \<and> can_transmit v"

definition phy_transmit :: "VirtioNet \<Rightarrow> bool" where
  "phy_transmit v = can_transmit v"

text \<open>
  Consuming a token; \<open>f\<close> is the closure the stack passes in.  The closure of a transmit token gets the
  slice and returns its result and the slice as it leaves it.
\<close>

definition rx_consume :: "dma_layout \<Rightarrow> (u8 list \<Rightarrow> 'r) \<Rightarrow> VirtioNet \<Rightarrow> ('r \<times> VirtioNet) option" where
  "rx_consume dma f v =
     do { (r, buf, v) \<leftarrow> vn_receive dma (replicate 1514 0) v;
          let len = (case r of Inl _ \<Rightarrow> 0 | Inr n \<Rightarrow> n);
          assert_that (len \<le> length buf);
          Some (f (take len buf), v) }"

definition tx_consume :: "dma_layout \<Rightarrow> nat \<Rightarrow> (u8 list \<Rightarrow> 'r \<times> u8 list) \<Rightarrow> VirtioNet \<Rightarrow> ('r \<times> VirtioNet) option" where
  "tx_consume dma len f v =
     do { assert_that (len \<le> 1514);
          let (result, bytes) = f (replicate len 0);
          (_, v) \<leftarrow> transmit dma bytes v;
          Some (result, v) }"

section \<open>Initialisation and polling\<close>

definition net_init :: "('h, 'n) smoltcp \<Rightarrow> u8 list \<Rightarrow> ('h, 'n) net \<Rightarrow> ('h, 'n) net" where
  "net_init sm mac n = n\<lparr>net_stack := Some (sm_new sm mac), net_ready := True\<rparr>"

text \<open>The stack's program run on the driver.\<close>

primrec run_poll :: "dma_layout \<Rightarrow> 'n poll_prog \<Rightarrow> VirtioNet \<Rightarrow> ('n \<times> VirtioNet) option" where
  "run_poll dma (Poll_End st) v = Some (st, v)"
| "run_poll dma (Poll_Receive c) v = run_poll dma (c (phy_receive v)) v"
| "run_poll dma (Rx_Token c) v = do { (packet, v) \<leftarrow> rx_consume dma (\<lambda>b. b) v; run_poll dma (c packet) v }"
| "run_poll dma (Poll_Transmit c) v = run_poll dma (c (phy_transmit v)) v"
| "run_poll dma (Tx_Token packet p) v =
     do { (_, v) \<leftarrow> tx_consume dma (length packet) (\<lambda>_. ((), packet)) v; run_poll dma p v }"

definition poll :: "('h, 'n) smoltcp \<Rightarrow> u64 \<Rightarrow> ('h, 'n) net \<Rightarrow> ('h, 'n) net option" where
  "poll sm timestamp_ms n =
     (case net_stack n of
        None \<Rightarrow> Some n
      | Some st \<Rightarrow> do {
          (st, v) \<leftarrow> run_poll (net_dma n) (sm_poll sm timestamp_ms st) (VIRTIO_NET (net_virtio n));
          Some (n\<lparr>net_stack := Some st, net_virtio := (net_virtio n)\<lparr>VIRTIO_NET := v\<rparr>\<rparr>) })"

definition now_ms :: "kernel \<Rightarrow> u64" where
  "now_ms k = ticks k * 10"

text \<open>\<open>Ipv4Address::new\<close> of the four bytes of a packed address, most significant first.\<close>

definition unpack_ip :: "usize \<Rightarrow> ipv4" where
  "unpack_ip p = (ucast (drop_bit 24 p AND 0xFF), ucast (drop_bit 16 p AND 0xFF), ucast (drop_bit 8 p AND 0xFF),
     ucast (p AND 0xFF))"

section \<open>Socket operations\<close>

type_synonym ('h, 'n) net_op_result = "(usize \<times> ('h, 'n) net) option"

definition handle_socket_tcp :: "('h, 'n) smoltcp \<Rightarrow> ('h, 'n) net \<Rightarrow> ('h, 'n) net_op_result" where
  "handle_socket_tcp sm n =
     (if MAX_TCP_SOCKETS \<le> tcp_alloc_count n then Some (USIZE_MAX, n)
      else let i = tcp_alloc_count n in
        case net_stack n of
          None \<Rightarrow> Some (USIZE_MAX, n)
        | Some st \<Rightarrow>
            let (handle, st) = tcp_add sm i st
            in do { hs \<leftarrow> upd (tcp_handles n) i (Some handle);
                    Some (of_nat i, n\<lparr>net_stack := Some st, tcp_handles := hs, tcp_alloc_count := i + 1\<rparr>) })"

definition handle_socket_udp :: "('h, 'n) smoltcp \<Rightarrow> ('h, 'n) net \<Rightarrow> ('h, 'n) net_op_result" where
  "handle_socket_udp sm n =
     (if MAX_UDP_SOCKETS \<le> udp_alloc_count n then Some (USIZE_MAX, n)
      else let i = udp_alloc_count n in
        case net_stack n of
          None \<Rightarrow> Some (USIZE_MAX, n)
        | Some st \<Rightarrow>
            let (handle, st) = udp_add sm i st
            in do { hs \<leftarrow> upd (udp_handles n) i (Some handle);
                    Some (of_nat (MAX_TCP_SOCKETS + i), n\<lparr>net_stack := Some st, udp_handles := hs, udp_alloc_count := i + 1\<rparr>) })"

text \<open>
  The beginning of most handlers: the stack must be up and the handle's slot filled, or the result is
  \<open>usize::MAX\<close>.
\<close>

definition with_tcp :: "nat \<Rightarrow> ('h, 'n) net \<Rightarrow> 'r \<Rightarrow> ('h \<Rightarrow> 'n \<Rightarrow> 'r option) \<Rightarrow> 'r option" where
  "with_tcp i n bad f =
     (case net_stack n of
        None \<Rightarrow> Some bad
      | Some st \<Rightarrow> do { e \<leftarrow> idx (tcp_handles n) i; case e of None \<Rightarrow> Some bad | Some h \<Rightarrow> f h st })"

definition with_udp :: "nat \<Rightarrow> ('h, 'n) net \<Rightarrow> 'r \<Rightarrow> ('h \<Rightarrow> 'n \<Rightarrow> 'r option) \<Rightarrow> 'r option" where
  "with_udp handle_idx n bad f =
     (case net_stack n of
        None \<Rightarrow> Some bad
      | Some st \<Rightarrow>
          let udp_idx = handle_idx - MAX_TCP_SOCKETS in
          if MAX_UDP_SOCKETS \<le> udp_idx then Some bad
          else do { e \<leftarrow> idx (udp_handles n) udp_idx; case e of None \<Rightarrow> Some bad | Some h \<Rightarrow> f h st })"

definition done_if :: "('h, 'n) net \<Rightarrow> bool \<times> 'n \<Rightarrow> usize \<Rightarrow> ('h, 'n) net_op_result" where
  "done_if n r v = Some (if fst r then v else USIZE_MAX, n\<lparr>net_stack := Some (snd r)\<rparr>)"

definition handle_bind :: "('h, 'n) smoltcp \<Rightarrow> usize \<Rightarrow> usize \<Rightarrow> ('h, 'n) net \<Rightarrow> ('h, 'n) net_op_result" where
  "handle_bind sm handle_idx port n =
     (if MAX_TCP_SOCKETS \<le> unat handle_idx
      then with_udp (unat handle_idx) n (USIZE_MAX, n) (\<lambda>h st. done_if n (udp_bind sm h (ucast port) st) 0)
      else case net_stack n of None \<Rightarrow> Some (USIZE_MAX, n) | Some _ \<Rightarrow> Some (0, n))"

definition handle_listen :: "('h, 'n) smoltcp \<Rightarrow> usize \<Rightarrow> usize \<Rightarrow> ('h, 'n) net \<Rightarrow> ('h, 'n) net_op_result" where
  "handle_listen sm handle_idx port n =
     (if MAX_TCP_SOCKETS \<le> unat handle_idx then Some (USIZE_MAX, n)
      else with_tcp (unat handle_idx) n (USIZE_MAX, n) (\<lambda>h st. done_if n (tcp_listen sm h (ucast port) st) 0))"

definition handle_close :: "('h, 'n) smoltcp \<Rightarrow> usize \<Rightarrow> ('h, 'n) net \<Rightarrow> ('h, 'n) net_op_result" where
  "handle_close sm handle_idx n =
     (if unat handle_idx < MAX_TCP_SOCKETS
      then with_tcp (unat handle_idx) n (USIZE_MAX, n) (\<lambda>h st. Some (0, n\<lparr>net_stack := Some (tcp_close sm h st)\<rparr>))
      else with_udp (unat handle_idx) n (USIZE_MAX, n) (\<lambda>h st. Some (0, n\<lparr>net_stack := Some (udp_close sm h st)\<rparr>)))"

text \<open>The socket part of \<open>handle_send\<close>: the number of bytes taken, or \<open>None\<close> for an early return.\<close>

definition send_staged :: "('h, 'n) smoltcp \<Rightarrow> usize \<Rightarrow> usize \<Rightarrow> usize \<Rightarrow> usize \<Rightarrow> ('h, 'n) net \<Rightarrow>
    (usize option \<times> ('h, 'n) net) option" where
  "send_staged sm handle_idx len packed_ip port n =
     (let bytes = take (unat len) (staging n) in
      if unat handle_idx < MAX_TCP_SOCKETS
      then with_tcp (unat handle_idx) n (None, n) (\<lambda>h st.
             if \<not> tcp_may_send sm h st then Some (None, n)
             else case tcp_send sm h bytes st of
               (Inl _, st) \<Rightarrow> Some (None, n\<lparr>net_stack := Some st\<rparr>)
             | (Inr k, st) \<Rightarrow> Some (Some (of_nat k), n\<lparr>net_stack := Some st\<rparr>))
      else with_udp (unat handle_idx) n (None, n) (\<lambda>h st.
             let (ok, st) = udp_send sm h bytes (unpack_ip packed_ip) (ucast port) st
             in Some (if ok then Some len else None, n\<lparr>net_stack := Some st\<rparr>)))"

text \<open>
  A copy that fails leaves \<open>staging\<close> as it was here; the source may have copied a first chunk, into bytes
  that no later operation reads before it has overwritten them.
\<close>

definition handle_send :: "layout \<Rightarrow> ('h, 'n) smoltcp \<Rightarrow> usize \<Rightarrow> usize \<Rightarrow> usize \<Rightarrow> usize \<Rightarrow> usize \<Rightarrow> u64 \<Rightarrow>
    kernel \<Rightarrow> ('h, 'n) net \<Rightarrow> ('h, 'n) net_op_result" where
  "handle_send L sm handle_idx buf_va len packed_ip port stp k n =
     (if len = 0 \<or> of_nat STAGING_SIZE < len then Some (USIZE_MAX, n)
      else if stp = 0 then Some (USIZE_MAX, n)
      else do {
        assert_that (unat len \<le> length (staging n));
        case copy_from_user L (ram k) stp buf_va len of
          Inl _ \<Rightarrow> Some (USIZE_MAX, n)
        | Inr bytes \<Rightarrow> do {
            let n = n\<lparr>staging := bytes @ drop (unat len) (staging n)\<rparr>;
            (sent, n) \<leftarrow> send_staged sm handle_idx len packed_ip port n;
            case sent of None \<Rightarrow> Some (USIZE_MAX, n)
            | Some v \<Rightarrow> map_option (Pair v) (poll sm (now_ms k) n) } })"

section \<open>Receiving\<close>

datatype RecvAttempt = Data nat | Empty | RecvErr

text \<open>The bytes received go to the front of \<open>staging[..len]\<close>.\<close>

definition stage :: "u8 list \<Rightarrow> ('h, 'n) net \<Rightarrow> ('h, 'n) net" where
  "stage bytes n = n\<lparr>staging := bytes @ drop (length bytes) (staging n)\<rparr>"

definition try_recv_once :: "('h, 'n) smoltcp \<Rightarrow> usize \<Rightarrow> nat \<Rightarrow> ('h, 'n) net \<Rightarrow> (RecvAttempt \<times> ('h, 'n) net) option" where
  "try_recv_once sm handle_idx len n =
     (if unat handle_idx < MAX_TCP_SOCKETS
      then with_tcp (unat handle_idx) n (RecvErr, n) (\<lambda>h st.
             if \<not> tcp_may_recv sm h st then Some (RecvErr, n)
             else case tcp_recv sm h len st of
               (Inl _, st) \<Rightarrow> Some (RecvErr, n\<lparr>net_stack := Some st\<rparr>)
             | (Inr [], st) \<Rightarrow> Some (Empty, n\<lparr>net_stack := Some st\<rparr>)
             | (Inr bytes, st) \<Rightarrow> Some (Data (length bytes), stage bytes (n\<lparr>net_stack := Some st\<rparr>)))
      else with_udp (unat handle_idx) n (RecvErr, n) (\<lambda>h st.
             case udp_recv sm h len st of
               (Inr bytes, st) \<Rightarrow> Some (Data (length bytes), stage bytes (n\<lparr>net_stack := Some st\<rparr>))
             | (Inl True, st) \<Rightarrow> Some (Empty, n\<lparr>net_stack := Some st\<rparr>)
             | (Inl False, st) \<Rightarrow> Some (RecvErr, n\<lparr>net_stack := Some st\<rparr>)))"

text \<open>Copying what was staged to a user buffer: the value for \<open>a0\<close> and the memory afterwards.\<close>

definition deliver :: "layout \<Rightarrow> u64 \<Rightarrow> usize \<Rightarrow> nat \<Rightarrow> ('h, 'n) net \<Rightarrow> kernel \<Rightarrow> (usize \<times> kernel) option" where
  "deliver L stp buf_va len n k =
     do { assert_that (len \<le> length (staging n));
          case copy_to_user L (ram k) stp buf_va (take len (staging n)) of
            Inl _ \<Rightarrow> Some (USIZE_MAX, k)
          | Inr m \<Rightarrow> Some (of_nat len, k\<lparr>ram := m\<rparr>) }"

definition complete_blocked :: "usize \<Rightarrow> usize \<Rightarrow> kernel \<Rightarrow> kernel option" where
  "complete_blocked pid a0 k =
     upd_proc pid (\<lambda>p. p\<lparr>pr_context := (pr_context p)\<lparr>tf_a0 := a0\<rparr>, pr_net_op := NetNone, pr_state := Ready\<rparr>) k"

definition wake_one_recv :: "layout \<Rightarrow> ('h, 'n) smoltcp \<Rightarrow> usize \<Rightarrow> kernel \<times> ('h, 'n) net \<Rightarrow> (kernel \<times> ('h, 'n) net) option" where
  "wake_one_recv L sm pid = (\<lambda>(k, n).
     do { p \<leftarrow> get_proc k pid;
          let max_len = unat (pr_net_buf_len p);
          assert_that (max_len \<le> length (staging n));
          (r, n) \<leftarrow> try_recv_once sm (pr_net_socket p) max_len n;
          case r of
            Data len \<Rightarrow> do { (a0, k) \<leftarrow> deliver L (pr_satp p) (pr_net_buf_va p) len n k;
                             k \<leftarrow> complete_blocked pid a0 k; Some (k, n) }
          | RecvErr \<Rightarrow> do { k \<leftarrow> complete_blocked pid USIZE_MAX k; Some (k, n) }
          | Empty \<Rightarrow> Some (k, n) })"

definition wake_one_connect :: "('h, 'n) smoltcp \<Rightarrow> usize \<Rightarrow> kernel \<times> ('h, 'n) net \<Rightarrow> (kernel \<times> ('h, 'n) net) option" where
  "wake_one_connect sm pid = (\<lambda>(k, n).
     do { p \<leftarrow> get_proc k pid;
          let handle_idx = unat (pr_net_socket p);
          if MAX_TCP_SOCKETS \<le> handle_idx then do { k \<leftarrow> complete_blocked pid USIZE_MAX k; Some (k, n) }
          else case net_stack n of
            None \<Rightarrow> Some (k, n)
          | Some st \<Rightarrow> do {
              e \<leftarrow> idx (tcp_handles n) handle_idx;
              case e of
                None \<Rightarrow> do { k \<leftarrow> complete_blocked pid USIZE_MAX k; Some (k, n) }
              | Some h \<Rightarrow>
                  if tcp_may_send sm h st then do { k \<leftarrow> complete_blocked pid 0 k; Some (k, n) }
                  else if \<not> tcp_is_active sm h st then do { k \<leftarrow> complete_blocked pid USIZE_MAX k; Some (k, n) }
                  else Some (k, n) } })"

definition wake_pid :: "layout \<Rightarrow> ('h, 'n) smoltcp \<Rightarrow> nat \<Rightarrow> kernel \<times> ('h, 'n) net \<Rightarrow> (kernel \<times> ('h, 'n) net) option" where
  "wake_pid L sm i s =
     do { p \<leftarrow> get_proc (fst s) (of_nat i);
          if pr_state p \<noteq> BlockedNet then Some s
          else case pr_net_op p of
            NetRecv \<Rightarrow> wake_one_recv L sm (of_nat i) s
          | NetConnect \<Rightarrow> wake_one_connect sm (of_nat i) s
          | NetNone \<Rightarrow> Some s }"

fun wake_pids :: "layout \<Rightarrow> ('h, 'n) smoltcp \<Rightarrow> nat list \<Rightarrow> kernel \<times> ('h, 'n) net \<Rightarrow> (kernel \<times> ('h, 'n) net) option" where
  "wake_pids L sm [] s = Some s"
| "wake_pids L sm (i # is) s = do { s \<leftarrow> wake_pid L sm i s; wake_pids L sm is s }"

definition wake_blocked :: "layout \<Rightarrow> ('h, 'n) smoltcp \<Rightarrow> kernel \<times> ('h, 'n) net \<Rightarrow> (kernel \<times> ('h, 'n) net) option" where
  "wake_blocked L sm s = (if \<not> net_ready (snd s) then Some s else wake_pids L sm [1..<unat MAX_PROCS] s)"

section \<open>Requests\<close>

datatype NetOutcome = Done usize | Blocked

definition block_on :: "kcfg \<Rightarrow> net_op \<Rightarrow> usize \<Rightarrow> usize \<Rightarrow> usize \<Rightarrow> kernel \<Rightarrow> (NetOutcome \<times> kernel) option" where
  "block_on cfg nop handle_idx buf_va len k =
     (let current = current_pid k in
      if current = 0 then Some (Done 0, k)
      else do {
        k \<leftarrow> upd_proc current (\<lambda>p. p\<lparr>pr_net_op := nop, pr_net_socket := handle_idx, pr_net_buf_va := buf_va,
               pr_net_buf_len := len, pr_state := BlockedNet\<rparr>) k;
        k \<leftarrow> schedule cfg k current;
        Some (Blocked, k) })"

definition handle_connect :: "kcfg \<Rightarrow> ('h, 'n) smoltcp \<Rightarrow> usize \<Rightarrow> usize \<Rightarrow> usize \<Rightarrow> kernel \<Rightarrow> ('h, 'n) net \<Rightarrow>
    (NetOutcome \<times> kernel \<times> ('h, 'n) net) option" where
  "handle_connect cfg sm handle_idx packed_ip port k n =
     (if MAX_TCP_SOCKETS \<le> unat handle_idx then Some (Done USIZE_MAX, k, n)
      else with_tcp (unat handle_idx) n (Done USIZE_MAX, k, n) (\<lambda>h st.
        let (ok, st) = tcp_connect sm h (unpack_ip packed_ip) (ucast port) (49152 + ucast handle_idx) st;
            n = n\<lparr>net_stack := Some st\<rparr>
        in if \<not> ok then Some (Done USIZE_MAX, k, n)
           else do {
             n \<leftarrow> poll sm (now_ms k) n;
             let st = the (net_stack n);
             if tcp_may_send sm h st then Some (Done 0, k, n)
             else if \<not> tcp_is_active sm h st then Some (Done USIZE_MAX, k, n)
             else map_option (\<lambda>(r, k). (r, k, n)) (block_on cfg NetConnect handle_idx 0 0 k) }))"

definition handle_recv :: "kcfg \<Rightarrow> ('h, 'n) smoltcp \<Rightarrow> usize \<Rightarrow> usize \<Rightarrow> usize \<Rightarrow> kernel \<Rightarrow> ('h, 'n) net \<Rightarrow>
    (NetOutcome \<times> kernel \<times> ('h, 'n) net) option" where
  "handle_recv cfg sm handle_idx buf_va max_len k n =
     (if max_len = 0 \<or> of_nat STAGING_SIZE < max_len then Some (Done USIZE_MAX, k, n)
      else do {
        stp \<leftarrow> current_satp k;
        if stp = 0 then Some (Done USIZE_MAX, k, n)
        else do {
          n \<leftarrow> poll sm (now_ms k) n;
          assert_that (unat max_len \<le> length (staging n));
          (r, n) \<leftarrow> try_recv_once sm handle_idx (unat max_len) n;
          case r of
            Data len \<Rightarrow> map_option (\<lambda>(v, k). (Done v, k, n)) (deliver (lay cfg) stp buf_va len n k)
          | RecvErr \<Rightarrow> Some (Done USIZE_MAX, k, n)
          | Empty \<Rightarrow> map_option (\<lambda>(r, k). (r, k, n)) (block_on cfg NetRecv handle_idx buf_va max_len k) } })"

definition sync :: "kernel \<Rightarrow> ('h, 'n) net_op_result \<Rightarrow> (NetOutcome \<times> kernel \<times> ('h, 'n) net) option" where
  "sync k = map_option (\<lambda>(v, n). (Done v, k, n))"

definition net_dispatch :: "kcfg \<Rightarrow> ('h, 'n) smoltcp \<Rightarrow> kernel \<Rightarrow> ('h, 'n) net \<Rightarrow>
    (NetOutcome \<times> kernel \<times> ('h, 'n) net) option" where
  "net_dispatch cfg sm k n =
     (let f = frame k; opcode = tf_a1 f; arg1 = tf_a2 f; arg2 = tf_a3 f in
      if opcode = NET_STATUS then Some (Done 1, k, n)
      else if opcode = NET_SOCKET_TCP then sync k (handle_socket_tcp sm n)
      else if opcode = NET_SOCKET_UDP then sync k (handle_socket_udp sm n)
      else if opcode = NET_BIND then sync k (handle_bind sm arg1 arg2 n)
      else if opcode = NET_LISTEN then sync k (handle_listen sm arg1 arg2 n)
      else if opcode = NET_CLOSE then sync k (handle_close sm arg1 n)
      else if opcode = NET_SEND then do {
        stp \<leftarrow> current_satp k;
        sync k (handle_send (lay cfg) sm arg1 arg2 (tf_a4 f) (tf_a5 f) (tf_a6 f) stp k n) }
      else if opcode = NET_CONNECT then handle_connect cfg sm arg1 arg2 (tf_a4 f) k n
      else if opcode = NET_RECV then handle_recv cfg sm arg1 arg2 (tf_a4 f) k n
      else Some (Done USIZE_MAX, k, n))"

definition handle_request :: "kcfg \<Rightarrow> ('h, 'n) smoltcp \<Rightarrow> kernel \<times> ('h, 'n) net \<Rightarrow> (kernel \<times> ('h, 'n) net) option" where
  "handle_request cfg sm = (\<lambda>(k, n).
     let k = advance k in
     if \<not> net_ready n then Some (set_a0 USIZE_MAX k, n)
     else do { (r, k, n) \<leftarrow> net_dispatch cfg sm k n;
               Some (case r of Done v \<Rightarrow> set_a0 v k | Blocked \<Rightarrow> k, n) })"

text \<open>
  The self-test of the stack, not called at boot: a socket is allocated and bound and one packet sent
  to the gateway.
\<close>

definition SMOKE_BYTES :: "u8 list" where
  "SMOKE_BYTES = map (\<lambda>c. of_nat (of_char c)) ''GooseOS smoke'' @ [10]"

definition smoke_test :: "('h, 'n) smoltcp \<Rightarrow> ('h, 'n) net \<Rightarrow> ('h, 'n) net option" where
  "smoke_test sm n =
     do { (udp_handle, n) \<leftarrow> handle_socket_udp sm n;
          if udp_handle = USIZE_MAX then Some n
          else do {
            (r, n) \<leftarrow> handle_bind sm udp_handle 12345 n;
            if r \<noteq> 0 then Some n
            else case net_stack n of
              None \<Rightarrow> Some n
            | Some st \<Rightarrow> do {
                e \<leftarrow> idx (udp_handles n) (unat udp_handle - MAX_TCP_SOCKETS);
                case e of
                  None \<Rightarrow> Some n
                | Some h \<Rightarrow>
                    poll sm 0 (n\<lparr>net_stack := Some (snd (udp_send sm h SMOKE_BYTES (10, 0, 2, 2) 12345 st))\<rparr>) } } }"

text \<open>
  Boot stage 6: the slots are scanned, the device found is initialised, its interrupt enabled and the
  stack started with its address.
\<close>

definition stage_network :: "('h, 'n) smoltcp \<Rightarrow> mmio_device \<Rightarrow> kernel \<times> ('h, 'n) net \<Rightarrow> (kernel \<times> ('h, 'n) net) option" where
  "stage_network sm hw = (\<lambda>(k, n).
     case probe_all hw (net_virtio n) of
       (None, g) \<Rightarrow> Some (k, n\<lparr>net_virtio := g\<rparr>)
     | (Some (slot, irq), g) \<Rightarrow> do {
         (r, g) \<leftarrow> init_device hw (net_dma n) g;
         let n = n\<lparr>net_virtio := g\<rparr>;
         case r of
           Inl _ \<Rightarrow> Some (k, n)
         | Inr _ \<Rightarrow> Some (k\<lparr>dev := plic_enable_irq (dev k) irq\<rparr>, net_init sm (mac_address (VIRTIO_NET g)) n) })"

text \<open>
  The branch of the external interrupt handler for the device's own interrupt, which no process has
  registered.
\<close>

definition net_irq :: "layout \<Rightarrow> ('h, 'n) smoltcp \<Rightarrow> mmio_device \<Rightarrow> u32 \<Rightarrow> kernel \<times> ('h, 'n) net \<Rightarrow>
    (kernel \<times> ('h, 'n) net) option" where
  "net_irq L sm hw irq = (\<lambda>(k, n).
     let g = net_virtio n in
     if VIRTIO_NET_READY g \<and> irq = VIRTIO_NET_IRQ g
     then do { v \<leftarrow> virtio_handle_interrupt hw (VIRTIO_NET g);
               n \<leftarrow> poll sm (ticks k * 10) (n\<lparr>net_virtio := g\<lparr>VIRTIO_NET := v\<rparr>\<rparr>);
               (k, n) \<leftarrow> wake_blocked L sm (k, n);
               Some (k\<lparr>dev := plic_complete (dev k) irq\<rparr>, n) }
     else Some (k\<lparr>dev := plic_complete (dev k) irq\<rparr>, n))"

text \<open>\<open>SYS_CALL\<close> in a build with the \<open>net\<close> feature, and the part of the timer handler it adds.\<close>

definition sys_call_net :: "kcfg \<Rightarrow> ('h, 'n) smoltcp \<Rightarrow> kernel \<times> ('h, 'n) net \<Rightarrow> (kernel \<times> ('h, 'n) net) option" where
  "sys_call_net cfg sm = (\<lambda>(k, n).
     if tf_a0 (frame k) = NET_SERVER_PID then handle_request cfg sm (k, n)
     else map_option (\<lambda>k. (k, n)) (sys_call cfg k))"

definition net_tick :: "layout \<Rightarrow> ('h, 'n) smoltcp \<Rightarrow> kernel \<times> ('h, 'n) net \<Rightarrow> (kernel \<times> ('h, 'n) net) option" where
  "net_tick L sm = (\<lambda>(k, n).
     if ticks k mod 10 = 0 \<and> VIRTIO_NET_READY (net_virtio n)
     then do { n \<leftarrow> poll sm (ticks k * 10) n; wake_blocked L sm (k, n) } else Some (k, n))"

end
