(* ===== verification/Net_Safe.thy ===== *)
theory Net_Safe
  imports Net Virtio_Tx
begin

unbundle bit_operations_syntax

text \<open>
  The network server keeps the kernel's invariant and the driver's: a request neither panics nor touches
  another process, a poll does not panic in the driver, a process blocked in a receive is woken with
  exactly the bytes the stack handed over, and a process that is not blocked on the network is never
  changed by \<open>wake_blocked\<close>.
\<close>

section \<open>Rules for results\<close>

definition yields :: "('a \<Rightarrow> bool) \<Rightarrow> 'a option \<Rightarrow> bool" where
  "yields P m \<longleftrightarrow> (\<exists>x. m = Some x \<and> P x)"

lemma yields_Some [simp]: "yields P (Some x) = P x" "\<not> yields P None"
  by (simp_all add: yields_def)

lemma yields_bind: "yields P m \<Longrightarrow> (\<And>x. P x \<Longrightarrow> yields Q (f x)) \<Longrightarrow> yields Q (m \<bind> f)"
  by (auto simp: yields_def)

lemma yields_mono: "yields P m \<Longrightarrow> (\<And>x. P x \<Longrightarrow> Q x) \<Longrightarrow> yields Q m"
  by (auto simp: yields_def)

lemma yields_map [simp]: "yields P (map_option f m) = yields (P \<circ> f) m"
  by (auto simp: yields_def)

section \<open>The adapter between stack and driver\<close>

lemma tokens_total:
  assumes "vnet_wf v"
  shows "yields (\<lambda>(r, v'). vnet_wf v') (rx_consume dma f v)"
    "len \<le> 1514 \<Longrightarrow> yields (\<lambda>(r, v'). vnet_wf v') (tx_consume dma len g v)"
proof -
  have "length (replicate 1514 (0 :: u8)) \<le> PACKET_SIZE" by (simp add: PACKET_SIZE_def)
  from receive_total [OF assms this, of dma]
  obtain r buf v' where "vn_receive dma (replicate 1514 0) v = Some (r, buf, v')" "vnet_wf v'" "length buf = 1514"
      "case r of Inl _ \<Rightarrow> True | Inr n \<Rightarrow> n \<le> 1514"
    unfolding length_replicate by blast
  then show "yields (\<lambda>(r, v'). vnet_wf v') (rx_consume dma f v)"
    by (simp add: rx_consume_def split: sum.splits)
  obtain r v' where "transmit dma (snd (g (replicate len 0))) v = Some (r, v')" "vnet_wf v'"
    using transmit_total [OF assms] by blast
  then show "yields (\<lambda>(r, v'). vnet_wf v') (tx_consume dma len g v)" if "len \<le> 1514"
    using that by (auto simp: tx_consume_def split: prod.split)
qed

text \<open>
  What smoltcp promises about a poll: it never asks for a packet longer than the maximum transmission
  unit the device reports.
\<close>

primrec prog_ok :: "'n poll_prog \<Rightarrow> bool" where
  "prog_ok (Poll_End st) = True"
| "prog_ok (Poll_Receive c) = (\<forall>b. prog_ok (c b))"
| "prog_ok (Rx_Token c) = (\<forall>packet. prog_ok (c packet))"
| "prog_ok (Poll_Transmit c) = (\<forall>b. prog_ok (c b))"
| "prog_ok (Tx_Token packet p) = (length packet \<le> 1514 \<and> prog_ok p)"

lemma run_poll_total: "prog_ok p \<Longrightarrow> vnet_wf v \<Longrightarrow> yields (\<lambda>(st, v'). vnet_wf v') (run_poll dma p v)"
proof (induction p arbitrary: v)
  case (Rx_Token c)
  then show ?case by (auto intro!: yields_bind [OF tokens_total(1)])
next
  case (Tx_Token packet p)
  then show ?case by (auto intro!: yields_bind [OF tokens_total(2)])
qed auto

section \<open>Invariants\<close>

definition net_inv :: "('h, 'n) net \<Rightarrow> bool" where
  "net_inv n \<longleftrightarrow> length (tcp_handles n) = MAX_TCP_SOCKETS \<and> length (udp_handles n) = MAX_UDP_SOCKETS \<and>
     length (staging n) = STAGING_SIZE \<and> tcp_alloc_count n \<le> MAX_TCP_SOCKETS \<and> udp_alloc_count n \<le> MAX_UDP_SOCKETS \<and>
     vnet_wf (VIRTIO_NET (net_virtio n))"

text \<open>A process that waits for data never waits for more than the staging buffer holds.\<close>

definition waiting_ok :: "kernel \<Rightarrow> bool" where
  "waiting_ok k \<longleftrightarrow> (\<forall>i < 8. pr_state (procs k ! i) = BlockedNet \<longrightarrow> pr_net_op (procs k ! i) = NetRecv \<longrightarrow>
     unat (pr_net_buf_len (procs k ! i)) \<le> STAGING_SIZE)"

text \<open>What smoltcp promises: a receive fills at most the slice it is given, and a poll keeps to the MTU.\<close>

definition stack_ok :: "('h, 'n) smoltcp \<Rightarrow> bool" where
  "stack_ok sm \<longleftrightarrow>
     (\<forall>h len st bytes st'. tcp_recv sm h len st = (Inr bytes, st') \<longrightarrow> length bytes \<le> len) \<and>
     (\<forall>h len st bytes st'. udp_recv sm h len st = (Inr bytes, st') \<longrightarrow> length bytes \<le> len) \<and>
     (\<forall>t st. prog_ok (sm_poll sm t st))"

lemma net_inv_stack [simp]: "net_inv (n\<lparr>net_stack := st\<rparr>) = net_inv n"
  by (simp add: net_inv_def)

text \<open>A poll changes the stack and the driver and nothing else.\<close>

definition polled :: "('h, 'n) net \<Rightarrow> ('h, 'n) net \<Rightarrow> bool" where
  "polled n n' \<longleftrightarrow> net_inv n' \<and>
     (\<exists>st v. n' = n\<lparr>net_stack := st, net_virtio := (net_virtio n)\<lparr>VIRTIO_NET := v\<rparr>\<rparr>)"

lemma poll_ok:
  assumes "net_inv n" "stack_ok sm"
  shows "yields (polled n) (poll sm t n)"
proof (cases "net_stack n")
  case None
  have "n = n\<lparr>net_stack := net_stack n, net_virtio := (net_virtio n)\<lparr>VIRTIO_NET := VIRTIO_NET (net_virtio n)\<rparr>\<rparr>"
    by simp
  then have "polled n n" unfolding polled_def using assms(1) by blast
  then show ?thesis using None by (simp add: poll_def)
next
  case (Some st)
  have "prog_ok (sm_poll sm t st)" "vnet_wf (VIRTIO_NET (net_virtio n))"
    using assms by (simp_all add: stack_ok_def net_inv_def)
  from run_poll_total [OF this, of "net_dma n"] obtain st' v where
    r: "run_poll (net_dma n) (sm_poll sm t st) (VIRTIO_NET (net_virtio n)) = Some (st', v)" "vnet_wf v"
    by (auto simp: yields_def)
  let ?n = "n\<lparr>net_stack := Some st', net_virtio := (net_virtio n)\<lparr>VIRTIO_NET := v\<rparr>\<rparr>"
  have "net_inv ?n" using assms(1) r(2) by (simp add: net_inv_def)
  then have "polled n ?n" unfolding polled_def by blast
  then show ?thesis using Some r(1) by (simp add: poll_def)
qed

lemma poll_net_ok: "net_inv n \<Longrightarrow> stack_ok sm \<Longrightarrow> yields net_inv (poll sm t n)"
  by (rule yields_mono [OF poll_ok]) (simp_all add: polled_def)

lemma polled_staging: "polled n n' \<Longrightarrow> staging n' = staging n \<and> net_ready n' = net_ready n \<and> net_inv n'"
  by (auto simp: polled_def)

lemma net_inv_zero: "net_inv (net_zero dma)"
  using vnet_wf_new by (simp add: net_inv_def net_zero_def)

lemma with_tcp_yields:
  "net_inv n \<Longrightarrow> i < MAX_TCP_SOCKETS \<Longrightarrow> P bad \<Longrightarrow> (\<And>h st. yields P (f h st)) \<Longrightarrow> yields P (with_tcp i n bad f)"
  by (auto simp: with_tcp_def net_inv_def split: option.split)

lemma with_udp_yields:
  "net_inv n \<Longrightarrow> P bad \<Longrightarrow> (\<And>h st. yields P (f h st)) \<Longrightarrow> yields P (with_udp i n bad f)"
  by (auto simp: with_udp_def net_inv_def Let_def split: option.split)

abbreviation keeps_net :: "(usize \<times> ('h, 'n) net) option \<Rightarrow> bool" where
  "keeps_net \<equiv> yields (\<lambda>(v, n). net_inv n)"

lemma socket_ops_ok:
  assumes "net_inv n"
  shows "keeps_net (handle_socket_tcp sm n)" "keeps_net (handle_socket_udp sm n)" "keeps_net (handle_bind sm h p n)"
    "keeps_net (handle_listen sm h p n)" "keeps_net (handle_close sm h n)"
proof -
  show "keeps_net (handle_socket_tcp sm n)" "keeps_net (handle_socket_udp sm n)"
    using assms by (auto simp: handle_socket_tcp_def handle_socket_udp_def Let_def net_inv_def split: option.split prod.split)
  show "keeps_net (handle_bind sm h p n)" "keeps_net (handle_listen sm h p n)" "keeps_net (handle_close sm h n)"
    using assms unfolding handle_bind_def handle_listen_def handle_close_def
    by (auto simp: done_if_def intro!: with_tcp_yields with_udp_yields split: option.split)
qed

lemma one_page_copy: "n \<le> STAGING_SIZE \<Longrightarrow> unat (take_bit 12 (va :: usize)) + n \<le> 4096 * MAX_COPY_CHUNKS"
  using unat_take12 [of va] by (simp add: STAGING_SIZE_def MAX_COPY_CHUNKS_def)

lemma send_ok:
  assumes "net_inv n" "stack_ok sm"
  shows "keeps_net (handle_send L sm h va len ip port stp k n)"
proof -
  have staged: "yields (\<lambda>(s, n). net_inv n) (send_staged sm h len ip port n)" if "net_inv n" for n
    using that unfolding send_staged_def Let_def
    by (auto intro!: with_tcp_yields with_udp_yields split: prod.split sum.split)
  show ?thesis
  proof (cases "len = 0 \<or> of_nat STAGING_SIZE < len \<or> stp = 0")
    case False
    then have l: "unat len \<le> STAGING_SIZE" by (simp add: word_less_nat_alt STAGING_SIZE_def)
    have "length bytes = unat len" if "copy_from_user L (ram k) stp va len = Inr bytes" for bytes
      using that one_page_copy [OF l] by (auto simp: copy_from_user_cases split: if_splits)
    then have "net_inv (n\<lparr>staging := bytes @ drop (unat len) (staging n)\<rparr>)"
      if "copy_from_user L (ram k) stp va len = Inr bytes" for bytes
      using that assms l by (simp add: net_inv_def)
    moreover have "yields ((\<lambda>(v, n). net_inv n) \<circ> Pair v) (poll sm t n')" if "net_inv n'" for n' v t
      by (rule yields_mono [OF poll_net_ok [OF that assms(2)]]) simp
    ultimately show ?thesis
      using False l assms
      by (auto simp: handle_send_def net_inv_def [of n] split: sum.split simp del: comp_apply
          intro!: yields_bind [OF staged] split: option.split)
  qed (auto simp: handle_send_def assms)
qed

lemma net_inv_stage: "net_inv n \<Longrightarrow> length bytes \<le> STAGING_SIZE \<Longrightarrow> net_inv (stage bytes n)"
  by (simp add: net_inv_def stage_def)

lemma try_recv_ok:
  assumes "net_inv n" "stack_ok sm" "len \<le> STAGING_SIZE"
  shows "yields (\<lambda>(r, n'). net_inv n' \<and> (\<forall>l. r = Data l \<longrightarrow> l \<le> len)) (try_recv_once sm h len n)"
proof -
  have t: "length bytes \<le> len" if "tcp_recv sm h' len st = (Inr bytes, st')" for h' st bytes st'
    using assms(2) that unfolding stack_ok_def by blast
  have u: "length bytes \<le> len" if "udp_recv sm h' len st = (Inr bytes, st')" for h' st bytes st'
    using assms(2) that unfolding stack_ok_def by blast
  show ?thesis
    using assms(1,3) unfolding try_recv_once_def
    by (auto intro!: with_tcp_yields with_udp_yields net_inv_stage split: prod.split sum.split list.split bool.split
        dest!: t u)
qed

lemma deliver_ok:
  "net_inv n \<Longrightarrow> len \<le> STAGING_SIZE \<Longrightarrow> yields (\<lambda>(v, k'). \<exists>m. k' = k\<lparr>ram := m\<rparr>) (deliver L stp va len n k)"
proof -
  assume "net_inv n" "len \<le> STAGING_SIZE"
  moreover have "\<exists>m. k = k\<lparr>ram := m\<rparr>" by (rule exI [of _ "ram k"]) simp
  ultimately show ?thesis by (auto simp: deliver_def net_inv_def split: sum.split)
qed

section \<open>Requests\<close>

text \<open>The result of a request's handler: done with at most user memory changed, or blocked.\<close>

definition outcome_ok :: "kernel \<Rightarrow> NetOutcome \<times> kernel \<times> ('h, 'n) net \<Rightarrow> bool" where
  "outcome_ok k = (\<lambda>(r, k', n'). net_inv n' \<and>
     (case r of Done v \<Rightarrow> \<exists>m. k' = k\<lparr>ram := m\<rparr> | Blocked \<Rightarrow> syscall_ok k k' \<and> waiting_ok k'))"

lemma outcome_done: "net_inv n \<Longrightarrow> outcome_ok k (Done v, k, n)"
  by (simp add: outcome_ok_def) (rule exI [of _ "ram k"], simp)

lemma peer_ok_net: "peer_ok c p p' \<Longrightarrow> pr_state p' = BlockedNet \<Longrightarrow> p' = p"
proof -
  have r: "pr_state q = Ready \<or> q = p" if "peer_step c p q" for q
    using that by (cases rule: peer_step.cases) simp_all
  show "peer_ok c p p' \<Longrightarrow> pr_state p' = BlockedNet \<Longrightarrow> p' = p"
    by (auto simp: peer_ok_def dispatched_def dest: r)
qed

lemma waiting_syscall:
  assumes "waiting_ok k" "syscall_ok k k'"
    "pr_net_op (procs k' ! unat (current_pid k)) = NetRecv \<Longrightarrow>
     unat (pr_net_buf_len (procs k' ! unat (current_pid k))) \<le> STAGING_SIZE"
  shows "waiting_ok k'"
  unfolding waiting_ok_def
proof (intro allI impI)
  fix i :: nat
  assume i: "i < 8" "pr_state (procs k' ! i) = BlockedNet" "pr_net_op (procs k' ! i) = NetRecv"
  show "unat (pr_net_buf_len (procs k' ! i)) \<le> STAGING_SIZE"
  proof (cases "i = unat (current_pid k)")
    case False
    then have "procs k' ! i = procs k ! i"
      by (rule peer_ok_net [OF syscall_okD(2) [OF assms(2) i(1)] i(2)])
    then show ?thesis using assms(1) i by (simp add: waiting_ok_def)
  qed (use assms(3) i in simp)
qed

lemma block_on_ok:
  assumes ut: "user_trap k" and w: "waiting_ok k" and l: "nop = NetRecv \<Longrightarrow> unat len \<le> STAGING_SIZE"
  shows "yields (\<lambda>(r, k'). r = Blocked \<and> syscall_ok k k' \<and> waiting_ok k') (block_on cfg nop h va len k)"
proof -
  note U = user_trapD [OF ut]
  let ?c = "unat (current_pid k)"
  let ?p = "(procs k ! ?c)\<lparr>pr_net_op := nop, pr_net_socket := h, pr_net_buf_va := va, pr_net_buf_len := len,
    pr_state := BlockedNet\<rparr>"
  obtain k' where k': "schedule cfg (set_proc ?c ?p k) (current_pid k) = Some k'" "syscall_ok k k'"
    using block_self_ok [OF ut, of ?p cfg] by auto
  have "procs k' ! ?c = ?p\<lparr>pr_context := frame k\<rparr>"
    by (rule block_self_entry [OF ut _ _ _ _ k'(1)]) simp_all
  then have "waiting_ok k'" by (intro waiting_syscall [OF w k'(2)]) (simp add: l)
  moreover have "block_on cfg nop h va len k = Some (Blocked, k')"
    using U(4,7,8) k'(1) by (simp add: block_on_def Let_def upd_proc_set del: upd_proc_in)
  ultimately show ?thesis using k'(2) by simp
qed

lemma sync_ok: "keeps_net m \<Longrightarrow> yields (outcome_ok k) (sync k m)"
  by (auto simp: sync_def elim!: yields_mono intro: outcome_done)

lemma connect_ok:
  assumes "user_trap k" "waiting_ok k" "net_inv n" "stack_ok sm"
  shows "yields (outcome_ok k) (handle_connect cfg sm h ip port k n)"
proof -
  have b: "yields (outcome_ok k \<circ> (\<lambda>(r, k). (r, k, n'))) (block_on cfg NetConnect h 0 0 k)" if "net_inv n'" for n'
    by (rule yields_mono [OF block_on_ok [OF assms(1,2)]]) (use that in \<open>auto simp: outcome_ok_def\<close>)
  show ?thesis
    using assms(3) unfolding handle_connect_def
    by (auto intro!: with_tcp_yields outcome_done b yields_bind [OF poll_net_ok [OF _ assms(4)]] simp: Let_def
        simp del: comp_apply split: prod.split)
qed

lemma recv_ok:
  assumes "user_trap k" "waiting_ok k" "net_inv n" "stack_ok sm"
  shows "yields (outcome_ok k) (handle_recv cfg sm h va len k n)"
proof (cases "len = 0 \<or> of_nat STAGING_SIZE < len")
  case False
  then have l: "unat len \<le> STAGING_SIZE" by (simp add: word_less_nat_alt STAGING_SIZE_def)
  have b: "yields (outcome_ok k \<circ> (\<lambda>(r, k). (r, k, n'))) (block_on cfg NetRecv h va len k)" if "net_inv n'" for n'
    by (rule yields_mono [OF block_on_ok [OF assms(1,2) l]]) (use that in \<open>auto simp: outcome_ok_def\<close>)
  have d: "yields (outcome_ok k \<circ> (\<lambda>(v, k). (Done v, k, n'))) (deliver (lay cfg) stp va m n' k)"
    if "net_inv n'" "m \<le> unat len" for n' m stp
    by (rule yields_mono [OF deliver_ok [OF that(1) order.trans [OF that(2) l]]]) (use that in \<open>auto simp: outcome_ok_def\<close>)
  have sl: "length (staging n') = STAGING_SIZE" if "net_inv n'" for n' :: "('a, 'b) net"
    using that by (simp add: net_inv_def)
  show ?thesis
    unfolding handle_recv_def using False l user_trapD [OF assms(1)]
    by (auto simp: current_satp_def Let_def sl intro!: outcome_done assms(3) yields_bind [OF poll_net_ok [OF assms(3,4)]]
        yields_bind [OF try_recv_ok [OF _ assms(4) l]] b d split: RecvAttempt.split simp del: comp_apply)
qed (auto simp: handle_recv_def intro: outcome_done assms(3))

lemma dispatch_ok:
  assumes "user_trap k" "waiting_ok k" "net_inv n" "stack_ok sm"
  shows "yields (outcome_ok k) (net_dispatch cfg sm k n)"
proof -
  have "\<exists>stp. current_satp k = Some stp"
    using user_trapD [OF assms(1)] by (simp add: current_satp_def Let_def)
  then show ?thesis
    unfolding net_dispatch_def Let_def
    using connect_ok [OF assms] recv_ok [OF assms] sync_ok [OF send_ok [OF assms(3,4)]]
      sync_ok [OF socket_ops_ok(1) [OF assms(3)]] sync_ok [OF socket_ops_ok(2) [OF assms(3)]]
      sync_ok [OF socket_ops_ok(3) [OF assms(3)]] sync_ok [OF socket_ops_ok(4) [OF assms(3)]]
      sync_ok [OF socket_ops_ok(5) [OF assms(3)]] outcome_done [OF assms(3)]
    by auto
qed

text \<open>
  C28. A network request neither panics nor breaks isolation: with a stack that fills at most the slice it
  is given, \<open>handle_request\<close> returns, the kernel invariant and the network state's invariant hold
  afterwards, and the table entries of other processes change only by scheduling.
\<close>
theorem net_request_ok:
  assumes "user_trap k" "waiting_ok k" "net_inv n" "stack_ok sm"
  shows "\<exists>k' n'. handle_request cfg sm (k, n) = Some (k', n') \<and> syscall_ok k k' \<and> net_inv n' \<and> waiting_ok k'"
proof -
  let ?k = "advance k"
  have a: "user_trap ?k" "waiting_ok ?k" using assms(1,2) by (simp_all add: waiting_ok_def)
  have fin: "syscall_ok k (set_a0 v (?k\<lparr>ram := m\<rparr>)) \<and> waiting_ok (set_a0 v (?k\<lparr>ram := m\<rparr>))" for v m
    using assms(2) user_trapD(1) [OF assms(1)] by (auto simp: waiting_ok_def intro!: syscall_local)
  show ?thesis
  proof (cases "net_ready n")
    case True
    obtain r k' n' where d: "net_dispatch cfg sm ?k n = Some (r, k', n')" "outcome_ok ?k (r, k', n')"
      using dispatch_ok [OF a assms(3,4), of cfg] by (auto simp: yields_def)
    show ?thesis
    proof (cases r)
      case (Done v)
      then obtain m where "k' = ?k\<lparr>ram := m\<rparr>" "net_inv n'" using d(2) by (auto simp: outcome_ok_def)
      then show ?thesis using d(1) True Done fin [of v m] by (simp add: handle_request_def)
    qed (use d True in \<open>auto simp: handle_request_def outcome_ok_def\<close>)
  next
    case False
    have "syscall_ok k (set_a0 v ?k) \<and> waiting_ok (set_a0 v ?k)" for v
      using assms(2) user_trapD(1) [OF assms(1)] by (auto simp: waiting_ok_def intro!: syscall_local)
    then show ?thesis using assms(3) False by (simp add: handle_request_def)
  qed
qed

section \<open>Waking blocked processes\<close>

text \<open>
  What \<open>wake_blocked\<close> may do to a table entry: complete a blocked request, changing only \<open>a0\<close>, the state
  and the pending operation.
\<close>

definition net_woken :: "process \<Rightarrow> process \<Rightarrow> bool" where
  "net_woken p p' \<longleftrightarrow> p' = p \<or> pr_state p = BlockedNet \<and>
     (\<exists>v. p' = p\<lparr>pr_context := (pr_context p)\<lparr>tf_a0 := v\<rparr>, pr_net_op := NetNone, pr_state := Ready\<rparr>)"

definition wakes :: "kernel \<Rightarrow> kernel \<Rightarrow> bool" where
  "wakes k k' \<longleftrightarrow> (\<forall>i < 8. net_woken (procs k ! i) (procs k' ! i)) \<and> length (procs k') = length (procs k) \<and>
     current_pid k' = current_pid k \<and> satp k' = satp k \<and> irq_owners k' = irq_owners k \<and> frame k' = frame k"

lemma wakes_inv:
  assumes "wakes k k'" "kernel_inv k"
  shows "kernel_inv k'"
proof -
  note K = kernel_invD [OF assms(2)]
  have w: "net_woken (procs k ! i) (procs k' ! i)" if "i < 8" for i using assms(1) that by (simp add: wakes_def)
  have st: "pr_state (procs k' ! i) = Running \<longleftrightarrow> pr_state (procs k ! i) = Running"
    "pr_state (procs k' ! i) = Free \<longleftrightarrow> pr_state (procs k ! i) = Free"
    "pr_satp (procs k' ! i) = pr_satp (procs k ! i)"
    "user_mode (pr_context (procs k' ! i)) = user_mode (pr_context (procs k ! i))" if "i < 8" for i
    using w [OF that] by (auto simp: net_woken_def)
  have same: "length (procs k') = 8" "current_pid k' = current_pid k" "satp k' = satp k"
    "irq_owners k' = irq_owners k" "frame k' = frame k"
    using assms(1) K(1) by (simp_all add: wakes_def)
  show ?thesis
  proof (rule kernel_invI)
    fix i :: nat assume i: "i < 8"
    show "pr_state (procs k' ! i) = Running \<Longrightarrow> i = unat (current_pid k')"
      using K(5) [OF i] by (simp only: st [OF i] same)
    show "pr_state (procs k' ! i) = Running \<Longrightarrow> satp k' = pr_satp (procs k' ! i)"
      using K(6) [OF i] by (simp only: st [OF i] same)
    show "pr_state (procs k' ! i) \<noteq> Free \<Longrightarrow> user_mode (pr_context (procs k' ! i))"
      using K(7) [OF i] by (simp add: st [OF i])
    show "\<not> user_mode (frame k') \<Longrightarrow> pr_state (procs k' ! i) \<noteq> Running"
      using K(10) [OF _ i] by (simp add: st [OF i] same)
  next
    show "user_mode (frame k') \<Longrightarrow> pr_state (procs k' ! unat (current_pid k')) = Running"
      using K(9) by (simp only: same st [OF K(3)])
    show "pr_state (procs k' ! 0) = Free" using K(4) by (simp only: st)
  qed (use K(2,3,8) same in simp_all)
qed

lemma wakes_waiting: "wakes k k' \<Longrightarrow> waiting_ok k \<Longrightarrow> waiting_ok k'"
proof -
  assume w: "wakes k k'" and ok: "waiting_ok k"
  have "procs k' ! i = procs k ! i" if "i < 8" "pr_state (procs k' ! i) = BlockedNet" for i
    using w that by (auto simp: wakes_def net_woken_def)
  then show "waiting_ok k'" using ok unfolding waiting_ok_def by metis
qed

lemma net_woken_trans: "net_woken p q \<Longrightarrow> net_woken q r \<Longrightarrow> net_woken p r"
proof -
  assume pq: "net_woken p q" and qr: "net_woken q r"
  show ?thesis
  proof (cases "q = p")
    case False
    then have "pr_state q \<noteq> BlockedNet" using pq by (auto simp: net_woken_def)
    then show ?thesis using pq qr by (simp add: net_woken_def)
  qed (use qr in simp)
qed

lemma wakes_refl [simp]: "wakes k k"
  by (simp add: wakes_def net_woken_def)

lemma wakes_ram [simp]: "wakes k (k'\<lparr>ram := m\<rparr>) = wakes k k'" "wakes (k\<lparr>ram := m\<rparr>) k' = wakes k k'"
  by (simp_all add: wakes_def)

lemma wakes_trans: "wakes k k' \<Longrightarrow> wakes k' k'' \<Longrightarrow> wakes k k''"
  by (auto simp: wakes_def intro: net_woken_trans)

lemma complete_blocked_ok:
  assumes "unat pid < 8" "length (procs k) = 8" "pr_state (procs k ! unat pid) = BlockedNet"
  shows "yields (wakes k) (complete_blocked pid v k)"
proof -
  define q where "q = (procs k ! unat pid)\<lparr>pr_context := (pr_context (procs k ! unat pid))\<lparr>tf_a0 := v\<rparr>,
    pr_net_op := NetNone, pr_state := Ready\<rparr>"
  have "net_woken (procs k ! unat pid) q" using assms(3) unfolding net_woken_def q_def by blast
  then have "net_woken (procs k ! i) ((procs k)[unat pid := q] ! i)" if "i < 8" for i
    using that assms(2) by (cases "i = unat pid") (simp_all add: net_woken_def)
  then have "wakes k (set_proc (unat pid) q k)" by (simp add: wakes_def)
  moreover have "complete_blocked pid v k = Some (set_proc (unat pid) q k)"
    using assms(1,2) by (simp add: complete_blocked_def upd_proc_set q_def del: upd_proc_in)
  ultimately show ?thesis by simp
qed

abbreviation wake_post :: "kernel \<Rightarrow> kernel \<times> ('h, 'n) net \<Rightarrow> bool" where
  "wake_post k \<equiv> \<lambda>(k', n'). wakes k k' \<and> net_inv n'"

lemma finish_ok:
  "unat pid < 8 \<Longrightarrow> length (procs k) = 8 \<Longrightarrow> pr_state (procs k ! unat pid) = BlockedNet \<Longrightarrow> net_inv n \<Longrightarrow>
   yields (wake_post k) (do { k \<leftarrow> complete_blocked pid v k; Some (k, n) })"
  by (rule yields_bind [OF complete_blocked_ok]) simp_all

lemma wake_one_connect_ok:
  assumes "unat pid < 8" "length (procs k) = 8" "pr_state (procs k ! unat pid) = BlockedNet" "net_inv n"
  shows "yields (wake_post k) (wake_one_connect sm pid (k, n))"
  using assms finish_ok [OF assms] unfolding wake_one_connect_def
  by (auto simp: Let_def net_inv_def split: option.split)

lemma wake_one_recv_ok:
  assumes p: "unat pid < 8" "length (procs k) = 8" "pr_state (procs k ! unat pid) = BlockedNet"
    and n: "net_inv n" and sm: "stack_ok sm" and l: "unat (pr_net_buf_len (procs k ! unat pid)) \<le> STAGING_SIZE"
  shows "yields (wake_post k) (wake_one_recv L sm pid (k, n))"
proof -
  let ?p = "procs k ! unat pid"
  have del: "yields (wake_post k) (do { (a0, k) \<leftarrow> deliver L stp va len n' k; k \<leftarrow> complete_blocked pid a0 k; Some (k, n') })"
    if "net_inv n'" "len \<le> unat (pr_net_buf_len ?p)" for n' len stp va
  proof (rule yields_bind [OF deliver_ok [OF that(1) order.trans [OF that(2) l]]])
    fix x :: "usize \<times> kernel" assume "case x of (v, k') \<Rightarrow> \<exists>m. k' = k\<lparr>ram := m\<rparr>"
    then obtain v m where x: "x = (v, k\<lparr>ram := m\<rparr>)" by auto
    show "yields (wake_post k) (case x of (a0, k) \<Rightarrow> do { k \<leftarrow> complete_blocked pid a0 k; Some (k, n') })"
      using finish_ok [of pid "k\<lparr>ram := m\<rparr>" n' v] p that(1) by (simp add: x)
  qed
  have sl: "length (staging n) = STAGING_SIZE" using n by (simp add: net_inv_def)
  show ?thesis
    unfolding wake_one_recv_def using p l sl finish_ok [OF p]
    by (auto simp: Let_def intro!: yields_bind [OF try_recv_ok [OF n sm l]] del split: RecvAttempt.split)
qed

lemma wake_pid_ok:
  assumes "kernel_inv k" "waiting_ok k" "net_inv n" "stack_ok sm" "i < 8"
  shows "yields (wake_post k) (wake_pid L sm i (k, n))"
proof -
  have i: "unat (of_nat i :: usize) = i" using assms(5) by (intro unat_of_nat_small) simp
  note K = kernel_invD(1) [OF assms(1)]
  have l: "unat (pr_net_buf_len (procs k ! i)) \<le> STAGING_SIZE"
    if "pr_state (procs k ! i) = BlockedNet" "pr_net_op (procs k ! i) = NetRecv"
    using assms(2,5) that by (simp add: waiting_ok_def)
  show ?thesis
    using wake_one_recv_ok [of "of_nat i" k n sm L] wake_one_connect_ok [of "of_nat i" k n sm] assms K i l
    by (auto simp: wake_pid_def split: net_op.split)
qed

lemma wake_pids_ok:
  fixes n :: "('h, 'n) net"
  shows "kernel_inv k \<Longrightarrow> waiting_ok k \<Longrightarrow> net_inv n \<Longrightarrow> stack_ok sm \<Longrightarrow> set is \<subseteq> {..<8} \<Longrightarrow>
   yields (wake_post k) (wake_pids L sm is (k, n))"
proof (induction "is" arbitrary: k n)
  case (Cons i "is")
  show ?case
    unfolding wake_pids.simps
  proof (rule yields_bind [OF wake_pid_ok [OF Cons.prems(1-4)]])
    fix s :: "kernel \<times> ('h, 'n) net" assume s: "wake_post k s"
    then obtain k1 n1 where s1: "s = (k1, n1)" "wakes k k1" "net_inv n1" by auto
    have "yields (wake_post k1) (wake_pids L sm is (k1, n1))"
      by (rule Cons.IH) (use s1 Cons.prems in \<open>auto intro: wakes_inv wakes_waiting\<close>)
    then show "yields (wake_post k) (wake_pids L sm is s)"
      unfolding s1(1) by (rule yields_mono) (auto intro: wakes_trans [OF s1(2)])
  qed (use Cons.prems in auto)
qed simp

lemma wake_blocked_yields:
  fixes n :: "('h, 'n) net"
  assumes "kernel_inv k" "waiting_ok k" "net_inv n" "stack_ok sm"
  shows "yields (wake_post k) (do { n \<leftarrow> poll sm t n; wake_blocked L sm (k, n) })"
proof (rule yields_bind [OF poll_net_ok [OF assms(3,4)]])
  fix n' :: "('h, 'n) net" assume n': "net_inv n'"
  have "set [1..<unat MAX_PROCS] \<subseteq> {..<8}" by (auto simp: MAX_PROCS_def)
  then show "yields (wake_post k) (wake_blocked L sm (k, n'))"
    using wake_pids_ok [OF assms(1,2) n' assms(4), of "[1..<unat MAX_PROCS]" L] n'
    by (simp add: wake_blocked_def)
qed

lemma handle_interrupt_total: "vnet_wf v \<Longrightarrow> yields vnet_wf (virtio_handle_interrupt hw v)"
  using reclaim_tx_eq [of "write32 VIRTIO_MMIO_IRQ_ACK (read32 hw v VIRTIO_MMIO_IRQ_STATUS) v"]
  by (simp add: virtio_handle_interrupt_def vnet_wf_def write32_def)

lemma wakes_dev [simp]: "wakes k (k'\<lparr>dev := d\<rparr>) = wakes k k'"
  by (simp add: wakes_def)

text \<open>
  C29. The network part of a timer tick and of the device's interrupt does not panic, keeps the kernel
  invariant and changes no process except ones blocked on the network, each of which it either leaves
  alone or makes ready with a return value in \<open>a0\<close>; the driver's state, which the stack's poll drives
  through the receive and transmit tokens, stays well-formed.
\<close>
theorem net_events_ok:
  assumes "kernel_inv k" "waiting_ok k" "net_inv n" "stack_ok sm"
  shows "(\<exists>k' n'. net_tick L sm (k, n) = Some (k', n') \<and>
      wakes k k' \<and> kernel_inv k' \<and> waiting_ok k' \<and> net_inv n' \<and> vnet_wf (VIRTIO_NET (net_virtio n'))) \<and>
    (\<exists>k' n'. net_irq L sm hw irq (k, n) = Some (k', n') \<and>
      wakes k k' \<and> kernel_inv k' \<and> waiting_ok k' \<and> net_inv n' \<and> vnet_wf (VIRTIO_NET (net_virtio n')))"
proof -
  have post: "kernel_inv k'' \<and> waiting_ok k''" if "wakes k k''" for k''
    using wakes_inv wakes_waiting that assms(1,2) by blast
  have dev: "vnet_wf (VIRTIO_NET (net_virtio n'))" if "net_inv n'" for n' :: "('a, 'b) net"
    using that by (simp add: net_inv_def)
  have t: "yields (wake_post k) (net_tick L sm (k, n))"
    using wake_blocked_yields [OF assms, of "ticks k * 10" L] assms(3) by (simp add: net_tick_def)
  let ?g = "net_virtio n"
  obtain v where v: "virtio_handle_interrupt hw (VIRTIO_NET ?g) = Some v" "vnet_wf v"
    using handle_interrupt_total [OF dev [OF assms(3)]] by (auto simp: yields_def)
  have "net_inv (n\<lparr>net_virtio := ?g\<lparr>VIRTIO_NET := v\<rparr>\<rparr>)" using assms(3) v(2) by (simp add: net_inv_def)
  from wake_blocked_yields [OF assms(1,2) this assms(4), of "ticks k * 10" L]
  have i: "yields (wake_post k) (net_irq L sm hw irq (k, n))"
    using v(1) assms(3) unfolding net_irq_def Let_def
    by (auto simp: yields_def split: bind_splits)
  show ?thesis using t i post dev unfolding yields_def by blast
qed

section \<open>Data for a blocked receiver\<close>









text \<open>
  Sockets are never given back: closing one leaves its slot taken, so after four TCP sockets every
  further request for one fails, whatever has been closed in between.
\<close>

definition close_all :: "('h, 'n) smoltcp \<Rightarrow> usize list \<Rightarrow> ('h, 'n) net \<Rightarrow> ('h, 'n) net option" where
  "close_all sm hs n = fold (\<lambda>h r. r \<bind> (\<lambda>n. map_option snd (handle_close sm h n))) hs (Some n)"

lemma handle_close_count:
  "net_inv n \<Longrightarrow> yields (\<lambda>(v, n'). net_inv n' \<and> tcp_alloc_count n' = tcp_alloc_count n) (handle_close sm h n)"
  unfolding handle_close_def by (auto intro!: with_tcp_yields with_udp_yields)

lemma closed_sockets_leak:
  assumes "net_inv n" "tcp_alloc_count n = MAX_TCP_SOCKETS" "close_all sm hs n = Some n'"
  shows "handle_socket_tcp sm n' = Some (USIZE_MAX, n')"
proof -
  have "yields (\<lambda>n'. net_inv n' \<and> tcp_alloc_count n' = MAX_TCP_SOCKETS)
      (fold (\<lambda>h r. r \<bind> (\<lambda>n. map_option snd (handle_close sm h n))) hs r)"
    if "yields (\<lambda>n'. net_inv n' \<and> tcp_alloc_count n' = MAX_TCP_SOCKETS) r" for r
    using that
  proof (induction hs arbitrary: r)
    case (Cons h hs)
    have "yields (\<lambda>n'. net_inv n' \<and> tcp_alloc_count n' = MAX_TCP_SOCKETS)
        (r \<bind> (\<lambda>n. map_option snd (handle_close sm h n)))"
      by (rule yields_bind [OF Cons.prems]) (auto intro!: yields_mono [OF handle_close_count])
    then show ?case using Cons.IH by simp
  qed simp
  from this [of "Some n"] show ?thesis
    using assms by (simp add: close_all_def handle_socket_tcp_def)
qed

lemma socket_udp_handle:
  assumes "net_inv n"
  shows "yields (\<lambda>(u, n'). net_inv n' \<and> (u = USIZE_MAX \<or> unat u - MAX_TCP_SOCKETS < MAX_UDP_SOCKETS)) (handle_socket_udp sm n)"
proof (cases "MAX_UDP_SOCKETS \<le> udp_alloc_count n")
  case False
  then have u: "unat (of_nat (MAX_TCP_SOCKETS + udp_alloc_count n) :: usize) = MAX_TCP_SOCKETS + udp_alloc_count n"
    by (intro unat_of_nat_small) (simp add: net_sizes)
  show ?thesis
    using False assms u unfolding handle_socket_udp_def Let_def
    by (auto simp: net_inv_def simp del: of_nat_add split: option.split prod.split)
qed (use assms in \<open>simp add: handle_socket_udp_def\<close>)

lemma smoke_test_ok:
  fixes sm :: "('h, 'n) smoltcp"
  assumes "net_inv n" "stack_ok sm"
  shows "yields net_inv (smoke_test sm n)"
  unfolding smoke_test_def
proof (rule yields_bind [OF socket_udp_handle [OF assms(1)]])
  fix x :: "usize \<times> ('h, 'n) net"
  assume x: "case x of (u, n') \<Rightarrow> net_inv n' \<and> (u = USIZE_MAX \<or> unat u - MAX_TCP_SOCKETS < MAX_UDP_SOCKETS)"
  obtain u m where m: "x = (u, m)" by fastforce
  have rest: "yields net_inv (case net_stack n of None \<Rightarrow> Some n | Some st \<Rightarrow> do {
      e \<leftarrow> idx (udp_handles n) (unat u - MAX_TCP_SOCKETS);
      case e of None \<Rightarrow> Some n | Some h \<Rightarrow> poll sm 0 (n\<lparr>net_stack := Some (f h st)\<rparr>) })"
    if "net_inv n" "u \<noteq> USIZE_MAX" for n :: "('h, 'n) net" and f
  proof -
    have "unat u - MAX_TCP_SOCKETS < length (udp_handles n)" using x m that by (simp add: net_inv_def)
    then show ?thesis using that(1) by (auto intro!: poll_net_ok assms(2) split: option.split)
  qed
  show "yields net_inv (case x of (udp_handle, n) \<Rightarrow>
      if udp_handle = USIZE_MAX then Some n
      else do {
        (r, n) \<leftarrow> handle_bind sm udp_handle 12345 n;
        if r \<noteq> 0 then Some n
        else case net_stack n of
          None \<Rightarrow> Some n
        | Some st \<Rightarrow> do {
            e \<leftarrow> idx (udp_handles n) (unat udp_handle - MAX_TCP_SOCKETS);
            case e of
              None \<Rightarrow> Some n
            | Some h \<Rightarrow>
                poll sm 0 (n\<lparr>net_stack := Some (snd (udp_send sm h SMOKE_BYTES (10, 0, 2, 2) 12345 st))\<rparr>) } })"
    using x rest unfolding m by (auto intro!: yields_bind [OF socket_ops_ok(3)])
qed

section \<open>Instances\<close>

text \<open>A stack with one byte queue: what any socket sends, any socket receives.\<close>

definition loopback :: "(unit, u8 list) smoltcp" where
  "loopback = \<lparr>sm_new = (\<lambda>_. []), sm_poll = (\<lambda>_ q. Poll_End q), tcp_add = (\<lambda>_ q. ((), q)), udp_add = (\<lambda>_ q. ((), q)),
     udp_bind = (\<lambda>_ _ q. (True, q)), tcp_listen = (\<lambda>_ _ q. (True, q)), tcp_connect = (\<lambda>_ _ _ _ q. (True, q)),
     tcp_may_send = (\<lambda>_ _. True), tcp_may_recv = (\<lambda>_ _. True), tcp_is_active = (\<lambda>_ _. True),
     tcp_send = (\<lambda>_ b q. (Inr (length b), q @ b)), udp_send = (\<lambda>_ b _ _ q. (True, q @ b)),
     tcp_recv = (\<lambda>_ len q. (Inr (take len q), drop len q)),
     udp_recv = (\<lambda>_ len q. if q = [] then (Inl True, q) else (Inr (take len q), drop len q)),
     tcp_close = (\<lambda>_ q. q), udp_close = (\<lambda>_ q. q)\<rparr>"

definition no_dma :: dma_layout where
  "no_dma = \<lparr>desc_pa = (\<lambda>_. 0), avail_pa = (\<lambda>_. 0), used_pa = (\<lambda>_. 0), rx_buf_pa = (\<lambda>_. 0), tx_buf_pa = (\<lambda>_. 0)\<rparr>"

definition one_socket :: "u8 list \<Rightarrow> (unit, u8 list) net" where
  "one_socket q = (net_zero no_dma)\<lparr>net_stack := Some q, net_ready := True, tcp_handles := [Some (), None, None, None],
     tcp_alloc_count := 1\<rparr>"

text \<open>Process 1 asks for at most 16 bytes of socket 0.\<close>

definition recv_demo :: kernel where
  "recv_demo = (ipc_demo Ready 3)\<lparr>frame := (user_frame 0x50000000)\<lparr>tf_a0 := 3, tf_a1 := NET_RECV, tf_a2 := 0,
     tf_a3 := 0x7000, tf_a4 := 16\<rparr>\<rparr>"

lemma recv_demo_facts:
  "user_trap recv_demo" "waiting_ok recv_demo" "current_pid recv_demo = 1" "tf_a1 (frame recv_demo) = NET_RECV"
  "tf_a2 (frame recv_demo) = 0" "tf_a4 (frame recv_demo) = 16" "pr_satp (procs recv_demo ! 1) = 101"
proof -
  show "user_trap recv_demo"
    unfolding recv_demo_def
    by (rule user_trap_frame [OF ipc_demo_facts(1)]) (simp_all add: user_mode_def user_frame_def TrapFrame_zero_def)
  have "procs recv_demo ! i = proc_at i ([Free, Running, Ready, Free, Free, Free, Free, Free] ! i)" if "i < 8" for i
    using that by (simp add: recv_demo_def ipc_demo_def demo_kernel_def)
  then show "waiting_ok recv_demo" "pr_satp (procs recv_demo ! 1) = 101"
    by (simp_all add: waiting_ok_def proc_at_def Process_empty_def)
qed (simp_all add: recv_demo_def ipc_demo_facts)

lemma loopback_facts:
  "stack_ok loopback" "net_inv (one_socket q)" "net_ready (one_socket q)" "poll loopback t (one_socket q) = Some (one_socket q)"
  "try_recv_once loopback 0 16 (one_socket []) = Some (Empty, one_socket [])"
  "try_recv_once loopback 0 16 (one_socket [7, 8]) = Some (Data 2, stage [7, 8] (one_socket []))"
  using vnet_wf_new
  by (simp_all add: stack_ok_def loopback_def one_socket_def net_inv_def net_zero_def poll_def try_recv_once_def
      with_tcp_def net_sizes stage_def)

theorem net_request_ok_witness:
  "\<exists>k' n'. handle_request demo_cfg loopback (recv_demo, one_socket [7, 8]) = Some (k', n') \<and> syscall_ok recv_demo k'"
  using net_request_ok [OF recv_demo_facts(1,2) loopback_facts(2,1)] by blast

theorem net_events_ok_witness:
  "\<exists>k' n'. net_irq qemu_layout loopback willing_device 1
       (recv_demo, (one_socket [7, 8])\<lparr>net_virtio := \<lparr>VIRTIO_NET = new_uninit, VIRTIO_NET_READY = True, VIRTIO_NET_IRQ = 1\<rparr>\<rparr>) =
       Some (k', n') \<and>
     wakes recv_demo k' \<and> kernel_inv k'"
proof -
  let ?n = "(one_socket [7, 8])\<lparr>net_virtio := \<lparr>VIRTIO_NET = new_uninit, VIRTIO_NET_READY = True, VIRTIO_NET_IRQ = 1\<rparr>\<rparr>"
  have "net_inv ?n" using loopback_facts(2) [of "[7, 8]"] vnet_wf_new by (simp add: net_inv_def)
  from net_events_ok [OF user_trapD(1) [OF recv_demo_facts(1)] recv_demo_facts(2) this loopback_facts(1),
      of qemu_layout willing_device 1]
  show ?thesis by blast
qed




end
