(* ===== verification/Userlib_Net.thy ===== *)
theory Userlib_Net
  imports Userlib Net_Safe
begin

unbundle bit_operations_syntax

text \<open>
  The \<open>net\<close> module of \<open>userspace/hello/src/gooseos.rs\<close>, the client of the network server: each wrapper
  puts an opcode and its arguments into registers and calls process 3, which the kernel intercepts in a
  build with the \<open>net\<close> feature.  The theorems follow a request from the wrapper's arguments through the
  system call to the operation of the network stack and back to the value the wrapper returns.  A slice
  is the address and the length of its bytes.
\<close>

section \<open>Constants\<close>

definition lib_NET_PID :: usize where "lib_NET_PID = 3"
definition lib_NET_SYS_CALL :: usize where "lib_NET_SYS_CALL = 4"
definition lib_NET_STATUS :: usize where "lib_NET_STATUS = 0"
definition lib_NET_SOCKET_TCP :: usize where "lib_NET_SOCKET_TCP = 1"
definition lib_NET_SOCKET_UDP :: usize where "lib_NET_SOCKET_UDP = 2"
definition lib_NET_BIND :: usize where "lib_NET_BIND = 3"
definition lib_NET_CONNECT :: usize where "lib_NET_CONNECT = 4"
definition lib_NET_LISTEN :: usize where "lib_NET_LISTEN = 5"
definition lib_NET_SEND :: usize where "lib_NET_SEND = 7"
definition lib_NET_RECV :: usize where "lib_NET_RECV = 8"
definition lib_NET_CLOSE :: usize where "lib_NET_CLOSE = 9"
definition lib_NET_ERR :: usize where "lib_NET_ERR = - 1"

lemmas lib_net_defs =
  lib_NET_PID_def lib_NET_SYS_CALL_def lib_NET_STATUS_def lib_NET_SOCKET_TCP_def lib_NET_SOCKET_UDP_def lib_NET_BIND_def
  lib_NET_CONNECT_def lib_NET_LISTEN_def lib_NET_SEND_def lib_NET_RECV_def lib_NET_CLOSE_def

lemmas net_op_defs =
  NET_SERVER_PID_def NET_STATUS_def NET_SOCKET_TCP_def NET_SOCKET_UDP_def NET_BIND_def NET_CONNECT_def NET_LISTEN_def
  NET_SEND_def NET_RECV_def NET_CLOSE_def

section \<open>Wrappers\<close>

definition net_result :: "trap_frame \<Rightarrow> unit + usize" where
  "net_result f = (if tf_a0 f = lib_NET_ERR then Inl () else Inr (tf_a0 f))"

definition ncall :: "usize \<Rightarrow> usize \<Rightarrow> usize \<Rightarrow> usize \<Rightarrow> (unit + usize) wrapper" where
  "ncall opcode a1 a2 a3 =
     \<lparr>ins = [(A7, lib_NET_SYS_CALL), (A0, lib_NET_PID), (A1, opcode), (A2, a1), (A3, a2), (A4, a3)],
      outs = [A0], ret = net_result\<rparr>"

definition ncall6 :: "usize \<Rightarrow> usize \<Rightarrow> usize \<Rightarrow> usize \<Rightarrow> usize \<Rightarrow> usize \<Rightarrow> (unit + usize) wrapper" where
  "ncall6 opcode a1 a2 a3 a4 a5 =
     \<lparr>ins = [(A7, lib_NET_SYS_CALL), (A0, lib_NET_PID), (A1, opcode), (A2, a1), (A3, a2), (A4, a3), (A5, a4), (A6, a5)],
      outs = [A0], ret = net_result\<rparr>"

text \<open>\<open>Result::map(|_| ())\<close> on the value a wrapper returns.\<close>

definition discard :: "(unit + usize) wrapper \<Rightarrow> (unit + unit) wrapper" where
  "discard w = \<lparr>ins = ins w, outs = outs w, ret = (\<lambda>f. map_sum id (\<lambda>_. ()) (ret w f))\<rparr>"

definition net_status :: "(unit + usize) wrapper" where
  "net_status = ncall lib_NET_STATUS 0 0 0"

definition net_socket_udp :: "(unit + usize) wrapper" where
  "net_socket_udp = ncall lib_NET_SOCKET_UDP 0 0 0"

definition net_bind :: "usize \<Rightarrow> u16 \<Rightarrow> (unit + unit) wrapper" where
  "net_bind handle port = discard (ncall lib_NET_BIND handle (ucast port) 0)"

definition net_close :: "usize \<Rightarrow> (unit + unit) wrapper" where
  "net_close handle = discard (ncall lib_NET_CLOSE handle 0 0)"

definition net_socket_tcp :: "(unit + usize) wrapper" where
  "net_socket_tcp = ncall lib_NET_SOCKET_TCP 0 0 0"

definition net_listen :: "usize \<Rightarrow> u16 \<Rightarrow> (unit + unit) wrapper" where
  "net_listen handle port = discard (ncall lib_NET_LISTEN handle (ucast port) 0)"

definition pack_ip :: "ipv4 \<Rightarrow> usize" where
  "pack_ip ip = (case ip of (a, b, c, d) \<Rightarrow>
     push_bit 24 (ucast a) OR push_bit 16 (ucast b) OR push_bit 8 (ucast c) OR ucast d)"

definition net_connect :: "usize \<Rightarrow> ipv4 \<Rightarrow> u16 \<Rightarrow> (unit + unit) wrapper" where
  "net_connect handle ip port = discard (ncall lib_NET_CONNECT handle (pack_ip ip) (ucast port))"

definition send_udp_to :: "usize \<Rightarrow> ipv4 \<Rightarrow> u16 \<Rightarrow> usize \<Rightarrow> usize \<Rightarrow> (unit + usize) wrapper" where
  "send_udp_to handle ip port data_ptr data_len = ncall6 lib_NET_SEND handle data_ptr data_len (pack_ip ip) (ucast port)"

definition net_send :: "usize \<Rightarrow> usize \<Rightarrow> usize \<Rightarrow> (unit + usize) wrapper" where
  "net_send handle data_ptr data_len = ncall6 lib_NET_SEND handle data_ptr data_len 0 0"

definition net_recv :: "usize \<Rightarrow> usize \<Rightarrow> usize \<Rightarrow> (unit + usize) wrapper" where
  "net_recv handle buf_ptr buf_len = ncall lib_NET_RECV handle buf_ptr buf_len"

lemmas net_wrapper_defs =
  net_status_def net_socket_udp_def net_bind_def net_close_def net_socket_tcp_def net_listen_def net_connect_def
  send_udp_to_def net_send_def net_recv_def

section \<open>Arguments survive the registers\<close>

lemma byte_high: "8 \<le> i \<Longrightarrow> \<not> bit (x :: u8) i"
  using bit_imp_le_length [of x i] by auto

lemma bit_byte_mask: "bit (0xFF :: usize) i \<longleftrightarrow> i < 8"
  using bit_mask_iff [of 8 i, where ?'a = usize] by (auto simp: mask_numeral)

lemma bit_pack_ip:
  "bit (pack_ip (a, b, c, d)) i =
     (if i < 8 then bit d i else if i < 16 then bit c (i - 8) else if i < 24 then bit b (i - 16) else bit a (i - 24))"
  unfolding pack_ip_def prod.case bit_or_iff bit_push_bit_iff bit_ucast_iff
  by (auto simp: byte_high dest: bit_imp_le_length)

lemma pack_ip_byte:
  fixes x :: u8
  assumes "\<And>i. i < 8 \<Longrightarrow> bit w (n + i) = bit x i" "n + 8 \<le> 64"
  shows "ucast (drop_bit n (w :: usize) AND 0xFF) = x"
proof (rule bit_word_eqI)
  fix i assume "i < LENGTH(8)"
  then show "bit (ucast (drop_bit n w AND 0xFF) :: u8) i = bit x i"
    unfolding bit_ucast_iff bit_and_iff bit_drop_bit_eq bit_byte_mask using assms by simp
qed

lemma unpack_pack_ip [simp]: "unpack_ip (pack_ip ip) = ip"
proof -
  obtain a b c d where ip: "ip = (a, b, c, d)" by (cases ip) auto
  have "ucast (drop_bit 0 (pack_ip ip) AND 0xFF) = d" unfolding ip by (rule pack_ip_byte) (simp_all add: bit_pack_ip)
  then show ?thesis unfolding unpack_ip_def
    using pack_ip_byte [of "pack_ip ip" 24 a] pack_ip_byte [of "pack_ip ip" 16 b] pack_ip_byte [of "pack_ip ip" 8 c]
    by (simp add: ip bit_pack_ip)
qed

lemma port_cast [simp]: "ucast (ucast (p :: u16) :: usize) = p"
  by (rule bit_word_eqI) (auto simp: bit_simps)

lemma ncall_frame:
  "frame (enter (ncall opc x y z) k) = (frame k)\<lparr>tf_a7 := lib_NET_SYS_CALL, tf_a0 := lib_NET_PID, tf_a1 := opc,
     tf_a2 := x, tf_a3 := y, tf_a4 := z\<rparr>"
  "frame (enter (ncall6 opc x y z u v) k) = (frame k)\<lparr>tf_a7 := lib_NET_SYS_CALL, tf_a0 := lib_NET_PID, tf_a1 := opc,
     tf_a2 := x, tf_a3 := y, tf_a4 := z, tf_a5 := u, tf_a6 := v\<rparr>"
  "frame (enter (discard w) k) = frame (enter w k)"
  by (simp_all add: frame_enter ncall_def ncall6_def discard_def)

text \<open>The state in which a request is dispatched.\<close>

abbreviation asked :: "'r wrapper \<Rightarrow> kernel \<Rightarrow> kernel" where
  "asked w k \<equiv> advance (enter w k)"

definition answer :: "(NetOutcome \<times> kernel \<times> ('h, 'n) net) option \<Rightarrow> (kernel \<times> ('h, 'n) net) option" where
  "answer = map_option (\<lambda>(r, k, n). (case r of Done v \<Rightarrow> set_a0 v k | Blocked \<Rightarrow> k, n))"

lemma answer_done: "answer (Some (Done v, k, n)) = Some (set_a0 v k, n)"
  by (simp add: answer_def)

lemma current_satp_asked: "current_satp (asked w k) = current_satp k"
  unfolding current_satp_def get_proc_def Let_def by simp

lemma sys_call_net_answer:
  assumes "net_ready n" "tf_a0 (frame (enter w k)) = lib_NET_PID"
  shows "sys_call_net cfg sm (enter w k, n) = answer (net_dispatch cfg sm (asked w k) n)"
  using assms
  by (cases "net_dispatch cfg sm (asked w k) n")
     (auto simp: sys_call_net_def handle_request_def answer_def Let_def lib_net_defs net_op_defs)

section \<open>Properties\<close>

text \<open>
  The client library and the network server agree on the protocol: with the stack up, each wrapper
  reaches the operation of the server it is named after, with its handle, port, address, buffer and
  length in the positions the server reads them from.
\<close>

theorem net_client_protocol:
  assumes "net_ready n" "current_satp k = Some stp"
  shows "sys_call_net cfg sm (enter net_status k, n) = answer (Some (Done 1, asked net_status k, n)) \<and>
    sys_call_net cfg sm (enter net_socket_tcp k, n) = answer (sync (asked net_socket_tcp k) (handle_socket_tcp sm n)) \<and>
    sys_call_net cfg sm (enter net_socket_udp k, n) = answer (sync (asked net_socket_udp k) (handle_socket_udp sm n)) \<and>
    sys_call_net cfg sm (enter (net_bind h p) k, n) = answer (sync (asked (net_bind h p) k) (handle_bind sm h (ucast p) n)) \<and>
    sys_call_net cfg sm (enter (net_listen h p) k, n) = answer (sync (asked (net_listen h p) k) (handle_listen sm h (ucast p) n)) \<and>
    sys_call_net cfg sm (enter (net_close h) k, n) = answer (sync (asked (net_close h) k) (handle_close sm h n)) \<and>
    sys_call_net cfg sm (enter (net_connect h ip p) k, n) =
      answer (handle_connect cfg sm h (pack_ip ip) (ucast p) (asked (net_connect h ip p) k) n) \<and>
    sys_call_net cfg sm (enter (send_udp_to h ip p buf len) k, n) =
      answer (sync (asked (send_udp_to h ip p buf len) k)
        (handle_send (lay cfg) sm h buf len (pack_ip ip) (ucast p) stp (asked (send_udp_to h ip p buf len) k) n)) \<and>
    sys_call_net cfg sm (enter (net_send h buf len) k, n) =
      answer (sync (asked (net_send h buf len) k) (handle_send (lay cfg) sm h buf len 0 0 stp (asked (net_send h buf len) k) n)) \<and>
    sys_call_net cfg sm (enter (net_recv h buf len) k, n) =
      answer (handle_recv cfg sm h buf len (asked (net_recv h buf len) k) n)"
  by (intro conjI)
    (simp_all add: sys_call_net_answer [OF assms(1)] net_wrapper_defs ncall_frame net_dispatch_def lib_net_defs net_op_defs
      current_satp_asked assms(2) Let_def)

theorem net_client_protocol_witness:
  "sys_call_net demo_cfg loopback (enter (net_bind 4 9999) recv_demo, one_socket []) =
     answer (sync (asked (net_bind 4 9999) recv_demo) (handle_bind loopback 4 9999 (one_socket [])))"
proof -
  have "current_satp recv_demo = Some 101"
    using user_trapD(7) [OF recv_demo_facts(1)] recv_demo_facts(3,7) by (simp add: current_satp_def get_proc_def)
  then show ?thesis
    using net_client_protocol [OF loopback_facts(3), of recv_demo 101 demo_cfg loopback "[]" 4 9999] by simp
qed

text \<open>
  C34. A datagram end to end: when a process calls \<open>send_udp_to\<close> on an open UDP socket with a readable
  buffer of at most 4096 bytes, the network stack is handed exactly the bytes of the buffer, the address
  and the port of the call; if it takes the datagram, the stack is then polled on the device driver and the
  wrapper returns the length, and if it does not, the wrapper returns an error and the driver is left alone;
  no other register of the caller changes.
\<close>

theorem udp_send_exact:
  assumes "net_inv n" "net_ready n" "net_stack n = Some st"
    and "4 \<le> unat h" "unat h < 8" "udp_handles n ! (unat h - 4) = Some sock"
    and "current_satp k = Some stp" "stp \<noteq> 0" "len \<noteq> 0" "unat len \<le> STAGING_SIZE"
    and "copy_from_user (lay cfg) (ram k) stp buf len = Inr bytes"
    and "udp_send sm sock bytes ip p st = (ok, st')" "stack_ok sm"
  shows "\<exists>k' n'. sys_call_net cfg sm (enter (send_udp_to h ip p buf len) k, n) = Some (k', n') \<and>
    ret (send_udp_to h ip p buf len) (frame k') = (if ok then Inr len else Inl ()) \<and>
    (if ok then \<exists>st2 v. run_poll (net_dma n) (sm_poll sm (now_ms k) st') (VIRTIO_NET (net_virtio n)) = Some (st2, v) \<and>
       net_stack n' = Some st2 \<and> VIRTIO_NET (net_virtio n') = v
     else net_stack n' = Some st' \<and> net_virtio n' = net_virtio n) \<and>
    frame k' = returns_from (frame (enter (send_udp_to h ip p buf len) k)) (if ok then len else USIZE_MAX)"
proof -
  let ?w = "send_udp_to h ip p buf len" and ?n = "n\<lparr>staging := bytes @ drop (unat len) (staging n)\<rparr>"
  have lb: "length bytes = unat len"
    using assms(11) one_page_copy [OF assms(10)] by (auto simp: copy_from_user_cases split: if_splits)
  have li: "unat len \<le> length (staging n)" "length (udp_handles n) = 4"
    using assms(1,10) by (simp_all add: net_inv_def MAX_UDP_SOCKETS_def)
  have "\<not> 4 \<le> unat h - 4" using assms(4,5) by arith
  then have "send_staged sm h len (pack_ip ip) (ucast p) ?n = Some (if ok then Some len else None, ?n\<lparr>net_stack := Some st'\<rparr>)"
    using assms(3-6,12) lb li by (simp add: send_staged_def with_udp_def net_sizes Let_def)
  moreover have "\<not> of_nat STAGING_SIZE < len" using assms(10) by (simp add: word_less_nat_alt STAGING_SIZE_def)
  ultimately have hs: "handle_send (lay cfg) sm h buf len (pack_ip ip) (ucast p) stp (asked ?w k) n =
      (if ok then map_option (Pair len) (poll sm (now_ms k) (?n\<lparr>net_stack := Some st'\<rparr>))
       else Some (USIZE_MAX, ?n\<lparr>net_stack := Some st'\<rparr>))"
    using assms(8,9,11) li by (simp add: handle_send_def now_ms_def enter_def)
  have "len \<le> 4096" using assms(10) by (simp add: word_le_nat_alt STAGING_SIZE_def)
  moreover have "\<not> (- 1 :: usize) \<le> 4096" by code_simp
  ultimately have "len \<noteq> lib_NET_ERR" by (auto simp: lib_NET_ERR_def)
  moreover have "sys_call_net cfg sm (enter ?w k, n) = answer (sync (asked ?w k)
      (handle_send (lay cfg) sm h buf len (pack_ip ip) (ucast p) stp (asked ?w k) n))"
    using assms(2,7) by (simp add: sys_call_net_answer net_wrapper_defs ncall_frame net_dispatch_def lib_net_defs net_op_defs
        current_satp_asked Let_def)
  moreover obtain st2 v where "run_poll (net_dma n) (sm_poll sm (now_ms k) st') (VIRTIO_NET (net_virtio n)) = Some (st2, v)"
    using run_poll_total [of "sm_poll sm (now_ms k) st'" "VIRTIO_NET (net_virtio n)" "net_dma n"] assms(1,13)
    by (auto simp: stack_ok_def net_inv_def yields_def)
  ultimately show ?thesis unfolding hs
    by (simp add: answer_def sync_def poll_def returns_from_def send_udp_to_def ncall6_def net_result_def frame_enter
        lib_NET_ERR_def USIZE_MAX_def)
qed

theorem udp_send_exact_witness:
  "\<exists>m k' n'. sys_call_net demo_cfg loopback (enter (send_udp_to 4 (10, 0, 2, 3) 53 0x50000010 3)
       (set_proc 1 ((procs recv_demo ! 1)\<lparr>pr_satp := make_satp 0x80300000 0\<rparr>) (recv_demo\<lparr>ram := m\<rparr>)),
     (one_socket [])\<lparr>udp_handles := [Some (), None, None, None]\<rparr>) = Some (k', n') \<and>
     net_stack n' = Some [1, 2, 3] \<and> tf_a0 (frame k') = 3"
proof -
  let ?n = "(one_socket [])\<lparr>udp_handles := [Some (), None, None, None]\<rparr>" and ?stp = "make_satp 0x80300000 0"
  obtain m where m: "copy_from_user qemu_layout m ?stp 0x50000010 3 = Inr [1, 2, 3]"
    using user_copy_roundtrip_witness by blast
  let ?k = "set_proc 1 ((procs recv_demo ! 1)\<lparr>pr_satp := ?stp\<rparr>) (recv_demo\<lparr>ram := m\<rparr>)"
  have n: "net_inv ?n" "net_ready ?n" "net_stack ?n = Some []"
    using vnet_wf_new by (simp_all add: one_socket_def net_inv_def net_zero_def net_sizes)
  have k: "current_satp ?k = Some ?stp" "ram ?k = m" "?stp \<noteq> 0"
    using user_trapD(7) [OF recv_demo_facts(1)] recv_demo_facts(3)
    by (simp_all add: current_satp_def get_proc_def set_proc_def make_satp_def SATP_SV39_def)
  have c: "copy_from_user (lay demo_cfg) (ram ?k) ?stp 0x50000010 3 = Inr [1, 2, 3]"
    using m k(2) by (simp add: demo_cfg_def)
  show ?thesis
    using udp_send_exact [OF n _ _ _ k(1,3) _ _ c, of 4 "()" loopback "(10, 0, 2, 3)" 53 True "[1, 2, 3]"] loopback_facts(1)
    by (fastforce simp: loopback_def STAGING_SIZE_def returns_from_def)
qed

end
