(* ===== verification/Netsrv.thy ===== *)
theory Netsrv
  imports Userlib
begin

text \<open>
  \<open>userspace/netsrv\<close>: the network server as a process of its own, in its first stage.  It has its own
  copy of the system call wrappers, receives requests with up to two arguments, dispatches on the
  opcode and replies; every operation but the status request is still refused.  The kernel of the
  default build does not intercept calls to process 3, so a client reaches this server by ordinary
  message passing.
\<close>

section \<open>Its copy of the library\<close>

definition srv_SYS_PUTCHAR :: usize where "srv_SYS_PUTCHAR = 0"
definition srv_SYS_EXIT :: usize where "srv_SYS_EXIT = 1"
definition srv_SYS_RECEIVE :: usize where "srv_SYS_RECEIVE = 3"
definition srv_SYS_REPLY :: usize where "srv_SYS_REPLY = 5"
definition srv_SYS_GETPID :: usize where "srv_SYS_GETPID = 12"
definition srv_SYS_YIELD :: usize where "srv_SYS_YIELD = 13"
definition srv_ERR :: usize where "srv_ERR = - 1"

lemmas srv_defs =
  srv_SYS_PUTCHAR_def srv_SYS_EXIT_def srv_SYS_RECEIVE_def srv_SYS_REPLY_def srv_SYS_GETPID_def srv_SYS_YIELD_def

definition srv_putchar :: "u8 \<Rightarrow> unit wrapper" where
  "srv_putchar c = \<lparr>ins = [(A7, srv_SYS_PUTCHAR), (A0, ucast c)], outs = [], ret = (\<lambda>_. ())\<rparr>"

definition srv_exit :: "usize \<Rightarrow> unit wrapper" where
  "srv_exit code = \<lparr>ins = [(A7, srv_SYS_EXIT), (A0, code)], outs = [], ret = (\<lambda>_. ())\<rparr>"

definition srv_receive :: "usize \<Rightarrow> (usize \<times> usize) wrapper" where
  "srv_receive from = \<lparr>ins = [(A7, srv_SYS_RECEIVE), (A0, from)], outs = [A0, A1], ret = (\<lambda>f. (tf_a0 f, tf_a1 f))\<rparr>"

definition receive_ext :: "usize \<Rightarrow> (usize \<times> usize \<times> usize \<times> usize) wrapper" where
  "receive_ext from = \<lparr>ins = [(A7, srv_SYS_RECEIVE), (A0, from)], outs = [A0, A1, A2, A3],
     ret = (\<lambda>f. (tf_a0 f, tf_a1 f, tf_a2 f, tf_a3 f))\<rparr>"

definition srv_reply :: "usize \<Rightarrow> usize \<Rightarrow> (unit + unit) wrapper" where
  "srv_reply target val = \<lparr>ins = [(A7, srv_SYS_REPLY), (A0, target), (A1, val)], outs = [A0],
     ret = (\<lambda>f. if tf_a0 f = srv_ERR then Inl () else Inr ())\<rparr>"

definition srv_getpid :: "usize wrapper" where
  "srv_getpid = \<lparr>ins = [(A7, srv_SYS_GETPID)], outs = [A0], ret = tf_a0\<rparr>"

definition srv_yield :: "unit wrapper" where
  "srv_yield = \<lparr>ins = [(A7, srv_SYS_YIELD)], outs = [], ret = (\<lambda>_. ())\<rparr>"

text \<open>The copy is required to mirror the library of \<open>hello\<close>, and does.\<close>

lemma srv_mirrors:
  "srv_putchar = u_putchar" "srv_exit = u_exit" "srv_receive = u_receive" "srv_reply = u_reply" "srv_getpid = u_getpid"
  "srv_yield = u_yield"
  by (simp_all add: fun_eq_iff srv_putchar_def srv_exit_def srv_receive_def srv_reply_def srv_getpid_def srv_yield_def
      wrapper_defs lib_defs srv_defs unit_result_def [abs_def] lib_ERR_def srv_ERR_def)

section \<open>Requests\<close>

definition srv_NET_STATUS :: usize where "srv_NET_STATUS = 0"
definition srv_NET_SOCKET_TCP :: usize where "srv_NET_SOCKET_TCP = 1"
definition srv_NET_SOCKET_UDP :: usize where "srv_NET_SOCKET_UDP = 2"
definition srv_NET_BIND :: usize where "srv_NET_BIND = 3"
definition srv_NET_CONNECT :: usize where "srv_NET_CONNECT = 4"
definition srv_NET_LISTEN :: usize where "srv_NET_LISTEN = 5"
definition srv_NET_ACCEPT :: usize where "srv_NET_ACCEPT = 6"
definition srv_NET_SEND :: usize where "srv_NET_SEND = 7"
definition srv_NET_RECV :: usize where "srv_NET_RECV = 8"
definition srv_NET_CLOSE :: usize where "srv_NET_CLOSE = 9"
definition srv_NET_ERR :: usize where "srv_NET_ERR = - 1"

definition srv_handle_status :: usize where "srv_handle_status = 1"
definition srv_handle_socket_tcp :: usize where "srv_handle_socket_tcp = srv_NET_ERR"
definition srv_handle_socket_udp :: usize where "srv_handle_socket_udp = srv_NET_ERR"
definition srv_handle_bind :: "usize \<Rightarrow> usize \<Rightarrow> usize" where "srv_handle_bind handle port = srv_NET_ERR"
definition srv_handle_connect :: "usize \<Rightarrow> usize \<Rightarrow> usize" where "srv_handle_connect handle packed_ip_port = srv_NET_ERR"
definition srv_handle_listen :: "usize \<Rightarrow> usize" where "srv_handle_listen handle = srv_NET_ERR"
definition srv_handle_accept :: "usize \<Rightarrow> usize" where "srv_handle_accept handle = srv_NET_ERR"
definition srv_handle_send :: "usize \<Rightarrow> usize \<Rightarrow> usize" where "srv_handle_send handle buf_info = srv_NET_ERR"
definition srv_handle_recv :: "usize \<Rightarrow> usize \<Rightarrow> usize" where "srv_handle_recv handle buf_info = srv_NET_ERR"
definition srv_handle_close :: "usize \<Rightarrow> usize" where "srv_handle_close handle = srv_NET_ERR"

definition srv_dispatch :: "usize \<Rightarrow> usize \<Rightarrow> usize \<Rightarrow> usize" where
  "srv_dispatch opcode arg1 arg2 =
     (if opcode = srv_NET_STATUS then srv_handle_status
      else if opcode = srv_NET_SOCKET_TCP then srv_handle_socket_tcp
      else if opcode = srv_NET_SOCKET_UDP then srv_handle_socket_udp
      else if opcode = srv_NET_BIND then srv_handle_bind arg1 arg2
      else if opcode = srv_NET_CONNECT then srv_handle_connect arg1 arg2
      else if opcode = srv_NET_LISTEN then srv_handle_listen arg1
      else if opcode = srv_NET_ACCEPT then srv_handle_accept arg1
      else if opcode = srv_NET_SEND then srv_handle_send arg1 arg2
      else if opcode = srv_NET_RECV then srv_handle_recv arg1 arg2
      else if opcode = srv_NET_CLOSE then srv_handle_close arg1
      else srv_NET_ERR)"

section \<open>The server process\<close>

text \<open>What \<open>main\<close> prints before the loop.\<close>

definition netsrv_start :: "(kernel \<Rightarrow> usize \<Rightarrow> u8) \<Rightarrow> kcfg \<Rightarrow> kernel \<Rightarrow> kernel option" where
  "netsrv_start uload cfg k =
     do { (pid, k) \<leftarrow> invoke uload cfg srv_getpid k;
          k \<leftarrow> write_str uload cfg (bytes_of ''[netsrv] starting (PID '' @ decimal (unat pid) @ bytes_of '')'' @ [10]) k;
          k \<leftarrow> (if pid \<noteq> 3
                then write_str uload cfg (bytes_of ''[netsrv] WARNING: expected PID 3, got '' @ decimal (unat pid) @
                       [0x20, 0xE2, 0x80, 0x94, 0x20] @ bytes_of ''clients won'' @ [0x27] @ bytes_of ''t find us'' @ [10]) k
                else Some k);
          write_str uload cfg (bytes_of ''[netsrv] awaiting IPC requests...'' @ [10]) k }"

text \<open>
  One turn of the loop is split where the server waits: the call that asks for a request, and the work
  from the moment that call has returned.
\<close>

definition netsrv_wait :: "(kernel \<Rightarrow> usize \<Rightarrow> u8) \<Rightarrow> kcfg \<Rightarrow> kernel \<Rightarrow> trap_result option" where
  "netsrv_wait uload cfg k = handle_ecall uload cfg (enter (receive_ext 0) k)"

definition netsrv_serve :: "(kernel \<Rightarrow> usize \<Rightarrow> u8) \<Rightarrow> kcfg \<Rightarrow> kernel \<Rightarrow> ((unit + unit) \<times> kernel) option" where
  "netsrv_serve uload cfg k =
     (case ret (receive_ext 0) (frame k) of
        (opcode, sender, arg1, arg2) \<Rightarrow> invoke uload cfg (srv_reply sender (srv_dispatch opcode arg1 arg2)) k)"

lemma netsrv_start_prints:
  assumes "user_trap k"
  shows "\<exists>k'. netsrv_start uload cfg k = Some k' \<and> only_prints
    (bytes_of ''[netsrv] starting (PID '' @ decimal (unat (current_pid k)) @ bytes_of '')'' @ [10] @
     (if current_pid k \<noteq> 3
      then bytes_of ''[netsrv] WARNING: expected PID 3, got '' @ decimal (unat (current_pid k)) @ [0x20, 0xE2, 0x80, 0x94, 0x20] @
        bytes_of ''clients won'' @ [0x27] @ bytes_of ''t find us'' @ [10] else []) @
     bytes_of ''[netsrv] awaiting IPC requests...'' @ [10]) k k'"
proof -
  obtain k1 where k1: "invoke uload cfg srv_getpid k = Some (current_pid k, k1)" "only_prints [] k k1"
    using invoke_getpid [OF assms] unfolding srv_mirrors by blast
  have W: "\<exists>k3. write_str uload cfg cs k2 = Some k3 \<and> only_prints (bs @ cs) k k3" if "only_prints bs k k2" for bs cs k2
    using write_str_prints [OF only_prints_trap [OF assms that]] only_prints_trans [OF that] by blast
  let ?a = "bytes_of ''[netsrv] starting (PID '' @ decimal (unat (current_pid k)) @ bytes_of '')'' @ [10]"
  let ?b = "bytes_of ''[netsrv] WARNING: expected PID 3, got '' @ decimal (unat (current_pid k)) @
    [0x20, 0xE2, 0x80, 0x94, 0x20] @ bytes_of ''clients won'' @ [0x27] @ bytes_of ''t find us'' @ [10]"
  let ?c = "bytes_of ''[netsrv] awaiting IPC requests...'' @ [10]"
  obtain k2 where k2: "write_str uload cfg ?a k1 = Some k2" "only_prints ([] @ ?a) k k2" using W [OF k1(2)] by blast
  show ?thesis
  proof (cases "current_pid k = 3")
    case True
    obtain k3 where "write_str uload cfg ?c k2 = Some k3" "only_prints (([] @ ?a) @ ?c) k k3" using W [OF k2(2)] by blast
    then show ?thesis using k1(1) k2(1) True by (intro exI [of _ k3]) (simp add: netsrv_start_def)
  next
    case False
    obtain k3 where k3: "write_str uload cfg ?b k2 = Some k3" "only_prints (([] @ ?a) @ ?b) k k3" using W [OF k2(2)] by blast
    obtain k4 where "write_str uload cfg ?c k3 = Some k4" "only_prints ((([] @ ?a) @ ?b) @ ?c) k k4" using W [OF k3(2)] by blast
    then show ?thesis using k1(1) k2(1) k3(1) False by (intro exI [of _ k4]) (simp add: netsrv_start_def)
  qed
qed

section \<open>A call meets a waiting server\<close>

lemma call_meets:
  assumes ut: "user_trap k" and v: "is_valid_ipc_target (tf_a0 (frame k)) (current_pid k)"
    and w: "waits_for (current_pid k) (procs k ! unat (tf_a0 (frame k)))" and e: "sys_call cfg k = Some k1"
  shows "pr_state (procs k1 ! unat (current_pid k)) = BlockedCall"
    "pr_ipc_target (procs k1 ! unat (current_pid k)) = tf_a0 (frame k)"
    "pr_context (procs k1 ! unat (current_pid k)) = frame (advance k)"
    "pr_state (procs k1 ! unat (tf_a0 (frame k))) \<in> {Ready, Running}"
    "pr_context (procs k1 ! unat (tf_a0 (frame k))) = (pr_context (procs k ! unat (tf_a0 (frame k))))
       \<lparr>tf_a0 := tf_a1 (frame k), tf_a1 := current_pid k, tf_a2 := tf_a2 (frame k), tf_a3 := tf_a3 (frame k)\<rparr>"
proof -
  let ?c = "current_pid k" and ?t = "tf_a0 (frame k)" and ?p = "procs k ! unat (tf_a0 (frame k))"
  let ?e = "call_entry ?t (tf_a1 (frame k)) (tf_a2 (frame k)) (tf_a3 (frame k)) (procs k ! unat ?c)"
  let ?q = "?p\<lparr>pr_context := (pr_context ?p)\<lparr>tf_a0 := tf_a1 (frame k), tf_a1 := ?c, tf_a2 := tf_a2 (frame k),
    tf_a3 := tf_a3 (frame k)\<rparr>, pr_state := Ready\<rparr>"
  let ?k = "set_proc (unat ?t) ?q (advance k)"
  have tc: "0 < unat ?t" "unat ?t < 8" "unat ?t \<noteq> unat ?c" using v by (simp_all add: valid_target_unat)
  have "peer_step ?c ?p ?q" using w by (intro peer_deliver_call) (simp_all add: waits_for_def)
  then have ut': "user_trap ?k" using set_proc_peer [of "advance k" "unat ?t" ?c ?q] ut tc by simp
  have s: "schedule cfg (set_proc (unat (current_pid ?k)) ?e ?k) (current_pid ?k) = Some k1"
    using e v w sys_call_eq [OF ut, of cfg] by (simp add: Let_def)
  have me: "procs k1 ! unat ?c = ?e\<lparr>pr_context := frame (advance k)\<rparr>"
    using block_self_entry [OF ut', of ?e cfg k1] s tc(3) by simp
  show "pr_state (procs k1 ! unat ?c) = BlockedCall" "pr_ipc_target (procs k1 ! unat ?c) = ?t"
    "pr_context (procs k1 ! unat ?c) = frame (advance k)"
    by (simp_all add: me call_entry_def)
  have "dispatched (procs ?k ! unat ?t) (procs k1 ! unat ?t)"
    using block_dispatched [OF ut' _ _ _ _ _ _ s tc(2)] tc user_trapD(2) [OF ut'] running_context [OF ut]
    by simp
  then show "pr_state (procs k1 ! unat ?t) \<in> {Ready, Running}"
    "pr_context (procs k1 ! unat ?t) = (pr_context ?p)
       \<lparr>tf_a0 := tf_a1 (frame k), tf_a1 := ?c, tf_a2 := tf_a2 (frame k), tf_a3 := tf_a3 (frame k)\<rparr>"
    using tc user_trapD(7) [OF ut] by (auto simp: dispatched_def)
qed

text \<open>
  C35. A client's call is answered by the server process: when a process calls the server while that
  waits in \<open>receive_ext\<close>, then over every run of the machine, with other processes and interrupts, in
  which the server is not handed the hart by a \<open>SYS_YIELD\<close> of another process, once the server runs
  its turn of the loop replies to the caller, which becomes ready with the answer that \<open>dispatch\<close>
  gives for the opcode and the two arguments of the call, and its other registers as at the call.  A
  \<open>SYS_YIELD\<close> that resumes the server writes zero over the opcode it is about to return in \<open>a0\<close>.
\<close>

theorem netsrv_answers:
  assumes "user_trap k" "tf_a7 (frame k) = SYS_CALL" "is_valid_ipc_target (tf_a0 (frame k)) (current_pid k)"
    and "waits_for (current_pid k) (procs k ! unat (tf_a0 (frame k)))"
    and "handle_ecall uload cfg k = Some (Resume k1)"
    and "unyielded_run uload cfg (unat (tf_a0 (frame k))) k1 k2" "user_mode (frame k2)" "current_pid k2 = tf_a0 (frame k)"
  shows "\<exists>k3. netsrv_serve uload cfg k2 = Some (Inr (), k3) \<and> pr_state (procs k3 ! unat (current_pid k)) = Ready \<and>
    pr_context (procs k3 ! unat (current_pid k)) =
      returns_from (frame k) (srv_dispatch (tf_a1 (frame k)) (tf_a2 (frame k)) (tf_a3 (frame k)))"
proof -
  let ?c = "current_pid k" and ?t = "tf_a0 (frame k)"
  have e: "sys_call cfg k = Some k1"
    using assms(2,5) by (simp add: handle_ecall_def HANDLERS_def sys_defs handlers_sys_call_def)
  note M = call_meets [OF assms(1,3,4) e]
  note inv = syscall_okD(1) [OF handle_ecall_ok(1) [OF assms(1,5)]]
  note c8 = user_trapD(4) [OF assms(1)]
  have t8: "0 < unat ?t" "unat ?t < 8" "unat ?t \<noteq> unat ?c" using assms(3) by (simp_all add: valid_target_unat)
  have k2: "kernel_inv k2" "same_call (procs k1 ! unat ?c) (procs k2 ! unat ?c)"
    using call_waits [OF unyielded_parked [OF assms(6)] inv c8 M(1)] M(2) by simp_all
  have f: "frame k2 = pr_context (procs k1 ! unat ?t)"
  proof (cases "pr_state (procs k1 ! unat ?t) = Running")
    case True
    then have k12: "k2 = k1" using parked_run_running [OF unyielded_parked [OF assms(6)]] by simp
    moreover have "entry_loaded k k1" using ecall_loaded [OF assms(1,5)] assms(2) by (simp add: sys_defs)
    ultimately show ?thesis using assms(7,8) t8(3) by (auto simp: entry_loaded_def loaded_def)
  next
    case False
    then show ?thesis using unyielded_run_frame [OF assms(6) inv t8(2) _ assms(7)] assms(8) M(4) by simp
  qed
  have r: "ret (receive_ext 0) (frame k2) = (tf_a1 (frame k), ?c, tf_a2 (frame k), tf_a3 (frame k))"
    unfolding f M(5) by (simp add: receive_ext_def)
  let ?r = "srv_reply ?c (srv_dispatch (tf_a1 (frame k)) (tf_a2 (frame k)) (tf_a3 (frame k)))"
  have ut: "user_trap (enter ?r k2)" using k2(1) assms(7) by (intro enter_trap) (simp add: user_trap_def)
  have "is_valid_ipc_target ?c ?t" using user_trapD(3,4) [OF assms(1)] t8 by (simp add: valid_target_unat)
  then have rep: "sys_reply (enter ?r k2) = Some (set_a0 0 (set_proc (unat ?c) ((procs k2 ! unat ?c)
      \<lparr>pr_context := (pr_context (procs k2 ! unat ?c))\<lparr>tf_a0 := srv_dispatch (tf_a1 (frame k)) (tf_a2 (frame k)) (tf_a3 (frame k))\<rparr>,
       pr_state := Ready\<rparr>) (advance (enter ?r k2))))"
    using sys_reply_eq [OF ut] k2(2) M(1,2) assms(8) by (simp add: Let_def same_call_def frame_enter srv_reply_def)
  have "handle_ecall uload cfg (enter ?r k2) = map_option Resume (sys_reply (enter ?r k2))"
    by (simp add: handle_ecall_def HANDLERS_def sys_defs frame_enter srv_reply_def srv_defs)
  then show ?thesis
    using rep k2 M(3) c8 kernel_invD(1) [OF k2(1)]
    by (simp add: netsrv_serve_def r invoke_def srv_reply_def srv_ERR_def same_call_def returns_from_def)
qed

theorem netsrv_answers_witness:
  "\<exists>k1 k3. handle_ecall (\<lambda>_ _. 0) demo_cfg (enter (u_call 2 srv_NET_STATUS) (ipc_demo BlockedRecv 0)) = Some (Resume k1) \<and>
     netsrv_serve (\<lambda>_ _. 0) demo_cfg k1 = Some (Inr (), k3) \<and> tf_a0 (pr_context (procs k3 ! 1)) = 1"
proof -
  let ?k = "enter (u_call 2 srv_NET_STATUS) (ipc_demo BlockedRecv 0)"
  note F = ipc_demo_facts [of BlockedRecv 0, simplified]
  have ut: "user_trap ?k" by (rule enter_trap [OF F(1)])
  have fr: "tf_a7 (frame ?k) = SYS_CALL" "tf_a0 (frame ?k) = 2" "tf_a1 (frame ?k) = 0"
    by (simp_all add: frame_enter u_call_def lib_defs sys_defs srv_NET_STATUS_def)
  have v: "is_valid_ipc_target 2 1" by (simp add: valid_target_unat)
  have w: "waits_for 1 (proc_at 2 BlockedRecv)" by (simp add: waits_for_def proc_at_def Process_empty_def)
  let ?q = "(proc_at 2 BlockedRecv)\<lparr>pr_context := (pr_context (proc_at 2 BlockedRecv))
    \<lparr>tf_a0 := 0, tf_a1 := 1, tf_a2 := tf_a2 (frame ?k), tf_a3 := tf_a3 (frame ?k)\<rparr>, pr_state := Ready\<rparr>"
  let ?e = "call_entry 2 0 (tf_a2 (frame ?k)) (tf_a3 (frame ?k)) (proc_at 1 Running)"
  let ?b = "set_proc 1 ?e (set_proc 2 ?q (advance ?k))"
  have l: "length (procs (ipc_demo BlockedRecv 0)) = 8" using user_trapD(7) [OF F(1)] .
  have st: "states ?b = [Free, BlockedCall, Ready, Free, Free, Free, Free, Free]"
    using F(6) by (simp add: states_def map_update call_entry_def)
  have nr: "next_ready (states ?b) 1 = Some 2" unfolding st by (rule demo_next(2))
  let ?k1 = "resume 2 (save 1 ?b)"
  have "schedule demo_cfg ?b 1 = Some ?k1"
    using schedule_eq [of 1 ?b demo_cfg] nr l by (simp add: call_entry_def)
  then have "sys_call demo_cfg ?k = Some ?k1"
    using sys_call_eq [OF ut, of demo_cfg] fr F v w by (simp add: Let_def)
  then have e: "handle_ecall (\<lambda>_ _. 0) demo_cfg ?k = Some (Resume ?k1)"
    using fr(1) by (simp add: handle_ecall_def HANDLERS_def sys_defs handlers_sys_call_def)
  have k1: "current_pid ?k1 = 2" "tf_a0 (frame ?k1) = 0" "user_mode (frame ?k1)"
    using l by (simp_all add: proc_at_def user_mode_def user_frame_def TrapFrame_zero_def)
  show ?thesis
    using netsrv_answers [OF ut fr(1) _ _ e unyielded_here k1(3)] fr F v w k1 e
    by (auto simp: srv_dispatch_def srv_NET_STATUS_def srv_handle_status_def returns_from_def)
qed

text \<open>
  \<open>receive\<close> does not declare the registers a call delivers its two further arguments in, although the
  kernel writes them for every call that meets a waiting receiver; \<open>receive_ext\<close> does.
\<close>

lemma receive_undeclared:
  assumes "user_trap k" "is_valid_ipc_target (tf_a0 (frame k)) (current_pid k)"
    and "waits_for (current_pid k) (procs k ! unat (tf_a0 (frame k)))" "sys_call cfg k = Some k1"
  shows "get_reg A2 (pr_context (procs k1 ! unat (tf_a0 (frame k)))) = tf_a2 (frame k) \<and>
    get_reg A3 (pr_context (procs k1 ! unat (tf_a0 (frame k)))) = tf_a3 (frame k) \<and>
    {A2, A3} \<inter> set (outs (u_receive from)) = {} \<and> {A2, A3} \<subseteq> set (outs (receive_ext from))"
  using call_meets(5) [OF assms] by (simp add: u_receive_def receive_ext_def)

end
