(* ===== verification/Asm.thy ===== *)
theory Asm
  imports Userlib
begin

unbundle bit_operations_syntax

text \<open>
  The assembly programs of \<open>lifecycle.rs\<close>.  Instructions and labels are those of the source; the place
  of a process in its program is the index of its next instruction, which stands for the program counter
  the kernel saves and restores with the other registers.  Loads and stores go through the page table of
  the running process, to memory or to the UART, and raise a page fault where it has no user mapping;
  the UART's transmitter is always ready.  System calls and faults enter the trap handler.
\<close>

section \<open>Instructions\<close>

datatype asm_instr =
    Li reg usize
  | Mv reg reg
  | Addi reg reg usize
  | Andi reg reg usize
  | Lbu reg usize reg
  | Lw reg usize reg
  | Sb reg usize reg
  | Beqz reg string
  | Bne reg reg string
  | Jump string
  | La reg string
  | Ecall
  | Label string

section \<open>User memory\<close>

definition user_pa :: "kernel \<Rightarrow> pte_flags \<Rightarrow> usize \<Rightarrow> usize option" where
  "user_pa k need va =
     (case walk (satp_to_root (satp k)) va (tree k) of
        None \<Rightarrow> None
      | Some w \<Rightarrow> if flags_contains (wr_flags w) PTE_USER \<and> flags_contains (wr_flags w) need then Some (wr_phys w) else None)"

definition is_uart_pa :: "usize \<Rightarrow> bool" where
  "is_uart_pa pa \<longleftrightarrow> UART_BASE \<le> pa \<and> pa < UART_BASE + 0x100"

text \<open>A read of the line status register or of the receive buffer, a write of the transmit register.\<close>

definition uart_lbu :: "usize \<Rightarrow> devices \<Rightarrow> u8 \<times> devices" where
  "uart_lbu off d =
     (if off = 0 then (case getc d of (None, d) \<Rightarrow> (0, d) | (Some c, d) \<Rightarrow> (c, d))
      else if off = 5 then (if uart_rx d = [] then 0x60 else 0x61, d)
      else (uart_regs d (unat off), d))"

definition uart_sb :: "usize \<Rightarrow> u8 \<Rightarrow> devices \<Rightarrow> devices" where
  "uart_sb off b d = (if off = 0 then putc d b else d\<lparr>uart_regs := (uart_regs d)(unat off := b)\<rparr>)"

definition user_lbu :: "kernel \<Rightarrow> usize \<Rightarrow> (u8 \<times> kernel) option" where
  "user_lbu k va =
     map_option (\<lambda>pa. if is_uart_pa pa then (case uart_lbu (pa - UART_BASE) (dev k) of (b, d) \<Rightarrow> (b, k\<lparr>dev := d\<rparr>))
                      else (ram k pa, k)) (user_pa k PTE_READ va)"

definition user_sb :: "kernel \<Rightarrow> usize \<Rightarrow> u8 \<Rightarrow> kernel option" where
  "user_sb k va b =
     map_option (\<lambda>pa. if is_uart_pa pa then k\<lparr>dev := uart_sb (pa - UART_BASE) b (dev k)\<rparr>
                      else k\<lparr>ram := (ram k)(pa := b)\<rparr>) (user_pa k PTE_WRITE va)"

section \<open>Execution\<close>

datatype effect = Next kernel | Goto string kernel | Exc usize

definition setr :: "reg \<Rightarrow> usize \<Rightarrow> kernel \<Rightarrow> kernel" where
  "setr r v k = k\<lparr>frame := set_reg (r, v) (frame k)\<rparr>"

abbreviation getr :: "reg \<Rightarrow> kernel \<Rightarrow> usize" where
  "getr r k \<equiv> get_reg r (frame k)"

fun asm_exec :: "(string \<Rightarrow> usize) \<Rightarrow> asm_instr \<Rightarrow> kernel \<Rightarrow> effect" where
  "asm_exec lbl (Li r v) k = Next (setr r v k)"
| "asm_exec lbl (Mv r q) k = Next (setr r (getr q k) k)"
| "asm_exec lbl (Addi r q v) k = Next (setr r (getr q k + v) k)"
| "asm_exec lbl (Andi r q v) k = Next (setr r (getr q k AND v) k)"
| "asm_exec lbl (Lbu r off q) k = (case user_lbu k (getr q k + off) of None \<Rightarrow> Exc 13 | Some (b, k) \<Rightarrow> Next (setr r (ucast b) k))"
| "asm_exec lbl (Lw r off q) k =
     (case user_pa k PTE_READ (getr q k + off) of
        None \<Rightarrow> Exc 13
      | Some pa \<Rightarrow> Next (setr r (scast (word_rcat [ram k (pa + 3), ram k (pa + 2), ram k (pa + 1), ram k pa] :: u32)) k))"
| "asm_exec lbl (Sb r off q) k = (case user_sb k (getr q k + off) (ucast (getr r k)) of None \<Rightarrow> Exc 15 | Some k \<Rightarrow> Next k)"
| "asm_exec lbl (Beqz r l) k = (if getr r k = 0 then Goto l k else Next k)"
| "asm_exec lbl (Bne r q l) k = (if getr r k \<noteq> getr q k then Goto l k else Next k)"
| "asm_exec lbl (Jump l) k = Goto l k"
| "asm_exec lbl (La r l) k = Next (setr r (lbl l) k)"
| "asm_exec lbl Ecall k = Exc 8"
| "asm_exec lbl (Label l) k = Next k"

text \<open>
  One step of the machine with process \<open>i\<close> running program \<open>prog i\<close>: nothing happens while the kernel
  idles.  A fault ends the process, so that its place no longer matters.
\<close>

definition asm_step :: "(kernel \<Rightarrow> usize \<Rightarrow> u8) \<Rightarrow> kcfg \<Rightarrow> (nat \<Rightarrow> asm_instr list) \<Rightarrow> (string \<Rightarrow> usize) \<Rightarrow>
    (nat \<Rightarrow> nat) \<times> kernel \<Rightarrow> ((nat \<Rightarrow> nat) \<times> kernel) option" where
  "asm_step uload cfg prog lbl = (\<lambda>(pcs, k).
     let c = unat (current_pid k); pc = pcs c in
     if \<not> user_mode (frame k) \<or> length (prog c) \<le> pc then None
     else case asm_exec lbl (prog c ! pc) k of
       Next k' \<Rightarrow> Some (pcs(c := Suc pc), k')
     | Goto l k' \<Rightarrow> map_option (\<lambda>n. (pcs(c := n), k')) (find (\<lambda>n. prog c ! n = Label l) [0..<length (prog c)])
     | Exc code \<Rightarrow>
         (case trap_handler uload cfg \<lparr>ev_scause = code, ev_claim = 0, ev_time = 0\<rparr> k of
            Some (Resume k') \<Rightarrow> Some (pcs(c := Suc pc), k')
          | _ \<Rightarrow> None))"

definition asm_runs :: "(kernel \<Rightarrow> usize \<Rightarrow> u8) \<Rightarrow> kcfg \<Rightarrow> (nat \<Rightarrow> asm_instr list) \<Rightarrow> (string \<Rightarrow> usize) \<Rightarrow>
    (nat \<Rightarrow> nat) \<times> kernel \<Rightarrow> (nat \<Rightarrow> nat) \<times> kernel \<Rightarrow> bool" where
  "asm_runs uload cfg prog lbl = (\<lambda>s s'. asm_step uload cfg prog lbl s = Some s')\<^sup>*\<^sup>*"

lemma runs_refl [simp, intro]: "asm_runs uload cfg prog lbl s s"
  by (simp add: asm_runs_def)

lemma runs_trans [trans]:
  "asm_runs uload cfg prog lbl s s1 \<Longrightarrow> asm_runs uload cfg prog lbl s1 s2 \<Longrightarrow> asm_runs uload cfg prog lbl s s2"
  unfolding asm_runs_def by (rule rtranclp_trans)

lemma runs_step: "asm_step uload cfg prog lbl s = Some s1 \<Longrightarrow> asm_runs uload cfg prog lbl s s1"
  unfolding asm_runs_def by (rule r_into_rtranclp)

section \<open>Reasoning about programs\<close>

definition asm_at :: "asm_instr list \<Rightarrow> nat \<Rightarrow> asm_instr list \<Rightarrow> bool" where
  "asm_at p pc js \<longleftrightarrow> take (length js) (drop pc p) = js"

lemma asm_at_Nil [simp]: "asm_at p pc []"
  by (simp add: asm_at_def)

lemma asm_at_Cons: "asm_at p pc (i # js) \<longleftrightarrow> pc < length p \<and> p ! pc = i \<and> asm_at p (Suc pc) js"
  by (cases "pc < length p") (auto simp: asm_at_def Cons_nth_drop_Suc [symmetric])

lemma asm_at_append: "asm_at p pc (js1 @ js2) \<Longrightarrow> asm_at p pc js1 \<and> asm_at p (pc + length js1) js2"
proof (induction js1 arbitrary: pc)
  case (Cons i js1)
  then show ?case using Cons.IH [of "Suc pc"] by (simp add: asm_at_Cons)
qed simp

lemma run_next:
  assumes "user_mode (frame k)" "asm_at (prog (unat (current_pid k))) (pcs (unat (current_pid k))) (i # js)"
    "asm_exec lbl i k = Next k'"
  shows "asm_runs uload cfg prog lbl (pcs, k) (pcs(unat (current_pid k) := Suc (pcs (unat (current_pid k)))), k')"
  using assms by (intro runs_step) (simp add: asm_step_def Let_def asm_at_Cons)

lemma run_goto:
  assumes "user_mode (frame k)" "asm_at (prog (unat (current_pid k))) (pcs (unat (current_pid k))) (i # js)"
    "asm_exec lbl i k = Goto l k'"
    "find (\<lambda>n. prog (unat (current_pid k)) ! n = Label l) [0..<length (prog (unat (current_pid k)))] = Some n"
  shows "asm_runs uload cfg prog lbl (pcs, k) (pcs(unat (current_pid k) := n), k')"
  using assms by (intro runs_step) (simp add: asm_step_def Let_def asm_at_Cons)

lemma trap_ecall: "trap_handler uload cfg \<lparr>ev_scause = 8, ev_claim = a, ev_time = t\<rparr> k = handle_ecall uload cfg k"
  by (simp add: trap_handler_def)

lemma run_ecall:
  assumes "user_mode (frame k)" "asm_at (prog (unat (current_pid k))) (pcs (unat (current_pid k))) (Ecall # js)"
    "handle_ecall uload cfg k = Some (Resume k')"
  shows "asm_runs uload cfg prog lbl (pcs, k) (pcs(unat (current_pid k) := Suc (pcs (unat (current_pid k)))), k')"
  using assms by (intro runs_step) (simp add: asm_step_def Let_def asm_at_Cons trap_ecall)

text \<open>Loading constants and calling the kernel, as the wrappers of the library do.\<close>

lemma run_ins:
  assumes "user_mode (frame k)" "asm_at (prog (unat (current_pid k))) (pcs (unat (current_pid k))) (map (\<lambda>(r, v). Li r v) rvs @ Ecall # js)"
    "handle_ecall uload cfg (k\<lparr>frame := fold set_reg rvs (frame k)\<rparr>) = Some (Resume k')"
  shows "asm_runs uload cfg prog lbl (pcs, k) (pcs(unat (current_pid k) := pcs (unat (current_pid k)) + length rvs + 1), k')"
  using assms
proof (induction rvs arbitrary: pcs k)
  case Nil
  then show ?case using run_ecall [of k prog pcs js uload cfg k' lbl] by (simp add: fun_upd_def)
next
  case (Cons rv rvs)
  obtain r v where rv: "rv = (r, v)" by (cases rv)
  let ?c = "unat (current_pid k)"
  have "asm_runs uload cfg prog lbl (pcs, k) (pcs(?c := Suc (pcs ?c)), setr r v k)"
    by (rule run_next [OF Cons.prems(1), where i = "Li r v" and js = "map (\<lambda>(r, v). Li r v) rvs @ Ecall # js"])
      (use Cons.prems(2) rv in simp_all)
  also have "asm_runs uload cfg prog lbl (pcs(?c := Suc (pcs ?c)), setr r v k)
      ((pcs(?c := Suc (pcs ?c)))(unat (current_pid (setr r v k)) :=
        (pcs(?c := Suc (pcs ?c))) (unat (current_pid (setr r v k))) + length rvs + 1), k')"
    by (rule Cons.IH) (use Cons.prems rv in \<open>simp_all add: setr_def asm_at_Cons\<close>)
  finally have "asm_runs uload cfg prog lbl (pcs, k) (pcs(?c := Suc (Suc (pcs ?c + length rvs))), k')"
    by (simp add: setr_def)
  then show ?case by (simp add: fun_upd_def)
qed

definition putc_code :: "usize \<Rightarrow> asm_instr list" where
  "putc_code b = [Li A7 0, Li A0 b, Ecall]"

lemma run_putc:
  assumes "user_trap k" "asm_at (prog (unat (current_pid k))) (pcs (unat (current_pid k))) (putc_code b @ js)"
  shows "\<exists>k'. asm_runs uload cfg prog lbl (pcs, k) (pcs(unat (current_pid k) := pcs (unat (current_pid k)) + 3), k') \<and>
    only_prints [ucast b] k k'"
proof -
  let ?k = "k\<lparr>frame := fold set_reg [(A7, 0), (A0, b)] (frame k)\<rparr>"
  let ?k' = "advance (set_a0 0 (?k\<lparr>dev := putc (dev k) (ucast b)\<rparr>))"
  have "handle_ecall uload cfg ?k = Some (Resume ?k')"
    by (simp add: handle_ecall_def HANDLERS_def sys_defs sys_putchar_def Let_def)
  then have "asm_runs uload cfg prog lbl (pcs, k) (pcs(unat (current_pid k) := pcs (unat (current_pid k)) + 3), ?k')"
    using run_ins [where rvs = "[(A7, 0), (A0, b)]", OF user_trapD(2) [OF assms(1)], of prog pcs js uload cfg ?k' lbl]
      assms(2) by (simp add: putc_code_def numeral_3_eq_3)
  moreover have "only_prints [ucast b] k ?k'"
    using user_trapD(2) [OF assms(1)] by (simp add: only_prints_def putc_def user_mode_def)
  ultimately show ?thesis by blast
qed

end
