(* ===== verification/Launch.thy ===== *)
theory Launch
  imports Boot
begin

unbundle bit_operations_syntax

text \<open>
  \<open>launch\<close> in its other builds: with the feature \<open>security-test\<close> it starts the security self-test as the only
  process, with \<open>rust-user\<close> the compiled program \<open>hello\<close> from its ELF image.  All three end by entering
  process 1, which is split off here.
\<close>

definition enter_first :: "kernel \<Rightarrow> kernel option" where
  "enter_first k = do {
     p1 \<leftarrow> get_proc k 1;
     k \<leftarrow> upd_proc 1 (\<lambda>p. p\<lparr>pr_state := Running\<rparr>) (k\<lparr>current_pid := 1\<rparr>);
     Some (k\<lparr>satp := pr_satp p1,
       frame := (frame k)\<lparr>tf_sepc := tf_sepc (pr_context p1), tf_sp := tf_sp (pr_context p1),
                         tf_sstatus := (tf_sstatus (frame k) AND NOT (push_bit 8 1)) OR push_bit 5 1\<rparr>\<rparr>)
   }"

definition launch_security_test :: "kcfg \<Rightarrow> usize \<Rightarrow> usize \<Rightarrow> kernel \<Rightarrow> kernel option" where
  "launch_security_test cfg test_start test_size k =
     do { k \<leftarrow> create_process cfg 1 test_start test_size k; enter_first k }"

text \<open>The image, embedded in the kernel at \<open>hello_elf\<close>, is parsed; an image that does not parse is a panic.\<close>

definition launch_rust_user :: "kcfg \<Rightarrow> usize \<Rightarrow> usize \<Rightarrow> kernel \<Rightarrow> kernel option" where
  "launch_rust_user cfg hello_elf len k =
     (case parse (\<lambda>off. ram k (hello_elf + off)) len of
        Inl _ \<Rightarrow> None
      | Inr info \<Rightarrow> do { k \<leftarrow> create_process_from_elf cfg 1 info hello_elf k; enter_first k })"

lemma launch_enters:
  "launch cfg img k = do {
     k \<leftarrow> create_process cfg 1 (init_start img) (init_size img) k;
     k \<leftarrow> create_process cfg 2 (uart_start img) (uart_size img) k;
     p2 \<leftarrow> get_proc k 2;
     k \<leftarrow> map_user_page k (satp_to_root (pr_satp p2)) UART_USER_VA UART_BASE USER_MMIO;
     enter_first k }"
  by (simp add: launch_def enter_first_def)

text \<open>Entering process 1 of a table that has only just been filled.\<close>

lemma enter_first_user:
  assumes "length (procs k) = 8" "length (irq_owners k) = 64" "\<forall>i < 64. unat (irq_owners k ! i) < 8"
    and t: "\<And>i. i < 8 \<Longrightarrow> pr_state (procs k ! i) \<noteq> Running"
      "\<And>i. i < 8 \<Longrightarrow> pr_state (procs k ! i) \<noteq> Free \<Longrightarrow> user_mode (pr_context (procs k ! i))"
    and z: "pr_state (procs k ! 0) = Free" "pr_state (procs k ! 1) = Ready"
  obtains k' where "enter_first k = Some k'" "user_trap k'" "current_pid k' = 1" "ram k' = ram k" "page_bitmap k' = page_bitmap k"
    "dev k' = dev k" "procs k' = (procs k)[1 := (procs k ! 1)\<lparr>pr_state := Running\<rparr>]" "satp k' = pr_satp (procs k ! 1)"
    "tf_sepc (frame k') = tf_sepc (pr_context (procs k ! 1))"
proof -
  let ?p = "procs k ! 1"
  let ?f = "(frame k)\<lparr>tf_sepc := tf_sepc (pr_context ?p), tf_sp := tf_sp (pr_context ?p),
    tf_sstatus := (tf_sstatus (frame k) AND NOT (push_bit 8 1)) OR push_bit 5 1\<rparr>"
  let ?k' = "k\<lparr>current_pid := 1, procs := (procs k)[1 := ?p\<lparr>pr_state := Running\<rparr>], satp := pr_satp ?p, frame := ?f\<rparr>"
  have e: "enter_first k = Some ?k'" using assms(1) by (simp add: enter_first_def)
  have "(x AND NOT (push_bit 8 1) OR push_bit 5 1) AND push_bit 8 (1 :: usize) = push_bit 5 1 AND push_bit 8 1" for x
    by (rule bit_word_eqI) (auto simp del: push_bit_of_1 push_bit_numeral simp: bit_simps)
  then have um: "user_mode (frame ?k')" by (simp add: user_mode_def push_bit_eq_mult)
  have nth: "procs ?k' ! i = (if i = 1 then ?p\<lparr>pr_state := Running\<rparr> else procs k ! i)" if "i < 8" for i
    using that assms(1) by (simp add: nth_list_update)
  have pm: "user_mode (pr_context ?p)" by (rule t(2)) (use z in simp_all)
  have "kernel_inv ?k'"
  proof (rule kernel_invI)
    show "i = unat (current_pid ?k')" "satp ?k' = pr_satp (procs ?k' ! i)" if "i < 8" "pr_state (procs ?k' ! i) = Running" for i
      using that t(1) [of i] nth [of i] by (auto split: if_splits)
    show "user_mode (pr_context (procs ?k' ! i))" if "i < 8" "pr_state (procs ?k' ! i) \<noteq> Free" for i
      using that t(2) [of i] nth [of i] pm by (auto split: if_splits)
    show "pr_state (procs ?k' ! 0) = Free" using nth [of 0] z by simp
    show "pr_state (procs ?k' ! unat (current_pid ?k')) = Running" using assms(1) by simp
    show "pr_state (procs ?k' ! i) \<noteq> Running" if "\<not> user_mode (frame ?k')" for i using that um by blast
  qed (use assms(1-3) in simp_all)
  then have "user_trap ?k'" using um by (simp add: user_trap_def)
  then show thesis by (intro that [OF e]) simp_all
qed

lemma launch_rust_user_ok:
  assumes b: "boot_ready cfg img R k"
  shows "parse (\<lambda>off. ram k (hello_elf + off)) len = Inl er \<Longrightarrow> launch_rust_user cfg hello_elf len k = None"
    "parse (\<lambda>off. ram k (hello_elf + off)) len = Inr info \<Longrightarrow> launch_rust_user cfg hello_elf len k = Some k' \<Longrightarrow>
      user_trap k' \<and> states k' = [Free, Running, Free, Free, Free, Free, Free, Free] \<and> tf_sepc (frame k') = elf_entry info"
proof -
  show "parse (\<lambda>off. ram k (hello_elf + off)) len = Inl er \<Longrightarrow> launch_rust_user cfg hello_elf len k = None"
    by (simp add: launch_rust_user_def)
  assume p: "parse (\<lambda>off. ram k (hello_elf + off)) len = Inr info" and l: "launch_rust_user cfg hello_elf len k = Some k'"
  have ps: "procs k = replicate 8 Process_empty" "irq_owners k = replicate 64 0" using b by (simp_all add: boot_ready_def)
  obtain r s where s: "build_elf_space (lay cfg) ram hello_elf info k = Some (r, s)"
    using p l by (auto simp: launch_rust_user_def create_process_from_elf_def split: bind_splits)
  note V = vm_only_kernel [OF build_elf_space_only [OF s]]
  let ?n = "new_process 1 (make_satp r 1) (elf_entry info) (STACK_VA + PAGE_SIZE) 0"
  let ?k1 = "set_proc 1 ?n s"
  have len: "length (procs s) = 8" using V(1) ps by simp
  have c: "create_process_from_elf cfg 1 info hello_elf k = Some ?k1"
    using s len by (simp add: create_process_from_elf_def MAX_PROCS_def set_proc_def)
  have nth: "procs ?k1 ! i = (if i = 1 then ?n else Process_empty)" if "i < 8" for i
    using that V(1) ps by (simp add: nth_list_update)
  obtain k'' where e: "enter_first ?k1 = Some k''" "user_trap k''" "procs k'' = (procs ?k1)[1 := (procs ?k1 ! 1)\<lparr>pr_state := Running\<rparr>]"
    "tf_sepc (frame k'') = tf_sepc (pr_context (procs ?k1 ! 1))"
  proof (rule enter_first_user [of ?k1])
    show "pr_state (procs ?k1 ! i) \<noteq> Running" "pr_state (procs ?k1 ! i) \<noteq> Free \<Longrightarrow> user_mode (pr_context (procs ?k1 ! i))"
      if "i < 8" for i using nth [OF that] by (auto simp: Process_empty_def split: if_splits)
    show "pr_state (procs ?k1 ! 0) = Free" using nth [of 0] by (simp add: Process_empty_def)
  qed (use len V(4) ps in simp_all)
  have "k' = k''" using l p c e(1) by (simp add: launch_rust_user_def)
  moreover have "states k'' = [Free, Running, Free, Free, Free, Free, Free, Free]"
    using e(3) V(1) ps by (simp add: states_def Process_empty_def numeral_eq_Suc)
  ultimately show "user_trap k' \<and> states k' = [Free, Running, Free, Free, Free, Free, Free, Free] \<and> tf_sepc (frame k') = elf_entry info"
    using e(2,4) len by (simp add: new_process_def)
qed

end
