(* ===== verification/Security_Test.thy ===== *)
theory Security_Test
  imports Asm Launch
begin

text \<open>
  The security self-test of \<open>lifecycle.rs\<close> (feature \<open>security-test\<close>): a user program that makes eight
  system calls the kernel has to refuse, prints for each whether it was refused, and finally reads
  kernel memory, which has to end it.  The theorem is that the kernel passes its own test.
\<close>

section \<open>The program\<close>

text \<open>What follows each attempt: compare the result with \<open>-1\<close>, print \<open>P\<close> or \<open>F\<close>, the number and a line feed.\<close>

definition sec_check :: "usize \<Rightarrow> string \<Rightarrow> string \<Rightarrow> asm_instr list" where
  "sec_check n fail_l done_l =
     [Li T0 (- 1), Bne A0 T0 fail_l] @ putc_code 0x50 @ [Jump done_l, Label fail_l] @ putc_code 0x46 @
     [Label done_l] @ putc_code n @ putc_code 10"

definition sec_t1_t4 :: "asm_instr list" where
  "sec_t1_t4 =
     [Li A7 255, Li A0 0, Ecall] @ sec_check 0x31 ''t1_fail'' ''t1_done'' @
     [Li A7 6, Li A0 0x80200000, Li A1 0x80200000, Li A2 0, Ecall] @ sec_check 0x32 ''t2_fail'' ''t2_done'' @
     [Li A7 7, Li A0 0x80200000, Ecall] @ sec_check 0x33 ''t3_fail'' ''t3_done'' @
     [Li A7 2, Li A0 0, Li A1 0xDEAD, Ecall] @ sec_check 0x34 ''t4_fail'' ''t4_done''"

definition sec_t5_t8 :: "asm_instr list" where
  "sec_t5_t8 =
     [Li A7 12, Ecall, Mv S0 A0, Li A7 2, Mv A0 S0, Li A1 0xDEAD, Ecall] @ sec_check 0x35 ''t5_fail'' ''t5_done'' @
     [Li A7 6, Li A0 0x5E000001, Li A1 0x5E001000, Li A2 0, Ecall] @ sec_check 0x36 ''t6_fail'' ''t6_done'' @
     [Li A7 9, Li A0 0x80200000, Li A1 1, Ecall] @ sec_check 0x37 ''t7_fail'' ''t7_done'' @
     [Li A7 2, Li A0 99, Li A1 0xDEAD, Ecall] @ sec_check 0x38 ''t8_fail'' ''t8_done''"

definition sec_t9 :: "asm_instr list" where
  "sec_t9 =
     putc_code 0x4B @ putc_code 0x39 @ putc_code 10 @
     [Li T0 0x80200000, Lw T1 0 T0] @
     putc_code 0x21 @ putc_code 0x21 @ putc_code 0x21 @ putc_code 10 @
     [Li A7 1, Li A0 99, Ecall, Label ''1'', Jump ''1'']"

definition security_test :: "asm_instr list" where
  "security_test = sec_t1_t4 @ sec_t5_t8 @ sec_t9"

section \<open>Pieces of a run\<close>

text \<open>Process \<open>c\<close>, at place \<open>pc\<close> in state \<open>k\<close>, gets to a place and a state where \<open>Q\<close> holds.\<close>

definition leads :: "(kernel \<Rightarrow> usize \<Rightarrow> u8) \<Rightarrow> kcfg \<Rightarrow> (nat \<Rightarrow> asm_instr list) \<Rightarrow> (string \<Rightarrow> usize) \<Rightarrow> nat \<Rightarrow> nat \<Rightarrow> kernel \<Rightarrow>
    (nat \<Rightarrow> kernel \<Rightarrow> bool) \<Rightarrow> bool" where
  "leads uload cfg prog lbl c pc k Q \<longleftrightarrow>
     (\<exists>pc' k'. (\<forall>pcs. asm_runs uload cfg prog lbl (pcs(c := pc), k) (pcs(c := pc'), k')) \<and> Q pc' k')"

lemma leads_here: "Q pc k \<Longrightarrow> leads uload cfg prog lbl c pc k Q"
  unfolding leads_def by blast

lemma leads_runs:
  assumes "\<And>pcs. asm_runs uload cfg prog lbl (pcs(c := pc), k) (pcs(c := pc'), k')" "leads uload cfg prog lbl c pc' k' Q"
  shows "leads uload cfg prog lbl c pc k Q"
  using assms runs_trans unfolding leads_def by blast

lemma leads_next:
  assumes "user_trap k \<and> unat (current_pid k) = c" "pc < length (prog c)" "asm_exec lbl (prog c ! pc) k = Next k'"
    "leads uload cfg prog lbl c (Suc pc) k' Q"
  shows "leads uload cfg prog lbl c pc k Q"
  by (rule leads_runs [OF runs_step assms(4)])
    (use assms(1-3) user_trapD(2) [of k] in \<open>auto simp: asm_step_def Let_def\<close>)

lemma leads_goto:
  assumes "user_trap k \<and> unat (current_pid k) = c" "pc < length (prog c)" "asm_exec lbl (prog c ! pc) k = Goto l k'"
    "find (\<lambda>n. prog c ! n = Label l) [0..<length (prog c)] = Some n" "leads uload cfg prog lbl c n k' Q"
  shows "leads uload cfg prog lbl c pc k Q"
  by (rule leads_runs [OF runs_step assms(5)])
    (use assms(1-4) user_trapD(2) [of k] in \<open>auto simp: asm_step_def Let_def\<close>)

lemma leads_ecall:
  assumes "user_trap k \<and> unat (current_pid k) = c" "pc < length (prog c)" "prog c ! pc = Ecall"
    "handle_ecall uload cfg k = Some (Resume k')" "leads uload cfg prog lbl c (Suc pc) k' Q"
  shows "leads uload cfg prog lbl c pc k Q"
  by (rule leads_runs [OF runs_step assms(5)])
    (use assms(1-4) user_trapD(2) [of k] in \<open>auto simp: asm_step_def Let_def trap_ecall\<close>)

lemma only_prints_mine: "user_trap k \<and> unat (current_pid k) = c \<Longrightarrow> only_prints bs k k' \<Longrightarrow> user_trap k' \<and> unat (current_pid k') = c"
  using only_prints_trap by (auto simp: only_prints_def)

lemma only_prints_frame: "user_trap k \<and> unat (current_pid k) = c \<Longrightarrow> user_mode f \<Longrightarrow> only_prints [] k (k\<lparr>frame := f\<rparr>)"
  by (simp add: only_prints_def)

lemma leads_ins:
  assumes mine: "user_trap k \<and> unat (current_pid k) = c"
    and "asm_at (prog c) pc (map (\<lambda>(r, v). Li r v) rvs @ Ecall # js)"
    and "handle_ecall uload cfg (k\<lparr>frame := fold set_reg rvs (frame k)\<rparr>) = Some (Resume k')"
    and "leads uload cfg prog lbl c (pc + length rvs + 1) k' Q"
  shows "leads uload cfg prog lbl c pc k Q"
proof (rule leads_runs [OF _ assms(4)])
  fix pcs :: "nat \<Rightarrow> nat"
  show "asm_runs uload cfg prog lbl (pcs(c := pc), k) (pcs(c := pc + length rvs + 1), k')"
    using run_ins [of k prog "pcs(c := pc)" rvs js uload cfg k' lbl] assms(2,3) mine user_trapD(2) [of k] by simp
qed

lemma leads_putc:
  assumes mine: "user_trap k \<and> unat (current_pid k) = c" and "asm_at (prog c) pc (putc_code b @ js)"
    and go: "\<And>k'. only_prints [ucast b] k k' \<Longrightarrow> leads uload cfg prog lbl c (pc + 3) k' Q"
  shows "leads uload cfg prog lbl c pc k Q"
proof -
  let ?k = "k\<lparr>frame := fold set_reg [(A7, 0), (A0, b)] (frame k)\<rparr>"
  let ?k' = "advance (set_a0 0 (?k\<lparr>dev := putc (dev k) (ucast b)\<rparr>))"
  have "handle_ecall uload cfg ?k = Some (Resume ?k')"
    by (simp add: handle_ecall_def HANDLERS_def sys_defs sys_putchar_def Let_def)
  moreover have "only_prints [ucast b] k ?k'"
    using mine user_trapD(2) [of k] by (simp add: only_prints_def putc_def user_mode_def)
  ultimately show ?thesis
    using leads_ins [OF mine, of prog pc "[(A7, 0), (A0, b)]" js uload cfg ?k' lbl Q] assms(2) go
    by (simp add: putc_code_def numeral_3_eq_3)
qed

lemma leads_check:
  assumes mine: "user_trap k \<and> unat (current_pid k) = c" and code: "asm_at (prog c) pc (sec_check n f d @ js)"
    and a0: "tf_a0 (frame k) = - 1" and lab: "find (\<lambda>m. prog c ! m = Label d) [0..<length (prog c)] = Some (pc + 10)"
    and go: "\<And>k'. only_prints [0x50, ucast n, 10] k k' \<Longrightarrow> leads uload cfg prog lbl c (pc + 17) k' Q"
  shows "leads uload cfg prog lbl c pc k Q"
proof -
  let ?k1 = "setr T0 (- 1) k"
  have C: "pc < length (prog c)" "prog c ! pc = Li T0 (- 1)" "Suc pc < length (prog c)" "prog c ! Suc pc = Bne A0 T0 f"
    "asm_at (prog c) (Suc (Suc pc)) (putc_code 0x50 @ Jump d # Label f # putc_code 0x46 @ Label d # putc_code n @ putc_code 10 @ js)"
    using code by (simp_all add: sec_check_def asm_at_Cons)
  have J: "asm_at (prog c) (pc + 5) (Jump d # Label f # putc_code 0x46 @ Label d # putc_code n @ putc_code 10 @ js)"
    using asm_at_append [OF C(5)] by (simp add: putc_code_def eval_nat_numeral)
  then have L: "asm_at (prog c) (pc + 7) (putc_code 0x46 @ Label d # putc_code n @ putc_code 10 @ js)"
    by (simp add: asm_at_Cons eval_nat_numeral)
  have D: "asm_at (prog c) (pc + 10) (Label d # putc_code n @ putc_code 10 @ js)"
    using asm_at_append [OF L] by (simp add: putc_code_def eval_nat_numeral)
  then have N: "asm_at (prog c) (pc + 11) (putc_code n @ putc_code 10 @ js)" by (simp add: asm_at_Cons eval_nat_numeral)
  have E: "asm_at (prog c) (pc + 14) (putc_code 10 @ js)"
    using asm_at_append [OF N] by (simp add: putc_code_def eval_nat_numeral)
  have p1: "only_prints [] k ?k1" using mine user_trapD(2) [of k] by (simp add: only_prints_def setr_def user_mode_def)
  note m1 = only_prints_mine [OF mine p1]
  have out: "leads uload cfg prog lbl c (pc + 5) k2 Q" if p2: "only_prints [0x50] k k2" for k2
  proof (rule leads_goto [where n = "pc + 10" and l = d, OF only_prints_mine [OF mine p2]])
    show "leads uload cfg prog lbl c (pc + 10) k2 Q"
    proof (rule leads_next [OF only_prints_mine [OF mine p2]])
      show "leads uload cfg prog lbl c (Suc (pc + 10)) k2 Q"
      proof (rule leads_putc [OF only_prints_mine [OF mine p2]])
        fix k3 assume p3: "only_prints [ucast n] k2 k3"
        note q3 = only_prints_trans [OF p2 p3]
        show "leads uload cfg prog lbl c (Suc (pc + 10) + 3) k3 Q"
        proof (rule leads_putc [OF only_prints_mine [OF mine q3]])
          fix k4 assume "only_prints [ucast (10 :: usize)] k3 k4"
          then have "only_prints [0x50, ucast n, 10] k k4" using only_prints_trans [OF q3] by simp
          moreover have "Suc (pc + 10) + 3 + 3 = pc + 17" by simp
          ultimately show "leads uload cfg prog lbl c (Suc (pc + 10) + 3 + 3) k4 Q" using go by (simp only:)
        qed (use E in \<open>simp add: eval_nat_numeral\<close>)
      qed (use N in \<open>simp add: eval_nat_numeral\<close>)
    qed (use D in \<open>simp_all add: asm_at_Cons\<close>)
  qed (use J lab in \<open>simp_all add: asm_at_Cons\<close>)
  show ?thesis
  proof (rule leads_next [OF mine])
    show "leads uload cfg prog lbl c (Suc pc) ?k1 Q"
    proof (rule leads_next [OF m1])
      show "leads uload cfg prog lbl c (Suc (Suc pc)) ?k1 Q"
      proof (rule leads_putc [where prog = prog and c = c, OF m1 C(5)])
        fix k2 assume "only_prints [ucast (0x50 :: usize)] ?k1 k2"
        then have "only_prints [0x50] k k2" using only_prints_trans [OF p1] by simp
        moreover have "Suc (Suc pc) + 3 = pc + 5" by simp
        ultimately show "leads uload cfg prog lbl c (Suc (Suc pc) + 3) k2 Q" using out by (simp only:)
      qed
    qed (use C a0 in \<open>simp_all add: setr_def\<close>)
  qed (use C in simp_all)
qed

section \<open>The attempts\<close>

text \<open>A call with these registers is refused: the result is \<open>-1\<close> and nothing else happens.\<close>

definition refused :: "(kernel \<Rightarrow> usize \<Rightarrow> u8) \<Rightarrow> kcfg \<Rightarrow> kernel \<Rightarrow> (reg \<times> usize) list \<Rightarrow> bool" where
  "refused uload cfg k rvs \<longleftrightarrow> (\<exists>k'. handle_ecall uload cfg (k\<lparr>frame := fold set_reg rvs (frame k)\<rparr>) = Some (Resume k') \<and>
     only_prints [] k k' \<and> tf_a0 (frame k') = - 1)"

lemma leads_attempt:
  assumes mine: "user_trap k \<and> unat (current_pid k) = c"
    and code: "asm_at (prog c) pc (map (\<lambda>(r, v). Li r v) rvs @ Ecall # sec_check n f d @ js)"
    and r: "refused uload cfg k rvs"
    and lab: "find (\<lambda>m. prog c ! m = Label d) [0..<length (prog c)] = Some (pc + length rvs + 11)"
    and go: "\<And>k'. only_prints [0x50, ucast n, 10] k k' \<Longrightarrow> leads uload cfg prog lbl c (pc + length rvs + 18) k' Q"
  shows "leads uload cfg prog lbl c pc k Q"
proof -
  obtain k1 where k1: "handle_ecall uload cfg (k\<lparr>frame := fold set_reg rvs (frame k)\<rparr>) = Some (Resume k1)" "only_prints [] k k1"
    "tf_a0 (frame k1) = - 1" using r unfolding refused_def by blast
  have C: "asm_at (prog c) (pc + length rvs + 1) (sec_check n f d @ js)"
    using asm_at_append [OF code] by (simp add: asm_at_Cons)
  show ?thesis
  proof (rule leads_ins [where prog = prog and c = c, OF mine code k1(1)])
    show "leads uload cfg prog lbl c (pc + length rvs + 1) k1 Q"
    proof (rule leads_check [where prog = prog and c = c, OF only_prints_mine [OF mine k1(2)] C k1(3)])
      fix k' assume "only_prints [0x50, ucast n, 10] k1 k'"
      moreover have "pc + length rvs + 1 + 17 = pc + length rvs + 18" by simp
      ultimately show "leads uload cfg prog lbl c (pc + length rvs + 1 + 17) k' Q"
        using go only_prints_trans [OF k1(2), of _ k'] by (simp only: append_Nil)
    next
      have "pc + length rvs + 1 + 10 = pc + length rvs + 11" by simp
      then show "find (\<lambda>m. prog c ! m = Label d) [0..<length (prog c)] = Some (pc + length rvs + 1 + 10)"
        using lab by (simp only:)
    qed
  qed
qed

lemma advance_prints: "user_mode (frame k) \<Longrightarrow> only_prints [] k (set_a0 v (advance (k\<lparr>frame := f\<rparr>))) = user_mode f"
  by (simp add: only_prints_def user_mode_def)

lemmas attempt_defs = refused_def handle_ecall_def HANDLERS_def sys_defs USIZE_MAX_def ERR_def only_prints_def user_mode_def

lemma attempts:
  assumes ut: "user_trap k" and base: "0x80200000 < base_addr (page_bitmap k)"
  shows "refused uload cfg k [(A7, 255), (A0, 0)]"
    "refused uload cfg k [(A7, 6), (A0, 0x80200000), (A1, 0x80200000), (A2, 0)]"
    "refused uload cfg k [(A7, 7), (A0, 0x80200000)]"
    "refused uload cfg k [(A7, 2), (A0, 0), (A1, 0xDEAD)]"
    "refused uload cfg k [(A7, 2), (A0, current_pid k), (A1, 0xDEAD)]"
    "refused uload cfg k [(A7, 6), (A0, 0x5E000001), (A1, 0x5E001000), (A2, 0)]"
    "refused uload cfg k [(A7, 9), (A0, 0x80200000), (A1, 1)]"
    "refused uload cfg k [(A7, 2), (A0, 99), (A1, 0xDEAD)]"
proof -
  have u: "tf_sstatus (frame k) AND 256 = 0" using user_trapD(2) [OF ut] by (simp add: user_mode_def)
  show "refused uload cfg k [(A7, 255), (A0, 0)]"
    using u by (simp add: attempt_defs sys_unknown_def)
  show "refused uload cfg k [(A7, 6), (A0, 0x80200000), (A1, 0x80200000), (A2, 0)]"
    using u by (simp add: attempt_defs sys_map_def is_page_aligned_def is_user_va_def USER_VA_END_def PAGE_SIZE_def)
  show "refused uload cfg k [(A7, 7), (A0, 0x80200000)]"
    using u by (simp add: attempt_defs sys_unmap_def is_page_aligned_def is_user_va_def USER_VA_END_def PAGE_SIZE_def)
  show "refused uload cfg k [(A7, 2), (A0, 0), (A1, 0xDEAD)]"
    using u by (simp add: attempt_defs sys_send_def valid_target_unat)
  show "refused uload cfg k [(A7, 2), (A0, current_pid k), (A1, 0xDEAD)]"
    using u by (simp add: attempt_defs sys_send_def valid_target_unat)
  show "refused uload cfg k [(A7, 6), (A0, 0x5E000001), (A1, 0x5E001000), (A2, 0)]"
    using u by (simp add: attempt_defs sys_map_def is_page_aligned_def PAGE_SIZE_def)
  show "refused uload cfg k [(A7, 9), (A0, 0x80200000), (A1, 1)]"
    using u base by (simp add: attempt_defs sys_free_pages_def is_valid_alloc_count_def is_page_aligned_def PAGE_SIZE_def is_allocated_def)
  show "refused uload cfg k [(A7, 2), (A0, 99), (A1, 0xDEAD)]"
    using u by (simp add: attempt_defs sys_send_def valid_target_unat)
qed

text \<open>A process that reads an address it has no mapping for.\<close>

lemma kill_spec:
  assumes ut: "user_trap k"
  shows "\<exists>k'. kill_current cfg code k = Some k' \<and> dev k' = dev k \<and>
    procs k' ! unat (current_pid k) = dead_entry code (procs k ! unat (current_pid k))"
proof -
  let ?c = "current_pid k"
  obtain k1 k2 where s: "release_slot ?c code k = Some k1" "wake_waiter ?c code k1 = Some k2" "kernel_parked k2"
    "procs k2 ! unat ?c = dead_entry code (procs k ! unat ?c)"
    using leave_parked [OF ut, of code] by blast
  note l = kernel_parkedD(1) [OF s(3)]
  have d: "dev k2 = dev k" using leave_dev(1) [OF s(1)] leave_dev(2) [OF s(2)] by simp
  obtain al where al: "find_proc is_alive (procs k2) all_pids = Some al" using scan_alive [OF l] by blast
  obtain k' where k': "kill_current cfg code k = Some k'" using kill_current_ok [OF ut] by blast
  moreover have "dev k' = dev k \<and> procs k' ! unat ?c = dead_entry code (procs k ! unat ?c)"
  proof (cases "first_ready (procs k2)")
    case None
    then show ?thesis using k' s d al scan_ready [OF l] user_trapD(8) [OF ut]
      by (auto simp: kill_current_def Let_def return_to_kernel_def split: if_splits)
  next
    case (Some n)
    note n = first_ready_Some [OF Some]
    then have "n \<noteq> unat ?c" using s(4) by (auto simp: dead_entry_def)
    moreover have "kill_current cfg code k = Some (resume n k2)"
      using s Some scan_ready [OF l] n of_nat_pid_neq_0 [of n] switch_to_resume [OF _ l, of n] user_trapD(8) [OF ut]
      by (simp add: kill_current_def Let_def)
    ultimately show ?thesis using k' s(4) d by (simp add: resume_def)
  qed
  ultimately show ?thesis by blast
qed

lemma leads_fault:
  assumes mine: "user_trap k \<and> unat (current_pid k) = c" and "pc < length (prog c)" "prog c ! pc = Lw r off q"
    and "user_pa k PTE_READ (getr q k + off) = None"
    and go: "\<And>k'. dev k' = dev k \<Longrightarrow> procs k' ! c = dead_entry 141 (procs k ! c) \<Longrightarrow> Q (Suc pc) k'"
  shows "leads uload cfg prog lbl c pc k Q"
proof -
  obtain k' where k': "kill_current cfg 141 k = Some k'" "dev k' = dev k" "procs k' ! c = dead_entry 141 (procs k ! c)"
    using kill_spec [of k cfg 141] mine by blast
  have "trap_handler uload cfg \<lparr>ev_scause = 13, ev_claim = 0, ev_time = 0\<rparr> k = Some (Resume k')"
    using k'(1) mine user_trapD(2) [of k] by (simp add: trap_handler_def user_mode_def)
  then have "asm_runs uload cfg prog lbl (pcs(c := pc), k) (pcs(c := Suc pc), k')" for pcs
    using mine user_trapD(2) [of k] assms(2-4) by (intro runs_step) (simp add: asm_step_def Let_def)
  then show ?thesis using go [OF k'(2,3)] unfolding leads_def by blast
qed

section \<open>Properties\<close>

lemma security_code:
  "asm_at security_test 0 (map (\<lambda>(r, v). Li r v) [(A7, 255), (A0, 0)] @ Ecall #
     sec_check 0x31 ''t1_fail'' ''t1_done'' @ drop 20 security_test)"
  "asm_at security_test 20 (map (\<lambda>(r, v). Li r v) [(A7, 6), (A0, 0x80200000), (A1, 0x80200000), (A2, 0)] @ Ecall #
     sec_check 0x32 ''t2_fail'' ''t2_done'' @ drop 42 security_test)"
  "asm_at security_test 42 (map (\<lambda>(r, v). Li r v) [(A7, 7), (A0, 0x80200000)] @ Ecall #
     sec_check 0x33 ''t3_fail'' ''t3_done'' @ drop 62 security_test)"
  "asm_at security_test 62 (map (\<lambda>(r, v). Li r v) [(A7, 2), (A0, 0), (A1, 0xDEAD)] @ Ecall #
     sec_check 0x34 ''t4_fail'' ''t4_done'' @ drop 83 security_test)"
  "asm_at security_test 83 ([Li A7 12, Ecall, Mv S0 A0, Li A7 2, Mv A0 S0, Li A1 0xDEAD, Ecall] @
     sec_check 0x35 ''t5_fail'' ''t5_done'' @ drop 107 security_test)"
  "asm_at security_test 107 (map (\<lambda>(r, v). Li r v) [(A7, 6), (A0, 0x5E000001), (A1, 0x5E001000), (A2, 0)] @ Ecall #
     sec_check 0x36 ''t6_fail'' ''t6_done'' @ drop 129 security_test)"
  "asm_at security_test 129 (map (\<lambda>(r, v). Li r v) [(A7, 9), (A0, 0x80200000), (A1, 1)] @ Ecall #
     sec_check 0x37 ''t7_fail'' ''t7_done'' @ drop 150 security_test)"
  "asm_at security_test 150 (map (\<lambda>(r, v). Li r v) [(A7, 2), (A0, 99), (A1, 0xDEAD)] @ Ecall #
     sec_check 0x38 ''t8_fail'' ''t8_done'' @ drop 171 security_test)"
  "asm_at security_test 171 (putc_code 0x4B @ putc_code 0x39 @ putc_code 10 @ [Li T0 0x80200000, Lw T1 0 T0] @
     drop 182 security_test)"
  by (simp_all add: asm_at_def security_test_def sec_t1_t4_def sec_t5_t8_def sec_t9_def sec_check_def putc_code_def)

lemma security_labels:
  "find (\<lambda>m. security_test ! m = Label ''t1_done'') [0..<length security_test] = Some 13"
  "find (\<lambda>m. security_test ! m = Label ''t2_done'') [0..<length security_test] = Some 35"
  "find (\<lambda>m. security_test ! m = Label ''t3_done'') [0..<length security_test] = Some 55"
  "find (\<lambda>m. security_test ! m = Label ''t4_done'') [0..<length security_test] = Some 76"
  "find (\<lambda>m. security_test ! m = Label ''t5_done'') [0..<length security_test] = Some 100"
  "find (\<lambda>m. security_test ! m = Label ''t6_done'') [0..<length security_test] = Some 122"
  "find (\<lambda>m. security_test ! m = Label ''t7_done'') [0..<length security_test] = Some 143"
  "find (\<lambda>m. security_test ! m = Label ''t8_done'') [0..<length security_test] = Some 164"
  by code_simp+

lemma leads_t5:
  assumes mine: "user_trap k \<and> unat (current_pid k) = c" and prog: "prog c = security_test"
    and base: "0x80200000 < base_addr (page_bitmap k)"
    and go: "\<And>k'. only_prints [0x50, 0x35, 10] k k' \<Longrightarrow> leads uload cfg prog lbl c 107 k' Q"
  shows "leads uload cfg prog lbl c 83 k Q"
proof -
  have C: "asm_at (prog c) 83 (map (\<lambda>(r, v). Li r v) [(A7, 12)] @ Ecall # [Mv S0 A0, Li A7 2, Mv A0 S0, Li A1 0xDEAD, Ecall] @
      sec_check 0x35 ''t5_fail'' ''t5_done'' @ drop 107 security_test)"
    using security_code(5) by (simp add: prog)
  note N = C [simplified asm_at_Cons list.map append.simps, simplified]
  let ?k = "k\<lparr>frame := fold set_reg [(A7, 12)] (frame k)\<rparr>"
  let ?k1 = "sys_getpid ?k"
  let ?k2 = "setr S0 (current_pid k) ?k1"
  let ?k3 = "setr A7 2 ?k2"
  let ?k4 = "setr A0 (current_pid k) ?k3"
  let ?k5 = "setr A1 0xDEAD ?k4"
  have e: "handle_ecall uload cfg ?k = Some (Resume ?k1)" by (simp add: handle_ecall_def HANDLERS_def sys_defs)
  have u: "tf_sstatus (frame k) AND 256 = 0" using user_trapD(2) [of k] mine by (simp add: user_mode_def)
  have P: "only_prints [] k ?k1" "only_prints [] k ?k2" "only_prints [] k ?k3" "only_prints [] k ?k4" "only_prints [] k ?k5"
    using u by (simp_all add: only_prints_def sys_getpid_def Let_def setr_def user_mode_def)
  note M = P [THEN only_prints_mine [OF mine]]
  have b2: "0x80200000 < base_addr (page_bitmap ?k2)" using base P(2) by (simp add: only_prints_def)
  have "refused uload cfg ?k2 [(A7, 2), (A0, current_pid ?k2), (A1, 0xDEAD)]"
    using attempts(5) [OF conjunct1 [OF M(2)] b2] by blast
  moreover have "current_pid ?k2 = current_pid k" using P(2) by (simp add: only_prints_def)
  ultimately obtain k6 where k6: "handle_ecall uload cfg ?k5 = Some (Resume k6)" "only_prints [] ?k2 k6" "tf_a0 (frame k6) = - 1"
    by (auto simp: refused_def setr_def)
  note p6 = only_prints_trans [OF P(2) k6(2), simplified]
  have check: "leads uload cfg prog lbl c 90 k6 Q"
  proof (rule leads_check [where prog = prog and c = c and d = "''t5_done''" and f = "''t5_fail''" and n = "0x35" and
      js = "drop 107 security_test", OF only_prints_mine [OF mine p6]])
    fix k' assume "only_prints [0x50, ucast (0x35 :: usize), 10] k6 k'"
    then show "leads uload cfg prog lbl c (90 + 17) k' Q" using go only_prints_trans [OF p6] by simp
  qed (use N k6(3) security_labels(5) prog in \<open>simp_all\<close>)
  have r: "tf_a0 (frame ?k1) = current_pid k" "tf_s0 (frame ?k3) = current_pid k"
    by (simp_all add: sys_getpid_def Let_def setr_def)
  have g5: "leads uload cfg prog lbl c 89 ?k5 Q"
    by (rule leads_ecall [OF M(5) _ _ k6(1)]) (use N check in simp_all)
  have g4: "leads uload cfg prog lbl c 88 ?k4 Q" by (rule leads_next [OF M(4)]) (use N g5 in simp_all)
  have g3: "leads uload cfg prog lbl c 87 ?k3 Q"
    by (rule leads_next [where k' = "?k4", OF M(3)]) (use N g4 r in simp_all)
  have g2: "leads uload cfg prog lbl c 86 ?k2 Q" by (rule leads_next [OF M(2)]) (use N g3 in simp_all)
  have g1: "leads uload cfg prog lbl c 85 ?k1 Q"
    by (rule leads_next [where k' = "?k2", OF M(1)]) (use N g2 r in simp_all)
  show ?thesis by (rule leads_ins [where prog = prog and c = c, OF mine C e]) (use g1 in simp)
qed

text \<open>What the first \<open>n\<close> attempts print, and what the last one leads to.\<close>

definition sec_out :: "nat \<Rightarrow> u8 list" where
  "sec_out n = concat (map (\<lambda>d. [0x50, 0x30 + of_nat d, 10]) [1..<Suc n])"

definition sec_end :: "kernel \<Rightarrow> nat \<Rightarrow> kernel \<Rightarrow> bool" where
  "sec_end k pc k' \<longleftrightarrow> uart_tx (dev k') = rev (sec_out 8 @ [0x4B, 0x39, 10]) @ uart_tx (dev k) \<and>
     procs k' ! unat (current_pid k) = dead_entry 141 (procs k ! unat (current_pid k))"

lemma sec_out_Suc: "sec_out (Suc n) = sec_out n @ [0x50, 0x30 + of_nat (Suc n), 10]"
  unfolding sec_out_def by simp

text \<open>After \<open>n\<close> attempts the process is at \<open>pc\<close> and the test will end as it should.\<close>

definition sec_at :: "(kernel \<Rightarrow> usize \<Rightarrow> u8) \<Rightarrow> kcfg \<Rightarrow> (nat \<Rightarrow> asm_instr list) \<Rightarrow> (string \<Rightarrow> usize) \<Rightarrow> kernel \<Rightarrow> nat \<Rightarrow> nat \<Rightarrow> bool" where
  "sec_at uload cfg prog lbl k pc n \<longleftrightarrow>
     (\<forall>k'. only_prints (sec_out n) k k' \<longrightarrow> leads uload cfg prog lbl (unat (current_pid k)) pc k' (sec_end k))"

lemma sec_mine: "user_trap k \<Longrightarrow> only_prints bs k k' \<Longrightarrow> user_trap k' \<and> unat (current_pid k') = unat (current_pid k)"
  using only_prints_trap [of k bs k'] by (simp add: only_prints_def)

lemma sec_attempt:
  assumes ut: "user_trap k" and base: "0x80200000 < base_addr (page_bitmap k)"
    and code: "asm_at (prog (unat (current_pid k))) pc (map (\<lambda>(r, v). Li r v) rvs @ Ecall # sec_check m f d @ js)"
    and ref: "\<And>k'. user_trap k' \<Longrightarrow> 0x80200000 < base_addr (page_bitmap k') \<Longrightarrow> refused uload cfg k' rvs"
    and lab: "find (\<lambda>x. prog (unat (current_pid k)) ! x = Label d) [0..<length (prog (unat (current_pid k)))] =
      Some (pc + length rvs + 11)"
    and m: "ucast m = (0x30 + of_nat (Suc n) :: u8)" and go: "sec_at uload cfg prog lbl k (pc + length rvs + 18) (Suc n)"
  shows "sec_at uload cfg prog lbl k pc n"
  unfolding sec_at_def
proof (intro allI impI)
  let ?c = "unat (current_pid k)"
  fix k1 assume p1: "only_prints (sec_out n) k k1"
  note m1 = sec_mine [OF ut p1]
  have "0x80200000 < base_addr (page_bitmap k1)" using base p1 by (simp add: only_prints_def)
  note r = ref [OF conjunct1 [OF m1] this]
  show "leads uload cfg prog lbl ?c pc k1 (sec_end k)"
  proof (rule leads_attempt [where prog = prog and c = ?c, OF m1 code r lab])
    fix k2 assume "only_prints [0x50, ucast m, 10] k1 k2"
    from only_prints_trans [OF p1 this] show "leads uload cfg prog lbl ?c (pc + length rvs + 18) k2 (sec_end k)"
      using m go by (simp add: sec_out_Suc sec_at_def)
  qed
qed

text \<open>The last attempt: announce it, then read kernel memory.\<close>

lemma sec_last:
  assumes ut: "user_trap k" and nomap: "user_pa k PTE_READ 0x80200000 = None"
    and code: "asm_at (prog (unat (current_pid k))) 171 (putc_code 0x4B @ putc_code 0x39 @ putc_code 10 @
      [Li T0 0x80200000, Lw T1 0 T0] @ drop 182 (prog (unat (current_pid k))))"
  shows "sec_at uload cfg prog lbl k 171 8"
  unfolding sec_at_def
proof (intro allI impI)
  let ?c = "unat (current_pid k)"
  fix k1 assume p1: "only_prints (sec_out 8) k k1"
  have C: "asm_at (prog ?c) 174 (putc_code 0x39 @ putc_code 10 @ [Li T0 0x80200000, Lw T1 0 T0] @ drop 182 (prog ?c))"
    "asm_at (prog ?c) 177 (putc_code 10 @ [Li T0 0x80200000, Lw T1 0 T0] @ drop 182 (prog ?c))"
    "180 < length (prog ?c)" "prog ?c ! 180 = Li T0 0x80200000" "181 < length (prog ?c)" "prog ?c ! 181 = Lw T1 0 T0"
    using code by (simp_all add: putc_code_def asm_at_Cons)
  show "leads uload cfg prog lbl ?c 171 k1 (sec_end k)"
  proof (rule leads_putc [where prog = prog and c = ?c, OF sec_mine [OF ut p1] code], simp)
    fix k2 assume "only_prints [0x4B] k1 k2"
    note p2 = only_prints_trans [OF p1 this]
    show "leads uload cfg prog lbl ?c 174 k2 (sec_end k)"
    proof (rule leads_putc [where prog = prog and c = ?c, OF sec_mine [OF ut p2] C(1)], simp)
      fix k3 assume "only_prints [0x39] k2 k3"
      note p3 = only_prints_trans [OF p2 this]
      show "leads uload cfg prog lbl ?c 177 k3 (sec_end k)"
      proof (rule leads_putc [where prog = prog and c = ?c, OF sec_mine [OF ut p3] C(2)], simp)
        fix k4 assume "only_prints [10] k3 k4"
        note p4 = only_prints_trans [OF p3 this]
        let ?k5 = "setr T0 0x80200000 k4"
        have p5: "only_prints [] k4 ?k5"
          using user_trapD(2) [OF conjunct1 [OF sec_mine [OF ut p4]]] by (simp add: only_prints_def setr_def user_mode_def)
        note q5 = only_prints_trans [OF p4 p5]
        show "leads uload cfg prog lbl ?c 180 k4 (sec_end k)"
        proof (rule leads_next [OF sec_mine [OF ut p4]])
          show "leads uload cfg prog lbl ?c (Suc 180) ?k5 (sec_end k)"
          proof (rule leads_fault [OF sec_mine [OF ut q5]])
            show "user_pa ?k5 PTE_READ (getr T0 ?k5 + 0) = None"
              using nomap q5 by (simp add: only_prints_def user_pa_def setr_def)
            show "sec_end k (Suc (Suc 180)) k'" if "dev k' = dev ?k5" "procs k' ! ?c = dead_entry 141 (procs ?k5 ! ?c)" for k'
              using that q5 by (simp add: sec_end_def only_prints_def)
          qed (use C in simp_all)
        qed (use C in simp_all)
      qed
    qed
  qed
qed

text \<open>As any process whose page table does not map the kernel's text for user mode.\<close>

lemma security_test_run:
  assumes "user_trap k" "prog (unat (current_pid k)) = security_test" "pcs (unat (current_pid k)) = 0"
    and "0x80200000 < base_addr (page_bitmap k)" "user_pa k PTE_READ 0x80200000 = None"
  shows "\<exists>pcs' k'. asm_runs uload cfg prog lbl (pcs, k) (pcs', k') \<and>
    uart_tx (dev k') =
      rev (concat (map (\<lambda>s. bytes_of s @ [10]) [''P1'', ''P2'', ''P3'', ''P4'', ''P5'', ''P6'', ''P7'', ''P8'', ''K9''])) @
      uart_tx (dev k) \<and>
    pr_state (procs k' ! unat (current_pid k)) = Free \<and> pr_exit_code (procs k' ! unat (current_pid k)) = 141"
proof -
  let ?c = "unat (current_pid k)" and ?L = "sec_at uload cfg prog lbl k"
  note sc = security_code [folded assms(2)] and sl = security_labels [folded assms(2)]
  note attempt = sec_attempt [where prog = prog, OF assms(1,4)]
  have L9: "?L 171 8" by (rule sec_last [OF assms(1,5)]) (rule sc(9))
  have L8: "?L 150 7" by (rule attempt [OF sc(8) attempts(8)]) (use sl(8) L9 in simp_all)
  have L7: "?L 129 6" by (rule attempt [OF sc(7) attempts(7)]) (use sl(7) L8 in simp_all)
  have L6: "?L 107 5" by (rule attempt [OF sc(6) attempts(6)]) (use sl(6) L7 in simp_all)
  have L5: "?L 83 4" unfolding sec_at_def
  proof (intro allI impI)
    fix k1 assume p1: "only_prints (sec_out 4) k k1"
    have b: "0x80200000 < base_addr (page_bitmap k1)" using assms(4) p1 by (simp add: only_prints_def)
    show "leads uload cfg prog lbl ?c 83 k1 (sec_end k)"
    proof (rule leads_t5 [where prog = prog and c = ?c, OF sec_mine [OF assms(1) p1] assms(2) b])
      fix k2 assume "only_prints [0x50, 0x35, 10] k1 k2"
      from only_prints_trans [OF p1 this] show "leads uload cfg prog lbl ?c 107 k2 (sec_end k)"
        using L6 sec_out_Suc [of 4] by (simp add: sec_at_def)
    qed
  qed
  have L4: "?L 62 3" by (rule attempt [OF sc(4) attempts(4)]) (use sl(4) L5 in simp_all)
  have "?L 42 2" by (rule attempt [OF sc(3) attempts(3)]) (use sl(3) L4 in simp_all)
  then have L3: "?L 42 (Suc (Suc 0))" by (simp only: numeral_2_eq_2)
  have L2: "?L 20 1" by (rule attempt [OF sc(2) attempts(2)]) (use sl(2) L3 in simp_all)
  have "?L 0 0" by (rule attempt [OF sc(1) attempts(1)]) (use sl(1) L2 in simp_all)
  moreover have "only_prints (sec_out 0) k k" using user_trapD(2) [OF assms(1)] by (simp add: sec_out_def only_prints_def)
  ultimately have "leads uload cfg prog lbl ?c 0 k (sec_end k)" unfolding sec_at_def by blast
  then obtain pc' k' where r: "\<forall>pcs. asm_runs uload cfg prog lbl (pcs(?c := 0), k) (pcs(?c := pc'), k')" "sec_end k pc' k'"
    unfolding leads_def by blast
  have "pcs(?c := 0) = pcs" using assms(3) by auto
  then have run: "asm_runs uload cfg prog lbl (pcs, k) (pcs(?c := pc'), k')" using r(1) by metis
  have "sec_out 8 @ [0x4B, 0x39, 10] =
      concat (map (\<lambda>s. bytes_of s @ [10]) [''P1'', ''P2'', ''P3'', ''P4'', ''P5'', ''P6'', ''P7'', ''P8'', ''K9''])"
    by (simp add: sec_out_def bytes_of_def upt_rec)
  from r(2) [unfolded sec_end_def this] run show ?thesis
    by (intro exI [of _ "pcs(?c := pc')"] exI [of _ k'] conjI) (simp_all only: dead_entry_def, simp_all)
qed

section \<open>From the launch\<close>

lemma launch_security_test_spec:
  assumes b: "boot_ready cfg img R k" and i: "image_ok (page_bitmap k) test_start test_size"
    and h: "0x80200000 < heap_start (lay cfg)"
  obtains k' where "launch_security_test cfg test_start test_size k = Some k'" "user_trap k'" "current_pid k' = 1"
    "dev k' = dev k" "0x80200000 < base_addr (page_bitmap k')" "user_pa k' PTE_READ 0x80200000 = None"
proof -
  note B = b [unfolded boot_ready_def]
  let ?L = "lay cfg"
  have len: "length (procs k) = 8" and wf: "vm_wf k R" and lay: "layout_ok ?L" and hp: "heap_pool ?L (page_bitmap k)"
    and fr: "kernel_tables ?L + 3 \<le> free_pages k" using B by simp_all
  have p1: "0 < unat (1 :: usize)" "unat (1 :: usize) < 8" by simp_all
  obtain r c t a where A: "create_process cfg 1 test_start test_size k = Some (set_proc (unat (1 :: usize))
       (new_process 1 (make_satp r (ucast (1 :: usize))) c (t + PAGE_SIZE) 0) a)"
    "vm_only k a" "vm_wf a (insert r R)" "r \<in> pool (page_bitmap k)" "pool (page_bitmap a) = pool (page_bitmap k)"
    "\<forall>va < 2 ^ 39. walk r va (tree a) = boot_space ?L c t va" "c \<in> live a" "t \<in> live a"
    by (rule create_process_spec [OF wf lay hp i p1 len fr]) blast
  note V = vm_only_kernel [OF A(2)]
  let ?n = "new_process 1 (make_satp r 1) c (t + PAGE_SIZE) 0"
  let ?k1 = "set_proc 1 ?n a"
  have nth: "procs ?k1 ! i = (if i = 1 then ?n else Process_empty)" if "i < 8" for i
    using that V(1) B by (simp add: nth_list_update)
  obtain k' where e: "enter_first ?k1 = Some k'" "user_trap k'" "current_pid k' = 1" "ram k' = ram ?k1"
    "page_bitmap k' = page_bitmap ?k1" "dev k' = dev ?k1" "satp k' = pr_satp (procs ?k1 ! 1)"
  proof (rule enter_first_user [of ?k1])
    show "pr_state (procs ?k1 ! i) \<noteq> Running" "pr_state (procs ?k1 ! i) \<noteq> Free \<Longrightarrow> user_mode (pr_context (procs ?k1 ! i))"
      if "i < 8" for i using nth [OF that] by (auto simp: Process_empty_def split: if_splits)
    show "pr_state (procs ?k1 ! 0) = Free" using nth [of 0] by (simp add: Process_empty_def)
  qed (use len V(1,4) B in simp_all)
  have l: "launch_security_test cfg test_start test_size k = Some k'" using A(1) e(1) by (simp add: launch_security_test_def)
  have above: "0x80200000 < p" if "p \<in> pool (page_bitmap k)" for p
    using hp h that by (auto simp: heap_pool_def word_less_nat_alt)
  have al: "r mod PAGE_SIZE = 0" using A(4) wf pool_aligned by (auto simp: vm_wf_def)
  have "unat r + 4096 \<le> 2 ^ 39" by (rule heap_region(1) [OF lay hp A(4) al])
  then have root: "satp_to_root (satp k') = r" using e(7) len V(1) al satp_root by (simp add: word_less_nat_alt)
  have "c \<in> pool (page_bitmap k)" "t \<in> pool (page_bitmap k)"
    using A(3,5,7,8) live_subset_pool [of "page_bitmap a"] by (auto simp: vm_wf_def)
  then have ct: "0x80200000 \<noteq> c" "0x80200000 \<noteq> t" using above by blast+
  have pg: "page_of 0x80200000 = 0x80200000" by (rule page_of_self) (simp add: PAGE_SIZE_def)
  have "walk r 0x80200000 (tree k') = map_option (\<lambda>f. \<lparr>wr_phys = 0x80200000, wr_flags = f\<rparr>) (region_of (kernel_regions ?L) 0x80200000)"
    using A(6) e(4) ct by (simp add: boot_space_def pg)
  then have u: "user_pa k' PTE_READ 0x80200000 = None"
    using region_of_flags [of "kernel_regions ?L" "0x80200000"] kernel_regions_flags
    by (fastforce simp: user_pa_def root split: option.split)
  have "r \<in> pool (page_bitmap a)" using A(4,5) by simp
  from pool_index [OF this] have "0 < unat (total_pages (page_bitmap a))" by auto
  then have "base_addr (page_bitmap a) \<in> pool (page_bitmap a)"
    unfolding pool_def by (intro image_eqI [of _ _ 0]) (simp_all add: page_addr_def)
  then have "0x80200000 < base_addr (page_bitmap k')" using above A(5) e(5) by simp
  then show thesis using l e V(6) u by (intro that [of k']) simp_all
qed

section \<open>Properties\<close>

text \<open>
  C37. The kernel passes its security self-test: launched in the build with that feature, the test program
  sees every one of its eight attempts refused (an unknown system call, mapping and unmapping kernel
  addresses, sending to the kernel, to itself and to a process that cannot exist, mapping an unaligned
  page and freeing a kernel page), prints exactly the lines \<open>P1\<close> to \<open>P8\<close> and \<open>K9\<close>, and is killed with
  exit code 141 when it reads kernel memory.
\<close>

theorem security_test_passes:
  assumes "boot_ready cfg img R k" "image_ok (page_bitmap k) test_start test_size" "0x80200000 < heap_start (lay cfg)"
  shows "\<exists>k0 pcs k1. launch_security_test cfg test_start test_size k = Some k0 \<and>
    asm_runs uload cfg (\<lambda>_. security_test) lbl (\<lambda>_. 0, k0) (pcs, k1) \<and>
    uart_tx (dev k1) =
      rev (concat (map (\<lambda>s. bytes_of s @ [10]) [''P1'', ''P2'', ''P3'', ''P4'', ''P5'', ''P6'', ''P7'', ''P8'', ''K9''])) @
      uart_tx (dev k) \<and>
    pr_state (procs k1 ! 1) = Free \<and> pr_exit_code (procs k1 ! 1) = 141"
proof -
  obtain k0 where k0: "launch_security_test cfg test_start test_size k = Some k0" "user_trap k0" "current_pid k0 = 1"
    "dev k0 = dev k" "0x80200000 < base_addr (page_bitmap k0)" "user_pa k0 PTE_READ 0x80200000 = None"
    by (rule launch_security_test_spec [OF assms])
  show ?thesis
    using security_test_run [OF k0(2) _ _ k0(5,6), of "\<lambda>_. security_test" "\<lambda>_. 0" uload cfg lbl] k0(1,3,4) by fastforce
qed

theorem security_test_passes_witness:
  "\<exists>k0 pcs k1. launch_security_test demo_cfg 0x80200000 16 boot_demo = Some k0 \<and>
     asm_runs (\<lambda>_ _. 0) demo_cfg (\<lambda>_. security_test) (\<lambda>_. 0) (\<lambda>_. 0, k0) (pcs, k1) \<and>
     uart_tx (dev k1) = rev (concat (map (\<lambda>s. bytes_of s @ [10])
       [''P1'', ''P2'', ''P3'', ''P4'', ''P5'', ''P6'', ''P7'', ''P8'', ''K9''])) \<and>
     pr_state (procs k1 ! 1) = Free \<and> pr_exit_code (procs k1 ! 1) = 141"
proof -
  have i: "image_ok (page_bitmap boot_demo) 0x80200000 16"
    using boot_demo_ready by (simp add: boot_ready_def img_demo_def)
  have h: "0x80200000 < heap_start (lay demo_cfg)" by (simp add: demo_cfg_def qemu_layout_def)
  have "uart_tx (dev boot_demo) = []" by (simp add: boot_demo_def)
  then show ?thesis
    using security_test_passes [OF boot_demo_ready i h, of "\<lambda>_ _. 0" "\<lambda>_. 0"] by simp
qed

end
