(* ===== verification/Boot_Run.thy ===== *)
theory Boot_Run
  imports Trap
begin

unbundle bit_operations_syntax

text \<open>
  \<open>boot.rs\<close>: the stages from power-on to the first process, in their order.  The banner and the log
  lines are left out.  No interrupt is taken between the stages: with no process ready, the timer
  handler would only count the tick and re-arm the timer.
\<close>

section \<open>Stages\<close>

definition stage_uart :: "kernel \<Rightarrow> kernel" where
  "stage_uart k = k\<lparr>dev := uart_init (dev k)\<rparr>"

definition stage_interrupts :: "u64 \<Rightarrow> kernel \<Rightarrow> kernel" where
  "stage_interrupts time k =
     (let k = k\<lparr>dev := plic_init (dev k)\<rparr>;
          k = k\<lparr>dev := enable_rx_interrupt (dev k)\<rparr>
      in timer_init time k)"

definition stage_memory :: "layout \<Rightarrow> kernel \<Rightarrow> kernel option" where
  "stage_memory L k =
     do { a \<leftarrow> init_allocator (heap_start L) (heap_end L);
          a \<leftarrow> self_test a;
          Some (k\<lparr>page_bitmap := a\<rparr>) }"

definition stage_mmu :: "layout \<Rightarrow> kernel \<Rightarrow> kernel option" where
  "stage_mmu L k = do { (root_pt, k) \<leftarrow> kvm_init L k; Some (enable_mmu k root_pt) }"

definition stage_user :: "kcfg \<Rightarrow> boot_images \<Rightarrow> kernel \<Rightarrow> kernel option" where
  "stage_user cfg img k = launch cfg img k"

definition boot_run :: "kcfg \<Rightarrow> boot_images \<Rightarrow> u64 \<Rightarrow> kernel \<Rightarrow> kernel option" where
  "boot_run cfg img time k =
     do { let k = stage_uart k;
          let k = stage_interrupts time k;
          k \<leftarrow> stage_memory (lay cfg) k;
          k \<leftarrow> stage_mmu (lay cfg) k;
          stage_user cfg img k }"

section \<open>The machine at power-on\<close>

text \<open>
  What the linker script and the statics give: the heap begins on a page border, ends below the boot
  stack and has room for three sets of kernel tables; the two boot programs lie below it and fit into
  a page each; the process table is empty.
\<close>

definition heap_pages :: "layout \<Rightarrow> usize" where
  "heap_pages L = (heap_end L - heap_start L) div PAGE_SIZE"

definition linked :: "layout \<Rightarrow> bool" where
  "linked L \<longleftrightarrow> layout_ok L \<and> 0 < heap_start L \<and> heap_start L mod PAGE_SIZE = 0 \<and> heap_start L \<le> heap_end L \<and>
     heap_end L \<le> stack_top L \<and> unat (heap_pages L) \<le> MAX_PAGES \<and>
     3 * (kernel_tables L + 3) \<le> unat (heap_pages L)"

definition below_heap :: "layout \<Rightarrow> usize \<Rightarrow> usize \<Rightarrow> bool" where
  "below_heap L src n \<longleftrightarrow> unat n \<le> 4096 \<and> unat src + unat n \<le> unat (heap_start L)"

definition power_on :: "kcfg \<Rightarrow> boot_images \<Rightarrow> kernel \<Rightarrow> bool" where
  "power_on cfg img k \<longleftrightarrow> linked (lay cfg) \<and> below_heap (lay cfg) (init_start img) (init_size img) \<and>
     below_heap (lay cfg) (uart_start img) (uart_size img) \<and>
     procs k = replicate 8 Process_empty \<and> irq_owners k = replicate 64 0"

section \<open>The stages establish what \<open>launch\<close> needs\<close>

lemma heap_geometry:
  assumes "linked L"
  shows "unat (heap_start L) + unat (heap_pages L) * 4096 \<le> unat (stack_top L)" "unat (stack_top L) \<le> 2 ^ 39"
    "init_allocator (heap_start L) (heap_end L) = Some (new_allocator (heap_start L) (heap_pages L))"
proof -
  note L = assms [unfolded linked_def]
  have d: "unat (heap_end L - heap_start L) = unat (heap_end L) - unat (heap_start L)"
    using L by (simp add: unat_sub)
  have n: "unat (heap_pages L) * 4096 \<le> unat (heap_end L) - unat (heap_start L)"
    by (simp add: heap_pages_def unat_div PAGE_SIZE_def d)
  moreover have "unat (heap_start L) \<le> unat (heap_end L)" "unat (heap_end L) \<le> unat (stack_top L)"
    using L by (simp_all add: word_le_nat_alt)
  ultimately show "unat (heap_start L) + unat (heap_pages L) * 4096 \<le> unat (stack_top L)" by linarith
  have "(heap_start L, stack_top L, KERNEL_RW) \<in> set (kernel_regions L)" by (simp add: kernel_regions_def)
  then have "stack_top L \<le> 2 ^ 39" using L by (auto simp: layout_ok_def)
  then show "unat (stack_top L) \<le> 2 ^ 39" by (simp add: word_le_nat_alt)
  then have hs: "unat (heap_start L) < 2 ^ 40" using L by (simp add: word_le_nat_alt)
  have "(heap_start L + PAGE_SIZE - 1) AND NOT (PAGE_SIZE - 1) = page_up (heap_start L)"
    by (simp add: page_up_def page_of_def PAGE_SIZE_def add.commute)
  also have "\<dots> = heap_start L"
  proof -
    have m: "unat (heap_start L) mod 4096 = 0"
      using L by (simp add: PAGE_SIZE_def word_mod_eq_0_iff unat_mod flip: word_unat_eq_iff)
    have "unat (heap_start L + 4095) = unat (heap_start L) + 4095" using hs by (subst unat_add_small) simp_all
    moreover have "(x + 4095) div 4096 * 4096 = x" if "x mod 4096 = 0" for x :: nat
    proof -
      have x: "x div 4096 * 4096 = x" using that div_mult_mod_eq [of x 4096] by simp
      have "(x div 4096 * 4096 + 4095) div 4096 = x div 4096" by (subst div_mult_self3) simp_all
      then show ?thesis unfolding x by (simp add: x)
    qed
    ultimately show ?thesis using m by (simp add: word_unat_eq_iff page_up_def unat_page_of)
  qed
  finally have base: "(heap_start L + PAGE_SIZE - 1) AND NOT (PAGE_SIZE - 1) = heap_start L" .
  have "0 < unat (heap_pages L)" using L by auto
  then have "0 < heap_pages L" by (simp add: word_less_nat_alt)
  then show "init_allocator (heap_start L) (heap_end L) = Some (new_allocator (heap_start L) (heap_pages L))"
    using L base by (simp add: init_allocator_def init_checks_def new_allocator_def heap_pages_def Let_def)
qed

lemma heap_allocator:
  assumes "linked L"
  defines "a \<equiv> new_allocator (heap_start L) (heap_pages L)"
  shows "wf_alloc a" "live_pages a = {}" "card (pool a) = unat (heap_pages L)"
    "p \<in> pool a \<Longrightarrow> unat (heap_start L) \<le> unat p \<and> unat p + 4096 \<le> unat (stack_top L)"
proof -
  note L = assms(1) [unfolded linked_def] and G = heap_geometry [OF assms(1)]
  have n: "0 < unat (heap_pages L)" using L by auto
  have top: "unat (heap_start L) + unat (heap_pages L) * 4096 < 2 ^ 64" using G(1,2) by simp
  show wf: "wf_alloc a" and "live_pages a = {}"
    unfolding a_def using L wf_new_allocator(1,2) [OF _ n _ top] by simp_all
  have t: "unat (total_pages a) = unat (heap_pages L)" "base_addr a = heap_start L" by (simp_all add: a_def new_allocator_def)
  show "card (pool a) = unat (heap_pages L)"
    unfolding pool_def t by (subst card_image) (use page_addr_inj [OF wf] t in \<open>auto intro: inj_onI\<close>)
  assume "p \<in> pool a"
  then obtain i where i: "i < unat (heap_pages L)" "p = page_addr a i" using pool_index t by metis
  then have "unat p = unat (heap_start L) + 4096 * i" using unat_page_addr [OF wf, of i] t by simp
  then show "unat (heap_start L) \<le> unat p \<and> unat p + 4096 \<le> unat (stack_top L)" using i(1) G(1) by simp
qed

lemma stage_memory_ok:
  assumes "linked L"
  obtains a where "stage_memory L k = Some (k\<lparr>page_bitmap := a\<rparr>)" "wf_alloc a" "live_pages a = {}"
    "pool a = pool (new_allocator (heap_start L) (heap_pages L))"
proof -
  note L = assms [unfolded linked_def] and G = heap_geometry [OF assms]
  let ?a = "new_allocator (heap_start L) (heap_pages L)"
  have t: "total_pages ?a = heap_pages L" "base_addr ?a = heap_start L" by (simp_all add: new_allocator_def)
  have "2 \<le> unat (total_pages ?a)" "0 < base_addr ?a" "unat (base_addr ?a) + unat (total_pages ?a) * 4096 < 2 ^ 64"
    unfolding t using L G(1,2) by simp_all
  then obtain a where "self_test ?a = Some a" "wf_alloc a" "live_pages a = {}" "pool a = pool ?a"
    using self_test_passes [OF G(3)] by blast
  then show ?thesis using G(3) by (intro that [of a]) (simp_all add: stage_memory_def)
qed

lemma image_below:
  assumes "linked L" "below_heap L src n" "\<And>p. p \<in> pool a \<Longrightarrow> unat (heap_start L) \<le> unat p"
  shows "image_ok a src n"
proof -
  have "page_of (src + of_nat j) \<notin> pool a" if j: "j < unat n" for j
  proof
    assume "page_of (src + of_nat j) \<in> pool a"
    then have "unat (heap_start L) \<le> unat (page_of (src + of_nat j))" by (rule assms(3))
    moreover have "unat (of_nat j :: usize) = j" using j assms(2) by (intro unat_of_nat_small) (simp add: below_heap_def)
    then have "unat (src + of_nat j) = unat src + j"
      using assms(2) j unat_lt2p [of "heap_start L"] by (subst unat_add_small) (simp_all add: below_heap_def)
    then have "unat (page_of (src + of_nat j)) \<le> unat src + j" by (simp add: unat_page_of)
    ultimately show False using assms(2) j by (simp add: below_heap_def)
  qed
  then show ?thesis using assms(2) by (simp add: image_ok_def below_heap_def)
qed

lemma stages_ready:
  assumes "power_on cfg img k"
  obtains k' R where "boot_run cfg img time k = launch cfg img k'" "boot_ready cfg img R k'"
    "\<forall>b. page_of b \<notin> pool (page_bitmap k') \<longrightarrow> ram k' b = ram k b"
    "uart_tx (dev k') = uart_tx (dev k)"
proof -
  note P = assms [unfolded power_on_def]
  let ?L = "lay cfg" and ?k = "stage_interrupts time (stage_uart k)"
  have lk: "linked ?L" and lo: "layout_ok ?L" using P by (simp_all add: linked_def)
  note H = heap_allocator [OF lk]
  obtain a where a: "stage_memory ?L ?k = Some (?k\<lparr>page_bitmap := a\<rparr>)" "wf_alloc a" "live_pages a = {}"
    "pool a = pool (new_allocator (heap_start ?L) (heap_pages ?L))"
    by (rule stage_memory_ok [OF lk])
  let ?m = "?k\<lparr>page_bitmap := a\<rparr>"
  have wf: "vm_wf ?m {}" using a(2,3) by (simp add: vm_wf_def pt_wf_def tables_def)
  have fp: "free_pages ?m = unat (heap_pages ?L)" using a(3,4) H(3) by (simp add: free_pages_def)
  have room: "3 * (kernel_tables ?L + 3) \<le> free_pages ?m" using P fp by (simp add: linked_def)
  have "kernel_tables ?L < free_pages ?m" using room by simp
  from kvm_init_exact [OF wf lo this]
  obtain root s' where s': "kvm_init ?L ?m = Some (root, s')" "vm_wf s' {root}"
    "pool (page_bitmap s') = pool (page_bitmap ?m)" "\<exists>m a. s' = ?m\<lparr>ram := m, page_bitmap := a\<rparr>"
    "free_pages ?m \<le> free_pages s' + kernel_tables ?L + 1"
    "\<forall>b. page_of b \<notin> pool (page_bitmap ?m) \<longrightarrow> ram s' b = ram ?m b"
    by (elim exE conjE) (rule that; (assumption | intro exI, assumption))
  have m: "page_bitmap ?m = a" "ram ?m = ram k"
    by (simp_all add: stage_interrupts_def stage_uart_def timer_init_def Let_def)
  let ?k' = "enable_mmu s' root"
  have same: "procs ?k' = procs k" "irq_owners ?k' = irq_owners k" "page_bitmap ?k' = page_bitmap s'" "ram ?k' = ram s'"
    using s'(4) by (auto simp: enable_mmu_def stage_interrupts_def stage_uart_def timer_init_def Let_def)
  have tx: "uart_tx (dev ?k') = uart_tx (dev k)"
    using s'(4) by (auto simp: enable_mmu_def stage_interrupts_def stage_uart_def timer_init_def uart_init_def
      plic_init_def plic_enable_irq_def enable_rx_interrupt_def Let_def)
  have pl: "unat (heap_start ?L) \<le> unat p \<and> unat p + 4096 \<le> unat (stack_top ?L)" if "p \<in> pool (page_bitmap ?k')" for p
    using H(4) that a(4) s'(3) same(3) m(1) by simp
  have "boot_ready cfg img {root} ?k'"
    unfolding boot_ready_def
  proof (intro conjI)
    show "vm_wf ?k' {root}" using s'(2) same by (simp add: vm_wf_def)
    show "heap_pool ?L (page_bitmap ?k')" using pl by (simp add: heap_pool_def)
    show "image_ok (page_bitmap ?k') (init_start img) (init_size img)" "image_ok (page_bitmap ?k') (uart_start img) (uart_size img)"
      using P pl by (auto intro!: image_below [OF lk])
    show "2 * (kernel_tables ?L + 3) + 2 \<le> free_pages ?k'" using room s'(5) same by (simp add: free_pages_def)
  qed (use P same lo in simp_all)
  moreover have "boot_run cfg img time k = launch cfg img ?k'"
    using a(1) s'(1) by (simp add: boot_run_def stage_mmu_def stage_user_def)
  ultimately show ?thesis using s'(3,6) same(3,4) m tx by (intro that [of ?k' "{root}"]) auto
qed

text \<open>
  C4. Booting reaches user mode: from the state the linker script and the statics give, the stages of
  \<open>boot.rs\<close> run through without a panic (the allocator's self-test included) and end in the first
  process, with the second one ready; the first process' code page holds the bytes of the init program and is executable
  but not writable, its stack page is writable but not executable.
\<close>
theorem boot_reaches_user:
  assumes "power_on cfg img k"
  shows "\<exists>k' code stk. boot_run cfg img time k = Some k' \<and> reachable uload cfg img k' \<and> user_trap k' \<and>
    states k' = [Free, Running, Ready, Free, Free, Free, Free, Free] \<and>
    tf_sepc (frame k') = code \<and> tf_sp (frame k') = stk + PAGE_SIZE \<and>
    walk (satp_to_root (satp k')) code (tree k') = Some \<lparr>wr_phys = code, wr_flags = USER_RX\<rparr> \<and>
    walk (satp_to_root (satp k')) stk (tree k') = Some \<lparr>wr_phys = stk, wr_flags = USER_RW\<rparr> \<and>
    (\<forall>i < unat (init_size img). ram k' (code + of_nat i) = ram k (init_start img + of_nat i))"
proof -
  obtain k1 R where k1: "boot_run cfg img time k = launch cfg img k1" "boot_ready cfg img R k1"
    "\<forall>b. page_of b \<notin> pool (page_bitmap k1) \<longrightarrow> ram k1 b = ram k b"
    by (rule stages_ready [OF assms])
  have "ram k1 (init_start img + of_nat i) = ram k (init_start img + of_nat i)" if "i < unat (init_size img)" for i
    using k1(2,3) that by (simp add: boot_ready_def image_ok_def)
  then show ?thesis using launch_boots [OF k1(2)] reachable.boot [OF k1(2)] unfolding k1(1) by metis
qed

theorem boot_reaches_user_witness:
  "\<exists>k'. boot_run demo_cfg img_demo 0 boot_demo = Some k' \<and> user_trap k' \<and>
     states k' = [Free, Running, Ready, Free, Free, Free, Free, Free]"
proof -
  have "linked qemu_layout"
    using qemu_layout_facts unfolding linked_def heap_pages_def
    by (simp add: qemu_layout_def PAGE_SIZE_def MAX_PAGES_def)
  then have "power_on demo_cfg img_demo boot_demo"
    by (simp add: power_on_def demo_cfg_def below_heap_def img_demo_def) (simp add: qemu_layout_def boot_demo_def)
  from boot_reaches_user [OF this] show ?thesis by blast
qed

end
