(* ===== verification/Greeting.thy ===== *)
theory Greeting
  imports Asm Boot_Run
begin

unbundle bit_operations_syntax

text \<open>
  The two programs the kernel starts at boot, written in assembly in \<open>lifecycle.rs\<close>: \<open>init\<close> (process 1)
  sends a greeting character by character to the UART server (process 2), which owns the UART through
  a mapping of its registers and a registered interrupt, writes each character and replies.  The
  theorem follows the two programs and the kernel between them from the boot state to the end of the
  greeting.  The pair \<open>auipc\<close> and \<open>addi\<close> that computes the address of a string is \<open>La\<close> here.
\<close>

section \<open>The programs\<close>

definition init_prog :: "asm_instr list" where
  "init_prog =
     [La S0 ''hello_str'',
      Label ''init_send_loop'',
      Lbu T0 0 S0,
      Beqz T0 ''init_done'',
      Li A7 4,
      Li A0 2,
      Mv A1 T0,
      Ecall,
      Addi S0 S0 1,
      Jump ''init_send_loop'',
      Label ''init_done'',
      Li A7 1,
      Li A0 0,
      Ecall,
      Label ''1'',
      Jump ''1'']"

definition hello_str :: "u8 list" where
  "hello_str = bytes_of ''Hello from userspace UART!'' @ [0x0D, 0x0A]"

definition UART_IRQ_NUM :: usize where "UART_IRQ_NUM = 10"
definition UART_LSR_OFF :: usize where "UART_LSR_OFF = 5"
definition UART_IER_OFF :: usize where "UART_IER_OFF = 1"

lemmas uart_equ = UART_IRQ_NUM_def UART_LSR_OFF_def UART_IER_OFF_def

definition uart_server :: "asm_instr list" where
  "uart_server =
     [Li S0 0x5E000000,
      Li A7 14, Li A0 UART_IRQ_NUM, Ecall,
      Li T0 0x01, Sb T0 UART_IER_OFF S0,
      Label ''uart_server_loop'',
      Li A7 3, Li A0 0, Ecall,
      Beqz A1 ''uart_handle_irq'',
      Mv S1 A1, Mv S2 A0,
      Label ''uart_tx_wait'',
      Lbu T0 UART_LSR_OFF S0, Andi T0 T0 0x20, Beqz T0 ''uart_tx_wait'',
      Sb S2 0 S0,
      Li A7 5, Mv A0 S1, Li A1 0, Ecall,
      Jump ''uart_server_loop'',
      Label ''uart_handle_irq'',
      Label ''uart_rx_loop'',
      Lbu T0 UART_LSR_OFF S0, Andi T0 T0 0x01, Beqz T0 ''uart_rx_done'',
      Lbu S2 0 S0,
      Li T1 0x12, Bne S2 T1 ''uart_not_reboot'',
      Label ''uart_reboot_msg'',
      La T2 ''uart_reboot_str'',
      Label ''uart_reboot_putc'',
      Lbu T3 0 T2, Beqz T3 ''uart_reboot_go'',
      Label ''uart_reboot_thr_wait'',
      Lbu T0 UART_LSR_OFF S0, Andi T0 T0 0x20, Beqz T0 ''uart_reboot_thr_wait'',
      Sb T3 0 S0, Addi T2 T2 1, Jump ''uart_reboot_putc'',
      Label ''uart_reboot_go'',
      Li A7 16, Ecall,
      Label ''uart_not_reboot'',
      Label ''uart_echo_wait'',
      Lbu T0 UART_LSR_OFF S0, Andi T0 T0 0x20, Beqz T0 ''uart_echo_wait'',
      Sb S2 0 S0,
      Li T1 13, Bne S2 T1 ''uart_rx_loop'',
      Label ''uart_lf_wait'',
      Lbu T0 UART_LSR_OFF S0, Andi T0 T0 0x20, Beqz T0 ''uart_lf_wait'',
      Li T1 10, Sb T1 0 S0,
      Jump ''uart_rx_loop'',
      Label ''uart_rx_done'',
      Li A7 15, Ecall,
      Jump ''uart_server_loop'']"

definition boot_prog :: "nat \<Rightarrow> asm_instr list" where
  "boot_prog i = (if i = 1 then init_prog else uart_server)"

section \<open>Two programs\<close>

lemma setr_sel [simp]:
  "frame (setr r v k) = set_reg (r, v) (frame k)" "procs (setr r v k) = procs k" "current_pid (setr r v k) = current_pid k"
  "ram (setr r v k) = ram k" "satp (setr r v k) = satp k" "dev (setr r v k) = dev k" "irq_owners (setr r v k) = irq_owners k"
  by (simp_all add: setr_def)

lemma user_mode_regs [simp]:
  "user_mode (f\<lparr>tf_t0 := v\<rparr>) = user_mode f" "user_mode (f\<lparr>tf_s0 := v\<rparr>) = user_mode f" "user_mode (f\<lparr>tf_s1 := v\<rparr>) = user_mode f" "user_mode (f\<lparr>tf_s2 := v\<rparr>) = user_mode f" "user_mode (f\<lparr>tf_a2 := v\<rparr>) = user_mode f" "user_mode (f\<lparr>tf_a3 := v\<rparr>) = user_mode f" "user_mode (f\<lparr>tf_a4 := v\<rparr>) = user_mode f" "user_mode (f\<lparr>tf_a5 := v\<rparr>) = user_mode f" "user_mode (f\<lparr>tf_a6 := v\<rparr>) = user_mode f" "user_mode (f\<lparr>tf_a7 := v\<rparr>) = user_mode f"
  by (simp_all add: user_mode_def)

text \<open>With \<open>init\<close> at place \<open>a\<close> and the server at place \<open>b\<close>, the machine gets to places and a state where \<open>Q\<close> holds.\<close>

definition duo :: "(kernel \<Rightarrow> usize \<Rightarrow> u8) \<Rightarrow> kcfg \<Rightarrow> (string \<Rightarrow> usize) \<Rightarrow> nat \<Rightarrow> nat \<Rightarrow> kernel \<Rightarrow>
    (nat \<Rightarrow> nat \<Rightarrow> kernel \<Rightarrow> bool) \<Rightarrow> bool" where
  "duo uload cfg lbl a b k Q \<longleftrightarrow> (\<forall>pcs. pcs 1 = a \<longrightarrow> pcs 2 = b \<longrightarrow>
     (\<exists>pcs' k'. asm_runs uload cfg boot_prog lbl (pcs, k) (pcs', k') \<and> Q (pcs' 1) (pcs' 2) k'))"

lemma duo_here: "Q a b k \<Longrightarrow> duo uload cfg lbl a b k Q"
  unfolding duo_def by blast

lemma duo_step:
  assumes "\<And>pcs. pcs 1 = a \<Longrightarrow> pcs 2 = b \<Longrightarrow>
      \<exists>pcs'. asm_step uload cfg boot_prog lbl (pcs, k) = Some (pcs', k') \<and> pcs' 1 = a' \<and> pcs' 2 = b'"
    and "duo uload cfg lbl a' b' k' Q"
  shows "duo uload cfg lbl a b k Q"
  unfolding duo_def
proof (intro allI impI)
  fix pcs :: "nat \<Rightarrow> nat" assume "pcs 1 = a" "pcs 2 = b"
  then obtain pcs' where p: "asm_step uload cfg boot_prog lbl (pcs, k) = Some (pcs', k')" "pcs' 1 = a'" "pcs' 2 = b'"
    using assms(1) by blast
  then obtain pcs'' k'' where "asm_runs uload cfg boot_prog lbl (pcs', k') (pcs'', k'')" "Q (pcs'' 1) (pcs'' 2) k''"
    using assms(2) unfolding duo_def by blast
  then show "\<exists>pcs' k'. asm_runs uload cfg boot_prog lbl (pcs, k) (pcs', k') \<and> Q (pcs' 1) (pcs' 2) k'"
    using runs_trans [OF runs_step [OF p(1)]] by blast
qed

lemma duo_trans:
  assumes "duo uload cfg lbl a b k P" "\<And>a' b' k'. P a' b' k' \<Longrightarrow> duo uload cfg lbl a' b' k' Q"
  shows "duo uload cfg lbl a b k Q"
  unfolding duo_def
proof (intro allI impI)
  fix pcs :: "nat \<Rightarrow> nat" assume "pcs 1 = a" "pcs 2 = b"
  then obtain pcs' k' where p: "asm_runs uload cfg boot_prog lbl (pcs, k) (pcs', k')" "P (pcs' 1) (pcs' 2) k'"
    using assms(1) unfolding duo_def by blast
  then obtain pcs'' k'' where "asm_runs uload cfg boot_prog lbl (pcs', k') (pcs'', k'')" "Q (pcs'' 1) (pcs'' 2) k''"
    using assms(2) [OF p(2)] unfolding duo_def by blast
  then show "\<exists>pcs' k'. asm_runs uload cfg boot_prog lbl (pcs, k) (pcs', k') \<and> Q (pcs' 1) (pcs' 2) k'"
    using runs_trans [OF p(1)] by blast
qed

text \<open>The rules for the two programs; the current process decides which one makes the step.\<close>

lemma init_next:
  assumes "user_mode (frame k)" "current_pid k = 1" "a < length init_prog" "asm_exec lbl (init_prog ! a) k = Next k'"
    "duo uload cfg lbl a' b k' Q" "a' = Suc a"
  shows "duo uload cfg lbl a b k Q"
  by (rule duo_step [OF _ assms(5)]) (use assms(1-4,6) in \<open>simp add: asm_step_def boot_prog_def Let_def\<close>)

lemma init_goto:
  assumes "user_mode (frame k)" "current_pid k = 1" "a < length init_prog" "asm_exec lbl (init_prog ! a) k = Goto l k'"
    "find (\<lambda>n. init_prog ! n = Label l) [0..<length init_prog] = Some a'" "duo uload cfg lbl a' b k' Q"
  shows "duo uload cfg lbl a b k Q"
  by (rule duo_step [OF _ assms(6)]) (use assms(1-5) in \<open>simp add: asm_step_def boot_prog_def Let_def\<close>)

lemma init_ecall:
  assumes "user_mode (frame k)" "current_pid k = 1" "a < length init_prog" "init_prog ! a = Ecall"
    "handle_ecall uload cfg k = Some (Resume k')" "duo uload cfg lbl a' b k' Q" "a' = Suc a"
  shows "duo uload cfg lbl a b k Q"
  by (rule duo_step [OF _ assms(6)]) (use assms(1-5,7) in \<open>simp add: asm_step_def boot_prog_def Let_def trap_ecall\<close>)

lemma srv_next:
  assumes "user_mode (frame k)" "current_pid k = 2" "b < length uart_server" "asm_exec lbl (uart_server ! b) k = Next k'"
    "duo uload cfg lbl a b' k' Q" "b' = Suc b"
  shows "duo uload cfg lbl a b k Q"
  by (rule duo_step [OF _ assms(5)]) (use assms(1-4,6) in \<open>simp add: asm_step_def boot_prog_def Let_def\<close>)

lemma srv_goto:
  assumes "user_mode (frame k)" "current_pid k = 2" "b < length uart_server" "asm_exec lbl (uart_server ! b) k = Goto l k'"
    "find (\<lambda>n. uart_server ! n = Label l) [0..<length uart_server] = Some b'" "duo uload cfg lbl a b' k' Q"
  shows "duo uload cfg lbl a b k Q"
  by (rule duo_step [OF _ assms(6)]) (use assms(1-5) in \<open>simp add: asm_step_def boot_prog_def Let_def\<close>)

lemma srv_ecall:
  assumes "user_mode (frame k)" "current_pid k = 2" "b < length uart_server" "uart_server ! b = Ecall"
    "handle_ecall uload cfg k = Some (Resume k')" "duo uload cfg lbl a b' k' Q" "b' = Suc b"
  shows "duo uload cfg lbl a b k Q"
  by (rule duo_step [OF _ assms(6)]) (use assms(1-5,7) in \<open>simp add: asm_step_def boot_prog_def Let_def trap_ecall\<close>)

section \<open>The code between the system calls\<close>

text \<open>The server's view of the UART, through the page table with \<open>satp\<close> value \<open>s\<close> in memory \<open>m\<close>.\<close>

definition uart_mapped :: "u64 \<Rightarrow> mem \<Rightarrow> bool" where
  "uart_mapped s m \<longleftrightarrow> (\<forall>off < 8. walk (satp_to_root s) (0x5E000000 + off) (load64 m) =
     Some \<lparr>wr_phys = UART_BASE + off, wr_flags = USER_MMIO\<rparr>)"

lemma uart_access:
  assumes "uart_mapped (satp k) (ram k)" "off < 8"
  shows "user_lbu k (0x5E000000 + off) = Some (case uart_lbu off (dev k) of (b, d) \<Rightarrow> (b, k\<lparr>dev := d\<rparr>))"
    "user_sb k (0x5E000000 + off) b = Some (k\<lparr>dev := uart_sb off b (dev k)\<rparr>)"
proof -
  have f: "flags_contains USER_MMIO PTE_USER" "flags_contains USER_MMIO PTE_READ" "flags_contains USER_MMIO PTE_WRITE"
    by (simp_all add: flags_contains_def USER_MMIO_def flag_bit_defs)
  have "unat off < 8" using assms(2) by (simp add: word_less_nat_alt)
  then have "is_uart_pa (UART_BASE + off)"
    by (simp add: is_uart_pa_def UART_BASE_def word_le_nat_alt word_less_nat_alt unat_add_small)
  then show "user_lbu k (0x5E000000 + off) = Some (case uart_lbu off (dev k) of (b, d) \<Rightarrow> (b, k\<lparr>dev := d\<rparr>))"
    "user_sb k (0x5E000000 + off) b = Some (k\<lparr>dev := uart_sb off b (dev k)\<rparr>)"
    using assms f by (simp_all add: user_lbu_def user_sb_def user_pa_def uart_mapped_def)
qed

lemma server_length [simp]: "length uart_server = 65" "length init_prog = 16"
  by (simp_all add: uart_server_def init_prog_def)

lemma lsr_empty: "(ucast (fst (uart_lbu 5 d)) :: usize) AND 0x20 = 0x20" "snd (uart_lbu 5 d) = d"
  by (simp_all add: uart_lbu_def)

lemma srv_tx:
  assumes u: "user_mode (frame k)" "current_pid k = 2" and a1: "tf_a1 (frame k) \<noteq> 0"
    and s0: "tf_s0 (frame k) = 0x5E000000" and m: "uart_mapped (satp k) (ram k)"
    and go: "duo uload cfg lbl a 21 (k\<lparr>dev := putc (dev k) (ucast (tf_a0 (frame k))), frame := (frame k)\<lparr>tf_s1 := tf_a1 (frame k),
      tf_s2 := tf_a0 (frame k), tf_t0 := 0x20, tf_a7 := 5, tf_a0 := tf_a1 (frame k), tf_a1 := 0\<rparr>\<rparr>) Q"
  shows "duo uload cfg lbl a 10 k Q"
proof -
  let ?k1 = "setr S1 (tf_a1 (frame k)) k"
  let ?k2 = "setr S2 (tf_a0 (frame k)) ?k1"
  let ?k3 = "setr T0 (ucast (fst (uart_lbu 5 (dev k)))) ?k2"
  let ?k4 = "setr T0 0x20 ?k2"
  let ?k5 = "?k4\<lparr>dev := putc (dev k) (ucast (tf_a0 (frame k)))\<rparr>"
  let ?k6 = "setr A7 5 ?k5"
  let ?k7 = "setr A0 (tf_a1 (frame k)) ?k6"
  let ?k8 = "setr A1 0 ?k7"
  have i: "uart_server ! 10 = Beqz A1 ''uart_handle_irq''" "uart_server ! 11 = Mv S1 A1" "uart_server ! 12 = Mv S2 A0"
    "uart_server ! 13 = Label ''uart_tx_wait''" "uart_server ! 14 = Lbu T0 5 S0" "uart_server ! 15 = Andi T0 T0 0x20"
    "uart_server ! 16 = Beqz T0 ''uart_tx_wait''" "uart_server ! 17 = Sb S2 0 S0" "uart_server ! 18 = Li A7 5"
    "uart_server ! 19 = Mv A0 S1" "uart_server ! 20 = Li A1 0"
    by (simp_all add: uart_server_def uart_equ)
  have acc: "user_lbu j (0x5E000000 + 5) = Some (fst (uart_lbu 5 (dev k)), j)" 
    "user_sb j 0x5E000000 b = Some (j\<lparr>dev := putc (dev k) b\<rparr>)"
    if "satp j = satp k" "ram j = ram k" "dev j = dev k" for j b
    using uart_access [of j 5] uart_access(2) [of j 0 b] m that lsr_empty(2) [of "dev k"]
    by (simp_all add: uart_sb_def split: prod.splits)
  have e: "asm_exec lbl (Lbu T0 5 S0) ?k2 = Next ?k3" "asm_exec lbl (Andi T0 T0 0x20) ?k3 = Next ?k4"
    "asm_exec lbl (Sb S2 0 S0) ?k4 = Next ?k5"
    using acc(1) [of ?k2] acc(2) [of ?k4] s0 lsr_empty(1) [of "dev k"] by (simp_all add: setr_def)
  have h1: "duo uload cfg lbl a 21 ?k8 Q" using go by (simp add: setr_def)
  have h2: "duo uload cfg lbl a 20 ?k7 Q" by (rule srv_next [OF _ _ _ _ h1]) (use i u e in simp_all)
  have h3: "duo uload cfg lbl a 19 ?k6 Q" by (rule srv_next [OF _ _ _ _ h2]) (use i u e in simp_all)
  have h4: "duo uload cfg lbl a 18 ?k5 Q" by (rule srv_next [OF _ _ _ _ h3]) (use i u e in simp_all)
  have h5: "duo uload cfg lbl a 17 ?k4 Q" by (rule srv_next [OF _ _ _ _ h4]) (use i u e in simp_all)
  have h6: "duo uload cfg lbl a 16 ?k4 Q" by (rule srv_next [OF _ _ _ _ h5]) (use i u e in simp_all)
  have h7: "duo uload cfg lbl a 15 ?k3 Q" by (rule srv_next [OF _ _ _ _ h6]) (use i u e in simp_all)
  have h8: "duo uload cfg lbl a 14 ?k2 Q" by (rule srv_next [OF _ _ _ _ h7]) (use i u e in simp_all)
  have h9: "duo uload cfg lbl a 13 ?k2 Q" by (rule srv_next [OF _ _ _ _ h8]) (use i u e in simp_all)
  have h10: "duo uload cfg lbl a 12 ?k1 Q" by (rule srv_next [OF _ _ _ _ h9]) (use i u e in simp_all)
  have h11: "duo uload cfg lbl a 11 k Q" by (rule srv_next [OF _ _ _ _ h10]) (use i u e in simp_all)
  show ?thesis by (rule srv_next [OF _ _ _ _ h11]) (use i u a1 in simp_all)
qed

lemma srv_listen:
  assumes u: "user_mode (frame k)" "current_pid k = 2"
    and go: "duo uload cfg lbl a 9 (k\<lparr>frame := (frame k)\<lparr>tf_a7 := 3, tf_a0 := 0\<rparr>\<rparr>) Q"
  shows "duo uload cfg lbl a 6 k Q" "duo uload cfg lbl a 22 k Q"
proof -
  have i: "uart_server ! 6 = Label ''uart_server_loop''" "uart_server ! 7 = Li A7 3" "uart_server ! 8 = Li A0 0"
    "uart_server ! 22 = Jump ''uart_server_loop''" by (simp_all add: uart_server_def)
  have l: "find (\<lambda>n. uart_server ! n = Label ''uart_server_loop'') [0..<length uart_server] = Some 6" by code_simp
  have h1: "duo uload cfg lbl a 9 (setr A0 0 (setr A7 3 k)) Q" using go by (simp add: setr_def)
  have h2: "duo uload cfg lbl a 8 (setr A7 3 k) Q" by (rule srv_next [OF _ _ _ _ h1]) (use i u in simp_all)
  have h3: "duo uload cfg lbl a 7 k Q" by (rule srv_next [OF _ _ _ _ h2]) (use i u in simp_all)
  show d: "duo uload cfg lbl a 6 k Q" by (rule srv_next [OF _ _ _ _ h3]) (use i u in simp_all)
  show "duo uload cfg lbl a 22 k Q" by (rule srv_goto [OF u _ _ l d]) (use i in simp_all)
qed

text \<open>A readable byte string in user memory.\<close>

definition str_at :: "u64 \<Rightarrow> mem \<Rightarrow> usize \<Rightarrow> u8 list \<Rightarrow> bool" where
  "str_at s m p bs \<longleftrightarrow> (\<forall>i < length bs. \<exists>w. walk (satp_to_root s) (p + of_nat i) (load64 m) = Some w \<and>
     flags_contains (wr_flags w) PTE_USER \<and> flags_contains (wr_flags w) PTE_READ \<and> \<not> is_uart_pa (wr_phys w) \<and>
     m (wr_phys w) = bs ! i)"

lemma str_at_Cons: "str_at s m p (b # bs) \<Longrightarrow> str_at s m (p + 1) bs"
  unfolding str_at_def
proof (intro allI impI)
  fix i assume a: "\<forall>i < length (b # bs). \<exists>w. walk (satp_to_root s) (p + of_nat i) (load64 m) = Some w \<and>
     flags_contains (wr_flags w) PTE_USER \<and> flags_contains (wr_flags w) PTE_READ \<and> \<not> is_uart_pa (wr_phys w) \<and>
     m (wr_phys w) = (b # bs) ! i" and i: "i < length bs"
  show "\<exists>w. walk (satp_to_root s) (p + 1 + of_nat i) (load64 m) = Some w \<and>
     flags_contains (wr_flags w) PTE_USER \<and> flags_contains (wr_flags w) PTE_READ \<and> \<not> is_uart_pa (wr_phys w) \<and>
     m (wr_phys w) = bs ! i"
    using a [rule_format, of "Suc i"] i by (simp add: add.assoc)
qed

lemma str_at_lbu: "str_at (satp k) (ram k) p (b # bs) \<Longrightarrow> user_lbu k p = Some (b, k)"
  unfolding str_at_def user_lbu_def user_pa_def by (auto dest!: spec [of _ 0])

lemma init_code: "init_prog ! 0 = La S0 ''hello_str''" "init_prog ! 1 = Label ''init_send_loop''" "init_prog ! 2 = Lbu T0 0 S0"
  "init_prog ! 3 = Beqz T0 ''init_done''" "init_prog ! 4 = Li A7 4" "init_prog ! 5 = Li A0 2" "init_prog ! 6 = Mv A1 T0"
  "init_prog ! 7 = Ecall" "init_prog ! 8 = Addi S0 S0 1" "init_prog ! 9 = Jump ''init_send_loop''"
  "init_prog ! 10 = Label ''init_done''" "init_prog ! 11 = Li A7 1" "init_prog ! 12 = Li A0 0" "init_prog ! 13 = Ecall"
  by (simp_all add: init_prog_def)

lemma init_char:
  assumes u: "user_mode (frame k)" "current_pid k = 1" and s: "str_at (satp k) (ram k) (tf_s0 (frame k)) (c # bs)" "c \<noteq> 0"
    and go: "duo uload cfg lbl 7 b (k\<lparr>frame := (frame k)\<lparr>tf_t0 := ucast c, tf_a7 := 4, tf_a0 := 2, tf_a1 := ucast c\<rparr>\<rparr>) Q"
  shows "duo uload cfg lbl 1 b k Q"
proof -
  let ?k1 = "setr T0 (ucast c) k"
  have "(ucast (ucast c :: usize) :: u8) = c" by (rule bit_word_eqI) (auto simp: bit_simps)
  then have c0: "(ucast c :: usize) \<noteq> 0" using s(2) by auto
  have e: "asm_exec lbl (Lbu T0 0 S0) k = Next ?k1" using str_at_lbu [OF s(1)] by simp
  have h1: "duo uload cfg lbl 7 b (setr A1 (ucast c) (setr A0 2 (setr A7 4 ?k1))) Q" using go by (simp add: setr_def)
  have h2: "duo uload cfg lbl 6 b (setr A0 2 (setr A7 4 ?k1)) Q" by (rule init_next [OF _ _ _ _ h1]) (use init_code u in simp_all)
  have h3: "duo uload cfg lbl 5 b (setr A7 4 ?k1) Q" by (rule init_next [OF _ _ _ _ h2]) (use init_code u in simp_all)
  have h4: "duo uload cfg lbl 4 b ?k1 Q" by (rule init_next [OF _ _ _ _ h3]) (use init_code u in simp_all)
  have h5: "duo uload cfg lbl 3 b ?k1 Q" by (rule init_next [OF _ _ _ _ h4]) (use init_code u c0 in simp_all)
  have h6: "duo uload cfg lbl 2 b k Q" by (rule init_next [OF _ _ _ _ h5]) (use init_code u e in simp_all)
  show ?thesis by (rule init_next [OF _ _ _ _ h6]) (use init_code u in simp_all)
qed

lemma init_advance:
  assumes u: "user_mode (frame k)" "current_pid k = 1"
    and go: "duo uload cfg lbl 1 b (k\<lparr>frame := (frame k)\<lparr>tf_s0 := tf_s0 (frame k) + 1\<rparr>\<rparr>) Q"
  shows "duo uload cfg lbl 8 b k Q"
proof -
  have l: "find (\<lambda>n. init_prog ! n = Label ''init_send_loop'') [0..<length init_prog] = Some 1" by code_simp
  have h1: "duo uload cfg lbl 1 b (setr S0 (tf_s0 (frame k) + 1) k) Q" using go by (simp add: setr_def)
  have h2: "duo uload cfg lbl 9 b (setr S0 (tf_s0 (frame k) + 1) k) Q"
    by (rule init_goto [OF _ _ _ _ l h1]) (use init_code u in simp_all)
  show ?thesis by (rule init_next [OF _ _ _ _ h2]) (use init_code u in simp_all)
qed

lemma init_finish:
  assumes u: "user_mode (frame k)" "current_pid k = 1" and s: "str_at (satp k) (ram k) (tf_s0 (frame k)) [0]"
    and go: "duo uload cfg lbl 13 b (k\<lparr>frame := (frame k)\<lparr>tf_t0 := 0, tf_a7 := 1, tf_a0 := 0\<rparr>\<rparr>) Q"
  shows "duo uload cfg lbl 1 b k Q"
proof -
  let ?k1 = "setr T0 0 k"
  have l: "find (\<lambda>n. init_prog ! n = Label ''init_done'') [0..<length init_prog] = Some 10" by code_simp
  have e: "asm_exec lbl (Lbu T0 0 S0) k = Next ?k1" using str_at_lbu [OF s(1)] by simp
  have h1: "duo uload cfg lbl 13 b (setr A0 0 (setr A7 1 ?k1)) Q" using go by (simp add: setr_def)
  have h2: "duo uload cfg lbl 12 b (setr A7 1 ?k1) Q" by (rule init_next [OF _ _ _ _ h1]) (use init_code u in simp_all)
  have h3: "duo uload cfg lbl 11 b ?k1 Q" by (rule init_next [OF _ _ _ _ h2]) (use init_code u in simp_all)
  have h4: "duo uload cfg lbl 10 b ?k1 Q" by (rule init_next [OF _ _ _ _ h3]) (use init_code u in simp_all)
  have h5: "duo uload cfg lbl 3 b ?k1 Q" by (rule init_goto [OF _ _ _ _ l h4]) (use init_code u in simp_all)
  have h6: "duo uload cfg lbl 2 b k Q" by (rule init_next [OF _ _ _ _ h5]) (use init_code u e in simp_all)
  show ?thesis by (rule init_next [OF _ _ _ _ h6]) (use init_code u in simp_all)
qed

section \<open>The kernel between the two\<close>

text \<open>Only the two processes exist; the server has no interrupt pending.\<close>

definition pair :: "process_state \<Rightarrow> process_state \<Rightarrow> kernel \<Rightarrow> bool" where
  "pair st1 st2 k \<longleftrightarrow> user_trap k \<and> states k = [Free, st1, st2, Free, Free, Free, Free, Free] \<and> \<not> pr_irq_pending (procs k ! 2)"

text \<open>What a switch between the two keeps.\<close>

definition same_machine :: "kernel \<Rightarrow> kernel \<Rightarrow> bool" where
  "same_machine k k' \<longleftrightarrow> ram k' = ram k \<and> dev k' = dev k \<and> pr_satp (procs k' ! 1) = pr_satp (procs k ! 1) \<and>
     pr_satp (procs k' ! 2) = pr_satp (procs k ! 2)"

lemma pairD:
  assumes "pair st1 st2 k"
  shows "user_trap k" "states k = [Free, st1, st2, Free, Free, Free, Free, Free]" "\<not> pr_irq_pending (procs k ! 2)"
    "length (procs k) = 8" "pr_state (procs k ! 1) = st1" "pr_state (procs k ! 2) = st2"
proof -
  show u: "user_trap k" "states k = [Free, st1, st2, Free, Free, Free, Free, Free]" "\<not> pr_irq_pending (procs k ! 2)"
    using assms by (simp_all add: pair_def)
  show l: "length (procs k) = 8" by (rule user_trapD(7) [OF u(1)])
  show "pr_state (procs k ! 1) = st1" "pr_state (procs k ! 2) = st2"
    using states_nth [of 1 k] states_nth [of 2 k] l u(2) by simp_all
qed

lemma pair_context: "pair st1 st2 k \<Longrightarrow> st2 \<noteq> Free \<Longrightarrow> user_mode (pr_context (procs k ! 2))"
  "pair st1 st2 k \<Longrightarrow> st1 \<noteq> Free \<Longrightarrow> user_mode (pr_context (procs k ! 1))"
  using kernel_invD(7) [OF user_trapD(1) [OF pairD(1)], of st1 st2 k 2] kernel_invD(7) [OF user_trapD(1) [OF pairD(1)], of st1 st2 k 1]
    pairD(5,6) [of st1 st2 k] by auto

lemma ecall_trap:
  assumes "user_trap k" "handle_ecall uload cfg k = Some (Resume k')" "user_mode (frame k')"
  shows "user_trap k'"
  using syscall_okD(1) [OF handle_ecall_ok(1) [OF assms(1,2)]] assms(3) by (simp add: user_trap_def)

lemma hello_next:
  "next_ready [Free, BlockedCall, Ready, Free, Free, Free, Free, Free] 1 = Some 2"
  "next_ready [Free, Ready, BlockedRecv, Free, Free, Free, Free, Free] 2 = Some 1"
  by code_simp+

text \<open>\<open>SYS_CALL\<close> by \<open>init\<close> blocks it and runs the server, which gets the character if it was waiting for it.\<close>

lemma hello_call:
  assumes p: "pair Running st2 k" and c: "current_pid k = 1" and r: "tf_a7 (frame k) = 4" "tf_a0 (frame k) = 2"
    and st: "st2 = Ready \<or> st2 = BlockedRecv \<and> pr_ipc_target (procs k ! 2) = 0"
  shows "\<exists>k1. handle_ecall uload cfg k = Some (Resume k1) \<and> pair BlockedCall Running k1 \<and> current_pid k1 = 2 \<and> same_machine k k1 \<and>
    satp k1 = pr_satp (procs k ! 2) \<and> irq_owners k1 = irq_owners k \<and>
    pr_context (procs k1 ! 1) = frame (advance k) \<and> pr_ipc_target (procs k1 ! 1) = 2 \<and>
    pr_ipc_value (procs k1 ! 1) = tf_a1 (frame k) \<and>
    frame k1 = (if st2 = Ready then pr_context (procs k ! 2)
      else (pr_context (procs k ! 2))\<lparr>tf_a0 := tf_a1 (frame k), tf_a1 := 1, tf_a2 := tf_a2 (frame k), tf_a3 := tf_a3 (frame k)\<rparr>)"
proof -
  note P = pairD [OF p]
  let ?p = "procs k ! 2" and ?e = "call_entry 2 (tf_a1 (frame k)) (tf_a2 (frame k)) (tf_a3 (frame k)) (procs k ! 1)"
  let ?q = "if st2 = Ready then ?p else ?p\<lparr>pr_context := (pr_context ?p)\<lparr>tf_a0 := tf_a1 (frame k), tf_a1 := 1,
      tf_a2 := tf_a2 (frame k), tf_a3 := tf_a3 (frame k)\<rparr>, pr_state := Ready\<rparr>"
  let ?b = "set_proc 1 ?e (set_proc 2 ?q (advance k))"
  let ?k1 = "resume 2 (save 1 ?b)"
  have v: "is_valid_ipc_target 2 1" by (simp add: valid_target_unat)
  have q2: "pr_state ?q = Ready" using P(6) st by auto
  have stb: "states ?b = [Free, BlockedCall, Ready, Free, Free, Free, Free, Free]"
    using P(2,4) q2 by (simp add: states_def map_update call_entry_def)
  have sch: "schedule cfg ?b 1 = Some ?k1"
    using schedule_eq [of 1 ?b cfg] hello_next(1) P(4) unfolding stb by (simp add: call_entry_def)
  have "sys_call cfg k = schedule cfg ?b 1"
  proof (cases "st2 = Ready")
    case True
    have same: "set_proc 2 ?p (advance k) = advance k" by (simp add: set_proc_def)
    show ?thesis
      using sys_call_eq [OF P(1), of cfg] True c r v P(6) by (simp add: Let_def waits_for_def same)
  next
    case False
    then show ?thesis
      using sys_call_eq [OF P(1), of cfg] c r v st P(6) by (simp add: Let_def waits_for_def)
  qed
  then have "sys_call cfg k = Some ?k1" using sch by (rule trans)
  then have h: "handle_ecall uload cfg k = Some (Resume ?k1)"
    using r by (simp add: handle_ecall_def HANDLERS_def sys_defs handlers_sys_call_def)
  have f: "frame ?k1 = pr_context ?q" using P(4) by simp
  have "user_mode (frame ?k1)" using pair_context(1) [OF p] st unfolding f by auto
  note ut = ecall_trap [OF P(1) h this]
  have "states ?k1 = [Free, BlockedCall, Running, Free, Free, Free, Free, Free]"
    using P(2,4) by (simp add: states_def map_update call_entry_def)
  then have "pair BlockedCall Running ?k1" using ut P(3,4) by (simp add: pair_def)
  then show ?thesis
    using h f P(4) by (intro exI [of _ ?k1]) (auto simp: same_machine_def call_entry_def)
qed

text \<open>\<open>SYS_REPLY\<close> by the server.\<close>

lemma hello_reply:
  assumes p: "pair BlockedCall Running k" and c: "current_pid k = 2" and r: "tf_a7 (frame k) = 5" "tf_a0 (frame k) = 1"
    and t: "pr_ipc_target (procs k ! 1) = 2"
  shows "\<exists>k1. handle_ecall uload cfg k = Some (Resume k1) \<and> pair Ready Running k1 \<and> current_pid k1 = 2 \<and> same_machine k k1 \<and>
    satp k1 = satp k \<and> frame k1 = (frame (advance k))\<lparr>tf_a0 := 0\<rparr> \<and>
    pr_context (procs k1 ! 1) = (pr_context (procs k ! 1))\<lparr>tf_a0 := tf_a1 (frame k)\<rparr>"
proof -
  note P = pairD [OF p]
  let ?p = "procs k ! 1"
  let ?q = "?p\<lparr>pr_context := (pr_context ?p)\<lparr>tf_a0 := tf_a1 (frame k)\<rparr>, pr_state := Ready\<rparr>"
  let ?k1 = "set_a0 0 (set_proc 1 ?q (advance k))"
  have "sys_reply k = Some ?k1"
    using sys_reply_eq [OF P(1)] c r t P(5) by (simp add: Let_def valid_target_unat)
  then have h: "handle_ecall uload cfg k = Some (Resume ?k1)"
    using r by (simp add: handle_ecall_def HANDLERS_def sys_defs)
  have "user_mode (frame ?k1)" using user_trapD(2) [OF P(1)] by simp
  note ut = ecall_trap [OF P(1) h this]
  have "states ?k1 = [Free, Ready, Running, Free, Free, Free, Free, Free]"
    using P(2,4) by (simp add: states_def map_update)
  then have "pair Ready Running ?k1" using ut P(3,4) by (simp add: pair_def)
  then show ?thesis
    using h P(4) c by (intro exI [of _ ?k1]) (simp add: same_machine_def)
qed

text \<open>\<open>SYS_RECEIVE\<close> by the server: with nobody waiting it blocks and \<open>init\<close> runs on, with a call pending it takes it.\<close>

lemma hello_sender:
  assumes "pair st1 Running k"
  shows "first_sender 2 0 (procs k) = (if (st1 = BlockedSend \<or> st1 = BlockedCall) \<and> pr_ipc_target (procs k ! 1) = 2 then Some 1 else None)"
proof -
  note P = pairD [OF assms]
  have st: "pr_state (procs k ! i) = [Free, st1, Running, Free, Free, Free, Free, Free] ! i" if "i < 8" for i
    using that P(2,4) states_nth [of i k] by simp
  have n: "[Suc 0..<8] = [Suc 0, 2, 3, 4, 5, 6, 7]" by (simp add: upt_rec)
  show ?thesis using st [of 1] st [of 2] st [of 3] st [of 4] st [of 5] st [of 6] st [of 7]
    by (simp add: first_sender_def n is_sender_def)
qed

lemma hello_listen:
  assumes p: "pair Ready Running k" and c: "current_pid k = 2" and r: "tf_a7 (frame k) = 3" "tf_a0 (frame k) = 0"
  shows "\<exists>k1. handle_ecall uload cfg k = Some (Resume k1) \<and> pair Running BlockedRecv k1 \<and> current_pid k1 = 1 \<and> same_machine k k1 \<and>
    satp k1 = pr_satp (procs k ! 1) \<and> frame k1 = pr_context (procs k ! 1) \<and>
    pr_context (procs k1 ! 2) = frame (advance k) \<and> pr_ipc_target (procs k1 ! 2) = 0"
proof -
  note P = pairD [OF p]
  let ?e = "recv_entry 0 (procs k ! 2)"
  let ?b = "set_proc 2 ?e (advance k)"
  let ?k1 = "resume 1 (save 2 ?b)"
  have stb: "states ?b = [Free, Ready, BlockedRecv, Free, Free, Free, Free, Free]"
    using P(2,4) by (simp add: states_def map_update recv_entry_def)
  have "schedule cfg ?b 2 = Some ?k1"
    using schedule_eq [of 2 ?b cfg] hello_next(2) P(4) unfolding stb by (simp add: recv_entry_def)
  then have "sys_receive cfg k = Some ?k1"
    using sys_receive_eq [OF P(1), of cfg] hello_sender [OF p] c r P(3) by (simp add: Let_def)
  then have h: "handle_ecall uload cfg k = Some (Resume ?k1)"
    using r by (simp add: handle_ecall_def HANDLERS_def sys_defs)
  have f: "frame ?k1 = pr_context (procs k ! 1)" using P(4) by simp
  have "user_mode (frame ?k1)" using pair_context(2) [OF p] unfolding f by simp
  note ut = ecall_trap [OF P(1) h this]
  have "states ?k1 = [Free, Running, BlockedRecv, Free, Free, Free, Free, Free]"
    using P(2,4) by (simp add: states_def map_update recv_entry_def)
  then have "pair Running BlockedRecv ?k1" using ut P(3,4) by (simp add: pair_def recv_entry_def)
  then show ?thesis
    using h f P(4) by (intro exI [of _ ?k1]) (simp add: same_machine_def recv_entry_def)
qed

lemma hello_pending:
  assumes p: "pair BlockedCall Running k" and c: "current_pid k = 2" and r: "tf_a7 (frame k) = 3" "tf_a0 (frame k) = 0"
    and t: "pr_ipc_target (procs k ! 1) = 2"
  shows "handle_ecall uload cfg k = Some (Resume (set_a1 1 (set_a0 (pr_ipc_value (procs k ! 1)) (advance k))))"
    (is "_ = Some (Resume ?k1)") and "pair BlockedCall Running (set_a1 1 (set_a0 (pr_ipc_value (procs k ! 1)) (advance k)))"
proof -
  note P = pairD [OF p]
  have "sys_receive cfg k = Some ?k1"
    using sys_receive_eq [OF P(1), of cfg] hello_sender [OF p] c r t P(3,5) by (simp add: Let_def)
  then show h: "handle_ecall uload cfg k = Some (Resume ?k1)"
    using r by (simp add: handle_ecall_def HANDLERS_def sys_defs)
  have "user_mode (frame ?k1)" using user_trapD(2) [OF P(1)] by simp
  then show "pair BlockedCall Running ?k1" using ecall_trap [OF P(1) h] p by (simp add: pair_def states_def)
qed

text \<open>\<open>SYS_IRQ_REGISTER\<close> by the server, which then owns the UART's interrupt.\<close>

lemma hello_irq:
  assumes p: "pair BlockedCall Running k" and c: "current_pid k = 2" and r: "tf_a7 (frame k) = 14" "tf_a0 (frame k) = 10"
    and o: "irq_owners k ! 10 = 0"
  shows "\<exists>k1. handle_ecall uload cfg k = Some (Resume k1) \<and> pair BlockedCall Running k1 \<and> current_pid k1 = 2 \<and>
    ram k1 = ram k \<and> satp k1 = satp k \<and> dev k1 = plic_enable_irq (dev k) 10 \<and> irq_owners k1 ! 10 = 2 \<and>
    frame k1 = (frame (advance k))\<lparr>tf_a0 := 0\<rparr> \<and> procs k1 ! 1 = procs k ! 1 \<and> pr_satp (procs k1 ! 2) = pr_satp (procs k ! 2)"
proof -
  note P = pairD [OF p] and K = kernel_invD [OF user_trapD(1) [OF pairD(1) [OF p]]]
  let ?k1 = "set_a0 0 ((set_proc 2 ((procs k ! 2)\<lparr>pr_irq_num := 10\<rparr>) (advance k))
    \<lparr>irq_owners := (irq_owners k)[10 := 2], dev := plic_enable_irq (dev k) 10\<rparr>)"
  have "sys_irq_register k = Some ?k1" using sys_irq_register_eq [OF P(1)] c r o by (simp add: Let_def)
  then have h: "handle_ecall uload cfg k = Some (Resume ?k1)"
    using r by (simp add: handle_ecall_def HANDLERS_def sys_defs)
  have "user_mode (frame ?k1)" using user_trapD(2) [OF P(1)] by simp
  note ut = ecall_trap [OF P(1) h this]
  have "states ?k1 = [Free, BlockedCall, Running, Free, Free, Free, Free, Free]"
    using P(2,4,6) by (simp add: states_def map_update)
  then have "pair BlockedCall Running ?k1" using ut P(3,4) by (simp add: pair_def)
  then show ?thesis using h P(4) K(2) c by (intro exI [of _ ?k1]) simp
qed

text \<open>\<open>SYS_EXIT\<close> by \<open>init\<close>.\<close>

lemma hello_exit:
  assumes p: "pair Running BlockedRecv k" and c: "current_pid k = 1" and r: "tf_a7 (frame k) = 1"
  shows "\<exists>k1. handle_ecall uload cfg k = Some (Resume k1) \<and> dev k1 = dev k \<and>
    procs k1 ! 1 = dead_entry (tf_a0 (frame k)) (procs k ! 1) \<and> procs k1 ! 2 = procs k ! 2"
proof (rule sys_exit_spec [OF pairD(1) [OF p], of cfg])
  note P = pairD [OF p]
  fix k1
  assume x: "sys_exit cfg k = Some k1"
    and d: "procs k1 ! unat (current_pid k) = dead_entry (tf_a0 (frame k)) (procs k ! unat (current_pid k))"
    and o: "\<forall>i < 8. i \<noteq> unat (current_pid k) \<longrightarrow> dispatched
       (if find (\<lambda>i. is_waiting_on (current_pid k) (procs k ! i)) [1..<8] = Some i
        then woken (tf_a0 (frame k)) (procs k ! i) else procs k ! i) (procs k1 ! i)"
  have "handle_ecall uload cfg k = Some (Resume k1)"
    using x r by (simp add: handle_ecall_def HANDLERS_def sys_defs)
  moreover have "find (\<lambda>i. is_waiting_on (current_pid k) (procs k ! i)) [1..<8] \<noteq> Some 2"
    using P(6) by (auto simp: is_waiting_on_def dest!: find_Some_in)
  then have "procs k1 ! 2 = procs k ! 2"
    using o [rule_format, of 2] c P(6) by (simp add: dispatched_def)
  ultimately show ?thesis using exit_dev [OF x] d c by auto
qed

section \<open>A character\<close>

lemma pair_regs: "pair st1 st2 (k\<lparr>dev := d\<rparr>) = pair st1 st2 k"
  "user_mode f \<Longrightarrow> user_mode (frame k) \<Longrightarrow> pair st1 st2 (k\<lparr>frame := f\<rparr>) = pair st1 st2 k"
  by (simp_all add: pair_def user_trap_def kernel_inv_def states_def)

text \<open>\<open>init\<close> is about to send the characters \<open>bs\<close>, the server waits in its loop.\<close>

definition to_send :: "u8 list \<Rightarrow> nat \<Rightarrow> nat \<Rightarrow> kernel \<Rightarrow> bool" where
  "to_send bs a b k \<longleftrightarrow> a = 1 \<and> b = 10 \<and> pair Running BlockedRecv k \<and> current_pid k = 1 \<and> pr_ipc_target (procs k ! 2) = 0 \<and>
     tf_s0 (pr_context (procs k ! 2)) = 0x5E000000 \<and> uart_mapped (pr_satp (procs k ! 2)) (ram k) \<and>
     str_at (satp k) (ram k) (tf_s0 (frame k)) (bs @ [0])"

text \<open>The server with the character of a call: it writes the character and replies, and \<open>init\<close> runs on.\<close>

lemma serve_char:
  assumes p: "pair BlockedCall Running k" "current_pid k = 2" "pr_ipc_target (procs k ! 1) = 2"
    and f: "tf_a0 (frame k) = ucast c" "tf_a1 (frame k) = 1" "tf_s0 (frame k) = 0x5E000000"
    and m: "uart_mapped (satp k) (ram k)"
    and s: "str_at (pr_satp (procs k ! 1)) (ram k) (tf_s0 (pr_context (procs k ! 1)) + 1) (bs @ [0])"
  shows "duo uload cfg lbl 8 10 k (\<lambda>a b k'. to_send bs a b k' \<and> dev k' = putc (dev k) c)"
proof -
  have cc: "ucast (ucast c :: usize) = c" by (rule bit_word_eqI) (auto simp: bit_simps)
  have u: "user_mode (frame k)" by (rule user_trapD(2) [OF pairD(1) [OF p(1)]])
  define k1 where "k1 = k\<lparr>dev := putc (dev k) c, frame := (frame k)\<lparr>tf_s1 := 1, tf_s2 := ucast c, tf_t0 := 0x20,
    tf_a7 := 5, tf_a0 := 1, tf_a1 := 0\<rparr>\<rparr>"
  have k1: "pair BlockedCall Running k1" "current_pid k1 = 2" "pr_ipc_target (procs k1 ! 1) = 2"
    using p pair_regs(2) [of "(frame k)\<lparr>tf_s1 := 1, tf_s2 := ucast c, tf_t0 := 0x20, tf_a7 := 5, tf_a0 := 1, tf_a1 := 0\<rparr>"
      "k\<lparr>dev := putc (dev k) c\<rparr>"] u by (simp_all add: k1_def pair_regs(1))
  obtain k2 where h2: "handle_ecall uload cfg k1 = Some (Resume k2)" and p2: "pair Ready Running k2" "current_pid k2 = 2"
    and s2: "same_machine k1 k2" "satp k2 = satp k1" "frame k2 = (frame (advance k1))\<lparr>tf_a0 := 0\<rparr>"
    "pr_context (procs k2 ! 1) = (pr_context (procs k1 ! 1))\<lparr>tf_a0 := tf_a1 (frame k1)\<rparr>"
    using hello_reply [OF k1(1,2) _ _ k1(3), of uload cfg] by (auto simp: k1_def)
  define k3 where "k3 = k2\<lparr>frame := (frame k2)\<lparr>tf_a7 := 3, tf_a0 := 0\<rparr>\<rparr>"
  have k3: "pair Ready Running k3" "current_pid k3 = 2"
    using p2 pair_regs(2) [of _ k2] user_trapD(2) [OF pairD(1) [OF p2(1)]] by (simp_all add: k3_def)
  obtain k4 where h4: "handle_ecall uload cfg k3 = Some (Resume k4)" and p4: "pair Running BlockedRecv k4" "current_pid k4 = 1"
    and s4: "same_machine k3 k4" "satp k4 = pr_satp (procs k3 ! 1)" "frame k4 = pr_context (procs k3 ! 1)"
    "pr_context (procs k4 ! 2) = frame (advance k3)" "pr_ipc_target (procs k4 ! 2) = 0"
    using hello_listen [OF k3, of uload cfg] by (auto simp: k3_def)
  have u4: "user_mode (frame k4)" by (rule user_trapD(2) [OF pairD(1) [OF p4(1)]])
  let ?k5 = "k4\<lparr>frame := (frame k4)\<lparr>tf_s0 := tf_s0 (frame k4) + 1\<rparr>\<rparr>"
  let ?Q = "\<lambda>a b k'. to_send bs a b k' \<and> dev k' = putc (dev k) c"
  have mach: "ram k4 = ram k" "dev k4 = putc (dev k) c" "pr_satp (procs k4 ! 2) = pr_satp (procs k ! 2)"
    "satp k4 = pr_satp (procs k ! 1)"
    using s2(1) s4(1,2) by (simp_all add: same_machine_def k1_def k3_def)
  have sk: "satp k = pr_satp (procs k ! 2)" using user_trapD(6) [OF pairD(1) [OF p(1)]] p(2) by simp
  have fr: "tf_s0 (frame k4) = tf_s0 (pr_context (procs k ! 1))" "tf_s0 (pr_context (procs k4 ! 2)) = 0x5E000000"
    using s4(3,4) s2(3,4) f(3) by (simp_all add: k1_def k3_def)
  have "pair Running BlockedRecv ?k5" using p4(1) u4 by (simp add: pair_regs(2))
  then have "to_send bs 1 10 ?k5"
    using p4(2) s4(5) m s mach sk fr by (simp add: to_send_def)
  then have d1: "duo uload cfg lbl 1 10 ?k5 ?Q" by (intro duo_here) (simp add: mach)
  have d2: "duo uload cfg lbl 8 10 k4 ?Q" by (rule init_advance [OF u4 p4(2) d1])
  have e: "uart_server ! 9 = Ecall" "uart_server ! 21 = Ecall" by (simp_all add: uart_server_def)
  have d3: "duo uload cfg lbl 8 9 k3 ?Q"
    by (rule srv_ecall [OF user_trapD(2) [OF pairD(1) [OF k3(1)]] k3(2) _ e(1) h4 d2]) simp_all
  have d4: "duo uload cfg lbl 8 22 k2 ?Q"
    by (rule srv_listen(2) [OF user_trapD(2) [OF pairD(1) [OF p2(1)]] p2(2)]) (use d3 in \<open>simp add: k3_def\<close>)
  have d5: "duo uload cfg lbl 8 21 k1 ?Q"
    by (rule srv_ecall [OF user_trapD(2) [OF pairD(1) [OF k1(1)]] k1(2) _ e(2) h2 d4]) simp_all
  show ?thesis by (rule srv_tx [OF u p(2) _ f(3) m]) (use d5 f in \<open>simp_all add: k1_def cc\<close>)
qed

lemma to_sendD:
  assumes "to_send bs a b k"
  shows "a = 1" "b = 10" "pair Running BlockedRecv k" "current_pid k = 1" "pr_ipc_target (procs k ! 2) = 0"
    "tf_s0 (pr_context (procs k ! 2)) = 0x5E000000" "uart_mapped (pr_satp (procs k ! 2)) (ram k)"
    "str_at (satp k) (ram k) (tf_s0 (frame k)) (bs @ [0])" "user_mode (frame k)" "satp k = pr_satp (procs k ! 1)"
proof -
  show t: "a = 1" "b = 10" "pair Running BlockedRecv k" "current_pid k = 1" "pr_ipc_target (procs k ! 2) = 0"
    "tf_s0 (pr_context (procs k ! 2)) = 0x5E000000" "uart_mapped (pr_satp (procs k ! 2)) (ram k)"
    "str_at (satp k) (ram k) (tf_s0 (frame k)) (bs @ [0])" using assms by (simp_all add: to_send_def)
  show "user_mode (frame k)" "satp k = pr_satp (procs k ! 1)"
    using user_trapD(2,6) [OF pairD(1) [OF t(3)]] t(4) by simp_all
qed

lemma send_char:
  assumes t: "to_send (c # bs) a b k" and c: "c \<noteq> 0"
  shows "duo uload cfg lbl a b k (\<lambda>a b k'. to_send bs a b k' \<and> dev k' = putc (dev k) c)"
proof -
  note T = to_sendD [OF t]
  have str: "str_at (satp k) (ram k) (tf_s0 (frame k)) (c # bs @ [0])" using T(8) by simp
  define k1 where "k1 = k\<lparr>frame := (frame k)\<lparr>tf_t0 := ucast c, tf_a7 := 4, tf_a0 := 2, tf_a1 := ucast c\<rparr>\<rparr>"
  have k1: "pair Running BlockedRecv k1" "current_pid k1 = 1" "user_mode (frame k1)"
    using T(3,4,9) pair_regs(2) [of _ k] by (simp_all add: k1_def)
  obtain k2 where h2: "handle_ecall uload cfg k1 = Some (Resume k2)" and p2: "pair BlockedCall Running k2" "current_pid k2 = 2"
    and s2: "same_machine k1 k2" "satp k2 = pr_satp (procs k1 ! 2)" "pr_context (procs k2 ! 1) = frame (advance k1)"
    "pr_ipc_target (procs k2 ! 1) = 2" "frame k2 = (pr_context (procs k1 ! 2))\<lparr>tf_a0 := tf_a1 (frame k1), tf_a1 := 1,
       tf_a2 := tf_a2 (frame k1), tf_a3 := tf_a3 (frame k1)\<rparr>"
    using hello_call [OF k1(1,2), of uload cfg] T(5) by (auto simp: k1_def)
  have mach: "ram k2 = ram k" "dev k2 = dev k" "satp k2 = pr_satp (procs k ! 2)" "pr_satp (procs k2 ! 1) = satp k"
    "tf_s0 (pr_context (procs k2 ! 1)) = tf_s0 (frame k)" "tf_s0 (frame k2) = 0x5E000000" "tf_a0 (frame k2) = ucast c"
    "tf_a1 (frame k2) = 1"
    using s2 T(6,10) by (simp_all add: same_machine_def k1_def)
  let ?Q = "\<lambda>a b k'. to_send bs a b k' \<and> dev k' = putc (dev k) c"
  have d1: "duo uload cfg lbl 8 10 k2 ?Q"
    using serve_char [OF p2 s2(4) mach(7,8,6), of bs uload cfg lbl] T(7) str_at_Cons [OF str] mach by simp
  have d2: "duo uload cfg lbl 7 10 k1 ?Q"
    by (rule init_ecall [OF k1(3,2) _ init_code(8) h2 d1]) simp_all
  have "duo uload cfg lbl 1 10 k ?Q"
    by (rule init_char [OF T(9,4) str c]) (use d2 in \<open>simp add: k1_def\<close>)
  then show ?thesis using T(1,2) by simp
qed

definition all_sent :: "u8 list \<Rightarrow> kernel \<Rightarrow> kernel \<Rightarrow> bool" where
  "all_sent bs k k' \<longleftrightarrow> uart_tx (dev k') = rev bs @ uart_tx (dev k) \<and>
     pr_state (procs k' ! 1) = Free \<and> pr_exit_code (procs k' ! 1) = 0 \<and>
     pr_state (procs k' ! 2) = BlockedRecv \<and> pr_ipc_target (procs k' ! 2) = 0"

lemma send_end:
  assumes t: "to_send [] a b k"
  shows "duo uload cfg lbl a b k (\<lambda>_ _ k'. all_sent [] k k')"
proof -
  note T = to_sendD [OF t]
  define k1 where "k1 = k\<lparr>frame := (frame k)\<lparr>tf_t0 := 0, tf_a7 := 1, tf_a0 := 0\<rparr>\<rparr>"
  have k1: "pair Running BlockedRecv k1" "current_pid k1 = 1" "user_mode (frame k1)"
    using T(3,4,9) pair_regs(2) [of _ k] by (simp_all add: k1_def)
  obtain k2 where h2: "handle_ecall uload cfg k1 = Some (Resume k2)"
    and s2: "dev k2 = dev k1" "procs k2 ! 1 = dead_entry (tf_a0 (frame k1)) (procs k1 ! 1)" "procs k2 ! 2 = procs k1 ! 2"
    using hello_exit [OF k1(1,2), of uload cfg] by (auto simp: k1_def)
  have "all_sent [] k k2"
    using s2 T(5) pairD(6) [OF T(3)] by (simp add: all_sent_def k1_def dead_entry_def)
  then have d1: "duo uload cfg lbl 14 10 k2 (\<lambda>_ _ k'. all_sent [] k k')" by (rule duo_here)
  have d2: "duo uload cfg lbl 13 10 k1 (\<lambda>_ _ k'. all_sent [] k k')"
    by (rule init_ecall [OF k1(3,2) _ init_code(14) h2 d1]) simp_all
  have "duo uload cfg lbl 1 10 k (\<lambda>_ _ k'. all_sent [] k k')"
    by (rule init_finish [OF T(9,4)]) (use T(8) d2 in \<open>simp_all add: k1_def\<close>)
  then show ?thesis using T(1,2) by simp
qed

lemma send_all:
  assumes "to_send bs a b k" "0 \<notin> set bs"
  shows "duo uload cfg lbl a b k (\<lambda>_ _ k'. all_sent bs k k')"
  using assms
proof (induction bs arbitrary: a b k)
  case Nil
  then show ?case by (simp add: send_end)
next
  case (Cons c bs)
  show ?case
  proof (rule duo_trans [OF send_char [OF Cons.prems(1)]])
    fix a' b' k'
    assume s: "to_send bs a' b' k' \<and> dev k' = putc (dev k) c"
    have "duo uload cfg lbl a' b' k' (\<lambda>_ _ k''. all_sent bs k' k'')" using Cons s by simp
    then show "duo uload cfg lbl a' b' k' (\<lambda>_ _ k''. all_sent (c # bs) k k'')"
      by (rule duo_trans) (rule duo_here, use s in \<open>simp add: all_sent_def putc_def\<close>)
  qed (use Cons.prems(2) in simp)
qed

section \<open>The start\<close>

text \<open>The server's first instructions, up to its loop, with the first call of \<open>init\<close> already pending.\<close>

lemma srv_start:
  assumes p: "pair BlockedCall Running k" "current_pid k = 2" and o: "irq_owners k ! 10 = 0"
    and t: "pr_ipc_target (procs k ! 1) = 2" "pr_ipc_value (procs k ! 1) = ucast c"
    and m: "uart_mapped (satp k) (ram k)"
    and s: "str_at (pr_satp (procs k ! 1)) (ram k) (tf_s0 (pr_context (procs k ! 1)) + 1) (bs @ [0])"
  shows "duo uload cfg lbl 8 0 k (\<lambda>a b k'. to_send bs a b k' \<and> uart_tx (dev k') = c # uart_tx (dev k))"
proof -
  let ?Q = "\<lambda>a b k'. to_send bs a b k' \<and> uart_tx (dev k') = c # uart_tx (dev k)"
  have i: "uart_server ! 0 = Li S0 0x5E000000" "uart_server ! 1 = Li A7 14" "uart_server ! 2 = Li A0 10" "uart_server ! 3 = Ecall"
    "uart_server ! 4 = Li T0 1" "uart_server ! 5 = Sb T0 1 S0" "uart_server ! 9 = Ecall"
    by (simp_all add: uart_server_def uart_equ)
  have u: "user_mode (frame k)" by (rule user_trapD(2) [OF pairD(1) [OF p(1)]])
  let ?k1 = "setr A0 10 (setr A7 14 (setr S0 0x5E000000 k))"
  have k1: "pair BlockedCall Running ?k1" using p(1) u by (simp add: setr_def pair_regs(2))
  obtain k2 where h2: "handle_ecall uload cfg ?k1 = Some (Resume k2)" and p2: "pair BlockedCall Running k2" "current_pid k2 = 2"
    and s2: "ram k2 = ram k" "satp k2 = satp k" "dev k2 = plic_enable_irq (dev k) 10"
    "frame k2 = (frame (advance ?k1))\<lparr>tf_a0 := 0\<rparr>" "procs k2 ! 1 = procs k ! 1"
    using hello_irq [OF k1, of uload cfg] p(2) o by auto
  have u2: "user_mode (frame k2)" by (rule user_trapD(2) [OF pairD(1) [OF p2(1)]])
  have f2: "tf_s0 (frame k2) = 0x5E000000" using s2(4) by simp
  let ?k3 = "setr T0 1 k2"
  let ?k4 = "?k3\<lparr>dev := uart_sb 1 1 (dev k2)\<rparr>"
  have e5: "asm_exec lbl (Sb T0 1 S0) ?k3 = Next ?k4"
    using uart_access(2) [of ?k3 1 1] m s2(1,2) f2 by simp
  define k5 where "k5 = ?k4\<lparr>frame := (frame ?k4)\<lparr>tf_a7 := 3, tf_a0 := 0\<rparr>\<rparr>"
  have k5: "pair BlockedCall Running k5" "current_pid k5 = 2" "tf_a7 (frame k5) = 3" "tf_a0 (frame k5) = 0"
    "pr_ipc_target (procs k5 ! 1) = 2" "user_mode (frame k5)"
    using p2 u2 s2(5) t by (simp_all add: k5_def setr_def pair_regs)
  let ?k6 = "set_a1 1 (set_a0 (pr_ipc_value (procs k5 ! 1)) (advance k5))"
  have k6: "procs ?k6 ! 1 = procs k ! 1" "current_pid ?k6 = 2" "ram ?k6 = ram k" "satp ?k6 = satp k"
    "tf_a0 (frame ?k6) = ucast c" "tf_a1 (frame ?k6) = 1" "tf_s0 (frame ?k6) = 0x5E000000"
    "uart_tx (dev ?k6) = uart_tx (dev k)"
    using s2 t(2) p2(2) f2 by (simp_all add: k5_def setr_def uart_sb_def plic_enable_irq_def Let_def)
  have "duo uload cfg lbl 8 10 ?k6 (\<lambda>a b k'. to_send bs a b k' \<and> dev k' = putc (dev ?k6) c)"
    by (rule serve_char [OF hello_pending(2) [OF k5(1-5)]]) (use k6 t m s in simp_all)
  then have d1: "duo uload cfg lbl 8 10 ?k6 ?Q"
    by (rule duo_trans) (rule duo_here, use k6(8) in \<open>simp add: putc_def\<close>)
  have d2: "duo uload cfg lbl 8 9 k5 ?Q"
    by (rule srv_ecall [OF k5(6,2) _ i(7) hello_pending(1) [OF k5(1-5)] d1]) simp_all
  have d3: "duo uload cfg lbl 8 6 ?k4 ?Q"
    by (rule srv_listen(1)) (use u2 p2 d2 in \<open>simp_all add: k5_def\<close>)
  have d4: "duo uload cfg lbl 8 5 ?k3 ?Q" by (rule srv_next [OF _ _ _ _ d3]) (use i u2 p2 e5 in simp_all)
  have d5: "duo uload cfg lbl 8 4 k2 ?Q" by (rule srv_next [OF _ _ _ _ d4]) (use i u2 p2 in simp_all)
  have d6: "duo uload cfg lbl 8 3 ?k1 ?Q" by (rule srv_ecall [OF _ _ _ i(4) h2 d5]) (use u p in simp_all)
  have d7: "duo uload cfg lbl 8 2 (setr A7 14 (setr S0 0x5E000000 k)) ?Q"
    by (rule srv_next [OF _ _ _ _ d6]) (use i u p in simp_all)
  have d8: "duo uload cfg lbl 8 1 (setr S0 0x5E000000 k) ?Q"
    by (rule srv_next [OF _ _ _ _ d7]) (use i u p in simp_all)
  show ?thesis by (rule srv_next [OF _ _ _ _ d8]) (use i u p in simp_all)
qed

lemma greet:
  assumes p: "pair Running Ready k" "current_pid k = 1" "irq_owners k ! 10 = 0" and m: "uart_mapped (pr_satp (procs k ! 2)) (ram k)"
    and s: "str_at (satp k) (ram k) (lbl ''hello_str'') (c # bs @ [0])" "0 \<notin> set (c # bs)"
  shows "duo uload cfg lbl 0 0 k (\<lambda>_ _ k'. all_sent (c # bs) k k')"
proof -
  let ?k1 = "setr S0 (lbl ''hello_str'') k"
  define k2 where "k2 = ?k1\<lparr>frame := (frame ?k1)\<lparr>tf_t0 := ucast c, tf_a7 := 4, tf_a0 := 2, tf_a1 := ucast c\<rparr>\<rparr>"
  let ?Q = "\<lambda>_ _ k'. all_sent (c # bs) k k'"
  have u: "user_mode (frame k)" and sk: "satp k = pr_satp (procs k ! 1)"
    using user_trapD(2,6) [OF pairD(1) [OF p(1)]] p(2) by simp_all
  have k2: "pair Running Ready k2" "current_pid k2 = 1" "user_mode (frame k2)"
    using p u by (simp_all add: k2_def setr_def pair_regs(2))
  obtain k3 where h3: "handle_ecall uload cfg k2 = Some (Resume k3)" and p3: "pair BlockedCall Running k3" "current_pid k3 = 2"
    and s3: "same_machine k2 k3" "satp k3 = pr_satp (procs k2 ! 2)" "irq_owners k3 = irq_owners k2"
    "pr_context (procs k3 ! 1) = frame (advance k2)" "pr_ipc_target (procs k3 ! 1) = 2"
    "pr_ipc_value (procs k3 ! 1) = tf_a1 (frame k2)"
    using hello_call [OF k2(1,2), of uload cfg] by (auto simp: k2_def)
  have "duo uload cfg lbl 8 0 k3 (\<lambda>a b k'. to_send bs a b k' \<and> uart_tx (dev k') = c # uart_tx (dev k3))"
    by (rule srv_start [OF p3 _ s3(5)])
      (use s3 p(3) m sk str_at_Cons [OF s(1)] in \<open>simp_all add: same_machine_def k2_def\<close>)
  then have d1: "duo uload cfg lbl 8 0 k3 ?Q"
  proof (rule duo_trans)
    fix a b k'
    assume t: "to_send bs a b k' \<and> uart_tx (dev k') = c # uart_tx (dev k3)"
    have "uart_tx (dev k3) = uart_tx (dev k)" using s3(1) by (simp add: same_machine_def k2_def)
    then show "duo uload cfg lbl a b k' ?Q"
      using send_all [of bs a b k' uload cfg lbl] s(2) t
      by (intro duo_trans [OF send_all [of bs a b k' uload cfg lbl]] duo_here) (simp_all add: all_sent_def)
  qed
  have d2: "duo uload cfg lbl 7 0 k2 ?Q" by (rule init_ecall [OF k2(3,2) _ init_code(8) h3 d1]) simp_all
  have d3: "duo uload cfg lbl 1 0 ?k1 ?Q"
    by (rule init_char) (use u p s d2 in \<open>simp_all add: k2_def\<close>)
  show ?thesis by (rule init_next [OF _ _ _ _ d3]) (use init_code u p in simp_all)
qed

section \<open>From power-on to the greeting\<close>

lemma hello_bytes: "hello_str \<noteq> []" "0 \<notin> set hello_str" "length hello_str = 28"
  by (simp_all add: hello_str_def bytes_of_def)

lemma region_below:
  assumes "unat (UART_BASE :: usize) + 4096 \<le> unat p"
  shows "\<not> is_uart_pa p"
  using assms by (simp add: is_uart_pa_def UART_BASE_def word_less_nat_alt word_le_nat_alt)

text \<open>What \<open>launch\<close> gives the two programs.\<close>

lemma launch_pair:
  assumes b: "boot_ready cfg img R k" and hp: "unat UART_BASE + 4096 \<le> unat (heap_start (lay cfg))"
    and n: "off + length bs \<le> unat (init_size img)" "\<forall>i < length bs. ram k (init_start img + of_nat (off + i)) = bs ! i"
  obtains k' where "launch cfg img k = Some k'" "pair Running Ready k'" "current_pid k' = 1" "irq_owners k' ! 10 = 0"
    "uart_mapped (pr_satp (procs k' ! 2)) (ram k')" "str_at (satp k') (ram k') (tf_sepc (frame k') + of_nat off) bs"
    "dev k' = dev k"
proof (rule launch_spec [OF b])
  fix r1 c1 t1 r2 c2 t2 k'
  assume l: "launch cfg img k = Some k'"
    and ps: "procs k' = (replicate 8 Process_empty)
       [1 := (new_process 1 (make_satp r1 1) c1 (t1 + PAGE_SIZE) 0)\<lparr>pr_state := Running\<rparr>,
        2 := new_process 2 (make_satp r2 2) c2 (t2 + PAGE_SIZE) 0]"
    and c: "current_pid k' = 1" and irq: "irq_owners k' = replicate 64 0"
    and root: "satp_to_root (satp k') = r1" "satp_to_root (make_satp r2 2) = r2" and pc: "tf_sepc (frame k') = c1"
    and w1: "\<forall>va < 2 ^ 39. walk r1 va (tree k') = boot_space (lay cfg) c1 t1 va"
    and w2: "\<forall>va < 2 ^ 39. walk r2 va (tree k') =
       (if same_vpn UART_USER_VA va then Some \<lparr>wr_phys = UART_BASE + take_bit 12 va, wr_flags = USER_MMIO\<rparr>
        else boot_space (lay cfg) c2 t2 va)"
    and im: "\<forall>i < unat (init_size img). ram k' (c1 + of_nat i) = ram k (init_start img + of_nat i)"
    and al: "c1 mod PAGE_SIZE = 0" "c1 \<noteq> t1" "c1 < 2 ^ 39"
    and pool: "c1 \<in> pool (page_bitmap k)" and d: "dev k' = dev k"
  obtain k'' where "launch cfg img k = Some k''" "user_trap k''" by (rule launch_user [OF b])
  then have ut: "user_trap k'" using l by simp
  have "states k' = [Free, Running, Ready, Free, Free, Free, Free, Free]"
    by (simp add: states_def ps Process_empty_def numeral_eq_Suc)
  then have p: "pair Running Ready k'" using ut by (simp add: pair_def ps new_process_def Process_empty_def)
  have sz: "unat (init_size img) \<le> 4096" and lay: "layout_ok (lay cfg)" and hpool: "heap_pool (lay cfg) (page_bitmap k)"
    using b by (simp_all add: boot_ready_def image_ok_def)
  have bound: "unat c1 + 4096 \<le> 2 ^ 39" "unat UART_BASE + 4096 \<le> unat c1"
    using heap_region(1) [OF lay hpool pool al(1)] hpool pool hp unfolding heap_pool_def by (blast, meson le_trans)
  have "uart_mapped (make_satp r2 2) (ram k')"
    unfolding uart_mapped_def root(2)
  proof (intro allI impI)
    fix o8 :: usize assume "o8 < 8"
    then have o: "unat o8 < 8" by (simp add: word_less_nat_alt)
    then have e: "unat (0x5E000000 + o8) = 0x5E000000 + unat o8" by (subst unat_add_small) simp_all
    have "(0x5E000000 + unat o8) mod 4096 = unat o8"
      using o mod_mult_self3 [of 385024 4096 "unat o8"] by simp
    then have "take_bit 12 (0x5E000000 + o8) = o8" "same_vpn UART_USER_VA (0x5E000000 + o8)"
      using o e by (simp_all add: same_vpn_def UART_USER_VA_def word_unat_eq_iff unsigned_take_bit_eq unat_drop_bit_eq
        take_bit_eq_mod drop_bit_eq_div unat_mod_distrib unat_div_distrib)
    moreover have "0x5E000000 + o8 < 2 ^ 39" using e o by (simp add: word_less_nat_alt)
    ultimately show "walk r2 (0x5E000000 + o8) (tree k') = Some \<lparr>wr_phys = UART_BASE + o8, wr_flags = USER_MMIO\<rparr>"
      using w2 by simp
  qed
  moreover have "str_at (satp k') (ram k') (tf_sepc (frame k') + of_nat off) bs"
    unfolding str_at_def root(1) pc
  proof (intro allI impI)
    fix i assume i: "i < length bs"
    then have j: "off + i < 4096" using n(1) sz by simp
    let ?va = "c1 + of_nat (off + i) :: usize"
    have u: "unat (of_nat (off + i) :: usize) = off + i" using j by (intro unat_of_nat_small) simp
    then have ua: "unat ?va = unat c1 + (off + i)" using bound(1) j by (subst unat_add_small) simp_all
    then have "?va < 2 ^ 39" using bound(1) j by (simp add: word_less_nat_alt)
    then have "walk r1 ?va (tree k') = Some \<lparr>wr_phys = ?va, wr_flags = USER_RX\<rparr>"
      using w1 page_of_off [OF al(1) j] al(2) by (simp add: boot_space_def)
    moreover have "\<not> is_uart_pa ?va" using bound(2) ua by (intro region_below) simp
    moreover have "flags_contains USER_RX PTE_USER" "flags_contains USER_RX PTE_READ"
      by (simp_all add: flags_contains_def USER_RX_def flag_bit_defs)
    moreover have "ram k' ?va = bs ! i" using im n i by (simp del: of_nat_add)
    ultimately show "\<exists>w. walk r1 (c1 + of_nat off + of_nat i) (tree k') = Some w \<and>
        flags_contains (wr_flags w) PTE_USER \<and> flags_contains (wr_flags w) PTE_READ \<and> \<not> is_uart_pa (wr_phys w) \<and>
        ram k' (wr_phys w) = bs ! i"
      by (simp add: add.assoc)
  qed
  ultimately show thesis
    using l p c irq d by (intro that [of k']) (simp_all add: ps)
qed

section \<open>Properties\<close>

text \<open>
  C36. The greeting is printed: from power-on, with the string of \<open>init\<close> in its image, the boot stages
  start the two programs and these, through the kernel's \<open>SYS_IRQ_REGISTER\<close>, \<open>SYS_CALL\<close>,
  \<open>SYS_RECEIVE\<close>, \<open>SYS_REPLY\<close> and \<open>SYS_EXIT\<close> and the scheduler's switches between them, write the whole
  greeting to the UART, every character once and in order; at the end \<open>init\<close> has exited with code 0
  and the UART server waits for the next message from anyone.
\<close>

theorem greeting_printed:
  assumes "power_on cfg img k" "unat UART_BASE + 4096 \<le> unat (heap_start (lay cfg))"
    and "off + 29 \<le> unat (init_size img)" "\<forall>i < 29. ram k (init_start img + of_nat (off + i)) = (hello_str @ [0]) ! i"
  shows "\<exists>k0. boot_run cfg img time k = Some k0 \<and>
    (\<forall>lbl. lbl ''hello_str'' = tf_sepc (frame k0) + of_nat off \<longrightarrow>
      (\<exists>pcs k1. asm_runs uload cfg boot_prog lbl (\<lambda>_. 0, k0) (pcs, k1) \<and>
         uart_tx (dev k1) = rev hello_str @ uart_tx (dev k) \<and>
         pr_state (procs k1 ! 1) = Free \<and> pr_exit_code (procs k1 ! 1) = 0 \<and>
         pr_state (procs k1 ! 2) = BlockedRecv \<and> pr_ipc_target (procs k1 ! 2) = 0))"
proof -
  obtain ks R where ks: "boot_run cfg img time k = launch cfg img ks" "boot_ready cfg img R ks"
    "\<forall>b. page_of b \<notin> pool (page_bitmap ks) \<longrightarrow> ram ks b = ram k b" "uart_tx (dev ks) = uart_tx (dev k)"
    by (rule stages_ready [OF assms(1)])
  have len: "length (hello_str @ [0]) = 29" by (simp add: hello_bytes)
  obtain c bs where cb: "hello_str = c # bs" using hello_bytes(1) by (cases hello_str) blast
  have "ram ks (init_start img + of_nat j) = ram k (init_start img + of_nat j)" if "j < unat (init_size img)" for j
    using ks(2,3) that by (simp add: boot_ready_def image_ok_def)
  then have str: "\<forall>i < 29. ram ks (init_start img + of_nat (off + i)) = (hello_str @ [0]) ! i"
    using assms(3,4) by (simp del: of_nat_add)
  obtain k0 where k0: "launch cfg img ks = Some k0" "pair Running Ready k0" "current_pid k0 = 1" "irq_owners k0 ! 10 = 0"
    "uart_mapped (pr_satp (procs k0 ! 2)) (ram k0)" "str_at (satp k0) (ram k0) (tf_sepc (frame k0) + of_nat off) (hello_str @ [0])"
    "dev k0 = dev ks"
    by (rule launch_pair [OF ks(2) assms(2), of off "hello_str @ [0]"]) (use assms(3) str len in simp_all)
  have "\<exists>pcs k1. asm_runs uload cfg boot_prog lbl (\<lambda>_. 0, k0) (pcs, k1) \<and> all_sent hello_str k0 k1"
    if "lbl ''hello_str'' = tf_sepc (frame k0) + of_nat off" for lbl
    using greet [OF k0(2-5), of lbl c bs uload cfg] k0(6) that hello_bytes(2)
    unfolding duo_def by (simp add: cb)
  then show ?thesis using k0(1,7) ks(1,4) unfolding all_sent_def by metis
qed

theorem greeting_printed_witness:
  "\<exists>k0 pcs k1. boot_run demo_cfg (img_demo\<lparr>init_size := 100\<rparr>) 0
      (boot_demo\<lparr>ram := (\<lambda>a. if unat (a - 0x8020003C) < 29 then (hello_str @ [0]) ! unat (a - 0x8020003C) else 0)\<rparr>) = Some k0 \<and>
    asm_runs (\<lambda>_ _. 0) demo_cfg boot_prog (\<lambda>_. tf_sepc (frame k0) + 60) (\<lambda>_. 0, k0) (pcs, k1) \<and>
    uart_tx (dev k1) = rev hello_str"
proof -
  let ?m = "\<lambda>a :: usize. if unat (a - 0x8020003C) < 29 then (hello_str @ [0]) ! unat (a - 0x8020003C) else 0"
  have "linked qemu_layout"
    using qemu_layout_facts unfolding linked_def heap_pages_def
    by (simp add: qemu_layout_def PAGE_SIZE_def MAX_PAGES_def)
  then have p: "power_on demo_cfg (img_demo\<lparr>init_size := 100\<rparr>) (boot_demo\<lparr>ram := ?m\<rparr>)"
    by (simp add: power_on_def demo_cfg_def below_heap_def img_demo_def) (simp add: qemu_layout_def boot_demo_def)
  have m: "?m (0x80200000 + of_nat (60 + i)) = (hello_str @ [0]) ! i" if "i < 29" for i
  proof -
    have "(0x80200000 + of_nat (60 + i) :: usize) - 0x8020003C = of_nat i" by simp
    moreover have "unat (of_nat i :: usize) = i" using that by (intro unat_of_nat_small) simp
    ultimately show ?thesis using that by simp
  qed
  obtain k0 where "boot_run demo_cfg (img_demo\<lparr>init_size := 100\<rparr>) 0 (boot_demo\<lparr>ram := ?m\<rparr>) = Some k0"
    "\<forall>lbl. lbl ''hello_str'' = tf_sepc (frame k0) + of_nat 60 \<longrightarrow>
      (\<exists>pcs k1. asm_runs (\<lambda>_ _. 0) demo_cfg boot_prog lbl (\<lambda>_. 0, k0) (pcs, k1) \<and>
         uart_tx (dev k1) = rev hello_str @ uart_tx (dev (boot_demo\<lparr>ram := ?m\<rparr>)) \<and>
         pr_state (procs k1 ! 1) = Free \<and> pr_exit_code (procs k1 ! 1) = 0 \<and>
         pr_state (procs k1 ! 2) = BlockedRecv \<and> pr_ipc_target (procs k1 ! 2) = 0)"
    using greeting_printed [OF p, of 60 0 "\<lambda>_ _. 0"] m
    by (auto simp: demo_cfg_def qemu_layout_def UART_BASE_def img_demo_def simp del: of_nat_add)
  then show ?thesis by (fastforce simp: boot_demo_def)
qed

end
