(* ===== verification/Spec2Isabelle.thy ===== *)
theory Spec2Isabelle
  imports Interp_Run Interp_Num Interp_Skip Wasi_Hello Virtio_Rx Userlib_Net Netsrv Security_Test Greeting
begin

text \<open>
  A verification of GooseOS, a small kernel for RISC-V (Sv39) written in Rust.  The sources are under
  \<open>src/kernel/src\<close>.  Every definition of the model translates the function, type or constant named beside
  it in the map; everything is executable.

  \<^bold>\<open>The program.\<close>  One hart runs up to seven user processes in their own address spaces.  A trap enters
  \<open>trap_handler\<close> (\<open>trap.rs\<close>), which saves and restores a \<open>TrapFrame\<close>, dispatches the seventeen syscalls
  through a table and handles timer ticks, device interrupts and faults.  Processes exchange messages by
  synchronous rendezvous (\<open>ipc.rs\<close>), map and free pages and start programs (\<open>syscall.rs\<close>), exit and wait
  (\<open>lifecycle.rs\<close>); \<open>sched.rs\<close> switches between them.  Pages come from a bitmap allocator
  (\<open>page_alloc.rs\<close>) and are mapped by \<open>kvm.rs\<close> with the entry format of \<open>page_table.rs\<close>.  The kernel also
  holds a parser (\<open>wasm.rs\<close>), an interpreter (\<open>interp.rs\<close>) and a host interface (\<open>wasi.rs\<close>) for
  WebAssembly, and, with the feature \<open>net\<close>, a virtio driver (\<open>virtio.rs\<close>) below a network server (\<open>net.rs\<close>).
  The user programs are the two boot programs and the security test in assembly (\<open>lifecycle.rs\<close>) and, under
  \<open>src/userspace\<close>, a library of system call wrappers with a program and a network server process.

  \<^bold>\<open>Theories.\<close>
  \<^item> \<open>Prelude\<close>: the machine's word types, array access that fails out of range, option lemmas.
  \<^item> \<open>Page_Alloc\<close> (\<open>page_alloc.rs\<close>): allocation, freeing and counting on the bitmap refine operations on a
    set of live pages; the boot self-test passes.
  \<^item> \<open>Page_Table\<close> (\<open>page_table.rs\<close>), \<open>Mem\<close>, \<open>Pt_Tree\<close>, \<open>Kvm\<close> (\<open>kvm.rs\<close>): entries, the walk
    against the architecture's translation algorithm on natural numbers (\<open>sv39\<close>), byte-addressed memory as an interpretation of an abstract store, page tables as trees; mapping, unmapping and the
    kernel's own map against their specification as a change of the address space.
  \<^item> \<open>User_Mem\<close> (\<open>kvm.rs\<close>): copying to and from user buffers touches only pages the process may access.
  \<^item> \<open>Abi\<close>, \<open>Elf\<close>, \<open>Devices\<close> (\<open>abi.rs\<close>, \<open>security.rs\<close>, \<open>elf.rs\<close>, \<open>plic.rs\<close>, \<open>uart.rs\<close>): numbers, argument
    checks, the ELF front end against the format read as numbers and without wrap-around, the interrupt
    controller and the UART with its echo loop.
  \<^item> \<open>Process\<close>, \<open>Sched\<close>, \<open>Peer\<close> (\<open>process.rs\<close>, \<open>sched.rs\<close>): the process table inside the record \<open>kernel\<close>,
    the invariant \<open>kernel_inv\<close>, round-robin scheduling against its specification, fairness, and \<open>peer_ok\<close>,
    what a syscall may do to another process.
  \<^item> \<open>Ipc\<close>, \<open>Loader\<close>, \<open>Syscall\<close>, \<open>Lifecycle\<close> (\<open>ipc.rs\<close>, \<open>syscall.rs\<close>, \<open>lifecycle.rs\<close>): every syscall, its
    equation on each branch, and that it keeps \<open>kernel_inv\<close> and isolation.
  \<^item> \<open>Boot\<close>, \<open>Trap\<close>, \<open>Boot_Run\<close> (\<open>lifecycle.rs\<close>, \<open>trap.rs\<close>, \<open>handlers.rs\<close>, \<open>boot.rs\<close>): \<open>launch\<close>, the dispatch
    table and the trap handler; the machine as the inductive relation \<open>machine_step\<close> and its \<open>reachable\<close>
    states; the boot stages from power-on to the first process.
  \<^item> \<open>Wasm\<close>, \<open>Wasm_Enc\<close> (\<open>wasm.rs\<close>): the parser returns only well-formed modules and inverts an
    encoder of the binary format, whose data offsets are signed LEB128 immediates.
  \<^item> \<open>Interp\<close>, \<open>Interp_Safe\<close>, \<open>Interp_Skip\<close>, \<open>Interp_Num\<close>, \<open>Interp_Run\<close> (\<open>interp.rs\<close>): the interpreter; it
    never indexes out of range, finds the matching \<open>end\<close> of a block; each numeric opcode, with its operands
    taken from the stack, computes as the reference semantics over integers; and two ways in which its
    branches differ from WebAssembly, on examples.
  \<^item> \<open>Wasi\<close>, \<open>Wasi_Hello\<close> (\<open>wasi.rs\<close>): the host functions as an interpretation of the interface the
    interpreter calls; running any byte string does not panic; the built-in program prints its greeting.
  \<^item> \<open>Virtio\<close>, \<open>Virtio_Tx\<close>, \<open>Virtio_Rx\<close> (\<open>virtio.rs\<close>, \<open>driver.rs\<close>): the driver; the available rings implement a
    queue; each packet is transmitted exactly once, in whatever order the device completes them; no ring content makes the driver panic; the
    handshake and the receive path.
  \<^item> \<open>Net\<close>, \<open>Net_Safe\<close> (\<open>net.rs\<close> and what the feature adds to \<open>handlers.rs\<close>, \<open>trap.rs\<close> and \<open>boot.rs\<close>): requests
    and the events that drive the stack keep the kernel's invariant and the driver's, and a process blocked
    in a receive is woken with exactly the bytes the stack handed over.
  \<^item> \<open>Contexts\<close>: a process that does not run keeps its registers, up to the result registers of the call
    it waits in, over any interleaving of the other processes, interrupts and kills; so a preempted process
    goes on where it was, and a system call returns behind its \<open>ecall\<close>.  The argument is made once, in the
    locale \<open>resting\<close>, and used twice: for parked processes up to result registers, and for ready processes
    exactly, as long as no \<open>SYS_YIELD\<close> hands them the hart.
  \<^item> \<open>Userlib\<close>, \<open>Userlib_Net\<close>, \<open>Netsrv\<close> (\<open>src/userspace\<close>): each wrapper as the registers its assembly block loads
    and declares as outputs; the declared outputs are all the kernel changes, with the exceptions listed as
    findings; what the programs print, send and answer.
  \<^item> \<open>Launch\<close>, \<open>Asm\<close>, \<open>Security_Test\<close>, \<open>Greeting\<close> (\<open>lifecycle.rs\<close>): the builds of \<open>launch\<close>, the instructions the
    assembly programs use, and the programs; the security test sees all its attempts refused, and from
    power-on the two boot programs print their greeting.

  \<^bold>\<open>Modelling.\<close>  The kernel's statics are one record passed through the operations; a panic, a failed
  assertion and an index out of range are \<open>None\<close>; \<open>Result\<close> is a sum.  Integers keep their width and wrap as
  in the release build; register values index arrays through \<open>unat\<close>.  Memory is a function from addresses
  to bytes for the kernel and a byte list for WebAssembly.  Log output is left out, except where it is the
  effect in question (the UART).  The model is of the default build for QEMU; what the feature \<open>net\<close> adds
  is in \<open>Net\<close>.  The statics are kept apart from the bytes of memory: what a process that has got hold of a
  page table could write over them by its own stores is outside the model, as \<open>user_writes\<close> changes bytes
  of memory only.

  \<^bold>\<open>Parameters.\<close>  Linker symbols (\<open>layout\<close>), addresses of kernel code (\<open>kcfg\<close>), the boot programs
  (\<open>boot_images\<close>), the bytes a syscall reads directly from user memory (\<open>uload\<close>) and the inputs of a trap
  (\<open>trap_event\<close>) are arguments.  So are the TCP/IP library smoltcp (\<open>smoltcp\<close>), of which \<open>stack_ok\<close> says that
  a receive fills at most the slice it is given and that a packet it sends fits the MTU of 1514 bytes the
  adapter reports, the device behind the virtio registers (\<open>mmio_device\<close>) and
  the addresses of the driver's buffers (\<open>dma_layout\<close>).  The device acts between driver calls, as steps of
  the relation \<open>tx_step\<close>.  A poll of the stack is a program of
  token requests (\<open>poll_prog\<close>), which \<open>run_poll\<close> serves from the driver's state.  Theorems with such a hypothesis have an instance with a concrete parameter.

  \<^bold>\<open>Loops.\<close>  Every loop of the kernel is a total function: over a list of indices, or with a measure (\<open>reclaim_tx\<close>
  by the distance of two ring indices, the echo loop by the bytes waiting, copying by the bytes left).
  The interpreter's main loop runs a program that need not stop; it is a \<open>partial_function\<close> whose value
  \<open>None\<close> is not returning, its steps are total, and the programs for which a result is claimed are shown
  to reach it.

  \<^bold>\<open>User code.\<close>  In the machine relation user code between two traps is arbitrary.  The programs of this
  repository are run on top of it.  The Rust programs are the sequence of their system calls, with the
  registers of the assembly blocks; the assembly programs are run instruction by instruction, with the
  index of the next instruction of each process in place of the program counter, loads and stores through
  its page table, a UART transmitter that is always ready, and no interrupts between the instructions
  (what an interrupt leaves of a process is the subject of \<open>Contexts\<close>).

  \<^bold>\<open>Not modelled.\<close>  Formatting, log and dump macros (\<open>console.rs\<close>), the entry point and the panic handler
  (\<open>main.rs\<close>), the method signatures of the driver traits (\<open>driver.rs\<close>), CSR and SBI instructions beyond the
  registers of the model, the trap entry in assembly, the encoding of instructions, the network test of the
  \<open>hello\<close> program's \<open>net\<close> feature, the VisionFive 2 build, the unit tests, and the scaffold of a successor
  under \<open>src/wari\<close>, which holds no kernel logic yet.  None of these holds state the rest of the model
  reads.  Interrupts are not taken while the kernel boots or handles a trap.
\<close>

end
